(* ===== verification/Prelude.thy ===== *)
theory Prelude
  imports Main "HOL-Library.Word" "HOL-Library.Monad_Syntax"
begin

text \<open>
  What every component of the development shares: the machine integers of
  \<^verbatim>\<open>src/core/basic_defs.h\<close>, the effect of \<open>ASSERT\<close> and \<open>Panic\<close> of
  \<^verbatim>\<open>src/lib/util\<close>, the memory image of an integer on the little-endian hosts
  the program runs on, and \<open>memcpy\<close> in and out of an allocation.

  A C function that may stop the process (\<open>ASSERT\<close>, \<open>Panic\<close>) or whose behaviour may
  be undefined (an access outside an allocation) is a function into \<open>option\<close>:
  \<^const>\<open>None\<close> is the stopped or undefined execution. Return codes are booleans,
  \<^const>\<open>True\<close> for a non-zero (failing) code.
\<close>

unbundle bit_operations_syntax

type_synonym byte = "8 word"
type_synonym u16 = "16 word"
type_synonym u32 = "32 word"
type_synonym u64 = "64 word"
type_synonym uint160 = "160 word"
type_synonym uint256 = "256 word"

text \<open>Collections: facts about readers, about writers, and the equations that
  evaluate the model on concrete inputs.\<close>

named_theorems reads_intros \<open>introduction rules for safe readers\<close>
named_theorems appends_intros \<open>introduction rules for appending writers\<close>
named_theorems read_eqs \<open>results of a reader on an encoded prefix\<close>

subsection \<open>Assertions and memory\<close>

definition ASSERT :: "bool \<Rightarrow> unit option" where
  "ASSERT c = (if c then Some () else None)"

text \<open>An allocation is \<^const>\<open>None\<close> for a null pointer and the list of its bytes
  otherwise; reading or writing outside of it is undefined.\<close>

type_synonym memory = "byte list option"

definition mem_read :: "memory \<Rightarrow> nat \<Rightarrow> nat \<Rightarrow> byte list option" where
  "mem_read m p n = (case m of None \<Rightarrow> None
     | Some bs \<Rightarrow> if p + n \<le> length bs then Some (take n (drop p bs)) else None)"

definition mem_write :: "memory \<Rightarrow> nat \<Rightarrow> byte list \<Rightarrow> memory option" where
  "mem_write m p src = (case m of None \<Rightarrow> None
     | Some bs \<Rightarrow> if p + length src \<le> length bs
         then Some (Some (take p bs @ src @ drop (p + length src) bs)) else None)"

text \<open>Bytes of fresh memory are indeterminate in C; the model fills them with zero.
  The theorems about buffers speak only of bytes that were written.\<close>

definition safe_malloc :: "nat \<Rightarrow> byte list" where
  "safe_malloc n = replicate n 0"

definition safe_realloc :: "memory \<Rightarrow> nat \<Rightarrow> byte list" where
  "safe_realloc m n = (let bs = (case m of None \<Rightarrow> [] | Some bs \<Rightarrow> bs)
     in take n bs @ replicate (n - length bs) 0)"

text \<open>A file is the list of its bytes; writing beyond the end fills the hole with zeros.\<close>

definition file_store :: "byte list \<Rightarrow> nat \<Rightarrow> byte list \<Rightarrow> byte list" where
  "file_store file offset bs =
     (let file = file @ replicate (offset - length file) 0
      in take offset file @ bs @ drop (offset + length bs) file)"

text \<open>The values of \<open>errno.h\<close> on Linux.\<close>

definition EINVAL :: int where "EINVAL = 22"
definition ENETDOWN :: int where "ENETDOWN = 100"
definition ENETUNREACH :: int where "ENETUNREACH = 101"
definition ETIMEDOUT :: int where "ETIMEDOUT = 110"
definition EHOSTUNREACH :: int where "EHOSTUNREACH = 113"

subsection \<open>Little-endian images of integers\<close>

definition le_bytes :: "'a::len word \<Rightarrow> byte list" where
  "le_bytes w = map (\<lambda>i. ucast (drop_bit (8 * i) w)) [0..<LENGTH('a) div 8]"

primrec le_word :: "byte list \<Rightarrow> 'a::len word" where
  "le_word [] = 0"
| "le_word (b # bs) = ucast b OR push_bit 8 (le_word bs)"

subsection \<open>Shared facts\<close>

lemma ASSERT_bind [simp]: "ASSERT c \<bind> f = (if c then f () else None)"
  by (simp add: ASSERT_def)

lemma ASSERT_eq_Some [simp]: "ASSERT c = Some u \<longleftrightarrow> c"
  by (simp add: ASSERT_def)

lemma unat_of_nat_small:
  "n < 2 ^ LENGTH('a) \<Longrightarrow> unat (of_nat n :: 'a::len word) = n"
  by (simp add: unsigned_of_nat take_bit_nat_eq_self)

lemma length_le_bytes [simp]: "length (le_bytes (w :: 'a::len word)) = LENGTH('a) div 8"
  by (simp add: le_bytes_def)

lemma bit_le_word:
  "bit (le_word bs :: 'a::len word) n \<longleftrightarrow>
     n < LENGTH('a) \<and> n < 8 * length bs \<and> bit (bs ! (n div 8)) (n mod 8)"
proof (induction bs arbitrary: n)
  case Nil
  then show ?case by simp
next
  case (Cons b bs)
  show ?case
  proof (cases "n < 8")
    case True
    then show ?thesis
      by (auto simp: bit_or_iff bit_push_bit_iff bit_ucast_iff)
  next
    case False
    have b: "\<not> bit b n" using False bit_imp_le_length [of b n] by auto
    have d: "n div 8 = Suc ((n - 8) div 8)" "n mod 8 = (n - 8) mod 8"
      using False by (simp_all add: le_div_geq le_mod_geq)
    show ?thesis
      using False b by (auto simp: bit_or_iff bit_push_bit_iff bit_ucast_iff Cons.IH d)
  qed
qed

lemma le_word_le_bytes [simp]:
  assumes "8 dvd LENGTH('a)"
  shows "le_word (le_bytes w) = (w :: 'a::len word)"
proof (rule bit_word_eqI)
  fix n
  assume n: "n < LENGTH('a)"
  with assms have "n div 8 < LENGTH('a) div 8" by auto
  moreover have "8 * (n div 8) + n mod 8 = n" by simp
  ultimately show "bit (le_word (le_bytes w) :: 'a word) n = bit w n"
    using n assms
    by (auto simp: bit_le_word le_bytes_def bit_ucast_iff bit_drop_bit_eq)
qed

lemma le_bytes_le_word [simp]:
  assumes "8 dvd LENGTH('a)" and len: "length bs = LENGTH('a) div 8"
  shows "le_bytes (le_word bs :: 'a::len word) = bs"
proof (rule nth_equalityI)
  show "length (le_bytes (le_word bs :: 'a word)) = length bs" by (simp add: len)
  fix i
  assume "i < length (le_bytes (le_word bs :: 'a word))"
  then have i: "i < LENGTH('a) div 8" by simp
  show "le_bytes (le_word bs :: 'a word) ! i = bs ! i"
  proof (rule bit_word_eqI)
    fix n
    assume "n < LENGTH(8)"
    then have n: "n < 8" by simp
    with i assms(1) have "8 * i + n < LENGTH('a)" by auto
    moreover have "(8 * i + n) div 8 = i" "(8 * i + n) mod 8 = n" using n by simp_all
    moreover have "8 * i + n < 8 * length bs" using n i len by simp
    ultimately show "bit (le_bytes (le_word bs :: 'a word) ! i) n = bit (bs ! i) n"
      using i n by (simp add: le_bytes_def bit_ucast_iff bit_drop_bit_eq bit_le_word)
  qed
qed

lemma file_store_at_end: "offset = length file \<Longrightarrow> file_store file offset bs = file @ bs"
  by (simp add: file_store_def)

lemma file_store_inside: "offset + length bs \<le> length file \<Longrightarrow> file_store file offset bs = take offset file @ bs @ drop (offset + length bs) file"
  by (simp add: file_store_def)

lemma length_file_store [simp]: "length (file_store file offset bs) = max (length file) (offset + length bs)"
  by (auto simp: file_store_def Let_def)

lemma take_file_store: "n \<le> offset \<Longrightarrow> n \<le> length file \<Longrightarrow> take n (file_store file offset bs) = take n file"
  by (simp add: file_store_def Let_def)

lemma those_map: "(\<And>x. x \<in> set xs \<Longrightarrow> f x = Some (g x)) \<Longrightarrow> those (map f xs) = Some (map g xs)"
  by (induction xs) simp_all

section \<open>Runs\<close>

text \<open>A list of operations, one after the other.\<close>

primrec run_steps :: "('o \<Rightarrow> 's \<Rightarrow> 's option) \<Rightarrow> 'o list \<Rightarrow> 's \<Rightarrow> 's option" where
  "run_steps stp [] s = Some s"
| "run_steps stp (op # ops) s = do { s \<leftarrow> stp op s; run_steps stp ops s }"

lemma run_steps_append: "run_steps stp (ops @ ops') s = run_steps stp ops s \<bind> run_steps stp ops'"
  by (induction ops arbitrary: s) (simp_all add: Option.bind_assoc)

text \<open>Operations that keep an invariant and, in doing so, change the state along a preorder.\<close>

locale guarded_run =
  fixes ok :: "'s \<Rightarrow> bool" and rel :: "'s \<Rightarrow> 's \<Rightarrow> bool" and stp :: "'o \<Rightarrow> 's \<Rightarrow> 's option"
  assumes rel_refl: "rel s s" and rel_trans: "rel s t \<Longrightarrow> rel t u \<Longrightarrow> rel s u"
    and step_law: "ok s \<Longrightarrow> stp op s = Some s' \<Longrightarrow> ok s' \<and> rel s s'"
begin

lemma run_law: "ok s \<Longrightarrow> run_steps stp ops s = Some s' \<Longrightarrow> ok s' \<and> rel s s'"
proof (induction ops arbitrary: s)
  case (Cons op ops)
  obtain t where t: "stp op s = Some t" "run_steps stp ops t = Some s'" using Cons.prems(2) by (cases "stp op s") auto
  then show ?case using step_law [OF Cons.prems(1) t(1)] Cons.IH [of t] rel_trans by blast
qed (simp add: rel_refl)

end

text \<open>Operations that are also those of a specification, seen through an abstraction, down to where they stop.\<close>

locale refinement = guarded_run +
  fixes abs :: "'a \<Rightarrow> 'c" and spec :: "'b \<Rightarrow> 'c \<Rightarrow> 'c option"
  assumes refines_law: "ok s \<Longrightarrow> map_option abs (stp op s) = spec op (abs s)"
begin

lemma run_refines: "ok s \<Longrightarrow> map_option abs (run_steps stp ops s) = run_steps spec ops (abs s)"
proof (induction ops arbitrary: s)
  case (Cons op ops)
  note r = refines_law [OF Cons.prems, of op]
  show ?case
  proof (cases "stp op s")
    case (Some t)
    then show ?thesis using step_law [OF Cons.prems Some] Cons.IH [of t] r by (simp flip: r)
  qed (simp flip: r)
qed simp

end

end
