(* ===== verification/Circlist.thy ===== *)
theory Circlist
  imports Prelude
begin

text \<open>
  The circular doubly linked lists of \<^verbatim>\<open>src/core/circlist.h\<close>, which hold the peers, the timers and the
  descriptors: operations on an explicit heap, and the list of addresses that a ring stands for.

  An address is a natural number; the heap maps it to the item at it, when there is one. Following a
  null or a dangling pointer gives no result.
\<close>

record circlist_item =
  ci_prev :: "nat option"
  ci_next :: "nat option"

type_synonym heap = "nat \<Rightarrow> circlist_item option"

definition set_prev :: "nat option \<Rightarrow> nat option \<Rightarrow> heap \<Rightarrow> heap option" where
  "set_prev p v h = do { p \<leftarrow> p; i \<leftarrow> h p; Some (h(p \<mapsto> i\<lparr>ci_prev := v\<rparr>)) }"

definition set_next :: "nat option \<Rightarrow> nat option \<Rightarrow> heap \<Rightarrow> heap option" where
  "set_next p v h = do { p \<leftarrow> p; i \<leftarrow> h p; Some (h(p \<mapsto> i\<lparr>ci_next := v\<rparr>)) }"

definition circlist_next_item :: "heap \<Rightarrow> nat option \<Rightarrow> nat option \<Rightarrow> nat option option" where
  "circlist_next_item h p head = (case (head, p) of
       (Some _, Some a) \<Rightarrow> do { i \<leftarrow> h a; Some (if ci_next i = head then None else ci_next i) }
     | _ \<Rightarrow> Some None)"

definition circlist_prev_item :: "heap \<Rightarrow> nat option \<Rightarrow> nat option \<Rightarrow> nat option option" where
  "circlist_prev_item h p head = (case (head, p) of
       (Some _, Some a) \<Rightarrow> if p = head then Some None else do { i \<leftarrow> h a; Some (ci_prev i) }
     | _ \<Rightarrow> Some None)"

definition circlist_empty :: "nat option \<Rightarrow> bool" where
  "circlist_empty list \<longleftrightarrow> list = None"

definition circlist_init_item :: "nat \<Rightarrow> heap \<Rightarrow> heap option" where
  "circlist_init_item li h = do { h \<leftarrow> set_prev (Some li) None h; set_next (Some li) None h }"

definition circlist_queue_item :: "nat option \<Rightarrow> nat \<Rightarrow> heap \<Rightarrow> (nat option \<times> heap) option" where
  "circlist_queue_item list item h =
     (if circlist_empty list then do {
        h \<leftarrow> set_prev (Some item) (Some item) h;
        h \<leftarrow> set_next (Some item) (Some item) h;
        Some (Some item, h)
      }
      else do {
        li \<leftarrow> list;
        i \<leftarrow> h li;
        h \<leftarrow> set_prev (Some item) (ci_prev i) h;
        h \<leftarrow> set_next (Some item) list h;
        i \<leftarrow> h item;
        h \<leftarrow> set_next (ci_prev i) (Some item) h;
        h \<leftarrow> set_prev list (Some item) h;
        Some (list, h)
      })"

definition circlist_push_item :: "nat option \<Rightarrow> nat \<Rightarrow> heap \<Rightarrow> (nat option \<times> heap) option" where
  "circlist_push_item list item h = do {
     (list, h) \<leftarrow> circlist_queue_item list item h;
     Some (Some item, h)
   }"

definition circlist_delete_item :: "nat option \<Rightarrow> nat \<Rightarrow> heap \<Rightarrow> (nat option \<times> heap) option" where
  "circlist_delete_item list item h = do {
     i \<leftarrow> h item;
     if ci_next i = Some item then Some (None, h)
     else do {
       let next = ci_next i;
       h \<leftarrow> set_prev next (ci_prev i) h;
       i \<leftarrow> h item;
       h \<leftarrow> set_next (ci_prev i) next h;
       Some (if list = Some item then next else list, h)
     }
   }"

text \<open>The loop \<open>CIRCLIST_SCAN\<close>, as the addresses it visits; \<open>n\<close> bounds the steps.\<close>

fun scan :: "nat \<Rightarrow> heap \<Rightarrow> nat option \<Rightarrow> nat option \<Rightarrow> nat list option" where
  "scan n h list None = Some []"
| "scan 0 h list (Some p) = None"
| "scan (Suc n) h list (Some p) = do {
     i \<leftarrow> h p;
     ps \<leftarrow> scan n h list (if ci_next i = list then None else ci_next i);
     Some (p # ps)
   }"

section \<open>Rings\<close>

text \<open>The pairs of neighbours in a list.\<close>

fun adj :: "'a list \<Rightarrow> ('a \<times> 'a) list" where
  "adj (x # y # ys) = (x, y) # adj (y # ys)"
| "adj _ = []"

definition linked_pair :: "heap \<Rightarrow> nat \<times> nat \<Rightarrow> bool" where
  "linked_pair h p \<longleftrightarrow> (\<exists>i j. h (fst p) = Some i \<and> h (snd p) = Some j \<and> ci_next i = Some (snd p) \<and> ci_prev j = Some (fst p))"

definition ring :: "heap \<Rightarrow> nat option \<Rightarrow> nat list \<Rightarrow> bool" where
  "ring h list xs \<longleftrightarrow> distinct xs \<and> (if xs = [] then list = None
     else list = Some (hd xs) \<and> (\<forall>p \<in> set (adj xs) \<union> {(last xs, hd xs)}. linked_pair h p))"

lemma adj_append: "adj (xs @ ys) = adj xs @ (if xs \<noteq> [] \<and> ys \<noteq> [] then [(last xs, hd ys)] else []) @ adj ys"
proof (induction xs)
  case (Cons x xs)
  then show ?case by (cases xs; cases ys) simp_all
qed simp

lemma adj_set: "(a, b) \<in> set (adj xs) \<Longrightarrow> a \<in> set (butlast xs) \<and> b \<in> set (tl xs)"
  by (induction xs rule: adj.induct) auto

lemma adj_distinct:
  assumes "distinct xs" and "(a, b) \<in> set (adj xs)"
  shows "a \<noteq> last xs" "b \<noteq> hd xs" "a \<in> set xs" "b \<in> set xs"
proof -
  have ab: "a \<in> set (butlast xs)" "b \<in> set (tl xs)" using adj_set [OF assms(2)] by auto
  then have "xs \<noteq> []" by auto
  then have "last xs \<notin> set (butlast xs)" using assms(1) by (metis append_butlast_last_id distinct_butlast not_distinct_conv_prefix)
  with ab show "a \<noteq> last xs" by blast
  show "b \<noteq> hd xs" using ab assms(1) by (cases xs) auto
  show "a \<in> set xs" "b \<in> set xs" using ab by (auto dest: in_set_butlastD list.set_sel(2) [OF \<open>xs \<noteq> []\<close>])
qed

lemma linked_pairD: "linked_pair h (a, b) \<Longrightarrow> \<exists>i j. h a = Some i \<and> h b = Some j \<and> ci_next i = Some b \<and> ci_prev j = Some a"
  by (simp add: linked_pair_def)

lemma queue_ok:
  assumes "ring h list xs" and "item \<notin> set xs" and "h item \<noteq> None" and "xs \<noteq> []"
  shows "\<exists>h'. circlist_queue_item list item h = Some (list, h') \<and> ring h' list (xs @ [item]) \<and>
    ring h' (Some item) (item # xs) \<and> (\<forall>a. a \<notin> set xs \<and> a \<noteq> item \<longrightarrow> h' a = h a) \<and> dom h' = dom h"
proof -
  define z where "z = last xs"
  define li where "li = hd xs"
  have r: "distinct xs" "list = Some li" "linked_pair h (z, li)" "\<And>p. p \<in> set (adj xs) \<Longrightarrow> linked_pair h p"
    using assms(1,4) by (auto simp: ring_def z_def li_def)
  obtain iz il where z: "h z = Some iz" "h li = Some il" "ci_next iz = Some li" "ci_prev il = Some z"
    using linked_pairD [OF r(3)] by blast
  obtain it where it: "h item = Some it" using assms(3) by blast
  have mem: "z \<in> set xs" "li \<in> set xs" using assms(4) by (simp_all add: z_def li_def)
  then have ne: "item \<noteq> z" "item \<noteq> li" using assms(2) by auto
  define h' where "h' = (h(item \<mapsto> \<lparr>ci_prev = Some z, ci_next = Some li\<rparr>, z \<mapsto> iz\<lparr>ci_next := Some item\<rparr>))
    (li \<mapsto> (if z = li then iz\<lparr>ci_next := Some item\<rparr> else il)\<lparr>ci_prev := Some item\<rparr>)"
  have q: "circlist_queue_item list item h = Some (list, h')"
    using z it ne by (cases it) (auto simp: circlist_queue_item_def circlist_empty_def r(2) set_prev_def set_next_def h'_def fun_eq_iff)
  have old: "linked_pair h' p" if "p \<in> set (adj xs)" for p
  proof -
    obtain a b where p: "p = (a, b)" by fastforce
    note ad = adj_distinct [OF r(1) that [unfolded p], folded z_def li_def]
    have "a \<noteq> item" "b \<noteq> item" using ad(3,4) assms(2) by auto
    then show ?thesis using linked_pairD [OF r(4) [OF that, unfolded p]] ad(1,2) z
      by (auto simp: p linked_pair_def h'_def)
  qed
  have new: "linked_pair h' (z, item)" "linked_pair h' (item, li)"
    using ne z by (auto simp: linked_pair_def h'_def)
  have "ring h' list (xs @ [item])"
    using old new r(1,2) assms(2,4) by (auto simp: ring_def adj_append z_def li_def)
  moreover have "ring h' (Some item) (item # xs)"
  proof -
    have "adj (item # xs) = (item, li) # adj xs" using assms(4) by (cases xs) (simp_all add: li_def)
    then show ?thesis using old new r(1) assms(2,4) by (simp add: ring_def z_def)
  qed
  moreover have "\<forall>a. a \<notin> set xs \<and> a \<noteq> item \<longrightarrow> h' a = h a" using mem by (auto simp: h'_def)
  moreover have "dom h' = dom h" using z it by (auto simp: h'_def split: if_splits)
  ultimately show ?thesis using q by blast
qed

lemma queue_empty_ok:
  assumes "h item \<noteq> None"
  shows "\<exists>h'. circlist_queue_item None item h = Some (Some item, h') \<and> ring h' (Some item) [item] \<and>
    (\<forall>a. a \<noteq> item \<longrightarrow> h' a = h a) \<and> dom h' = dom h"
  using assms by (auto simp: circlist_queue_item_def circlist_empty_def set_prev_def set_next_def ring_def linked_pair_def)

text \<open>Adding an item to a ring adds its address at the end of the list that the ring stands for, and
  at the front when it is pushed. Nothing outside of the ring and the item changes.\<close>

theorem circlist_add_refines:
  assumes "ring h list xs" and "item \<notin> set xs" and "h item \<noteq> None"
  shows "(\<exists>l h'. circlist_queue_item list item h = Some (l, h') \<and> ring h' l (xs @ [item]) \<and>
      (\<forall>a. a \<notin> set xs \<and> a \<noteq> item \<longrightarrow> h' a = h a)) \<and>
    (\<exists>l h'. circlist_push_item list item h = Some (l, h') \<and> ring h' l (item # xs) \<and>
      (\<forall>a. a \<notin> set xs \<and> a \<noteq> item \<longrightarrow> h' a = h a))"
proof -
  have "\<exists>l h'. circlist_queue_item list item h = Some (l, h') \<and> ring h' l (xs @ [item]) \<and> ring h' (Some item) (item # xs) \<and>
      (\<forall>a. a \<notin> set xs \<and> a \<noteq> item \<longrightarrow> h' a = h a)"
  proof (cases "xs = []")
    case True
    then have "list = None" using assms(1) by (simp add: ring_def)
    then show ?thesis using queue_empty_ok [where item = item and h = h, OF assms(3)] True by auto
  next
    case False
    then show ?thesis using queue_ok [OF assms] by blast
  qed
  then show ?thesis by (auto simp: circlist_push_item_def)
qed

lemma ring_pairs: "ring h list xs \<Longrightarrow> xs \<noteq> [] \<Longrightarrow> p = (last xs, hd xs) \<or> p \<in> set (adj xs) \<Longrightarrow> linked_pair h p"
  by (auto simp: ring_def)

lemma ring_neighbours:
  assumes "ring h list (as @ item # bs)" and "as @ bs \<noteq> []"
  defines "p \<equiv> (if as \<noteq> [] then last as else last bs)" and "n \<equiv> (if bs \<noteq> [] then hd bs else hd as)"
  shows "linked_pair h (p, item)" "linked_pair h (item, n)"
proof -
  show "linked_pair h (p, item)"
    using assms(2) by (intro ring_pairs [OF assms(1)]) (auto simp: adj_append p_def)
  have "adj (item # bs) = (item, hd bs) # adj bs" if "bs \<noteq> []" using that by (cases bs) simp_all
  then show "linked_pair h (item, n)"
    using assms(2) by (intro ring_pairs [OF assms(1)]) (auto simp: adj_append n_def)
qed

text \<open>C26: deleting an item takes its address out of the list that the ring stands for; an item outside of
  the ring is not touched.\<close>

theorem circlist_delete_refines:
  assumes "ring h list (as @ item # bs)"
  shows "\<exists>l h'. circlist_delete_item list item h = Some (l, h') \<and> ring h' l (as @ bs) \<and>
      (\<forall>a. a \<notin> set as \<union> set bs \<longrightarrow> h' a = h a)"
proof (cases "as @ bs = []")
  case True
  then have "linked_pair h (item, item)" using assms by (simp add: ring_def)
  then show ?thesis using True assms by (auto simp: circlist_delete_item_def ring_def linked_pair_def)
next
  case False
  define p where "p = (if as \<noteq> [] then last as else last bs)"
  define n where "n = (if bs \<noteq> [] then hd bs else hd as)"
  have l: "linked_pair h (p, item)" "linked_pair h (item, n)"
    using ring_neighbours [OF assms False] by (simp_all add: p_def n_def)
  obtain ip it inn where i: "h p = Some ip" "h item = Some it" "h n = Some inn" "ci_next ip = Some item" "ci_prev it = Some p"
      "ci_next it = Some n" "ci_prev inn = Some item"
    using linked_pairD [OF l(1)] linked_pairD [OF l(2)] by auto
  have d: "distinct as" "distinct bs" "set as \<inter> set bs = {}" "item \<notin> set as" "item \<notin> set bs"
    using assms by (auto simp: ring_def)
  have pn: "p \<in> set as \<union> set bs" "n \<in> set as \<union> set bs" using False by (auto simp: p_def n_def split: if_splits)
  then have ne: "p \<noteq> item" "n \<noteq> item" using d by auto
  define h' where "h' = (h(n \<mapsto> inn\<lparr>ci_prev := Some p\<rparr>))
    (p \<mapsto> (if p = n then inn\<lparr>ci_prev := Some p\<rparr> else ip)\<lparr>ci_next := Some n\<rparr>)"
  have del: "circlist_delete_item list item h = Some (if list = Some item then Some n else list, h')"
    using i ne by (auto simp: circlist_delete_item_def Let_def set_prev_def set_next_def h'_def fun_eq_iff)
  have old: "linked_pair h' q" if "linked_pair h q" "fst q \<noteq> p" "snd q \<noteq> n" for q
    using that i ne by (auto simp: linked_pair_def h'_def)
  have new: "linked_pair h' (p, n)" using i by (auto simp: linked_pair_def h'_def)
  have all: "linked_pair h q" if "q \<in> set (adj (as @ item # bs)) \<union> {(last (as @ item # bs), hd (as @ item # bs))}" for q
    using assms that by (auto simp: ring_def)
  have as: "linked_pair h' q" if q: "q \<in> set (adj as)" for q
  proof (rule old)
    show "linked_pair h q" using q by (intro all) (simp add: adj_append)
    have "as \<noteq> []" using q by auto
    moreover have "bs \<noteq> [] \<Longrightarrow> hd bs \<notin> set as" using d(3) hd_in_set by blast
    ultimately show "fst q \<noteq> p" "snd q \<noteq> n"
      using adj_distinct [OF d(1), of "fst q" "snd q"] q d(3) by (auto simp: p_def n_def)
  qed
  have bs: "linked_pair h' q" if q: "q \<in> set (adj bs)" for q
  proof (rule old)
    show "linked_pair h q" using q by (intro all) (cases bs; simp add: adj_append)
    have "bs \<noteq> []" using q by auto
    moreover have "as \<noteq> [] \<Longrightarrow> last as \<notin> set bs" using d(3) last_in_set by blast
    ultimately show "fst q \<noteq> p" "snd q \<noteq> n"
      using adj_distinct [OF d(2), of "fst q" "snd q"] q d(3) by (auto simp: p_def n_def)
  qed
  have close: "linked_pair h' (last bs, hd as)" if ab: "as \<noteq> []" "bs \<noteq> []"
  proof (rule old)
    show "linked_pair h (last bs, hd as)" using ab by (intro all) simp
    have "last bs \<noteq> last as" using ab d(3) by (metis disjoint_iff last_in_set)
    moreover have "hd as \<noteq> hd bs" using ab d(3) by (metis disjoint_iff hd_in_set)
    ultimately show "fst (last bs, hd as) \<noteq> p" "snd (last bs, hd as) \<noteq> n"
      using ab by (simp_all add: p_def n_def)
  qed
  have "ring h' (if list = Some item then Some n else list) (as @ bs)"
    using assms as bs close new d False
    by (cases "as = []"; cases "bs = []") (auto simp: ring_def adj_append p_def n_def)
  moreover have "\<forall>a. a \<notin> set as \<union> set bs \<longrightarrow> h' a = h a" using pn by (auto simp: h'_def)
  ultimately show ?thesis using del by auto
qed

lemma scan_from:
  assumes "ring h list (as @ x # bs)" and "length bs < n"
  shows "scan n h list (Some x) = Some (x # bs)"
  using assms
proof (induction bs arbitrary: as x n)
  case Nil
  then obtain m where n: "n = Suc m" by (cases n) simp_all
  have "linked_pair h (x, hd (as @ [x]))" "list = Some (hd (as @ [x]))" using Nil.prems by (auto simp: ring_def split: if_splits)
  then show ?case unfolding n by (auto simp: linked_pair_def)
next
  case (Cons y bs)
  obtain m where n: "n = Suc m" using Cons.prems by (cases n) simp_all
  have "linked_pair h (x, y)" by (rule ring_pairs [OF Cons.prems(1)]) (simp_all add: adj_append)
  moreover have "list = Some (hd (as @ [x]))" "hd (as @ [x]) \<noteq> y"
    using Cons.prems(1) by (cases as; simp add: ring_def)+
  moreover have "scan m h list (Some y) = Some (y # bs)"
    using Cons.IH [of "as @ [x]" y m] Cons.prems n by simp
  ultimately show ?case unfolding n by (auto simp: linked_pair_def)
qed

text \<open>A scan of a ring visits each of its items once, in order, and ends.\<close>

theorem scan_visits_all:
  assumes "ring h list xs"
  shows "scan (length xs) h list list = Some xs"
proof (cases xs)
  case (Cons x bs)
  then have "list = Some x" using assms by (simp add: ring_def)
  then show ?thesis using scan_from [of h list "[]" x bs "length xs"] assms Cons by (simp del: scan.simps)
qed (use assms in \<open>simp add: ring_def\<close>)

section \<open>Examples\<close>

definition two_ring :: heap where
  "two_ring = [1 \<mapsto> \<lparr>ci_prev = Some 2, ci_next = Some 2\<rparr>, 2 \<mapsto> \<lparr>ci_prev = Some 1, ci_next = Some 1\<rparr>, 3 \<mapsto> \<lparr>ci_prev = None, ci_next = None\<rparr>]"

lemma two_ring: "ring two_ring (Some 1) [1, 2]"
  by (auto simp: ring_def two_ring_def linked_pair_def)

theorem circlist_add_refines_witness:
  "\<exists>l h'. circlist_queue_item (Some 1) 3 two_ring = Some (l, h') \<and> ring h' l [1, 2, 3]"
  using circlist_add_refines [OF two_ring, of 3] by (auto simp: two_ring_def)

theorem circlist_delete_refines_witness:
  "\<exists>l h'. circlist_delete_item (Some 1) 1 two_ring = Some (l, h') \<and> ring h' l [2]"
  using circlist_delete_refines [of two_ring "Some 1" "[]" 1 "[2]"] two_ring by auto

theorem scan_visits_all_witness: "scan 2 two_ring (Some 1) (Some 1) = Some [1, 2]"
  using scan_visits_all [OF two_ring] by (simp add: numeral_2_eq_2)

end
