(* ===== verification/Hashtable.thy ===== *)
theory Hashtable
  imports Prelude "HOL-Library.Multiset"
begin

text \<open>
  The chained hash table of \<^verbatim>\<open>src/lib/hashtable/hashtable.c\<close> with its hash
  function (\<^verbatim>\<open>src/ext/src/MurmurHash3/MurmurHash3.c\<close>) and \<open>util_log2\<close> of
  \<^verbatim>\<open>src/lib/util/util.c\<close>. The chain of a bucket is a list, in the order of its
  \<open>next\<close> pointers; a key is its bytes, whose number is \<open>keyLen\<close>; the client data has
  any type. The table's counters keep their C widths.

  The locale \<open>key_store\<close> states what the clients of the table rely on: lookups after
  insertions and removals behave like a finite map from keys to client data.
\<close>

section \<open>The hash function\<close>

definition ROTL32 :: "u32 \<Rightarrow> nat \<Rightarrow> u32" where
  "ROTL32 x r = push_bit r x OR drop_bit (32 - r) x"

definition murmur_k :: "u32 \<Rightarrow> u32" where
  "murmur_k k1 = ROTL32 (k1 * 0xcc9e2d51) 15 * 0x1b873593"

text \<open>The loop over the four-byte blocks, which leaves the tail: up to three bytes, put
  together in little-endian order like the blocks.\<close>

function (sequential) murmur_blocks :: "u32 \<Rightarrow> byte list \<Rightarrow> u32 \<times> byte list" where
  "murmur_blocks h1 (b0 # b1 # b2 # b3 # bs) =
     murmur_blocks (ROTL32 (h1 XOR murmur_k (le_word [b0, b1, b2, b3])) 13 * 5 + 0xe6546b64) bs"
| "murmur_blocks h1 bs = (h1, bs)"
  by pat_completeness auto
termination by (relation "measure (length \<circ> snd)") simp_all

definition MurmurHash3 :: "byte list \<Rightarrow> u32 \<Rightarrow> u32" where
  "MurmurHash3 key seed =
     (let (h1, tail) = murmur_blocks seed key;
          h1 = (if tail = [] then h1 else h1 XOR murmur_k (le_word tail));
          h1 = h1 XOR of_nat (length key);
          h1 = h1 XOR drop_bit 16 h1;
          h1 = h1 * 0x85ebca6b;
          h1 = h1 XOR drop_bit 13 h1;
          h1 = h1 * 0xc2b2ae35
      in h1 XOR drop_bit 16 h1)"

text \<open>\<open>util_log2\<close>: the number of shifts until zero, less one.\<close>

function log2_loop :: "u32 \<Rightarrow> u32 \<Rightarrow> u32" where
  "log2_loop v i = (if v = 0 then i else log2_loop (drop_bit 1 v) (i + 1))"
  by auto
termination
proof (relation "measure (\<lambda>(v, i). unat v)")
  fix v i :: u32
  assume "v \<noteq> 0"
  then have "0 < unat v" by (simp add: unat_gt_0)
  then show "((drop_bit 1 v, i + 1), v, i) \<in> measure (\<lambda>(v, i). unat v)"
    by (simp add: drop_bit_eq_div unat_div_distrib)
qed simp

declare log2_loop.simps [simp del]

definition util_log2 :: "u32 \<Rightarrow> byte" where
  "util_log2 v = (let i = log2_loop v 0 in ucast (if i \<noteq> 0 then i - 1 else i))"

section \<open>The table\<close>

definition HASH_DEFAULT_NUM_BUCKETS :: u32 where "HASH_DEFAULT_NUM_BUCKETS = 256"
definition HASH_DEFAULT_FACTOR :: u32 where "HASH_DEFAULT_FACTOR = 4"

record 'a hashtable_entry =
  he_clientData :: 'a
  he_key :: "byte list"

record 'a hashtable =
  ht_numBuckets :: u32
  ht_count :: u32
  ht_numBits :: byte
  ht_buckets :: "'a hashtable_entry list list"

text \<open>The folding loop of \<open>hashtable_compute_hash\<close> may not end for arbitrary arguments (a
  mask of zero); no result is the value \<^const>\<open>None\<close>.\<close>

partial_function (option) fold_hash :: "u32 \<Rightarrow> byte \<Rightarrow> u32 \<Rightarrow> u32 option" where
  [code]: "fold_hash msk numBits h =
     (if msk < h then fold_hash msk numBits ((h AND msk) XOR drop_bit (unat numBits) h) else Some h)"

definition hashtable_compute_hash :: "u32 \<Rightarrow> byte \<Rightarrow> byte list \<Rightarrow> u32 option" where
  "hashtable_compute_hash numBuckets numBits key = do {
     h \<leftarrow> fold_hash (numBuckets - 1) numBits (MurmurHash3 key 0x5678);
     ASSERT (h < numBuckets);
     Some h
   }"

definition hashtable_getemptybuckets :: "'a hashtable \<Rightarrow> u32" where
  "hashtable_getemptybuckets ht =
     fold (\<lambda>es count. if es = [] then count + 1 else count) (ht_buckets ht) 0"

definition hashtable_getmaxdepth :: "'a hashtable \<Rightarrow> u32" where
  "hashtable_getmaxdepth ht = fold (\<lambda>es depth. max depth (of_nat (length es))) (ht_buckets ht) 0"

definition hashtable_getnumentries :: "'a hashtable \<Rightarrow> u32" where
  "hashtable_getnumentries ht = ht_count ht"

text \<open>The outer result is \<^const>\<open>None\<close> at the \<open>Panic\<close>; the inner one is the entry, or
  \<^const>\<open>None\<close> for the null key.\<close>

definition hashtable_get_entry_idx ::
  "'a hashtable \<Rightarrow> u64 \<Rightarrow> (byte list \<times> 'a) option option" where
  "hashtable_get_entry_idx ht idx =
     (if ucast (ht_count ht) < idx then Some None
      else (let es = concat (ht_buckets ht) in
        if unat idx < length es
        then Some (Some (he_key (es ! unat idx), he_clientData (es ! unat idx))) else None))"

definition hashtable_lookup_entry ::
  "'a hashtable \<Rightarrow> u32 \<Rightarrow> byte list \<Rightarrow> 'a hashtable_entry option option" where
  "hashtable_lookup_entry ht hash key = do {
     ASSERT (unat hash < length (ht_buckets ht));
     Some (find (\<lambda>e. he_key e = key) (ht_buckets ht ! unat hash))
   }"

definition hashtable_lookup :: "'a hashtable \<Rightarrow> byte list \<Rightarrow> 'a option option" where
  "hashtable_lookup ht key = do {
     hash \<leftarrow> hashtable_compute_hash (ht_numBuckets ht) (ht_numBits ht) key;
     e \<leftarrow> hashtable_lookup_entry ht hash key;
     Some (map_option he_clientData e)
   }"

text \<open>Moving the entries of the old buckets, in order, to the front of their new chains.\<close>

primrec rehash :: "u32 \<Rightarrow> byte \<Rightarrow> 'a hashtable_entry list \<Rightarrow> 'a hashtable_entry list list \<Rightarrow>
   'a hashtable_entry list list option" where
  "rehash numBuckets numBits [] buckets = Some buckets"
| "rehash numBuckets numBits (e # es) buckets = do {
     hash \<leftarrow> hashtable_compute_hash numBuckets numBits (he_key e);
     ASSERT (unat hash < length buckets);
     rehash numBuckets numBits es (buckets[unat hash := e # buckets ! unat hash])
   }"

definition hashtable_check_resize :: "'a hashtable \<Rightarrow> 'a hashtable option" where
  "hashtable_check_resize ht =
     (let numBuckets =
        (if HASH_DEFAULT_FACTOR * ht_numBuckets ht < ht_count ht
         then ht_numBuckets ht * HASH_DEFAULT_FACTOR
         else if ht_count ht < ht_numBuckets ht div HASH_DEFAULT_FACTOR
         then ht_numBuckets ht div HASH_DEFAULT_FACTOR
         else ht_numBuckets ht)
      in if numBuckets \<le> HASH_DEFAULT_NUM_BUCKETS then Some ht
         else if numBuckets = ht_numBuckets ht then Some ht
         else do {
           let numBits = util_log2 numBuckets;
           buckets \<leftarrow> rehash numBuckets numBits (concat (ht_buckets ht)) (replicate (unat numBuckets) []);
           Some (ht\<lparr>ht_numBits := numBits, ht_buckets := buckets, ht_numBuckets := numBuckets\<rparr>)
         })"

definition hashtable_insert ::
  "'a hashtable \<Rightarrow> byte list \<Rightarrow> 'a \<Rightarrow> (bool \<times> 'a hashtable) option" where
  "hashtable_insert ht key clientData = do {
     ht \<leftarrow> hashtable_check_resize ht;
     hash \<leftarrow> hashtable_compute_hash (ht_numBuckets ht) (ht_numBits ht) key;
     e \<leftarrow> hashtable_lookup_entry ht hash key;
     if e \<noteq> None then Some (False, ht)
     else (let e = \<lparr>he_clientData = clientData, he_key = key\<rparr> in
       Some (True, ht\<lparr>ht_buckets := (ht_buckets ht)[unat hash := e # ht_buckets ht ! unat hash],
                       ht_count := ht_count ht + 1\<rparr>))
   }"

definition hashtable_create :: "'a hashtable option" where
  "hashtable_create = do {
     let n = HASH_DEFAULT_NUM_BUCKETS;
     ASSERT (n AND (n - 1) = 0);
     Some \<lparr>ht_numBuckets = n, ht_count = 0, ht_numBits = util_log2 n,
           ht_buckets = replicate (unat n) []\<rparr>
   }"

text \<open>A callback changes the state of its caller and may stop the program.\<close>

primrec for_each_entry ::
  "(byte list \<Rightarrow> 'a \<Rightarrow> 's \<Rightarrow> 's option) \<Rightarrow> 'a hashtable_entry list \<Rightarrow> 's \<Rightarrow> 's option" where
  "for_each_entry cb [] s = Some s"
| "for_each_entry cb (e # es) s = do {
     s \<leftarrow> cb (he_key e) (he_clientData e) s;
     for_each_entry cb es s
   }"

definition hashtable_for_each ::
  "'a hashtable \<Rightarrow> (byte list \<Rightarrow> 'a \<Rightarrow> 's \<Rightarrow> 's option) \<Rightarrow> 's \<Rightarrow> 's option" where
  "hashtable_for_each ht cb s = for_each_entry cb (concat (ht_buckets ht)) s"

definition hashtable_clear_with_callback ::
  "'a hashtable \<Rightarrow> (byte list \<Rightarrow> 'a \<Rightarrow> 's \<Rightarrow> 's option) option \<Rightarrow> 's \<Rightarrow> ('a hashtable \<times> 's) option" where
  "hashtable_clear_with_callback ht cb s = do {
     s \<leftarrow> (case cb of None \<Rightarrow> Some s | Some f \<Rightarrow> for_each_entry f (concat (ht_buckets ht)) s);
     Some (ht\<lparr>ht_buckets := map (\<lambda>_. []) (ht_buckets ht),
              ht_count := ht_count ht - of_nat (length (concat (ht_buckets ht)))\<rparr>, s)
   }"

text \<open>The allocations released are collected in order.\<close>

definition hashtable_free_clientdata :: "byte list \<Rightarrow> 'a \<Rightarrow> 'a list \<Rightarrow> 'a list option" where
  "hashtable_free_clientdata key d freed = Some (freed @ [d])"

definition hashtable_clear_with_free :: "'a hashtable \<Rightarrow> ('a hashtable \<times> 'a list) option" where
  "hashtable_clear_with_free ht = hashtable_clear_with_callback ht (Some hashtable_free_clientdata) []"

definition hashtable_clear :: "'a hashtable \<Rightarrow> 'a hashtable option" where
  "hashtable_clear ht = map_option fst (hashtable_clear_with_callback ht None ())"

definition hashtable_destroy :: "'a hashtable \<Rightarrow> unit option" where
  "hashtable_destroy ht = do {
     ASSERT (ht_count ht = 0);
     _ \<leftarrow> hashtable_clear ht;
     Some ()
   }"

text \<open>Unlinking the entry that the lookup found, the first of its chain with the key.\<close>

fun unlink_entry :: "byte list \<Rightarrow> 'a hashtable_entry list \<Rightarrow> 'a hashtable_entry list option" where
  "unlink_entry key [] = None"
| "unlink_entry key (e # es) = (if he_key e = key then Some es else map_option ((#) e) (unlink_entry key es))"

definition hashtable_remove :: "'a hashtable \<Rightarrow> byte list \<Rightarrow> (bool \<times> 'a hashtable) option" where
  "hashtable_remove ht key = do {
     ht \<leftarrow> hashtable_check_resize ht;
     hash \<leftarrow> hashtable_compute_hash (ht_numBuckets ht) (ht_numBits ht) key;
     entry \<leftarrow> hashtable_lookup_entry ht hash key;
     if entry = None then Some (False, ht)
     else do {
       es \<leftarrow> unlink_entry key (ht_buckets ht ! unat hash);
       Some (True, ht\<lparr>ht_buckets := (ht_buckets ht)[unat hash := es], ht_count := ht_count ht - 1\<rparr>)
     }
   }"

text \<open>Copies \<open>entry_size\<close> bytes of each client data into one array; the client data are
  allocations. A count of \<open>2 ^ 31\<close> and above is a negative \<open>int\<close>, whose allocation fails.\<close>

definition hashtable_linearize_cb ::
  "nat \<Rightarrow> byte list \<Rightarrow> byte list \<Rightarrow> byte list \<times> nat \<Rightarrow> (byte list \<times> nat) option" where
  "hashtable_linearize_cb entry_size key keyData info = (case info of (buf, idx) \<Rightarrow> do {
     src \<leftarrow> mem_read (Some keyData) 0 entry_size;
     m \<leftarrow> mem_write (Some buf) (idx * entry_size) src;
     buf \<leftarrow> m;
     Some (buf, idx + 1)
   })"

definition hashtable_linearize :: "byte list hashtable \<Rightarrow> nat \<Rightarrow> memory option" where
  "hashtable_linearize ht entry_size =
     (let n = unat (hashtable_getnumentries ht) in
      if n = 0 then Some None
      else do {
        ASSERT (n < 2 ^ 31);
        (buf, idx) \<leftarrow> hashtable_for_each ht (hashtable_linearize_cb entry_size)
                        (safe_malloc (n * entry_size), 0);
        Some (Some buf)
      })"

section \<open>Specification\<close>

text \<open>The table's content, and the states it goes through: a power of two of buckets between
  \<open>2 ^ 8\<close> and \<open>2 ^ 30\<close>, every entry in the bucket of its hash, no key twice, the number of
  entries counted modulo \<open>2 ^ 32\<close>.\<close>

definition ht_entries :: "'a hashtable \<Rightarrow> 'a hashtable_entry list" where
  "ht_entries ht = concat (ht_buckets ht)"

definition ht_map :: "'a hashtable \<Rightarrow> byte list \<Rightarrow> 'a option" where
  "ht_map ht key = map_option he_clientData (find (\<lambda>e. he_key e = key) (ht_entries ht))"

definition placed :: "u32 \<Rightarrow> byte \<Rightarrow> 'a hashtable_entry list list \<Rightarrow> bool" where
  "placed numBuckets numBits buckets \<longleftrightarrow> length buckets = unat numBuckets \<and>
     (\<forall>i < length buckets. \<forall>e \<in> set (buckets ! i).
        hashtable_compute_hash numBuckets numBits (he_key e) = Some (of_nat i))"

definition sized :: "u32 \<Rightarrow> byte \<Rightarrow> bool" where
  "sized numBuckets numBits \<longleftrightarrow> 8 \<le> unat numBits \<and> unat numBits \<le> 30 \<and> even (unat numBits) \<and>
     numBuckets = 2 ^ unat numBits"

definition ht_wf :: "'a hashtable \<Rightarrow> bool" where
  "ht_wf ht \<longleftrightarrow> sized (ht_numBuckets ht) (ht_numBits ht) \<and>
     placed (ht_numBuckets ht) (ht_numBits ht) (ht_buckets ht) \<and>
     distinct (map he_key (ht_entries ht)) \<and> ht_count ht = of_nat (length (ht_entries ht))"

section \<open>The hash loop ends\<close>

lemma xor_le_add: "(a::nat) XOR b \<le> a + b"
proof (induction a arbitrary: b rule: less_induct)
  case (less a)
  show ?case
  proof (cases "a = 0")
    case False
    then have "a div 2 XOR b div 2 \<le> a div 2 + b div 2" by (intro less) simp
    then show ?thesis by (subst xor_nat_rec) (auto elim!: oddE evenE split: if_splits)
  qed simp
qed

lemma fold_hash_ends:
  assumes "1 \<le> unat b" and "unat b < 32" and m: "unat m = 2 ^ unat b - 1"
  shows "\<exists>h'. fold_hash m b h = Some h' \<and> h' \<le> m"
proof (induction "unat h" arbitrary: h rule: less_induct)
  case less
  show ?case
  proof (cases "m < h")
    case False
    then show ?thesis by (subst fold_hash.simps) auto
  next
    case True
    let ?k = "unat b" and ?h = "(h AND m) XOR drop_bit (unat b) h"
    have mm: "unat m = mask ?k" using m by (simp add: mask_eq_exp_minus_1)
    have d: "unat (drop_bit ?k h) = drop_bit ?k (unat h)" by (metis drop_bit_eq_div unat_drop_bit_eq)
    have "unat ?h = take_bit ?k (unat h) XOR drop_bit ?k (unat h)"
      by (simp add: unsigned_xor_eq unsigned_and_eq d mm take_bit_eq_mask)
    also have "\<dots> \<le> unat h mod 2 ^ ?k + unat h div 2 ^ ?k"
      using xor_le_add by (simp add: take_bit_eq_mod drop_bit_eq_div)
    also have "\<dots> < unat h"
    proof -
      have "unat h div 2 ^ ?k \<ge> 1" using True m by (simp add: word_less_nat_alt Suc_le_eq div_greater_zero_iff)
      moreover have "(2::nat) \<le> 2 ^ ?k" using assms(1) by (metis power_increasing power_one_right one_le_numeral)
      then have "unat h div 2 ^ ?k * 2 \<le> unat h div 2 ^ ?k * 2 ^ ?k" by (intro mult_le_mono2)
      ultimately have "unat h div 2 ^ ?k < unat h div 2 ^ ?k * 2 ^ ?k" by linarith
      then show ?thesis by (metis add.commute add_less_cancel_right div_mult_mod_eq)
    qed
    finally have "unat ?h < unat h" .
    with less [of ?h] True show ?thesis by (subst fold_hash.simps) simp
  qed
qed

lemma sized_facts:
  assumes "sized n b"
  shows "unat n = 2 ^ unat b" "unat (n - 1) = 2 ^ unat b - 1" "n \<noteq> 0"
proof -
  have lt: "(2::nat) ^ unat b < 2 ^ 32" using assms by (intro power_strict_increasing) (auto simp: sized_def)
  have "n = of_nat (2 ^ unat b)" using assms by (simp add: sized_def)
  then show n: "unat n = 2 ^ unat b" using unat_of_nat_small [where 'a = 32, of "2 ^ unat b"] lt by simp
  then show "n \<noteq> 0" by (metis power_not_zero unat_0 zero_neq_numeral)
  then show "unat (n - 1) = 2 ^ unat b - 1" using n by (simp add: unat_minus_one)
qed

lemma compute_hash_ends:
  assumes "sized n b"
  shows "\<exists>h. hashtable_compute_hash n b key = Some h \<and> unat h < unat n"
proof -
  obtain h where "fold_hash (n - 1) b (MurmurHash3 key 0x5678) = Some h" "h \<le> n - 1"
    using fold_hash_ends [of b "n - 1"] sized_facts(2) [OF assms] assms by (auto simp: sized_def)
  moreover have "unat (n - 1) < unat n" using sized_facts [OF assms] by simp
  ultimately show ?thesis
    by (auto simp: hashtable_compute_hash_def word_le_nat_alt word_less_nat_alt)
qed

section \<open>Buckets\<close>

lemma find_concat_bucket:
  assumes "i < length bs" and "\<And>j e. j < length bs \<Longrightarrow> e \<in> set (bs ! j) \<Longrightarrow> P e \<Longrightarrow> j = i"
  shows "find P (concat bs) = find P (bs ! i)"
  using assms
proof (induction bs arbitrary: i)
  case (Cons b bs)
  have app: "find P (xs @ ys) = (case find P xs of None \<Rightarrow> find P ys | Some x \<Rightarrow> Some x)" for xs ys
    by (induction xs) auto
  have b: "i = 0" if "e \<in> set b" "P e" for e using Cons.prems(2) [of 0 e] that by simp
  show ?case
  proof (cases i)
    case 0
    have "find P (concat bs) = None"
      using Cons.prems(2) [of "Suc _"] 0 by (fastforce simp: find_None_iff in_set_conv_nth)
    with 0 show ?thesis by (simp add: app split: option.splits)
  next
    case (Suc n)
    have "find P b = None" using b Suc by (auto simp: find_None_iff)
    moreover have "find P (concat bs) = find P (bs ! n)"
      using Cons.prems Suc by (intro Cons.IH) force+
    ultimately show ?thesis using Suc by (simp add: app)
  qed
qed simp

lemma mset_concat_update:
  assumes "i < length bs"
  shows "mset (concat (bs[i := xs])) + mset (bs ! i) = mset (concat bs) + mset xs"
proof -
  have "bs = take i bs @ bs ! i # drop (Suc i) bs" using assms by (rule id_take_nth_drop)
  then have "concat bs = concat (take i bs) @ bs ! i @ concat (drop (Suc i) bs)"
    by (metis concat.simps(2) concat_append)
  moreover have "concat (bs[i := xs]) = concat (take i bs) @ xs @ concat (drop (Suc i) bs)"
    using assms by (simp add: upd_conv_take_nth_drop)
  ultimately show ?thesis by simp
qed

lemma find_distinct:
  assumes "distinct (map he_key es)"
  shows "find (\<lambda>e. he_key e = k) es = Some e \<longleftrightarrow> e \<in> set es \<and> he_key e = k"
  using assms by (induction es) auto

lemma find_mset_cong:
  assumes "mset es = mset es'" and "distinct (map he_key es)"
  shows "find (\<lambda>e. he_key e = k) es = find (\<lambda>e. he_key e = k) es'"
proof -
  have "distinct (map he_key es')" using assms by (metis mset_eq_imp_distinct_iff mset_map)
  then have "find (\<lambda>e. he_key e = k) es = Some e \<longleftrightarrow> find (\<lambda>e. he_key e = k) es' = Some e" for e
    using find_distinct [OF assms(2)] find_distinct [of es'] assms(1) by (metis set_mset_mset)
  then show ?thesis by (metis option.exhaust)
qed

lemma placed_find:
  assumes "placed n b bs" and "hashtable_compute_hash n b key = Some h" and "unat h < length bs"
  shows "find (\<lambda>e. he_key e = key) (concat bs) = find (\<lambda>e. he_key e = key) (bs ! unat h)"
proof (rule find_concat_bucket [OF assms(3)])
  fix j e
  assume j: "j < length bs" "e \<in> set (bs ! j)" "he_key e = key"
  then have "h = of_nat j" using assms by (auto simp: placed_def)
  moreover have "unat n < 2 ^ LENGTH(32)" by (rule unsigned_less)
  then have "j < 2 ^ 32" using j(1) assms(1) by (simp add: placed_def)
  ultimately show "j = unat h" by (simp add: unat_of_nat_small)
qed

lemma lookup_entry_eq:
  assumes "sized n b" and "placed n b bs"
  obtains h where "hashtable_compute_hash n b key = Some h" "unat h < length bs"
    "find (\<lambda>e. he_key e = key) (bs ! unat h) = find (\<lambda>e. he_key e = key) (concat bs)"
proof -
  obtain h where h: "hashtable_compute_hash n b key = Some h" "unat h < unat n"
    using compute_hash_ends [OF assms(1)] by blast
  then have "unat h < length bs" using assms(2) by (simp add: placed_def)
  with h placed_find [OF assms(2) h(1)] show thesis by (intro that) simp_all
qed

lemma lookup_eq:
  assumes "ht_wf ht"
  shows "hashtable_lookup ht key = Some (ht_map ht key)"
proof -
  have "sized (ht_numBuckets ht) (ht_numBits ht)" "placed (ht_numBuckets ht) (ht_numBits ht) (ht_buckets ht)"
    using assms by (simp_all add: ht_wf_def)
  then show ?thesis
    by (rule lookup_entry_eq [where key = key])
      (simp add: hashtable_lookup_def hashtable_lookup_entry_def ht_map_def ht_entries_def)
qed

section \<open>Resizing\<close>

lemma placed_push:
  assumes "placed n b bs" and "hashtable_compute_hash n b (he_key e) = Some h" and "unat h < length bs"
  shows "placed n b (bs[unat h := e # bs ! unat h])"
  using assms by (auto simp: placed_def nth_list_update)

lemma rehash_ok:
  assumes "sized n b" and "placed n b bs"
  shows "\<exists>bs'. rehash n b es bs = Some bs' \<and> placed n b bs' \<and> mset (concat bs') = mset es + mset (concat bs)"
  using assms(2)
proof (induction es arbitrary: bs)
  case (Cons e es)
  obtain h where h: "hashtable_compute_hash n b (he_key e) = Some h" "unat h < length bs"
    using lookup_entry_eq [OF assms(1) Cons.prems] by blast
  have "mset (concat (bs[unat h := e # bs ! unat h])) = add_mset e (mset (concat bs))"
    using mset_concat_update [OF h(2), of "e # bs ! unat h"] by simp
  with Cons.IH [OF placed_push [OF Cons.prems h]] h show ?case by auto
qed simp

lemma placed_empty: "placed n b (replicate (unat n) [])"
  by (simp add: placed_def)

lemma log2_loop_power: "log2_loop (2 ^ k) i = i + of_nat k + 1" if "k < 32"
  using that
proof (induction k arbitrary: i)
  case 0
  then show ?case by (simp add: log2_loop.simps [of 1] log2_loop.simps [of 0] drop_bit_eq_div)
next
  case (Suc k)
  have "(2::u32) ^ Suc k \<noteq> 0" using Suc.prems by (simp del: power_Suc add: exp_eq_zero_iff)
  moreover have "drop_bit 1 (2 ^ Suc k :: u32) = 2 ^ k"
    using Suc.prems by (intro bit_word_eqI) (auto simp: bit_drop_bit_eq bit_exp_iff simp del: power_Suc)
  ultimately show ?case using Suc by (simp add: log2_loop.simps [of "2 ^ Suc k"] del: power_Suc)
qed

lemma util_log2_power: "k < 32 \<Longrightarrow> util_log2 (2 ^ k) = of_nat k"
proof -
  assume k: "k < 32"
  then have "unat (of_nat (Suc k) :: u32) = Suc k" by (intro unat_of_nat_small) simp
  then have "of_nat k + 1 \<noteq> (0 :: u32)" by (metis Suc_neq_Zero of_nat_Suc add.commute unat_0)
  moreover have "ucast (of_nat k :: u32) = (of_nat k :: byte)"
    using k by (simp add: word_unat_eq_iff unsigned_ucast_eq unat_of_nat_small take_bit_nat_eq_self)
  ultimately show ?thesis by (simp add: util_log2_def log2_loop_power k Let_def)
qed


lemma sized_power:
  assumes "n = 2 ^ k" "8 \<le> k" "k \<le> 30" "even k"
  shows "sized n (util_log2 n)"
  using assms by (simp add: sized_def util_log2_power unat_of_nat_small)

lemma sized_grow:
  assumes "sized n b" and "\<not> n * 4 \<le> 256"
  shows "sized (n * 4) (util_log2 (n * 4))"
proof -
  have n: "n * 4 = 2 ^ (unat b + 2)" using assms(1) by (simp add: sized_def power_add)
  have "unat b \<noteq> 30" using n assms(2) by (auto simp: exp_eq_zero_iff)
  then have "unat b \<le> 28" using assms(1) by (auto simp: sized_def elim: evenE)
  with n assms(1) show ?thesis by (intro sized_power [OF n]) (auto simp: sized_def)
qed

lemma sized_shrink:
  assumes "sized n b" and "\<not> n div 4 \<le> 256"
  shows "sized (n div 4) (util_log2 (n div 4))"
proof -
  have u: "unat (n div 4) = 2 ^ (unat b - 2)"
    using sized_facts(1) [OF assms(1)] assms(1) power_diff [of "2::nat" 2 "unat b"]
    by (simp add: unat_div_distrib sized_def)
  have "(2::nat) ^ (unat b - 2) < 2 ^ 32" using assms(1) by (intro power_strict_increasing) (auto simp: sized_def)
  then have n: "n div 4 = 2 ^ (unat b - 2)"
    using u unat_of_nat_small [where 'a = 32, of "2 ^ (unat b - 2)"] by (simp add: word_unat_eq_iff)
  have "(2::nat) ^ 8 < 2 ^ (unat b - 2)" using assms(2) u by (simp add: word_le_nat_alt)
  then have "8 < unat b - 2" by (rule power_less_imp_less_exp [rotated]) simp
  with assms(1) show ?thesis by (intro sized_power [OF n]) (auto simp: sized_def)
qed

definition same_content :: "'a hashtable \<Rightarrow> 'a hashtable \<Rightarrow> bool" where
  "same_content ht ht' \<longleftrightarrow> mset (ht_entries ht') = mset (ht_entries ht) \<and> ht_count ht' = ht_count ht"

lemma same_content_map:
  "ht_wf ht \<Longrightarrow> same_content ht ht' \<Longrightarrow> ht_map ht' = ht_map ht"
  using find_mset_cong [of "ht_entries ht" "ht_entries ht'"]
  by (auto simp: ht_map_def same_content_def ht_wf_def fun_eq_iff)

lemma check_resize_ok:
  assumes "ht_wf ht"
  shows "\<exists>ht'. hashtable_check_resize ht = Some ht' \<and> ht_wf ht' \<and> same_content ht ht'"
proof -
  have sz: "sized (ht_numBuckets ht) (ht_numBits ht)" using assms by (simp add: ht_wf_def)
  have re: "\<exists>bs. rehash n (util_log2 n) (concat (ht_buckets ht)) (replicate (unat n) []) = Some bs \<and>
      ht_wf (ht\<lparr>ht_numBits := util_log2 n, ht_buckets := bs, ht_numBuckets := n\<rparr>) \<and>
      same_content ht (ht\<lparr>ht_numBits := util_log2 n, ht_buckets := bs, ht_numBuckets := n\<rparr>)"
    if n: "sized n (util_log2 n)" for n
  proof -
    obtain bs where bs: "rehash n (util_log2 n) (concat (ht_buckets ht)) (replicate (unat n) []) = Some bs"
      "placed n (util_log2 n) bs" "mset (concat bs) = mset (concat (ht_buckets ht))"
      using rehash_ok [OF n placed_empty, of "concat (ht_buckets ht)"] by auto
    have "distinct (map he_key (concat bs)) \<longleftrightarrow> distinct (map he_key (concat (ht_buckets ht)))"
      using bs(3) by (metis mset_eq_imp_distinct_iff mset_map)
    moreover have "length (concat bs) = length (concat (ht_buckets ht))"
      using bs(3) by (rule mset_eq_length)
    ultimately show ?thesis
      using bs n assms by (simp add: ht_wf_def ht_entries_def same_content_def)
  qed
  show ?thesis
    unfolding hashtable_check_resize_def HASH_DEFAULT_FACTOR_def HASH_DEFAULT_NUM_BUCKETS_def Let_def
    using re [OF sized_grow [OF sz]] re [OF sized_shrink [OF sz]] assms
    by (auto simp: same_content_def mult.commute)
qed

section \<open>Inserting and removing\<close>

text \<open>Where an insertion or removal works: the resized table and the key's bucket.\<close>

lemma locate:
  assumes "ht_wf ht"
  obtains t h where "hashtable_check_resize ht = Some t" "ht_wf t" "ht_map t = ht_map ht"
    "ht_count t = ht_count ht"
    "hashtable_compute_hash (ht_numBuckets t) (ht_numBits t) key = Some h"
    "unat h < length (ht_buckets t)"
    "find (\<lambda>e. he_key e = key) (ht_buckets t ! unat h) = find (\<lambda>e. he_key e = key) (ht_entries t)"
    "find (\<lambda>e. he_key e = key) (ht_entries t) = None \<longleftrightarrow> ht_map ht key = None"
proof -
  obtain t where t: "hashtable_check_resize ht = Some t" "ht_wf t" "same_content ht t"
    using check_resize_ok [OF assms] by blast
  have m: "ht_map t = ht_map ht" "ht_count t = ht_count ht"
    using same_content_map [OF assms t(3)] t(3) by (simp_all add: same_content_def)
  have "find (\<lambda>e. he_key e = key) (ht_entries t) = None \<longleftrightarrow> ht_map ht key = None"
    unfolding m(1) [symmetric] by (simp add: ht_map_def)
  moreover obtain h where "hashtable_compute_hash (ht_numBuckets t) (ht_numBits t) key = Some h"
    "unat h < length (ht_buckets t)"
    "find (\<lambda>e. he_key e = key) (ht_buckets t ! unat h) = find (\<lambda>e. he_key e = key) (ht_entries t)"
    using lookup_entry_eq [of "ht_numBuckets t" "ht_numBits t" "ht_buckets t" key] t(2)
    by (auto simp: ht_wf_def ht_entries_def)
  ultimately show thesis using t m by (intro that [of t h]) simp_all
qed

lemma insert_ok:
  assumes "ht_wf ht"
  shows "\<exists>ht'. hashtable_insert ht key d = Some (ht_map ht key = None, ht') \<and> ht_wf ht' \<and>
     ht_map ht' = (if ht_map ht key = None then (ht_map ht)(key \<mapsto> d) else ht_map ht) \<and>
     ht_count ht' = ht_count ht + (if ht_map ht key = None then 1 else 0)"
proof (rule locate [OF assms, of key])
  fix t h
  assume t: "hashtable_check_resize ht = Some t" "ht_wf t" "ht_map t = ht_map ht" "ht_count t = ht_count ht"
    and h: "hashtable_compute_hash (ht_numBuckets t) (ht_numBits t) key = Some h" "unat h < length (ht_buckets t)"
    and f: "find (\<lambda>e. he_key e = key) (ht_buckets t ! unat h) = find (\<lambda>e. he_key e = key) (ht_entries t)"
      "find (\<lambda>e. he_key e = key) (ht_entries t) = None \<longleftrightarrow> ht_map ht key = None"
  show ?thesis
  proof (cases "ht_map ht key = None")
    case False
    with t h f show ?thesis by (auto simp: hashtable_insert_def hashtable_lookup_entry_def)
  next
    case True
    let ?e = "\<lparr>he_clientData = d, he_key = key\<rparr>"
    let ?t = "t\<lparr>ht_buckets := (ht_buckets t)[unat h := ?e # ht_buckets t ! unat h], ht_count := ht_count t + 1\<rparr>"
    have ms: "mset (ht_entries ?t) = mset (?e # ht_entries t)"
      using mset_concat_update [OF h(2), of "?e # ht_buckets t ! unat h"] by (simp add: ht_entries_def)
    have "distinct (map he_key (?e # ht_entries t))"
      using f True t(2) by (auto simp: find_None_iff ht_wf_def)
    then have dist: "distinct (map he_key (ht_entries ?t))" using ms by (metis mset_eq_imp_distinct_iff mset_map)
    have "placed (ht_numBuckets t) (ht_numBits t) (ht_buckets ?t)"
      using placed_push [of _ _ _ ?e] h t(2) by (simp add: ht_wf_def)
    moreover have "length (ht_entries ?t) = Suc (length (ht_entries t))" using ms mset_eq_length by fastforce
    ultimately have "ht_wf ?t" using t(2) dist by (simp add: ht_wf_def add.commute)
    moreover have "ht_map ?t = (ht_map ht)(key \<mapsto> d)"
      unfolding t(3) [symmetric]
      by (auto simp: ht_map_def fun_eq_iff find_mset_cong [OF ms dist])
    ultimately show ?thesis
      using t h f True by (auto simp: hashtable_insert_def hashtable_lookup_entry_def)
  qed
qed

lemma unlink_find:
  assumes "find (\<lambda>e. he_key e = key) es = Some e"
  shows "\<exists>es'. unlink_entry key es = Some es' \<and> mset es = add_mset e (mset es') \<and> set es' \<subseteq> set es"
  using assms by (induction es) (auto split: if_splits)

lemma remove_ok:
  assumes "ht_wf ht"
  shows "\<exists>ht'. hashtable_remove ht key = Some (ht_map ht key \<noteq> None, ht') \<and> ht_wf ht' \<and>
     ht_map ht' = (ht_map ht)(key := None) \<and>
     ht_count ht' = ht_count ht - (if ht_map ht key = None then 0 else 1)"
proof (rule locate [OF assms, of key])
  fix t h
  assume t: "hashtable_check_resize ht = Some t" "ht_wf t" "ht_map t = ht_map ht" "ht_count t = ht_count ht"
    and h: "hashtable_compute_hash (ht_numBuckets t) (ht_numBits t) key = Some h" "unat h < length (ht_buckets t)"
    and f: "find (\<lambda>e. he_key e = key) (ht_buckets t ! unat h) = find (\<lambda>e. he_key e = key) (ht_entries t)"
      "find (\<lambda>e. he_key e = key) (ht_entries t) = None \<longleftrightarrow> ht_map ht key = None"
  show ?thesis
  proof (cases "ht_map ht key = None")
    case True
    with t h f show ?thesis by (auto simp: hashtable_remove_def hashtable_lookup_entry_def fun_upd_idem)
  next
    case False
    then obtain e where e: "find (\<lambda>e. he_key e = key) (ht_entries t) = Some e" using f by auto
    with f(1) unlink_find obtain es where es: "unlink_entry key (ht_buckets t ! unat h) = Some es"
      "mset (ht_buckets t ! unat h) = add_mset e (mset es)" "set es \<subseteq> set (ht_buckets t ! unat h)"
      by metis
    let ?t = "t\<lparr>ht_buckets := (ht_buckets t)[unat h := es], ht_count := ht_count t - 1\<rparr>"
    have ms: "mset (ht_entries t) = mset (e # ht_entries ?t)"
      using mset_concat_update [OF h(2), of es] es(2) by (simp add: ht_entries_def)
    have dt: "distinct (map he_key (ht_entries t))" using t(2) by (simp add: ht_wf_def)
    then have dist: "distinct (map he_key (e # ht_entries ?t))" using ms by (metis mset_eq_imp_distinct_iff mset_map)
    have "placed (ht_numBuckets t) (ht_numBits t) (ht_buckets ?t)"
      using es(3) t(2) h(2) by (auto simp: ht_wf_def placed_def nth_list_update)
    moreover have "length (ht_entries t) = Suc (length (concat (ht_buckets ?t)))"
      using ms mset_eq_length by (fastforce simp: ht_entries_def)
    then have "ht_count ?t = of_nat (length (concat (ht_buckets ?t)))" using t(2) by (simp add: ht_wf_def)
    ultimately have "ht_wf ?t" using t(2) dist by (simp add: ht_wf_def ht_entries_def)
    moreover have "he_key e = key" using e find_distinct [OF dt] by blast
    then have "ht_map ?t = (ht_map ht)(key := None)"
    proof (intro ext)
      fix k
      have "find (\<lambda>e. he_key e = k) (ht_entries ?t) = None" if "k = key"
        using that dist \<open>he_key e = key\<close> unfolding find_None_iff by (metis distinct.simps(2) imageI list.map(2) set_map)
      then show "ht_map ?t k = ((ht_map ht)(key := None)) k"
        unfolding t(3) [symmetric]
        using find_mset_cong [OF ms dt, of k] \<open>he_key e = key\<close> by (simp add: ht_map_def)
    qed
    ultimately show ?thesis
      using t h f e es False by (auto simp: hashtable_remove_def hashtable_lookup_entry_def)
  qed
qed

section \<open>What clients rely on\<close>

datatype 'v store_op = Insert "byte list" 'v | Remove "byte list" | Lookup "byte list"
datatype 'v store_res = Done bool | Found "'v option"

primrec spec_step :: "'v store_op \<Rightarrow> (byte list \<rightharpoonup> 'v) \<Rightarrow> 'v store_res \<times> (byte list \<rightharpoonup> 'v)" where
  "spec_step (Insert k v) m = (if m k = None then (Done True, m(k \<mapsto> v)) else (Done False, m))"
| "spec_step (Remove k) m = (Done (m k \<noteq> None), m(k := None))"
| "spec_step (Lookup k) m = (Found (m k), m)"

primrec spec_run :: "'v store_op list \<Rightarrow> (byte list \<rightharpoonup> 'v) \<Rightarrow> 'v store_res list \<times> (byte list \<rightharpoonup> 'v)" where
  "spec_run [] m = ([], m)"
| "spec_run (op # ops) m =
     (let (r, m) = spec_step op m; (rs, m) = spec_run ops m in (r # rs, m))"

primrec store_step ::
  "('s \<Rightarrow> byte list \<Rightarrow> 'v option option) \<Rightarrow> ('s \<Rightarrow> byte list \<Rightarrow> 'v \<Rightarrow> (bool \<times> 's) option) \<Rightarrow>
   ('s \<Rightarrow> byte list \<Rightarrow> (bool \<times> 's) option) \<Rightarrow> 'v store_op \<Rightarrow> 's \<Rightarrow> ('v store_res \<times> 's) option" where
  "store_step lkp ins rem (Insert k v) s = map_option (\<lambda>(b, s). (Done b, s)) (ins s k v)"
| "store_step lkp ins rem (Remove k) s = map_option (\<lambda>(b, s). (Done b, s)) (rem s k)"
| "store_step lkp ins rem (Lookup k) s = map_option (\<lambda>r. (Found r, s)) (lkp s k)"

primrec run_ops :: "('o \<Rightarrow> 's \<Rightarrow> ('r \<times> 's) option) \<Rightarrow> 'o list \<Rightarrow> 's \<Rightarrow> ('r list \<times> 's) option" where
  "run_ops stp [] s = Some ([], s)"
| "run_ops stp (op # ops) s = do { (r, s) \<leftarrow> stp op s; (rs, s) \<leftarrow> run_ops stp ops s; Some (r # rs, s) }"

locale key_store =
  fixes inv :: "'s \<Rightarrow> bool"
    and content :: "'s \<Rightarrow> byte list \<rightharpoonup> 'v"
    and lookup :: "'s \<Rightarrow> byte list \<Rightarrow> 'v option option"
    and insert :: "'s \<Rightarrow> byte list \<Rightarrow> 'v \<Rightarrow> (bool \<times> 's) option"
    and remove :: "'s \<Rightarrow> byte list \<Rightarrow> (bool \<times> 's) option"
  assumes lookup_law: "inv s \<Longrightarrow> lookup s k = Some (content s k)"
    and insert_law: "inv s \<Longrightarrow> \<exists>s'. insert s k v = Some (content s k = None, s') \<and> inv s' \<and>
      content s' = (if content s k = None then (content s)(k \<mapsto> v) else content s)"
    and remove_law: "inv s \<Longrightarrow> \<exists>s'. remove s k = Some (content s k \<noteq> None, s') \<and> inv s' \<and>
      content s' = (content s)(k := None)"
begin

lemma step_refines:
  assumes "inv s"
  shows "\<exists>r s'. store_step lookup insert remove op s = Some (r, s') \<and> inv s' \<and> (r, content s') = spec_step op (content s)"
proof (cases op)
  case (Insert k v)
  with insert_law [OF assms, of k v] show ?thesis by (auto simp: image_iff split: if_splits)
next
  case (Remove k)
  with remove_law [OF assms, of k] show ?thesis by auto
next
  case (Lookup k)
  with lookup_law [OF assms, of k] assms show ?thesis by auto
qed

lemma run_refines:
  assumes "inv s"
  shows "\<exists>rs s'. run_ops (store_step lookup insert remove) ops s = Some (rs, s') \<and> inv s' \<and> (rs, content s') = spec_run ops (content s)"
  using assms
proof (induction ops arbitrary: s)
  case (Cons op ops)
  obtain r s1 where 1: "store_step lookup insert remove op s = Some (r, s1)" "inv s1" "(r, content s1) = spec_step op (content s)"
    using step_refines [OF Cons.prems] by blast
  obtain rs s2 where 2: "run_ops (store_step lookup insert remove) ops s1 = Some (rs, s2)" "inv s2" "(rs, content s2) = spec_run ops (content s1)"
    using Cons.IH [OF 1(2)] by blast
  from 1 2 show ?case by (auto simp flip: 1(3) 2(3))
qed simp

lemma lookup_after_insert:
  assumes "inv s" and "insert s k v = Some (True, s')"
  shows "lookup s' k = Some (Some v)"
  using insert_law [OF assms(1), of k v] assms lookup_law [of s'] by auto

lemma lookup_after_remove:
  assumes "inv s" and "remove s k = Some (r, s')"
  shows "lookup s' k = Some None"
  using remove_law [OF assms(1), of k] assms lookup_law [of s'] by auto

end

interpretation hts: key_store ht_wf ht_map hashtable_lookup hashtable_insert hashtable_remove
proof
  fix s :: "'a hashtable" and k v
  assume s: "ht_wf s"
  then show "hashtable_lookup s k = Some (ht_map s k)" by (rule lookup_eq)
  show "\<exists>s'. hashtable_insert s k v = Some (ht_map s k = None, s') \<and> ht_wf s' \<and>
      ht_map s' = (if ht_map s k = None then (ht_map s)(k \<mapsto> v) else ht_map s)"
    using insert_ok [OF s, of k v] by (elim exE conjE) (intro exI conjI)
  show "\<exists>s'. hashtable_remove s k = Some (ht_map s k \<noteq> None, s') \<and> ht_wf s' \<and>
      ht_map s' = (ht_map s)(k := None)"
    using remove_ok [OF s, of k] by (elim exE conjE) (intro exI conjI)
qed

lemma create_ok:
  "\<exists>ht. hashtable_create = Some ht \<and> ht_wf ht \<and> ht_map ht = Map.empty \<and> ht_count ht = 0"
proof -
  have "sized 256 (util_log2 256)" using sized_power [of 256 8] by simp
  moreover have "(256::u32) AND (256 - 1) = 0" by simp
  ultimately show ?thesis
    using placed_empty [of 256 "util_log2 256"]
    by (simp add: hashtable_create_def HASH_DEFAULT_NUM_BUCKETS_def ht_wf_def ht_map_def ht_entries_def fun_eq_iff)
qed


lemma count_entries:
  assumes "ht_wf ht" and "length (ht_entries ht) < 2 ^ 32"
  shows "unat (ht_count ht) = length (ht_entries ht)"
  using assms by (simp add: ht_wf_def unat_of_nat_small)

lemma for_each_free:
  "for_each_entry hashtable_free_clientdata es fr = Some (fr @ map he_clientData es)"
  by (induction es arbitrary: fr) (simp_all add: hashtable_free_clientdata_def)

lemma cleared_wf:
  assumes "ht_wf ht"
  shows "ht_wf (ht\<lparr>ht_buckets := map (\<lambda>_. []) (ht_buckets ht), ht_count := 0\<rparr>)"
  using assms by (simp add: ht_wf_def placed_def ht_entries_def concat_map_singleton map_replicate_const)

lemma linearize_loop:
  assumes "list_all (\<lambda>e. sz \<le> length (he_clientData e)) es" and "length pre = idx * sz"
    and "length es * sz = length post"
  shows "for_each_entry (hashtable_linearize_cb sz) es (pre @ post, idx) =
     Some (pre @ concat (map (\<lambda>e. take sz (he_clientData e)) es), idx + length es)"
  using assms
proof (induction es arbitrary: pre post idx)
  case (Cons e es)
  let ?x = "take sz (he_clientData e)"
  have "for_each_entry (hashtable_linearize_cb sz) es ((pre @ ?x) @ drop sz post, idx + 1) =
      Some ((pre @ ?x) @ concat (map (\<lambda>e. take sz (he_clientData e)) es), (idx + 1) + length es)"
    using Cons.prems by (intro Cons.IH) (auto simp: min_def)
  moreover have "hashtable_linearize_cb sz (he_key e) (he_clientData e) (pre @ post, idx) =
      Some (pre @ ?x @ drop sz post, idx + 1)"
    using Cons.prems by (auto simp: hashtable_linearize_cb_def mem_read_def mem_write_def min_def)
  ultimately show ?case by simp
qed simp

section \<open>Properties\<close>

text \<open>C17: a fresh hash table behaves like a finite map under every sequence of insertions,
  removals and lookups: no operation fails an assertion or loops, the results are those of the
  map, and the final content is the map's, across all the resizing in between.\<close>

theorem hashtable_refines_map:
  "\<exists>ht rs ht'. hashtable_create = Some ht \<and>
     run_ops (store_step hashtable_lookup hashtable_insert hashtable_remove) ops ht = Some (rs, ht') \<and>
     ht_wf ht' \<and> (rs, ht_map ht') = spec_run ops Map.empty"
proof -
  obtain ht :: "'a hashtable" where ht: "hashtable_create = Some ht" "ht_wf ht" "ht_map ht = Map.empty"
    using create_ok by blast
  with hts.run_refines [OF ht(2), of ops] show ?thesis by auto
qed

text \<open>The folding loop of \<open>hashtable_compute_hash\<close> ends, on every key, with a bucket
  index, for every size the table can have.\<close>

theorem compute_hash_total:
  assumes "sized numBuckets numBits"
  shows "\<exists>h. hashtable_compute_hash numBuckets numBits key = Some h \<and> h < numBuckets"
  using compute_hash_ends [OF assms, of key] by (simp add: word_less_nat_alt)

theorem compute_hash_total_witness:
  "sized 1024 10 \<and> (\<exists>h. hashtable_compute_hash 1024 10 [1, 2, 3] = Some h \<and> h < 1024)"
proof -
  have "sized 1024 10" by (simp add: sized_def)
  then show ?thesis using compute_hash_total by blast
qed

text \<open>\<open>hashtable_check_resize\<close> never loses or duplicates an entry and leaves a table of
  a legal size, although its 32-bit arithmetic wraps around at \<open>2 ^ 30\<close> buckets.\<close>

theorem resize_preserves:
  assumes "ht_wf ht"
  shows "\<exists>ht'. hashtable_check_resize ht = Some ht' \<and> ht_wf ht' \<and> ht_map ht' = ht_map ht \<and>
     mset (ht_entries ht') = mset (ht_entries ht)"
proof -
  obtain ht' where "hashtable_check_resize ht = Some ht'" "ht_wf ht'" "same_content ht ht'"
    using check_resize_ok [OF assms] by blast
  moreover from this have "ht_map ht' = ht_map ht" using same_content_map [OF assms] by simp
  ultimately show ?thesis by (auto simp: same_content_def)
qed

theorem resize_preserves_witness:
  "\<exists>ht ht' :: nat hashtable. hashtable_create = Some ht \<and> ht_wf ht \<and>
     hashtable_check_resize ht = Some ht' \<and> ht_wf ht' \<and> ht_map ht' = ht_map ht \<and>
     mset (ht_entries ht') = mset (ht_entries ht)"
proof -
  obtain ht :: "nat hashtable" where "hashtable_create = Some ht" "ht_wf ht" using create_ok by blast
  with resize_preserves [of ht] show ?thesis by blast
qed

text \<open>\<open>hashtable_get_entry_idx\<close> returns the entry of every index below the number of
  entries and nothing above it; at exactly the number of entries, where its bound check is off by
  one, it stops the program.\<close>

theorem get_entry_idx_cases:
  assumes "ht_wf ht" and "length (ht_entries ht) < 2 ^ 32"
  shows "hashtable_get_entry_idx ht idx =
     (if unat idx < length (ht_entries ht)
      then Some (Some (he_key (ht_entries ht ! unat idx), he_clientData (ht_entries ht ! unat idx)))
      else if unat idx = length (ht_entries ht) then None else Some None)"
proof -
  have "ucast (ht_count ht) < idx \<longleftrightarrow> length (ht_entries ht) < unat idx"
    using count_entries [OF assms] assms(2)
    by (simp add: word_less_nat_alt unsigned_ucast_eq take_bit_nat_eq_self)
  then show ?thesis by (auto simp: hashtable_get_entry_idx_def ht_entries_def Let_def)
qed

theorem get_entry_idx_cases_witness:
  "\<exists>ht :: nat hashtable. hashtable_create = Some ht \<and> ht_wf ht \<and> length (ht_entries ht) < 2 ^ 32 \<and>
     hashtable_get_entry_idx ht 0 = None"
proof -
  have "\<exists>ht :: nat hashtable. hashtable_create = Some ht \<and> ht_wf ht" using create_ok by blast
  then obtain ht :: "nat hashtable" where ht: "hashtable_create = Some ht" "ht_wf ht" by blast
  then have "ht_entries ht = []" by (auto simp: hashtable_create_def ht_entries_def split: if_splits)
  with ht get_entry_idx_cases [of ht 0] show ?thesis by auto
qed

text \<open>\<open>hashtable_clear_with_free\<close> releases the client data of every entry exactly once and
  leaves an empty table, which \<open>hashtable_destroy\<close> then accepts.\<close>

theorem clear_with_free_releases:
  assumes "ht_wf ht"
  shows "\<exists>ht'. hashtable_clear_with_free ht = Some (ht', map he_clientData (ht_entries ht)) \<and>
     ht_wf ht' \<and> ht_map ht' = Map.empty \<and> hashtable_destroy ht' = Some ()"
proof -
  let ?t = "ht\<lparr>ht_buckets := map (\<lambda>_. []) (ht_buckets ht), ht_count := 0\<rparr>"
  have c: "ht_count ht - of_nat (length (concat (ht_buckets ht))) = 0"
    using assms by (simp add: ht_wf_def ht_entries_def)
  have "hashtable_clear_with_free ht = Some (?t, map he_clientData (ht_entries ht))"
    unfolding hashtable_clear_with_free_def hashtable_clear_with_callback_def c
    by (simp add: for_each_free ht_entries_def)
  moreover have "ht_map ?t = Map.empty" by (simp add: ht_map_def ht_entries_def fun_eq_iff map_replicate_const)
  moreover have "hashtable_destroy ?t = Some ()"
    by (simp add: hashtable_destroy_def hashtable_clear_def hashtable_clear_with_callback_def)
  ultimately show ?thesis using cleared_wf [OF assms] by blast
qed

theorem clear_with_free_releases_witness:
  "\<exists>ht :: nat hashtable. hashtable_create = Some ht \<and> ht_wf ht \<and>
    (\<exists>ht'. hashtable_clear_with_free ht = Some (ht', map he_clientData (ht_entries ht)) \<and>
     ht_wf ht' \<and> ht_map ht' = Map.empty \<and> hashtable_destroy ht' = Some ())"
proof -
  obtain ht :: "nat hashtable" where ht: "hashtable_create = Some ht" "ht_wf ht" using create_ok by blast
  with clear_with_free_releases [OF ht(2)] show ?thesis by blast
qed

lemma linearize_correct:
  assumes "ht_wf ht" and "length (ht_entries ht) < 2 ^ 31" and "ht_entries ht \<noteq> []"
    and "list_all (\<lambda>e. sz \<le> length (he_clientData e)) (ht_entries ht)"
  shows "hashtable_linearize ht sz = Some (Some (concat (map (\<lambda>e. take sz (he_clientData e)) (ht_entries ht))))"
proof -
  have "unat (ht_count ht) = length (ht_entries ht)" using count_entries [OF assms(1)] assms(2) by simp
  with assms linearize_loop [OF assms(4), of "[]" 0 "replicate (length (ht_entries ht) * sz) 0"] show ?thesis
    by (simp add: hashtable_linearize_def hashtable_getnumentries_def hashtable_for_each_def safe_malloc_def
        ht_entries_def Let_def)
qed

end
