(* ===== verification/Poll.thy ===== *)
theory Poll
  imports Hashtable
begin

text \<open>
  The event loop of \<^verbatim>\<open>src/lib/poll/poll.c\<close>: callbacks after a delay, kept in the order of their expiry, and
  callbacks for file descriptors, found through a hash table.

  The entries are a heap, where a freed one is \<^const>\<open>None\<close>; a pointer to an entry is its index and the rings are
  lists of these, in the order of the ring (see \<open>Circlist\<close>). A callback is code of the program that uses the
  loop: it changes the client's state, a part of the state of the loop here, and registers and removes
  callbacks, which is the list of operations it returns. The surroundings are the readings of the clock,
  the answers of \<^verbatim>\<open>poll(2)\<close> and \<^verbatim>\<open>select(2)\<close> and the callbacks. An operation has no result when the
  program stops, or when a loop does not end.
\<close>

section \<open>State\<close>

datatype poll_type = POLL_CB_NONE | POLL_CB_DEVICE | POLL_CB_TIME

text \<open>The fields of both parts of the union.\<close>

record poll_entry =
  en_callback :: nat
  en_callbackData :: nat
  en_permanent :: bool
  en_queued :: bool
  en_refCount :: int
  en_type :: poll_type
  en_fd :: int
  en_idx :: int
  en_readable :: bool
  en_writeable :: bool
  en_expiry :: u64
  en_delay :: u64

text \<open>\<open>struct pollfd\<close>, with the bits \<open>POLLIN\<close> and \<open>POLLOUT\<close> of its two masks.\<close>

record pollfd =
  pf_fd :: int
  pf_events :: "bool \<times> bool"
  pf_revents :: "bool \<times> bool"

text \<open>\<open>pl_count\<close> is the counter of \<open>poll_insert_time\<close>, \<open>pl_nclock\<close> and \<open>pl_nwait\<close> are how many readings of the clock
  and answers of the system have been used, \<open>pl_exit\<close> is the flag that ends the loop.\<close>

record 's poll_loop =
  pl_heap :: "poll_entry option list"
  pl_time :: "nat list"
  pl_device :: "nat list"
  pl_free :: "nat list"
  pl_hash :: "nat hashtable"
  pl_fds_rd :: "int set"
  pl_fds_wr :: "int set"
  pl_max_fds :: u64
  pl_fds :: "pollfd list"
  pl_use_poll :: bool
  pl_count :: int
  pl_nclock :: nat
  pl_nwait :: nat
  pl_exit :: bool
  pl_client :: 's

text \<open>What a callback may ask of the loop.\<close>

datatype poll_op = Op_time u64 bool nat nat | Op_device int bool bool bool nat nat
  | Op_time_remove bool nat nat | Op_device_remove int bool bool bool nat nat | Op_exit

text \<open>A wait is interrupted, fails, or ends with what can be read and written.\<close>

datatype 'r wait_result = Wait_EINTR | Wait_failed | Wait_done 'r

record 's poll_env =
  pv_clock :: "nat \<Rightarrow> u64"
  pv_poll :: "nat \<Rightarrow> pollfd list \<Rightarrow> int \<Rightarrow> (bool \<times> bool) list wait_result"
  pv_select :: "nat \<Rightarrow> int set \<Rightarrow> int set \<Rightarrow> u64 \<Rightarrow> (int set \<times> int set) wait_result"
  pv_callback :: "nat \<Rightarrow> nat \<Rightarrow> 's \<Rightarrow> 's \<times> poll_op list"

definition entry :: "'s poll_loop \<Rightarrow> nat \<Rightarrow> poll_entry option" where
  "entry p i = (if i < length (pl_heap p) then pl_heap p ! i else None)"

definition upd_entry :: "nat \<Rightarrow> (poll_entry \<Rightarrow> poll_entry) \<Rightarrow> 's poll_loop \<Rightarrow> 's poll_loop" where
  "upd_entry i f p = p\<lparr>pl_heap := (pl_heap p)[i := map_option f (pl_heap p ! i)]\<rparr>"

definition time_get :: "'s poll_env \<Rightarrow> 's poll_loop \<Rightarrow> u64 \<times> 's poll_loop" where
  "time_get env p = (pv_clock env (pl_nclock p), p\<lparr>pl_nclock := pl_nclock p + 1\<rparr>)"

section \<open>Entries\<close>

primrec check_order :: "'s poll_loop \<Rightarrow> nat list \<Rightarrow> u64 \<Rightarrow> unit option" where
  "check_order p [] prev = Some ()"
| "check_order p (i # is) prev = do {
     e \<leftarrow> entry p i;
     ASSERT (prev \<le> en_expiry e);
     check_order p is (en_expiry e)
   }"

definition poll_check_time_queue_order :: "'s poll_loop \<Rightarrow> unit option" where
  "poll_check_time_queue_order p = check_order p (pl_time p) 0"

definition poll_get_device_key :: "int \<Rightarrow> bool \<Rightarrow> bool \<Rightarrow> bool \<Rightarrow> u64" where
  "poll_get_device_key fd read write permanent =
     (let lo = push_bit 8 (of_bool read) + push_bit 4 (of_bool write) + of_bool permanent :: u32
      in push_bit 32 (word_of_int fd) OR ucast lo)"

definition poll_get_device_key_from_entry :: "poll_entry \<Rightarrow> u64 option" where
  "poll_get_device_key_from_entry e = do {
     ASSERT (en_type e = POLL_CB_DEVICE);
     Some (poll_get_device_key (en_fd e) (en_readable e) (en_writeable e) (en_permanent e))
   }"

definition blank_entry :: poll_entry where
  "blank_entry = \<lparr>en_callback = 0, en_callbackData = 0, en_permanent = False, en_queued = False, en_refCount = 0,
     en_type = POLL_CB_NONE, en_fd = 0, en_idx = 0, en_readable = False, en_writeable = False, en_expiry = 0, en_delay = 0\<rparr>"

definition poll_entry_get :: "'s poll_loop \<Rightarrow> nat \<times> 's poll_loop" where
  "poll_entry_get p = (case pl_free p of
     [] \<Rightarrow> (length (pl_heap p), p\<lparr>pl_heap := pl_heap p @ [Some blank_entry]\<rparr>)
   | i # is \<Rightarrow> (i, p\<lparr>pl_free := is\<rparr>))"

definition poll_entry_put :: "nat \<Rightarrow> 's poll_loop \<Rightarrow> 's poll_loop" where
  "poll_entry_put i p = (upd_entry i (\<lambda>e. e\<lparr>en_type := POLL_CB_NONE\<rparr>) p)\<lparr>pl_free := pl_free p @ [i]\<rparr>"

definition poll_entry_ref :: "nat \<Rightarrow> 's poll_loop \<Rightarrow> 's poll_loop option" where
  "poll_entry_ref i p = do {
     e \<leftarrow> entry p i;
     ASSERT (0 \<le> en_refCount e);
     Some (upd_entry i (\<lambda>e. e\<lparr>en_refCount := en_refCount e + 1\<rparr>) p)
   }"

text \<open>Whether the pointer of the caller is null afterwards.\<close>

definition poll_entry_unref :: "nat \<Rightarrow> 's poll_loop \<Rightarrow> (bool \<times> 's poll_loop) option" where
  "poll_entry_unref i p = do {
     e \<leftarrow> entry p i;
     ASSERT (0 < en_refCount e);
     let p = upd_entry i (\<lambda>e. e\<lparr>en_refCount := en_refCount e - 1\<rparr>) p;
     if 0 < en_refCount e - 1 then Some (False, p) else Some (True, poll_entry_put i p)
   }"

definition poll_entry_remove_from_hashtable :: "nat \<Rightarrow> 's poll_loop \<Rightarrow> 's poll_loop option" where
  "poll_entry_remove_from_hashtable i p = do {
     e \<leftarrow> entry p i;
     key \<leftarrow> poll_get_device_key_from_entry e;
     (s, ht) \<leftarrow> hashtable_remove (pl_hash p) (le_bytes key);
     ASSERT s;
     Some (p\<lparr>pl_hash := ht\<rparr>)
   }"

definition poll_entry_free :: "nat \<Rightarrow> 's poll_loop \<Rightarrow> 's poll_loop option" where
  "poll_entry_free i p = do {
     e \<leftarrow> entry p i;
     p \<leftarrow> (if en_type e = POLL_CB_DEVICE then poll_entry_remove_from_hashtable i p else Some p);
     Some (p\<lparr>pl_heap := (pl_heap p)[i := None]\<rparr>)
   }"

text \<open>The entries of a list, from its head.\<close>

primrec poll_free_entries_on_list :: "nat list \<Rightarrow> 's poll_loop \<Rightarrow> 's poll_loop option" where
  "poll_free_entries_on_list [] p = Some p"
| "poll_free_entries_on_list (i # is) p = do { p \<leftarrow> poll_entry_free i p; poll_free_entries_on_list is p }"

text \<open>The place in the time queue: before the first entry that expires later.\<close>

primrec scan_insert :: "'s poll_loop \<Rightarrow> nat \<Rightarrow> u64 \<Rightarrow> nat list \<Rightarrow> nat list option" where
  "scan_insert p i expiry [] = Some [i]"
| "scan_insert p i expiry (j # js) = do {
     e \<leftarrow> entry p j;
     if expiry < en_expiry e then Some (i # j # js) else map_option ((#) j) (scan_insert p i expiry js)
   }"

definition poll_insert_time :: "nat \<Rightarrow> 's poll_loop \<Rightarrow> 's poll_loop option" where
  "poll_insert_time i p = do {
     en \<leftarrow> entry p i;
     ASSERT (en_type en = POLL_CB_TIME);
     ASSERT (0 < en_refCount en);
     let p = upd_entry i (\<lambda>e. e\<lparr>en_queued := True\<rparr>) p;
     queue \<leftarrow> (case pl_time p of [] \<Rightarrow> Some [i]
       | j # js \<Rightarrow> do {
           e \<leftarrow> entry p j;
           if en_expiry en < en_expiry e then Some (i # j # js) else scan_insert p i (en_expiry en) (j # js)
         });
     let p = p\<lparr>pl_time := queue, pl_count := pl_count p + 1\<rparr>;
     _ \<leftarrow> (if pl_count p mod 32 = 0 then poll_check_time_queue_order p else Some ());
     Some p
   }"

section \<open>Creation and destruction\<close>

text \<open>The limit of \<open>getrlimit\<close>, where the call succeeds, cut to an \<open>int\<close>.\<close>

definition poll_get_max_fds :: "u64 option \<Rightarrow> int" where
  "poll_get_max_fds lim = (case lim of None \<Rightarrow> 4096 | Some cur \<Rightarrow> signed_take_bit 31 (uint cur))"

definition poll_create :: "u64 option \<Rightarrow> 's \<Rightarrow> 's poll_loop option" where
  "poll_create lim client = do {
     ht \<leftarrow> hashtable_create;
     Some \<lparr>pl_heap = [], pl_time = [], pl_device = [], pl_free = [], pl_hash = ht, pl_fds_rd = {}, pl_fds_wr = {},
       pl_max_fds = word_of_int (poll_get_max_fds lim), pl_fds = [], pl_use_poll = True, pl_count = 0, pl_nclock = 0,
       pl_nwait = 0, pl_exit = False, pl_client = client\<rparr>
   }"

definition poll_destroy :: "'s poll_loop \<Rightarrow> 's poll_loop option" where
  "poll_destroy p = do {
     ASSERT (pl_device p = []);
     ASSERT (pl_time p = []);
     p \<leftarrow> poll_free_entries_on_list (pl_free p) p;
     p \<leftarrow> poll_free_entries_on_list (pl_device p) p;
     p \<leftarrow> poll_free_entries_on_list (pl_time p) p;
     _ \<leftarrow> hashtable_destroy (pl_hash p);
     Some p
   }"

section \<open>Registering\<close>

definition poll_recalc_expiry :: "'s poll_env \<Rightarrow> nat \<Rightarrow> 's poll_loop \<Rightarrow> 's poll_loop" where
  "poll_recalc_expiry env i p = (let (now, p) = time_get env p in upd_entry i (\<lambda>e. e\<lparr>en_expiry := now + en_delay e\<rparr>) p)"

definition poll_insert_device :: "nat \<Rightarrow> 's poll_loop \<Rightarrow> 's poll_loop option" where
  "poll_insert_device i p = do {
     e \<leftarrow> entry p i;
     key \<leftarrow> poll_get_device_key_from_entry e;
     (s, ht) \<leftarrow> hashtable_insert (pl_hash p) (le_bytes key) i;
     ASSERT s;
     Some (upd_entry i (\<lambda>e. e\<lparr>en_queued := True\<rparr>) (p\<lparr>pl_hash := ht, pl_device := pl_device p @ [i]\<rparr>))
   }"

definition poll_callback_time ::
  "'s poll_env \<Rightarrow> u64 \<Rightarrow> bool \<Rightarrow> nat \<Rightarrow> nat \<Rightarrow> 's poll_loop \<Rightarrow> 's poll_loop option" where
  "poll_callback_time env delayUsec permanent callback callbackData p = do {
     let (i, p) = poll_entry_get p;
     let p = upd_entry i (\<lambda>e. e\<lparr>en_type := POLL_CB_TIME, en_callback := callback, en_callbackData := callbackData,
       en_permanent := permanent, en_refCount := 0, en_delay := delayUsec\<rparr>) p;
     p \<leftarrow> poll_entry_ref i p;
     poll_insert_time i (poll_recalc_expiry env i p)
   }"

definition poll_callback_device ::
  "int \<Rightarrow> bool \<Rightarrow> bool \<Rightarrow> bool \<Rightarrow> nat \<Rightarrow> nat \<Rightarrow> 's poll_loop \<Rightarrow> 's poll_loop option" where
  "poll_callback_device fd readable writeable permanent callback callbackData p = do {
     let (i, p) = poll_entry_get p;
     let p = upd_entry i (\<lambda>e. e\<lparr>en_type := POLL_CB_DEVICE, en_callback := callback, en_callbackData := callbackData,
       en_permanent := permanent, en_refCount := 0, en_fd := fd, en_idx := - 1, en_readable := readable, en_writeable := writeable\<rparr>) p;
     p \<leftarrow> poll_entry_ref i p;
     poll_insert_device i p
   }"

section \<open>Removing\<close>

text \<open>The first entry with the callback, its data and its kind.\<close>

primrec scan_time :: "'s poll_loop \<Rightarrow> bool \<Rightarrow> nat \<Rightarrow> nat \<Rightarrow> nat list \<Rightarrow> nat option option" where
  "scan_time p permanent callback callbackData [] = Some None"
| "scan_time p permanent callback callbackData (i # is) = do {
     e \<leftarrow> entry p i;
     if en_callback e = callback \<and> en_callbackData e = callbackData \<and> en_permanent e = permanent then Some (Some i)
     else scan_time p permanent callback callbackData is
   }"

definition poll_callback_time_remove :: "bool \<Rightarrow> nat \<Rightarrow> nat \<Rightarrow> 's poll_loop \<Rightarrow> (bool \<times> 's poll_loop) option" where
  "poll_callback_time_remove permanent callback callbackData p = do {
     r \<leftarrow> scan_time p permanent callback callbackData (pl_time p);
     case r of None \<Rightarrow> Some (False, p)
     | Some i \<Rightarrow> do {
         let p = upd_entry i (\<lambda>e. e\<lparr>en_queued := False\<rparr>) p;
         (_, p) \<leftarrow> poll_entry_unref i (p\<lparr>pl_time := remove1 i (pl_time p)\<rparr>);
         Some (True, p)
       }
   }"

definition poll_callback_device_remove ::
  "int \<Rightarrow> bool \<Rightarrow> bool \<Rightarrow> bool \<Rightarrow> nat \<Rightarrow> nat \<Rightarrow> 's poll_loop \<Rightarrow> (bool \<times> 's poll_loop) option" where
  "poll_callback_device_remove fd readable writeable permanent callback callbackData p = do {
     r \<leftarrow> hashtable_lookup (pl_hash p) (le_bytes (poll_get_device_key fd readable writeable permanent));
     case r of None \<Rightarrow> Some (False, p)
     | Some i \<Rightarrow> do {
         e \<leftarrow> entry p i;
         ASSERT (en_type e = POLL_CB_DEVICE);
         ASSERT (en_fd e = fd);
         ASSERT (en_callback e = callback);
         ASSERT (en_callbackData e = callbackData);
         ASSERT (en_permanent e = permanent);
         ASSERT (en_readable e = readable);
         ASSERT (en_writeable e = writeable);
         ASSERT (en_queued e);
         let p = upd_entry i (\<lambda>e. e\<lparr>en_queued := False\<rparr>) p;
         p \<leftarrow> poll_entry_remove_from_hashtable i p;
         (_, p) \<leftarrow> poll_entry_unref i (p\<lparr>pl_device := remove1 i (pl_device p)\<rparr>);
         Some (True, p)
       }
   }"

section \<open>Firing\<close>

fun run_op :: "'s poll_env \<Rightarrow> poll_op \<Rightarrow> 's poll_loop \<Rightarrow> 's poll_loop option" where
  "run_op env (Op_time delay permanent cb d) p = poll_callback_time env delay permanent cb d p"
| "run_op env (Op_device fd r w permanent cb d) p = poll_callback_device fd r w permanent cb d p"
| "run_op env (Op_time_remove permanent cb d) p = map_option snd (poll_callback_time_remove permanent cb d p)"
| "run_op env (Op_device_remove fd r w permanent cb d) p = map_option snd (poll_callback_device_remove fd r w permanent cb d p)"
| "run_op env Op_exit p = Some (p\<lparr>pl_exit := True\<rparr>)"

definition poll_entry_fire :: "'s poll_env \<Rightarrow> nat \<Rightarrow> 's poll_loop \<Rightarrow> 's poll_loop option" where
  "poll_entry_fire env i p = do {
     e \<leftarrow> entry p i;
     ASSERT (en_queued e);
     ASSERT (0 < en_refCount e);
     let (client, ops) = pv_callback env (en_callback e) (en_callbackData e) (pl_client p);
     run_steps (run_op env) ops (p\<lparr>pl_client := client\<rparr>)
   }"

section \<open>Waiting for file descriptors\<close>

text \<open>The descriptors and the numbers of their slots.\<close>

fun fill_fds :: "nat list \<Rightarrow> 's poll_loop \<Rightarrow> 's poll_loop option" where
  "fill_fds [] p = Some p"
| "fill_fds (i # is) p = do {
     e \<leftarrow> entry p i;
     ASSERT (0 \<le> en_fd e);
     let n = length (pl_fds p);
     ASSERT (of_nat n < pl_max_fds p);
     fill_fds is (upd_entry i (\<lambda>e. e\<lparr>en_idx := int n\<rparr>)
       (p\<lparr>pl_fds := pl_fds p @ [\<lparr>pf_fd = en_fd e, pf_events = (en_readable e, en_writeable e), pf_revents = (False, False)\<rparr>]\<rparr>))
   }"

definition poll_timeout :: "u64 \<Rightarrow> u64 \<Rightarrow> int" where
  "poll_timeout deadline now = (if deadline = 0 then 1000 else if deadline \<le> now then 0
     else signed_take_bit 31 (uint ((deadline - now) div 1000)))"

partial_function (option) wait_poll :: "'s poll_env \<Rightarrow> u64 \<Rightarrow> 's poll_loop \<Rightarrow> 's poll_loop option" where
  [code]: "wait_poll env deadline p =
     (let (now, p) = time_get env p; n = pl_nwait p; p = p\<lparr>pl_nwait := n + 1\<rparr> in
      case pv_poll env n (pl_fds p) (poll_timeout deadline now) of
        Wait_EINTR \<Rightarrow> wait_poll env deadline p
      | Wait_failed \<Rightarrow> None
      | Wait_done rs \<Rightarrow> Some (p\<lparr>pl_fds := map2 (\<lambda>f r. f\<lparr>pf_revents := r\<rparr>) (pl_fds p) rs\<rparr>))"

definition poll_device_poll :: "'s poll_env \<Rightarrow> u64 \<Rightarrow> 's poll_loop \<Rightarrow> 's poll_loop option" where
  "poll_device_poll env deadline p = do {
     p \<leftarrow> fill_fds (pl_device p) (p\<lparr>pl_fds := []\<rparr>);
     wait_poll env deadline p
   }"

fun fill_sets :: "nat list \<Rightarrow> 's poll_loop \<Rightarrow> 's poll_loop option" where
  "fill_sets [] p = Some p"
| "fill_sets (i # is) p = do {
     e \<leftarrow> entry p i;
     let fd = en_fd e;
     ASSERT (0 \<le> fd);
     ASSERT (en_readable e \<longrightarrow> fd \<notin> pl_fds_rd p);
     let p = (if en_readable e then p\<lparr>pl_fds_rd := {fd} \<union> pl_fds_rd p\<rparr> else p);
     ASSERT (en_writeable e \<longrightarrow> fd \<notin> pl_fds_wr p);
     let p = (if en_writeable e then p\<lparr>pl_fds_wr := {fd} \<union> pl_fds_wr p\<rparr> else p);
     fill_sets is p
   }"

definition select_timeout :: "u64 \<Rightarrow> u64 \<Rightarrow> u64" where
  "select_timeout deadline now = (if deadline = 0 then 1000 * 1000 else if deadline \<le> now then 0 else deadline - now)"

partial_function (option) wait_select :: "'s poll_env \<Rightarrow> u64 \<Rightarrow> 's poll_loop \<Rightarrow> 's poll_loop option" where
  [code]: "wait_select env deadline p =
     (let (now, p) = time_get env p; n = pl_nwait p; p = p\<lparr>pl_nwait := n + 1\<rparr> in
      case pv_select env n (pl_fds_rd p) (pl_fds_wr p) (select_timeout deadline now) of
        Wait_EINTR \<Rightarrow> wait_select env deadline p
      | Wait_failed \<Rightarrow> None
      | Wait_done (rd, wr) \<Rightarrow> Some (p\<lparr>pl_fds_rd := pl_fds_rd p \<inter> rd, pl_fds_wr := pl_fds_wr p \<inter> wr\<rparr>))"

definition poll_device_select :: "'s poll_env \<Rightarrow> u64 \<Rightarrow> 's poll_loop \<Rightarrow> 's poll_loop option" where
  "poll_device_select env deadline p = do {
     p \<leftarrow> fill_sets (pl_device p) (p\<lparr>pl_fds_rd := {}, pl_fds_wr := {}\<rparr>);
     wait_select env deadline p
   }"

definition poll_dopoll_device :: "'s poll_env \<Rightarrow> u64 \<Rightarrow> 's poll_loop \<Rightarrow> 's poll_loop option" where
  "poll_dopoll_device env deadline p = (if pl_use_poll p then poll_device_poll env deadline p else poll_device_select env deadline p)"

definition poll_get_next_expiry :: "'s poll_loop \<Rightarrow> u64 option" where
  "poll_get_next_expiry p = (case pl_time p of [] \<Rightarrow> Some 0 | i # _ \<Rightarrow> map_option en_expiry (entry p i))"

section \<open>The queues\<close>

definition poll_entry_active :: "'s poll_loop \<Rightarrow> poll_entry \<Rightarrow> bool option" where
  "poll_entry_active p e =
     (if pl_use_poll p then do {
        ASSERT (0 \<le> en_idx e \<and> nat (en_idx e) < length (pl_fds p));
        let f = pl_fds p ! nat (en_idx e);
        ASSERT (pf_fd f = en_fd e);
        Some (en_readable e \<and> fst (pf_revents f) \<or> en_writeable e \<and> snd (pf_revents f))
      }
      else Some (en_readable e \<and> en_fd e \<in> pl_fds_rd p \<or> en_writeable e \<and> en_fd e \<in> pl_fds_wr p))"

text \<open>The entries with activity, each with a reference of its own.\<close>

primrec collect_active :: "nat list \<Rightarrow> 's poll_loop \<Rightarrow> (nat list \<times> 's poll_loop) option" where
  "collect_active [] p = Some ([], p)"
| "collect_active (i # is) p = do {
     e \<leftarrow> entry p i;
     ASSERT (en_type e = POLL_CB_DEVICE);
     act \<leftarrow> poll_entry_active p e;
     p \<leftarrow> (if act then poll_entry_ref i p else Some p);
     (queue, p) \<leftarrow> collect_active is p;
     Some (if act then i # queue else queue, p)
   }"

definition run_device :: "'s poll_env \<Rightarrow> nat \<Rightarrow> 's poll_loop \<Rightarrow> 's poll_loop option" where
  "run_device env i p = do {
     e \<leftarrow> entry p i;
     p \<leftarrow> (if en_queued e then do {
            p \<leftarrow> (if \<not> en_permanent e then do {
                   p \<leftarrow> poll_entry_remove_from_hashtable i p;
                   (null, p) \<leftarrow> poll_entry_unref i (p\<lparr>pl_device := remove1 i (pl_device p)\<rparr>);
                   ASSERT (\<not> null);
                   Some p
                 }
                 else Some p);
            poll_entry_fire env i p
          }
          else Some p);
     (_, p) \<leftarrow> poll_entry_unref i p;
     Some p
   }"

primrec run_devices :: "'s poll_env \<Rightarrow> nat list \<Rightarrow> 's poll_loop \<Rightarrow> 's poll_loop option" where
  "run_devices env [] p = Some p"
| "run_devices env (i # is) p = do { p \<leftarrow> run_device env i p; run_devices env is p }"

definition poll_run_device_queue :: "'s poll_env \<Rightarrow> 's poll_loop \<Rightarrow> 's poll_loop option" where
  "poll_run_device_queue env p = do { (queue, p) \<leftarrow> collect_active (pl_device p) p; run_devices env queue p }"

definition poll_get_next_expired :: "'s poll_loop \<Rightarrow> u64 \<Rightarrow> nat option option" where
  "poll_get_next_expired p now = (case pl_time p of [] \<Rightarrow> Some None
     | i # _ \<Rightarrow> map_option (\<lambda>e. if en_expiry e \<le> now then Some i else None) (entry p i))"

definition run_timer :: "'s poll_env \<Rightarrow> nat \<Rightarrow> 's poll_loop \<Rightarrow> 's poll_loop option" where
  "run_timer env i p = do {
     p \<leftarrow> poll_entry_ref i p;
     p \<leftarrow> poll_entry_fire env i (p\<lparr>pl_time := remove1 i (pl_time p)\<rparr>);
     (null, p) \<leftarrow> poll_entry_unref i p;
     ASSERT (\<not> null);
     e \<leftarrow> entry p i;
     ASSERT (0 < en_refCount e);
     if \<not> en_permanent e then do {
       (null, p) \<leftarrow> poll_entry_unref i p;
       ASSERT null;
       Some p
     }
     else poll_insert_time i (poll_recalc_expiry env i p)
   }"

partial_function (option) run_timers :: "'s poll_env \<Rightarrow> u64 \<Rightarrow> 's poll_loop \<Rightarrow> 's poll_loop option" where
  [code]: "run_timers env now p = do {
     r \<leftarrow> poll_get_next_expired p now;
     case r of None \<Rightarrow> Some p | Some i \<Rightarrow> do { p \<leftarrow> run_timer env i p; run_timers env now p }
   }"

definition poll_run_time_queue :: "'s poll_env \<Rightarrow> 's poll_loop \<Rightarrow> 's poll_loop option" where
  "poll_run_time_queue env p = (let (now, p) = time_get env p in run_timers env now p)"

partial_function (option) poll_runloop :: "'s poll_env \<Rightarrow> 's poll_loop \<Rightarrow> 's poll_loop option" where
  [code]: "poll_runloop env p = do {
     p \<leftarrow> poll_run_time_queue env p;
     if pl_exit p then Some p
     else do {
       deadline \<leftarrow> poll_get_next_expiry p;
       p \<leftarrow> poll_dopoll_device env deadline p;
       if pl_exit p then Some p
       else do {
         p \<leftarrow> poll_run_device_queue env p;
         if pl_exit p then Some p else poll_runloop env p
       }
     }
   }"

end
