(* ===== verification/EventLoop.thy ===== *)
theory EventLoop
  imports Poll
begin

text \<open>
  The event loop of \<open>Poll\<close> refines a schedule. \<open>poll_ok\<close> says that the heap, the two queues, the list of free entries and
  the hash table fit together while some references are held; \<open>sched_of\<close> forgets entries, reference counts and the
  table and keeps the timers and watched descriptors in their order. Each operation is its counterpart on schedules
  (\<open>run_op_refines\<close>), and so are a callback (\<open>fire_refines\<close>), a timer (\<open>run_timer_refines\<close>) and the whole time queue
  (\<open>run_timers_refines\<close>).
\<close>

section \<open>The invariant\<close>

definition en :: "'s poll_loop \<Rightarrow> nat \<Rightarrow> poll_entry" where
  "en p i = the (pl_heap p ! i)"

abbreviation queued_on :: "'s poll_loop \<Rightarrow> nat list" where
  "queued_on p \<equiv> pl_time p @ pl_device p"

text \<open>The references to an entry: one for the queue it is in, and those the running functions hold, \<open>held\<close>. An entry
  without references is on the list of free ones.\<close>

definition refs_ok :: "nat list \<Rightarrow> 's poll_loop \<Rightarrow> nat \<Rightarrow> bool" where
  "refs_ok held p i \<longleftrightarrow>
     (i \<in> set (pl_time p) \<longrightarrow> en_type (en p i) = POLL_CB_TIME \<and> en_queued (en p i)) \<and>
     (i \<in> set (pl_device p) \<longrightarrow> en_type (en p i) = POLL_CB_DEVICE \<and> en_queued (en p i)) \<and>
     (if i \<in> set (pl_free p) then i \<notin> set held \<and> en_type (en p i) = POLL_CB_NONE
      else en_refCount (en p i) = int (count_list held i) + of_bool (i \<in> set (queued_on p)) \<and>
        (i \<in> set (queued_on p) \<or> i \<in> set held))"

definition key_of :: "poll_entry \<Rightarrow> byte list" where
  "key_of e = le_bytes (poll_get_device_key (en_fd e) (en_readable e) (en_writeable e) (en_permanent e))"

text \<open>\<open>todo\<close> are the entries of the device queue that are still to run.\<close>

definition poll_ok :: "nat list \<Rightarrow> nat set \<Rightarrow> 's poll_loop \<Rightarrow> bool" where
  "poll_ok held todo p \<longleftrightarrow> None \<notin> set (pl_heap p) \<and> distinct (queued_on p @ pl_free p) \<and>
     (\<forall>i \<in> set (queued_on p @ pl_free p @ held). i < length (pl_heap p)) \<and>
     (\<forall>i < length (pl_heap p). refs_ok held p i) \<and>
     sorted (map (en_expiry \<circ> en p) (pl_time p)) \<and>
     (\<forall>i \<in> todo. i \<in> set held \<and> en_type (en p i) = POLL_CB_DEVICE \<and> (en_queued (en p i) \<longrightarrow> i \<in> set (pl_device p))) \<and>
     ht_wf (pl_hash p) \<and>
     (\<forall>k i. ht_map (pl_hash p) k = Some i \<longleftrightarrow> i \<in> set (pl_device p) \<and> k = key_of (en p i))"

text \<open>What the holder of a reference relies on.\<close>

definition static :: "poll_entry \<Rightarrow> nat \<times> nat \<times> bool \<times> poll_type \<times> u64 \<times> int \<times> bool \<times> bool" where
  "static e = (en_callback e, en_callbackData e, en_permanent e, en_type e, en_delay e, en_fd e, en_readable e, en_writeable e)"

definition kept :: "nat list \<Rightarrow> 's poll_loop \<Rightarrow> 's poll_loop \<Rightarrow> bool" where
  "kept held p p' \<longleftrightarrow> (\<forall>i \<in> set held. static (en p' i) = static (en p i) \<and>
     (i \<notin> set (queued_on p) \<longrightarrow> i \<notin> set (queued_on p') \<and> en_queued (en p' i) = en_queued (en p i)))"

lemma kept_refl [simp]: "kept held p p"
  by (simp add: kept_def)

lemma kept_trans: "kept held p p' \<Longrightarrow> kept held p' p'' \<Longrightarrow> kept held p p''"
  by (auto simp: kept_def)

section \<open>The heap\<close>

lemma entry_en: "None \<notin> set (pl_heap p) \<Longrightarrow> i < length (pl_heap p) \<Longrightarrow> entry p i = Some (en p i)"
  unfolding entry_def en_def by simp (metis nth_mem option.collapse)

lemma upd_sel [simp]:
  "length (pl_heap (upd_entry i f p)) = length (pl_heap p)" "pl_time (upd_entry i f p) = pl_time p"
  "pl_device (upd_entry i f p) = pl_device p" "pl_free (upd_entry i f p) = pl_free p" "pl_hash (upd_entry i f p) = pl_hash p"
  "pl_client (upd_entry i f p) = pl_client p" "pl_nclock (upd_entry i f p) = pl_nclock p" "pl_exit (upd_entry i f p) = pl_exit p"
  "pl_count (upd_entry i f p) = pl_count p" "pl_nwait (upd_entry i f p) = pl_nwait p" "pl_use_poll (upd_entry i f p) = pl_use_poll p"
  "pl_fds (upd_entry i f p) = pl_fds p"
  by (simp_all add: upd_entry_def)

lemma upd_en:
  assumes "None \<notin> set (pl_heap p)" and "j < length (pl_heap p)"
  shows "en (upd_entry j f p) i = (if i = j then f (en p i) else en p i)"
proof -
  have "pl_heap p ! j \<noteq> None" using assms by (metis nth_mem)
  then show ?thesis using assms(2) by (auto simp: en_def upd_entry_def nth_list_update)
qed

lemma upd_heap: 
  assumes "None \<notin> set (pl_heap p)" and "j < length (pl_heap p)"
  shows "None \<notin> set (pl_heap (upd_entry j f p))"
proof -
  have "pl_heap p ! j \<noteq> None" using assms by (metis nth_mem)
  then obtain e where e: "pl_heap p ! j = Some e" by auto
  have "set ((pl_heap p)[j := Some (f e)]) \<subseteq> insert (Some (f e)) (set (pl_heap p))" by (rule set_update_subset_insert)
  then show ?thesis using assms(1) unfolding upd_entry_def e by auto
qed

lemma en_frame [simp]:
  "en (p\<lparr>pl_time := l\<rparr>) = en p" "en (p\<lparr>pl_device := l\<rparr>) = en p" "en (p\<lparr>pl_free := l\<rparr>) = en p" "en (p\<lparr>pl_hash := h\<rparr>) = en p"
  "en (p\<lparr>pl_client := c\<rparr>) = en p" "en (p\<lparr>pl_nclock := n\<rparr>) = en p" "en (p\<lparr>pl_exit := b\<rparr>) = en p" "en (p\<lparr>pl_count := k\<rparr>) = en p"
  "en (p\<lparr>pl_nwait := n\<rparr>) = en p" "en (p\<lparr>pl_fds := fs\<rparr>) = en p"
  by (simp_all add: en_def fun_eq_iff)

lemma entry_frame [simp]:
  "entry (p\<lparr>pl_time := l\<rparr>) = entry p" "entry (p\<lparr>pl_device := l\<rparr>) = entry p" "entry (p\<lparr>pl_free := l\<rparr>) = entry p" "entry (p\<lparr>pl_hash := h\<rparr>) = entry p"
  "entry (p\<lparr>pl_client := c\<rparr>) = entry p" "entry (p\<lparr>pl_nclock := n\<rparr>) = entry p" "entry (p\<lparr>pl_exit := b\<rparr>) = entry p" "entry (p\<lparr>pl_count := k\<rparr>) = entry p"
  "entry (p\<lparr>pl_nwait := n\<rparr>) = entry p" "entry (p\<lparr>pl_fds := fs\<rparr>) = entry p"
  by (simp_all add: entry_def fun_eq_iff)

lemma poll_okD:
  assumes "poll_ok held todo p"
  shows "None \<notin> set (pl_heap p)" "distinct (queued_on p @ pl_free p)"
    "i \<in> set (queued_on p @ pl_free p @ held) \<Longrightarrow> i < length (pl_heap p)"
    "i < length (pl_heap p) \<Longrightarrow> refs_ok held p i" "sorted (map (en_expiry \<circ> en p) (pl_time p))" "ht_wf (pl_hash p)"
    "i \<in> todo \<Longrightarrow> i \<in> set held \<and> en_type (en p i) = POLL_CB_DEVICE \<and> (en_queued (en p i) \<longrightarrow> i \<in> set (pl_device p))"
    "ht_map (pl_hash p) k = Some i \<longleftrightarrow> i \<in> set (pl_device p) \<and> k = key_of (en p i)"
  using assms unfolding poll_ok_def by blast+

lemma ok_entry: "poll_ok held todo p \<Longrightarrow> i \<in> set (queued_on p @ pl_free p @ held) \<Longrightarrow> entry p i = Some (en p i)"
  by (meson entry_en poll_okD(1,3))

section \<open>The time queue\<close>

lemma check_order_ok:
  assumes "\<And>i. i \<in> set is \<Longrightarrow> entry p i = Some (en p i)"
  shows "check_order p is prev = Some () \<longleftrightarrow> sorted (prev # map (en_expiry \<circ> en p) is)"
  using assms
proof (induction "is" arbitrary: prev)
  case (Cons i "is")
  then show ?case by (cases "is") (auto split: Option.bind_splits)
qed simp

lemma scan_insert_eq:
  assumes "\<And>i. i \<in> set is \<Longrightarrow> entry p i = Some (en p i)"
  shows "scan_insert p i x is = Some (takeWhile (\<lambda>j. en_expiry (en p j) \<le> x) is @ i # dropWhile (\<lambda>j. en_expiry (en p j) \<le> x) is)"
  using assms by (induction "is") (auto simp: not_less)

definition placed_at :: "'s poll_loop \<Rightarrow> nat \<Rightarrow> nat list \<Rightarrow> nat list" where
  "placed_at p i is = takeWhile (\<lambda>j. en_expiry (en p j) \<le> en_expiry (en p i)) is @ i #
     dropWhile (\<lambda>j. en_expiry (en p j) \<le> en_expiry (en p i)) is"

lemma set_placed_at [simp]: "set (placed_at p i is) = insert i (set is)"
proof -
  have "set is = set (takeWhile P is) \<union> set (dropWhile P is)" for P by (metis set_append takeWhile_dropWhile_id)
  then show ?thesis by (auto simp: placed_at_def)
qed

lemma distinct_placed_at: "distinct is \<Longrightarrow> i \<notin> set is \<Longrightarrow> distinct (placed_at p i is)"
proof -
  assume d: "distinct is" and i: "i \<notin> set is"
  have "distinct (takeWhile P is @ i # dropWhile P is)" for P
  proof -
    have "distinct (takeWhile P is @ dropWhile P is)" using d by simp
    then show ?thesis using i by (auto dest: set_takeWhileD set_dropWhileD simp del: takeWhile_dropWhile_id)
  qed
  then show ?thesis by (simp add: placed_at_def)
qed

lemma sorted_mid:
  "sorted (map f (as @ bs)) \<Longrightarrow> \<forall>j \<in> set as. f j \<le> f i \<Longrightarrow> \<forall>j \<in> set bs. f i \<le> f j \<Longrightarrow> sorted (map f (as @ i # bs))"
  for f :: "nat \<Rightarrow> u64"
  by (auto simp: sorted_append)

lemma sorted_placed_at:
  assumes "sorted (map (en_expiry \<circ> en p) is)"
  shows "sorted (map (en_expiry \<circ> en p) (placed_at p i is))"
  unfolding placed_at_def
proof (rule sorted_mid)
  let ?P = "\<lambda>j. en_expiry (en p j) \<le> en_expiry (en p i)"
  show "sorted (map (en_expiry \<circ> en p) (takeWhile ?P is @ dropWhile ?P is))" using assms by simp
  show "\<forall>j \<in> set (takeWhile ?P is). (en_expiry \<circ> en p) j \<le> (en_expiry \<circ> en p) i" by (auto dest: set_takeWhileD)
  show "\<forall>j \<in> set (dropWhile ?P is). (en_expiry \<circ> en p) i \<le> (en_expiry \<circ> en p) j"
    using assms by (induction "is") (auto simp: not_le)
qed


section \<open>References\<close>

text \<open>What a step does not touch.\<close>

definition same :: "nat set \<Rightarrow> 's poll_loop \<Rightarrow> 's poll_loop \<Rightarrow> bool" where
  "same is p p' \<longleftrightarrow> pl_time p' = pl_time p \<and> pl_device p' = pl_device p \<and> (\<forall>i \<in> is. en p' i = en p i) \<and>
     pl_client p' = pl_client p \<and> pl_nclock p' = pl_nclock p \<and> pl_exit p' = pl_exit p"

lemma refs_cong:
  assumes "refs_ok held p i" and "en p' i = en p i" and "i \<in> set (pl_time p') \<longleftrightarrow> i \<in> set (pl_time p)"
    and "i \<in> set (pl_device p') \<longleftrightarrow> i \<in> set (pl_device p)" and "i \<in> set (pl_free p') \<longleftrightarrow> i \<in> set (pl_free p)"
    and "count_list held' i = count_list held i"
  shows "refs_ok held' p' i"
proof -
  have "i \<in> set held' \<longleftrightarrow> i \<in> set held" using assms(6) by (metis count_list_0_iff)
  then show ?thesis using assms by (auto simp: refs_ok_def split: if_splits)
qed

lemma new_entry:
  assumes ok: "poll_ok held todo p" and f: "\<And>e. en_refCount (f e) = 0"
  shows "\<exists>i p1 p' e. poll_entry_get p = (i, p1) \<and> poll_entry_ref i (upd_entry i f p1) = Some p' \<and> poll_ok (i # held) todo p' \<and>
    i \<notin> set (queued_on p' @ held) \<and> en p' i = (f e)\<lparr>en_refCount := 1\<rparr> \<and> same ({..<length (pl_heap p)} - {i}) p p'"
proof -
  note d = poll_okD [OF ok]
  define i where "i = (case pl_free p of [] \<Rightarrow> length (pl_heap p) | i # _ \<Rightarrow> i)"
  define p1 where "p1 = (case pl_free p of [] \<Rightarrow> p\<lparr>pl_heap := pl_heap p @ [Some blank_entry]\<rparr> | i # is \<Rightarrow> p\<lparr>pl_free := is\<rparr>)"
  have get: "poll_entry_get p = (i, p1)" by (simp add: poll_entry_get_def i_def p1_def split: list.splits)
  have il: "i < length (pl_heap p1)" using d(3) by (auto simp: i_def p1_def split: list.splits)
  have n: "None \<notin> set (pl_heap p1)" using d(1) by (auto simp: p1_def split: list.splits)
  have fresh: "i \<notin> set (queued_on p)" "i \<notin> set held" "i \<notin> set (pl_free p1)" 
    using d(2,3,4) by (auto simp: i_def p1_def refs_ok_def split: list.splits)
  have lists: "pl_time p1 = pl_time p" "pl_device p1 = pl_device p" "pl_client p1 = pl_client p" "pl_nclock p1 = pl_nclock p"
    "pl_exit p1 = pl_exit p" "pl_hash p1 = pl_hash p" "set (pl_free p1) = set (pl_free p) - {i}" "distinct (pl_free p1)"
    using d(2,3) by (auto simp: p1_def i_def split: list.splits)
  have hl: "length (pl_heap p) \<le> length (pl_heap p1)" "\<And>j. j < length (pl_heap p1) \<Longrightarrow> j \<noteq> i \<Longrightarrow> j < length (pl_heap p)"
    by (auto simp: p1_def i_def split: list.splits)
  have e1: "en p1 j = en p j" if "j < length (pl_heap p)" for j
    using that by (auto simp: p1_def en_def nth_append split: list.splits)
  define p' where "p' = upd_entry i (\<lambda>e. e\<lparr>en_refCount := en_refCount e + 1\<rparr>) (upd_entry i f p1)"
  have en': "en p' j = (if j = i then (f (en p1 i))\<lparr>en_refCount := 1\<rparr> else en p1 j)" for j
    unfolding p'_def using n il f by (simp add: upd_en upd_heap)
  have n': "None \<notin> set (pl_heap p')" unfolding p'_def using n il by (simp add: upd_heap)
  have sel: "pl_time p' = pl_time p" "pl_device p' = pl_device p" "pl_client p' = pl_client p" "pl_nclock p' = pl_nclock p"
    "pl_exit p' = pl_exit p" "pl_hash p' = pl_hash p" "pl_free p' = pl_free p1" "length (pl_heap p') = length (pl_heap p1)"
    by (simp_all add: p'_def lists)
  have "poll_ok (i # held) todo p'"
    unfolding poll_ok_def sel
  proof (intro conjI)
    show "distinct (queued_on p @ pl_free p1)" using d(2) lists by auto
    show "\<forall>j \<in> set (queued_on p @ pl_free p1 @ i # held). j < length (pl_heap p1)" using d(3) il hl lists by fastforce
    show "\<forall>j < length (pl_heap p1). refs_ok (i # held) p' j"
    proof (intro allI impI)
      fix j
      assume j: "j < length (pl_heap p1)"
      show "refs_ok (i # held) p' j"
      proof (cases "j = i")
        case True
        then show ?thesis using fresh by (simp add: refs_ok_def sel en' count_notin)
      next
        case False
        then show ?thesis
          using e1 [OF hl(2) [OF j False]] lists(7)
          by (intro refs_cong [OF d(4) [OF hl(2) [OF j False]]]) (simp_all add: sel en')
      qed
    qed
    have ed: "en p' j = en p j" if "j \<in> set (queued_on p)" for j using that fresh d(3) e1 by (auto simp: en')
    then show "sorted (map (en_expiry \<circ> en p') (pl_time p))" using d(5) by (simp cong: map_cong)
    show "\<forall>k j. ht_map (pl_hash p) k = Some j \<longleftrightarrow> j \<in> set (pl_device p) \<and> k = key_of (en p' j)"
    proof (intro allI)
      fix k j
      have "j \<in> set (pl_device p) \<Longrightarrow> en p' j = en p j" by (rule ed) simp
      then show "ht_map (pl_hash p) k = Some j \<longleftrightarrow> j \<in> set (pl_device p) \<and> k = key_of (en p' j)"
        unfolding d(8) by metis
    qed
    show "\<forall>j \<in> todo. j \<in> set (i # held) \<and> en_type (en p' j) = POLL_CB_DEVICE \<and> (en_queued (en p' j) \<longrightarrow> j \<in> set (pl_device p))"
    proof
      fix j
      assume "j \<in> todo"
      note t = d(7) [OF this]
      then have "j \<noteq> i" "j < length (pl_heap p)" using fresh d(3) by auto
      then show "j \<in> set (i # held) \<and> en_type (en p' j) = POLL_CB_DEVICE \<and> (en_queued (en p' j) \<longrightarrow> j \<in> set (pl_device p))"
        using t e1 by (simp add: en')
    qed
  qed (use n' d in simp_all)
  moreover have "same ({..<length (pl_heap p)} - {i}) p p'" 
    using e1 hl by (auto simp: same_def sel en')
  moreover have "poll_entry_ref i (upd_entry i f p1) = Some p'"
    using entry_en [of "upd_entry i f p1" i] n il f by (simp add: poll_entry_ref_def p'_def upd_heap upd_en)
  ultimately show ?thesis using get fresh by (auto simp: sel en')
qed


text \<open>A step that changes one entry.\<close>

lemma poll_ok_step:
  assumes ok: "poll_ok held todo p" and heap: "None \<notin> set (pl_heap p')" "length (pl_heap p') = length (pl_heap p)"
    and i: "i < length (pl_heap p)" "refs_ok held' p' i"
    and others: "\<And>j. j \<noteq> i \<Longrightarrow> en p' j = en p j" "\<And>j. j \<noteq> i \<Longrightarrow> j \<in> set (pl_time p') \<longleftrightarrow> j \<in> set (pl_time p)"
      "\<And>j. j \<noteq> i \<Longrightarrow> j \<in> set (pl_device p') \<longleftrightarrow> j \<in> set (pl_device p)" "\<And>j. j \<noteq> i \<Longrightarrow> j \<in> set (pl_free p') \<longleftrightarrow> j \<in> set (pl_free p)"
      "\<And>j. j \<noteq> i \<Longrightarrow> count_list held' j = count_list held j"
    and lists: "distinct (queued_on p' @ pl_free p')" "sorted (map (en_expiry \<circ> en p') (pl_time p'))"
    and todo: "i \<in> todo \<Longrightarrow> i \<in> set held' \<and> en_type (en p' i) = POLL_CB_DEVICE \<and> (en_queued (en p' i) \<longrightarrow> i \<in> set (pl_device p'))"
    and hash: "ht_wf (pl_hash p')" "\<And>k j. ht_map (pl_hash p') k = Some j \<longleftrightarrow> j \<in> set (pl_device p') \<and> k = key_of (en p' j)"
  shows "poll_ok held' todo p'"
proof -
  note d = poll_okD [OF ok]
  have h: "j \<in> set held' \<longleftrightarrow> j \<in> set held" if "j \<noteq> i" for j using others(5) [OF that] by (metis count_list_0_iff)
  have "j < length (pl_heap p')" if "j \<in> set (queued_on p' @ pl_free p' @ held')" for j
    using that d(3) [of j] i(1) others(2-4) [of j] h [of j] unfolding heap(2) by (cases "j = i") auto
  moreover have "refs_ok held' p' j" if "j < length (pl_heap p')" for j
  proof (cases "j = i")
    case False
    have "refs_ok held p j" using d(4) that heap(2) by simp
    then show ?thesis by (rule refs_cong) (simp_all add: others False)
  qed (use i in simp)
  moreover have "j \<in> set held' \<and> en_type (en p' j) = POLL_CB_DEVICE \<and> (en_queued (en p' j) \<longrightarrow> j \<in> set (pl_device p'))" if "j \<in> todo" for j
    using d(7) [OF that] todo that h [of j] others(1,3) [of j] by (cases "j = i") auto
  ultimately show ?thesis
    using heap(1) lists hash unfolding poll_ok_def by blast
qed

lemma count_list_eq [simp]: "count_list (i # held) j = (if i = j then 1 else 0) + count_list held j"
  by simp

lemma ok_nth: "poll_ok held todo p \<Longrightarrow> i \<in> set (queued_on p @ pl_free p @ held) \<Longrightarrow> None \<notin> set (pl_heap p) \<and> i < length (pl_heap p)"
  using poll_okD(1,3) by metis

lemma ok_refs: "poll_ok held todo p \<Longrightarrow> i \<in> set (queued_on p @ pl_free p @ held) \<Longrightarrow> refs_ok held p i"
  by (rule poll_okD(4)) (auto dest: poll_okD(3))

lemma sorted_map_cong: "sorted (map f xs) \<Longrightarrow> (\<And>x. x \<in> set xs \<Longrightarrow> g x = f x) \<Longrightarrow> sorted (map g xs)"
  by (simp cong: map_cong)

lemma ref_ok:
  assumes ok: "poll_ok held todo p" and i: "i \<in> set (queued_on p)"
  shows "\<exists>p'. poll_entry_ref i p = Some p' \<and> poll_ok (i # held) todo p' \<and> same (- {i}) p p' \<and> pl_fds p' = pl_fds p \<and> pl_use_poll p' = pl_use_poll p \<and>
    en p' i = (en p i)\<lparr>en_refCount := en_refCount (en p i) + 1\<rparr>"
proof -
  note d = poll_okD [OF ok]
  have n: "None \<notin> set (pl_heap p) \<and> i < length (pl_heap p)" by (rule ok_nth [OF ok]) (use i in auto)
  have r: "refs_ok held p i" by (rule ok_refs [OF ok]) (use i in auto)
  have f: "i \<notin> set (pl_free p)" using d(2) i by auto
  define p' where "p' = upd_entry i (\<lambda>e. e\<lparr>en_refCount := en_refCount e + 1\<rparr>) p"
  have e: "en p' j = (if j = i then (en p i)\<lparr>en_refCount := en_refCount (en p i) + 1\<rparr> else en p j)" for j
    using n i by (auto simp: p'_def upd_en)
  have en: "entry p i = Some (en p i)" by (rule ok_entry [OF ok]) (use i in auto)
  have kk: "key_of (en p' j) = key_of (en p j)" for j by (simp add: e key_of_def)
  have hp: "None \<notin> set (pl_heap p')" using n by (simp add: p'_def upd_heap)
  have "poll_ok (i # held) todo p'"
  proof (rule poll_ok_step [OF ok, where i = i])
    show "refs_ok (i # held) p' i" using r f i by (auto simp: refs_ok_def p'_def e [unfolded p'_def])
    show "sorted (map (en_expiry \<circ> en p') (pl_time p'))"
      by (simp add: p'_def) (rule sorted_map_cong [OF d(5)], simp add: e [unfolded p'_def])
    show "ht_map (pl_hash p') k = Some j \<longleftrightarrow> j \<in> set (pl_device p') \<and> k = key_of (en p' j)" for k j
      using d(8) [of k j] unfolding kk by (simp add: p'_def)
    show "i \<in> todo \<Longrightarrow> i \<in> set (i # held) \<and> en_type (en p' i) = POLL_CB_DEVICE \<and> (en_queued (en p' i) \<longrightarrow> i \<in> set (pl_device p'))"
      using d(7) [of i] by (simp add: e) (simp add: p'_def)
  qed (use n hp d e in \<open>simp_all add: p'_def\<close>)
  moreover have "poll_entry_ref i p = Some p'"
    using r f i en by (simp add: poll_entry_ref_def p'_def refs_ok_def split: if_splits)
  moreover have "same (- {i}) p p'" "pl_fds p' = pl_fds p" "pl_use_poll p' = pl_use_poll p" by (auto simp: same_def e) (auto simp: p'_def)
  ultimately show ?thesis using e by auto
qed


text \<open>The queue gives its reference to the running function.\<close>

lemma remove1_facts:
  assumes "distinct (xs @ ys)" and "i \<in> set xs"
  shows "set (remove1 i xs) = set xs - {i}" "i \<notin> set ys" "distinct (remove1 i xs)"
  using assms by auto

lemma detach_time:
  assumes ok: "poll_ok held todo p" and i: "i \<in> set (pl_time p)"
  defines "p' \<equiv> p\<lparr>pl_time := remove1 i (pl_time p)\<rparr>"
  shows "poll_ok (i # held) todo p'" "i \<notin> set (queued_on p')"
proof -
  note d = poll_okD [OF ok]
  have r: "refs_ok held p i" by (rule ok_refs [OF ok]) (use i in auto)
  have il: "i < length (pl_heap p)" by (rule d(3)) (use i in auto)
  have nt: "i \<notin> set (pl_device p)" "i \<notin> set (pl_free p)" using d(2) i by auto
  have sel: "pl_device p' = pl_device p" "pl_free p' = pl_free p" "pl_hash p' = pl_hash p" "pl_heap p' = pl_heap p"
    "en p' = en p" "set (pl_time p') = set (pl_time p) - {i}"
    using d(2) by (simp_all add: p'_def)
  show "poll_ok (i # held) todo p'"
  proof (rule poll_ok_step [OF ok, where i = i])
    show "refs_ok (i # held) p' i" using r i nt by (simp add: refs_ok_def sel)
    show "sorted (map (en_expiry \<circ> en p') (pl_time p'))"
      using d(5) unfolding sel by (simp add: p'_def sorted_remove1 sorted_map_remove1)
    show "distinct (queued_on p' @ pl_free p')" using d(2) unfolding distinct_append sel by (auto simp: p'_def)
    show "i \<in> todo \<Longrightarrow> i \<in> set (i # held) \<and> en_type (en p' i) = POLL_CB_DEVICE \<and> (en_queued (en p' i) \<longrightarrow> i \<in> set (pl_device p'))"
      using d(7) [of i] by (simp add: sel)
  qed (use d il in \<open>simp_all add: sel\<close>)
  show "i \<notin> set (queued_on p')" using nt sel by simp
qed

lemma upd_detached:
  assumes ok: "poll_ok held todo p" and i: "i \<in> set held" "i \<notin> set (queued_on p)"
    and f: "\<And>e. en_refCount (f e) = en_refCount e" "\<And>e. en_type (f e) = en_type e" "i \<in> todo \<Longrightarrow> \<not> en_queued (f (en p i))"
  shows "poll_ok held todo (upd_entry i f p)" "same (- {i}) p (upd_entry i f p)" "en (upd_entry i f p) i = f (en p i)"
proof -
  define p' where "p' = upd_entry i f p"
  note d = poll_okD [OF ok]
  have n: "None \<notin> set (pl_heap p) \<and> i < length (pl_heap p)" by (rule ok_nth [OF ok]) (use i in auto)
  have r: "refs_ok held p i" by (rule ok_refs [OF ok]) (use i in auto)
  have e: "en p' j = (if j = i then f (en p i) else en p j)" for j
    using n by (auto simp: p'_def upd_en)
  have sel: "pl_time p' = pl_time p" "pl_device p' = pl_device p" "pl_free p' = pl_free p" "pl_hash p' = pl_hash p"
    "length (pl_heap p') = length (pl_heap p)" by (simp_all add: p'_def)
  have hp: "None \<notin> set (pl_heap p')" using n by (simp add: p'_def upd_heap)
  have "poll_ok held todo p'"
  proof (rule poll_ok_step [OF ok, where i = i])
    show "refs_ok held p' i" using r i by (auto simp: refs_ok_def sel e f split: if_splits)
    show "sorted (map (en_expiry \<circ> en p') (pl_time p'))"
      unfolding sel by (rule sorted_map_cong [OF d(5)]) (use i in \<open>auto simp: e\<close>)
    show "ht_map (pl_hash p') k = Some j \<longleftrightarrow> j \<in> set (pl_device p') \<and> k = key_of (en p' j)" for k j
      using d(8) [of k j] i by (auto simp: sel e)
    show "i \<in> todo \<Longrightarrow> i \<in> set held \<and> en_type (en p' i) = POLL_CB_DEVICE \<and> (en_queued (en p' i) \<longrightarrow> i \<in> set (pl_device p'))"
      using d(7) [of i] f by (simp add: sel e)
  qed (use n hp d e in \<open>simp_all add: sel\<close>)
  then show "poll_ok held todo (upd_entry i f p)" by (simp add: p'_def)
  show "same (- {i}) p (upd_entry i f p)" "en (upd_entry i f p) i = f (en p i)"
    using e by (auto simp: same_def p'_def)
qed

lemma poll_ok_todo:
  "poll_ok held todo p \<Longrightarrow> poll_ok held (todo - {i}) p"
  "poll_ok held (todo - {i}) p \<Longrightarrow> (i \<in> todo \<Longrightarrow> i \<in> set held \<and> en_type (en p i) = POLL_CB_DEVICE \<and> \<not> en_queued (en p i)) \<Longrightarrow> poll_ok held todo p"
  unfolding poll_ok_def by blast+

lemma poll_ok_frame [simp]:
  "poll_ok held todo (p\<lparr>pl_nclock := n\<rparr>) = poll_ok held todo p" "poll_ok held todo (p\<lparr>pl_client := c\<rparr>) = poll_ok held todo p"
  "poll_ok held todo (p\<lparr>pl_exit := b\<rparr>) = poll_ok held todo p"
  by (simp_all add: poll_ok_def refs_ok_def)

lemma unref_ok:
  assumes ok: "poll_ok (i # held) todo p" and t: "i \<in> todo \<Longrightarrow> i \<in> set held"
  shows "\<exists>p'. poll_entry_unref i p = Some (i \<notin> set (queued_on p) \<and> i \<notin> set held, p') \<and> poll_ok held todo p' \<and> same (- {i}) p p' \<and>
    (i \<in> set held \<longrightarrow> static (en p' i) = static (en p i) \<and> en_queued (en p' i) = en_queued (en p i)) \<and> 
    (i \<in> set (queued_on p) \<longrightarrow> en p' i = (en p i)\<lparr>en_refCount := en_refCount (en p i) - 1\<rparr>)"
proof -
  note d = poll_okD [OF ok]
  have n: "None \<notin> set (pl_heap p) \<and> i < length (pl_heap p)" by (rule ok_nth [OF ok]) auto
  have r: "refs_ok (i # held) p i" by (rule ok_refs [OF ok]) auto
  then have c: "en_refCount (en p i) = 1 + int (count_list held i) + of_bool (i \<in> set (queued_on p))" and f: "i \<notin> set (pl_free p)"
    by (auto simp: refs_ok_def split: if_splits)
  define last where "last \<longleftrightarrow> i \<notin> set (queued_on p) \<and> i \<notin> set held"
  have z: "0 < en_refCount (en p i) - 1 \<longleftrightarrow> \<not> last"
    using c count_list_0_iff [of held i] by (auto simp: last_def)
  define p1 where "p1 = upd_entry i (\<lambda>e. e\<lparr>en_refCount := en_refCount e - 1\<rparr>) p"
  define p' where "p' = (if last then poll_entry_put i p1 else p1)"
  have h1: "None \<notin> set (pl_heap p1)" "length (pl_heap p1) = length (pl_heap p)" using n by (simp_all add: p1_def upd_heap)
  have e: "en p' j = (if j = i then (en p i)\<lparr>en_refCount := en_refCount (en p i) - 1, en_type := (if last then POLL_CB_NONE else en_type (en p i))\<rparr> else en p j)" for j
    using n h1 by (auto simp: p'_def poll_entry_put_def upd_en p1_def)
  have sel: "pl_time p' = pl_time p" "pl_device p' = pl_device p" "pl_hash p' = pl_hash p" "length (pl_heap p') = length (pl_heap p)"
    "pl_free p' = (if last then pl_free p @ [i] else pl_free p)"
    by (simp_all add: p'_def p1_def poll_entry_put_def)
  have hp: "None \<notin> set (pl_heap p')" using n h1 by (simp add: p'_def poll_entry_put_def upd_heap)
  have kk: "key_of (en p' j) = key_of (en p j)" for j by (simp add: e key_of_def)
  have "poll_ok held todo p'"
  proof (rule poll_ok_step [OF ok, where i = i])
    show "refs_ok held p' i" using r f c by (auto simp: refs_ok_def sel e last_def)
    show "sorted (map (en_expiry \<circ> en p') (pl_time p'))" unfolding sel by (rule sorted_map_cong [OF d(5)]) (simp add: e)
    show "ht_map (pl_hash p') k = Some j \<longleftrightarrow> j \<in> set (pl_device p') \<and> k = key_of (en p' j)" for k j
      using d(8) [of k j] unfolding kk by (simp add: sel)
    show "i \<in> todo \<Longrightarrow> i \<in> set held \<and> en_type (en p' i) = POLL_CB_DEVICE \<and> (en_queued (en p' i) \<longrightarrow> i \<in> set (pl_device p'))"
      using d(7) [of i] t by (simp add: sel e last_def)
    show "distinct (queued_on p' @ pl_free p')" using d(2) f by (auto simp: sel last_def)
  qed (use n hp d e in \<open>simp_all add: sel\<close>)
  moreover have "same (- {i}) p p'" by (auto simp: same_def e) (simp_all add: p'_def p1_def poll_entry_put_def split: if_splits)
  moreover have "poll_entry_unref i p = Some (last, p')"
    using entry_en [of p i] n c z by (simp add: poll_entry_unref_def p'_def p1_def)
  ultimately show ?thesis by (auto simp: e last_def static_def)
qed


text \<open>The running function gives its reference to a queue.\<close>

lemma insert_time_ok:
  assumes ok: "poll_ok (i # held) todo p" and i: "i \<notin> set (queued_on p)" "i \<notin> set held" "en_type (en p i) = POLL_CB_TIME"
  shows "\<exists>p'. poll_insert_time i p = Some p' \<and> poll_ok held todo p' \<and> pl_time p' = placed_at p i (pl_time p) \<and>
    pl_device p' = pl_device p \<and> pl_client p' = pl_client p \<and> pl_nclock p' = pl_nclock p \<and> pl_exit p' = pl_exit p \<and>
    en p' i = (en p i)\<lparr>en_queued := True\<rparr> \<and> (\<forall>j. j \<noteq> i \<longrightarrow> en p' j = en p j)"
proof -
  note d = poll_okD [OF ok]
  have n: "None \<notin> set (pl_heap p) \<and> i < length (pl_heap p)" by (rule ok_nth [OF ok]) auto
  have r: "refs_ok (i # held) p i" by (rule ok_refs [OF ok]) auto
  have rc: "en_refCount (en p i) = 1" "i \<notin> set (pl_free p)" using r i by (auto simp: refs_ok_def count_notin split: if_splits)
  define p1 where "p1 = upd_entry i (\<lambda>e. e\<lparr>en_queued := True\<rparr>) p"
  define p' where "p' = p1\<lparr>pl_time := placed_at p i (pl_time p), pl_count := pl_count p1 + 1\<rparr>"
  have e: "en p' j = (if j = i then (en p i)\<lparr>en_queued := True\<rparr> else en p j)" for j
    using n by (auto simp: p'_def p1_def upd_en)
  have sel: "pl_time p' = placed_at p i (pl_time p)" "pl_device p' = pl_device p" "pl_hash p' = pl_hash p" "length (pl_heap p') = length (pl_heap p)"
    "pl_free p' = pl_free p" by (simp_all add: p'_def p1_def)
  have hp: "None \<notin> set (pl_heap p')" using n by (simp add: p'_def p1_def upd_heap)
  have kk: "key_of (en p' j) = key_of (en p j)" for j by (simp add: e key_of_def)
  have ds: "distinct (placed_at p i (pl_time p))" using d(2) i by (intro distinct_placed_at) auto
  have ex: "en_expiry (en p' j) = en_expiry (en p j)" for j by (simp add: e)
  have so: "sorted (map (en_expiry \<circ> en p') (placed_at p i (pl_time p)))"
    by (rule sorted_map_cong [OF sorted_placed_at [OF d(5)]]) (simp add: ex)
  have ok': "poll_ok held todo p'"
  proof (rule poll_ok_step [OF ok, where i = i])
    show "refs_ok held p' i" using r i rc by (simp add: refs_ok_def sel e count_notin)
    show "sorted (map (en_expiry \<circ> en p') (pl_time p'))" using so by (simp add: sel)
    show "ht_map (pl_hash p') k = Some j \<longleftrightarrow> j \<in> set (pl_device p') \<and> k = key_of (en p' j)" for k j
      using d(8) [of k j] unfolding kk by (simp add: sel)
    show "i \<in> todo \<Longrightarrow> i \<in> set held \<and> en_type (en p' i) = POLL_CB_DEVICE \<and> (en_queued (en p' i) \<longrightarrow> i \<in> set (pl_device p'))"
      using d(7) [of i] i by simp
    show "distinct (queued_on p' @ pl_free p')" using d(2) ds i rc by (auto simp: sel)
  qed (use n hp d e in \<open>simp_all add: sel\<close>)
  have ent: "entry p1 j = Some (en p' j)" if "j \<in> set (pl_time p')" for j
    using entry_en [of p' j] hp poll_okD(3) [OF ok', of j] that by (auto simp: p'_def)
  have sc: "scan_insert p1 i (en_expiry (en p i)) (pl_time p) = Some (placed_at p i (pl_time p))"
  proof -
    have ee: "en p1 = en p'" by (simp add: p'_def)
    have "entry p1 j = Some (en p1 j)" if "j \<in> set (pl_time p)" for j unfolding ee using ent [of j] that by (simp add: sel(1))
    then show ?thesis by (subst scan_insert_eq) (simp_all add: ee ex placed_at_def)
  qed
  then have q: "(case pl_time p1 of [] \<Rightarrow> Some [i] | j # js \<Rightarrow> do {
      e \<leftarrow> entry p1 j; if en_expiry (en p i) < en_expiry e then Some (i # j # js) else scan_insert p1 i (en_expiry (en p i)) (j # js) })
      = Some (placed_at p i (pl_time p))"
    using ent by (cases "pl_time p") (auto simp: p1_def sel placed_at_def split: Option.bind_splits)
  have "check_order p' (pl_time p') 0 = Some ()"
    using so ent by (subst check_order_ok) (auto simp: p'_def)
  then have "poll_insert_time i p = Some p'"
    using entry_en [of p i] n rc i q unfolding poll_insert_time_def
    by (simp add: p1_def [symmetric]) (simp add: p'_def [symmetric] poll_check_time_queue_order_def)
  then show ?thesis using ok' e sel by (auto simp: p'_def p1_def)
qed


lemma insert_device_ok:
  assumes ok: "poll_ok (i # held) todo p" and i: "i \<notin> set (queued_on p)" "i \<notin> set held" "i \<notin> todo" "en_type (en p i) = POLL_CB_DEVICE"
  shows "ht_map (pl_hash p) (key_of (en p i)) \<noteq> None \<Longrightarrow> poll_insert_device i p = None"
    and "ht_map (pl_hash p) (key_of (en p i)) = None \<Longrightarrow>
      \<exists>p'. poll_insert_device i p = Some p' \<and> poll_ok held todo p' \<and> pl_time p' = pl_time p \<and>
        pl_device p' = pl_device p @ [i] \<and> pl_client p' = pl_client p \<and> pl_nclock p' = pl_nclock p \<and> pl_exit p' = pl_exit p \<and>
        en p' i = (en p i)\<lparr>en_queued := True\<rparr> \<and> (\<forall>j. j \<noteq> i \<longrightarrow> en p' j = en p j)"
proof -
  note d = poll_okD [OF ok]
  have n: "None \<notin> set (pl_heap p) \<and> i < length (pl_heap p)" by (rule ok_nth [OF ok]) auto
  have en: "entry p i = Some (en p i)" using entry_en n by blast
  have r: "refs_ok (i # held) p i" by (rule ok_refs [OF ok]) auto
  have rc: "en_refCount (en p i) = 1" "i \<notin> set (pl_free p)" using r i by (auto simp: refs_ok_def count_notin split: if_splits)
  obtain ht where ins: "hashtable_insert (pl_hash p) (key_of (en p i)) i = Some (ht_map (pl_hash p) (key_of (en p i)) = None, ht)"
    and ht: "ht_wf ht" "ht_map ht = (if ht_map (pl_hash p) (key_of (en p i)) = None then (ht_map (pl_hash p))(key_of (en p i) \<mapsto> i) else ht_map (pl_hash p))"
    using hts.insert_law [OF d(6), of "key_of (en p i)" i] by blast
  have key: "poll_get_device_key_from_entry (en p i) = Some (poll_get_device_key (en_fd (en p i)) (en_readable (en p i)) (en_writeable (en p i)) (en_permanent (en p i)))"
    using i by (simp add: poll_get_device_key_from_entry_def)
  show "ht_map (pl_hash p) (key_of (en p i)) \<noteq> None \<Longrightarrow> poll_insert_device i p = None"
    using ins by (simp add: poll_insert_device_def en key key_of_def)
  assume new: "ht_map (pl_hash p) (key_of (en p i)) = None"
  define p' where "p' = upd_entry i (\<lambda>e. e\<lparr>en_queued := True\<rparr>) (p\<lparr>pl_hash := ht, pl_device := pl_device p @ [i]\<rparr>)"
  have e: "en p' j = (if j = i then (en p i)\<lparr>en_queued := True\<rparr> else en p j)" for j
    using n by (auto simp: p'_def upd_en)
  have sel: "pl_time p' = pl_time p" "pl_device p' = pl_device p @ [i]" "pl_hash p' = ht" "length (pl_heap p') = length (pl_heap p)"
    "pl_free p' = pl_free p" by (simp_all add: p'_def)
  have hp: "None \<notin> set (pl_heap p')" using n by (simp add: p'_def upd_heap)
  have kk: "key_of (en p' j) = key_of (en p j)" for j by (simp add: e key_of_def)
  have "poll_ok held todo p'"
  proof (rule poll_ok_step [OF ok, where i = i])
    show "refs_ok held p' i" using r i rc by (auto simp: refs_ok_def sel e count_notin)
    show "sorted (map (en_expiry \<circ> en p') (pl_time p'))" unfolding sel by (rule sorted_map_cong [OF d(5)]) (simp add: e)
    show "ht_map (pl_hash p') k = Some j \<longleftrightarrow> j \<in> set (pl_device p') \<and> k = key_of (en p' j)" for k j
      using d(8) [of k j] d(8) [of "key_of (en p i)" j] new i(1) unfolding kk by (auto simp: sel ht split: if_splits)
    show "i \<in> todo \<Longrightarrow> i \<in> set held \<and> en_type (en p' i) = POLL_CB_DEVICE \<and> (en_queued (en p' i) \<longrightarrow> i \<in> set (pl_device p'))"
      using i by simp
    show "distinct (queued_on p' @ pl_free p')" using d(2) i rc by (auto simp: sel)
    show "ht_wf (pl_hash p')" by (simp add: sel ht)
  qed (use n hp d e in \<open>simp_all add: sel\<close>)
  moreover have "poll_insert_device i p = Some p'"
    using ins new by (simp add: poll_insert_device_def en key key_of_def p'_def)
  ultimately show "\<exists>p'. poll_insert_device i p = Some p' \<and> poll_ok held todo p' \<and> pl_time p' = pl_time p \<and>
        pl_device p' = pl_device p @ [i] \<and> pl_client p' = pl_client p \<and> pl_nclock p' = pl_nclock p \<and> pl_exit p' = pl_exit p \<and>
        en p' i = (en p i)\<lparr>en_queued := True\<rparr> \<and> (\<forall>j. j \<noteq> i \<longrightarrow> en p' j = en p j)"
    using e sel by (auto simp: p'_def)
qed

text \<open>Removing the key of an entry of the device queue and the entry from the queue.\<close>

lemma detach_device:
  assumes ok: "poll_ok held todo p" and i: "i \<in> set (pl_device p)" and t: "i \<notin> todo"
  shows "\<exists>p1. poll_entry_remove_from_hashtable i p = Some p1 \<and>
    poll_ok (i # held) todo (p1\<lparr>pl_device := remove1 i (pl_device p1)\<rparr>) \<and> pl_device p1 = pl_device p \<and> pl_time p1 = pl_time p \<and> en p1 = en p \<and>
    pl_client p1 = pl_client p \<and> pl_nclock p1 = pl_nclock p \<and> pl_exit p1 = pl_exit p \<and> i \<notin> set (remove1 i (pl_device p)) \<and> i \<notin> set (pl_time p)"
proof -
  note d = poll_okD [OF ok]
  have il: "i < length (pl_heap p)" by (rule d(3)) (use i in auto)
  have en: "entry p i = Some (en p i)" using entry_en d(1) il by blast
  have r: "refs_ok held p i" by (rule ok_refs [OF ok]) (use i in auto)
  then have ty: "en_type (en p i) = POLL_CB_DEVICE" using i by (simp add: refs_ok_def)
  have m: "ht_map (pl_hash p) (key_of (en p i)) = Some i" using d(8) i by blast
  obtain ht where rem: "hashtable_remove (pl_hash p) (key_of (en p i)) = Some (True, ht)"
    and ht: "ht_wf ht" "ht_map ht = (ht_map (pl_hash p))(key_of (en p i) := None)"
    using hts.remove_law [OF d(6), of "key_of (en p i)"] m by auto
  define p1 where "p1 = p\<lparr>pl_hash := ht\<rparr>"
  define p' where "p' = p1\<lparr>pl_device := remove1 i (pl_device p1)\<rparr>"
  have nt: "i \<notin> set (pl_time p)" "i \<notin> set (pl_free p)" using d(2) i by auto
  have dd: "distinct (pl_device p)" using d(2) by simp
  have sel: "set (pl_device p') = set (pl_device p) - {i}" "pl_device p' = remove1 i (pl_device p)" "pl_free p' = pl_free p" "pl_hash p' = ht" "pl_heap p' = pl_heap p"
    "en p' = en p" "pl_time p' = pl_time p"
    using dd by (simp_all add: p'_def p1_def)
  have "poll_ok (i # held) todo p'"
  proof (rule poll_ok_step [OF ok, where i = i])
    show "refs_ok (i # held) p' i" using r i nt by (simp add: refs_ok_def sel(1,3,6,7))
    show "distinct (queued_on p' @ pl_free p')" using d(2) unfolding distinct_append sel(1,2,3,7) by auto
    show "ht_map (pl_hash p') k = Some j \<longleftrightarrow> j \<in> set (pl_device p') \<and> k = key_of (en p' j)" for k j
    proof (cases "k = key_of (en p i)")
      case True
      then show ?thesis using d(8) [of k j] m unfolding sel(1,4,6) ht by auto
    next
      case False
      then show ?thesis using d(8) [of k j] unfolding sel(1,4,6) ht by auto
    qed
    show "i \<in> todo \<Longrightarrow> i \<in> set (i # held) \<and> en_type (en p' i) = POLL_CB_DEVICE \<and> (en_queued (en p' i) \<longrightarrow> i \<in> set (pl_device p'))"
      using t by simp
  qed (use d il ht in \<open>simp_all add: sel(1,3-7)\<close>)
  moreover have "poll_entry_remove_from_hashtable i p = Some p1"
    using rem by (simp add: poll_entry_remove_from_hashtable_def en poll_get_device_key_from_entry_def ty key_of_def p1_def)
  ultimately show ?thesis using nt dd by (auto simp: p'_def p1_def)
qed


section \<open>The specification\<close>

text \<open>Timers in the order in which they expire and watched descriptors, without entries, references and keys.\<close>

record timer =
  tm_expiry :: u64
  tm_delay :: u64
  tm_permanent :: bool
  tm_callback :: nat
  tm_data :: nat

record watch =
  wa_fd :: int
  wa_readable :: bool
  wa_writeable :: bool
  wa_permanent :: bool
  wa_callback :: nat
  wa_data :: nat

record 's sched =
  sc_timers :: "timer list"
  sc_watches :: "watch list"
  sc_client :: 's
  sc_nclock :: nat
  sc_exit :: bool

definition timer_of :: "poll_entry \<Rightarrow> timer" where
  "timer_of e = \<lparr>tm_expiry = en_expiry e, tm_delay = en_delay e, tm_permanent = en_permanent e, tm_callback = en_callback e,
     tm_data = en_callbackData e\<rparr>"

definition watch_of :: "poll_entry \<Rightarrow> watch" where
  "watch_of e = \<lparr>wa_fd = en_fd e, wa_readable = en_readable e, wa_writeable = en_writeable e, wa_permanent = en_permanent e,
     wa_callback = en_callback e, wa_data = en_callbackData e\<rparr>"

definition sched_of :: "'s poll_loop \<Rightarrow> 's sched" where
  "sched_of p = \<lparr>sc_timers = map (timer_of \<circ> en p) (pl_time p), sc_watches = map (watch_of \<circ> en p) (pl_device p),
     sc_client = pl_client p, sc_nclock = pl_nclock p, sc_exit = pl_exit p\<rparr>"

definition add_timer :: "timer \<Rightarrow> timer list \<Rightarrow> timer list" where
  "add_timer t ts = takeWhile (\<lambda>u. tm_expiry u \<le> tm_expiry t) ts @ t # dropWhile (\<lambda>u. tm_expiry u \<le> tm_expiry t) ts"

fun drop_first :: "('a \<Rightarrow> bool) \<Rightarrow> 'a list \<Rightarrow> 'a list" where
  "drop_first P [] = []"
| "drop_first P (x # xs) = (if P x then xs else x # drop_first P xs)"

definition wa_key :: "watch \<Rightarrow> u64" where
  "wa_key w = poll_get_device_key (wa_fd w) (wa_readable w) (wa_writeable w) (wa_permanent w)"

fun spec_op :: "'s poll_env \<Rightarrow> poll_op \<Rightarrow> 's sched \<Rightarrow> 's sched option" where
  "spec_op env (Op_time delay permanent cb d) s = Some (s\<lparr>sc_nclock := sc_nclock s + 1,
     sc_timers := add_timer \<lparr>tm_expiry = pv_clock env (sc_nclock s) + delay, tm_delay = delay, tm_permanent = permanent, tm_callback = cb, tm_data = d\<rparr> (sc_timers s)\<rparr>)"
| "spec_op env (Op_device fd r w permanent cb d) s =
     (let new = \<lparr>wa_fd = fd, wa_readable = r, wa_writeable = w, wa_permanent = permanent, wa_callback = cb, wa_data = d\<rparr> in
      if \<exists>v \<in> set (sc_watches s). wa_key v = wa_key new then None else Some (s\<lparr>sc_watches := sc_watches s @ [new]\<rparr>))"
| "spec_op env (Op_time_remove permanent cb d) s =
     Some (s\<lparr>sc_timers := drop_first (\<lambda>t. tm_callback t = cb \<and> tm_data t = d \<and> tm_permanent t = permanent) (sc_timers s)\<rparr>)"
| "spec_op env (Op_device_remove fd r w permanent cb d) s =
     (let old = \<lparr>wa_fd = fd, wa_readable = r, wa_writeable = w, wa_permanent = permanent, wa_callback = cb, wa_data = d\<rparr> in
      case find (\<lambda>v. wa_key v = wa_key old) (sc_watches s) of None \<Rightarrow> Some s
      | Some v \<Rightarrow> if v = old then Some (s\<lparr>sc_watches := remove1 v (sc_watches s)\<rparr>) else None)"
| "spec_op env Op_exit s = Some (s\<lparr>sc_exit := True\<rparr>)"

lemma add_timer_placed:
  "map (timer_of \<circ> f) (takeWhile (\<lambda>j. en_expiry (f j) \<le> en_expiry (f i)) is @ i # dropWhile (\<lambda>j. en_expiry (f j) \<le> en_expiry (f i)) is) =
     add_timer (timer_of (f i)) (map (timer_of \<circ> f) is)"
  by (simp add: add_timer_def takeWhile_map dropWhile_map comp_def) (simp add: timer_of_def)

lemma kept_same:
  assumes "same is p p'" and "set held \<subseteq> is"
  shows "kept held p p'"
  using assms by (auto simp: kept_def same_def)

lemma sched_same: "same is p p' \<Longrightarrow> set (queued_on p) \<subseteq> is \<Longrightarrow> sched_of p' = sched_of p"
  by (auto simp: same_def sched_of_def)

text \<open>An entry is put into the time queue, to expire after its delay.\<close>

lemma requeue:
  assumes ok: "poll_ok (i # held) todo p" and i: "i \<notin> set (queued_on p)" "i \<notin> set held" "en_type (en p i) = POLL_CB_TIME"
  shows "\<exists>p'. poll_insert_time i (poll_recalc_expiry env i p) = Some p' \<and> poll_ok held todo p' \<and>
    sched_of p' = (sched_of p)\<lparr>sc_nclock := pl_nclock p + 1,
      sc_timers := add_timer ((timer_of (en p i))\<lparr>tm_expiry := pv_clock env (pl_nclock p) + en_delay (en p i)\<rparr>) (sc_timers (sched_of p))\<rparr> \<and>
    (\<forall>j. j \<noteq> i \<longrightarrow> en p' j = en p j) \<and> set (queued_on p') = insert i (set (queued_on p))"
proof -
  let ?f = "\<lambda>e. e\<lparr>en_expiry := pv_clock env (pl_nclock p) + en_delay e\<rparr>" and ?p = "p\<lparr>pl_nclock := pl_nclock p + 1\<rparr>"
  have re: "poll_recalc_expiry env i p = upd_entry i ?f ?p" by (simp add: poll_recalc_expiry_def time_get_def)
  define p3 where "p3 = upd_entry i ?f ?p"
  have nt: "i \<notin> todo" using poll_okD(7) [OF ok, of i] i(3) by auto
  have ok': "poll_ok (i # held) todo ?p" using ok by simp
  note u = upd_detached [OF ok', of i ?f]
  have ok3: "poll_ok (i # held) todo p3" and s3: "same (- {i}) ?p p3" and e3: "en p3 i = ?f (en p i)"
    using u i(1) nt unfolding p3_def by simp_all
  have i3: "i \<notin> set (queued_on p3)" "en_type (en p3 i) = POLL_CB_TIME" using i s3 e3 by (auto simp: same_def)
  obtain p' where p': "poll_insert_time i p3 = Some p'" "poll_ok held todo p'" "pl_time p' = placed_at p3 i (pl_time p3)"
    "pl_device p' = pl_device p3" "pl_client p' = pl_client p3" "pl_nclock p' = pl_nclock p3" "pl_exit p' = pl_exit p3"
    "en p' i = (en p3 i)\<lparr>en_queued := True\<rparr>" "\<And>j. j \<noteq> i \<Longrightarrow> en p' j = en p3 j"
    using insert_time_ok [OF ok3 i3(1) i(2) i3(2)] by blast
  have ex: "en_expiry (en p' j) = en_expiry (en p3 j)" for j using p'(8,9) by (cases "j = i") simp_all
  have l: "pl_time p3 = pl_time p" "pl_device p3 = pl_device p" using s3 by (simp_all add: same_def)
  have old: "en p' j = en p j" if "j \<noteq> i" for j using p'(9) [OF that] s3 that by (simp add: same_def)
  have in_old: "en p' j = en p j" if "j \<in> set (queued_on p)" for j using old i(1) that by metis
  have oldm: "map (timer_of \<circ> en p') (pl_time p) = map (timer_of \<circ> en p) (pl_time p)"
    "map (watch_of \<circ> en p') (pl_device p) = map (watch_of \<circ> en p) (pl_device p)" using in_old by simp_all
  have "pl_time p' = takeWhile (\<lambda>j. en_expiry (en p' j) \<le> en_expiry (en p' i)) (pl_time p) @ i # dropWhile (\<lambda>j. en_expiry (en p' j) \<le> en_expiry (en p' i)) (pl_time p)"
    unfolding p'(3) placed_at_def l ex ..
  then have "map (timer_of \<circ> en p') (pl_time p') = add_timer (timer_of (en p' i)) (map (timer_of \<circ> en p) (pl_time p))"
    by (simp only: add_timer_placed oldm)
  moreover have "timer_of (en p' i) = (timer_of (en p i))\<lparr>tm_expiry := pv_clock env (pl_nclock p) + en_delay (en p i)\<rparr>"
    using p'(8) e3 by (simp add: timer_of_def)
  ultimately have "sched_of p' = (sched_of p)\<lparr>sc_nclock := pl_nclock p + 1,
      sc_timers := add_timer ((timer_of (en p i))\<lparr>tm_expiry := pv_clock env (pl_nclock p) + en_delay (en p i)\<rparr>) (sc_timers (sched_of p))\<rparr>"
    using p' s3 oldm by (simp add: sched_of_def same_def)
  then show ?thesis using p'(1-4) old l unfolding re p3_def [symmetric] by auto
qed

lemma fresh_keeps:
  assumes "\<And>j. j \<in> set (queued_on p @ held) \<Longrightarrow> en p' j = en p j" and "set (queued_on p') \<subseteq> insert i (set (queued_on p))" and "i \<notin> set held"
  shows "kept held p p'"
  using assms unfolding kept_def by auto

lemma new_entry_old:
  assumes "poll_ok held todo p" and "same ({..<length (pl_heap p)} - {i}) p p'" and "i \<notin> set (queued_on p' @ held)" and "j \<in> set (queued_on p @ held)"
  shows "en p' j = en p j" "j \<noteq> i"
proof -
  show n: "j \<noteq> i" using assms(2-4) by (auto simp: same_def)
  have "j < length (pl_heap p)" by (rule poll_okD(3) [OF assms(1)]) (use assms(4) in auto)
  then show "en p' j = en p j" using assms(2) n by (simp add: same_def)
qed

text \<open>A timer that is registered.\<close>

lemma op_time_refines:
  assumes ok: "poll_ok held todo p"
  shows "\<exists>p'. poll_callback_time env delay permanent cb d p = Some p' \<and> poll_ok held todo p' \<and> kept held p p' \<and>
    Some (sched_of p') = spec_op env (Op_time delay permanent cb d) (sched_of p)"
proof -
  let ?f = "\<lambda>e. e\<lparr>en_type := POLL_CB_TIME, en_callback := cb, en_callbackData := d, en_permanent := permanent, en_refCount := 0, en_delay := delay\<rparr>"
  obtain i p1 p2 e where get: "poll_entry_get p = (i, p1)" and ref: "poll_entry_ref i (upd_entry i ?f p1) = Some p2"
    and ok2: "poll_ok (i # held) todo p2" and i: "i \<notin> set (queued_on p2 @ held)" "en p2 i = (?f e)\<lparr>en_refCount := 1\<rparr>"
    and same: "same ({..<length (pl_heap p)} - {i}) p p2"
    using new_entry [OF ok, of ?f] by auto
  note old = new_entry_old [OF ok same i(1)]
  have i2: "i \<notin> set (queued_on p2)" "i \<notin> set held" "en_type (en p2 i) = POLL_CB_TIME" using i by simp_all
  obtain p' where p': "poll_insert_time i (poll_recalc_expiry env i p2) = Some p'" "poll_ok held todo p'"
    "sched_of p' = (sched_of p2)\<lparr>sc_nclock := pl_nclock p2 + 1, sc_timers := add_timer ((timer_of (en p2 i))\<lparr>tm_expiry := pv_clock env (pl_nclock p2) + en_delay (en p2 i)\<rparr>) (sc_timers (sched_of p2))\<rparr>"
    "\<And>j. j \<noteq> i \<Longrightarrow> en p' j = en p2 j" "set (queued_on p') = insert i (set (queued_on p2))"
    using requeue [OF ok2 i2] by blast
  have "sched_of p2 = sched_of p" using old same by (auto simp: sched_of_def same_def)
  moreover have "pl_nclock p2 = sc_nclock (sched_of p)" using same by (simp add: same_def sched_of_def)
  ultimately have "Some (sched_of p') = spec_op env (Op_time delay permanent cb d) (sched_of p)"
    using p'(3) i(2) by (simp add: timer_of_def)
  moreover have "kept held p p'"
    by (rule fresh_keeps [where i = i]) (use old p'(4,5) i2 same in \<open>auto simp: same_def\<close>)
  ultimately show ?thesis using p'(1,2) by (simp add: poll_callback_time_def get ref)
qed

lemma key_of_watch: "key_of e = le_bytes (wa_key (watch_of e))"
  by (simp add: key_of_def wa_key_def watch_of_def)

lemma le_bytes_inj64: "le_bytes (v :: u64) = le_bytes w \<longleftrightarrow> v = w"
proof -
  have "le_word (le_bytes x) = x" for x :: u64 by (rule le_word_le_bytes) simp
  then show ?thesis by metis
qed

lemma key_taken:
  assumes "poll_ok held todo p"
  shows "ht_map (pl_hash p) (le_bytes key) = None \<longleftrightarrow> (\<forall>v \<in> set (map (watch_of \<circ> en p) (pl_device p)). wa_key v \<noteq> key)"
  using poll_okD(8) [OF assms, of "le_bytes key"] by (auto simp: key_of_watch le_bytes_inj64) (metis not_None_eq)+

lemma op_device_refines:
  assumes ok: "poll_ok held todo p"
  shows "map_option sched_of (poll_callback_device fd r w permanent cb d p) = spec_op env (Op_device fd r w permanent cb d) (sched_of p) \<and>
    (\<forall>p'. poll_callback_device fd r w permanent cb d p = Some p' \<longrightarrow> poll_ok held todo p' \<and> kept held p p')"
proof -
  let ?f = "\<lambda>e. e\<lparr>en_type := POLL_CB_DEVICE, en_callback := cb, en_callbackData := d,
       en_permanent := permanent, en_refCount := 0, en_fd := fd, en_idx := - 1, en_readable := r, en_writeable := w\<rparr>"
  let ?new = "\<lparr>wa_fd = fd, wa_readable = r, wa_writeable = w, wa_permanent = permanent, wa_callback = cb, wa_data = d\<rparr>"
  obtain i p1 p2 e where get: "poll_entry_get p = (i, p1)" and ref: "poll_entry_ref i (upd_entry i ?f p1) = Some p2"
    and ok2: "poll_ok (i # held) todo p2" and i: "i \<notin> set (queued_on p2 @ held)" "en p2 i = (?f e)\<lparr>en_refCount := 1\<rparr>"
    and same: "same ({..<length (pl_heap p)} - {i}) p p2"
    using new_entry [OF ok, of ?f] by auto
  have nt: "i \<notin> todo" 
  proof
    assume "i \<in> todo"
    then have "i \<in> set held" using poll_okD(7) [OF ok, of i] by simp
    then show False using i by simp
  qed
  note old = new_entry_old(1) [OF ok same i(1)]
  have k: "key_of (en p2 i) = le_bytes (wa_key ?new)" by (simp add: key_of_watch watch_of_def i(2))
  have ws: "map (watch_of \<circ> en p2) (pl_device p2) = sc_watches (sched_of p)"
    using old same by (auto simp: sched_of_def same_def)
  have ts: "map (timer_of \<circ> en p2) (pl_time p2) = sc_timers (sched_of p)"
    using old same by (auto simp: sched_of_def same_def)
  have cb: "poll_callback_device fd r w permanent cb d p = poll_insert_device i p2"
    by (simp add: poll_callback_device_def get ref)
  have i2: "i \<notin> set (queued_on p2)" "i \<notin> set held" "en_type (en p2 i) = POLL_CB_DEVICE" using i by simp_all
  note ins = insert_device_ok [OF ok2 i2(1,2) nt i2(3)]
  show ?thesis
  proof (cases "\<exists>v \<in> set (sc_watches (sched_of p)). wa_key v = wa_key ?new")
    case True
    then have "ht_map (pl_hash p2) (key_of (en p2 i)) \<noteq> None" using key_taken [OF ok2, of "wa_key ?new"] unfolding k ws by blast
    then show ?thesis using ins(1) True by (simp add: cb)
  next
    case False
    then have "ht_map (pl_hash p2) (key_of (en p2 i)) = None" using key_taken [OF ok2, of "wa_key ?new"] unfolding k ws by blast
    then obtain p' where p': "poll_insert_device i p2 = Some p'" "poll_ok held todo p'" "pl_time p' = pl_time p2"
        "pl_device p' = pl_device p2 @ [i]" "pl_client p' = pl_client p2" "pl_nclock p' = pl_nclock p2" "pl_exit p' = pl_exit p2"
        "en p' i = (en p2 i)\<lparr>en_queued := True\<rparr>" "\<And>j. j \<noteq> i \<Longrightarrow> en p' j = en p2 j"
      using ins(2) by blast
    have n: "j \<noteq> i" if "j \<in> set (queued_on p2 @ held)" for j using that i by auto
    have "map (watch_of \<circ> en p') (pl_device p') = sc_watches (sched_of p) @ [?new]"
    proof -
      have "map (watch_of \<circ> en p') (pl_device p2) = map (watch_of \<circ> en p2) (pl_device p2)" using p'(9) n by auto
      moreover have "watch_of (en p' i) = ?new" by (simp add: p'(8) i(2) watch_of_def)
      ultimately show ?thesis by (simp add: p'(4) ws)
    qed
    moreover have "map (timer_of \<circ> en p') (pl_time p') = sc_timers (sched_of p)"
      unfolding ts [symmetric] p'(3) using p'(9) n by auto
    ultimately have "sched_of p' = (sched_of p)\<lparr>sc_watches := sc_watches (sched_of p) @ [?new]\<rparr>"
      using p' same by (simp add: sched_of_def same_def)
    moreover have "kept held p p'"
      by (rule fresh_keeps [where i = i]) (use old n p' i2 same in \<open>auto simp: same_def\<close>)
    ultimately show ?thesis using False p'(1,2) by (simp add: cb)
  qed
qed

lemma scan_time_find:
  assumes "\<And>i. i \<in> set is \<Longrightarrow> entry p i = Some (en p i)"
  shows "scan_time p permanent cb d is = Some (find (\<lambda>i. en_callback (en p i) = cb \<and> en_callbackData (en p i) = d \<and> en_permanent (en p i) = permanent) is)"
  using assms by (induction "is") auto

lemma find_in_set: "find P xs = Some x \<Longrightarrow> x \<in> set xs \<and> P x"
  by (auto simp: find_Some_iff)

lemma drop_first_find:
  assumes "distinct is" and "find P is = Some i" and "\<And>j. j \<in> set is \<Longrightarrow> Q (f j) = P j"
  shows "map f (remove1 i is) = drop_first Q (map f is)"
  using assms by (induction "is") (auto split: if_splits dest!: find_in_set)

lemma drop_first_none: "find P is = None \<Longrightarrow> (\<And>j. j \<in> set is \<Longrightarrow> Q (f j) = P j) \<Longrightarrow> drop_first Q (map f is) = map f is"
  by (induction "is") (auto split: if_splits)

lemma op_time_remove_refines:
  assumes ok: "poll_ok held todo p"
  shows "\<exists>b p'. poll_callback_time_remove permanent cb d p = Some (b, p') \<and> poll_ok held todo p' \<and> kept held p p' \<and>
    Some (sched_of p') = spec_op env (Op_time_remove permanent cb d) (sched_of p)"
proof -
  let ?P = "\<lambda>i. en_callback (en p i) = cb \<and> en_callbackData (en p i) = d \<and> en_permanent (en p i) = permanent"
  let ?Q = "\<lambda>t. tm_callback t = cb \<and> tm_data t = d \<and> tm_permanent t = permanent"
  have sc: "scan_time p permanent cb d (pl_time p) = Some (find ?P (pl_time p))"
    by (rule scan_time_find) (rule ok_entry [OF ok], simp)
  have Q: "?Q ((timer_of \<circ> en p) j) = ?P j" for j by (simp add: timer_of_def)
  have ds: "distinct (pl_time p)" using poll_okD(2) [OF ok] by simp
  show ?thesis
  proof (cases "find ?P (pl_time p)")
    case None
    have "drop_first ?Q (sc_timers (sched_of p)) = sc_timers (sched_of p)"
      using drop_first_none [OF None, of ?Q "timer_of \<circ> en p"] Q by (simp add: sched_of_def)
    then have "Some (sched_of p) = spec_op env (Op_time_remove permanent cb d) (sched_of p)" by simp
    moreover have "poll_callback_time_remove permanent cb d p = Some (False, p)" by (simp add: poll_callback_time_remove_def sc None)
    ultimately show ?thesis using ok kept_refl by blast
  next
    case (Some i)
    then have i: "i \<in> set (pl_time p)" using find_in_set by metis
    let ?p1 = "p\<lparr>pl_time := remove1 i (pl_time p)\<rparr>"
    let ?p2 = "upd_entry i (\<lambda>e. e\<lparr>en_queued := False\<rparr>) ?p1"
    note dt = detach_time [OF ok i]
    note u = upd_detached [OF dt(1), of i "\<lambda>e. e\<lparr>en_queued := False\<rparr>"]
    have ok2: "poll_ok (i # held) todo ?p2" and s2: "same (- {i}) ?p1 ?p2" and e2: "en ?p2 i = (en ?p1 i)\<lparr>en_queued := False\<rparr>"
      using u dt(2) by simp_all
    have "refs_ok held p i" by (rule ok_refs [OF ok]) (use i in simp)
    then have nt: "i \<notin> todo" using poll_okD(7) [OF ok, of i] i by (auto simp: refs_ok_def)
    obtain b p' where p': "poll_entry_unref i ?p2 = Some (b, p')" "poll_ok held todo p'" "same (- {i}) ?p2 p'"
      "i \<in> set held \<longrightarrow> static (en p' i) = static (en ?p2 i) \<and> en_queued (en p' i) = en_queued (en ?p2 i)"
      using unref_ok [OF ok2] nt by blast
    have swap: "(upd_entry i (\<lambda>e. e\<lparr>en_queued := False\<rparr>) p)\<lparr>pl_time := remove1 i (pl_time p)\<rparr> = ?p2"
      by (simp add: upd_entry_def)
    have l: "pl_time p' = remove1 i (pl_time p)" "pl_device p' = pl_device p" "pl_client p' = pl_client p" "pl_nclock p' = pl_nclock p"
      "pl_exit p' = pl_exit p" "\<And>j. j \<noteq> i \<Longrightarrow> en p' j = en p j"
      using p'(3) s2 by (auto simp: same_def)
    have ni: "i \<notin> set (pl_device p)" using poll_okD(2) [OF ok] i by auto
    have n: "j \<noteq> i" if "j \<in> set (remove1 i (pl_time p)) \<or> j \<in> set (pl_device p)" for j using that ds ni by auto
    have "map (timer_of \<circ> en p') (pl_time p') = map (timer_of \<circ> en p) (remove1 i (pl_time p))" using l n by auto
    also have "\<dots> = drop_first ?Q (map (timer_of \<circ> en p) (pl_time p))" by (rule drop_first_find [OF ds Some]) (rule Q)
    finally have ts: "map (timer_of \<circ> en p') (pl_time p') = drop_first ?Q (map (timer_of \<circ> en p) (pl_time p))" .
    have "map (watch_of \<circ> en p') (pl_device p') = map (watch_of \<circ> en p) (pl_device p)" using l n by auto
    then have "Some (sched_of p') = spec_op env (Op_time_remove permanent cb d) (sched_of p)" using ts l by (simp add: sched_of_def)
    moreover have "kept held p p'"
      unfolding kept_def
    proof (intro ballI conjI impI)
      fix j
      assume j: "j \<in> set held"
      show "static (en p' j) = static (en p j)" using p'(4) j l(6) e2 by (cases "j = i") (auto simp: static_def)
      assume q: "j \<notin> set (queued_on p)"
      then have "j \<noteq> i" using i by auto
      then show "j \<notin> set (queued_on p')" "en_queued (en p' j) = en_queued (en p j)" using q l ds by auto
    qed
    moreover have "poll_callback_time_remove permanent cb d p = Some (True, p')"
      using p'(1) by (simp add: poll_callback_time_remove_def sc Some swap)
    ultimately show ?thesis using p'(2) by blast
  qed
qed


text \<open>The watch with a key.\<close>

lemma find_unique:
  assumes "i \<in> set xs" and "P i" and u: "\<And>j. j \<in> set xs \<Longrightarrow> P j \<Longrightarrow> j = i"
  shows "find P xs = Some i"
proof (cases "find P xs")
  case None
  then have "\<not> (\<exists>x. x \<in> set xs \<and> P x)" by (simp only: find_None_iff not_False_eq_True)
  then show ?thesis using assms(1,2) by blast
next
  case (Some k)
  then have "k \<in> set xs" "P k" using find_in_set by metis+
  then show ?thesis using Some u by simp
qed

lemma lookup_watch:
  assumes ok: "poll_ok held todo p"
  shows "ht_map (pl_hash p) (le_bytes key) = find (\<lambda>i. wa_key (watch_of (en p i)) = key) (pl_device p)"
proof (cases "ht_map (pl_hash p) (le_bytes key)")
  case None
  then show ?thesis using key_taken [OF ok, of key] by (auto simp: find_None_iff eq_commute [of None])
next
  case (Some i)
  then have i: "i \<in> set (pl_device p)" "wa_key (watch_of (en p i)) = key"
    using poll_okD(8) [OF ok, of "le_bytes key" i] by (simp_all add: key_of_watch le_bytes_inj64)
  have "find (\<lambda>i. wa_key (watch_of (en p i)) = key) (pl_device p) = Some i"
  proof (rule find_unique)
    fix j
    assume "j \<in> set (pl_device p)" "wa_key (watch_of (en p j)) = key"
    then have "ht_map (pl_hash p) (le_bytes key) = Some j" using poll_okD(8) [OF ok] by (simp add: key_of_watch)
    then show "j = i" using Some by simp
  qed (use i in simp_all)
  then show ?thesis using Some by simp
qed

lemma remove_upd:
  assumes "\<And>e. en_type (f e) = en_type e" "\<And>e. key_of (f e) = key_of e" "\<And>e. poll_get_device_key_from_entry (f e) = poll_get_device_key_from_entry e"
  shows "poll_entry_remove_from_hashtable i (upd_entry i f p) = map_option (upd_entry i f) (poll_entry_remove_from_hashtable i p)"
proof -
  have e: "entry (upd_entry i f p) i = map_option f (entry p i)" by (simp add: entry_def upd_entry_def)
  show ?thesis
    unfolding poll_entry_remove_from_hashtable_def e
    by (cases "entry p i") (auto simp: assms(3) upd_entry_def split: Option.bind_splits)
qed

lemma unqueue_device:
  assumes ok: "poll_ok held todo p" and i: "i \<in> set (pl_device p)"
  shows "\<exists>p' b. (do { p \<leftarrow> poll_entry_remove_from_hashtable i (upd_entry i (\<lambda>e. e\<lparr>en_queued := False\<rparr>) p);
      poll_entry_unref i (p\<lparr>pl_device := remove1 i (pl_device p)\<rparr>) }) = Some (b, p') \<and> poll_ok held todo p' \<and>
    pl_time p' = pl_time p \<and> pl_device p' = remove1 i (pl_device p) \<and> pl_client p' = pl_client p \<and> pl_nclock p' = pl_nclock p \<and>
    pl_exit p' = pl_exit p \<and> (\<forall>j. j \<noteq> i \<longrightarrow> en p' j = en p j) \<and> (i \<in> set held \<longrightarrow> static (en p' i) = static (en p i))"
proof -
  let ?f = "\<lambda>e. e\<lparr>en_queued := False\<rparr>"
  obtain p1 where p1: "poll_entry_remove_from_hashtable i p = Some p1"
    and ok1: "poll_ok (i # held) (todo - {i}) (p1\<lparr>pl_device := remove1 i (pl_device p1)\<rparr>)"
    and s1: "pl_device p1 = pl_device p" "pl_time p1 = pl_time p" "en p1 = en p" "pl_client p1 = pl_client p" "pl_nclock p1 = pl_nclock p"
      "pl_exit p1 = pl_exit p" "i \<notin> set (remove1 i (pl_device p))" "i \<notin> set (pl_time p)"
    using detach_device [OF poll_ok_todo(1) [OF ok, of i] i] by blast
  let ?p2 = "p1\<lparr>pl_device := remove1 i (pl_device p1)\<rparr>"
  have rm: "poll_entry_remove_from_hashtable i (upd_entry i ?f p) = Some (upd_entry i ?f p1)"
    using p1 by (subst remove_upd) (simp_all add: key_of_def poll_get_device_key_from_entry_def)
  have swap: "(upd_entry i ?f p1)\<lparr>pl_device := remove1 i (pl_device (upd_entry i ?f p1))\<rparr> = upd_entry i ?f ?p2"
    by (simp add: upd_entry_def)
  have nq: "i \<notin> set (queued_on ?p2)" using s1 by simp
  note u = upd_detached [OF ok1 _ nq, of ?f]
  have ok2: "poll_ok (i # held) (todo - {i}) (upd_entry i ?f ?p2)" and s2: "same (- {i}) ?p2 (upd_entry i ?f ?p2)"
    and e2: "en (upd_entry i ?f ?p2) i = ?f (en p i)" using u s1 by simp_all
  obtain b p' where p': "poll_entry_unref i (upd_entry i ?f ?p2) = Some (b, p')" "poll_ok held (todo - {i}) p'" "same (- {i}) (upd_entry i ?f ?p2) p'"
    "i \<in> set held \<Longrightarrow> static (en p' i) = static (en (upd_entry i ?f ?p2) i) \<and> en_queued (en p' i) = en_queued (en (upd_entry i ?f ?p2) i)"
    using unref_ok [OF ok2] by blast
  have st: "static (en p' i) = static (en p i) \<and> \<not> en_queued (en p' i)" if "i \<in> set held"
    using p'(4) [OF that] e2 by (simp add: static_def)
  have "poll_ok held todo p'"
    by (rule poll_ok_todo(2) [OF p'(2)]) (use poll_okD(7) [OF ok, of i] st in \<open>auto simp: static_def\<close>)
  moreover have "do { p \<leftarrow> poll_entry_remove_from_hashtable i (upd_entry i ?f p);
      poll_entry_unref i (p\<lparr>pl_device := remove1 i (pl_device p)\<rparr>) } = Some (b, p')"
    using p'(1) by (simp only: rm swap bind.bind_lunit)
  ultimately show ?thesis
    using p'(3) s2 s1 st by (auto simp: same_def)
qed


lemma find_map_eq: "find Q (map f xs) = map_option f (find (\<lambda>x. Q (f x)) xs)"
  by (induction xs) simp_all

lemma remove1_map:
  assumes "i \<in> set xs" and "\<And>j. j \<in> set xs \<Longrightarrow> f j = f i \<Longrightarrow> j = i"
  shows "map f (remove1 i xs) = remove1 (f i) (map f xs)"
  using assms by (induction xs) (auto, metis)

lemma op_device_remove_refines:
  assumes ok: "poll_ok held todo p"
  shows "map_option (\<lambda>(_, p). sched_of p) (poll_callback_device_remove fd r w permanent cb d p) = spec_op env (Op_device_remove fd r w permanent cb d) (sched_of p) \<and>
    (\<forall>b p'. poll_callback_device_remove fd r w permanent cb d p = Some (b, p') \<longrightarrow> poll_ok held todo p' \<and> kept held p p')"
proof -
  let ?old = "\<lparr>wa_fd = fd, wa_readable = r, wa_writeable = w, wa_permanent = permanent, wa_callback = cb, wa_data = d\<rparr>"
  have k: "poll_get_device_key fd r w permanent = wa_key ?old" by (simp add: wa_key_def)
  have lu: "hashtable_lookup (pl_hash p) (le_bytes (wa_key ?old)) = Some (find (\<lambda>i. wa_key (watch_of (en p i)) = wa_key ?old) (pl_device p))"
    using hts.lookup_law [OF poll_okD(6) [OF ok]] lookup_watch [OF ok, of "wa_key ?old"] by simp
  have sw: "find (\<lambda>v. wa_key v = wa_key ?old) (sc_watches (sched_of p)) =
      map_option (watch_of \<circ> en p) (find (\<lambda>i. wa_key (watch_of (en p i)) = wa_key ?old) (pl_device p))"
    by (simp add: sched_of_def find_map_eq)
  show ?thesis
  proof (cases "find (\<lambda>i. wa_key (watch_of (en p i)) = wa_key ?old) (pl_device p)")
    case None
    then have "poll_callback_device_remove fd r w permanent cb d p = Some (False, p)"
      by (simp only: poll_callback_device_remove_def k lu bind.bind_lunit option.case)
    moreover have "spec_op env (Op_device_remove fd r w permanent cb d) (sched_of p) = Some (sched_of p)"
      using None sw by simp
    ultimately show ?thesis using ok by simp
  next
    case (Some i)
    have i: "i \<in> set (pl_device p)" using find_in_set [OF Some] by blast
    have en: "entry p i = Some (en p i)" by (rule ok_entry [OF ok]) (use i in auto)
    have "refs_ok held p i" by (rule ok_refs [OF ok]) (use i in auto)
    then have ty: "en_type (en p i) = POLL_CB_DEVICE" "en_queued (en p i)" using i by (simp_all add: refs_ok_def)
    let ?body = "do { p \<leftarrow> poll_entry_remove_from_hashtable i (upd_entry i (\<lambda>e. e\<lparr>en_queued := False\<rparr>) p);
      poll_entry_unref i (p\<lparr>pl_device := remove1 i (pl_device p)\<rparr>) }"
    obtain b p' where p': "?body = Some (b, p')" "poll_ok held todo p'"
      "pl_time p' = pl_time p" "pl_device p' = remove1 i (pl_device p)" "pl_client p' = pl_client p" "pl_nclock p' = pl_nclock p"
      "pl_exit p' = pl_exit p" "\<And>j. j \<noteq> i \<Longrightarrow> en p' j = en p j" "i \<in> set held \<Longrightarrow> static (en p' i) = static (en p i)"
      using unqueue_device [OF ok i] by blast
    have code: "poll_callback_device_remove fd r w permanent cb d p = (if watch_of (en p i) = ?old then Some (True, p') else None)"
      using p'(1) ty unfolding poll_callback_device_remove_def k lu Some
      by (auto simp: en watch_of_def split: Option.bind_splits)
    have spec: "spec_op env (Op_device_remove fd r w permanent cb d) (sched_of p) =
        (if watch_of (en p i) = ?old then Some ((sched_of p)\<lparr>sc_watches := remove1 (watch_of (en p i)) (sc_watches (sched_of p))\<rparr>) else None)"
      using Some sw by simp
    have ds: "distinct (pl_device p)" "i \<notin> set (pl_time p)" using poll_okD(2) [OF ok] i by auto
    have same: "j = i" if "j \<in> set (pl_device p)" "(watch_of \<circ> en p) j = (watch_of \<circ> en p) i" for j
      using that i poll_okD(8) [OF ok, of "key_of (en p i)"] by (simp add: key_of_watch) (metis option.inject)
    have "map (watch_of \<circ> en p') (remove1 i (pl_device p)) = map (watch_of \<circ> en p) (remove1 i (pl_device p))"
      using p'(8) ds by auto
    also have "\<dots> = remove1 ((watch_of \<circ> en p) i) (map (watch_of \<circ> en p) (pl_device p))"
      by (rule remove1_map [OF i]) (rule same)
    finally have "map (watch_of \<circ> en p') (pl_device p') = remove1 (watch_of (en p i)) (sc_watches (sched_of p))"
      by (simp add: p'(4) sched_of_def)
    moreover have "en p' j = en p j" if "j \<in> set (pl_time p)" for j using p'(8) [of j] ds(2) that by metis
    then have "map (timer_of \<circ> en p') (pl_time p') = sc_timers (sched_of p)" by (simp add: sched_of_def p'(3))
    ultimately have "sched_of p' = (sched_of p)\<lparr>sc_watches := remove1 (watch_of (en p i)) (sc_watches (sched_of p))\<rparr>"
      using p' by (simp add: sched_of_def)
    moreover have "kept held p p'"
      unfolding kept_def
    proof (intro ballI conjI impI)
      fix j
      assume j: "j \<in> set held"
      show "static (en p' j) = static (en p j)" using p'(8,9) j by (cases "j = i") simp_all
      assume q: "j \<notin> set (queued_on p)"
      then have "j \<noteq> i" using i by auto
      then show "j \<notin> set (queued_on p')" "en_queued (en p' j) = en_queued (en p j)" using q p' ds by auto
    qed
    ultimately show ?thesis using p'(2) code spec by auto
  qed
qed

section \<open>Refinement\<close>

lemma run_op_refines:
  assumes ok: "poll_ok held todo p"
  shows "map_option sched_of (run_op env op p) = spec_op env op (sched_of p) \<and>
    (\<forall>p'. run_op env op p = Some p' \<longrightarrow> poll_ok held todo p' \<and> kept held p p')"
proof (cases op)
  case (Op_time delay permanent cb d)
  then show ?thesis using op_time_refines [OF ok, of env delay permanent cb d] by auto
next
  case (Op_device fd r w permanent cb d)
  then show ?thesis using op_device_refines [OF ok, of fd r w permanent cb d env] by simp
next
  case (Op_time_remove permanent cb d)
  then show ?thesis using op_time_remove_refines [OF ok, of permanent cb d env] by auto
next
  case (Op_device_remove fd r w permanent cb d)
  then show ?thesis using op_device_remove_refines [OF ok, of fd r w permanent cb d env]
    by (auto simp: option.map_comp comp_def case_prod_unfold)
next
  case Op_exit
  then show ?thesis using ok by (simp add: sched_of_def kept_def)
qed

interpretation loop_ops: refinement "poll_ok held todo" "kept held" "run_op env" sched_of "spec_op env"
  by unfold_locales (auto simp: run_op_refines intro: kept_trans dest: run_op_refines [of held todo _ env])

definition spec_fire :: "'s poll_env \<Rightarrow> nat \<Rightarrow> nat \<Rightarrow> 's sched \<Rightarrow> 's sched option" where
  "spec_fire env cb d s = (let (client, ops) = pv_callback env cb d (sc_client s) in run_steps (spec_op env) ops (s\<lparr>sc_client := client\<rparr>))"

lemma fire_refines:
  assumes ok: "poll_ok held todo p" and i: "i \<in> set held" "en_queued (en p i)"
  shows "map_option sched_of (poll_entry_fire env i p) = spec_fire env (en_callback (en p i)) (en_callbackData (en p i)) (sched_of p) \<and>
    (\<forall>p'. poll_entry_fire env i p = Some p' \<longrightarrow> poll_ok held todo p' \<and> kept held p p')"
proof -
  have en: "entry p i = Some (en p i)" by (rule ok_entry [OF ok]) (use i in auto)
  have "refs_ok held p i" by (rule ok_refs [OF ok]) (use i in auto)
  then have rc: "0 < en_refCount (en p i)" using i(1) count_list_0_iff [of held i] by (auto simp: refs_ok_def split: if_splits)
  obtain c ops where c: "pv_callback env (en_callback (en p i)) (en_callbackData (en p i)) (pl_client p) = (c, ops)" by fastforce
  have ok': "poll_ok held todo (p\<lparr>pl_client := c\<rparr>)" using ok by simp
  have "sched_of (p\<lparr>pl_client := c\<rparr>) = (sched_of p)\<lparr>sc_client := c\<rparr>" by (simp add: sched_of_def)
  moreover have "kept held (p\<lparr>pl_client := c\<rparr>) p' = kept held p p'" for p' by (simp add: kept_def)
  ultimately show ?thesis
    using loop_ops.run_refines [OF ok', of env ops] loop_ops.run_law [OF ok', of env ops] rc i(2) c
    by (simp add: poll_entry_fire_def en spec_fire_def) (simp add: sched_of_def)
qed


section \<open>The time queue\<close>

definition spec_timer :: "'s poll_env \<Rightarrow> timer \<Rightarrow> 's sched \<Rightarrow> 's sched option" where
  "spec_timer env t s = do {
     s \<leftarrow> spec_fire env (tm_callback t) (tm_data t) s;
     Some (if tm_permanent t then s\<lparr>sc_nclock := sc_nclock s + 1,
         sc_timers := add_timer (t\<lparr>tm_expiry := pv_clock env (sc_nclock s) + tm_delay t\<rparr>) (sc_timers s)\<rparr>
       else s)
   }"

lemma run_timer_refines:
  assumes ok: "poll_ok [] {} p" and t: "pl_time p = i # is"
  shows "map_option sched_of (run_timer env i p) = spec_timer env (timer_of (en p i)) ((sched_of p)\<lparr>sc_timers := map (timer_of \<circ> en p) is\<rparr>) \<and>
    (\<forall>p'. run_timer env i p = Some p' \<longrightarrow> poll_ok [] {} p')"
proof -
  have iq: "i \<in> set (queued_on p)" using t by simp
  obtain p1 where p1: "poll_entry_ref i p = Some p1" "poll_ok [i] {} p1" "same (- {i}) p p1" "en p1 i = (en p i)\<lparr>en_refCount := en_refCount (en p i) + 1\<rparr>"
    using ref_ok [OF ok iq] by blast
  have t1: "pl_time p1 = i # is" using p1(3) t by (simp add: same_def)
  define p2 where "p2 = p1\<lparr>pl_time := remove1 i (pl_time p1)\<rparr>"
  have ok2: "poll_ok [i, i] {} p2" and q2: "i \<notin> set (queued_on p2)" and e2: "en p2 i = en p1 i" using detach_time [OF p1(2), of i] t1 by (simp_all add: p2_def)
  have "refs_ok [] p i" by (rule ok_refs [OF ok]) (use t in simp)
  then have ty: "en_type (en p i) = POLL_CB_TIME" "en_queued (en p i)" using t by (simp_all add: refs_ok_def)
  have s2: "sched_of p2 = (sched_of p)\<lparr>sc_timers := map (timer_of \<circ> en p) is\<rparr>"
  proof -
    have "j \<noteq> i" if "j \<in> set is \<or> j \<in> set (pl_device p)" for j using that poll_okD(2) [OF ok] t by auto
    then show ?thesis using p1(3) t t1 by (auto simp: sched_of_def p2_def same_def)
  qed
  have fire: "map_option sched_of (poll_entry_fire env i p2) = spec_fire env (en_callback (en p i)) (en_callbackData (en p i)) (sched_of p2) \<and>
    (\<forall>p3. poll_entry_fire env i p2 = Some p3 \<longrightarrow> poll_ok [i, i] {} p3 \<and> kept [i, i] p2 p3)"
    using fire_refines [OF ok2, of i env] ty by (simp add: e2 p1(4))
  show ?thesis
  proof (cases "poll_entry_fire env i p2")
    case None
    then show ?thesis using fire p1(1) by (simp add: run_timer_def p2_def [symmetric] spec_timer_def s2 timer_of_def)
  next
    case (Some p3)
    then have ok3: "poll_ok [i, i] {} p3" and k3: "kept [i, i] p2 p3" and f3: "spec_fire env (en_callback (en p i)) (en_callbackData (en p i)) (sched_of p2) = Some (sched_of p3)"
      using fire by auto
    have q3: "i \<notin> set (queued_on p3)" and st3: "static (en p3 i) = static (en p i)"
      using k3 q2 e2 p1(4) by (auto simp: kept_def static_def)
    obtain p4 where p4: "poll_entry_unref i p3 = Some (False, p4)" "poll_ok [i] {} p4" "same (- {i}) p3 p4" "static (en p4 i) = static (en p3 i)"
      using unref_ok [OF ok3] by auto
    have q4: "i \<notin> set (queued_on p4)" and s4: "sched_of p4 = sched_of p3" using p4(3) q3 by (auto simp: same_def intro!: sched_same)
    have en4: "entry p4 i = Some (en p4 i)" by (rule ok_entry [OF p4(2)]) simp
    have "refs_ok [i] p4 i" by (rule ok_refs [OF p4(2)]) simp
    then have rc: "0 < en_refCount (en p4 i)" by (auto simp: refs_ok_def split: if_splits)
    have st: "en_permanent (en p4 i) = en_permanent (en p i)" "en_type (en p4 i) = POLL_CB_TIME" "en_delay (en p4 i) = en_delay (en p i)"
      "(timer_of (en p4 i))\<lparr>tm_expiry := x\<rparr> = (timer_of (en p i))\<lparr>tm_expiry := x\<rparr>" for x
      using p4(4) st3 ty by (simp_all add: static_def timer_of_def)
    have code: "run_timer env i p = (if \<not> en_permanent (en p i) then do { (null, p) \<leftarrow> poll_entry_unref i p4; ASSERT null; Some p }
        else poll_insert_time i (poll_recalc_expiry env i p4))"
      using p1(1) Some p4(1) rc by (simp add: run_timer_def p2_def [symmetric] en4 st)
    show ?thesis
    proof (cases "en_permanent (en p i)")
      case True
      obtain p' where "poll_insert_time i (poll_recalc_expiry env i p4) = Some p'" "poll_ok [] {} p'"
        "sched_of p' = (sched_of p4)\<lparr>sc_nclock := pl_nclock p4 + 1, sc_timers := add_timer ((timer_of (en p4 i))\<lparr>tm_expiry := pv_clock env (pl_nclock p4) + en_delay (en p4 i)\<rparr>) (sc_timers (sched_of p4))\<rparr>"
        using requeue [OF p4(2) q4 _ st(2), of env] by (auto simp del: poll_recalc_expiry_def)
      moreover have "pl_nclock p4 = sc_nclock (sched_of p3)" using p4(3) by (simp add: same_def sched_of_def)
      ultimately show ?thesis using True f3 by (simp add: code spec_timer_def s2 [symmetric] s4 st) (simp add: timer_of_def)
    next
      case False
      obtain p' where "poll_entry_unref i p4 = Some (True, p')" "poll_ok [] {} p'" "same (- {i}) p4 p'"
        using unref_ok [OF p4(2)] q4 by auto
      moreover from this have "sched_of p' = sched_of p4" using q4 by (intro sched_same) auto
      ultimately show ?thesis using False f3 by (simp add: code spec_timer_def s2 [symmetric] s4) (simp add: timer_of_def)
    qed
  qed
qed

partial_function (option) spec_timers :: "'s poll_env \<Rightarrow> u64 \<Rightarrow> 's sched \<Rightarrow> 's sched option" where
  [code]: "spec_timers env now s = (case sc_timers s of [] \<Rightarrow> Some s
     | t # ts \<Rightarrow> if tm_expiry t \<le> now then do { s \<leftarrow> spec_timer env t (s\<lparr>sc_timers := ts\<rparr>); spec_timers env now s } else Some s)"

text \<open>A step of the loop, in both: nothing is due, or the first timer is.\<close>

lemma next_expired:
  assumes ok: "poll_ok [] {} p"
  shows "poll_get_next_expired p now = Some (case pl_time p of [] \<Rightarrow> None | i # _ \<Rightarrow> if en_expiry (en p i) \<le> now then Some i else None)"
proof (cases "pl_time p")
  case (Cons i js)
  have "entry p i = Some (en p i)" by (rule ok_entry [OF ok]) (simp add: Cons)
  then show ?thesis by (simp add: poll_get_next_expired_def Cons)
qed (simp add: poll_get_next_expired_def)

lemma run_timers_sound:
  "run_timers env now p = Some p' \<Longrightarrow> poll_ok [] {} p \<Longrightarrow> spec_timers env now (sched_of p) = Some (sched_of p') \<and> poll_ok [] {} p'"
proof (induction env now p p' rule: run_timers.raw_induct [rotated, consumes 1])
  case (1 rec env now p p')
  show ?case
  proof (cases "\<exists>i js. pl_time p = i # js \<and> en_expiry (en p i) \<le> now")
    case True
    then obtain i js where t: "pl_time p = i # js" "en_expiry (en p i) \<le> now" by auto
    from 1(2) obtain p1 where p1: "run_timer env i p = Some p1" "rec env now p1 = Some p'"
      by (auto simp: next_expired [OF 1(3)] t split: Option.bind_splits)
    have r: "spec_timer env (timer_of (en p i)) ((sched_of p)\<lparr>sc_timers := map (timer_of \<circ> en p) js\<rparr>) = Some (sched_of p1)" "poll_ok [] {} p1"
      using run_timer_refines [OF 1(3) t(1), of env] p1(1) by auto
    have "spec_timers env now (sched_of p1) = Some (sched_of p')" "poll_ok [] {} p'" using 1(1) [OF p1(2) r(2)] by auto
    moreover have "sc_timers (sched_of p) = timer_of (en p i) # map (timer_of \<circ> en p) js" "tm_expiry (timer_of (en p i)) \<le> now"
      using t by (simp_all add: sched_of_def timer_of_def)
    ultimately show ?thesis using r(1) by (subst spec_timers.simps) simp
  next
    case False
    then have "p' = p" using 1(2) by (auto simp: next_expired [OF 1(3)] split: list.splits)
    moreover have "spec_timers env now (sched_of p) = Some (sched_of p)"
      using False by (subst spec_timers.simps) (auto simp: sched_of_def timer_of_def split: list.splits)
    ultimately show ?thesis using 1(3) by simp
  qed
qed

lemma run_timers_complete:
  "spec_timers env now s = Some s' \<Longrightarrow> (\<And>p. poll_ok [] {} p \<Longrightarrow> sched_of p = s \<Longrightarrow> \<exists>p'. run_timers env now p = Some p')"
proof (induction env now s s' rule: spec_timers.raw_induct [rotated, consumes 1])
  case (1 rec env now s s' p)
  note ok = 1(3) and s = 1(4) [symmetric]
  show ?case
  proof (cases "\<exists>i js. pl_time p = i # js \<and> en_expiry (en p i) \<le> now")
    case True
    then obtain i js where t: "pl_time p = i # js" "en_expiry (en p i) \<le> now" by auto
    have q: "sc_timers (sched_of p) = timer_of (en p i) # map (timer_of \<circ> en p) js" "tm_expiry (timer_of (en p i)) \<le> now"
      using t by (simp_all add: sched_of_def timer_of_def)
    obtain s1 where s1: "spec_timer env (timer_of (en p i)) ((sched_of p)\<lparr>sc_timers := map (timer_of \<circ> en p) js\<rparr>) = Some s1" "rec env now s1 = Some s'"
      using 1(2) q by (auto simp: s split: Option.bind_splits)
    obtain p1 where p1: "run_timer env i p = Some p1" "sched_of p1 = s1" "poll_ok [] {} p1"
      using run_timer_refines [OF ok t(1), of env] s1(1) by auto
    obtain p' where "run_timers env now p1 = Some p'" using 1(1) [OF s1(2) p1(3,2)] by auto
    then show ?thesis by (subst run_timers.simps) (simp add: next_expired [OF ok] t p1(1))
  next
    case False
    then show ?thesis by (subst run_timers.simps) (auto simp: next_expired [OF ok] split: list.splits)
  qed
qed

lemma run_timers_refines:
  assumes "poll_ok [] {} p"
  shows "map_option sched_of (run_timers env now p) = spec_timers env now (sched_of p)"
  using run_timers_sound [OF _ assms, of env now] run_timers_complete [OF _ assms refl, of env now]
  by (cases "run_timers env now p"; cases "spec_timers env now (sched_of p)") auto

end
