(* ===== verification/EventQueues.thy ===== *)
theory EventQueues
  imports EventLoop
begin

text \<open>
  The device queue and the loop of \<open>Poll\<close> keep the invariant of \<open>EventLoop\<close>, and what the loop promises: the time queue
  runs the schedule, leaves nothing that is due, and ends when the timers of its callbacks are due later.
\<close>

section \<open>The device queue\<close>

lemma poll_ok_cong:
  assumes "pl_heap p' = pl_heap p" "pl_time p' = pl_time p" "pl_device p' = pl_device p" "pl_free p' = pl_free p" "pl_hash p' = pl_hash p"
  shows "poll_ok held todo p' = poll_ok held todo p"
proof -
  have "en p' = en p" using assms(1) by (simp add: en_def fun_eq_iff)
  then show ?thesis using assms by (simp add: poll_ok_def refs_ok_def)
qed

lemma poll_ok_fields [simp]:
  "poll_ok held todo (p\<lparr>pl_fds := l\<rparr>) = poll_ok held todo p" "poll_ok held todo (p\<lparr>pl_nwait := n\<rparr>) = poll_ok held todo p"
  "poll_ok held todo (p\<lparr>pl_fds_rd := s\<rparr>) = poll_ok held todo p" "poll_ok held todo (p\<lparr>pl_fds_wr := s\<rparr>) = poll_ok held todo p"
  by (rule poll_ok_cong; simp)+

lemma poll_ok_held:
  assumes "poll_ok held todo p" and "\<And>i. count_list held' i = count_list held i"
  shows "poll_ok held' todo p"
proof -
  have "i \<in> set held' \<longleftrightarrow> i \<in> set held" for i using assms(2) [of i] by (metis count_list_0_iff)
  then have h: "set held' = set held" by blast
  then have r: "refs_ok held' p = refs_ok held p" by (simp add: refs_ok_def fun_eq_iff assms(2))
  show ?thesis using assms(1) unfolding poll_ok_def set_append h r .
qed

lemma poll_ok_add_todo:
  "poll_ok held todo p \<Longrightarrow> i \<in> set held \<Longrightarrow> en_type (en p i) = POLL_CB_DEVICE \<Longrightarrow> i \<in> set (pl_device p) \<Longrightarrow> poll_ok held (insert i todo) p"
  unfolding poll_ok_def by blast

lemma count_list_app: "count_list (xs @ ys) x = count_list xs x + count_list ys x"
  by (induction xs) simp_all

lemma collect_active_ok:
  assumes "poll_ok held todo p" and "distinct is" and "set is \<subseteq> set (pl_device p)" and "set is \<inter> todo = {}" and "collect_active is p = Some (q, p')"
  shows "poll_ok (q @ held) (set q \<union> todo) p' \<and> distinct q \<and> set q \<subseteq> set is \<and> sched_of p' = sched_of p"
  using assms
proof (induction "is" arbitrary: p held todo q)
  case (Cons i js)
  note ok = Cons.prems(1)
  have i: "i \<in> set (pl_device p)" "i \<notin> todo" "i \<in> set (queued_on p)" using Cons.prems(3,4) by auto
  have e: "entry p i = Some (en p i)" by (rule ok_entry [OF ok]) (use i in auto)
  have "refs_ok held p i" by (rule ok_refs [OF ok]) (use i in auto)
  then have ty: "en_type (en p i) = POLL_CB_DEVICE" "en_queued (en p i)" using i by (auto simp: refs_ok_def)
  have t: "i \<notin> set (pl_time p)" using poll_okD(2) [OF ok] i by auto
  obtain act where act: "poll_entry_active p (en p i) = Some act"
    using Cons.prems(5) e by (auto split: Option.bind_splits)
  show ?case
  proof (cases act)
    case False
    then have "collect_active js p = Some (q, p')" using Cons.prems(5) e act ty by (auto split: Option.bind_splits)
    then show ?thesis using Cons.IH [OF ok, of q] Cons.prems(2-4) by auto
  next
    case True
    obtain p1 where p1: "poll_entry_ref i p = Some p1" "poll_ok (i # held) todo p1" "same (- {i}) p p1"
      "en p1 i = (en p i)\<lparr>en_refCount := en_refCount (en p i) + 1\<rparr>"
      using ref_ok [OF ok i(3)] by blast
    have d1: "pl_device p1 = pl_device p" "pl_time p1 = pl_time p" using p1(3) by (simp_all add: same_def)
    have s: "sched_of p1 = sched_of p"
    proof -
      have "timer_of (en p1 j) = timer_of (en p j)" "watch_of (en p1 j) = watch_of (en p j)" for j
        using p1(3,4) by (cases "j = i"; simp add: same_def timer_of_def watch_of_def)+
      then show ?thesis using p1(3) by (simp add: sched_of_def same_def comp_def)
    qed
    have ok1: "poll_ok (i # held) (insert i todo) p1"
      by (rule poll_ok_add_todo [OF p1(2)]) (use p1(4) i ty d1 in simp_all)
    obtain q' where q': "collect_active js p1 = Some (q', p')" "q = i # q'"
      using Cons.prems(5) e act True ty p1(1) by (auto split: Option.bind_splits)
    have "poll_ok (q' @ i # held) (set q' \<union> insert i todo) p' \<and> distinct q' \<and> set q' \<subseteq> set js \<and> sched_of p' = sched_of p1"
      by (rule Cons.IH [OF ok1 _ _ _ q'(1)]) (use Cons.prems(2-4) d1 in auto)
    moreover from this have "poll_ok (q @ held) (set q \<union> todo) p'" 
      unfolding q'(2) by (auto intro: poll_ok_held simp: count_list_app)
    ultimately show ?thesis using q'(2) Cons.prems(2) s by auto
  qed
qed simp

text \<open>An entry of the queue whose callback was removed by an earlier one is skipped.\<close>

lemma run_device_skips:
  assumes ok: "poll_ok (i # held) (insert i todo) p" and i: "i \<notin> todo" "\<not> en_queued (en p i)"
  shows "\<exists>p'. run_device env i p = Some p' \<and> sched_of p' = sched_of p"
proof -
  have e: "entry p i = Some (en p i)" by (rule ok_entry [OF ok]) simp
  have "refs_ok (i # held) p i" by (rule ok_refs [OF ok]) simp
  then have q: "i \<notin> set (queued_on p)" using i(2) by (auto simp: refs_ok_def)
  have ok': "poll_ok (i # held) todo p" using poll_ok_todo(1) [OF ok, of i] i(1) by simp
  obtain b p' where "poll_entry_unref i p = Some (b, p')" "same (- {i}) p p'" using unref_ok [OF ok'] i(1) by blast
  then show ?thesis using e i(2) q by (auto simp: run_device_def intro!: sched_same)
qed

lemma run_device_ok:
  assumes ok: "poll_ok (i # held) (insert i todo) p" and i: "i \<notin> todo" and r: "run_device env i p = Some p'"
  shows "poll_ok held todo p'"
proof -
  have e: "entry p i = Some (en p i)" by (rule ok_entry [OF ok]) simp
  have ok': "poll_ok (i # held) todo p" using poll_ok_todo(1) [OF ok, of i] i(1) by simp
  have unref: "poll_ok held todo p''" if "poll_ok (i # held) todo p1" "poll_entry_unref i p1 = Some (b, p'')" for p1 b p''
    using unref_ok [OF that(1)] i(1) that(2) by auto
  show ?thesis
  proof (cases "en_queued (en p i)")
    case False
    then show ?thesis using r e unref [OF ok'] by (auto simp: run_device_def split: Option.bind_splits)
  next
    case True
    then have d: "i \<in> set (pl_device p)" using poll_okD(7) [OF ok, of i] by simp
    show ?thesis
    proof (cases "en_permanent (en p i)")
      case True2: True
      obtain p1 b where p1: "poll_entry_fire env i p = Some p1" "poll_entry_unref i p1 = Some (b, p')"
        using r e True True2 by (auto simp: run_device_def split: Option.bind_splits)
      have "poll_ok (i # held) todo p1" using fire_refines [OF ok', of i env] True p1(1) by auto
      then show ?thesis by (rule unref) (rule p1(2))
    next
      case False
      obtain p1 where p1: "poll_entry_remove_from_hashtable i p = Some p1" "poll_ok (i # i # held) todo (p1\<lparr>pl_device := remove1 i (pl_device p1)\<rparr>)"
        "en p1 = en p"
        using detach_device [OF ok' d i] by auto
      obtain p2 where p2: "poll_entry_unref i (p1\<lparr>pl_device := remove1 i (pl_device p1)\<rparr>) = Some (False, p2)" "poll_ok (i # held) todo p2" "en_queued (en p2 i)"
        using unref_ok [OF p1(2)] i True p1(3) by auto
      obtain p3 b' where p3: "poll_entry_fire env i p2 = Some p3" "poll_entry_unref i p3 = Some (b', p')"
        using r e True False p1(1) p2(1) by (auto simp: run_device_def split: Option.bind_splits)
      have "poll_ok (i # held) todo p3" using fire_refines [OF p2(2), of i env] p2(3) p3(1) by auto
      then show ?thesis by (rule unref) (rule p3(2))
    qed
  qed
qed

lemma run_devices_ok:
  "poll_ok (is @ held) (set is \<union> todo) p \<Longrightarrow> distinct is \<Longrightarrow> set is \<inter> todo = {} \<Longrightarrow> run_devices env is p = Some p' \<Longrightarrow> poll_ok held todo p'"
proof (induction "is" arbitrary: p)
  case (Cons i js)
  obtain p1 where p1: "run_device env i p = Some p1" "run_devices env js p1 = Some p'"
    using Cons.prems(4) by (auto split: Option.bind_splits)
  have "poll_ok (js @ held) (set js \<union> todo) p1"
    by (rule run_device_ok [OF _ _ p1(1)]) (use Cons.prems(1-3) in auto)
  then show ?case using Cons.IH [of p1] Cons.prems p1(2) by auto
qed simp

lemma run_device_queue_ok:
  assumes ok: "poll_ok [] {} p" and r: "poll_run_device_queue env p = Some p'"
  shows "poll_ok [] {} p'"
proof -
  obtain q p1 where p1: "collect_active (pl_device p) p = Some (q, p1)" "run_devices env q p1 = Some p'"
    using r by (auto simp: poll_run_device_queue_def split: Option.bind_splits)
  have "distinct (pl_device p)" using poll_okD(2) [OF ok] by simp
  then show ?thesis using collect_active_ok [OF ok _ _ _ p1(1)] run_devices_ok [of q "[]" "{}" p1, OF _ _ _ p1(2)] by simp
qed

section \<open>The loop\<close>

lemma loop_ok_upd:
  assumes ok: "poll_ok [] {} p" and i: "i \<in> set (pl_device p)"
  shows "poll_ok [] {} (upd_entry i (\<lambda>e. e\<lparr>en_idx := n\<rparr>) p)"
proof -
  let ?p = "upd_entry i (\<lambda>e. e\<lparr>en_idx := n\<rparr>) p"
  have il: "i < length (pl_heap p)" by (rule poll_okD(3) [OF ok]) (use i in auto)
  note u = upd_en [OF poll_okD(1) [OF ok] il, of "\<lambda>e. e\<lparr>en_idx := n\<rparr>"]
  have f: "en_type (en ?p j) = en_type (en p j)" "en_queued (en ?p j) = en_queued (en p j)" "en_refCount (en ?p j) = en_refCount (en p j)"
    "en_expiry (en ?p j) = en_expiry (en p j)" "key_of (en ?p j) = key_of (en p j)" for j
    by (simp_all add: u key_of_def)
  have r: "refs_ok [] ?p j = refs_ok [] p j" for j by (simp add: refs_ok_def f)
  have s: "en_expiry \<circ> en ?p = en_expiry \<circ> en p" by (simp add: fun_eq_iff f)
  show ?thesis using ok unfolding poll_ok_def upd_sel r s f using upd_heap [OF poll_okD(1) [OF ok] il] by blast
qed

lemma fill_fds_ok:
  "poll_ok [] {} p \<Longrightarrow> set is \<subseteq> set (pl_device p) \<Longrightarrow> fill_fds is p = Some p' \<Longrightarrow> poll_ok [] {} p'"
proof (induction "is" arbitrary: p)
  case (Cons i js)
  let ?l = "pl_fds p @ [\<lparr>pf_fd = en_fd (en p i), pf_events = (en_readable (en p i), en_writeable (en p i)), pf_revents = (False, False)\<rparr>]"
  let ?p = "upd_entry i (\<lambda>e. e\<lparr>en_idx := int (length (pl_fds p))\<rparr>) (p\<lparr>pl_fds := ?l\<rparr>)"
  have e: "entry p i = Some (en p i)" by (rule ok_entry [OF Cons.prems(1)]) (use Cons.prems(2) in auto)
  have "fill_fds js ?p = Some p'" using Cons.prems(3) e by (simp add: Let_def split: if_splits)
  moreover have "poll_ok [] {} ?p" by (rule loop_ok_upd) (use Cons.prems(1,2) in simp_all)
  moreover have "set js \<subseteq> set (pl_device ?p)" using Cons.prems(2) by simp
  ultimately show ?case using Cons.IH by blast
qed simp

lemma fill_sets_ok: "poll_ok [] {} p \<Longrightarrow> fill_sets is p = Some p' \<Longrightarrow> poll_ok [] {} p'"
proof (induction "is" arbitrary: p)
  case (Cons i js)
  from Cons.prems obtain q where "fill_sets js q = Some p'" "poll_ok [] {} q"
    by (auto simp: Let_def split: Option.bind_splits if_splits)
  then show ?case using Cons.IH by blast
qed simp

lemma wait_poll_ok: "wait_poll env d p = Some p' \<Longrightarrow> poll_ok [] {} p \<Longrightarrow> poll_ok [] {} p'"
proof (induction env d p p' rule: wait_poll.raw_induct [rotated, consumes 1])
  case (1 rec env d p p')
  let ?p = "p\<lparr>pl_nclock := pl_nclock p + 1, pl_nwait := pl_nwait p + 1\<rparr>"
  have ok: "poll_ok [] {} ?p" using 1(3) by simp
  show ?case
  proof (cases "pv_poll env (pl_nwait p) (pl_fds p) (poll_timeout d (pv_clock env (pl_nclock p)))")
    case Wait_EINTR
    then have "rec env d ?p = Some p'" using 1(2) by (simp add: time_get_def Let_def)
    then show ?thesis using ok by (rule 1(1))
  qed (use 1(2) ok in \<open>auto simp: time_get_def Let_def\<close>)
qed

lemma wait_select_ok: "wait_select env d p = Some p' \<Longrightarrow> poll_ok [] {} p \<Longrightarrow> poll_ok [] {} p'"
proof (induction env d p p' rule: wait_select.raw_induct [rotated, consumes 1])
  case (1 rec env d p p')
  let ?p = "p\<lparr>pl_nclock := pl_nclock p + 1, pl_nwait := pl_nwait p + 1\<rparr>"
  have ok: "poll_ok [] {} ?p" using 1(3) by simp
  show ?case
  proof (cases "pv_select env (pl_nwait p) (pl_fds_rd p) (pl_fds_wr p) (select_timeout d (pv_clock env (pl_nclock p)))")
    case Wait_EINTR
    then have "rec env d ?p = Some p'" using 1(2) by (simp add: time_get_def Let_def)
    then show ?thesis using ok by (rule 1(1))
  qed (use 1(2) ok in \<open>auto simp: time_get_def Let_def\<close>)
qed

lemma dopoll_ok:
  assumes ok: "poll_ok [] {} p" and r: "poll_dopoll_device env d p = Some p'"
  shows "poll_ok [] {} p'"
proof (cases "pl_use_poll p")
  case True
  obtain p1 where p1: "fill_fds (pl_device p) (p\<lparr>pl_fds := []\<rparr>) = Some p1" "wait_poll env d p1 = Some p'"
    using r True by (auto simp: poll_dopoll_device_def poll_device_poll_def split: Option.bind_splits)
  have "poll_ok [] {} p1" by (rule fill_fds_ok [OF _ _ p1(1)]) (use ok in simp_all)
  then show ?thesis by (rule wait_poll_ok [OF p1(2)])
next
  case False
  obtain p1 where p1: "fill_sets (pl_device p) (p\<lparr>pl_fds_rd := {}, pl_fds_wr := {}\<rparr>) = Some p1" "wait_select env d p1 = Some p'"
    using r False by (auto simp: poll_dopoll_device_def poll_device_select_def split: Option.bind_splits)
  have "poll_ok [] {} p1" by (rule fill_sets_ok [OF _ p1(1)]) (use ok in simp)
  then show ?thesis by (rule wait_select_ok [OF p1(2)])
qed

lemma time_queue_ok:
  assumes "poll_ok [] {} p" and "poll_run_time_queue env p = Some p'"
  shows "poll_ok [] {} p'"
proof (rule run_timers_sound [THEN conjunct2])
  show "run_timers env (pv_clock env (pl_nclock p)) (p\<lparr>pl_nclock := pl_nclock p + 1\<rparr>) = Some p'"
    using assms(2) by (simp add: poll_run_time_queue_def time_get_def)
qed (use assms(1) in simp)

lemma runloop_ok: "poll_runloop env p = Some p' \<Longrightarrow> poll_ok [] {} p \<Longrightarrow> poll_ok [] {} p' \<and> pl_exit p'"
proof (induction env p p' rule: poll_runloop.raw_induct [rotated, consumes 1])
  case (1 rec env p p')
  obtain p1 where p1: "poll_run_time_queue env p = Some p1" "poll_ok [] {} p1"
    using 1(2) time_queue_ok [OF 1(3)] by (auto split: Option.bind_splits)
  show ?case
  proof (cases "pl_exit p1")
    case False
    obtain d p2 where p2: "poll_dopoll_device env d p1 = Some p2" "poll_get_next_expiry p1 = Some d" "poll_ok [] {} p2"
      using 1(2) p1 False dopoll_ok [OF p1(2)] by (auto split: Option.bind_splits)
    show ?thesis
    proof (cases "pl_exit p2")
      case ne: False
      obtain p3 where p3: "poll_run_device_queue env p2 = Some p3" "poll_ok [] {} p3"
        using 1(2) p1 False p2 ne run_device_queue_ok [OF p2(3)] by (auto split: Option.bind_splits)
      show ?thesis
      proof (cases "pl_exit p3")
        case True
        then show ?thesis using 1(2) p1 False p2 ne p3 by simp
      next
        case ne3: False
        then have "rec env p3 = Some p'" using 1(2) p1 False p2 ne p3 by simp
        then show ?thesis using 1(1) p3(2) by blast
      qed
    qed (use 1(2) p1 False p2 in simp)
  qed (use 1(2) p1 in simp)
qed

lemma poll_create_ok: "\<exists>p. poll_create lim c = Some p \<and> poll_ok [] {} p \<and> sched_of p = \<lparr>sc_timers = [], sc_watches = [], sc_client = c, sc_nclock = 0, sc_exit = False\<rparr>"
proof -
  obtain ht :: "nat hashtable" where ht: "hashtable_create = Some ht" "ht_wf ht" "ht_map ht = Map.empty" using create_ok by blast
  show ?thesis unfolding poll_create_def ht(1) using ht(2,3) by (simp add: poll_ok_def sched_of_def)
qed

section \<open>What the loop promises\<close>

lemma run_timers_none_due:
  "run_timers env now p = Some p' \<Longrightarrow> poll_ok [] {} p \<Longrightarrow> i \<in> set (pl_time p') \<Longrightarrow> now < en_expiry (en p' i)"
proof (induction env now p p' rule: run_timers.raw_induct [rotated, consumes 1])
  case (1 rec env now p p')
  note ok = 1(3)
  show ?case
  proof (cases "\<exists>j js. pl_time p = j # js \<and> en_expiry (en p j) \<le> now")
    case True
    then obtain j js where t: "pl_time p = j # js" "en_expiry (en p j) \<le> now" by auto
    from 1(2) obtain p1 where p1: "run_timer env j p = Some p1" "rec env now p1 = Some p'"
      by (auto simp: next_expired [OF ok] t split: Option.bind_splits)
    have "poll_ok [] {} p1" using run_timer_refines [OF ok t(1), of env] p1(1) by auto
    then show ?thesis using 1(1) [OF p1(2)] 1(4) by blast
  next
    case False
    then have p: "p' = p" using 1(2) by (auto simp: next_expired [OF ok] split: list.splits)
    then obtain j js where t: "pl_time p = j # js" "now < en_expiry (en p j)" using False 1(4) by (cases "pl_time p") auto
    then have "en_expiry (en p j) \<le> en_expiry (en p i)" using poll_okD(5) [OF ok] 1(4) p by auto
    then show ?thesis using t(2) p by simp
  qed
qed

text \<open>When callbacks only set, drop and have timers that are due later, each step of the queue takes away a timer that is due.\<close>

definition due :: "u64 \<Rightarrow> 's sched \<Rightarrow> nat" where
  "due now s = length (filter (\<lambda>t. tm_expiry t \<le> now) (sc_timers s))"

definition late_timers :: "u64 set \<Rightarrow> timer list \<Rightarrow> bool" where
  "late_timers delays ts \<longleftrightarrow> (\<forall>t \<in> set ts. tm_permanent t \<longrightarrow> tm_delay t \<in> delays)"

fun only_timers :: "u64 set \<Rightarrow> poll_op \<Rightarrow> bool" where
  "only_timers delays (Op_time delay _ _ _) = (delay \<in> delays)"
| "only_timers delays (Op_time_remove _ _ _) = True"
| "only_timers delays Op_exit = True"
| "only_timers delays _ = False"

lemma set_add_timer: "set (add_timer t ts) = insert t (set ts)"
proof -
  have "set (takeWhile P ts) \<union> set (dropWhile P ts) = set ts" for P by (metis set_append takeWhile_dropWhile_id)
  then show ?thesis unfolding add_timer_def by auto
qed

lemma due_add_timer: "length (filter P (add_timer t ts)) = (if P t then 1 else 0) + length (filter P ts)"
proof -
  have "length (filter P (takeWhile Q ts)) + length (filter P (dropWhile Q ts)) = length (filter P ts)" for Q
    by (metis filter_append length_append takeWhile_dropWhile_id)
  then show ?thesis by (simp add: add_timer_def)
qed

lemma drop_first_le: "length (filter P (drop_first Q ts)) \<le> length (filter P ts)" "set (drop_first Q ts) \<subseteq> set ts"
  by (induction ts) auto

lemma spec_op_late:
  assumes "only_timers delays op" and "late_timers delays (sc_timers s)" and "\<And>d n. d \<in> delays \<Longrightarrow> k \<le> n \<Longrightarrow> now < pv_clock env n + d"
    and "k \<le> sc_nclock s"
  shows "\<exists>s'. spec_op env op s = Some s' \<and> k \<le> sc_nclock s' \<and> late_timers delays (sc_timers s') \<and> due now s' \<le> due now s"
proof (cases op)
  case (Op_time delay permanent cb d)
  then have "\<not> pv_clock env (sc_nclock s) + delay \<le> now" using assms(1) assms(3) [of delay "sc_nclock s"] assms(4) by simp
  then show ?thesis using assms(1,2,4) Op_time by (simp add: late_timers_def due_def set_add_timer due_add_timer)
next
  case (Op_time_remove permanent cb d)
  then show ?thesis using assms(2,4) drop_first_le(2) by (fastforce simp: late_timers_def due_def drop_first_le(1))
qed (use assms(1,2,4) in \<open>simp_all add: due_def\<close>)

lemma spec_ops_late:
  assumes "\<And>d n. d \<in> delays \<Longrightarrow> k \<le> n \<Longrightarrow> now < pv_clock env n + d"
  shows "\<forall>op \<in> set ops. only_timers delays op \<Longrightarrow> late_timers delays (sc_timers s) \<Longrightarrow> k \<le> sc_nclock s \<Longrightarrow>
    \<exists>s'. run_steps (spec_op env) ops s = Some s' \<and> k \<le> sc_nclock s' \<and> late_timers delays (sc_timers s') \<and> due now s' \<le> due now s"
proof (induction ops arbitrary: s)
  case (Cons op ops)
  obtain s1 where "spec_op env op s = Some s1" "late_timers delays (sc_timers s1)" "due now s1 \<le> due now s" "k \<le> sc_nclock s1"
    using spec_op_late [OF _ Cons.prems(2) assms Cons.prems(3), of op] Cons.prems(1) by auto
  then show ?case using Cons.IH [of s1] Cons.prems(1) by fastforce
qed simp

lemma spec_timers_ends:
  assumes late: "\<And>d n. d \<in> delays \<Longrightarrow> k \<le> n \<Longrightarrow> now < pv_clock env n + d"
    and cb: "\<And>cb d c op. op \<in> set (snd (pv_callback env cb d c)) \<Longrightarrow> only_timers delays op"
  shows "late_timers delays (sc_timers s) \<Longrightarrow> k \<le> sc_nclock s \<Longrightarrow> \<exists>s'. spec_timers env now s = Some s'"
proof (induction "due now s" arbitrary: s rule: less_induct)
  case less
  show ?case
  proof (cases "\<exists>t ts. sc_timers s = t # ts \<and> tm_expiry t \<le> now")
    case False
    then show ?thesis by (subst spec_timers.simps) (auto split: list.splits)
  next
    case True
    then obtain t ts where t: "sc_timers s = t # ts" "tm_expiry t \<le> now" by auto
    obtain c ops where c: "pv_callback env (tm_callback t) (tm_data t) (sc_client s) = (c, ops)" by fastforce
    have only: "\<forall>op \<in> set ops. only_timers delays op" using cb [of _ "tm_callback t" "tm_data t" "sc_client s"] c by simp
    have d: "due now (s\<lparr>sc_timers := ts, sc_client := c\<rparr>) < due now s" using t by (simp add: due_def)
    have "\<exists>s1. run_steps (spec_op env) ops (s\<lparr>sc_timers := ts, sc_client := c\<rparr>) = Some s1 \<and> k \<le> sc_nclock s1 \<and> late_timers delays (sc_timers s1) \<and>
        due now s1 \<le> due now (s\<lparr>sc_timers := ts, sc_client := c\<rparr>)"
      by (rule spec_ops_late [where delays = delays, OF _ only]) (use late less.prems t in \<open>simp_all add: late_timers_def\<close>)
    then obtain s1 where s1: "run_steps (spec_op env) ops (s\<lparr>sc_timers := ts, sc_client := c\<rparr>) = Some s1" "late_timers delays (sc_timers s1)"
      "due now s1 < due now s" "k \<le> sc_nclock s1"
      using d by auto
    have f: "spec_fire env (tm_callback t) (tm_data t) (s\<lparr>sc_timers := ts\<rparr>) = Some s1" using s1(1) c by (simp add: spec_fire_def)
    obtain s2 where s2: "spec_timer env t (s\<lparr>sc_timers := ts\<rparr>) = Some s2" "late_timers delays (sc_timers s2)" "due now s2 < due now s" "k \<le> sc_nclock s2"
    proof (cases "tm_permanent t")
      case True
      then have "tm_delay t \<in> delays" using less.prems t by (simp add: late_timers_def)
      then have "\<not> pv_clock env (sc_nclock s1) + tm_delay t \<le> now" using late [of "tm_delay t" "sc_nclock s1"] s1(4) by simp
      then show ?thesis using that True s1(2-4) f \<open>tm_delay t \<in> delays\<close>
        by (simp add: spec_timer_def late_timers_def due_def set_add_timer due_add_timer)
    qed (use that s1(2-4) f in \<open>simp add: spec_timer_def\<close>)
    obtain s' where "spec_timers env now s2 = Some s'" using less.hyps [OF s2(3,2,4)] by blast
    then show ?thesis using t s2(1) by (subst spec_timers.simps) simp
  qed
qed

section \<open>Properties\<close>

text \<open>A loop with one timer, set when the clock shows 1 and run when it shows 5.\<close>

definition toy_surroundings :: "nat poll_env" where
  "toy_surroundings = \<lparr>pv_clock = \<lambda>n. if n = 0 then 1 else 5, pv_poll = \<lambda>_ fds _. Wait_done (map (\<lambda>_. (False, False)) fds),
     pv_select = \<lambda>_ _ _ _. Wait_done ({}, {}), pv_callback = \<lambda>cb d c. (c + 1, if cb = 1 then [Op_time_remove True cb d] else if cb = 2 then [Op_exit] else [])\<rparr>"

lemma toy_sel:
  "pv_clock toy_surroundings n = (if n = 0 then 1 else 5)"
  "pv_callback toy_surroundings cb d c = (c + 1, if cb = 1 then [Op_time_remove True cb d] else if cb = 2 then [Op_exit] else [])"
  by (simp_all add: toy_surroundings_def)

lemma toy_loop:
  "\<exists>p q :: nat poll_loop. poll_create None 0 = Some q \<and> poll_callback_time toy_surroundings 1 True cb 0 q = Some p \<and> poll_ok [] {} p \<and>
     sched_of p = \<lparr>sc_timers = [\<lparr>tm_expiry = 2, tm_delay = 1, tm_permanent = True, tm_callback = cb, tm_data = 0\<rparr>], sc_watches = [],
       sc_client = 0, sc_nclock = 1, sc_exit = False\<rparr>"
proof -
  obtain q :: "nat poll_loop" where q: "poll_create None 0 = Some q" "poll_ok [] {} q"
    "sched_of q = \<lparr>sc_timers = [], sc_watches = [], sc_client = 0, sc_nclock = 0, sc_exit = False\<rparr>"
    using poll_create_ok [of None "0::nat"] by (elim exE conjE) (rule that)
  obtain p where p: "poll_callback_time toy_surroundings 1 True cb 0 q = Some p" "poll_ok [] {} p"
    "Some (sched_of p) = spec_op toy_surroundings (Op_time 1 True cb 0) (sched_of q)"
    using op_time_refines [OF q(2)] by blast
  have "sched_of p = \<lparr>sc_timers = [\<lparr>tm_expiry = 2, tm_delay = 1, tm_permanent = True, tm_callback = cb, tm_data = 0\<rparr>], sc_watches = [],
       sc_client = 0, sc_nclock = 1, sc_exit = False\<rparr>"
    using p(3) unfolding q(3) by (simp add: toy_sel add_timer_def)
  then show ?thesis using q(1) p(1,2) by blast
qed

lemma toy_loop_run:
  obtains p q i where "poll_create None 0 = Some q" "poll_callback_time toy_surroundings 1 True cb 0 q = Some p" "poll_ok [] {} p"
    "pl_time p = [i]" "timer_of (en p i) = \<lparr>tm_expiry = 2, tm_delay = 1, tm_permanent = True, tm_callback = cb, tm_data = 0\<rparr>"
    "pl_client p = 0" "pl_nclock p = 1" "\<not> pl_exit p"
  using toy_loop [of cb] by (auto simp: sched_of_def)

lemma toy_timer:
  assumes "timer_of e = \<lparr>tm_expiry = x, tm_delay = d, tm_permanent = b, tm_callback = cb, tm_data = v\<rparr>"
  shows "en_expiry e = x" "en_delay e = d" "en_permanent e = b" "en_callback e = cb" "en_callbackData e = v"
  using assms by (simp_all add: timer_of_def)

text \<open>C11: running the time queue is running the timers of its abstract schedule in the order of their expiry: the first one that
  is due leaves the schedule, its callback changes the client and the schedule, and a periodic one comes back after its delay.\<close>
theorem time_queue_refines:
  assumes "poll_ok [] {} p"
  shows "map_option sched_of (poll_run_time_queue env p) =
    spec_timers env (pv_clock env (pl_nclock p)) ((sched_of p)\<lparr>sc_nclock := pl_nclock p + 1\<rparr>)"
proof -
  have "sched_of (p\<lparr>pl_nclock := pl_nclock p + 1\<rparr>) = (sched_of p)\<lparr>sc_nclock := pl_nclock p + 1\<rparr>" by (simp add: sched_of_def)
  then show ?thesis using run_timers_refines [of "p\<lparr>pl_nclock := pl_nclock p + 1\<rparr>" env] assms
    by (simp add: poll_run_time_queue_def time_get_def)
qed

theorem time_queue_refines_witness:
  "\<exists>p q. poll_create None 0 = Some q \<and> poll_callback_time toy_surroundings 1 True 0 0 q = Some p \<and>
     map_option sched_of (poll_run_time_queue toy_surroundings p) =
       Some \<lparr>sc_timers = [\<lparr>tm_expiry = 6, tm_delay = 1, tm_permanent = True, tm_callback = 0, tm_data = 0\<rparr>], sc_watches = [],
         sc_client = 1, sc_nclock = 3, sc_exit = False\<rparr>"
proof -
  obtain p q :: "nat poll_loop" where p: "poll_create None 0 = Some q" "poll_callback_time toy_surroundings 1 True 0 0 q = Some p"
    "poll_ok [] {} p" "sched_of p = \<lparr>sc_timers = [\<lparr>tm_expiry = 2, tm_delay = 1, tm_permanent = True, tm_callback = 0, tm_data = 0\<rparr>],
       sc_watches = [], sc_client = 0, sc_nclock = 1, sc_exit = False\<rparr>"
    using toy_loop by blast
  have n: "pl_nclock p = 1" using p(4) by (simp add: sched_of_def)
  show ?thesis
    by (intro exI conjI, fact p(1), fact p(2), subst time_queue_refines [OF p(3)])
      (simp add: n p(4) toy_sel spec_timers.simps spec_timer_def spec_fire_def add_timer_def)
qed

text \<open>C13: after the time queue has run no callback that was due is left in it, whatever the callbacks did.\<close>
theorem nothing_due_is_left:
  assumes "poll_ok [] {} p" and "poll_run_time_queue env p = Some p'" and "i \<in> set (pl_time p')"
  shows "\<exists>e. entry p' i = Some e \<and> pv_clock env (pl_nclock p) < en_expiry e"
proof -
  have ok: "poll_ok [] {} p'" using assms(1,2) by (rule time_queue_ok)
  have "entry p' i = Some (en p' i)" by (rule ok_entry [OF ok]) (use assms(3) in simp)
  moreover have "run_timers env (pv_clock env (pl_nclock p)) (p\<lparr>pl_nclock := pl_nclock p + 1\<rparr>) = Some p'"
    using assms(2) by (simp add: poll_run_time_queue_def time_get_def)
  then have "pv_clock env (pl_nclock p) < en_expiry (en p' i)"
    by (rule run_timers_none_due) (use assms(1,3) in simp_all)
  ultimately show ?thesis by simp
qed

theorem nothing_due_is_left_witness:
  "\<exists>p q p' i e. poll_create None 0 = Some q \<and> poll_callback_time toy_surroundings 1 True 0 0 q = Some p \<and>
     poll_run_time_queue toy_surroundings p = Some p' \<and> i \<in> set (pl_time p') \<and> entry p' i = Some e \<and> 5 < en_expiry e"
proof -
  obtain p q i where p: "poll_create None 0 = Some q" "poll_callback_time toy_surroundings 1 True 0 0 q = Some p" "poll_ok [] {} p"
    "pl_time p = [i]" "timer_of (en p i) = \<lparr>tm_expiry = 2, tm_delay = 1, tm_permanent = True, tm_callback = 0, tm_data = 0\<rparr>"
    "pl_client p = 0" "pl_nclock p = 1" "\<not> pl_exit p" by (rule toy_loop_run)
  have ok: "poll_ok [] {} (p\<lparr>pl_nclock := pl_nclock p + 1\<rparr>)" using p(3) by simp
  have "map_option sched_of (run_timers toy_surroundings 5 (p\<lparr>pl_nclock := pl_nclock p + 1\<rparr>)) \<noteq> None \<and>
    sc_timers (the (map_option sched_of (run_timers toy_surroundings 5 (p\<lparr>pl_nclock := pl_nclock p + 1\<rparr>)))) \<noteq> []"
    unfolding run_timers_refines [OF ok]
    by (simp add: p sched_of_def toy_sel spec_timers.simps spec_timer_def spec_fire_def add_timer_def)
  then obtain p' where p': "poll_run_time_queue toy_surroundings p = Some p'" "pl_time p' \<noteq> []"
    by (auto simp: poll_run_time_queue_def time_get_def toy_sel p(7) sched_of_def)
  then obtain j where j: "j \<in> set (pl_time p')" by (cases "pl_time p'") auto
  show ?thesis using nothing_due_is_left [OF p(3) p'(1) j] p(1,2,7) p'(1) j by (auto simp: toy_sel)
qed

text \<open>C14: the time queue ends when its callbacks only use timers and every periodic timer, of the queue or set by a callback, is
  due later than the reading of the clock with which the queue began, at every later reading. A delay of zero is the case this leaves out: there the
  queue does not end.\<close>
theorem time_queue_ends:
  assumes ok: "poll_ok [] {} p"
    and late: "\<And>d n. d \<in> delays \<Longrightarrow> pl_nclock p < n \<Longrightarrow> pv_clock env (pl_nclock p) < pv_clock env n + d"
    and timers: "\<And>i. i \<in> set (pl_time p) \<Longrightarrow> en_permanent (en p i) \<Longrightarrow> en_delay (en p i) \<in> delays"
    and callbacks: "\<And>cb d c op. op \<in> set (snd (pv_callback env cb d c)) \<Longrightarrow> only_timers delays op"
  shows "\<exists>p'. poll_run_time_queue env p = Some p'"
proof -
  have "late_timers delays (sc_timers (sched_of p))"
    using timers by (auto simp: late_timers_def sched_of_def timer_of_def)
  then have "\<exists>s'. spec_timers env (pv_clock env (pl_nclock p)) ((sched_of p)\<lparr>sc_nclock := pl_nclock p + 1\<rparr>) = Some s'"
    by (intro spec_timers_ends [where delays = delays and k = "pl_nclock p + 1"] late callbacks) simp_all
  then obtain s' where "spec_timers env (pv_clock env (pl_nclock p)) ((sched_of p)\<lparr>sc_nclock := pl_nclock p + 1\<rparr>) = Some s'" ..
  moreover have "sched_of (p\<lparr>pl_nclock := pl_nclock p + 1\<rparr>) = (sched_of p)\<lparr>sc_nclock := pl_nclock p + 1\<rparr>" by (simp add: sched_of_def)
  ultimately show ?thesis using run_timers_complete [of env "pv_clock env (pl_nclock p)" _ s' "p\<lparr>pl_nclock := pl_nclock p + 1\<rparr>"] ok
    by (simp add: poll_run_time_queue_def time_get_def)
qed

theorem time_queue_ends_witness:
  "\<exists>p q p'. poll_create None 0 = Some q \<and> poll_callback_time toy_surroundings 1 True 2 0 q = Some p \<and>
     poll_run_time_queue toy_surroundings p = Some p'"
proof -
  obtain p q i where p: "poll_create None 0 = Some q" "poll_callback_time toy_surroundings 1 True 2 0 q = Some p" "poll_ok [] {} p"
    "pl_time p = [i]" "timer_of (en p i) = \<lparr>tm_expiry = 2, tm_delay = 1, tm_permanent = True, tm_callback = 2, tm_data = 0\<rparr>"
    "pl_client p = 0" "pl_nclock p = 1" "\<not> pl_exit p" by (rule toy_loop_run)
  have "\<exists>p'. poll_run_time_queue toy_surroundings p = Some p'"
    by (rule time_queue_ends [where delays = "{1}", OF p(3)])
      (use p(4,7) toy_timer(2) [OF p(5)] in \<open>auto simp: toy_sel split: if_splits\<close>)
  then show ?thesis using p(1,2) by blast
qed

text \<open>C40: a periodic timer whose callback removes it is not removed: its entry has left the queue before the callback runs, so the
  removal finds nothing, and it is queued again afterwards.\<close>
theorem own_removal_is_lost:
  assumes ok: "poll_ok [] {} p" and p: "pl_time p = [i]" "en_permanent (en p i)"
    and cb: "pv_callback env (en_callback (en p i)) (en_callbackData (en p i)) (pl_client p) =
      (c, [Op_time_remove True (en_callback (en p i)) (en_callbackData (en p i))])"
  shows "map_option (sc_timers \<circ> sched_of) (run_timer env i p) =
    Some [(timer_of (en p i))\<lparr>tm_expiry := pv_clock env (pl_nclock p) + en_delay (en p i)\<rparr>]"
proof -
  have "map_option sched_of (run_timer env i p) = spec_timer env (timer_of (en p i)) ((sched_of p)\<lparr>sc_timers := []\<rparr>)"
    using run_timer_refines [OF ok, of i "[]" env] p(1) by simp
  also have "\<dots> = Some ((sched_of p)\<lparr>sc_client := c, sc_nclock := pl_nclock p + 1,
      sc_timers := [(timer_of (en p i))\<lparr>tm_expiry := pv_clock env (pl_nclock p) + en_delay (en p i)\<rparr>]\<rparr>)"
    using p(2) cb by (simp add: spec_timer_def spec_fire_def sched_of_def add_timer_def timer_of_def)
  finally obtain p' where p': "run_timer env i p = Some p'" "sched_of p' = (sched_of p)\<lparr>sc_client := c, sc_nclock := pl_nclock p + 1,
      sc_timers := [(timer_of (en p i))\<lparr>tm_expiry := pv_clock env (pl_nclock p) + en_delay (en p i)\<rparr>]\<rparr>"
    by (cases "run_timer env i p") simp_all
  show ?thesis unfolding p'(1) option.map comp_def p'(2) by simp
qed

theorem own_removal_is_lost_witness:
  "\<exists>p q i. poll_create None 0 = Some q \<and> poll_callback_time toy_surroundings 1 True 1 0 q = Some p \<and> pl_time p = [i] \<and>
     map_option (sc_timers \<circ> sched_of) (run_timer toy_surroundings i p) =
       Some [\<lparr>tm_expiry = 6, tm_delay = 1, tm_permanent = True, tm_callback = 1, tm_data = 0\<rparr>]"
proof -
  obtain p q i where p: "poll_create None 0 = Some q" "poll_callback_time toy_surroundings 1 True 1 0 q = Some p" "poll_ok [] {} p"
    "pl_time p = [i]" "timer_of (en p i) = \<lparr>tm_expiry = 2, tm_delay = 1, tm_permanent = True, tm_callback = 1, tm_data = 0\<rparr>"
    "pl_client p = 0" "pl_nclock p = 1" "\<not> pl_exit p" by (rule toy_loop_run)
  note t = toy_timer [OF p(5)]
  have "map_option (sc_timers \<circ> sched_of) (run_timer toy_surroundings i p) =
    Some [(timer_of (en p i))\<lparr>tm_expiry := pv_clock toy_surroundings (pl_nclock p) + en_delay (en p i)\<rparr>]"
    by (rule own_removal_is_lost [OF p(3,4)]) (simp_all add: t toy_sel)
  then have "map_option (sc_timers \<circ> sched_of) (run_timer toy_surroundings i p) =
       Some [\<lparr>tm_expiry = 6, tm_delay = 1, tm_permanent = True, tm_callback = 1, tm_data = 0\<rparr>]"
    by (simp only: p(5,7) t) (simp add: toy_sel)
  then show ?thesis using p(1,2,4) by blast
qed

text \<open>C12: the loop, when it returns, was told to, and its queues, its free list and its hash table are still in order: every
  entry is in one of them or none, is counted as often as it is used, and the table finds exactly the callbacks of the device queue.\<close>
theorem loop_keeps_queues:
  assumes "poll_ok [] {} p" and "poll_runloop env p = Some p'"
  shows "poll_ok [] {} p' \<and> pl_exit p'"
  using assms(2,1) by (rule runloop_ok)

theorem loop_keeps_queues_witness:
  "\<exists>p q p'. poll_create None 0 = Some q \<and> poll_callback_time toy_surroundings 1 True 2 0 q = Some p \<and>
     poll_runloop toy_surroundings p = Some p' \<and> poll_ok [] {} p' \<and> pl_exit p'"
proof -
  obtain p q i where p: "poll_create None 0 = Some q" "poll_callback_time toy_surroundings 1 True 2 0 q = Some p" "poll_ok [] {} p"
    "pl_time p = [i]" "timer_of (en p i) = \<lparr>tm_expiry = 2, tm_delay = 1, tm_permanent = True, tm_callback = 2, tm_data = 0\<rparr>"
    "pl_client p = 0" "pl_nclock p = 1" "\<not> pl_exit p" by (rule toy_loop_run)
  have ok: "poll_ok [] {} (p\<lparr>pl_nclock := pl_nclock p + 1\<rparr>)" using p(3) by simp
  have "map_option sched_of (run_timers toy_surroundings 5 (p\<lparr>pl_nclock := pl_nclock p + 1\<rparr>)) \<noteq> None \<and>
    sc_exit (the (map_option sched_of (run_timers toy_surroundings 5 (p\<lparr>pl_nclock := pl_nclock p + 1\<rparr>))))"
    unfolding run_timers_refines [OF ok]
    by (simp add: p sched_of_def toy_sel spec_timers.simps spec_timer_def spec_fire_def add_timer_def)
  then obtain p' where p': "poll_run_time_queue toy_surroundings p = Some p'" "pl_exit p'"
    by (auto simp: poll_run_time_queue_def time_get_def toy_sel p(7) sched_of_def)
  then have r: "poll_runloop toy_surroundings p = Some p'" by (subst poll_runloop.simps) simp
  show ?thesis using loop_keeps_queues [OF p(3) r] p(1,2) r by blast
qed

end
