(* ===== verification/BitcDefs.thy ===== *)
theory BitcDefs
  imports Prelude
begin

text \<open>
  The protocol constants and message structures of \<^verbatim>\<open>src/core/bitc-defs.h\<close>. A
  field keeps its C name behind a prefix of its structure. A digest (\<open>uint256\<close>,
  \<open>uint160\<close>: 32 and 20 bytes) is the word its bytes spell in little-endian order, so
  that \<open>data[i]\<close> is \<open>le_bytes h ! i\<close> and \<open>memcmp\<close> is equality; the 16 bytes of an
  IP address likewise. A pointer with its length (\<open>scriptSig\<close>) is a
  \<^typ>\<open>memory\<close>; arrays with a count are lists.
\<close>

definition BTC_PROTO_VERSION :: u32 where "BTC_PROTO_VERSION = 70016"
definition BTC_NET_MAGIC_MAIN :: u32 where "BTC_NET_MAGIC_MAIN = 0xD9B4BEF9"
definition BTC_NET_MAGIC_TESTNET :: u32 where "BTC_NET_MAGIC_TESTNET = 0x0709110B"
definition BTC_MSG_INV_MAX_ENTRIES :: u64 where "BTC_MSG_INV_MAX_ENTRIES = 50000"
definition BTC_MSG_GETDATA_MAX_ENTRIES :: u64 where "BTC_MSG_GETDATA_MAX_ENTRIES = 50000"
definition BTC_MSG_GETHEADERS_MAX_ENTRIES :: u64 where "BTC_MSG_GETHEADERS_MAX_ENTRIES = 2000"
definition BTC_MSG_ADDR_MAX_ENTRIES :: u64 where "BTC_MSG_ADDR_MAX_ENTRIES = 1000"
definition BTC_MSG_NOTFOUND_MAX_ENTRIES :: u64 where "BTC_MSG_NOTFOUND_MAX_ENTRIES = 50000"
definition BTC_MSG_MAX_PAYLOAD_LENGTH :: u32 where
  "BTC_MSG_MAX_PAYLOAD_LENGTH = 32 * 1024 * 1024"

definition BTC_PROTO_MIN :: u32 where "BTC_PROTO_MIN = 10000"
definition BTC_PROTO_PING :: u32 where "BTC_PROTO_PING = 60000"
definition BTC_PROTO_FILTERING :: u32 where "BTC_PROTO_FILTERING = 70001"
definition BTC_PROTO_ADDR_W_TIME :: u32 where "BTC_PROTO_ADDR_W_TIME = 31402"

definition INV_TYPE_MSG_TX :: u32 where "INV_TYPE_MSG_TX = 1"
definition INV_TYPE_MSG_BLOCK :: u32 where "INV_TYPE_MSG_BLOCK = 2"

lemmas bitc_defs =
  BTC_PROTO_VERSION_def BTC_NET_MAGIC_MAIN_def BTC_NET_MAGIC_TESTNET_def
  BTC_MSG_INV_MAX_ENTRIES_def BTC_MSG_GETDATA_MAX_ENTRIES_def
  BTC_MSG_GETHEADERS_MAX_ENTRIES_def BTC_MSG_ADDR_MAX_ENTRIES_def
  BTC_MSG_NOTFOUND_MAX_ENTRIES_def BTC_MSG_MAX_PAYLOAD_LENGTH_def
  BTC_PROTO_MIN_def BTC_PROTO_PING_def BTC_PROTO_FILTERING_def BTC_PROTO_ADDR_W_TIME_def
  INV_TYPE_MSG_TX_def INV_TYPE_MSG_BLOCK_def

text \<open>The message types, in the order of the C enumeration (\<open>BTC_MSG_UNKNOWN = 0\<close>).\<close>

datatype btc_msg_type =
    BTC_MSG_UNKNOWN | BTC_MSG_VERSION | BTC_MSG_VERACK | BTC_MSG_INV | BTC_MSG_GETADDR
  | BTC_MSG_ADDR | BTC_MSG_GETHEADERS | BTC_MSG_HEADERS | BTC_MSG_PING | BTC_MSG_PONG
  | BTC_MSG_GETBLOCKS | BTC_MSG_BLOCK | BTC_MSG_GETDATA | BTC_MSG_TX | BTC_MSG_MEMPOOL
  | BTC_MSG_ALERT | BTC_MSG_NOTFOUND | BTC_MSG_SENDHEADERS | BTC_MSG_SENDCMPCT
  | BTC_MSG_CMPCTBLOCK | BTC_MSG_GETBLOCKTXN | BTC_MSG_BLOCKTXN | BTC_MSG_FEEFILTER
  | BTC_MSG_WTXIDRELAY | BTC_MSG_SENDADDRV2 | BTC_MSG_ADDRV2 | BTC_MSG_GETCFILTERS
  | BTC_MSG_CFILTER | BTC_MSG_GETCFHEADERS | BTC_MSG_CFHEADERS | BTC_MSG_GETCFCHECKPT
  | BTC_MSG_CFCHECKPT

record btc_msg_header =
  mh_magic :: u32
  mh_message :: "byte list"
  mh_payloadLength :: u32
  mh_checksum :: "byte list"

record btc_msg_address =
  ad_services :: u64
  ad_ip :: "128 word"
  ad_time :: u32
  ad_port :: u16

record btc_msg_version =
  v_version :: u32
  v_services :: u64
  v_time :: u64
  v_addrTo :: btc_msg_address
  v_addrFrom :: btc_msg_address
  v_nonce :: u64
  v_strVersion :: "byte list"
  v_startingHeight :: u32
  v_relayTx :: byte

record btc_msg_inv =
  inv_type :: u32
  inv_hash :: uint256

record btc_block_header =
  bh_version :: u32
  bh_prevBlock :: uint256
  bh_merkleRoot :: uint256
  bh_timestamp :: u32
  bh_bits :: u32
  bh_nonce :: u32

record btc_block_locator =
  bl_protversion :: u32
  bl_numHashes :: nat
  bl_hashStop :: uint256
  bl_hashArray :: "uint256 list"

record btc_msg_tx_in =
  ti_prevTxHash :: uint256
  ti_prevTxOutIdx :: u32
  ti_scriptLength :: u64
  ti_scriptSig :: memory
  ti_sequence :: u32

record btc_msg_tx_out =
  to_value :: u64
  to_scriptLength :: u64
  to_scriptPubKey :: memory

record btc_msg_tx =
  tx_in_count :: u64
  tx_tx_in :: "btc_msg_tx_in list"
  tx_out_count :: u64
  tx_tx_out :: "btc_msg_tx_out list"
  tx_version :: u32
  tx_lock_time :: u32

record btc_msg_block =
  blk_header :: btc_block_header
  blk_txCount :: u64
  blk_tx :: "btc_msg_tx list"

record btc_msg_getcfilters =
  gcf_filterType :: byte
  gcf_startHeight :: u32
  gcf_stopHash :: uint256

record btc_msg_cfilter =
  cf_filterType :: byte
  cf_blockHash :: uint256
  cf_numBytes :: u64
  cf_filterData :: memory

record btc_msg_cfheaders =
  cfh_filterType :: byte
  cfh_stopHash :: uint256
  cfh_prevFilterHeader :: uint256
  cfh_numHeaders :: u64
  cfh_filterHashes :: "uint256 list option"

record btc_msg_getcfcheckpt =
  gcc_filterType :: byte
  gcc_stopHash :: uint256

record btc_msg_cfcheckpt =
  cfc_filterType :: byte
  cfc_stopHash :: uint256
  cfc_numHeaders :: u64
  cfc_filterHeaders :: "uint256 list option"

text \<open>The all-zero images that \<open>memset\<close> and \<open>calloc\<close> produce.\<close>

definition btc_msg_address_zero :: btc_msg_address where
  "btc_msg_address_zero = \<lparr>ad_services = 0, ad_ip = 0, ad_time = 0, ad_port = 0\<rparr>"

definition btc_msg_version_zero :: btc_msg_version where
  "btc_msg_version_zero = \<lparr>v_version = 0, v_services = 0, v_time = 0,
     v_addrTo = btc_msg_address_zero, v_addrFrom = btc_msg_address_zero, v_nonce = 0,
     v_strVersion = replicate 80 0, v_startingHeight = 0, v_relayTx = 0\<rparr>"

definition btc_msg_inv_zero :: btc_msg_inv where
  "btc_msg_inv_zero = \<lparr>inv_type = 0, inv_hash = 0\<rparr>"

definition btc_block_header_zero :: btc_block_header where
  "btc_block_header_zero = \<lparr>bh_version = 0, bh_prevBlock = 0, bh_merkleRoot = 0,
     bh_timestamp = 0, bh_bits = 0, bh_nonce = 0\<rparr>"

definition btc_msg_tx_in_zero :: btc_msg_tx_in where
  "btc_msg_tx_in_zero = \<lparr>ti_prevTxHash = 0, ti_prevTxOutIdx = 0, ti_scriptLength = 0,
     ti_scriptSig = None, ti_sequence = 0\<rparr>"

definition btc_msg_tx_out_zero :: btc_msg_tx_out where
  "btc_msg_tx_out_zero = \<lparr>to_value = 0, to_scriptLength = 0, to_scriptPubKey = None\<rparr>"

definition btc_msg_tx_zero :: btc_msg_tx where
  "btc_msg_tx_zero = \<lparr>tx_in_count = 0, tx_tx_in = [], tx_out_count = 0, tx_tx_out = [],
     tx_version = 0, tx_lock_time = 0\<rparr>"

definition btc_msg_cfilter_zero :: btc_msg_cfilter where
  "btc_msg_cfilter_zero = \<lparr>cf_filterType = 0, cf_blockHash = 0, cf_numBytes = 0,
     cf_filterData = None\<rparr>"

definition btc_msg_cfheaders_zero :: btc_msg_cfheaders where
  "btc_msg_cfheaders_zero = \<lparr>cfh_filterType = 0, cfh_stopHash = 0, cfh_prevFilterHeader = 0,
     cfh_numHeaders = 0, cfh_filterHashes = None\<rparr>"

definition btc_msg_cfcheckpt_zero :: btc_msg_cfcheckpt where
  "btc_msg_cfcheckpt_zero = \<lparr>cfc_filterType = 0, cfc_stopHash = 0, cfc_numHeaders = 0,
     cfc_filterHeaders = None\<rparr>"

end
