(* ===== verification/Hash.thy ===== *)
theory Hash
  imports BitcDefs "HOL-Library.Char_ord"
begin

text \<open>
  Digests: \<^verbatim>\<open>src/core/hash.h\<close>, \<^verbatim>\<open>src/core/hash.c\<close>, the RIPEMD-160 of
  \<^verbatim>\<open>src/core/ripemd160.c\<close> and the byte-string helpers of \<^verbatim>\<open>src/lib/util/util.c\<close>
  they use. SHA-256 is OpenSSL's: the functions that need it take it as the argument
  \<open>sha\<close>, a function from the hashed bytes to the 32-byte digest.
\<close>

section \<open>Comparison and zero\<close>

definition uint256_zero_out :: uint256 where "uint256_zero_out = 0"
definition uint160_zero_out :: uint160 where "uint160_zero_out = 0"

definition uint256_issame :: "uint256 \<Rightarrow> uint256 \<Rightarrow> bool" where
  "uint256_issame a b \<longleftrightarrow> le_bytes a = le_bytes b"

definition uint160_issame :: "uint160 \<Rightarrow> uint160 \<Rightarrow> bool" where
  "uint160_issame a b \<longleftrightarrow> le_bytes a = le_bytes b"

definition uint256_iszero :: "uint256 option \<Rightarrow> bool" where
  "uint256_iszero h = (case h of None \<Rightarrow> True | Some h \<Rightarrow> uint256_issame uint256_zero_out h)"

definition uint160_iszero :: "uint160 option \<Rightarrow> bool" where
  "uint160_iszero h = (case h of None \<Rightarrow> True | Some h \<Rightarrow> uint160_issame uint160_zero_out h)"

section \<open>Byte strings\<close>

text \<open>The loops that copy a byte string backwards (\<open>str_copyreverse\<close>) and that swap it in
  place (\<open>uint256_reverse\<close>, \<open>uint160_reverse\<close>).\<close>

definition str_copyreverse :: "byte list \<Rightarrow> nat \<Rightarrow> byte list" where
  "str_copyreverse src n = map (\<lambda>i. src ! (n - 1 - i)) [0..<n]"

primrec swap_loop :: "nat \<Rightarrow> byte list \<Rightarrow> byte list" where
  "swap_loop 0 data = data"
| "swap_loop (Suc i) data = (let data = swap_loop i data; v = data ! (length data - i - 1)
     in data[length data - i - 1 := data ! i, i := v])"

definition uint256_reverse :: "uint256 \<Rightarrow> uint256" where
  "uint256_reverse h = le_word (swap_loop (32 div 2) (le_bytes h))"

definition uint160_reverse :: "uint160 \<Rightarrow> uint160" where
  "uint160_reverse h = le_word (swap_loop (20 div 2) (le_bytes h))"

text \<open>The conversion \<open>%02x\<close> of a byte by \<open>snprintf\<close>.\<close>

definition hex_digit :: "nat \<Rightarrow> char" where
  "hex_digit n = ''0123456789abcdef'' ! n"

definition hex_byte :: "byte \<Rightarrow> string" where
  "hex_byte b = [hex_digit (unat b div 16), hex_digit (unat b mod 16)]"

text \<open>\<open>snprintf (str + idx, room, \<dots>)\<close> stores at most \<open>room - 1\<close> characters and ends the
  string, and returns the length it would have liked to store. The state of the loop is
  the string in \<open>str\<close> and \<open>idx\<close>.\<close>

fun str_snprintf_loop :: "nat \<Rightarrow> byte list \<Rightarrow> string \<Rightarrow> nat \<Rightarrow> string option" where
  "str_snprintf_loop room [] out idx = Some out"
| "str_snprintf_loop room (c # cs) out idx = do {
     ASSERT (idx \<le> room);
     str_snprintf_loop room cs
       (if idx < room then take idx out @ take (room - idx - 1) (hex_byte c) else out) (idx + 2)
   }"

definition str_snprintf_bytes :: "nat \<Rightarrow> string option \<Rightarrow> byte list \<Rightarrow> string option" where
  "str_snprintf_bytes room pfx buf = (case pfx of
     None \<Rightarrow> str_snprintf_loop room buf [] 0
   | Some p \<Rightarrow> (let padded = p @ replicate (8 - length p) CHR '' ''
       in str_snprintf_loop room buf (take (room - 1) padded) (length padded)))"

definition uint160_snprintf_reverse :: "nat \<Rightarrow> uint160 \<Rightarrow> string option" where
  "uint160_snprintf_reverse room h = str_snprintf_bytes room None (le_bytes (uint160_reverse h))"

definition uint256_snprintf_reverse :: "nat \<Rightarrow> uint256 \<Rightarrow> string option" where
  "uint256_snprintf_reverse room h = do {
     ASSERT (2 * 32 + 1 \<le> room);
     str_snprintf_bytes room None (le_bytes (uint256_reverse h))
   }"

definition uint256_to_str :: "uint256 \<Rightarrow> string option" where
  "uint256_to_str h = uint256_snprintf_reverse 80 h"

text \<open>\<open>sscanf (\<dots>, "%02x")\<close> on a two-character string, as the C standard defines it: white
  space is skipped, a sign is accepted and negates, hexadecimal digits are read as long as
  there are any and at least one must be there (\<open>0x\<close> alone is no number).\<close>

definition hex_value :: "char \<Rightarrow> nat option" where
  "hex_value c =
     (if CHR ''0'' \<le> c \<and> c \<le> CHR ''9'' then Some (of_char c - of_char (CHR ''0''))
      else if CHR ''a'' \<le> c \<and> c \<le> CHR ''f'' then Some (of_char c - of_char (CHR ''a'') + 10)
      else if CHR ''A'' \<le> c \<and> c \<le> CHR ''F'' then Some (of_char c - of_char (CHR ''A'') + 10)
      else None)"

definition isspace :: "char \<Rightarrow> bool" where
  "isspace c \<longleftrightarrow> c = CHR '' '' \<or> (CHR 0x09 \<le> c \<and> c \<le> CHR 0x0D)"

fun sscanf_02x :: "string \<Rightarrow> u32 option" where
  "sscanf_02x [c, d] =
     (if isspace c then map_option of_nat (hex_value d)
      else if c = CHR ''+'' then map_option of_nat (hex_value d)
      else if c = CHR ''-'' then map_option (\<lambda>v. - of_nat v) (hex_value d)
      else if c = CHR ''0'' \<and> (d = CHR ''x'' \<or> d = CHR ''X'') then None
      else case hex_value c of None \<Rightarrow> None
        | Some v \<Rightarrow> (case hex_value d of None \<Rightarrow> Some (of_nat v) | Some w \<Rightarrow> Some (of_nat (16 * v + w))))"
| "sscanf_02x _ = None"

text \<open>The loop of \<open>uint256_from_str\<close> fills the digest from its last byte down; on failure
  what was stored stays.\<close>

fun uint256_from_str_loop :: "string \<Rightarrow> nat \<Rightarrow> nat \<Rightarrow> byte list \<Rightarrow> bool \<times> byte list" where
  "uint256_from_str_loop str 0 i data = (True, data)"
| "uint256_from_str_loop str (Suc n) i data =
     (case sscanf_02x (take 2 (drop (2 * i) str)) of
        None \<Rightarrow> (False, data)
      | Some v \<Rightarrow> uint256_from_str_loop str n (i + 1) (data[32 - i - 1 := ucast v]))"

definition uint256_from_str :: "string \<Rightarrow> uint256 \<Rightarrow> bool \<times> uint256" where
  "uint256_from_str str h =
     (if length str \<noteq> 2 * 32 then (False, h)
      else case uint256_from_str_loop str 32 0 (le_bytes h) of (s, data) \<Rightarrow> (s, le_word data))"

section \<open>RIPEMD-160\<close>

definition ROL :: "u32 \<Rightarrow> nat \<Rightarrow> u32" where
  "ROL x n = (push_bit n x) OR (drop_bit (32 - n) x)"

definition rmd_f :: "nat \<Rightarrow> u32 \<Rightarrow> u32 \<Rightarrow> u32 \<Rightarrow> u32" where
  "rmd_f j x y z =
     (if j < 16 then x XOR y XOR z
      else if j < 32 then (x AND y) OR (NOT x AND z)
      else if j < 48 then (x OR NOT y) XOR z
      else if j < 64 then (x AND z) OR (y AND NOT z)
      else x XOR (y OR NOT z))"

definition KL :: "u32 list" where
  "KL = [0x00000000, 0x5A827999, 0x6ED9EBA1, 0x8F1BBCDC, 0xA953FD4E]"

definition KR :: "u32 list" where
  "KR = [0x50A28BE6, 0x5C4DD124, 0x6D703EF3, 0x7A6D76E9, 0x00000000]"

definition RL :: "nat list" where
  "RL = [0, 1, 2, 3, 4, 5, 6, 7, 8, 9,10,11,12,13,14,15,
    7, 4,13, 1,10, 6,15, 3,12, 0, 9, 5, 2,14,11, 8,
    3,10,14, 4, 9,15, 8, 1, 2, 7, 0, 6,13,11, 5,12,
    1, 9,11,10, 0, 8,12, 4,13, 3, 7,15,14, 5, 6, 2,
    4, 0, 5, 9, 7,12, 2,10,14, 1, 3, 8,11, 6,15,13]"

definition RR :: "nat list" where
  "RR = [5,14, 7, 0, 9, 2,11, 4,13, 6,15, 8, 1,10, 3,12,
    6,11, 3, 7, 0,13, 5,10,14,15, 8,12, 4, 9, 1, 2,
   15, 5, 1, 3, 7,14, 6, 9,11, 8,12, 2,10, 0, 4,13,
    8, 6, 4, 1, 3,11,15, 0, 5,12, 2,13, 9, 7,10,14,
   12,15,10, 4, 1, 5, 8, 7, 6, 2,13,14, 0, 3, 9,11]"

definition SL :: "nat list" where
  "SL = [11,14,15,12, 5, 8, 7, 9,11,13,14,15, 6, 7, 9, 8,
    7, 6, 8,13,11, 9, 7,15, 7,12,15, 9,11, 7,13,12,
   11,13, 6, 7,14, 9,13,15,14, 8,13, 6, 5,12, 7, 5,
   11,12,14,15,14,15, 9, 8, 9,14, 5, 6, 8, 6, 5,12,
    9,15, 5,11, 6, 8,13,12, 5,12,13,14,11, 8, 5, 6]"

definition SR :: "nat list" where
  "SR = [8, 9, 9,11,13,15,15, 5, 7, 7, 8,11,14,14,12, 6,
    9,13,15, 7,12, 8, 9,11, 7, 7,12, 7, 6,15,13,11,
    9, 7,15,11, 8, 6, 6,14,12,13, 5,14,13,13, 7, 5,
   15, 5, 8,11,14,14, 6,14, 6, 9,12, 9,12, 5,15, 8,
    8, 5,12, 9,12, 5,14, 6, 8,13, 6, 5,15,13,11,11]"

text \<open>The chaining value \<open>h[5]\<close> and each of the two lines are five words.\<close>

type_synonym rmd_chain = "u32 \<times> u32 \<times> u32 \<times> u32 \<times> u32"

text \<open>\<open>X\<close> is the block as sixteen little-endian words.\<close>

definition rmd_words :: "byte list \<Rightarrow> u32 list" where
  "rmd_words block = map (\<lambda>j. ucast (block ! (4 * j)) OR push_bit 8 (ucast (block ! (4 * j + 1))) OR
     push_bit 16 (ucast (block ! (4 * j + 2))) OR push_bit 24 (ucast (block ! (4 * j + 3)))) [0..<16]"

definition rmd_round :: "u32 list \<Rightarrow> nat \<Rightarrow> rmd_chain \<times> rmd_chain \<Rightarrow> rmd_chain \<times> rmd_chain" where
  "rmd_round X j = (\<lambda>((al, bl, cl, dl, el), (ar, br, cr, dr, er)).
     let r = j div 16;
         tl = ROL (al + rmd_f j bl cl dl + X ! (RL ! j) + KL ! r) (SL ! j) + el;
         tr = ROL (ar + rmd_f (79 - j) br cr dr + X ! (RR ! j) + KR ! r) (SR ! j) + er
     in ((el, tl, bl, ROL cl 10, dl), (er, tr, br, ROL cr 10, dr)))"

definition rmd_transform :: "rmd_chain \<Rightarrow> byte list \<Rightarrow> rmd_chain" where
  "rmd_transform h block = (let X = rmd_words block; (h0, h1, h2, h3, h4) = h in
     case fold (rmd_round X) [0..<80] (h, h) of
       ((al, bl, cl, dl, el), (ar, br, cr, dr, er)) \<Rightarrow>
         (h1 + cl + dr, h2 + dl + er, h3 + el + ar, h4 + al + br, h0 + bl + cr))"

text \<open>The \<open>while (len >= 64)\<close> loop: the chaining value and the bytes left over.\<close>

fun rmd_blocks :: "rmd_chain \<Rightarrow> byte list \<Rightarrow> rmd_chain \<times> byte list" where
  "rmd_blocks h p = (if 64 \<le> length p then rmd_blocks (rmd_transform h (take 64 p)) (drop 64 p)
     else (h, p))"

declare rmd_blocks.simps [simp del]

definition rmd_init :: rmd_chain where
  "rmd_init = (0x67452301, 0xEFCDAB89, 0x98BADCFE, 0x10325476, 0xC3D2E1F0)"

definition rmd_digest :: "rmd_chain \<Rightarrow> byte list" where
  "rmd_digest = (\<lambda>(h0, h1, h2, h3, h4).
     concat (map (\<lambda>h. [ucast h, ucast (drop_bit 8 h), ucast (drop_bit 16 h), ucast (drop_bit 24 h)])
       [h0, h1, h2, h3, h4]))"

definition ripemd160 :: "byte list \<Rightarrow> byte list" where
  "ripemd160 data =
     (let bits = of_nat (length data) * 8 :: u64;
          (h, p) = rmd_blocks rmd_init data;
          block = p @ [0x80];
          (h, block) = (if 56 < length block
            then (rmd_transform h (block @ replicate (64 - length block) 0), [])
            else (h, block));
          block = block @ replicate (56 - length block) 0 @ map (\<lambda>i. ucast (drop_bit (8 * i) bits)) [0..<8]
      in rmd_digest (rmd_transform h block))"

section \<open>The digests of the protocol\<close>

definition sha256_calc :: "(byte list \<Rightarrow> uint256) \<Rightarrow> byte list \<Rightarrow> uint256" where
  "sha256_calc sha buf = sha buf"

definition hash160_calc :: "(byte list \<Rightarrow> uint256) \<Rightarrow> byte list \<Rightarrow> uint160" where
  "hash160_calc sha buf = (let h = sha256_calc sha buf in le_word (ripemd160 (le_bytes h)))"

definition hash256_calc :: "(byte list \<Rightarrow> uint256) \<Rightarrow> byte list \<Rightarrow> uint256" where
  "hash256_calc sha buf = (let hash0 = sha256_calc sha buf in sha256_calc sha (le_bytes hash0))"

definition hash4_calc :: "(byte list \<Rightarrow> uint256) \<Rightarrow> byte list \<Rightarrow> byte list" where
  "hash4_calc sha buf = take 4 (le_bytes (hash256_calc sha buf))"

section \<open>Reference RIPEMD-160\<close>

text \<open>The standard's formulation: pad the message to a multiple of 64 bytes and fold the
  compression function over its blocks.\<close>

definition rmd_pad :: "byte list \<Rightarrow> byte list" where
  "rmd_pad m = m @ [0x80] @ replicate ((119 - length m mod 64) mod 64) 0 @
     le_bytes (of_nat (8 * length m) :: u64)"

fun chunks64 :: "byte list \<Rightarrow> byte list list" where
  "chunks64 p = (if p = [] then [] else take 64 p # chunks64 (drop 64 p))"

declare chunks64.simps [simp del]

definition ripemd160_ref :: "byte list \<Rightarrow> byte list" where
  "ripemd160_ref m = rmd_digest (fold (\<lambda>b h. rmd_transform h b) (chunks64 (rmd_pad m)) rmd_init)"

section \<open>Laws\<close>

lemma swap_loop_inv:
  "2 * i \<le> length d \<Longrightarrow> length (swap_loop i d) = length d \<and>
    (\<forall>k < length d. swap_loop i d ! k = (if k < i \<or> length d - i \<le> k then d ! (length d - 1 - k) else d ! k))"
proof (induction i)
  case 0
  then show ?case by simp
next
  case (Suc i)
  then have IH: "length (swap_loop i d) = length d" 
    "\<And>k. k < length d \<Longrightarrow> swap_loop i d ! k = (if k < i \<or> length d - i \<le> k then d ! (length d - 1 - k) else d ! k)"
    by auto
  show ?case
    using Suc.prems by (auto simp: Let_def IH nth_list_update)
qed

lemma swap_loop_rev: "2 * n = length d \<Longrightarrow> swap_loop n d = rev d"
  using swap_loop_inv [of n d] by (auto intro!: nth_equalityI simp: rev_nth)

lemma str_copyreverse_rev: "str_copyreverse src (length src) = rev src"
  by (auto intro!: nth_equalityI simp: str_copyreverse_def rev_nth)

lemma le_bytes_eq_iff: "8 dvd LENGTH('a) \<Longrightarrow> le_bytes a = le_bytes b \<longleftrightarrow> a = (b :: 'a::len word)"
  by (metis le_word_le_bytes)

lemma issame_iff [simp]: "uint256_issame a b \<longleftrightarrow> a = b" "uint160_issame c d \<longleftrightarrow> c = d"
  by (simp_all add: uint256_issame_def uint160_issame_def le_bytes_eq_iff)

lemma iszero_iff [simp]: "uint256_iszero (Some h) \<longleftrightarrow> h = 0" "uint160_iszero (Some k) \<longleftrightarrow> k = 0"
  by (auto simp: uint256_iszero_def uint160_iszero_def uint256_zero_out_def uint160_zero_out_def)

lemma le_bytes_reverse: "le_bytes (uint256_reverse h) = rev (le_bytes h)"
  by (simp add: uint256_reverse_def swap_loop_rev)

lemma str_snprintf_loop_fits:
  "2 * length cs + idx < room \<Longrightarrow> length out = idx \<Longrightarrow>
     str_snprintf_loop room cs out idx = Some (out @ concat (map hex_byte cs))"
  by (induction room cs out idx rule: str_snprintf_loop.induct) (auto simp: hex_byte_def)

lemma hex_value_digit: "n < 16 \<Longrightarrow> hex_value (hex_digit n) = Some n"
proof -
  have "\<forall>n \<in> set [0..<16]. hex_value (hex_digit n) = Some n" by code_simp
  then show "n < 16 \<Longrightarrow> hex_value (hex_digit n) = Some n" by auto
qed

lemma hex_digit_plain: "n < 16 \<Longrightarrow> \<not> isspace (hex_digit n) \<and> hex_digit n \<notin> {CHR ''+'', CHR ''-'', CHR ''x'', CHR ''X''}"
proof -
  have "\<forall>n \<in> set [0..<16]. \<not> isspace (hex_digit n) \<and> hex_digit n \<noteq> CHR ''+'' \<and> hex_digit n \<noteq> CHR ''-''
     \<and> hex_digit n \<noteq> CHR ''x'' \<and> hex_digit n \<noteq> CHR ''X''" by code_simp
  then show "n < 16 \<Longrightarrow> \<not> isspace (hex_digit n) \<and> hex_digit n \<notin> {CHR ''+'', CHR ''-'', CHR ''x'', CHR ''X''}" by auto
qed

lemma sscanf_hex_byte: "sscanf_02x (hex_byte b) = Some (ucast b)"
proof -
  have b: "unat b div 16 < 16" "unat b mod 16 < 16" using unsigned_less [of b, where ?'a = nat] by auto
  then have "of_nat (16 * (unat b div 16) + unat b mod 16) = (ucast b :: u32)"
    by (simp only: mult_div_mod_eq) simp
  with b show ?thesis
    using hex_value_digit [OF b(1)] hex_value_digit [OF b(2)] hex_digit_plain [OF b(1)] hex_digit_plain [OF b(2)]
    by (simp add: hex_byte_def)
qed

lemma rmd_blocks_spec:
  "rmd_blocks h p = (fold (\<lambda>b h. rmd_transform h b) (chunks64 (take (length p - length p mod 64) p)) h,
     drop (length p - length p mod 64) p)"
proof (induction h p rule: rmd_blocks.induct)
  case (1 h p)
  show ?case
  proof (cases "64 \<le> length p")
    case True
    let ?m = "length p - length p mod 64"
    have m: "64 \<le> ?m" "(length p - 64) mod 64 = length p mod 64"
      using True by (auto simp: le_mod_geq)
    have "chunks64 (take ?m p) = take 64 p # chunks64 (take (?m - 64) (drop 64 p))"
      using True m by (subst chunks64.simps) (auto simp: take_drop min_def)
    moreover have "length (drop 64 p) - length (drop 64 p) mod 64 = ?m - 64" using m by simp
    moreover have "drop (?m - 64 + 64) p = drop ?m p" using m by simp
    ultimately show ?thesis
      using "1.IH" [OF True] True by (simp add: rmd_blocks.simps [of h p])
  next
    case False
    then show ?thesis by (simp add: rmd_blocks.simps [of h p] chunks64.simps)
  qed
qed

lemma chunks64_append: "64 dvd length xs \<Longrightarrow> chunks64 (xs @ ys) = chunks64 xs @ chunks64 ys"
proof (induction xs rule: chunks64.induct)
  case (1 xs)
  show ?case
  proof (cases "xs = []")
    case True
    then show ?thesis by (simp add: chunks64.simps [of "[]"])
  next
    case False
    with "1.prems" have l: "64 \<le> length xs" by (auto intro: dvd_imp_le)
    then have "64 dvd length (drop 64 xs)" using "1.prems" by simp
    with "1.IH" [OF False] l False show ?thesis
      by (simp add: chunks64.simps [of "xs @ ys"] chunks64.simps [of xs])
  qed
qed

lemma chunks64_single: "length xs = 64 \<Longrightarrow> chunks64 xs = [xs]"
  by (subst chunks64.simps) (auto simp: chunks64.simps [of "[]"])

lemma rmd_pad_amount:
  "(119 - r) mod 64 = (if r < 56 then 55 - r else 119 - r)" if "r < 64" for r :: nat
proof (cases "r < 56")
  case True
  then have "119 - r = (55 - r) + 64" by simp
  with True show ?thesis by (simp only: mod_add_self2) simp
next
  case False
  with that show ?thesis by simp
qed

lemma rmd_pad_length: "64 dvd length (rmd_pad m)"
proof -
  let ?r = "length m mod 64"
  have "length (rmd_pad m) = (length m - ?r) + ?r + 9 + (119 - ?r) mod 64"
    by (simp add: rmd_pad_def)
  also have "\<dots> = (length m - ?r) + (if ?r < 56 then 64 else 128)"
    by (simp add: rmd_pad_amount add.commute)
  finally show ?thesis by (simp only:) (intro dvd_add dvd_minus_mod, simp)
qed

lemma ripemd160_ref_eq: "ripemd160 m = ripemd160_ref m"
proof -
  let ?k = "length m - length m mod 64"
  let ?p = "drop ?k m" and ?r = "length m mod 64"
  let ?t = "le_bytes (of_nat (8 * length m) :: u64)"
  have t: "map (\<lambda>i. ucast (drop_bit (8 * i) (of_nat (length m) * 8 :: u64))) [0..<8] = ?t"
    by (simp add: le_bytes_def mult.commute)
  have p: "length ?p = ?r" "?r < 64" by simp_all
  have pad: "rmd_pad m = take ?k m @ (?p @ [0x80] @ replicate ((119 - ?r) mod 64) 0 @ ?t)"
    by (simp add: rmd_pad_def)
  have "length (take ?k m) = ?k" by simp
  then have d: "64 dvd length (take ?k m)" by (metis dvd_minus_mod)
  note c = chunks64_append [OF d]
  show ?thesis
  proof (cases "56 \<le> ?r")
    case True
    then have "(119 - ?r) mod 64 = (63 - ?r) + 56" using p by (simp add: rmd_pad_amount)
    then have e: "replicate ((119 - ?r) mod 64) (0 :: byte) = replicate (63 - ?r) 0 @ replicate 56 0"
      by (simp only: replicate_add)
    have "chunks64 (?p @ [0x80] @ replicate ((119 - ?r) mod 64) 0 @ ?t) =
       [?p @ [0x80] @ replicate (63 - ?r) 0, replicate 56 0 @ ?t]"
      using chunks64_append [of "?p @ [0x80] @ replicate (63 - ?r) 0" "replicate 56 0 @ ?t"]
        chunks64_single [of "?p @ [0x80] @ replicate (63 - ?r) 0"] chunks64_single [of "replicate 56 0 @ ?t"] p
      unfolding e by simp
    with True p t show ?thesis
      by (simp add: ripemd160_def ripemd160_ref_def Let_def rmd_blocks_spec pad c)
  next
    case False
    then have e: "(119 - ?r) mod 64 = 55 - ?r" using p by (simp add: rmd_pad_amount)
    have "chunks64 (?p @ [0x80] @ replicate ((119 - ?r) mod 64) 0 @ ?t) =
       [?p @ [0x80] @ replicate (55 - ?r) 0 @ ?t]"
      using False p unfolding e by (intro chunks64_single) simp
    with False p t show ?thesis
      by (simp add: ripemd160_def ripemd160_ref_def Let_def rmd_blocks_spec pad c)
  qed
qed

lemma hex_concat_nth:
  "i < length bs \<Longrightarrow> take 2 (drop (2 * i) (concat (map hex_byte bs))) = hex_byte (bs ! i)"
proof (induction bs arbitrary: i)
  case Nil
  then show ?case by simp
next
  case (Cons b bs)
  then show ?case by (cases i) (auto simp: hex_byte_def)
qed

lemma length_hex_concat: "length (concat (map hex_byte bs)) = 2 * length bs"
  by (induction bs) (simp_all add: hex_byte_def)

lemma ucast_ucast_byte: "ucast (ucast (b :: byte) :: u32) = b"
  by (simp add: word_unat_eq_iff unsigned_ucast_eq take_bit_nat_eq_self_iff unsigned_less [of b, where ?'a = nat, simplified] take_bit_word_eq_self)

lemma uint256_from_str_loop_hex:
  assumes "length bs = 32" and "length data = 32" and "n \<le> 32"
  shows "uint256_from_str_loop (concat (map hex_byte bs)) n (32 - n) data =
     (True, take n (rev bs) @ drop n data)"
  using assms(2,3)
proof (induction n arbitrary: data)
  case 0
  then show ?case by simp
next
  case (Suc n)
  let ?d = "data[n := bs ! (31 - n)]"
  have "uint256_from_str_loop (concat (map hex_byte bs)) n (32 - n) ?d = (True, take n (rev bs) @ drop n ?d)"
    using Suc by simp
  moreover have "take n (rev bs) @ drop n ?d = take (Suc n) (rev bs) @ drop (Suc n) data"
    using Suc.prems assms(1) Cons_nth_drop_Suc [of n ?d]
    by (simp add: take_Suc_conv_app_nth rev_nth)
  moreover have "32 - Suc n + 1 = 32 - n" "32 - (32 - Suc n) - 1 = n" using Suc.prems by simp_all
  ultimately show ?case
    using Suc.prems assms(1) hex_concat_nth [of "32 - Suc n" bs]
    by (simp add: sscanf_hex_byte ucast_ucast_byte)
qed

lemma str_snprintf_loop_None:
  "str_snprintf_loop room buf out idx = None \<longleftrightarrow> buf \<noteq> [] \<and> room < idx + 2 * (length buf - 1)"
proof (induction room buf out idx rule: str_snprintf_loop.induct)
  case (1 room out idx)
  then show ?case by simp
next
  case (2 room c cs out idx)
  show ?case
  proof (cases "idx \<le> room")
    case True
    with "2.IH" show ?thesis by (cases cs) auto
  next
    case False
    then show ?thesis by simp
  qed
qed

section \<open>Properties\<close>

text \<open>Printing a digest with \<open>uint256_snprintf_reverse\<close> and reading it back with
  \<open>uint256_from_str\<close> gives the digest, for every buffer large enough for the assertion.\<close>

theorem uint256_str_roundtrip:
  assumes "65 \<le> room"
  shows "\<exists>s. uint256_snprintf_reverse room h = Some s \<and> length s = 64 \<and>
     uint256_from_str s h0 = (True, h)"
proof -
  let ?s = "concat (map hex_byte (rev (le_bytes h)))"
  have "uint256_snprintf_reverse room h = Some ?s"
    using assms str_snprintf_loop_fits [of "rev (le_bytes h)" 0 room "[]"]
    by (simp add: uint256_snprintf_reverse_def str_snprintf_bytes_def le_bytes_reverse)
  moreover have "uint256_from_str ?s h0 = (True, h)"
    using uint256_from_str_loop_hex [of "rev (le_bytes h)" "le_bytes h0" 32]
    by (simp add: uint256_from_str_def length_hex_concat)
  ultimately show ?thesis by (simp add: length_hex_concat)
qed

theorem uint256_str_roundtrip_witness:
  "(65 :: nat) \<le> 80 \<and> (\<exists>s. uint256_snprintf_reverse 80 0x1234 = Some s \<and> length s = 64 \<and>
     uint256_from_str s 0 = (True, 0x1234))"
  using uint256_str_roundtrip [of 80 "0x1234" 0] by simp

text \<open>The RIPEMD-160 of the source, which compresses whole blocks as it goes and pads the
  rest in a 64-byte array, is the standard's: the compression function folded over the blocks
  of the padded message, whose length is a multiple of 64.\<close>

theorem ripemd160_correct:
  "ripemd160 m = ripemd160_ref m \<and> 64 dvd length (rmd_pad m)"
  by (simp add: ripemd160_ref_eq rmd_pad_length)

text \<open>\<open>str_snprintf_bytes\<close> stops the process instead of truncating exactly when the
  bytes need more than two characters beyond the room: the printing functions that give it a
  512-byte array stop on any script longer than 257 bytes.\<close>

theorem str_snprintf_bytes_panics_iff:
  "str_snprintf_bytes room None buf = None \<longleftrightarrow> room + 2 < 2 * length buf"
  by (auto simp: str_snprintf_bytes_def str_snprintf_loop_None)

end
