(* ===== verification/Config.thy ===== *)
theory Config
  imports Hash
begin

text \<open>
  The configuration files of \<^verbatim>\<open>src/lib/config/config.c\<close>: a sorted list of keys with typed
  values, its text form, and the line reader \<open>file_getline\<close> of \<^verbatim>\<open>src/lib/file/file.c\<close>.

  A C string is a \<^typ>\<open>string\<close> without the zero character; the keys are passed as they are after
  formatting. A value of the union is one of its members; what the code reads through another
  member is written out in \<open>kv_str\<close>. Failed assertions and undefined accesses are \<^const>\<open>None\<close>.
\<close>

section \<open>The C library\<close>

text \<open>\<open>tolower\<close>, \<open>strcasecmp\<close> (as equality) and \<open>strcmp\<close> (as the order) in the C locale.\<close>

definition tolower :: "char \<Rightarrow> char" where
  "tolower c = (if CHR ''A'' \<le> c \<and> c \<le> CHR ''Z'' then char_of ((of_char c :: nat) + 32) else c)"

definition strcaseeq :: "string \<Rightarrow> string \<Rightarrow> bool" where
  "strcaseeq s t \<longleftrightarrow> map tolower s = map tolower t"

fun strcmp_less :: "string \<Rightarrow> string \<Rightarrow> bool" where
  "strcmp_less s [] = False"
| "strcmp_less [] (d # t) = True"
| "strcmp_less (c # s) (d # t) = ((of_char c :: nat) < of_char d \<or> (c = d \<and> strcmp_less s t))"

text \<open>Decimal numbers: the format \<open>%d\<close> and \<open>atoll\<close>, which is undefined for numbers that do not fit.\<close>

fun print_nat :: "nat \<Rightarrow> string" where
  "print_nat n = (if n < 10 then [] else print_nat (n div 10)) @ [char_of (48 + n mod 10)]"

declare print_nat.simps [simp del]

definition print_int :: "int \<Rightarrow> string" where
  "print_int v = (if v < 0 then CHR ''-'' # print_nat (nat (- v)) else print_nat (nat v))"

definition is_digit :: "char \<Rightarrow> bool" where
  "is_digit c \<longleftrightarrow> CHR ''0'' \<le> c \<and> c \<le> CHR ''9''"

definition digits_value :: "string \<Rightarrow> nat" where
  "digits_value s = foldl (\<lambda>v c. 10 * v + (of_char c - 48)) 0 s"

definition atoll :: "string \<Rightarrow> int option" where
  "atoll s = (let s = dropWhile isspace s;
       neg = (s \<noteq> [] \<and> hd s = CHR ''-'');
       s = (if s \<noteq> [] \<and> hd s \<in> {CHR ''-'', CHR ''+''} then tl s else s);
       n = int (digits_value (takeWhile is_digit s));
       v = (if neg then - n else n)
     in if - (2 ^ 63) \<le> v \<and> v < 2 ^ 63 then Some v else None)"

section \<open>The structure\<close>

datatype ConfigKVType = CONFIG_KV_UNKNOWN | CONFIG_KV_STRING | CONFIG_KV_INT64 | CONFIG_KV_BOOL

datatype kv_union = kv_val int | kv_trueOrFalse bool | kv_string "string option"

record KeyValuePair =
  kv_key :: string
  kv_save :: bool
  kv_type :: ConfigKVType
  kv_u :: kv_union

record config =
  cfg_fileName :: "string option"
  cfg_list :: "KeyValuePair list"

text \<open>The member \<open>str\<close> of the union. Where the union was cleared and another member written, the
  pointer is null or leads nowhere.\<close>

definition kv_str :: "kv_union \<Rightarrow> string option option" where
  "kv_str u = (case u of kv_string s \<Rightarrow> Some s
     | kv_val v \<Rightarrow> if v = 0 then Some None else None
     | kv_trueOrFalse b \<Rightarrow> if b then None else Some None)"

definition config_create :: config where
  "config_create = \<lparr>cfg_fileName = None, cfg_list = []\<rparr>"

fun config_insert :: "KeyValuePair list \<Rightarrow> KeyValuePair \<Rightarrow> KeyValuePair list" where
  "config_insert [] e = [e]"
| "config_insert (i # items) e = (if strcmp_less (kv_key i) (kv_key e) then i # config_insert items e else e # i # items)"

definition config_get :: "config \<Rightarrow> string \<Rightarrow> KeyValuePair option" where
  "config_get cfg key = find (\<lambda>e. strcaseeq (kv_key e) key) (cfg_list cfg)"

text \<open>An assignment through the pointer that \<open>config_get\<close> returned.\<close>

fun update_first :: "(KeyValuePair \<Rightarrow> KeyValuePair) \<Rightarrow> string \<Rightarrow> KeyValuePair list \<Rightarrow> KeyValuePair list" where
  "update_first f key [] = []"
| "update_first f key (e # es) = (if strcaseeq (kv_key e) key then f e # es else e # update_first f key es)"

definition config_update :: "config \<Rightarrow> string \<Rightarrow> (KeyValuePair \<Rightarrow> KeyValuePair) \<Rightarrow> config" where
  "config_update cfg key f = cfg\<lparr>cfg_list := update_first f key (cfg_list cfg)\<rparr>"

section \<open>Setting\<close>

definition fmt_key :: "string \<Rightarrow> string" where
  "fmt_key key = take 1023 key"

text \<open>The three setters: an unknown entry has its string released, another must have the type.\<close>

definition config_setint64 :: "config \<Rightarrow> int \<Rightarrow> string \<Rightarrow> config option" where
  "config_setint64 cfg val key0 = (let key = fmt_key key0 in
     case config_get cfg key of
       Some e \<Rightarrow> do {
         _ \<leftarrow> (if kv_type e = CONFIG_KV_UNKNOWN then map_option (\<lambda>_. ()) (kv_str (kv_u e))
              else ASSERT (kv_type e = CONFIG_KV_INT64));
         Some (config_update cfg key (\<lambda>e. e\<lparr>kv_save := True, kv_u := kv_val val\<rparr>))
       }
     | None \<Rightarrow> Some (cfg\<lparr>cfg_list := config_insert (cfg_list cfg)
         \<lparr>kv_key = key, kv_save = True, kv_type = CONFIG_KV_INT64, kv_u = kv_val val\<rparr>\<rparr>))"

definition config_setbool :: "config \<Rightarrow> bool \<Rightarrow> string \<Rightarrow> config option" where
  "config_setbool cfg s key0 = (let key = fmt_key key0 in
     case config_get cfg key of
       Some e \<Rightarrow> do {
         _ \<leftarrow> (if kv_type e = CONFIG_KV_UNKNOWN then map_option (\<lambda>_. ()) (kv_str (kv_u e))
              else ASSERT (kv_type e = CONFIG_KV_BOOL));
         Some (config_update cfg key (\<lambda>e. e\<lparr>kv_save := True, kv_u := kv_trueOrFalse s\<rparr>))
       }
     | None \<Rightarrow> Some (cfg\<lparr>cfg_list := config_insert (cfg_list cfg)
         \<lparr>kv_key = key, kv_save = True, kv_type = CONFIG_KV_BOOL, kv_u = kv_trueOrFalse s\<rparr>\<rparr>))"

definition config_isset :: "config \<Rightarrow> string \<Rightarrow> bool" where
  "config_isset cfg key \<longleftrightarrow> config_get cfg (fmt_key key) \<noteq> None"

definition config_setstring :: "config \<Rightarrow> string option \<Rightarrow> string \<Rightarrow> config option" where
  "config_setstring cfg str key0 = (let key = fmt_key key0 in
     case config_get cfg key of
       Some e \<Rightarrow> do {
         ASSERT (kv_type e = CONFIG_KV_STRING \<or> kv_type e = CONFIG_KV_UNKNOWN);
         _ \<leftarrow> kv_str (kv_u e);
         Some (config_update cfg key (\<lambda>e. e\<lparr>kv_save := True, kv_u := kv_string str\<rparr>))
       }
     | None \<Rightarrow> Some (cfg\<lparr>cfg_list := config_insert (cfg_list cfg)
         \<lparr>kv_key = key, kv_save = True, kv_type = CONFIG_KV_STRING, kv_u = kv_string str\<rparr>\<rparr>))"

definition config_setunknownkv :: "config \<Rightarrow> string \<Rightarrow> string \<Rightarrow> config" where
  "config_setunknownkv cfg key val = cfg\<lparr>cfg_list := config_insert (cfg_list cfg)
     \<lparr>kv_key = key, kv_save = True, kv_type = CONFIG_KV_UNKNOWN, kv_u = kv_string (Some val)\<rparr>\<rparr>"

section \<open>Getting\<close>

text \<open>A getter converts an unknown entry, and enters the default, not to be saved, for a missing key.\<close>

definition config_getint64 :: "config \<Rightarrow> int \<Rightarrow> string \<Rightarrow> (int \<times> config) option" where
  "config_getint64 cfg defaultValue key0 = (let key = fmt_key key0 in
     case config_get cfg key of
       Some e \<Rightarrow>
         (if kv_type e = CONFIG_KV_UNKNOWN then do {
            s \<leftarrow> kv_str (kv_u e);
            s \<leftarrow> s;
            v \<leftarrow> atoll s;
            Some (v, config_update cfg key (\<lambda>e. e\<lparr>kv_u := kv_val v, kv_type := CONFIG_KV_INT64\<rparr>))
          }
          else case (kv_type e, kv_u e) of (CONFIG_KV_INT64, kv_val v) \<Rightarrow> Some (v, cfg) | _ \<Rightarrow> None)
     | None \<Rightarrow> do {
         cfg \<leftarrow> config_setint64 cfg defaultValue key;
         Some (defaultValue, config_update cfg key (\<lambda>e. e\<lparr>kv_save := False\<rparr>))
       })"

definition config_getbool :: "config \<Rightarrow> bool \<Rightarrow> string \<Rightarrow> (bool \<times> config) option" where
  "config_getbool cfg defaultValue key0 = (let key = fmt_key key0 in
     case config_get cfg key of
       Some e \<Rightarrow>
         (if kv_type e = CONFIG_KV_UNKNOWN then do {
            s \<leftarrow> kv_str (kv_u e);
            s \<leftarrow> s;
            ASSERT (strcaseeq s ''true'' \<or> strcaseeq s ''false'');
            let b = strcaseeq s ''true'';
            Some (b, config_update cfg key (\<lambda>e. e\<lparr>kv_u := kv_trueOrFalse b, kv_type := CONFIG_KV_BOOL\<rparr>))
          }
          else case (kv_type e, kv_u e) of (CONFIG_KV_BOOL, kv_trueOrFalse b) \<Rightarrow> Some (b, cfg) | _ \<Rightarrow> None)
     | None \<Rightarrow> do {
         cfg \<leftarrow> config_setbool cfg defaultValue key;
         Some (defaultValue, config_update cfg key (\<lambda>e. e\<lparr>kv_save := False\<rparr>))
       })"

definition config_getstring :: "config \<Rightarrow> string option \<Rightarrow> string \<Rightarrow> (string option \<times> config) option" where
  "config_getstring cfg defaultStr key0 = (let key = fmt_key key0 in
     case config_get cfg key of
       Some e \<Rightarrow> do {
         ASSERT (kv_type e = CONFIG_KV_UNKNOWN \<or> kv_type e = CONFIG_KV_STRING);
         s \<leftarrow> kv_str (kv_u e);
         Some (s, config_update cfg key (\<lambda>e. e\<lparr>kv_type := CONFIG_KV_STRING\<rparr>))
       }
     | None \<Rightarrow> do {
         cfg \<leftarrow> config_setstring cfg defaultStr key;
         Some (defaultStr, config_update cfg key (\<lambda>e. e\<lparr>kv_save := False\<rparr>))
       })"

section \<open>Reading a file\<close>

text \<open>\<open>fgets\<close> into 1024 bytes: up to 1023 characters, to the end of a line. The copy that
  \<open>strdup\<close> makes ends at a zero character.\<close>

definition file_getline :: "string \<Rightarrow> (string \<times> string) option" where
  "file_getline file = (if file = [] then None
     else let c = take 1023 file; n = length (takeWhile (\<lambda>c. c \<noteq> CHR 0x0A) c) + 1
       in Some (takeWhile (\<lambda>c. c \<noteq> CHR 0x00) (take n c), drop (min n 1023) file))"

definition config_chomp :: "string \<Rightarrow> string option" where
  "config_chomp s = do {
     ASSERT (s \<noteq> []);
     Some (hd s # rev (dropWhile (\<lambda>c. c = CHR '' '') (rev (tl s))))
   }"

text \<open>The text between the quotes: up to the last one after the first character. A value with an opening
  quote only makes the program write through a null pointer.\<close>

definition config_unquote :: "string \<Rightarrow> string option option" where
  "config_unquote v =
     (if v \<noteq> [] \<and> hd v = CHR 0x22 then do {
        let v = tl v;
        ASSERT (CHR 0x22 \<in> set v);
        let l = length v - 1 - length (takeWhile (\<lambda>c. c \<noteq> CHR 0x22) (rev v));
        Some (if l = 0 then None else Some (take l v))
      }
      else Some (Some v))"

text \<open>Success, and the key and the value if the line holds any. An empty line reads outside of it.\<close>

definition config_parseline :: "string \<Rightarrow> (bool \<times> (string \<times> string) option) option" where
  "config_parseline line = do {
     ASSERT (line \<noteq> []);
     let line = (if last line = CHR 0x0A \<or> last line = CHR 0x0D then butlast line else line);
     let ptr = dropWhile (\<lambda>c. c = CHR '' '') line;
     if ptr = [] \<or> hd ptr = CHR 0x0A then Some (True, None)
     else if hd ptr = CHR ''#'' then Some (True, None)
     else do {
       let k = takeWhile (\<lambda>c. c \<noteq> CHR ''='') ptr;
       let v = takeWhile (\<lambda>c. c \<noteq> CHR 0x0A) (drop (length k + 1) ptr);
       if k = [] \<or> v = [] then Some (False, None)
       else do {
         k \<leftarrow> config_chomp k;
         v \<leftarrow> config_chomp v;
         u \<leftarrow> config_unquote (dropWhile (\<lambda>c. c = CHR '' '') v);
         Some (case u of None \<Rightarrow> (False, None) | Some v \<Rightarrow> (True, Some (k, v)))
       }
     }
   }"

text \<open>The loop of \<open>config_load\<close>; the inner \<^const>\<open>None\<close> is the error exit.\<close>

lemma file_getline_shorter: "file_getline file = Some (line, rest) \<Longrightarrow> length rest < length file"
  by (auto simp: file_getline_def Let_def split: if_splits)

function load_lines :: "string \<Rightarrow> config \<Rightarrow> config option option" where
  "load_lines file cfg = (case file_getline file of None \<Rightarrow> Some (Some cfg)
     | Some (line, rest) \<Rightarrow> do {
         (s, kv) \<leftarrow> config_parseline line;
         if \<not> s then Some None
         else load_lines rest (case kv of None \<Rightarrow> cfg | Some (k, v) \<Rightarrow> config_setunknownkv cfg k v)
       })"
  by auto
termination by (relation "measure (length \<circ> fst)") (auto simp: file_getline_shorter)

declare load_lines.simps [simp del]

text \<open>The code and the configuration; \<open>file\<close> is the content, \<^const>\<open>None\<close> when it cannot be opened.\<close>

definition config_load :: "string \<Rightarrow> string option \<Rightarrow> (bool \<times> config option) option" where
  "config_load fileName file = (case file of None \<Rightarrow> Some (True, None)
     | Some file \<Rightarrow> do {
         r \<leftarrow> load_lines file (config_create\<lparr>cfg_fileName := Some fileName\<rparr>);
         Some (case r of None \<Rightarrow> (True, None) | Some cfg \<Rightarrow> (False, Some cfg))
       })"

section \<open>Writing a file\<close>

definition quoted :: "string \<Rightarrow> string \<Rightarrow> string" where
  "quoted key s = key @ '' = '' @ [CHR 0x22] @ s @ [CHR 0x22, CHR 0x0A]"

definition entry_line :: "KeyValuePair \<Rightarrow> string option option" where
  "entry_line e = (case kv_type e of
       CONFIG_KV_INT64 \<Rightarrow> (case kv_u e of kv_val v \<Rightarrow> Some (Some (quoted (kv_key e) (print_int v))) | _ \<Rightarrow> None)
     | CONFIG_KV_BOOL \<Rightarrow> (case kv_u e of kv_trueOrFalse b \<Rightarrow> Some (Some (quoted (kv_key e) (if b then ''TRUE'' else ''FALSE''))) | _ \<Rightarrow> None)
     | _ \<Rightarrow> map_option (map_option (quoted (kv_key e))) (kv_str (kv_u e)))"

text \<open>\<open>pw i\<close> is the outcome of the \<open>i\<close>-th call of \<open>file_pwrite\<close>: whether it failed, and how many
  bytes it wrote. Result: the code and the content of the file. A short write ends the loop with the
  code of a success.\<close>

fun write_entries :: "(nat \<Rightarrow> bool \<times> nat) \<Rightarrow> nat \<Rightarrow> KeyValuePair list \<Rightarrow> string \<Rightarrow> (bool \<times> string) option" where
  "write_entries pw i [] file = Some (False, file)"
| "write_entries pw i (e # es) file =
     (if \<not> kv_save e then write_entries pw i es file
      else do {
        l \<leftarrow> entry_line e;
        case l of None \<Rightarrow> write_entries pw i es file
        | Some s \<Rightarrow>
            (let res = fst (pw i); numBytes = min (snd (pw i)) (length s)
             in if res then Some (True, file)
                else if numBytes \<noteq> length s then Some (False, file @ take numBytes s)
                else write_entries pw (Suc i) es (file @ s))
      })"

text \<open>\<open>opened\<close> and \<open>truncated\<close> are the successes of the first two calls. The file is known only when it
  could be truncated.\<close>

definition config_write ::
  "bool \<Rightarrow> bool \<Rightarrow> (nat \<Rightarrow> bool \<times> nat) \<Rightarrow> config \<Rightarrow> string option \<Rightarrow> (bool \<times> string option \<times> config) option" where
  "config_write opened truncated pw conf filename = do {
     ASSERT (filename \<noteq> None \<or> cfg_fileName conf \<noteq> None);
     let conf = (if filename = None then conf else conf\<lparr>cfg_fileName := filename\<rparr>);
     if \<not> opened \<or> \<not> truncated then Some (True, None, conf)
     else do {
       (res, file) \<leftarrow> write_entries pw 0 (cfg_list conf) [];
       Some (res, Some file, conf)
     }
   }"

definition config_save :: "bool \<Rightarrow> bool \<Rightarrow> (nat \<Rightarrow> bool \<times> nat) \<Rightarrow> config \<Rightarrow> (bool \<times> string option \<times> config) option" where
  "config_save opened truncated pw conf = config_write opened truncated pw conf None"

text \<open>The strings that \<open>config_free\<close> releases.\<close>

definition config_freekvlist :: "KeyValuePair list \<Rightarrow> string option list option" where
  "config_freekvlist es = those (map (\<lambda>e. kv_str (kv_u e))
     (filter (\<lambda>e. kv_type e = CONFIG_KV_UNKNOWN \<or> kv_type e = CONFIG_KV_STRING) es))"

definition config_free :: "config option \<Rightarrow> string option list option" where
  "config_free conf = (case conf of None \<Rightarrow> Some [] | Some conf \<Rightarrow> config_freekvlist (cfg_list conf))"

section \<open>Numbers\<close>

lemma digit_char: "n < 10 \<Longrightarrow> (of_char (char_of (48 + n :: nat) :: char) :: nat) = 48 + n"
  by simp

lemma is_digit_of: "n < 10 \<Longrightarrow> is_digit (char_of (48 + n :: nat))"
  by (simp add: is_digit_def less_eq_char_def digit_char)

lemma digits_value_snoc [simp]: "digits_value (s @ [c]) = 10 * digits_value s + (of_char c - 48)" "digits_value [] = 0"
  "digits_value [c] = of_char c - 48"
  by (simp_all add: digits_value_def)

lemma print_nat_value: "digits_value (print_nat n) = n \<and> list_all is_digit (print_nat n) \<and> print_nat n \<noteq> []"
proof (induction n rule: print_nat.induct)
  case (1 n)
  show ?case
    using 1 by (cases "n < 10") (simp_all add: print_nat.simps [of n] digit_char is_digit_of)
qed

lemma digit_plain: "is_digit c \<Longrightarrow> \<not> isspace c \<and> c \<noteq> CHR ''-'' \<and> c \<noteq> CHR ''+'' \<and> c \<noteq> CHR 0x0A \<and> c \<noteq> CHR 0x00"
  by (auto simp: is_digit_def isspace_def less_eq_char_def)

lemma takeWhile_digits: "list_all is_digit s \<Longrightarrow> takeWhile is_digit s = s"
  by (auto simp: list_all_iff takeWhile_eq_all_conv)

lemma atoll_print:
  assumes "- (2 ^ 63) \<le> v" and "v < 2 ^ 63"
  shows "atoll (print_int v) = Some v"
proof (cases "v < 0")
  case True
  have *: "digits_value (print_nat (nat (- v))) = nat (- v)" "takeWhile is_digit (print_nat (nat (- v))) = print_nat (nat (- v))"
    using print_nat_value [of "nat (- v)"] takeWhile_digits by blast+
  have "\<not> isspace (CHR ''-'')" by (simp add: isspace_def less_eq_char_def)
  then show ?thesis using True assms by (simp add: atoll_def print_int_def Let_def *)
next
  case False
  have *: "digits_value (print_nat (nat v)) = nat v" "takeWhile is_digit (print_nat (nat v)) = print_nat (nat v)"
    "list_all is_digit (print_nat (nat v))" "print_nat (nat v) \<noteq> []"
    using print_nat_value [of "nat v"] takeWhile_digits by blast+
  then obtain c t where ct: "print_nat (nat v) = c # t" "is_digit c" by (cases "print_nat (nat v)") auto
  then have "dropWhile isspace (print_nat (nat v)) = print_nat (nat v)" "c \<noteq> CHR ''-''" "c \<noteq> CHR ''+''"
    using digit_plain by auto
  moreover have tt: "takeWhile is_digit t = t" using *(3) ct by (intro takeWhile_digits) simp
  ultimately show ?thesis using False *(1) ct assms by (simp add: atoll_def print_int_def Let_def tt)
qed

section \<open>What can be written and read back\<close>

definition plain :: "string \<Rightarrow> bool" where
  "plain s \<longleftrightarrow> CHR 0x0A \<notin> set s \<and> CHR 0x00 \<notin> set s"

definition good_key :: "string \<Rightarrow> bool" where
  "good_key k \<longleftrightarrow> k \<noteq> [] \<and> plain k \<and> CHR ''='' \<notin> set k \<and> hd k \<noteq> CHR '' '' \<and> hd k \<noteq> CHR ''#'' \<and> last k \<noteq> CHR '' ''"

definition kv_text :: "KeyValuePair \<Rightarrow> string" where
  "kv_text e = (case kv_u e of kv_val v \<Rightarrow> print_int v | kv_trueOrFalse b \<Rightarrow> (if b then ''TRUE'' else ''FALSE'')
     | kv_string s \<Rightarrow> (case s of None \<Rightarrow> [] | Some s \<Rightarrow> s))"

definition well_typed :: "KeyValuePair \<Rightarrow> bool" where
  "well_typed e \<longleftrightarrow> (case kv_u e of kv_val v \<Rightarrow> kv_type e = CONFIG_KV_INT64 \<and> - (2 ^ 63) \<le> v \<and> v < 2 ^ 63
     | kv_trueOrFalse b \<Rightarrow> kv_type e = CONFIG_KV_BOOL
     | kv_string s \<Rightarrow> kv_type e \<in> {CONFIG_KV_STRING, CONFIG_KV_UNKNOWN} \<and> s \<noteq> None)"

definition printable :: "KeyValuePair \<Rightarrow> bool" where
  "printable e \<longleftrightarrow> well_typed e \<and> good_key (kv_key e) \<and> plain (kv_text e) \<and> length (kv_key e) + length (kv_text e) \<le> 1017"

lemma entry_line_text: "well_typed e \<Longrightarrow> entry_line e = Some (Some (quoted (kv_key e) (kv_text e)))"
  by (auto simp: well_typed_def entry_line_def kv_text_def kv_str_def split: kv_union.splits ConfigKVType.splits)

lemma getline_quoted:
  assumes "good_key k" and "plain s" and "length k + length s \<le> 1017"
  shows "file_getline (quoted k s @ rest) = Some (quoted k s, rest)"
proof -
  define b where "b = k @ '' = '' @ [CHR 0x22] @ s @ [CHR 0x22]"
  have q: "quoted k s = b @ [CHR 0x0A]" by (simp add: quoted_def b_def)
  have p: "CHR 0x0A \<notin> set b" "CHR 0x00 \<notin> set b" using assms(1,2) by (auto simp: b_def good_key_def plain_def)
  have l: "length b \<le> 1022" using assms(3) by (simp add: b_def)
  have t: "takeWhile (\<lambda>c. c \<noteq> CHR 0x0A) (take 1023 (b @ [CHR 0x0A] @ rest)) = b"
  proof -
    have "take 1023 (b @ [CHR 0x0A] @ rest) = b @ CHR 0x0A # take (1022 - length b) rest"
      using l by (simp add: take_Cons' Suc_diff_le [symmetric])
    then show ?thesis using p by (auto simp: takeWhile_append)
  qed
  have n: "takeWhile (\<lambda>c. c \<noteq> CHR 0x00) (b @ [CHR 0x0A]) = b @ [CHR 0x0A]"
    using p by (auto simp: takeWhile_eq_all_conv)
  have k: "take (length b + 1) (take 1023 (b @ [CHR 0x0A] @ rest)) = b @ [CHR 0x0A]"
    "drop (min (length b + 1) 1023) (b @ [CHR 0x0A] @ rest) = rest"
    using l by (simp_all add: min_def)
  show ?thesis unfolding file_getline_def Let_def q append_assoc t k n by simp
qed

lemma chomp_ends: "s \<noteq> [] \<Longrightarrow> last s \<noteq> CHR '' '' \<Longrightarrow> config_chomp s = Some s"
  by (cases s; cases "tl s" rule: rev_cases) (auto simp: config_chomp_def)

lemma chomp_space: "s \<noteq> [] \<Longrightarrow> last s \<noteq> CHR '' '' \<Longrightarrow> config_chomp (s @ [CHR '' '']) = Some s"
  by (cases s; cases "tl s" rule: rev_cases) (auto simp: config_chomp_def)

lemma parseline_quoted:
  assumes "good_key k" and "plain s"
  shows "config_parseline (quoted k s) = Some (if s = [] then (False, None) else (True, Some (k, s)))"
proof -
  let ?v = "CHR '' '' # CHR 0x22 # s @ [CHR 0x22]"
  have k: "k \<noteq> []" "CHR ''='' \<notin> set k" "hd k \<noteq> CHR '' ''" "hd k \<noteq> CHR ''#''" "hd k \<noteq> CHR 0x0A" "last k \<noteq> CHR '' ''"
    using assms(1) by (auto simp: good_key_def plain_def) (metis list.set_sel(1))
  define ptr where "ptr = k @ '' ='' @ ?v"
  have bl: "butlast (quoted k s) = ptr" "last (quoted k s) = CHR 0x0A" "quoted k s \<noteq> []"
    by (simp_all add: quoted_def ptr_def butlast_append)
  have dw: "dropWhile (\<lambda>c. c = CHR '' '') ptr = ptr" using k by (cases k) (auto simp: ptr_def)
  have tw: "takeWhile (\<lambda>c. c \<noteq> CHR ''='') ptr = k @ '' ''" using k by (auto simp: ptr_def takeWhile_append)
  have tv: "takeWhile (\<lambda>c. c \<noteq> CHR 0x0A) ?v = ?v" using assms(2) by (auto simp: plain_def takeWhile_eq_all_conv)
  have ck: "config_chomp (k @ '' '') = Some k" using k by (intro chomp_space) auto
  have cv: "config_chomp ?v = Some ?v" by (intro chomp_ends) auto
  have u: "config_unquote (CHR 0x22 # s @ [CHR 0x22]) = Some (if s = [] then None else Some s)"
    by (simp add: config_unquote_def)
  have dv: "drop (length (k @ '' '') + 1) ptr = ?v" by (simp add: ptr_def)
  have hp: "hd ptr = hd k" "ptr \<noteq> []" using k by (simp_all add: ptr_def)
  have dq: "dropWhile (\<lambda>c. c = CHR '' '') ?v = CHR 0x22 # s @ [CHR 0x22]" by simp
  have ne: "k @ '' '' \<noteq> []" "?v \<noteq> []" by simp_all
  show ?thesis
    unfolding config_parseline_def Let_def bl if_True simp_thms dw tw dv tv
    by (simp only: ASSERT_bind bl(3) not_False_eq_True if_True hp k(4,5) ne if_False disj_not1 simp_thms ck cv dq u bind.bind_lunit) simp
qed


section \<open>Files\<close>

definition sorted_keys :: "KeyValuePair list \<Rightarrow> bool" where
  "sorted_keys es \<longleftrightarrow> sorted_wrt (\<lambda>a b. strcmp_less (kv_key a) (kv_key b)) es"

definition reloaded :: "KeyValuePair \<Rightarrow> KeyValuePair" where
  "reloaded e = \<lparr>kv_key = kv_key e, kv_save = True, kv_type = CONFIG_KV_UNKNOWN, kv_u = kv_string (Some (kv_text e))\<rparr>"

abbreviation all_written :: "nat \<Rightarrow> bool \<times> nat" where
  "all_written \<equiv> \<lambda>i. (False, 1024)"

lemma strcmp_less_irrefl [simp]: "\<not> strcmp_less s s"
  by (induction s) auto

lemma strcmp_less_trans: "strcmp_less s t \<Longrightarrow> strcmp_less t u \<Longrightarrow> strcmp_less s u"
proof (induction s t arbitrary: u rule: strcmp_less.induct)
  case (2 d t)
  then show ?case by (cases u) auto
next
  case (3 c s d t)
  then show ?case by (cases u) auto
qed simp

lemma insert_last: "(\<forall>i \<in> set items. strcmp_less (kv_key i) (kv_key e)) \<Longrightarrow> config_insert items e = items @ [e]"
  by (induction items) auto

definition file_of :: "KeyValuePair list \<Rightarrow> string" where
  "file_of es = concat (map (\<lambda>e. quoted (kv_key e) (kv_text e)) (filter kv_save es))"

lemma write_ok:
  assumes "\<And>e. e \<in> set es \<Longrightarrow> kv_save e \<Longrightarrow> well_typed e \<and> length (kv_key e) + length (kv_text e) \<le> 1017"
  shows "write_entries all_written i es out = Some (False, out @ file_of es)"
  using assms
proof (induction es arbitrary: i out)
  case (Cons e es)
  show ?case
  proof (cases "kv_save e")
    case True
    then have "entry_line e = Some (Some (quoted (kv_key e) (kv_text e)))" "length (quoted (kv_key e) (kv_text e)) \<le> 1024"
      using Cons.prems [of e] by (simp_all add: entry_line_text quoted_def)
    then show ?thesis using True Cons by (simp add: Let_def min_def file_of_def)
  next
    case False
    then show ?thesis using Cons by (simp add: file_of_def)
  qed
qed (simp add: file_of_def)

lemma load_ok:
  assumes "list_all (\<lambda>e. printable e \<and> kv_text e \<noteq> [] \<and> kv_save e) es" and "sorted_keys (cfg_list cfg @ es)"
  shows "load_lines (file_of es @ rest) cfg = load_lines rest (cfg\<lparr>cfg_list := cfg_list cfg @ map reloaded es\<rparr>)"
  using assms
proof (induction es arbitrary: cfg)
  case Nil
  then show ?case by (simp add: file_of_def)
next
  case (Cons e es)
  let ?q = "quoted (kv_key e) (kv_text e)"
  have e: "good_key (kv_key e)" "plain (kv_text e)" "length (kv_key e) + length (kv_text e) \<le> 1017" "kv_text e \<noteq> []" "kv_save e"
    using Cons.prems(1) by (simp_all add: printable_def)
  have f: "file_of (e # es) @ rest = ?q @ (file_of es @ rest)" using e(5) by (simp add: file_of_def)
  have ins: "config_insert (cfg_list cfg) (reloaded e) = cfg_list cfg @ [reloaded e]"
    using Cons.prems(2) by (intro insert_last) (auto simp: sorted_keys_def sorted_wrt_append reloaded_def)
  have srt: "sorted_keys ((cfg_list cfg @ [reloaded e]) @ es)"
    using Cons.prems(2) by (auto simp: sorted_keys_def sorted_wrt_append reloaded_def)
  have "load_lines (?q @ (file_of es @ rest)) cfg = load_lines (file_of es @ rest) (config_setunknownkv cfg (kv_key e) (kv_text e))"
    using getline_quoted [OF e(1-3)] parseline_quoted [OF e(1,2)] e(4)
    by (subst load_lines.simps) simp
  also have "config_setunknownkv cfg (kv_key e) (kv_text e) = cfg\<lparr>cfg_list := cfg_list cfg @ [reloaded e]\<rparr>"
    using ins by (simp add: config_setunknownkv_def reloaded_def)
  finally show ?case
    using Cons.IH [of "cfg\<lparr>cfg_list := cfg_list cfg @ [reloaded e]\<rparr>"] Cons.prems(1) srt by (simp add: f)
qed

section \<open>Reading settings back\<close>

text \<open>A getter of the entry's type returns the entry's value.\<close>

definition reads_back :: "config \<Rightarrow> KeyValuePair \<Rightarrow> bool" where
  "reads_back cfg e \<longleftrightarrow> (case kv_u e of
       kv_val v \<Rightarrow> \<forall>d. map_option fst (config_getint64 cfg d (kv_key e)) = Some v
     | kv_trueOrFalse b \<Rightarrow> \<forall>d. map_option fst (config_getbool cfg d (kv_key e)) = Some b
     | kv_string s \<Rightarrow> \<forall>d. map_option fst (config_getstring cfg d (kv_key e)) = Some s)"

definition distinct_keys :: "KeyValuePair list \<Rightarrow> bool" where
  "distinct_keys es \<longleftrightarrow> distinct (map (\<lambda>e. map tolower (kv_key e)) es)"

lemma config_get_reloaded:
  assumes "distinct_keys es" and "e \<in> set es" and "cfg_list cfg = map reloaded es"
  shows "config_get cfg (kv_key e) = Some (reloaded e)"
  using assms(1,2) unfolding config_get_def assms(3)
  by (induction es) (auto simp: distinct_keys_def strcaseeq_def reloaded_def)

lemma reloaded_reads_back:
  assumes "distinct_keys es" and "e \<in> set es" and "cfg_list cfg = map reloaded es" and "printable e"
  shows "reads_back cfg e"
proof -
  have k: "fmt_key (kv_key e) = kv_key e" using assms(4) by (simp add: printable_def fmt_key_def)
  note get = config_get_reloaded [OF assms(1-3)]
  show ?thesis
  proof (cases "kv_u e")
    case (kv_val v)
    then show ?thesis using assms(4) get k
      by (simp add: reads_back_def config_getint64_def reloaded_def kv_text_def kv_str_def printable_def well_typed_def atoll_print)
  next
    case (kv_trueOrFalse b)
    have "strcaseeq ''TRUE'' ''true''" "strcaseeq ''FALSE'' ''false''" "\<not> strcaseeq ''FALSE'' ''true''"
      by code_simp+
    then show ?thesis using assms(4) get k kv_trueOrFalse
      by (simp add: reads_back_def config_getbool_def reloaded_def kv_text_def kv_str_def)
  next
    case (kv_string s)
    then show ?thesis using assms(4) get k
      by (auto simp: reads_back_def config_getstring_def reloaded_def kv_text_def kv_str_def printable_def well_typed_def)
  qed
qed

text \<open>The list of a configuration whose keys are sorted and distinct up to their case.\<close>

lemma config_reloads:
  assumes "sorted_keys (cfg_list cfg)" and "distinct_keys (filter kv_save (cfg_list cfg))"
    and "\<And>e. e \<in> set (cfg_list cfg) \<Longrightarrow> kv_save e \<Longrightarrow> printable e \<and> kv_text e \<noteq> []"
  shows "\<exists>file cfg' cfg''. config_write True True all_written cfg (Some name) = Some (False, Some file, cfg') \<and>
    config_load name (Some file) = Some (False, Some cfg'') \<and> cfg_list cfg'' = map reloaded (filter kv_save (cfg_list cfg)) \<and>
    (\<forall>e \<in> set (cfg_list cfg). kv_save e \<longrightarrow> reads_back cfg'' e)"
proof -
  let ?es = "filter kv_save (cfg_list cfg)" and ?c = "config_create\<lparr>cfg_fileName := Some name\<rparr>"
  let ?cfg = "?c\<lparr>cfg_list := map reloaded ?es\<rparr>"
  have "write_entries all_written 0 (cfg_list cfg) [] = Some (False, file_of ?es)"
    using write_ok [of "cfg_list cfg" 0 "[]"] assms(3) by (simp add: printable_def file_of_def)
  then have w: "config_write True True all_written cfg (Some name) = Some (False, Some (file_of ?es), cfg\<lparr>cfg_fileName := Some name\<rparr>)"
    by (simp add: config_write_def)
  have "sorted_keys ([] @ ?es)" using assms(1) by (simp add: sorted_keys_def sorted_wrt_filter)
  then have "load_lines (file_of ?es @ []) ?c = load_lines [] ?cfg"
    using load_ok [of ?es ?c "[]"] assms(3) by (simp add: list_all_iff config_create_def)
  then have "config_load name (Some (file_of ?es)) = Some (False, Some ?cfg)"
    by (simp add: config_load_def load_lines.simps [of "[]"] file_getline_def)
  moreover have "reads_back ?cfg e" if "e \<in> set (cfg_list cfg)" "kv_save e" for e
    using that assms(2,3) by (intro reloaded_reads_back [of ?es]) auto
  moreover have "cfg_list ?cfg = map reloaded ?es" by simp
  ultimately show ?thesis using w by blast
qed

section \<open>A sequence of settings\<close>

text \<open>What a program does to a configuration that it saves.\<close>

datatype setting = Set_int64 int string | Set_bool bool string | Set_string "string option" string

fun run_setting :: "setting \<Rightarrow> config \<Rightarrow> config option" where
  "run_setting (Set_int64 v key) cfg = config_setint64 cfg v key"
| "run_setting (Set_bool b key) cfg = config_setbool cfg b key"
| "run_setting (Set_string s key) cfg = config_setstring cfg s key"

fun set_key :: "setting \<Rightarrow> string" where
  "set_key (Set_int64 v key) = key"
| "set_key (Set_bool b key) = key"
| "set_key (Set_string s key) = key"

fun set_value :: "setting \<Rightarrow> kv_union" where
  "set_value (Set_int64 v key) = kv_val v"
| "set_value (Set_bool b key) = kv_trueOrFalse b"
| "set_value (Set_string s key) = kv_string s"

fun set_type :: "setting \<Rightarrow> ConfigKVType" where
  "set_type (Set_int64 v key) = CONFIG_KV_INT64"
| "set_type (Set_bool b key) = CONFIG_KV_BOOL"
| "set_type (Set_string s key) = CONFIG_KV_STRING"

text \<open>The getter of the setting's type, whatever the default, returns its value.\<close>

fun reads :: "config \<Rightarrow> setting \<Rightarrow> bool" where
  "reads cfg (Set_int64 v key) = (\<forall>d. map_option fst (config_getint64 cfg d key) = Some v)"
| "reads cfg (Set_bool b key) = (\<forall>d. map_option fst (config_getbool cfg d key) = Some b)"
| "reads cfg (Set_string s key) = (\<forall>d. map_option fst (config_getstring cfg d key) = Some s)"

text \<open>A setting fits in a line of the file: the key starts a line and holds no equals sign, the text is on one line and not empty.\<close>

definition fits :: "setting \<Rightarrow> bool" where
  "fits op \<longleftrightarrow> (let e = \<lparr>kv_key = set_key op, kv_save = True, kv_type = set_type op, kv_u = set_value op\<rparr> in printable e \<and> kv_text e \<noteq> [])"

definition tidy :: "config \<Rightarrow> bool" where
  "tidy cfg \<longleftrightarrow> sorted_keys (cfg_list cfg) \<and> distinct_keys (cfg_list cfg) \<and>
     (\<forall>e \<in> set (cfg_list cfg). kv_save e \<and> printable e \<and> kv_text e \<noteq> [] \<and> kv_type e \<noteq> CONFIG_KV_UNKNOWN)"

lemma strcmp_less_total: "strcmp_less s t \<or> s = t \<or> strcmp_less t s"
proof (induction s t rule: strcmp_less.induct)
  case (1 s)
  then show ?case by (cases s) simp_all
qed auto

lemma insert_set: "set (config_insert es e) = insert e (set es)"
  by (induction es) auto

lemma insert_sorted: "sorted_keys es \<Longrightarrow> kv_key e \<notin> kv_key ` set es \<Longrightarrow> sorted_keys (config_insert es e)"
proof (induction es)
  case (Cons i es)
  show ?case
  proof (cases "strcmp_less (kv_key i) (kv_key e)")
    case True
    then show ?thesis using Cons by (auto simp: sorted_keys_def insert_set)
  next
    case False
    then have "strcmp_less (kv_key e) (kv_key i)" using Cons.prems(2) strcmp_less_total [of "kv_key i" "kv_key e"] by auto
    then show ?thesis using Cons.prems False strcmp_less_trans by (auto simp: sorted_keys_def)
  qed
qed (simp add: sorted_keys_def)

lemma insert_distinct:
  assumes "distinct_keys es" and "\<forall>i \<in> set es. \<not> strcaseeq (kv_key i) (kv_key e)"
  shows "distinct_keys (config_insert es e)"
  using assms by (induction es) (auto simp: distinct_keys_def strcaseeq_def insert_set)

lemma update_keys: "(\<And>e. kv_key (f e) = kv_key e) \<Longrightarrow> map kv_key (update_first f key es) = map kv_key es"
  by (induction es) auto

lemma update_props:
  assumes "\<And>e. kv_key (f e) = kv_key e"
  shows "sorted_keys (update_first f key es) = sorted_keys es" "distinct_keys (update_first f key es) = distinct_keys es"
  using update_keys [of f key es, OF assms]
proof -
  have s: "sorted_keys xs = sorted_wrt strcmp_less (map kv_key xs)" "distinct_keys xs = distinct (map (map tolower) (map kv_key xs))" for xs
    by (simp_all add: sorted_keys_def distinct_keys_def sorted_wrt_map comp_def)
  show "sorted_keys (update_first f key es) = sorted_keys es" "distinct_keys (update_first f key es) = distinct_keys es"
    unfolding s update_keys [of f key es, OF assms] by simp_all
qed

lemma update_set: "e' \<in> set (update_first f key es) \<Longrightarrow> e' \<in> set es \<or> (\<exists>e. find (\<lambda>e. strcaseeq (kv_key e) key) es = Some e \<and> e' = f e)"
  by (induction es) (auto split: if_splits)

lemma find_update:
  assumes "\<And>e. kv_key (f e) = kv_key e"
  shows "find (\<lambda>e. strcaseeq (kv_key e) k) (update_first f key es) =
    (if strcaseeq k key then map_option f (find (\<lambda>e. strcaseeq (kv_key e) k) es) else find (\<lambda>e. strcaseeq (kv_key e) k) es)"
  using assms by (induction es) (auto simp: strcaseeq_def)

lemma find_insert:
  assumes "\<forall>i \<in> set es. \<not> strcaseeq (kv_key i) (kv_key e)"
  shows "find (\<lambda>e. strcaseeq (kv_key e) k) (config_insert es e) =
    (if strcaseeq k (kv_key e) then Some e else find (\<lambda>e. strcaseeq (kv_key e) k) es)"
  using assms by (induction es) (auto simp: strcaseeq_def)

text \<open>One setting: the entry of its key, whatever its case, has the value, and the others are as before.\<close>

lemma setting_ok:
  assumes t: "tidy cfg" and f: "fits op" and r: "run_setting op cfg = Some cfg'"
  shows "tidy cfg' \<and> (\<exists>e. config_get cfg' (set_key op) = Some e \<and> kv_u e = set_value op) \<and>
    (\<forall>k. \<not> strcaseeq k (set_key op) \<longrightarrow> config_get cfg' k = config_get cfg k)"
proof -
  let ?k = "set_key op" and ?e = "\<lparr>kv_key = set_key op, kv_save = True, kv_type = set_type op, kv_u = set_value op\<rparr>"
  let ?f = "\<lambda>e. e\<lparr>kv_save := True, kv_u := set_value op\<rparr>"
  have p: "printable ?e" "kv_text ?e \<noteq> []" using f by (simp_all add: fits_def Let_def)
  then have k: "fmt_key ?k = ?k" by (simp add: printable_def fmt_key_def)
  have c: "config_get cfg ?k = None \<and> cfg' = cfg\<lparr>cfg_list := config_insert (cfg_list cfg) ?e\<rparr> \<or>
    (\<exists>e. config_get cfg ?k = Some e \<and> kv_type e \<in> {set_type op, CONFIG_KV_UNKNOWN} \<and> cfg' = config_update cfg ?k ?f)"
    using r k by (cases op) (auto simp: config_setint64_def config_setbool_def config_setstring_def Let_def split: option.splits bind_splits if_splits)
  then show ?thesis
  proof (elim disjE exE conjE)
    assume n: "config_get cfg ?k = None" and cfg': "cfg' = cfg\<lparr>cfg_list := config_insert (cfg_list cfg) ?e\<rparr>"
    have new: "\<forall>i \<in> set (cfg_list cfg). \<not> strcaseeq (kv_key i) ?k" using n by (auto simp: config_get_def find_None_iff)
    then have "?k \<notin> kv_key ` set (cfg_list cfg)" by (auto simp: strcaseeq_def)
    then have "tidy cfg'" using t p new insert_sorted [of "cfg_list cfg" ?e] insert_distinct [of "cfg_list cfg" ?e]
      by (cases op) (auto simp: tidy_def cfg' insert_set)
    then show ?thesis using new find_insert [of "cfg_list cfg" ?e] by (simp add: config_get_def cfg' strcaseeq_def)
  next
    fix e
    assume e: "config_get cfg ?k = Some e" "kv_type e \<in> {set_type op, CONFIG_KV_UNKNOWN}" and cfg': "cfg' = config_update cfg ?k ?f"
    have em: "e \<in> set (cfg_list cfg)" "strcaseeq (kv_key e) ?k" using e(1) by (auto simp: config_get_def find_Some_iff)
    then have te: "printable e" "kv_type e = set_type op" using t e(2) by (auto simp: tidy_def)
    have l: "length (kv_key e) = length ?k" using em(2) by (auto simp: strcaseeq_def dest: map_eq_imp_length_eq)
    have "printable (?f e) \<and> kv_text (?f e) \<noteq> []"
      using p te l by (cases op) (auto simp: printable_def well_typed_def kv_text_def)
    then have "tidy cfg'" using t e(1) te(2)
      by (cases op) (auto simp: tidy_def cfg' config_update_def update_props config_get_def dest!: update_set)
    then show ?thesis using e(1) find_update [of ?f] by (simp add: config_get_def cfg' config_update_def strcaseeq_def)
  qed
qed

lemma settings_ok:
  assumes "tidy cfg" and "list_all fits ops" and "run_steps run_setting ops cfg = Some cfg'"
  shows "tidy cfg' \<and> (\<forall>k. (\<forall>op \<in> set ops. \<not> strcaseeq k (set_key op)) \<longrightarrow> config_get cfg' k = config_get cfg k) \<and>
    (\<forall>ops1 op ops2. ops = ops1 @ op # ops2 \<and> (\<forall>op' \<in> set ops2. \<not> strcaseeq (set_key op) (set_key op')) \<longrightarrow>
      (\<exists>e. config_get cfg' (set_key op) = Some e \<and> kv_u e = set_value op))"
  using assms
proof (induction ops arbitrary: cfg)
  case (Cons o1 ops)
  obtain cfg1 where r: "run_setting o1 cfg = Some cfg1" "run_steps run_setting ops cfg1 = Some cfg'"
    using Cons.prems(3) by (auto split: bind_splits)
  note s = setting_ok [OF Cons.prems(1) _ r(1)]
  have f: "fits o1" "list_all fits ops" using Cons.prems(2) by simp_all
  note ih = Cons.IH [OF conjunct1 [OF s] f(2) r(2)]
  show ?case
  proof (intro conjI allI impI)
    show "tidy cfg'" using ih f(1) by blast
    show "config_get cfg' k = config_get cfg k" if "\<forall>op \<in> set (o1 # ops). \<not> strcaseeq k (set_key op)" for k
      using ih s f(1) that by simp
    show "\<exists>e. config_get cfg' (set_key op) = Some e \<and> kv_u e = set_value op"
      if a: "o1 # ops = ops1 @ op # ops2 \<and> (\<forall>op' \<in> set ops2. \<not> strcaseeq (set_key op) (set_key op'))" for ops1 op ops2
    proof (cases ops1)
      case Nil
      then show ?thesis using a ih s f(1) by simp
    next
      case (Cons x xs)
      then have "ops = xs @ op # ops2" using a by simp
      then show ?thesis using a ih f(1) by blast
    qed
  qed
qed auto


lemma reads_same:
  assumes g: "config_get cfg k = config_get cfg k'" "config_get cfg k \<noteq> None" and k: "fmt_key k = k" "fmt_key k' = k'"
  shows "map_option fst (config_getint64 cfg d k) = map_option fst (config_getint64 cfg d k')"
    "map_option fst (config_getbool cfg b k) = map_option fst (config_getbool cfg b k')"
    "map_option fst (config_getstring cfg s k) = map_option fst (config_getstring cfg s k')"
  using assms by (auto simp: config_getint64_def config_getbool_def config_getstring_def Let_def option.map_comp comp_def case_prod_unfold
      intro!: option.map_cong split: option.splits if_splits bind_splits kv_union.splits ConfigKVType.splits)

text \<open>C20: settings that are made one after another on a new configuration, with keys that can start a line of the file, and texts
  that are not empty and fit in it, survive a complete \<open>config_write\<close> and a \<open>config_load\<close>: whatever the default, the getter of the type
  returns what was set last for a key, the case of which does not matter.\<close>

theorem config_roundtrip:
  assumes "list_all fits ops" and "run_steps run_setting ops config_create = Some cfg"
  shows "\<exists>file cfg' cfg''. config_write True True all_written cfg (Some name) = Some (False, Some file, cfg') \<and>
    config_load name (Some file) = Some (False, Some cfg'') \<and>
    (\<forall>ops1 op ops2. ops = ops1 @ op # ops2 \<and> (\<forall>op' \<in> set ops2. \<not> strcaseeq (set_key op) (set_key op')) \<longrightarrow> reads cfg'' op)"
proof -
  have "tidy config_create" by (simp add: tidy_def config_create_def sorted_keys_def distinct_keys_def)
  note s = settings_ok [OF this assms]
  then have t: "sorted_keys (cfg_list cfg)" "distinct_keys (filter kv_save (cfg_list cfg))" 
    "\<And>e. e \<in> set (cfg_list cfg) \<Longrightarrow> printable e \<and> kv_text e \<noteq> [] \<and> kv_save e"
    by (auto simp: tidy_def distinct_keys_def distinct_map_filter)
  obtain out cfg' cfg'' where f: "config_write True True all_written cfg (Some name) = Some (False, Some out, cfg')"
    "config_load name (Some out) = Some (False, Some cfg'')" "cfg_list cfg'' = map reloaded (cfg_list cfg)"
    "\<forall>e \<in> set (cfg_list cfg). kv_save e \<longrightarrow> reads_back cfg'' e"
    using config_reloads [OF t(1,2), of name] t(3) by auto
  have "reads cfg'' op" if op: "ops = ops1 @ op # ops2" "\<forall>op' \<in> set ops2. \<not> strcaseeq (set_key op) (set_key op')" for ops1 op ops2
  proof -
    obtain e where e: "config_get cfg (set_key op) = Some e" "kv_u e = set_value op" using s op by blast
    then have em: "e \<in> set (cfg_list cfg)" "strcaseeq (kv_key e) (set_key op)" by (auto simp: config_get_def find_Some_iff)
    have k: "fmt_key (set_key op) = set_key op" using assms(1) op(1) by (simp add: fits_def printable_def fmt_key_def Let_def)
    have k': "fmt_key (kv_key e) = kv_key e" using t(3) [OF em(1)] by (simp add: printable_def fmt_key_def)
    have "config_get cfg'' (kv_key e) = Some (reloaded e)"
      by (rule config_get_reloaded [OF _ em(1) f(3)]) (use s in \<open>simp add: tidy_def\<close>)
    moreover have "config_get cfg'' (set_key op) = config_get cfg'' (kv_key e)"
      using em(2) by (simp add: config_get_def strcaseeq_def)
    moreover have "reads_back cfg'' e" using f(4) em(1) t(3) by blast
    ultimately show ?thesis
      using e(2) reads_same [of cfg'' "set_key op" "kv_key e"] k k' by (cases op) (simp_all add: reads_back_def)
  qed
  then show ?thesis using f by blast
qed

text \<open>C39: an empty string, which \<open>config_setstring\<close> accepts, makes the file unreadable: \<open>config_load\<close> fails on
  it and returns no configuration.\<close>

theorem empty_string_unloadable:
  assumes "cfg_list cfg = es1 @ e # es2" and "sorted_keys (cfg_list cfg)"
    and "list_all (\<lambda>e. printable e \<and> kv_text e \<noteq> [] \<and> kv_save e) es1"
    and "kv_save e" and "printable e" and "kv_u e = kv_string (Some [])"
    and "\<And>e. e \<in> set es2 \<Longrightarrow> kv_save e \<Longrightarrow> printable e"
  shows "\<exists>file cfg'. config_write True True all_written cfg (Some name) = Some (False, Some file, cfg') \<and>
    config_load name (Some file) = Some (True, None)"
proof -
  let ?c = "config_create\<lparr>cfg_fileName := Some name\<rparr>"
  have "write_entries all_written 0 (cfg_list cfg) [] = Some (False, [] @ file_of (cfg_list cfg))"
    using assms(1,3,5,7) by (intro write_ok) (auto simp: printable_def list_all_iff)
  then have w: "config_write True True all_written cfg (Some name) = Some (False, Some (file_of (cfg_list cfg)), cfg\<lparr>cfg_fileName := Some name\<rparr>)"
    by (simp add: config_write_def)
  have f: "file_of (cfg_list cfg) = file_of es1 @ (quoted (kv_key e) [] @ file_of es2)"
    using assms(1,4,6) by (simp add: file_of_def kv_text_def)
  have "sorted_keys ([] @ es1)" using assms(1,2) by (simp add: sorted_keys_def sorted_wrt_append)
  then have "load_lines (file_of (cfg_list cfg)) ?c =
      load_lines (quoted (kv_key e) [] @ file_of es2) (?c\<lparr>cfg_list := map reloaded es1\<rparr>)"
    using load_ok [OF assms(3), of ?c "quoted (kv_key e) [] @ file_of es2"] unfolding f by (simp add: config_create_def)
  also have "\<dots> = Some None"
    using getline_quoted [of "kv_key e" "[]" "file_of es2"] parseline_quoted [of "kv_key e" "[]"] assms(5)
    by (subst load_lines.simps) (simp add: printable_def plain_def)
  finally show ?thesis using w by (simp add: config_load_def)
qed

text \<open>A number or a truth value set over an entry that was loaded from a file leaves the entry's type
  unknown, so the next getter takes the number for a pointer: the program stops or worse.\<close>

theorem set_over_loaded_corrupts:
  assumes "config_get cfg (fmt_key key) = Some e" and "kv_type e = CONFIG_KV_UNKNOWN" and "kv_u e = kv_string s" and "v \<noteq> 0"
  shows "\<exists>cfg'. config_setint64 cfg v key = Some cfg' \<and> config_getint64 cfg' d key = None \<and> config_free (Some cfg') = None"
proof -
  let ?f = "\<lambda>e. e\<lparr>kv_save := True, kv_u := kv_val v\<rparr>" and ?k = "fmt_key key"
  have set: "config_setint64 cfg v key = Some (config_update cfg ?k ?f)"
    using assms by (simp add: config_setint64_def Let_def kv_str_def)
  have upd: "find (\<lambda>e. strcaseeq (kv_key e) ?k) (update_first ?f ?k es) = Some (?f e) \<and> ?f e \<in> set (update_first ?f ?k es)"
    if "find (\<lambda>e. strcaseeq (kv_key e) ?k) es = Some e" for es
    using that by (induction es) (auto split: if_splits)
  then have get: "config_get (config_update cfg ?k ?f) ?k = Some (?f e)" and mem: "?f e \<in> set (cfg_list (config_update cfg ?k ?f))"
    using assms(1) by (simp_all add: config_get_def config_update_def)
  have "config_getint64 (config_update cfg ?k ?f) d key = None"
    using get assms(2,4) by (simp add: config_getint64_def Let_def kv_str_def)
  moreover have "those xs = None" if "None \<in> set xs" for xs :: "string option option list"
    using that by (induction xs) (auto split: option.splits)
  then have "config_free (Some (config_update cfg ?k ?f)) = None"
    using mem assms(2,4) by (simp add: config_free_def config_freekvlist_def) (force simp: kv_str_def image_iff)
  ultimately show ?thesis using set by blast
qed


section \<open>Examples\<close>

definition sample_settings :: "setting list" where
  "sample_settings = [Set_int64 (- 5) ''b'', Set_bool True ''a'', Set_string (Some ''c d'') ''k e'', Set_bool False ''A'']"

theorem config_roundtrip_witness:
  "\<exists>cfg file cfg' cfg''. run_steps run_setting sample_settings config_create = Some cfg \<and>
    config_write True True all_written cfg (Some ''f'') = Some (False, Some file, cfg') \<and>
    config_load ''f'' (Some file) = Some (False, Some cfg'') \<and> map_option fst (config_getbool cfg'' True ''A'') = Some False"
proof -
  have "run_steps run_setting sample_settings config_create \<noteq> None" by code_simp
  then obtain cfg where r: "run_steps run_setting sample_settings config_create = Some cfg" by blast
  have "list_all fits sample_settings" by code_simp
  from config_roundtrip [OF this r, of "''f''"] obtain out cfg' cfg'' where w: "config_write True True all_written cfg (Some ''f'') = Some (False, Some out, cfg')"
    "config_load ''f'' (Some out) = Some (False, Some cfg'')"
    "\<And>ops1 op ops2. sample_settings = ops1 @ op # ops2 \<Longrightarrow> \<forall>op' \<in> set ops2. \<not> strcaseeq (set_key op) (set_key op') \<Longrightarrow> reads cfg'' op"
    by blast
  have "reads cfg'' (Set_bool False ''A'')" by (rule w(3) [where ?ops2.0 = "[]"]) (simp_all add: sample_settings_def)
  then show ?thesis using r w(1,2) by auto
qed

theorem empty_string_unloadable_witness:
  "\<exists>file cfg'. config_write True True all_written
      \<lparr>cfg_fileName = None, cfg_list = [\<lparr>kv_key = ''a'', kv_save = True, kv_type = CONFIG_KV_STRING, kv_u = kv_string (Some [])\<rparr>]\<rparr> (Some ''f'') =
      Some (False, Some file, cfg') \<and> config_load ''f'' (Some file) = Some (True, None)"
  by (rule empty_string_unloadable [where ?es1.0 = "[]" and ?es2.0 = "[]"
        and e = "\<lparr>kv_key = ''a'', kv_save = True, kv_type = CONFIG_KV_STRING, kv_u = kv_string (Some [])\<rparr>"])
    (simp_all add: sorted_keys_def printable_def well_typed_def good_key_def plain_def kv_text_def)

theorem set_over_loaded_corrupts_witness:
  "\<exists>cfg'. config_setint64 (config_setunknownkv config_create ''a'' ''1'') 2 ''a'' = Some cfg' \<and>
     config_getint64 cfg' 0 ''a'' = None \<and> config_free (Some cfg') = None"
  by (rule set_over_loaded_corrupts [where s = "Some ''1''"
        and e = "\<lparr>kv_key = ''a'', kv_save = True, kv_type = CONFIG_KV_UNKNOWN, kv_u = kv_string (Some ''1'')\<rparr>"])
    (simp_all add: config_setunknownkv_def config_create_def config_get_def fmt_key_def strcaseeq_def)

end
