(* ===== verification/Crypt.thy ===== *)
theory Crypt
  imports Hash
begin

text \<open>
  The key derivation, encryption and message authentication of \<^verbatim>\<open>src/core/crypt.c\<close>.

  OpenSSL's \<open>EVP_BytesToKey\<close> and AES-256-CBC are arguments of the definitions that use them, as
  are SHA-256 (\<open>sha\<close>), the success of \<open>mlock\<close> and the clock. Clearing memory before it is
  released has no value to observe.
\<close>

section \<open>Secure memory\<close>

text \<open>The contents and the length of an area; \<open>lock\<close> is whether the pages could be locked.\<close>

definition secure_alloc :: "bool \<Rightarrow> nat \<Rightarrow> byte list option" where
  "secure_alloc lock len = (if lock then Some (replicate len 0) else None)"

section \<open>Keys\<close>

definition CRYPT_KEY_LEN :: nat where "CRYPT_KEY_LEN = 32"
definition CRYPT_IV_LEN :: nat where "CRYPT_IV_LEN = 32"
definition CRYPT_NUM_ITERATIONS_OLD :: int where "CRYPT_NUM_ITERATIONS_OLD = 1337"
definition CRYPT_NUM_ITERATIONS_MIN :: int where "CRYPT_NUM_ITERATIONS_MIN = 25000"

record crypt_key =
  ck_key :: "byte list"
  ck_iv :: "byte list"
  ck_salt :: "byte list"

text \<open>\<open>EVP_BytesToKey\<close> with AES-256-CBC and SHA-512: from the salt, the passphrase and the number
  of iterations to the length of the key, the key and the initialisation vector.\<close>

type_synonym bytes_to_key = "byte list \<Rightarrow> byte list \<Rightarrow> int \<Rightarrow> int \<times> byte list \<times> byte list"

text \<open>The conversion of a 64-bit integer to an \<open>int\<close>.\<close>

definition to_int :: "int \<Rightarrow> int" where
  "to_int i = sint (of_int i :: 32 word)"

definition clear_key :: "crypt_key \<Rightarrow> crypt_key" where
  "clear_key ck = ck\<lparr>ck_key := replicate (length (ck_key ck)) 0, ck_iv := replicate (length (ck_iv ck)) 0\<rparr>"

text \<open>Three rounds that scale the count to a tenth of a second; \<open>ts\<close> are the times they took in
  microseconds. The count is a double in between; below \<open>2 ^ 53\<close> its quotient rounds to the same
  integer. Outcome \<^const>\<open>None\<close>: the assertion on the clock, or a double that no 64-bit integer
  holds; count \<open>-1\<close>: the derivation failed.\<close>

fun determine_loop :: "bytes_to_key \<Rightarrow> byte list \<Rightarrow> int list \<Rightarrow> int \<Rightarrow> crypt_key \<Rightarrow> (int \<times> crypt_key) option" where
  "determine_loop kdf pass [] count ck = Some (to_int (max CRYPT_NUM_ITERATIONS_MIN count), ck)"
| "determine_loop kdf pass (t # ts) count ck =
     (case kdf (ck_salt ck) pass count of (len, key, iv) \<Rightarrow>
        let ck = ck\<lparr>ck_key := key, ck_iv := iv\<rparr>
        in if len \<noteq> int CRYPT_KEY_LEN then Some (-1, clear_key ck)
           else do {
             ASSERT (0 < t);
             let count = count * 100 * 1000 div t;
             ASSERT (count < 2 ^ 63);
             determine_loop kdf pass ts count ck
           })"

definition crypt_determine_count ::
  "bytes_to_key \<Rightarrow> int \<times> int \<times> int \<Rightarrow> byte list \<Rightarrow> crypt_key \<Rightarrow> (int \<times> crypt_key) option" where
  "crypt_determine_count kdf ts pass ck =
     (case ts of (t1, t2, t3) \<Rightarrow> determine_loop kdf pass [t1, t2, t3] CRYPT_NUM_ITERATIONS_OLD ck)"

text \<open>Success, the key and the count, which is only written when it was zero.\<close>

definition crypt_set_key_from_passphrase ::
  "bytes_to_key \<Rightarrow> int \<times> int \<times> int \<Rightarrow> byte list \<Rightarrow> crypt_key \<Rightarrow> int \<Rightarrow> (bool \<times> crypt_key \<times> int) option" where
  "crypt_set_key_from_passphrase kdf ts pass ck count_ptr = do {
     (count, ck) \<leftarrow> (if count_ptr = 0 then crypt_determine_count kdf ts pass ck else Some (to_int count_ptr, ck));
     if count_ptr = 0 \<and> count < 0 then Some (False, ck, count_ptr)
     else (case kdf (ck_salt ck) pass count of (len, key, iv) \<Rightarrow>
       let ck = ck\<lparr>ck_key := key, ck_iv := iv\<rparr>
       in if len \<noteq> int CRYPT_KEY_LEN then Some (False, clear_key ck, count_ptr)
          else Some (True, ck, if count_ptr = 0 then count else count_ptr))
   }"

section \<open>Encryption\<close>

text \<open>AES-256-CBC as its three calls: a step of the initialisation that may fail, the output of the
  update and of the final call. Writing beyond the buffer is undefined.\<close>

record evp_cipher =
  EVP_Init :: "byte list \<Rightarrow> byte list \<Rightarrow> bool"
  EVP_Update :: "byte list \<Rightarrow> byte list \<Rightarrow> byte list \<Rightarrow> byte list option"
  EVP_Final :: "byte list \<Rightarrow> byte list \<Rightarrow> byte list \<Rightarrow> byte list option"

definition AES_BLOCK_SIZE :: nat where "AES_BLOCK_SIZE = 16"

definition evp_run :: "evp_cipher \<Rightarrow> crypt_key \<Rightarrow> byte list \<Rightarrow> nat \<Rightarrow> byte list option option" where
  "evp_run evp ck text room =
     (if \<not> EVP_Init evp (ck_key ck) (ck_iv ck) then Some None
      else case EVP_Update evp (ck_key ck) (ck_iv ck) text of None \<Rightarrow> Some None
      | Some out \<Rightarrow> do {
          ASSERT (length out \<le> room);
          case EVP_Final evp (ck_key ck) (ck_iv ck) text of None \<Rightarrow> Some None
          | Some rest \<Rightarrow> do { ASSERT (length out + length rest \<le> room); Some (Some (out @ rest)) }
        })"

definition crypt_encrypt :: "evp_cipher \<Rightarrow> crypt_key \<Rightarrow> byte list \<Rightarrow> byte list option option" where
  "crypt_encrypt enc ck plaintext = evp_run enc ck plaintext (length plaintext + AES_BLOCK_SIZE)"

definition crypt_decrypt :: "evp_cipher \<Rightarrow> bool \<Rightarrow> crypt_key \<Rightarrow> byte list \<Rightarrow> byte list option option" where
  "crypt_decrypt dec lock ck cipher = do {
     sec \<leftarrow> secure_alloc lock (length cipher);
     evp_run dec ck cipher (length sec)
   }"

section \<open>Message authentication\<close>

definition crypt_hmac_sha256 ::
  "(byte list \<Rightarrow> uint256) \<Rightarrow> byte list \<Rightarrow> byte list \<Rightarrow> uint256 option" where
  "crypt_hmac_sha256 sha text key = do {
     ASSERT (length text < 512);
     let buffer = replicate 1024 0;
     let key = (if 64 < length key then le_bytes (sha256_calc sha key) else key);
     ASSERT (length key < 65);
     ipad \<leftarrow> mem_write (Some (replicate 65 0)) 0 key;
     opad \<leftarrow> mem_write (Some (replicate 65 0)) 0 key;
     ipad \<leftarrow> ipad;
     opad \<leftarrow> opad;
     let ipad = map (\<lambda>b. b XOR 0x36) (take 64 ipad) @ drop 64 ipad;
     let opad = map (\<lambda>b. b XOR 0x5c) (take 64 opad) @ drop 64 opad;
     buffer \<leftarrow> mem_write (Some buffer) 0 (take 64 ipad);
     buffer \<leftarrow> mem_write buffer 64 text;
     inp \<leftarrow> mem_read buffer 0 (64 + length text);
     let buf_hash = sha256_calc sha inp;
     buffer \<leftarrow> mem_write buffer 0 (take 64 opad);
     buffer \<leftarrow> mem_write buffer 64 (le_bytes buf_hash);
     inp \<leftarrow> mem_read buffer 0 (64 + 32);
     Some (sha256_calc sha inp)
   }"

section \<open>The reference\<close>

text \<open>HMAC with a hash function of 64-byte blocks, as RFC 2104 defines it.\<close>

definition hmac_key :: "(byte list \<Rightarrow> uint256) \<Rightarrow> byte list \<Rightarrow> byte list" where
  "hmac_key sha key = (let k = (if 64 < length key then le_bytes (sha key) else key)
     in k @ replicate (64 - length k) 0)"

definition hmac_ref :: "(byte list \<Rightarrow> uint256) \<Rightarrow> byte list \<Rightarrow> byte list \<Rightarrow> uint256" where
  "hmac_ref sha text key = sha (map (\<lambda>b. b XOR 0x5c) (hmac_key sha key) @
     le_bytes (sha (map (\<lambda>b. b XOR 0x36) (hmac_key sha key) @ text)))"

lemma hmac_eq:
  "crypt_hmac_sha256 sha text key = (if length text < 512 then Some (hmac_ref sha text key) else None)"
proof (cases "length text < 512")
  case True
  define k where "k = (if 64 < length key then le_bytes (sha key) else key)"
  define P where "P = map (\<lambda>b. b XOR 0x36) (hmac_key sha key)"
  define Q where "Q = map (\<lambda>b. b XOR 0x5c) (hmac_key sha key)"
  define h where "h = sha (P @ text)"
  define r where "r = text @ replicate (960 - length text) 0"
  have lk: "length k \<le> 64" by (simp add: k_def)
  have hk: "hmac_key sha key = k @ replicate (64 - length k) 0" by (simp add: hmac_key_def k_def Let_def)
  have l: "length P = 64" "length Q = 64" using lk by (simp_all add: P_def Q_def hk)
  have lr: "length r = 960" using True by (simp add: r_def)
  have k: "mem_write (Some (replicate 65 0)) 0 k = Some (Some (hmac_key sha key @ [0]))"
    using lk by (simp add: mem_write_def hk replicate_append_same flip: replicate_Suc)
  have t: "take 64 (hmac_key sha key @ [0]) = hmac_key sha key" using l(1) by (simp add: P_def)
  have 1: "mem_write (Some (replicate 1024 0)) 0 P = Some (Some (P @ replicate 960 0))"
    using l by (simp add: mem_write_def)
  have 2: "mem_write (Some (P @ replicate 960 0)) 64 text = Some (Some (P @ r))"
    using l True by (simp add: mem_write_def r_def)
  have 3: "mem_read (Some (P @ r)) 0 (64 + length text) = Some (P @ text)"
    using l lr by (simp add: mem_read_def r_def)
  have 4: "mem_write (Some (P @ r)) 0 Q = Some (Some (Q @ r))"
    using l lr by (simp add: mem_write_def)
  have 5: "mem_write (Some (Q @ r)) 64 (le_bytes h) = Some (Some (Q @ le_bytes h @ drop 32 r))"
    using l lr by (simp add: mem_write_def)
  have 6: "mem_read (Some (Q @ le_bytes h @ drop 32 r)) 0 (64 + 32) = Some (Q @ le_bytes h)"
    using l by (simp add: mem_read_def)
  have lh: "length (hmac_key sha key) = 64" using lk by (simp add: hk)
  show ?thesis
    using True lk 6 unfolding crypt_hmac_sha256_def hmac_ref_def sha256_calc_def k_def [symmetric] Let_def
    by (simp add: k lh P_def [symmetric] Q_def [symmetric] h_def [symmetric] 1 2 3 4 5)
next
  case False
  then show ?thesis by (simp add: crypt_hmac_sha256_def)
qed

text \<open>\<open>crypt_hmac_sha256\<close> computes the HMAC of every text shorter than 512 bytes, for keys of any
  length and without leaving its buffers; longer texts stop the program.\<close>

theorem hmac_correct:
  "crypt_hmac_sha256 sha text key = (if length text < 512 then Some (hmac_ref sha text key) else None)"
  by (rule hmac_eq)

end
