(* ===== verification/Buff.thy ===== *)
theory Buff
  imports Prelude
begin

text \<open>
  The byte buffer of \<^verbatim>\<open>src/core/buff.h\<close>: a memory area with a length, a cursor
  and a flag that says whether writing past the end may enlarge it. All lengths are
  64-bit (\<open>size_t\<close>); the cursor is an \<open>ssize_t\<close>, which the code always uses
  converted to \<open>size_t\<close>, so its bits are kept.

  The second half gives the vocabulary in which every reader and writer of the
  program is specified: \<open>buff_wf\<close> (the invariant), \<open>buff_data\<close> (the bytes before
  the cursor), \<open>buff_rest\<close> (the bytes after it), safe readers and appending writers.
\<close>

section \<open>The structure and its operations\<close>

record buff =
  buf_base :: memory
  buf_len :: u64
  buf_idx :: u64
  buf_grow :: bool

definition buff_resize :: "buff \<Rightarrow> u64 \<Rightarrow> buff option" where
  "buff_resize b sz = do {
     ASSERT (buf_grow b);
     let newlen = max (buf_len b * 2) (buf_len b + sz);
     Some (b\<lparr>buf_base := Some (safe_realloc (buf_base b) (unat newlen)), buf_len := newlen\<rparr>)
   }"

text \<open>A pointer into the buffer is an offset from its base.\<close>

definition buff_curptr :: "buff \<Rightarrow> nat option" where
  "buff_curptr b = do { ASSERT (buf_idx b < buf_len b); Some (unat (buf_idx b)) }"

definition buff_check_overflow :: "buff \<Rightarrow> u64 \<Rightarrow> bool" where
  "buff_check_overflow b sz \<longleftrightarrow> buf_len b < buf_idx b + sz"

text \<open>Buffers that may be a null pointer are of type \<^typ>\<open>buff option\<close>.\<close>

definition buff_base :: "buff option \<Rightarrow> memory" where
  "buff_base bo = (case bo of None \<Rightarrow> None | Some b \<Rightarrow> buf_base b)"

definition buff_maxlen :: "buff option \<Rightarrow> u64" where
  "buff_maxlen bo = (case bo of None \<Rightarrow> 0 | Some b \<Rightarrow> buf_len b)"

definition buff_curlen :: "buff option \<Rightarrow> u64" where
  "buff_curlen bo = (case bo of None \<Rightarrow> 0 | Some b \<Rightarrow> buf_idx b)"

definition buff_space_left :: "buff \<Rightarrow> u64 option" where
  "buff_space_left b = do { ASSERT (buf_idx b \<le> buf_len b); Some (buf_len b - buf_idx b) }"

definition buff_skip :: "buff \<Rightarrow> u64 \<Rightarrow> (bool \<times> buff) option" where
  "buff_skip b n =
     (if buff_check_overflow b n
      then if \<not> buf_grow b then Some (True, b)
           else do { b' \<leftarrow> buff_resize b n; Some (False, b'\<lparr>buf_idx := buf_idx b' + n\<rparr>) }
      else Some (False, b\<lparr>buf_idx := buf_idx b + n\<rparr>))"

definition buff_set_idx :: "buff \<Rightarrow> u64 \<Rightarrow> buff option" where
  "buff_set_idx b i = do { ASSERT (i \<le> buf_len b); Some (b\<lparr>buf_idx := i\<rparr>) }"

definition buff_init :: "memory \<Rightarrow> u64 \<Rightarrow> buff" where
  "buff_init m n = \<lparr>buf_base = m, buf_len = n, buf_idx = 0, buf_grow = False\<rparr>"

text \<open>The copy itself, once there is room: \<open>memcpy\<close> at the cursor. It is undefined
  when the source holds fewer than \<open>n\<close> bytes.\<close>

definition buff_put :: "buff \<Rightarrow> byte list \<Rightarrow> u64 \<Rightarrow> (bool \<times> buff) option" where
  "buff_put b src n =
     (if 0 < n
      then do {
        ASSERT (unat n \<le> length src);
        p \<leftarrow> buff_curptr b;
        m \<leftarrow> mem_write (buf_base b) p (take (unat n) src);
        Some (False, b\<lparr>buf_base := m, buf_idx := buf_idx b + n\<rparr>)
      }
      else Some (False, b))"

definition buff_copy_to :: "buff \<Rightarrow> byte list \<Rightarrow> u64 \<Rightarrow> (bool \<times> buff) option" where
  "buff_copy_to b src n =
     (if buff_check_overflow b n
      then if \<not> buf_grow b then Some (True, b)
           else do { b' \<leftarrow> buff_resize b n; buff_put b' src n }
      else buff_put b src n)"

text \<open>\<open>dst\<close> is the destination's content before the call; a failing call leaves it
  alone. Source and destination must hold \<open>n\<close> bytes, or the \<open>memcpy\<close> is undefined.\<close>

definition buff_copy_from :: "buff \<Rightarrow> byte list \<Rightarrow> u64 \<Rightarrow> (bool \<times> byte list \<times> buff) option" where
  "buff_copy_from b dst n =
     (if buff_check_overflow b n then Some (True, dst, b)
      else if 0 < n
      then do {
        ASSERT (unat n \<le> length dst);
        p \<leftarrow> buff_curptr b;
        bs \<leftarrow> mem_read (buf_base b) p (unat n);
        Some (False, bs @ drop (unat n) dst, b\<lparr>buf_idx := buf_idx b + n\<rparr>)
      }
      else Some (False, dst, b))"

definition buff_append :: "buff \<Rightarrow> buff option \<Rightarrow> (bool \<times> buff) option" where
  "buff_append dst src = (case src of None \<Rightarrow> Some (False, dst)
     | Some s \<Rightarrow> buff_copy_to dst (case buf_base s of None \<Rightarrow> [] | Some bs \<Rightarrow> bs) (buf_idx s))"

definition buff_free_base :: "buff \<Rightarrow> buff" where
  "buff_free_base b = b\<lparr>buf_base := None, buf_len := 0, buf_idx := 0\<rparr>"

definition buff_alloc_base :: "buff \<Rightarrow> u64 \<Rightarrow> buff option" where
  "buff_alloc_base b n = do {
     ASSERT (buf_base b = None);
     Some (b\<lparr>buf_base := Some (safe_malloc (unat n)), buf_len := n, buf_idx := 0\<rparr>)
   }"

definition buff_alloc :: buff where
  "buff_alloc = \<lparr>buf_base = Some (safe_malloc 64), buf_len = 64, buf_idx = 0, buf_grow = True\<rparr>"

definition buff_dup :: "buff option \<Rightarrow> buff option" where
  "buff_dup b = do { (_, b2) \<leftarrow> buff_append buff_alloc b; Some b2 }"

section \<open>Specification vocabulary\<close>

definition buff_bytes :: "buff \<Rightarrow> byte list" where
  "buff_bytes b = (case buf_base b of None \<Rightarrow> [] | Some bs \<Rightarrow> bs)"

definition buff_wf :: "buff \<Rightarrow> bool" where
  "buff_wf b \<longleftrightarrow> buf_base b \<noteq> None \<and> length (buff_bytes b) = unat (buf_len b) \<and>
     unat (buf_idx b) \<le> unat (buf_len b) \<and> unat (buf_len b) < 2 ^ 62"

definition buff_data :: "buff \<Rightarrow> byte list" where
  "buff_data b = take (unat (buf_idx b)) (buff_bytes b)"

definition buff_rest :: "buff \<Rightarrow> byte list" where
  "buff_rest b = drop (unat (buf_idx b)) (buff_bytes b)"

definition buff_left :: "buff \<Rightarrow> u64" where
  "buff_left b = buf_len b - buf_idx b"

text \<open>A growable buffer whose length is bounded by twice what was written: \<open>buff_resize\<close>
  keeps this, so a bound on the bytes written bounds the allocation.\<close>

definition buff_growing :: "buff \<Rightarrow> bool" where
  "buff_growing b \<longleftrightarrow> buff_wf b \<and> buf_grow b \<and> unat (buf_len b) \<le> max 64 (2 * unat (buf_idx b))"

definition buff_adv :: "buff \<Rightarrow> nat \<Rightarrow> buff" where
  "buff_adv b k = b\<lparr>buf_idx := buf_idx b + of_nat k\<rparr>"

text \<open>A reader is safe on a buffer when it returns, without an assertion failure or an
  access outside the allocation, a buffer whose cursor moved within the bytes left.\<close>

definition reads_ok :: "buff \<Rightarrow> (bool \<times> 'a \<times> buff) option \<Rightarrow> bool" where
  "reads_ok b m \<longleftrightarrow> (\<exists>r v k. m = Some (r, v, buff_adv b k) \<and> k \<le> length (buff_rest b))"

text \<open>A writer appends \<open>xs\<close> when it returns success with \<open>xs\<close> added to the data.\<close>

definition appends :: "buff \<Rightarrow> (bool \<times> buff) option \<Rightarrow> byte list \<Rightarrow> bool" where
  "appends b m xs \<longleftrightarrow>
     (\<exists>b'. m = Some (False, b') \<and> buff_growing b' \<and> buff_data b' = buff_data b @ xs)"

section \<open>Laws\<close>

lemma buff_adv_0 [simp]: "buff_adv b 0 = b"
  by (simp add: buff_adv_def)

lemma buff_adv_adv [simp]: "buff_adv (buff_adv b j) k = buff_adv b (j + k)"
  by (simp add: buff_adv_def add.assoc)

lemma buff_adv_sel [simp]:
  "buf_base (buff_adv b k) = buf_base b" "buf_len (buff_adv b k) = buf_len b"
  "buf_grow (buff_adv b k) = buf_grow b" "buff_bytes (buff_adv b k) = buff_bytes b"
  by (simp_all add: buff_adv_def buff_bytes_def)

lemma length_buff_rest:
  "buff_wf b \<Longrightarrow> length (buff_rest b) = unat (buf_len b) - unat (buf_idx b)"
  by (simp add: buff_wf_def buff_rest_def)

lemma length_buff_data: "buff_wf b \<Longrightarrow> length (buff_data b) = unat (buf_idx b)"
  by (simp add: buff_wf_def buff_data_def)

lemma unat_add_small:
  fixes a b :: u64
  assumes "unat a + unat b < 2 ^ 64"
  shows "unat (a + b) = unat a + unat b"
  using assms by (simp add: unat_word_ariths)

lemma buf_idx_adv:
  assumes "buff_wf b" and "k \<le> length (buff_rest b)"
  shows "unat (buf_idx (buff_adv b k)) = unat (buf_idx b) + k"
proof -
  from assms have k: "unat (buf_idx b) + k \<le> unat (buf_len b)" "unat (buf_len b) < 2 ^ 62"
    by (auto simp: length_buff_rest buff_wf_def)
  then have "k < 2 ^ 64" by simp
  then have "unat (of_nat k :: u64) = k" by (simp add: unat_of_nat_small)
  with k show ?thesis by (simp add: buff_adv_def unat_add_small)
qed

lemma buff_wf_adv [simp]:
  assumes "buff_wf b" and "k \<le> length (buff_rest b)"
  shows "buff_wf (buff_adv b k)"
  using assms buf_idx_adv [OF assms] by (auto simp: buff_wf_def length_buff_rest)

lemma buff_rest_adv [simp]:
  assumes "buff_wf b" and "k \<le> length (buff_rest b)"
  shows "buff_rest (buff_adv b k) = drop k (buff_rest b)"
  using buf_idx_adv [OF assms] by (simp add: buff_rest_def add.commute)

lemma check_overflow_iff:
  assumes "buff_wf b" and "unat n < 2 ^ 63"
  shows "buff_check_overflow b n \<longleftrightarrow> length (buff_rest b) < unat n"
proof -
  from assms have "unat (buf_idx b + n) = unat (buf_idx b) + unat n"
    by (intro unat_add_small) (auto simp: buff_wf_def)
  with assms show ?thesis
    by (auto simp: buff_check_overflow_def word_less_nat_alt length_buff_rest buff_wf_def)
qed

lemma space_left_eq: "buff_wf b \<Longrightarrow> buff_space_left b = Some (buff_left b)"
  by (simp add: buff_space_left_def buff_left_def buff_wf_def word_le_nat_alt)

lemma unat_buff_left [simp]: "buff_wf b \<Longrightarrow> unat (buff_left b) = length (buff_rest b)"
  by (simp add: buff_left_def length_buff_rest unat_sub word_le_nat_alt buff_wf_def)

lemma buff_left_eq_0 [simp]: "buff_wf b \<Longrightarrow> buff_left b = 0 \<longleftrightarrow> buff_rest b = []"
  by (simp add: word_unat_eq_iff)

lemma unat_Suc_le_left:
  fixes n :: u64
  assumes "buff_wf b" and "unat n \<le> length (buff_rest b)"
  shows "unat (n + 1) = unat n + 1"
  using assms unat_add_small [of n 1] by (auto simp: length_buff_rest buff_wf_def)

lemma length_buff_rest_bound: "buff_wf b \<Longrightarrow> length (buff_rest b) < 2 ^ 62"
  by (auto simp: length_buff_rest buff_wf_def)

subsection \<open>Reading\<close>

lemma copy_from_ok:
  assumes wf: "buff_wf b" and n: "unat n \<le> length (buff_rest b)" "unat n \<le> length dst"
  shows "buff_copy_from b dst n =
     Some (False, take (unat n) (buff_rest b) @ drop (unat n) dst, buff_adv b (unat n))"
proof (cases "n = 0")
  case True
  with wf n show ?thesis by (simp add: buff_copy_from_def check_overflow_iff)
next
  case False
  then have pos: "0 < unat n" by (simp add: unat_gt_0)
  have "unat n < 2 ^ 63" using n length_buff_rest_bound [OF wf] by simp
  then have ov: "\<not> buff_check_overflow b n" using wf n by (simp add: check_overflow_iff)
  have "buf_idx b < buf_len b"
    using wf n pos by (auto simp: length_buff_rest word_less_nat_alt)
  moreover have "mem_read (buf_base b) (unat (buf_idx b)) (unat n) = Some (take (unat n) (buff_rest b))"
    using wf n by (auto simp: mem_read_def buff_wf_def buff_bytes_def buff_rest_def length_buff_rest
        split: option.splits)
  ultimately show ?thesis
    using ov n False by (simp add: buff_copy_from_def buff_curptr_def buff_adv_def word_neq_0_conv)
qed

lemma copy_from_short:
  assumes "buff_wf b" and "length (buff_rest b) < unat n" and "unat n < 2 ^ 63"
  shows "buff_copy_from b dst n = Some (True, dst, b)"
  using assms by (simp add: buff_copy_from_def check_overflow_iff)

lemma reads_okI:
  "m = Some (r, v, buff_adv b k) \<Longrightarrow> k \<le> length (buff_rest b) \<Longrightarrow> reads_ok b m"
  by (auto simp: reads_ok_def)

lemma reads_ok_return [reads_intros]: "reads_ok b (Some (r, v, b))"
  by (rule reads_okI [where k = 0]) simp_all

lemma reads_ok_copy_from [reads_intros]:
  assumes "buff_wf b" and "unat n < 2 ^ 63" and "unat n \<le> length dst"
  shows "reads_ok b (buff_copy_from b dst n)"
proof (cases "unat n \<le> length (buff_rest b)")
  case True
  with assms show ?thesis by (intro reads_okI [OF copy_from_ok]) auto
next
  case False
  with assms show ?thesis by (simp add: copy_from_short reads_ok_return)
qed

text \<open>Safe readers compose: what follows runs on a well-formed buffer.\<close>

lemma reads_ok_bind_eq:
  assumes m: "reads_ok b m" and wf: "buff_wf b"
    and f: "\<And>r v k. k \<le> length (buff_rest b) \<Longrightarrow> m = Some (r, v, buff_adv b k) \<Longrightarrow>
       buff_wf (buff_adv b k) \<Longrightarrow> reads_ok (buff_adv b k) (f (r, v, buff_adv b k))"
  shows "reads_ok b (m \<bind> f)"
proof -
  from m obtain r v k where mk: "m = Some (r, v, buff_adv b k)" and k: "k \<le> length (buff_rest b)"
    by (auto simp: reads_ok_def)
  from wf k have wf': "buff_wf (buff_adv b k)" by simp
  from f [OF k mk wf'] obtain r' v' j where
    "f (r, v, buff_adv b k) = Some (r', v', buff_adv b (k + j))" "j \<le> length (buff_rest b) - k"
    using wf k by (auto simp: reads_ok_def)
  with mk k show ?thesis by (intro reads_okI [where k = "k + j"]) auto
qed

lemma reads_ok_bind [reads_intros]:
  assumes "reads_ok b m" and "buff_wf b"
    and "\<And>r v b'. buff_wf b' \<Longrightarrow> reads_ok b' (f (r, v, b'))"
  shows "reads_ok b (m \<bind> f)"
  using assms by (intro reads_ok_bind_eq) auto

lemma reads_okE:
  assumes "reads_ok b m" and "buff_wf b"
  obtains r v k where "m = Some (r, v, buff_adv b k)" "k \<le> length (buff_rest b)"
    "buff_wf (buff_adv b k)"
  using assms by (auto simp: reads_ok_def)

subsection \<open>Writing\<close>

lemma buff_growing_alloc [simp]: "buff_growing buff_alloc" "buff_data buff_alloc = []"
  by (simp_all add: buff_growing_def buff_wf_def buff_alloc_def buff_bytes_def safe_malloc_def
      buff_data_def)

lemma put_ok:
  assumes wf: "buff_wf b" and n: "unat n \<le> length (buff_rest b)" "unat n \<le> length src"
  shows "\<exists>b'. buff_put b src n = Some (False, b') \<and> buff_wf b' \<and>
     buf_len b' = buf_len b \<and> buf_grow b' = buf_grow b \<and>
     unat (buf_idx b') = unat (buf_idx b) + unat n \<and>
     buff_data b' = buff_data b @ take (unat n) src"
proof (cases "n = 0")
  case True
  with wf show ?thesis by (simp add: buff_put_def)
next
  case False
  let ?i = "unat (buf_idx b)"
  let ?m = "take ?i (buff_bytes b) @ take (unat n) src @ drop (?i + unat n) (buff_bytes b)"
  let ?b = "b\<lparr>buf_base := Some ?m, buf_idx := buf_idx b + n\<rparr>"
  have i: "unat (buf_idx b + n) = ?i + unat n" "?i + unat n \<le> unat (buf_len b)"
    using wf n by (auto simp: length_buff_rest buff_wf_def intro!: unat_add_small)
  have pos: "0 < unat n" using False by (simp add: unat_gt_0)
  have "buf_idx b < buf_len b" using i pos by (simp add: word_less_nat_alt)
  moreover have "mem_write (buf_base b) ?i (take (unat n) src) = Some (Some ?m)"
    using wf n i by (auto simp: mem_write_def buff_wf_def buff_bytes_def split: option.splits)
  ultimately have "buff_put b src n = Some (False, ?b)"
    using False n by (simp add: buff_put_def buff_curptr_def word_neq_0_conv)
  moreover have "buff_wf ?b" "buff_data ?b = buff_data b @ take (unat n) src"
    using wf n i by (auto simp: buff_wf_def buff_bytes_def buff_data_def)
  ultimately show ?thesis using i by simp
qed

lemma resize_ok:
  assumes wf: "buff_wf b" and g: "buf_grow b" and n: "unat n < 2 ^ 62"
    and small: "max (2 * unat (buf_len b)) (unat (buf_len b) + unat n) < 2 ^ 62"
  shows "\<exists>b'. buff_resize b n = Some b' \<and> buff_wf b' \<and> buf_grow b' \<and>
     unat (buf_len b') = max (2 * unat (buf_len b)) (unat (buf_len b) + unat n) \<and>
     buf_idx b' = buf_idx b \<and> buff_data b' = buff_data b"
proof -
  let ?l = "max (buf_len b * 2) (buf_len b + n)"
  have a: "unat (buf_len b + n) = unat (buf_len b) + unat n"
    using small by (intro unat_add_small) simp
  have m: "unat (buf_len b * 2) = 2 * unat (buf_len b)"
    using small by (simp add: unat_word_ariths mult.commute)
  have l: "unat ?l = max (2 * unat (buf_len b)) (unat (buf_len b) + unat n)"
    by (auto simp: max_def word_le_nat_alt a m)
  let ?b = "b\<lparr>buf_base := Some (safe_realloc (buf_base b) (unat ?l)), buf_len := ?l\<rparr>"
  have "buff_resize b n = Some ?b" using g by (simp add: buff_resize_def Let_def)
  moreover have "buff_wf ?b" "buff_data ?b = buff_data b"
    using wf l small
    by (auto simp: buff_wf_def buff_bytes_def buff_data_def safe_realloc_def Let_def)
  ultimately show ?thesis using l g by simp
qed

lemma copy_to_appends_take:
  assumes b: "buff_growing b" and n: "unat n \<le> length src"
    and small: "length (buff_data b) + unat n < 2 ^ 60"
  shows "appends b (buff_copy_to b src n) (take (unat n) src)"
proof -
  from b have wf: "buff_wf b" and g: "buf_grow b"
    and gr: "unat (buf_len b) \<le> max 64 (2 * unat (buf_idx b))"
    by (auto simp: buff_growing_def)
  have idx: "unat (buf_idx b) + unat n < 2 ^ 60" using small wf by (simp add: length_buff_data)
  have ov: "buff_check_overflow b n \<longleftrightarrow> length (buff_rest b) < unat n"
    using wf idx by (simp add: check_overflow_iff)
  show ?thesis
  proof (cases "length (buff_rest b) < unat n")
    case False
    with put_ok [OF wf, of n src] n obtain b' where "buff_put b src n = Some (False, b')"
      "buff_wf b'" "buf_len b' = buf_len b" "buf_grow b'"
      "unat (buf_idx b') = unat (buf_idx b) + unat n" "buff_data b' = buff_data b @ take (unat n) src"
      using g by auto
    with gr ov False g show ?thesis
      by (auto simp: appends_def buff_copy_to_def buff_growing_def)
  next
    case True
    let ?l = "max (2 * unat (buf_len b)) (unat (buf_len b) + unat n)"
    have lt: "unat (buf_len b) < unat (buf_idx b) + unat n"
      using True wf by (simp add: length_buff_rest buff_wf_def)
    then have l: "?l \<le> 2 * (unat (buf_idx b) + unat n)" "?l < 2 ^ 62"
      using idx by (auto simp: max_def)
    with resize_ok [OF wf g, of n] idx obtain b1 where b1: "buff_resize b n = Some b1"
      "buff_wf b1" "buf_grow b1" "unat (buf_len b1) = ?l" "buf_idx b1 = buf_idx b"
      "buff_data b1 = buff_data b" by auto
    have "unat n \<le> length (buff_rest b1)"
      using b1 wf by (auto simp: length_buff_rest buff_wf_def)
    with put_ok [OF b1(2), of n src] n b1 obtain b' where "buff_put b1 src n = Some (False, b')"
      "buff_wf b'" "unat (buf_len b') = ?l" "buf_grow b'"
      "unat (buf_idx b') = unat (buf_idx b) + unat n" "buff_data b' = buff_data b @ take (unat n) src" by auto
    with ov True g b1 l show ?thesis
      by (auto simp: appends_def buff_copy_to_def buff_growing_def)
  qed
qed

lemma copy_to_appends [appends_intros]:
  assumes "buff_growing b" and "unat n = length src" and "length (buff_data b) + length src < 2 ^ 60"
  shows "appends b (buff_copy_to b src n) src"
  using copy_to_appends_take [of b n src] assms by simp

text \<open>Appending writers compose by concatenation.\<close>

lemma appends_bind [appends_intros]:
  assumes "appends b m xs"
    and "\<And>b'. buff_growing b' \<Longrightarrow> buff_data b' = buff_data b @ xs \<Longrightarrow> appends b' (f (False, b')) ys"
  shows "appends b (m \<bind> f) (xs @ ys)"
proof -
  from assms(1) obtain b' where "m = Some (False, b')" "buff_growing b'" "buff_data b' = buff_data b @ xs"
    by (auto simp: appends_def)
  moreover from assms(2) [OF this(2,3)] obtain b'' where "f (False, b') = Some (False, b'')"
    "buff_growing b''" "buff_data b'' = buff_data b' @ ys" by (auto simp: appends_def)
  ultimately show ?thesis by (auto simp: appends_def)
qed

lemma appends_return [appends_intros]: "buff_growing b \<Longrightarrow> appends b (Some (False, b)) []"
  by (simp add: appends_def)

lemma appendsE:
  assumes "appends b m xs"
  obtains b' where "m = Some (False, b')" "buff_growing b'" "buff_data b' = buff_data b @ xs"
  using assms by (auto simp: appends_def)

lemma buff_growing_wf: "buff_growing b \<Longrightarrow> buff_wf b"
  by (simp add: buff_growing_def)

text \<open>The receiver's view of what was written: a fixed buffer over the written bytes.\<close>

lemma buff_init_wf:
  assumes "length bs < 2 ^ 62"
  shows "buff_wf (buff_init (Some bs) (of_nat (length bs)))"
    and "buff_rest (buff_init (Some bs) (of_nat (length bs))) = bs"
  using assms
  by (simp_all add: buff_wf_def buff_init_def buff_bytes_def buff_rest_def unat_of_nat_small)

end
