(* ===== verification/Serialize.thy ===== *)
theory Serialize
  imports Buff BitcDefs
begin

text \<open>
  The wire format of \<^verbatim>\<open>src/core/serialize.c\<close>. Every reader takes the buffer and
  the old content of its output argument and returns the error flag, the new content and
  the buffer; every writer returns the error flag and the buffer. The codes of a
  sequence of calls are accumulated with \<open>|=\<close> as in the source, so a reader goes on
  after a failed call exactly where the code does.

  The format itself is given by the \<open>enc_\<close> functions. The locale \<open>codec\<close> states what
  a pair of a writer and a reader promises with respect to the format; it is interpreted
  on each pair of the source and gives the round trips.
\<close>

section \<open>Readers of fixed-size values\<close>

definition deserialize_bytes :: "buff \<Rightarrow> byte list \<Rightarrow> u64 \<Rightarrow> (bool \<times> byte list \<times> buff) option" where
  "deserialize_bytes b val n = buff_copy_from b val n"

definition deserialize_uint8 :: "buff \<Rightarrow> byte \<Rightarrow> (bool \<times> byte \<times> buff) option" where
  "deserialize_uint8 b val =
     do { (r, bs, b) \<leftarrow> deserialize_bytes b (le_bytes val) 1; Some (r, le_word bs, b) }"

definition deserialize_uint16 :: "buff \<Rightarrow> u16 \<Rightarrow> (bool \<times> u16 \<times> buff) option" where
  "deserialize_uint16 b val =
     do { (r, bs, b) \<leftarrow> deserialize_bytes b (le_bytes val) 2; Some (r, le_word bs, b) }"

definition deserialize_uint32 :: "buff \<Rightarrow> u32 \<Rightarrow> (bool \<times> u32 \<times> buff) option" where
  "deserialize_uint32 b val =
     do { (r, bs, b) \<leftarrow> deserialize_bytes b (le_bytes val) 4; Some (r, le_word bs, b) }"

definition deserialize_uint64 :: "buff \<Rightarrow> u64 \<Rightarrow> (bool \<times> u64 \<times> buff) option" where
  "deserialize_uint64 b val =
     do { (r, bs, b) \<leftarrow> deserialize_bytes b (le_bytes val) 8; Some (r, le_word bs, b) }"

definition deserialize_uint256 :: "buff \<Rightarrow> uint256 \<Rightarrow> (bool \<times> uint256 \<times> buff) option" where
  "deserialize_uint256 b val =
     do { (r, bs, b) \<leftarrow> deserialize_bytes b (le_bytes val) 32; Some (r, le_word bs, b) }"

section \<open>Variable-length integers and strings\<close>

definition deserialize_varint :: "buff \<Rightarrow> u64 \<Rightarrow> (bool \<times> u64 \<times> buff) option" where
  "deserialize_varint b val = do {
     (r, c, b) \<leftarrow> deserialize_uint8 b 0;
     if r then Some (r, val, b)
     else if c < 253 then Some (r, ucast c, b)
     else if c = 253 then do { (r, len16, b) \<leftarrow> deserialize_uint16 b 0; Some (r, ucast len16, b) }
     else if c = 254 then do { (r, len32, b) \<leftarrow> deserialize_uint32 b 0; Some (r, ucast len32, b) }
     else deserialize_uint64 b 0
   }"

text \<open>\<open>str\<close> has room for \<open>length str\<close> bytes (\<open>size\<close> in the source).\<close>

definition deserialize_str :: "buff \<Rightarrow> byte list \<Rightarrow> (bool \<times> byte list \<times> buff) option" where
  "deserialize_str b str = (let size = length str; str = replicate size 0 in do {
     (r, n, b) \<leftarrow> deserialize_varint b 0;
     if r then Some (r, str, b)
     else if n = 0 then Some (False, str, b)
     else if size \<le> unat n then Some (True, str, b)
     else deserialize_bytes b (str[size - 1 := 0, unat n := 0]) n
   })"

text \<open>The allocated string (a null pointer when empty or on failure) and its length.\<close>

definition deserialize_str_alloc :: "buff \<Rightarrow> (bool \<times> (memory \<times> u64) \<times> buff) option" where
  "deserialize_str_alloc b = do {
     (r, n, b) \<leftarrow> deserialize_varint b 0;
     if r then Some (r, (None, 0), b)
     else if n = 0 then Some (False, (None, 0), b)
     else do {
       left \<leftarrow> buff_space_left b;
       if left < n then Some (True, (None, 0), b)
       else do {
         (r, str, b) \<leftarrow> deserialize_bytes b (replicate (unat (n + 1)) 0) n;
         if r then Some (True, (None, 0), b) else Some (False, (Some str, n), b)
       }
     }
   }"

section \<open>Transactions and blocks\<close>

text \<open>The loops of \<open>deserialize_tx\<close> and \<open>deserialize_block\<close> fill a zeroed array and
  return at the first failure, with the entry that failed as far as it was read.\<close>

primrec read_array ::
  "(buff \<Rightarrow> 'a \<Rightarrow> (bool \<times> 'a \<times> buff) option) \<Rightarrow> 'a \<Rightarrow> nat \<Rightarrow> buff \<Rightarrow>
   (bool \<times> 'a list \<times> buff) option" where
  "read_array f zero 0 b = Some (False, [], b)"
| "read_array f zero (Suc n) b = do {
     (r, x, b) \<leftarrow> f b zero;
     if r then Some (True, x # replicate n zero, b)
     else do { (r, xs, b) \<leftarrow> read_array f zero n b; Some (r, x # xs, b) }
   }"

definition deserialize_tx_in :: "buff \<Rightarrow> btc_msg_tx_in \<Rightarrow> (bool \<times> btc_msg_tx_in \<times> buff) option" where
  "deserialize_tx_in b ti = do {
     (r1, v, b) \<leftarrow> deserialize_uint256 b (ti_prevTxHash ti);
     let ti = ti\<lparr>ti_prevTxHash := v\<rparr>;
     (r2, v, b) \<leftarrow> deserialize_uint32 b (ti_prevTxOutIdx ti);
     let ti = ti\<lparr>ti_prevTxOutIdx := v\<rparr>;
     (r3, v, b) \<leftarrow> deserialize_varint b (ti_scriptLength ti);
     let ti = ti\<lparr>ti_scriptLength := v\<rparr>;
     left \<leftarrow> (if r1 \<or> r2 \<or> r3 then Some 0 else buff_space_left b);
     if (r1 \<or> r2 \<or> r3) \<or> left < ti_scriptLength ti then Some (True, ti, b)
     else do {
       (r4, v, b) \<leftarrow> deserialize_bytes b (safe_malloc (unat (ti_scriptLength ti))) (ti_scriptLength ti);
       let ti = ti\<lparr>ti_scriptSig := Some v\<rparr>;
       (r5, v, b) \<leftarrow> deserialize_uint32 b (ti_sequence ti);
       let ti = ti\<lparr>ti_sequence := v\<rparr>;
       Some (r4 \<or> r5, ti, b)
     }
   }"

definition deserialize_tx_out :: "buff \<Rightarrow> btc_msg_tx_out \<Rightarrow> (bool \<times> btc_msg_tx_out \<times> buff) option" where
  "deserialize_tx_out b tout = do {
     (r1, v, b) \<leftarrow> deserialize_uint64 b (to_value tout);
     let tout = tout\<lparr>to_value := v\<rparr>;
     (r2, v, b) \<leftarrow> deserialize_varint b (to_scriptLength tout);
     let tout = tout\<lparr>to_scriptLength := v\<rparr>;
     left \<leftarrow> (if r1 \<or> r2 then Some 0 else buff_space_left b);
     if (r1 \<or> r2) \<or> left < to_scriptLength tout then Some (True, tout, b)
     else do {
       (r3, v, b) \<leftarrow> deserialize_bytes b (safe_malloc (unat (to_scriptLength tout))) (to_scriptLength tout);
       Some (r3, tout\<lparr>to_scriptPubKey := Some v\<rparr>, b)
     }
   }"

definition deserialize_tx :: "buff \<Rightarrow> btc_msg_tx \<Rightarrow> (bool \<times> btc_msg_tx \<times> buff) option" where
  "deserialize_tx b tx = (let tx = btc_msg_tx_zero in do {
     (r1, v, b) \<leftarrow> deserialize_uint32 b (tx_version tx);
     let tx = tx\<lparr>tx_version := v\<rparr>;
     (r2, v, b) \<leftarrow> deserialize_varint b (tx_in_count tx);
     let tx = tx\<lparr>tx_in_count := v\<rparr>;
     left \<leftarrow> (if r1 \<or> r2 then Some 0 else buff_space_left b);
     if (r1 \<or> r2) \<or> left div 41 < tx_in_count tx then Some (True, tx\<lparr>tx_in_count := 0\<rparr>, b)
     else do {
       (r, ins, b) \<leftarrow> read_array deserialize_tx_in btc_msg_tx_in_zero (unat (tx_in_count tx)) b;
       let tx = tx\<lparr>tx_tx_in := ins\<rparr>;
       if r then Some (True, tx, b)
       else do {
         (r, v, b) \<leftarrow> deserialize_varint b (tx_out_count tx);
         let tx = tx\<lparr>tx_out_count := v\<rparr>;
         left \<leftarrow> (if r then Some 0 else buff_space_left b);
         if r \<or> left div 9 < tx_out_count tx then Some (True, tx\<lparr>tx_out_count := 0\<rparr>, b)
         else do {
           (r, outs, b) \<leftarrow> read_array deserialize_tx_out btc_msg_tx_out_zero (unat (tx_out_count tx)) b;
           let tx = tx\<lparr>tx_tx_out := outs\<rparr>;
           if r then Some (True, tx, b)
           else do {
             (r, v, b) \<leftarrow> deserialize_uint32 b (tx_lock_time tx);
             Some (r, tx\<lparr>tx_lock_time := v\<rparr>, b)
           }
         }
       }
     }
   })"

definition deserialize_blockheader ::
  "buff \<Rightarrow> btc_block_header \<Rightarrow> (bool \<times> btc_block_header \<times> buff) option" where
  "deserialize_blockheader b hdr = do {
     (r1, ver, b) \<leftarrow> deserialize_uint32 b (bh_version hdr);
     (r2, prev, b) \<leftarrow> deserialize_uint256 b (bh_prevBlock hdr);
     (r3, root, b) \<leftarrow> deserialize_uint256 b (bh_merkleRoot hdr);
     (r4, ts, b) \<leftarrow> deserialize_uint32 b (bh_timestamp hdr);
     (r5, bits, b) \<leftarrow> deserialize_uint32 b (bh_bits hdr);
     (r6, nonce, b) \<leftarrow> deserialize_uint32 b (bh_nonce hdr);
     Some (r1 \<or> r2 \<or> r3 \<or> r4 \<or> r5 \<or> r6,
       \<lparr>bh_version = ver, bh_prevBlock = prev, bh_merkleRoot = root, bh_timestamp = ts,
        bh_bits = bits, bh_nonce = nonce\<rparr>, b)
   }"

definition deserialize_block ::
  "buff \<Rightarrow> btc_msg_block \<Rightarrow> (bool \<times> btc_msg_block \<times> buff) option" where
  "deserialize_block b blk = (let blk = blk\<lparr>blk_tx := [], blk_txCount := 0\<rparr> in do {
     (r1, h, b) \<leftarrow> deserialize_blockheader b (blk_header blk);
     let blk = blk\<lparr>blk_header := h\<rparr>;
     (r2, v, b) \<leftarrow> deserialize_varint b (blk_txCount blk);
     let blk = blk\<lparr>blk_txCount := v\<rparr>;
     left \<leftarrow> (if r1 \<or> r2 then Some 0 else buff_space_left b);
     if (r1 \<or> r2) \<or> left div 10 < blk_txCount blk then Some (True, blk\<lparr>blk_txCount := 0\<rparr>, b)
     else do {
       (r, txs, b) \<leftarrow> read_array deserialize_tx btc_msg_tx_zero (unat (blk_txCount blk)) b;
       let blk = blk\<lparr>blk_tx := txs\<rparr>;
       if r then Some (True, blk, b)
       else do {
         left \<leftarrow> buff_space_left b;
         Some (left \<noteq> 0, blk, b)
       }
     }
   })"

section \<open>Addresses, inventories, version\<close>

definition deserialize_addr ::
  "u32 \<Rightarrow> buff \<Rightarrow> btc_msg_address \<Rightarrow> (bool \<times> btc_msg_address \<times> buff) option" where
  "deserialize_addr protversion b addr = (let addr = addr\<lparr>ad_time := 0\<rparr> in do {
     (r0, t, b) \<leftarrow> (if BTC_PROTO_ADDR_W_TIME \<le> protversion
                    then deserialize_uint32 b (ad_time addr) else Some (False, ad_time addr, b));
     (r1, s, b) \<leftarrow> deserialize_uint64 b (ad_services addr);
     (r2, ip, b) \<leftarrow> deserialize_bytes b (le_bytes (ad_ip addr)) 16;
     (r3, p, b) \<leftarrow> deserialize_uint16 b (ad_port addr);
     Some (r0 \<or> r1 \<or> r2 \<or> r3,
       \<lparr>ad_services = s, ad_ip = le_word ip, ad_time = t, ad_port = p\<rparr>, b)
   })"

definition deserialize_inv :: "buff \<Rightarrow> btc_msg_inv \<Rightarrow> (bool \<times> btc_msg_inv \<times> buff) option" where
  "deserialize_inv b iv = do {
     (r, t, b) \<leftarrow> deserialize_uint32 b (inv_type iv);
     let iv = iv\<lparr>inv_type := t\<rparr>;
     if r then Some (r, iv, b)
     else do {
       (r, bs, b) \<leftarrow> deserialize_bytes b (le_bytes (inv_hash iv)) 32;
       Some (r, iv\<lparr>inv_hash := le_word bs\<rparr>, b)
     }
   }"

definition deserialize_version ::
  "buff \<Rightarrow> btc_msg_version \<Rightarrow> (bool \<times> btc_msg_version \<times> buff) option" where
  "deserialize_version b v = (let v = btc_msg_version_zero in do {
     (r1, ver, b) \<leftarrow> deserialize_uint32 b (v_version v);
     (r2, srv, b) \<leftarrow> deserialize_uint64 b (v_services v);
     (r3, tm, b) \<leftarrow> deserialize_uint64 b (v_time v);
     (r4, ato, b) \<leftarrow> deserialize_addr BTC_PROTO_MIN b (v_addrTo v);
     (r5, afrom, b) \<leftarrow> deserialize_addr BTC_PROTO_MIN b (v_addrFrom v);
     (r6, nonce, b) \<leftarrow> deserialize_uint64 b (v_nonce v);
     (r7, str, b) \<leftarrow> deserialize_str b (v_strVersion v);
     (r8, height, b) \<leftarrow> deserialize_uint32 b (v_startingHeight v);
     left \<leftarrow> buff_space_left b;
     (r9, relay, b) \<leftarrow> (if BTC_PROTO_FILTERING \<le> ver \<and> 0 < left
                       then deserialize_uint8 b (v_relayTx v) else Some (False, 1, b));
     left \<leftarrow> buff_space_left b;
     Some (left \<noteq> 0 \<or> r1 \<or> r2 \<or> r3 \<or> r4 \<or> r5 \<or> r6 \<or> r7 \<or> r8 \<or> r9,
       \<lparr>v_version = ver, v_services = srv, v_time = tm, v_addrTo = ato, v_addrFrom = afrom,
        v_nonce = nonce, v_strVersion = str, v_startingHeight = height, v_relayTx = relay\<rparr>, b)
   })"

section \<open>Writers\<close>

definition serialize_bytes :: "buff \<Rightarrow> byte list \<Rightarrow> u64 \<Rightarrow> (bool \<times> buff) option" where
  "serialize_bytes b src n = buff_copy_to b src n"

definition serialize_uint8 :: "buff \<Rightarrow> byte \<Rightarrow> (bool \<times> buff) option" where
  "serialize_uint8 b val = serialize_bytes b (le_bytes val) 1"

definition serialize_uint16 :: "buff \<Rightarrow> u16 \<Rightarrow> (bool \<times> buff) option" where
  "serialize_uint16 b val = serialize_bytes b (le_bytes val) 2"

definition serialize_uint32 :: "buff \<Rightarrow> u32 \<Rightarrow> (bool \<times> buff) option" where
  "serialize_uint32 b val = serialize_bytes b (le_bytes val) 4"

definition serialize_uint64 :: "buff \<Rightarrow> u64 \<Rightarrow> (bool \<times> buff) option" where
  "serialize_uint64 b val = serialize_bytes b (le_bytes val) 8"

definition serialize_uint256 :: "buff \<Rightarrow> uint256 \<Rightarrow> (bool \<times> buff) option" where
  "serialize_uint256 b val = serialize_bytes b (le_bytes val) 32"

definition serialize_varint :: "buff \<Rightarrow> u64 \<Rightarrow> (bool \<times> buff) option" where
  "serialize_varint b val =
     (if val < 253 then serialize_uint8 b (ucast val)
      else if val < 0x10000 then do {
        (r, b) \<leftarrow> serialize_uint8 b 253;
        if r then Some (r, b) else serialize_uint16 b (ucast val)
      }
      else do {
        (r, b) \<leftarrow> serialize_uint8 b 254;
        if r then Some (r, b) else serialize_uint32 b (ucast val)
      })"

text \<open>\<open>strlen\<close> of an array; undefined when the array holds no zero byte.\<close>

definition c_strlen :: "byte list \<Rightarrow> nat option" where
  "c_strlen s = (if 0 \<in> set s then Some (length (takeWhile (\<lambda>c. c \<noteq> 0) s)) else None)"

definition serialize_str :: "buff \<Rightarrow> memory \<Rightarrow> (bool \<times> buff) option" where
  "serialize_str b str = do {
     n \<leftarrow> (case str of None \<Rightarrow> Some 0 | Some s \<Rightarrow> c_strlen s);
     (r, b) \<leftarrow> serialize_varint b (of_nat n);
     if r then Some (r, b)
     else serialize_bytes b (case str of None \<Rightarrow> [] | Some s \<Rightarrow> s) (of_nat n)
   }"

text \<open>The \<open>for\<close> loops of the writers accumulate the codes and never stop early. The
  array must have the entries that the count names.\<close>

primrec write_array :: "(buff \<Rightarrow> 'a \<Rightarrow> (bool \<times> buff) option) \<Rightarrow> nat \<Rightarrow> 'a list \<Rightarrow> buff \<Rightarrow>
   (bool \<times> buff) option" where
  "write_array f 0 xs b = Some (False, b)"
| "write_array f (Suc n) xs b = (case xs of [] \<Rightarrow> None
     | x # xs \<Rightarrow> do { (r1, b) \<leftarrow> f b x; (r2, b) \<leftarrow> write_array f n xs b; Some (r1 \<or> r2, b) })"

definition serialize_tx_in :: "buff \<Rightarrow> btc_msg_tx_in \<Rightarrow> (bool \<times> buff) option" where
  "serialize_tx_in b ti = do {
     (r1, b) \<leftarrow> serialize_uint256 b (ti_prevTxHash ti);
     (r2, b) \<leftarrow> serialize_uint32 b (ti_prevTxOutIdx ti);
     (r3, b) \<leftarrow> serialize_varint b (ti_scriptLength ti);
     (r4, b) \<leftarrow> serialize_bytes b (case ti_scriptSig ti of None \<Rightarrow> [] | Some s \<Rightarrow> s) (ti_scriptLength ti);
     (r5, b) \<leftarrow> serialize_uint32 b (ti_sequence ti);
     Some (r1 \<or> r2 \<or> r3 \<or> r4 \<or> r5, b)
   }"

definition serialize_tx_out :: "buff \<Rightarrow> btc_msg_tx_out \<Rightarrow> (bool \<times> buff) option" where
  "serialize_tx_out b tout = do {
     (r1, b) \<leftarrow> serialize_uint64 b (to_value tout);
     (r2, b) \<leftarrow> serialize_varint b (to_scriptLength tout);
     (r3, b) \<leftarrow> serialize_bytes b (case to_scriptPubKey tout of None \<Rightarrow> [] | Some s \<Rightarrow> s) (to_scriptLength tout);
     Some (r1 \<or> r2 \<or> r3, b)
   }"

definition serialize_tx :: "buff \<Rightarrow> btc_msg_tx \<Rightarrow> (bool \<times> buff) option" where
  "serialize_tx b tx = do {
     (r1, b) \<leftarrow> serialize_uint32 b (tx_version tx);
     (r2, b) \<leftarrow> serialize_varint b (tx_in_count tx);
     (r3, b) \<leftarrow> write_array serialize_tx_in (unat (tx_in_count tx)) (tx_tx_in tx) b;
     (r4, b) \<leftarrow> serialize_varint b (tx_out_count tx);
     (r5, b) \<leftarrow> write_array serialize_tx_out (unat (tx_out_count tx)) (tx_tx_out tx) b;
     (r6, b) \<leftarrow> serialize_uint32 b (tx_lock_time tx);
     Some (r1 \<or> r2 \<or> r3 \<or> r4 \<or> r5 \<or> r6, b)
   }"

definition serialize_msgheader :: "buff \<Rightarrow> btc_msg_header \<Rightarrow> (bool \<times> buff) option" where
  "serialize_msgheader b h = do {
     (r1, b) \<leftarrow> serialize_uint32 b (mh_magic h);
     (r2, b) \<leftarrow> serialize_bytes b (mh_message h) 12;
     (r3, b) \<leftarrow> serialize_uint32 b (mh_payloadLength h);
     (r4, b) \<leftarrow> serialize_bytes b (mh_checksum h) 4;
     Some (r1 \<or> r2 \<or> r3 \<or> r4, b)
   }"

definition serialize_addr :: "buff \<Rightarrow> btc_msg_address \<Rightarrow> (bool \<times> buff) option" where
  "serialize_addr b addr = do {
     (r1, b) \<leftarrow> serialize_uint64 b (ad_services addr);
     (r2, b) \<leftarrow> serialize_bytes b (le_bytes (ad_ip addr)) 16;
     (r3, b) \<leftarrow> serialize_uint16 b (ad_port addr);
     Some (r1 \<or> r2 \<or> r3, b)
   }"

definition serialize_version :: "buff \<Rightarrow> btc_msg_version \<Rightarrow> (bool \<times> buff) option" where
  "serialize_version b v = do {
     (r1, b) \<leftarrow> serialize_uint32 b (v_version v);
     (r2, b) \<leftarrow> serialize_uint64 b (v_services v);
     (r3, b) \<leftarrow> serialize_uint64 b (v_time v);
     (r4, b) \<leftarrow> serialize_addr b (v_addrTo v);
     (r5, b) \<leftarrow> serialize_addr b (v_addrFrom v);
     (r6, b) \<leftarrow> serialize_uint64 b (v_nonce v);
     (r7, b) \<leftarrow> serialize_str b (Some (v_strVersion v));
     (r8, b) \<leftarrow> serialize_uint32 b (v_startingHeight v);
     (r9, b) \<leftarrow> (if BTC_PROTO_FILTERING \<le> v_version v
                 then serialize_uint8 b (v_relayTx v) else Some (False, b));
     Some (r1 \<or> r2 \<or> r3 \<or> r4 \<or> r5 \<or> r6 \<or> r7 \<or> r8 \<or> r9, b)
   }"

definition serialize_blocklocator :: "buff \<Rightarrow> btc_block_locator \<Rightarrow> (bool \<times> buff) option" where
  "serialize_blocklocator b bl = do {
     (r1, b) \<leftarrow> serialize_uint32 b (bl_protversion bl);
     (r2, b) \<leftarrow> serialize_varint b (of_nat (bl_numHashes bl));
     (r3, b) \<leftarrow> write_array serialize_uint256 (bl_numHashes bl) (bl_hashArray bl) b;
     (r4, b) \<leftarrow> serialize_uint256 b (bl_hashStop bl);
     Some (r1 \<or> r2 \<or> r3 \<or> r4, b)
   }"

definition serialize_inv :: "buff \<Rightarrow> btc_msg_inv \<Rightarrow> (bool \<times> buff) option" where
  "serialize_inv b iv = do {
     (r1, b) \<leftarrow> serialize_uint32 b (inv_type iv);
     (r2, b) \<leftarrow> serialize_bytes b (le_bytes (inv_hash iv)) 32;
     Some (r1 \<or> r2, b)
   }"

section \<open>The wire format\<close>

definition enc_varint :: "u64 \<Rightarrow> byte list" where
  "enc_varint v = (if v < 253 then [ucast v]
     else if v < 0x10000 then 253 # le_bytes (ucast v :: u16)
     else 254 # le_bytes (ucast v :: u32))"

definition enc_tx_in :: "btc_msg_tx_in \<Rightarrow> byte list" where
  "enc_tx_in ti = le_bytes (ti_prevTxHash ti) @ le_bytes (ti_prevTxOutIdx ti) @
     enc_varint (ti_scriptLength ti) @ the (ti_scriptSig ti) @ le_bytes (ti_sequence ti)"

definition enc_tx_out :: "btc_msg_tx_out \<Rightarrow> byte list" where
  "enc_tx_out tout = le_bytes (to_value tout) @ enc_varint (to_scriptLength tout) @
     the (to_scriptPubKey tout)"

definition enc_tx :: "btc_msg_tx \<Rightarrow> byte list" where
  "enc_tx tx = le_bytes (tx_version tx) @ enc_varint (tx_in_count tx) @
     concat (map enc_tx_in (tx_tx_in tx)) @ enc_varint (tx_out_count tx) @
     concat (map enc_tx_out (tx_tx_out tx)) @ le_bytes (tx_lock_time tx)"

definition enc_inv :: "btc_msg_inv \<Rightarrow> byte list" where
  "enc_inv iv = le_bytes (inv_type iv) @ le_bytes (inv_hash iv)"

definition enc_blockheader :: "btc_block_header \<Rightarrow> byte list" where
  "enc_blockheader h = le_bytes (bh_version h) @ le_bytes (bh_prevBlock h) @
     le_bytes (bh_merkleRoot h) @ le_bytes (bh_timestamp h) @ le_bytes (bh_bits h) @
     le_bytes (bh_nonce h)"

definition enc_addr :: "btc_msg_address \<Rightarrow> byte list" where
  "enc_addr ad = le_bytes (ad_services ad) @ le_bytes (ad_ip ad) @ le_bytes (ad_port ad)"

definition c_string :: "byte list \<Rightarrow> byte list" where
  "c_string s = takeWhile (\<lambda>c. c \<noteq> 0) s"

definition enc_str :: "byte list \<Rightarrow> byte list" where
  "enc_str s = enc_varint (of_nat (length (c_string s))) @ c_string s"

definition enc_version :: "btc_msg_version \<Rightarrow> byte list" where
  "enc_version v = le_bytes (v_version v) @ le_bytes (v_services v) @ le_bytes (v_time v) @
     enc_addr (v_addrTo v) @ enc_addr (v_addrFrom v) @ le_bytes (v_nonce v) @
     enc_str (v_strVersion v) @ le_bytes (v_startingHeight v) @
     (if BTC_PROTO_FILTERING \<le> v_version v then le_bytes (v_relayTx v) else [])"

text \<open>A version as \<open>btcmsg_prepare_version\<close> builds them: a zero-padded string in the
  80-byte array, no time in the addresses (it is not sent) and, below protocol version 70001,
  the default for the relay flag.\<close>

definition ok_version :: "btc_msg_version \<Rightarrow> bool" where
  "ok_version v \<longleftrightarrow> length (v_strVersion v) = 80 \<and> length (c_string (v_strVersion v)) < 80 \<and>
     v_strVersion v = c_string (v_strVersion v) @
       replicate (80 - length (c_string (v_strVersion v))) 0 \<and>
     ad_time (v_addrTo v) = 0 \<and> ad_time (v_addrFrom v) = 0 \<and>
     (BTC_PROTO_FILTERING \<le> v_version v \<or> v_relayTx v = 1)"

text \<open>What the writers can represent: counts that match their arrays, and counts and
  lengths below \<open>2 ^ 32\<close>, since \<open>serialize_varint\<close> has no 64-bit form.\<close>

definition ok_varint :: "u64 \<Rightarrow> bool" where
  "ok_varint v \<longleftrightarrow> v < 0x100000000"

definition ok_tx_in :: "btc_msg_tx_in \<Rightarrow> bool" where
  "ok_tx_in ti \<longleftrightarrow> ok_varint (ti_scriptLength ti) \<and>
     (case ti_scriptSig ti of None \<Rightarrow> False | Some s \<Rightarrow> length s = unat (ti_scriptLength ti))"

definition ok_tx_out :: "btc_msg_tx_out \<Rightarrow> bool" where
  "ok_tx_out tout \<longleftrightarrow> ok_varint (to_scriptLength tout) \<and>
     (case to_scriptPubKey tout of None \<Rightarrow> False | Some s \<Rightarrow> length s = unat (to_scriptLength tout))"

definition ok_tx :: "btc_msg_tx \<Rightarrow> bool" where
  "ok_tx tx \<longleftrightarrow> ok_varint (tx_in_count tx) \<and> length (tx_tx_in tx) = unat (tx_in_count tx) \<and>
     list_all ok_tx_in (tx_tx_in tx) \<and> ok_varint (tx_out_count tx) \<and>
     length (tx_tx_out tx) = unat (tx_out_count tx) \<and> list_all ok_tx_out (tx_tx_out tx)"

section \<open>The contract of a writer and a reader\<close>

locale codec =
  fixes enc :: "'a \<Rightarrow> byte list"
    and ok :: "'a \<Rightarrow> bool"
    and ser :: "buff \<Rightarrow> 'a \<Rightarrow> (bool \<times> buff) option"
    and des :: "buff \<Rightarrow> 'a \<Rightarrow> (bool \<times> 'a \<times> buff) option"
  assumes ser_appends: "\<lbrakk>ok x; buff_growing b; length (buff_data b) + length (enc x) < 2 ^ 60\<rbrakk> \<Longrightarrow>
      appends b (ser b x) (enc x)"
    and des_enc: "\<lbrakk>ok x; buff_wf b; buff_rest b = enc x @ ys\<rbrakk> \<Longrightarrow>
      des b old = Some (False, x, buff_adv b (length (enc x)))"
    and des_safe: "buff_wf b \<Longrightarrow> reads_ok b (des b old)"
begin

lemma des_ser:
  assumes "ok x" and "length (enc x) < 2 ^ 60"
  shows "\<exists>b b'. ser buff_alloc x = Some (False, b) \<and>
     des (buff_init (Some (buff_data b)) (of_nat (length (buff_data b)))) old = Some (False, x, b') \<and>
     buff_rest b' = []"
proof -
  have "appends buff_alloc (ser buff_alloc x) (enc x)"
    using assms by (intro ser_appends) simp_all
  then obtain b where b: "ser buff_alloc x = Some (False, b)" "buff_data b = enc x"
    by (auto elim!: appendsE)
  let ?b = "buff_init (Some (enc x)) (of_nat (length (enc x)))"
  have r: "buff_rest ?b = enc x @ []" and wf: "buff_wf ?b"
    using assms buff_init_wf [of "enc x"] by simp_all
  from des_enc [OF assms(1) wf r] b r wf show ?thesis by fastforce
qed

lemma enc_prefix_free:
  assumes "ok x" "ok y" "enc x @ xs = enc y @ ys" "length (enc x @ xs) < 2 ^ 62"
  shows "x = y"
proof -
  let ?b = "buff_init (Some (enc x @ xs)) (of_nat (length (enc x @ xs)))"
  have wf: "buff_wf ?b" and r: "buff_rest ?b = enc x @ xs"
    using buff_init_wf [OF assms(4)] by simp_all
  from des_enc [OF assms(1) wf r, of x] des_enc [OF assms(2) wf, of ys x] r assms(3)
  show ?thesis by simp
qed

lemma write_array_appends:
  assumes "list_all ok xs" and "buff_growing b"
    and "length (buff_data b) + length (concat (map enc xs)) < 2 ^ 60"
  shows "appends b (write_array ser (length xs) xs b) (concat (map enc xs))"
  using assms
proof (induction xs arbitrary: b)
  case Nil
  then show ?case by (simp add: appends_return)
next
  case (Cons x xs)
  have "appends b (ser b x) (enc x)" using Cons.prems by (intro ser_appends) auto
  then show ?case
    using Cons.prems Cons.IH
    by (simp, intro appends_bind)
       (auto intro!: appends_bind [where ys = "[]", simplified] appends_return)
qed

lemma read_array_safe:
  assumes "buff_wf b"
  shows "reads_ok b (read_array des zero n b)"
  using assms
proof (induction n arbitrary: b)
  case 0
  then show ?case by (simp add: reads_ok_return)
next
  case (Suc n)
  then show ?case
    by (auto intro!: reads_ok_bind reads_ok_return des_safe)
qed

lemma read_array_enc:
  assumes "list_all ok xs" and "buff_wf b" and "buff_rest b = concat (map enc xs) @ ys"
  shows "read_array des zero (length xs) b =
     Some (False, xs, buff_adv b (length (concat (map enc xs))))"
  using assms
proof (induction xs arbitrary: b)
  case Nil
  then show ?case by simp
next
  case (Cons x xs)
  have "des b zero = Some (False, x, buff_adv b (length (enc x)))"
    using Cons.prems by (intro des_enc) auto
  with Cons show ?case by simp
qed

end

section \<open>Laws of the readers\<close>

lemma ok_varint_iff: "ok_varint v \<longleftrightarrow> unat v < 2 ^ 32"
  by (simp add: ok_varint_def word_less_nat_alt)

lemma deserialize_bytes_eq:
  assumes "buff_wf b" and "unat n < 2 ^ 63" and "unat n \<le> length dst"
  shows "deserialize_bytes b dst n = (if unat n \<le> length (buff_rest b)
     then Some (False, take (unat n) (buff_rest b) @ drop (unat n) dst, buff_adv b (unat n))
     else Some (True, dst, b))"
  using assms by (simp add: deserialize_bytes_def copy_from_ok copy_from_short)

lemma deserialize_uint_eqs:
  assumes "buff_wf b"
  shows "deserialize_uint8 b x1 = (if 1 \<le> length (buff_rest b)
      then Some (False, le_word (take 1 (buff_rest b)), buff_adv b 1) else Some (True, x1, b))"
    and "deserialize_uint16 b x2 = (if 2 \<le> length (buff_rest b)
      then Some (False, le_word (take 2 (buff_rest b)), buff_adv b 2) else Some (True, x2, b))"
    and "deserialize_uint32 b x4 = (if 4 \<le> length (buff_rest b)
      then Some (False, le_word (take 4 (buff_rest b)), buff_adv b 4) else Some (True, x4, b))"
    and "deserialize_uint64 b x8 = (if 8 \<le> length (buff_rest b)
      then Some (False, le_word (take 8 (buff_rest b)), buff_adv b 8) else Some (True, x8, b))"
    and "deserialize_uint256 b x32 = (if 32 \<le> length (buff_rest b)
      then Some (False, le_word (take 32 (buff_rest b)), buff_adv b 32) else Some (True, x32, b))"
  using assms
  by (simp_all add: deserialize_uint8_def deserialize_uint16_def deserialize_uint32_def
      deserialize_uint64_def deserialize_uint256_def deserialize_bytes_eq)

lemma read_uint_safe [reads_intros]:
  assumes "buff_wf b"
  shows "reads_ok b (deserialize_uint8 b x1)" "reads_ok b (deserialize_uint16 b x2)"
    "reads_ok b (deserialize_uint32 b x4)" "reads_ok b (deserialize_uint64 b x8)"
    "reads_ok b (deserialize_uint256 b x32)"
  using assms
  by (auto simp: deserialize_uint_eqs intro: reads_ok_return reads_okI)

lemma deserialize_bytes_safe [reads_intros]:
  assumes "buff_wf b" and "unat n < 2 ^ 63 \<or> unat n \<le> length (buff_rest b)"
    and "unat n \<le> length dst"
  shows "reads_ok b (deserialize_bytes b dst n)"
  using assms length_buff_rest_bound [OF assms(1)]
  by (auto simp: deserialize_bytes_def intro!: reads_ok_copy_from)

lemma deserialize_varint_safe [reads_intros]:
  "buff_wf b \<Longrightarrow> reads_ok b (deserialize_varint b v)"
  unfolding deserialize_varint_def
  by (auto intro!: reads_intros)

lemma length_enc_varint: "length (enc_varint v) \<le> 5" "1 \<le> length (enc_varint v)"
  by (simp_all add: enc_varint_def)

lemma take_bit_word_small:
  "unat v < 2 ^ n \<Longrightarrow> take_bit n v = (v :: 'a::len word)"
  by (simp add: word_unat_eq_iff unsigned_take_bit_eq take_bit_nat_eq_self)

lemma ucast_ucast_small:
  "unat v < 2 ^ LENGTH('b) \<Longrightarrow> ucast (ucast (v :: 'a::len word) :: 'b::len word) = v"
  by (simp add: word_unat_eq_iff unsigned_ucast_eq take_bit_nat_eq_self take_bit_word_small)

lemma deserialize_varint_enc:
  assumes "ok_varint v" and "buff_wf b" and "buff_rest b = enc_varint v @ ys"
  shows "deserialize_varint b old = Some (False, v, buff_adv b (length (enc_varint v)))"
proof -
  consider "v < 253" | "\<not> v < 253" "v < 0x10000" | "\<not> v < 253" "\<not> v < 0x10000"
    by blast
  then show ?thesis
  proof cases
    case 1
    then have "unat v < 253" by (simp add: word_less_nat_alt)
    with 1 assms show ?thesis
      by (simp add: deserialize_varint_def enc_varint_def deserialize_uint_eqs word_less_nat_alt
          take_bit_word_small unsigned_ucast_eq take_bit_nat_eq_self)
  next
    case 2
    then have "unat v < 65536" by (simp add: word_less_nat_alt)
    with 2 assms show ?thesis
      by (simp add: deserialize_varint_def enc_varint_def deserialize_uint_eqs ucast_ucast_small
          numeral_3_eq_3)
  next
    case 3
    with assms show ?thesis
      by (simp add: deserialize_varint_def enc_varint_def deserialize_uint_eqs ucast_ucast_small
        ok_varint_iff)
  qed
qed

lemma deserialize_tx_in_safe [reads_intros]:
  "buff_wf b \<Longrightarrow> reads_ok b (deserialize_tx_in b ti)"
  unfolding deserialize_tx_in_def Let_def
  by (auto intro!: reads_intros simp: space_left_eq safe_malloc_def word_less_nat_alt)

lemma deserialize_tx_out_safe [reads_intros]:
  "buff_wf b \<Longrightarrow> reads_ok b (deserialize_tx_out b tout)"
  unfolding deserialize_tx_out_def Let_def
  by (auto intro!: reads_intros simp: space_left_eq safe_malloc_def word_less_nat_alt)

section \<open>Laws of the writers\<close>

lemma serialize_bytes_appends [appends_intros]:
  "buff_growing b \<Longrightarrow> unat n = length src \<Longrightarrow> length (buff_data b) + length src < 2 ^ 60 \<Longrightarrow>
     appends b (serialize_bytes b src n) src"
  by (simp add: serialize_bytes_def copy_to_appends)

lemma serialize_uint_appends [appends_intros]:
  assumes b: "buff_growing b"
  shows "length (buff_data b) + 1 < 2 ^ 60 \<Longrightarrow> appends b (serialize_uint8 b x1) (le_bytes x1)"
    "length (buff_data b) + 2 < 2 ^ 60 \<Longrightarrow> appends b (serialize_uint16 b x2) (le_bytes x2)"
    "length (buff_data b) + 4 < 2 ^ 60 \<Longrightarrow> appends b (serialize_uint32 b x4) (le_bytes x4)"
    "length (buff_data b) + 8 < 2 ^ 60 \<Longrightarrow> appends b (serialize_uint64 b x8) (le_bytes x8)"
    "length (buff_data b) + 32 < 2 ^ 60 \<Longrightarrow> appends b (serialize_uint256 b x32) (le_bytes x32)"
  using b
  by (auto simp: serialize_uint8_def serialize_uint16_def serialize_uint32_def
      serialize_uint64_def serialize_uint256_def intro!: serialize_bytes_appends)

lemma le_bytes_byte: "le_bytes (c :: byte) = [c]"
  by (simp add: le_bytes_def)

lemma serialize_varint_appends [appends_intros]:
  assumes "buff_growing b" and "length (buff_data b) + length (enc_varint v) < 2 ^ 60"
  shows "appends b (serialize_varint b v) (enc_varint v)"
proof -
  have l: "length (buff_data b) + 1 < 2 ^ 60" using assms length_enc_varint(2) [of v] by linarith
  have *: "appends b (serialize_uint8 b c \<bind> f) (c # ys)"
    if "\<And>b'. buff_growing b' \<Longrightarrow> buff_data b' = buff_data b @ [c] \<Longrightarrow> appends b' (f (False, b')) ys"
    for c f ys
    using appends_bind [of b "serialize_uint8 b c" "le_bytes c" f ys] that
      serialize_uint_appends(1) [of b c] assms(1) l by (simp add: le_bytes_byte)
  show ?thesis
    using assms unfolding serialize_varint_def enc_varint_def
    by (auto intro!: * serialize_uint_appends simp flip: le_bytes_byte split: if_splits)
qed

lemma serialize_tx_in_appends:
  assumes "ok_tx_in ti" and "buff_growing b" and "length (buff_data b) + length (enc_tx_in ti) < 2 ^ 60"
  shows "appends b (serialize_tx_in b ti) (enc_tx_in ti)"
  using assms unfolding serialize_tx_in_def enc_tx_in_def ok_tx_in_def
  by (auto intro!: appends_intros split: option.splits)


lemma serialize_tx_out_appends:
  assumes "ok_tx_out tout" and "buff_growing b"
    and "length (buff_data b) + length (enc_tx_out tout) < 2 ^ 60"
  shows "appends b (serialize_tx_out b tout) (enc_tx_out tout)"
  using assms unfolding serialize_tx_out_def enc_tx_out_def ok_tx_out_def
  by (auto intro!: appends_intros split: option.splits)

lemma serialize_inv_appends:
  assumes "buff_growing b" and "length (buff_data b) + length (enc_inv iv) < 2 ^ 60"
  shows "appends b (serialize_inv b iv) (enc_inv iv)"
  using assms unfolding serialize_inv_def enc_inv_def
  by (auto intro!: appends_intros)

section \<open>Readers on encoded input\<close>

lemma deserialize_tx_in_enc:
  assumes "ok_tx_in ti" and "buff_wf b" and "buff_rest b = enc_tx_in ti @ ys"
  shows "deserialize_tx_in b old = Some (False, ti, buff_adv b (length (enc_tx_in ti)))"
proof -
  let ?b = "buff_adv b 36" and ?zs = "the (ti_scriptSig ti) @ le_bytes (ti_sequence ti) @ ys"
  have wf: "buff_wf ?b" and r: "buff_rest ?b = enc_varint (ti_scriptLength ti) @ ?zs"
    using assms by (simp_all add: enc_tx_in_def)
  have "deserialize_varint ?b (ti_scriptLength old) =
      Some (False, ti_scriptLength ti, buff_adv ?b (length (enc_varint (ti_scriptLength ti))))"
    using assms wf r by (intro deserialize_varint_enc) (auto simp: ok_tx_in_def)
  with assms wf r show ?thesis
    by (auto simp: deserialize_tx_in_def enc_tx_in_def deserialize_uint_eqs space_left_eq
        deserialize_bytes_eq ok_tx_in_def ok_varint_iff safe_malloc_def word_less_nat_alt
        split: option.splits)
qed


lemma deserialize_tx_out_enc:
  assumes "ok_tx_out tout" and "buff_wf b" and "buff_rest b = enc_tx_out tout @ ys"
  shows "deserialize_tx_out b old = Some (False, tout, buff_adv b (length (enc_tx_out tout)))"
proof -
  let ?b = "buff_adv b 8" and ?zs = "the (to_scriptPubKey tout) @ ys"
  have wf: "buff_wf ?b" and r: "buff_rest ?b = enc_varint (to_scriptLength tout) @ ?zs"
    using assms by (simp_all add: enc_tx_out_def)
  have "deserialize_varint ?b (to_scriptLength old) =
      Some (False, to_scriptLength tout, buff_adv ?b (length (enc_varint (to_scriptLength tout))))"
    using assms wf r by (intro deserialize_varint_enc) (auto simp: ok_tx_out_def)
  with assms wf r show ?thesis
    by (auto simp: deserialize_tx_out_def enc_tx_out_def deserialize_uint_eqs space_left_eq
        deserialize_bytes_eq ok_tx_out_def ok_varint_iff safe_malloc_def word_less_nat_alt
        add.assoc split: option.splits)
qed

lemma deserialize_inv_enc:
  assumes "buff_wf b" and "buff_rest b = enc_inv iv @ ys"
  shows "deserialize_inv b old = Some (False, iv, buff_adv b (length (enc_inv iv)))"
  using assms
  by (simp add: deserialize_inv_def enc_inv_def deserialize_uint_eqs deserialize_bytes_eq)

lemma deserialize_inv_safe [reads_intros]: "buff_wf b \<Longrightarrow> reads_ok b (deserialize_inv b iv)"
  unfolding deserialize_inv_def Let_def
  by (auto intro!: reads_intros)

lemma deserialize_blockheader_enc:
  assumes "buff_wf b" and "buff_rest b = enc_blockheader h @ ys"
  shows "deserialize_blockheader b old = Some (False, h, buff_adv b (length (enc_blockheader h)))"
  using assms
  by (simp add: deserialize_blockheader_def enc_blockheader_def deserialize_uint_eqs)

lemma deserialize_blockheader_safe [reads_intros]:
  "buff_wf b \<Longrightarrow> reads_ok b (deserialize_blockheader b h)"
  unfolding deserialize_blockheader_def
  by (auto intro!: reads_intros)

lemma deserialize_uint_enc:
  assumes "buff_wf b"
  shows "buff_rest b = le_bytes y1 @ ys \<Longrightarrow> deserialize_uint8 b o8 = Some (False, y1, buff_adv b 1)"
    "buff_rest b = le_bytes y2 @ ys \<Longrightarrow> deserialize_uint16 b o16 = Some (False, y2, buff_adv b 2)"
    "buff_rest b = le_bytes y4 @ ys \<Longrightarrow> deserialize_uint32 b o32 = Some (False, y4, buff_adv b 4)"
    "buff_rest b = le_bytes y8 @ ys \<Longrightarrow> deserialize_uint64 b o64 = Some (False, y8, buff_adv b 8)"
    "buff_rest b = le_bytes y32 @ ys \<Longrightarrow> deserialize_uint256 b o256 = Some (False, y32, buff_adv b 32)"
  using assms by (simp_all add: deserialize_uint_eqs)

section \<open>The codecs of the source\<close>

interpretation u8c: codec le_bytes "\<lambda>_. True" serialize_uint8 deserialize_uint8
  by unfold_locales (simp_all add: serialize_uint_appends read_uint_safe deserialize_uint_enc)

interpretation u16c: codec le_bytes "\<lambda>_. True" serialize_uint16 deserialize_uint16
  by unfold_locales (simp_all add: serialize_uint_appends read_uint_safe deserialize_uint_enc)

interpretation u32c: codec le_bytes "\<lambda>_. True" serialize_uint32 deserialize_uint32
  by unfold_locales (simp_all add: serialize_uint_appends read_uint_safe deserialize_uint_enc)

interpretation u64c: codec le_bytes "\<lambda>_. True" serialize_uint64 deserialize_uint64
  by unfold_locales (simp_all add: serialize_uint_appends read_uint_safe deserialize_uint_enc)

interpretation u256c: codec le_bytes "\<lambda>_. True" serialize_uint256 deserialize_uint256
  by unfold_locales (simp_all add: serialize_uint_appends read_uint_safe deserialize_uint_enc)

interpretation varintc: codec enc_varint ok_varint serialize_varint deserialize_varint
  by unfold_locales (auto intro!: appends_intros reads_intros deserialize_varint_enc)

interpretation invc: codec enc_inv "\<lambda>_. True" serialize_inv deserialize_inv
  by unfold_locales (auto intro!: serialize_inv_appends reads_intros deserialize_inv_enc)

interpretation txinc: codec enc_tx_in ok_tx_in serialize_tx_in deserialize_tx_in
  by unfold_locales (auto intro!: serialize_tx_in_appends reads_intros deserialize_tx_in_enc)

interpretation txoutc: codec enc_tx_out ok_tx_out serialize_tx_out deserialize_tx_out
  by unfold_locales (auto intro!: serialize_tx_out_appends reads_intros deserialize_tx_out_enc)

lemmas read_array_safes [reads_intros] = txinc.read_array_safe txoutc.read_array_safe
  u256c.read_array_safe

lemma deserialize_tx_safe [reads_intros]: "buff_wf b \<Longrightarrow> reads_ok b (deserialize_tx b tx)"
  unfolding deserialize_tx_def Let_def
  by (auto intro!: reads_intros simp: space_left_eq)

lemma serialize_tx_appends:
  assumes "ok_tx tx" and "buff_growing b" and "length (buff_data b) + length (enc_tx tx) < 2 ^ 60"
  shows "appends b (serialize_tx b tx) (enc_tx tx)"
proof -
  have n: "unat (tx_in_count tx) = length (tx_tx_in tx)" "unat (tx_out_count tx) = length (tx_tx_out tx)"
    using assms(1) by (simp_all add: ok_tx_def)
  show ?thesis
    using assms unfolding serialize_tx_def enc_tx_def ok_tx_def n
    by (auto intro!: appends_intros txinc.write_array_appends txoutc.write_array_appends)
qed


lemma length_concat_ge:
  assumes "\<And>x. x \<in> set xs \<Longrightarrow> k \<le> length (f x)"
  shows "k * length xs \<le> length (concat (map f xs))"
  using assms by (induction xs) (auto simp: add_mono)

lemma length_enc_tx_in_ge: "41 \<le> length (enc_tx_in ti)"
  using length_enc_varint(2) [of "ti_scriptLength ti"] by (simp add: enc_tx_in_def)

lemma length_enc_tx_out_ge: "9 \<le> length (enc_tx_out tout)"
  using length_enc_varint(2) [of "to_scriptLength tout"] by (simp add: enc_tx_out_def)

lemma count_fits:
  assumes wf: "buff_wf b" and "buff_rest b = concat (map f xs) @ ys" and "0 < unat k"
    and "\<And>x. unat k \<le> length (f x)" and "unat n = length xs"
  shows "\<not> buff_left b div k < n"
proof -
  have "unat k * length xs \<le> length (buff_rest b)"
    using assms length_concat_ge [of xs "unat k" f] by simp
  then have "length xs \<le> length (buff_rest b) div unat k"
    using assms(3) by (simp add: less_eq_div_iff_mult_less_eq mult.commute)
  then show ?thesis using assms by (simp add: word_less_nat_alt unat_div)
qed

lemma deserialize_tx_enc:
  assumes ok: "ok_tx tx" and wf: "buff_wf b" and r: "buff_rest b = enc_tx tx @ ys"
  shows "deserialize_tx b old = Some (False, tx, buff_adv b (length (enc_tx tx)))"
proof -
  let ?ni = "enc_varint (tx_in_count tx)" and ?no = "enc_varint (tx_out_count tx)"
  let ?is = "concat (map enc_tx_in (tx_tx_in tx))" and ?os = "concat (map enc_tx_out (tx_tx_out tx))"
  let ?lt = "le_bytes (tx_lock_time tx)"
  let ?b1 = "buff_adv b 4"
  let ?b2 = "buff_adv b (4 + length ?ni)"
  let ?b3 = "buff_adv b (4 + length ?ni + length ?is)"
  let ?b4 = "buff_adv b (4 + length ?ni + length ?is + length ?no)"
  let ?b5 = "buff_adv b (4 + length ?ni + length ?is + length ?no + length ?os)"
  note len = ok [unfolded ok_tx_def]
  have rs: "buff_rest ?b1 = ?ni @ ?is @ ?no @ ?os @ ?lt @ ys"
    "buff_rest ?b2 = ?is @ ?no @ ?os @ ?lt @ ys" "buff_rest ?b3 = ?no @ ?os @ ?lt @ ys"
    "buff_rest ?b4 = ?os @ ?lt @ ys" "buff_rest ?b5 = ?lt @ ys"
    using wf r by (simp_all add: enc_tx_def)
  have wfs: "buff_wf ?b1" "buff_wf ?b2" "buff_wf ?b3" "buff_wf ?b4" "buff_wf ?b5"
    using wf r by (simp_all add: enc_tx_def)
  have d1: "deserialize_uint32 b v = Some (False, tx_version tx, ?b1)" for v
    using wf r by (simp add: deserialize_uint_eqs enc_tx_def)
  have d2: "deserialize_varint ?b1 v = Some (False, tx_in_count tx, ?b2)" for v
    using len deserialize_varint_enc [OF _ wfs(1) rs(1)] by simp
  have s2: "\<not> buff_left ?b2 div 41 < tx_in_count tx"
    using wfs rs len length_enc_tx_in_ge
    by (intro count_fits [where f = enc_tx_in and xs = "tx_tx_in tx"]) auto
  have d3: "read_array deserialize_tx_in z (unat (tx_in_count tx)) ?b2 = Some (False, tx_tx_in tx, ?b3)" for z
    using len txinc.read_array_enc [OF _ wfs(2) rs(2)] by (simp add: add.assoc)
  have d4: "deserialize_varint ?b3 v = Some (False, tx_out_count tx, ?b4)" for v
    using len deserialize_varint_enc [OF _ wfs(3) rs(3)] by (simp add: add.assoc)
  have s4: "\<not> buff_left ?b4 div 9 < tx_out_count tx"
    using wfs rs len length_enc_tx_out_ge
    by (intro count_fits [where f = enc_tx_out and xs = "tx_tx_out tx"]) auto
  have d5: "read_array deserialize_tx_out z (unat (tx_out_count tx)) ?b4 = Some (False, tx_tx_out tx, ?b5)" for z
    using len txoutc.read_array_enc [OF _ wfs(4) rs(4)] by (simp add: add.assoc)
  have d6: "deserialize_uint32 ?b5 v = Some (False, tx_lock_time tx, buff_adv b (length (enc_tx tx)))" for v
    using wfs rs by (simp add: deserialize_uint_eqs enc_tx_def add.assoc)
  show ?thesis
    using wfs s2 s4
    by (simp add: deserialize_tx_def Let_def d1 d2 d3 d4 d5 d6 space_left_eq btc_msg_tx_zero_def)
qed

interpretation txc: codec enc_tx ok_tx serialize_tx deserialize_tx
  by unfold_locales (simp_all add: serialize_tx_appends deserialize_tx_safe deserialize_tx_enc)

lemma deserialize_block_safe [reads_intros]: "buff_wf b \<Longrightarrow> reads_ok b (deserialize_block b blk)"
  unfolding deserialize_block_def Let_def
  by (auto intro!: reads_intros txc.read_array_safe simp: space_left_eq)

lemma deserialize_addr_safe [reads_intros]: "buff_wf b \<Longrightarrow> reads_ok b (deserialize_addr pv b ad)"
  unfolding deserialize_addr_def Let_def
  by (auto intro!: reads_intros)

lemma deserialize_str_safe [reads_intros]:
  "buff_wf b \<Longrightarrow> length str < 2 ^ 63 \<Longrightarrow> reads_ok b (deserialize_str b str)"
  unfolding deserialize_str_def Let_def
  by (auto intro!: reads_intros)

lemma deserialize_str_alloc_safe [reads_intros]:
  "buff_wf b \<Longrightarrow> reads_ok b (deserialize_str_alloc b)"
  unfolding deserialize_str_alloc_def
  by (auto intro!: reads_intros simp: space_left_eq word_less_nat_alt unat_Suc_le_left)

lemma deserialize_version_safe [reads_intros]: "buff_wf b \<Longrightarrow> reads_ok b (deserialize_version b v)"
  unfolding deserialize_version_def Let_def
  by (auto intro!: reads_intros simp: space_left_eq btc_msg_version_zero_def)

lemma length_enc_addr [simp]: "length (enc_addr ad) = 26"
  by (simp add: enc_addr_def)

lemma serialize_addr_appends [appends_intros]:
  assumes "buff_growing b" and "length (buff_data b) + 26 < 2 ^ 60"
  shows "appends b (serialize_addr b ad) (enc_addr ad)"
  using assms unfolding serialize_addr_def enc_addr_def
  by (auto intro!: appends_intros)

lemma c_strlen_pad:
  assumes "length (c_string s) < length s"
  shows "c_strlen s = Some (length (c_string s))"
proof (cases "0 \<in> set s")
  case True
  then show ?thesis by (simp add: c_strlen_def c_string_def)
next
  case False
  then have "c_string s = s" by (auto simp: c_string_def takeWhile_eq_all_conv)
  with assms show ?thesis by simp
qed

lemma take_c_string: "take (length (c_string s)) s = c_string s"
  by (metis c_string_def takeWhile_eq_take)

lemma length_enc_str: "length (c_string s) \<le> length (enc_str s)"
  "length (enc_str s) \<le> 5 + length (c_string s)"
  using length_enc_varint [of "of_nat (length (c_string s))"] by (simp_all add: enc_str_def)

lemma serialize_str_appends [appends_intros]:
  assumes "buff_growing b" and "length (c_string s) < length s" and "length s < 2 ^ 32"
    and "length (buff_data b) + length (enc_str s) < 2 ^ 60"
  shows "appends b (serialize_str b (Some s)) (enc_str s)"
proof -
  let ?n = "of_nat (length (c_string s)) :: u64"
  have n: "unat ?n = length (c_string s)" using assms by (simp add: unat_of_nat_small)
  have "appends b' (serialize_bytes b' s ?n) (c_string s)"
    if "buff_growing b'" "length (buff_data b') + length (c_string s) < 2 ^ 60" for b'
    using copy_to_appends_take [OF that(1), of ?n s] that n assms
    by (simp add: serialize_bytes_def take_c_string)
  then show ?thesis
    using assms by (auto simp: serialize_str_def c_strlen_pad enc_str_def intro!: appends_intros)
qed

lemma length_enc_version: "ok_version v \<Longrightarrow> length (enc_version v) \<le> 250"
  using length_enc_str(2) [of "v_strVersion v"]
  by (auto simp: enc_version_def ok_version_def)

lemma serialize_version_appends:
  assumes "ok_version v" and "buff_growing b" and "length (buff_data b) + 300 < 2 ^ 60"
  shows "appends b (serialize_version b v) (enc_version v)"
  using assms length_enc_str(2) [of "v_strVersion v"]
  unfolding serialize_version_def enc_version_def ok_version_def
  by (auto intro!: appends_intros)

lemma deserialize_addr_enc:
  assumes "buff_wf b" and "buff_rest b = enc_addr ad @ ys" and "ad_time ad = 0"
  shows "deserialize_addr BTC_PROTO_MIN b old = Some (False, ad, buff_adv b 26)"
  using assms
  by (simp add: deserialize_addr_def enc_addr_def deserialize_uint_eqs deserialize_bytes_eq
      bitc_defs)

lemma replicate_update_same: "(replicate n x)[i := x] = replicate n x"
  by (metis length_replicate list_update_beyond list_update_id not_less nth_replicate)

lemma deserialize_str_enc:
  assumes "buff_wf b" and "buff_rest b = enc_varint (of_nat (length s)) @ s @ ys"
    and "length s < length old" and "length old < 2 ^ 32"
  shows "deserialize_str b old = Some (False, s @ replicate (length old - length s) 0,
     buff_adv b (length (enc_varint (of_nat (length s))) + length s))"
proof -
  let ?n = "of_nat (length s) :: u64" and ?v = "enc_varint (of_nat (length s))"
  have n: "unat ?n = length s" using assms by (simp add: unat_of_nat_small)
  then have "ok_varint ?n" using assms by (simp add: ok_varint_iff)
  then have d: "deserialize_varint b 0 = Some (False, ?n, buff_adv b (length ?v))"
    using assms(1,2) by (rule deserialize_varint_enc)
  have wf: "buff_wf (buff_adv b (length ?v))" and r: "buff_rest (buff_adv b (length ?v)) = s @ ys"
    using assms by simp_all
  show ?thesis
  proof (cases "s = []")
    case True
    with d show ?thesis by (simp add: deserialize_str_def)
  next
    case False
    with n have "?n \<noteq> 0" by (metis length_0_conv unat_0)
    with d n wf r assms show ?thesis
      by (simp add: deserialize_str_def Let_def deserialize_bytes_eq replicate_update_same)
  qed
qed

lemma deserialize_version_enc:
  assumes ok: "ok_version v" and wf: "buff_wf b" and r: "buff_rest b = enc_version v"
  shows "\<exists>b'. deserialize_version b old = Some (False, v, b') \<and> buff_rest b' = []"
proof -
  let ?str = "v_strVersion v" and ?st = "le_bytes (v_startingHeight v)"
  let ?rl = "if BTC_PROTO_FILTERING \<le> v_version v then le_bytes (v_relayTx v) else []"
  let ?b1 = "buff_adv b 20" and ?b2 = "buff_adv b 46" and ?b3 = "buff_adv b 80"
  let ?b4 = "buff_adv b (80 + length (enc_str ?str))"
  let ?b5 = "buff_adv b (84 + length (enc_str ?str))"
  have rs: "buff_rest ?b1 = enc_addr (v_addrTo v) @ enc_addr (v_addrFrom v) @ le_bytes (v_nonce v) @
        enc_str ?str @ ?st @ ?rl"
     "buff_rest ?b2 = enc_addr (v_addrFrom v) @ le_bytes (v_nonce v) @ enc_str ?str @ ?st @ ?rl"
     "buff_rest ?b3 = enc_str ?str @ ?st @ ?rl" "buff_rest ?b4 = ?st @ ?rl" "buff_rest ?b5 = ?rl"
    and wfs: "buff_wf ?b1" "buff_wf ?b2" "buff_wf ?b3" "buff_wf ?b4" "buff_wf ?b5"
    using wf r by (simp_all add: enc_version_def)
  note okv = ok [unfolded ok_version_def]
  have d1: "deserialize_addr BTC_PROTO_MIN ?b1 x = Some (False, v_addrTo v, ?b2)" for x
    using okv deserialize_addr_enc [OF wfs(1) rs(1), of x] by simp
  have d2: "deserialize_addr BTC_PROTO_MIN ?b2 x = Some (False, v_addrFrom v, buff_adv b 72)" for x
    using okv deserialize_addr_enc [OF wfs(2) rs(2), of x] by simp
  have d3: "deserialize_str ?b3 (replicate 80 0) = Some (False, ?str, ?b4)"
    using okv deserialize_str_enc [OF wfs(3), of "c_string ?str" "?st @ ?rl" "replicate 80 0"] rs(3)
    by (simp add: enc_str_def add.assoc)
  have d4: "deserialize_uint32 ?b4 0 = Some (False, v_startingHeight v, ?b5)"
    using deserialize_uint_enc(3) [OF wfs(4) rs(4)] by (simp add: add.commute)
  have "deserialize_uint32 b 0 = Some (False, v_version v, buff_adv b 4)"
    "deserialize_uint64 (buff_adv b 4) 0 = Some (False, v_services v, buff_adv b 12)"
    "deserialize_uint64 (buff_adv b 12) 0 = Some (False, v_time v, ?b1)"
    "deserialize_uint64 (buff_adv b 72) 0 = Some (False, v_nonce v, ?b3)"
    using wf r by (simp_all add: deserialize_uint_eqs enc_version_def)
  note ds = this d1 d2 d3 d4
  show ?thesis
  proof (cases "BTC_PROTO_FILTERING \<le> v_version v")
    case True
    with rs(5) have r5: "buff_rest ?b5 = le_bytes (v_relayTx v)" by simp
    then have "0 < buff_left ?b5" using wfs(5)
      by (simp add: word_gt_0 le_bytes_byte)
    moreover have "deserialize_uint8 ?b5 0 = Some (False, v_relayTx v, buff_adv b (85 + length (enc_str ?str)))"
      "buff_wf (buff_adv b (85 + length (enc_str ?str)))"
      "buff_rest (buff_adv b (85 + length (enc_str ?str))) = []"
      using wfs(5) r5 True wf r by (simp_all add: deserialize_uint_eqs enc_version_def)
    ultimately show ?thesis
      using ds True wfs by (simp add: deserialize_version_def btc_msg_version_zero_def space_left_eq)
  next
    case False
    with okv ds rs(5) wfs show ?thesis
      by (simp add: deserialize_version_def btc_msg_version_zero_def space_left_eq)
  qed
qed

lemma read_array_length:
  "read_array f z n b = Some (r, xs, b') \<Longrightarrow> length xs = n"
  by (induction n arbitrary: b r xs b') (auto split: bind_splits if_splits)


text \<open>Concrete values for the witnesses.\<close>

definition sample_tx :: btc_msg_tx where
  "sample_tx = \<lparr>tx_in_count = 1, tx_tx_in =
     [\<lparr>ti_prevTxHash = 7, ti_prevTxOutIdx = 1, ti_scriptLength = 2, ti_scriptSig = Some [0x51, 0x52],
       ti_sequence = 0xFFFFFFFF\<rparr>], tx_out_count = 1, tx_tx_out =
     [\<lparr>to_value = 5000, to_scriptLength = 1, to_scriptPubKey = Some [0x51]\<rparr>],
     tx_version = 1, tx_lock_time = 0\<rparr>"

definition sample_version :: btc_msg_version where
  "sample_version = btc_msg_version_zero\<lparr>v_version := 70016, v_time := 1700000000, v_nonce := 0x2345,
     v_strVersion := [0x2F, 0x62, 0x69, 0x74, 0x63] @ replicate 75 0\<rparr>"

definition sample_buff :: buff where
  "sample_buff = buff_init (Some (replicate 200 0xFF)) 200"

section \<open>Properties\<close>

text \<open>C1: a transaction written by \<open>serialize_tx\<close> into a fresh buffer and read back by
  \<open>deserialize_tx\<close> from exactly the bytes written is the same transaction, and the
  reader consumes everything.\<close>

theorem tx_roundtrip:
  assumes "ok_tx tx" and "length (enc_tx tx) < 2 ^ 60"
  shows "\<exists>b b'. serialize_tx buff_alloc tx = Some (False, b) \<and>
     deserialize_tx (buff_init (Some (buff_data b)) (of_nat (length (buff_data b)))) old =
       Some (False, tx, b') \<and> buff_rest b' = []"
  using assms by (rule txc.des_ser)

theorem tx_roundtrip_witness:
  "ok_tx sample_tx \<and> length (enc_tx sample_tx) < 2 ^ 60 \<and>
   (\<exists>b b'. serialize_tx buff_alloc sample_tx = Some (False, b) \<and>
     deserialize_tx (buff_init (Some (buff_data b)) (of_nat (length (buff_data b)))) btc_msg_tx_zero =
       Some (False, sample_tx, b') \<and> buff_rest b' = [])"
proof -
  have ok: "ok_tx sample_tx" by code_simp
  have len: "length (enc_tx sample_tx) < 2 ^ 60"
    by (simp add: enc_tx_def sample_tx_def enc_tx_in_def enc_tx_out_def enc_varint_def)
  show ?thesis using ok len tx_roundtrip [OF ok len, of btc_msg_tx_zero] by blast
qed

text \<open>Whatever bytes a peer sends, reading a block from a well-formed buffer neither fails an
  assertion nor touches memory outside the buffer: it returns, with the cursor moved forward by at
  most the bytes that were left.\<close>

theorem deserialize_block_memory_safe:
  assumes "buff_wf b"
  shows "\<exists>r blk' k. deserialize_block b blk = Some (r, blk', buff_adv b k) \<and>
     k \<le> length (buff_rest b) \<and> buff_wf (buff_adv b k)"
  using deserialize_block_safe [OF assms, of blk] assms by (meson reads_okE)

theorem deserialize_block_memory_safe_witness:
  "buff_wf sample_buff \<and>
   (\<exists>r blk' k. deserialize_block sample_buff
       \<lparr>blk_header = btc_block_header_zero, blk_txCount = 0, blk_tx = []\<rparr> = Some (r, blk', buff_adv sample_buff k) \<and>
     k \<le> length (buff_rest sample_buff) \<and> buff_wf (buff_adv sample_buff k))"
proof -
  have wf: "buff_wf sample_buff"
    by (simp add: sample_buff_def buff_wf_def buff_init_def buff_bytes_def)
  show ?thesis using wf deserialize_block_memory_safe [OF wf] by blast
qed

text \<open>\<open>serialize_varint\<close> keeps only the low 32 bits: what is read back from any value is the
  value modulo \<open>2 ^ 32\<close>, so the 64-bit form that \<open>deserialize_varint\<close> accepts is never
  produced.\<close>

theorem varint_truncates:
  "\<exists>b b'. serialize_varint buff_alloc v = Some (False, b) \<and>
     deserialize_varint (buff_init (Some (buff_data b)) (of_nat (length (buff_data b)))) old =
       Some (False, of_nat (unat v mod 2 ^ 32), b') \<and> buff_rest b' = []"
proof -
  let ?w = "ucast (ucast v :: u32) :: u64"
  have w: "?w = of_nat (unat v mod 2 ^ 32)"
    by (simp add: word_unat_eq_iff unsigned_ucast_eq unsigned_of_nat take_bit_eq_mod unsigned_take_bit_eq
        unat_mod_distrib)
  show ?thesis
  proof (cases "unat v < 2 ^ 32")
    case True
    then have "ok_varint v" by (simp add: ok_varint_iff)
    moreover have "length (enc_varint v) < 2 ^ 60" using length_enc_varint(1) [of v] by simp
    moreover have "?w = v" using True by (simp add: ucast_ucast_small)
    ultimately show ?thesis using varintc.des_ser [of v old] w by simp
  next
    case False
    have e: "enc_varint v = 254 # le_bytes (ucast v :: u32)"
      using False by (auto simp: enc_varint_def word_less_nat_alt)
    have "appends buff_alloc (serialize_varint buff_alloc v) (enc_varint v)"
      using length_enc_varint(1) [of v] by (intro serialize_varint_appends) simp_all
    then obtain b where b: "serialize_varint buff_alloc v = Some (False, b)" "buff_data b = enc_varint v"
      by (auto elim!: appendsE)
    let ?b = "buff_init (Some (enc_varint v)) (of_nat (length (enc_varint v)))"
    have wf: "buff_wf ?b" "buff_rest ?b = enc_varint v"
      using buff_init_wf [of "enc_varint v"] length_enc_varint(1) [of v] by simp_all
    then have "deserialize_varint ?b old = Some (False, ?w, buff_adv ?b 5)" "buff_rest (buff_adv ?b 5) = []"
      by (simp_all add: deserialize_varint_def deserialize_uint_eqs e)
    with b w show ?thesis by auto
  qed
qed


text \<open>A version message written by \<open>serialize_version\<close> and read back by
  \<open>deserialize_version\<close> is the same message, and the reader, which rejects trailing
  bytes, accepts it.\<close>

theorem version_roundtrip:
  assumes "ok_version v"
  shows "\<exists>b b'. serialize_version buff_alloc v = Some (False, b) \<and>
     deserialize_version (buff_init (Some (buff_data b)) (of_nat (length (buff_data b)))) old =
       Some (False, v, b') \<and> buff_rest b' = []"
proof -
  have "appends buff_alloc (serialize_version buff_alloc v) (enc_version v)"
    using assms by (intro serialize_version_appends) simp_all
  then obtain b where b: "serialize_version buff_alloc v = Some (False, b)" "buff_data b = enc_version v"
    by (auto elim!: appendsE)
  let ?b = "buff_init (Some (enc_version v)) (of_nat (length (enc_version v)))"
  have "buff_wf ?b" "buff_rest ?b = enc_version v"
    using buff_init_wf [of "enc_version v"] length_enc_version [OF assms] by simp_all
  from deserialize_version_enc [OF assms this, of old] b show ?thesis by auto
qed

theorem version_roundtrip_witness:
  "ok_version sample_version \<and>
   (\<exists>b b'. serialize_version buff_alloc sample_version = Some (False, b) \<and>
     deserialize_version (buff_init (Some (buff_data b)) (of_nat (length (buff_data b))))
       btc_msg_version_zero = Some (False, sample_version, b') \<and> buff_rest b' = [])"
proof -
  have ok: "ok_version sample_version" by code_simp
  show ?thesis using ok version_roundtrip [OF ok, of btc_msg_version_zero] by blast
qed

end
