(* ===== verification/Messages.thy ===== *)
theory Messages
  imports Serialize Hash
begin

text \<open>
  The messages of \<^verbatim>\<open>src/core/btc-message.c\<close>: the command table, the frame header
  with its checksum, the parsers of what peers send and the functions that build what is
  sent. Parsers return the error flag, their outputs and the buffer. The global
  \<open>btc->testnet\<close>, the clock (\<open>time\<close>) and SHA-256 are arguments; logging and the
  pretty-printers are not modelled.
\<close>

section \<open>The command table\<close>

definition btc_msg_types :: "btc_msg_type list" where
  "btc_msg_types = [BTC_MSG_UNKNOWN, BTC_MSG_VERSION, BTC_MSG_VERACK, BTC_MSG_INV,
     BTC_MSG_GETADDR, BTC_MSG_ADDR, BTC_MSG_GETHEADERS, BTC_MSG_HEADERS, BTC_MSG_PING,
     BTC_MSG_PONG, BTC_MSG_GETBLOCKS, BTC_MSG_BLOCK, BTC_MSG_GETDATA, BTC_MSG_TX,
     BTC_MSG_MEMPOOL, BTC_MSG_ALERT, BTC_MSG_NOTFOUND, BTC_MSG_SENDHEADERS,
     BTC_MSG_SENDCMPCT, BTC_MSG_CMPCTBLOCK, BTC_MSG_GETBLOCKTXN, BTC_MSG_BLOCKTXN,
     BTC_MSG_FEEFILTER, BTC_MSG_WTXIDRELAY, BTC_MSG_SENDADDRV2, BTC_MSG_ADDRV2,
     BTC_MSG_GETCFILTERS, BTC_MSG_CFILTER, BTC_MSG_GETCFHEADERS, BTC_MSG_CFHEADERS,
     BTC_MSG_GETCFCHECKPT, BTC_MSG_CFCHECKPT]"

fun btcmsg_type_to_str :: "btc_msg_type \<Rightarrow> string" where
  "btcmsg_type_to_str BTC_MSG_UNKNOWN = ''unknown''"
| "btcmsg_type_to_str BTC_MSG_VERSION = ''version''"
| "btcmsg_type_to_str BTC_MSG_VERACK = ''verack''"
| "btcmsg_type_to_str BTC_MSG_INV = ''inv''"
| "btcmsg_type_to_str BTC_MSG_GETADDR = ''getaddr''"
| "btcmsg_type_to_str BTC_MSG_ADDR = ''addr''"
| "btcmsg_type_to_str BTC_MSG_GETHEADERS = ''getheaders''"
| "btcmsg_type_to_str BTC_MSG_HEADERS = ''headers''"
| "btcmsg_type_to_str BTC_MSG_PING = ''ping''"
| "btcmsg_type_to_str BTC_MSG_PONG = ''pong''"
| "btcmsg_type_to_str BTC_MSG_GETBLOCKS = ''getblocks''"
| "btcmsg_type_to_str BTC_MSG_BLOCK = ''block''"
| "btcmsg_type_to_str BTC_MSG_GETDATA = ''getdata''"
| "btcmsg_type_to_str BTC_MSG_TX = ''tx''"
| "btcmsg_type_to_str BTC_MSG_MEMPOOL = ''mempool''"
| "btcmsg_type_to_str BTC_MSG_ALERT = ''alert''"
| "btcmsg_type_to_str BTC_MSG_NOTFOUND = ''notfound''"
| "btcmsg_type_to_str BTC_MSG_SENDHEADERS = ''sendheaders''"
| "btcmsg_type_to_str BTC_MSG_SENDCMPCT = ''sendcmpct''"
| "btcmsg_type_to_str BTC_MSG_CMPCTBLOCK = ''cmpctblock''"
| "btcmsg_type_to_str BTC_MSG_GETBLOCKTXN = ''getblocktxn''"
| "btcmsg_type_to_str BTC_MSG_BLOCKTXN = ''blocktxn''"
| "btcmsg_type_to_str BTC_MSG_FEEFILTER = ''feefilter''"
| "btcmsg_type_to_str BTC_MSG_WTXIDRELAY = ''wtxidrelay''"
| "btcmsg_type_to_str BTC_MSG_SENDADDRV2 = ''sendaddrv2''"
| "btcmsg_type_to_str BTC_MSG_ADDRV2 = ''addrv2''"
| "btcmsg_type_to_str BTC_MSG_GETCFILTERS = ''getcfilters''"
| "btcmsg_type_to_str BTC_MSG_CFILTER = ''cfilter''"
| "btcmsg_type_to_str BTC_MSG_GETCFHEADERS = ''getcfheaders''"
| "btcmsg_type_to_str BTC_MSG_CFHEADERS = ''cfheaders''"
| "btcmsg_type_to_str BTC_MSG_GETCFCHECKPT = ''getcfcheckpt''"
| "btcmsg_type_to_str BTC_MSG_CFCHECKPT = ''cfcheckpt''"

definition c_bytes :: "string \<Rightarrow> byte list" where
  "c_bytes s = map of_char s"

text \<open>\<open>strncmp (a, b, n) == 0\<close>: equal up to the first zero byte or \<open>n\<close> bytes. The end of
  a literal is its zero byte.\<close>

fun strncmp_eq :: "nat \<Rightarrow> byte list \<Rightarrow> byte list \<Rightarrow> bool" where
  "strncmp_eq 0 a b = True"
| "strncmp_eq (Suc n) a b =
     (let ca = (case a of [] \<Rightarrow> 0 | c # _ \<Rightarrow> c); cb = (case b of [] \<Rightarrow> 0 | c # _ \<Rightarrow> c)
      in ca = cb \<and> (ca = 0 \<or> strncmp_eq n (tl a) (tl b)))"

text \<open>\<open>strncpy\<close> into an array of \<open>n\<close> bytes: truncated or padded with zeros.\<close>

definition strncpy :: "nat \<Rightarrow> byte list \<Rightarrow> byte list" where
  "strncpy n s = take n s @ replicate (n - length s) 0"

definition btcmsg_str_to_type :: "byte list \<Rightarrow> btc_msg_type" where
  "btcmsg_str_to_type str =
     (case filter (\<lambda>t. strncmp_eq 12 str (c_bytes (btcmsg_type_to_str t))) btc_msg_types of
        [] \<Rightarrow> BTC_MSG_UNKNOWN | t # _ \<Rightarrow> t)"

section \<open>The frame\<close>

definition ipv4_pfx :: "byte list" where
  "ipv4_pfx = replicate 10 0 @ [0xFF, 0xFF]"

definition btcmsg_addr_is_ipv4 :: "btc_msg_address \<Rightarrow> bool" where
  "btcmsg_addr_is_ipv4 addr \<longleftrightarrow> take 12 (le_bytes (ad_ip addr)) = ipv4_pfx"

definition btc_net_magic :: "bool \<Rightarrow> u32" where
  "btc_net_magic testnet = (if testnet then BTC_NET_MAGIC_TESTNET else BTC_NET_MAGIC_MAIN)"

definition btcmsg_header_valid :: "bool \<Rightarrow> btc_msg_header \<Rightarrow> bool" where
  "btcmsg_header_valid testnet hdr =
     (if mh_magic hdr \<noteq> btc_net_magic testnet then False
      else if BTC_MSG_MAX_PAYLOAD_LENGTH < mh_payloadLength hdr then False
      else True)"

definition btcmsg_payload_valid ::
  "(byte list \<Rightarrow> uint256) \<Rightarrow> buff option \<Rightarrow> byte list \<Rightarrow> bool option" where
  "btcmsg_payload_valid sha buf checksum = do {
     ASSERT (buff_curlen buf = 0);
     bytes \<leftarrow> (if buff_maxlen buf = 0 then Some []
               else mem_read (buff_base buf) 0 (unat (buff_maxlen buf)));
     Some (checksum = hash4_calc sha bytes)
   }"

definition btcmsg_craft_msgheader ::
  "bool \<Rightarrow> (byte list \<Rightarrow> uint256) \<Rightarrow> string \<Rightarrow> buff option \<Rightarrow> buff option" where
  "btcmsg_craft_msgheader testnet sha message bufData = do {
     bytes \<leftarrow> (if buff_curlen bufData = 0 then Some []
               else mem_read (buff_base bufData) 0 (unat (buff_curlen bufData)));
     let h = \<lparr>mh_magic = btc_net_magic testnet, mh_message = strncpy 12 (c_bytes message),
              mh_payloadLength = ucast (buff_curlen bufData), mh_checksum = hash4_calc sha bytes\<rparr>;
     (_, buf) \<leftarrow> serialize_msgheader buff_alloc h;
     (_, buf) \<leftarrow> buff_append buf bufData;
     Some buf
   }"

section \<open>Parsers\<close>

definition btcmsg_parse_notfound ::
  "bool \<Rightarrow> buff \<Rightarrow> (bool \<times> (uint256 list option \<times> nat) \<times> buff) option" where
  "btcmsg_parse_notfound wanted b = do {
     (r, n, b) \<leftarrow> deserialize_varint b 0;
     if r then Some (True, (None, 0), b)
     else if BTC_MSG_NOTFOUND_MAX_ENTRIES < n then Some (True, (None, 0), b)
     else do {
       (r, invs, b) \<leftarrow> read_array deserialize_inv btc_msg_inv_zero (unat n) b;
       if r then Some (True, (None, 0), b)
       else do {
         left \<leftarrow> buff_space_left b;
         if left \<noteq> 0 then Some (True, (None, 0), b)
         else if wanted \<and> 0 < n
         then (let hs = map inv_hash (filter (\<lambda>iv. inv_type iv = INV_TYPE_MSG_BLOCK) invs)
               in Some (False, (Some (hs @ replicate (unat n - length hs) 0), length hs), b))
         else Some (False, (None, 0), b)
       }
     }
   }"

definition btcmsg_parse_alert :: "buff \<Rightarrow> (bool \<times> unit \<times> buff) option" where
  "btcmsg_parse_alert b = do {
     (r, _, b) \<leftarrow> deserialize_str_alloc b;
     if r then Some (r, (), b)
     else do { (r, _, b) \<leftarrow> deserialize_str_alloc b; Some (r, (), b) }
   }"

definition btcmsg_parse_block :: "buff \<Rightarrow> btc_msg_block \<Rightarrow> (bool \<times> btc_msg_block \<times> buff) option" where
  "btcmsg_parse_block b blk = do {
     (r, blk, b) \<leftarrow> deserialize_block b blk;
     if r then Some (r, blk, b)
     else do { left \<leftarrow> buff_space_left b; Some (left \<noteq> 0, blk, b) }
   }"

definition parse_header_entry :: "buff \<Rightarrow> btc_block_header \<Rightarrow> (bool \<times> btc_block_header \<times> buff) option" where
  "parse_header_entry b h = do {
     (r1, h, b) \<leftarrow> deserialize_blockheader b h;
     (r2, numTx, b) \<leftarrow> deserialize_varint b 0;
     Some ((r1 \<or> r2) \<or> numTx \<noteq> 0, h, b)
   }"

definition btcmsg_parse_headers ::
  "buff \<Rightarrow> (bool \<times> (btc_block_header list option \<times> nat) \<times> buff) option" where
  "btcmsg_parse_headers b = do {
     (r, n, b) \<leftarrow> deserialize_varint b 0;
     if r then Some (True, (None, 0), b)
     else if BTC_MSG_GETHEADERS_MAX_ENTRIES < n then Some (True, (None, 0), b)
     else do {
       (r, hs, b) \<leftarrow> read_array parse_header_entry btc_block_header_zero (unat n) b;
       if r then Some (True, (None, 0), b)
       else do {
         left \<leftarrow> buff_space_left b;
         if left \<noteq> 0 then Some (True, (None, 0), b) else Some (False, (Some hs, unat n), b)
       }
     }
   }"

definition btcmsg_parse_pingpong :: "u32 \<Rightarrow> buff \<Rightarrow> (bool \<times> u64 \<times> buff) option" where
  "btcmsg_parse_pingpong protversion b =
     (if BTC_PROTO_PING < protversion then deserialize_uint64 b 0 else Some (False, 0, b))"

text \<open>The addresses that are IPv4 and not older than a day (\<open>now\<close> is \<open>time (NULL)\<close>, a
  64-bit \<open>time_t\<close>) are kept, in order.\<close>

definition addr_wanted :: "int \<Rightarrow> btc_msg_address \<Rightarrow> bool" where
  "addr_wanted now addr \<longleftrightarrow> btcmsg_addr_is_ipv4 addr \<and> now - 24 * 60 * 60 \<le> uint (ad_time addr)"

definition btcmsg_parse_addr ::
  "int \<Rightarrow> u32 \<Rightarrow> buff \<Rightarrow> (bool \<times> btc_msg_address list option \<times> buff) option" where
  "btcmsg_parse_addr now protversion b = do {
     (r, n, b) \<leftarrow> deserialize_varint b 0;
     if r \<or> BTC_MSG_ADDR_MAX_ENTRIES < n then Some (True, None, b)
     else do {
       (r, addrs, b) \<leftarrow> read_array (deserialize_addr protversion) btc_msg_address_zero (unat n) b;
       if r then Some (True, None, b)
       else do {
         left \<leftarrow> buff_space_left b;
         if left \<noteq> 0 then Some (True, None, b)
         else Some (False, Some (filter (addr_wanted now) addrs), b)
       }
     }
   }"

text \<open>\<open>btcmsg_parse_inv\<close> reads all \<open>n\<close> entries even after a failure.\<close>

primrec read_all ::
  "(buff \<Rightarrow> 'a \<Rightarrow> (bool \<times> 'a \<times> buff) option) \<Rightarrow> 'a \<Rightarrow> nat \<Rightarrow> buff \<Rightarrow>
   (bool \<times> 'a list \<times> buff) option" where
  "read_all f zero 0 b = Some (False, [], b)"
| "read_all f zero (Suc n) b = do {
     (r1, x, b) \<leftarrow> f b zero;
     (r2, xs, b) \<leftarrow> read_all f zero n b;
     Some (r1 \<or> r2, x # xs, b)
   }"

definition btcmsg_parse_inv :: "buff \<Rightarrow> (bool \<times> (btc_msg_inv list option \<times> nat) \<times> buff) option" where
  "btcmsg_parse_inv b = do {
     (r, n, b) \<leftarrow> deserialize_varint b 0;
     if r then Some (True, (None, 0), b)
     else if BTC_MSG_INV_MAX_ENTRIES < n then Some (True, (None, 0), b)
     else do {
       (r, invs, b) \<leftarrow> read_all deserialize_inv btc_msg_inv_zero (unat n) b;
       if r then Some (True, (None, 0), b) else Some (False, (Some invs, unat n), b)
     }
   }"

definition btcmsg_parse_version ::
  "buff \<Rightarrow> btc_msg_version \<Rightarrow> (bool \<times> btc_msg_version \<times> buff) option" where
  "btcmsg_parse_version b v = deserialize_version b v"

definition btcmsg_parse_cfilter :: "buff \<Rightarrow> (bool \<times> btc_msg_cfilter \<times> buff) option" where
  "btcmsg_parse_cfilter b = (let cf = btc_msg_cfilter_zero in do {
     (r1, v, b) \<leftarrow> deserialize_uint8 b (cf_filterType cf);
     let cf = cf\<lparr>cf_filterType := v\<rparr>;
     (r2, v, b) \<leftarrow> deserialize_uint256 b (cf_blockHash cf);
     let cf = cf\<lparr>cf_blockHash := v\<rparr>;
     (r3, v, b) \<leftarrow> deserialize_varint b (cf_numBytes cf);
     let cf = cf\<lparr>cf_numBytes := v\<rparr>;
     if r1 \<or> r2 \<or> r3 then Some (True, cf, b)
     else if 4000000 < cf_numBytes cf then Some (True, cf, b)
     else do {
       (r, v, b) \<leftarrow> deserialize_bytes b (safe_malloc (unat (cf_numBytes cf))) (cf_numBytes cf);
       if r then Some (True, cf\<lparr>cf_filterData := None\<rparr>, b)
       else Some (False, cf\<lparr>cf_filterData := Some v\<rparr>, b)
     }
   })"

definition btcmsg_parse_cfheaders :: "buff \<Rightarrow> (bool \<times> btc_msg_cfheaders \<times> buff) option" where
  "btcmsg_parse_cfheaders b = (let cfh = btc_msg_cfheaders_zero in do {
     (r1, v, b) \<leftarrow> deserialize_uint8 b (cfh_filterType cfh);
     let cfh = cfh\<lparr>cfh_filterType := v\<rparr>;
     (r2, v, b) \<leftarrow> deserialize_uint256 b (cfh_stopHash cfh);
     let cfh = cfh\<lparr>cfh_stopHash := v\<rparr>;
     (r3, v, b) \<leftarrow> deserialize_uint256 b (cfh_prevFilterHeader cfh);
     let cfh = cfh\<lparr>cfh_prevFilterHeader := v\<rparr>;
     (r4, v, b) \<leftarrow> deserialize_varint b (cfh_numHeaders cfh);
     let cfh = cfh\<lparr>cfh_numHeaders := v\<rparr>;
     if r1 \<or> r2 \<or> r3 \<or> r4 then Some (True, cfh, b)
     else if 2000 < cfh_numHeaders cfh then Some (True, cfh, b)
     else do {
       (r, hs, b) \<leftarrow> read_array deserialize_uint256 0 (unat (cfh_numHeaders cfh)) b;
       if r then Some (True, cfh\<lparr>cfh_filterHashes := None\<rparr>, b)
       else Some (False, cfh\<lparr>cfh_filterHashes := Some hs\<rparr>, b)
     }
   })"

definition btcmsg_parse_cfcheckpt :: "buff \<Rightarrow> (bool \<times> btc_msg_cfcheckpt \<times> buff) option" where
  "btcmsg_parse_cfcheckpt b = (let cfc = btc_msg_cfcheckpt_zero in do {
     (r1, v, b) \<leftarrow> deserialize_uint8 b (cfc_filterType cfc);
     let cfc = cfc\<lparr>cfc_filterType := v\<rparr>;
     (r2, v, b) \<leftarrow> deserialize_uint256 b (cfc_stopHash cfc);
     let cfc = cfc\<lparr>cfc_stopHash := v\<rparr>;
     (r3, v, b) \<leftarrow> deserialize_varint b (cfc_numHeaders cfc);
     let cfc = cfc\<lparr>cfc_numHeaders := v\<rparr>;
     if r1 \<or> r2 \<or> r3 then Some (True, cfc, b)
     else if 100000 < cfc_numHeaders cfc then Some (True, cfc, b)
     else do {
       (r, hs, b) \<leftarrow> read_array deserialize_uint256 0 (unat (cfc_numHeaders cfc)) b;
       if r then Some (True, cfc\<lparr>cfc_filterHeaders := None\<rparr>, b)
       else Some (False, cfc\<lparr>cfc_filterHeaders := Some hs\<rparr>, b)
     }
   })"

section \<open>Building messages\<close>

definition btcmsg_craft_tx ::
  "bool \<Rightarrow> (byte list \<Rightarrow> uint256) \<Rightarrow> buff option \<Rightarrow> buff option" where
  "btcmsg_craft_tx testnet sha txBuf = btcmsg_craft_msgheader testnet sha ''tx'' txBuf"

definition craft_nonce ::
  "bool \<Rightarrow> (byte list \<Rightarrow> uint256) \<Rightarrow> string \<Rightarrow> u32 \<Rightarrow> u64 \<Rightarrow> buff option" where
  "craft_nonce testnet sha name protversion nonce = do {
     (_, bufNonce) \<leftarrow> (if BTC_PROTO_PING < protversion
        then serialize_uint64 buff_alloc nonce else Some (False, buff_alloc));
     btcmsg_craft_msgheader testnet sha name (Some bufNonce)
   }"

definition btcmsg_craft_ping :: "bool \<Rightarrow> (byte list \<Rightarrow> uint256) \<Rightarrow> u32 \<Rightarrow> u64 \<Rightarrow> buff option" where
  "btcmsg_craft_ping testnet sha protversion nonce = craft_nonce testnet sha ''ping'' protversion nonce"

definition btcmsg_craft_pong :: "bool \<Rightarrow> (byte list \<Rightarrow> uint256) \<Rightarrow> u32 \<Rightarrow> u64 \<Rightarrow> buff option" where
  "btcmsg_craft_pong testnet sha protversion nonce = craft_nonce testnet sha ''pong'' protversion nonce"

text \<open>\<open>now\<close> is \<open>time (NULL)\<close> converted to 64 unsigned bits.\<close>

definition prepared_version :: "u64 \<Rightarrow> btc_msg_version" where
  "prepared_version now = btc_msg_version_zero\<lparr>v_version := BTC_PROTO_VERSION, v_services := 0,
     v_time := now, v_nonce := 0x2345, v_startingHeight := 0,
     v_strVersion := strncpy 80 (c_bytes ''/bitc:0.1.0'')\<rparr>"

definition btcmsg_prepare_version :: "u64 \<Rightarrow> buff \<Rightarrow> (bool \<times> buff) option" where
  "btcmsg_prepare_version now b = do {
     (r, b) \<leftarrow> serialize_version b (prepared_version now);
     ASSERT (\<not> r);
     Some (r, b)
   }"

text \<open>\<open>num\<close> is an \<open>int\<close>; the array is copied when it is positive. \<open>memcpy\<close> of more
  hashes than there are is undefined.\<close>

definition btcmsg_prepare_blocklocator ::
  "uint256 list \<Rightarrow> int \<Rightarrow> uint256 option \<Rightarrow> btc_block_locator option" where
  "btcmsg_prepare_blocklocator hashes num stop = do {
     ASSERT (num \<le> int (length hashes));
     Some \<lparr>bl_protversion = BTC_PROTO_VERSION, bl_numHashes = (if 0 < num then nat num else 0),
       bl_hashStop = (case stop of None \<Rightarrow> 0 | Some h \<Rightarrow> h),
       bl_hashArray = (if 0 < num then take (nat num) hashes else [])\<rparr>
   }"

definition btcmsg_craft_getblocks ::
  "bool \<Rightarrow> (byte list \<Rightarrow> uint256) \<Rightarrow> uint256 list option \<Rightarrow> int \<Rightarrow> buff option" where
  "btcmsg_craft_getblocks testnet sha hashes num = do {
     ASSERT (hashes \<noteq> None);
     bl \<leftarrow> btcmsg_prepare_blocklocator (the hashes) num None;
     (_, buf) \<leftarrow> serialize_blocklocator buff_alloc bl;
     btcmsg_craft_msgheader testnet sha ''getblocks'' (Some buf)
   }"

definition btcmsg_craft_getheaders ::
  "bool \<Rightarrow> (byte list \<Rightarrow> uint256) \<Rightarrow> uint256 list \<Rightarrow> int \<Rightarrow> uint256 option \<Rightarrow> buff option" where
  "btcmsg_craft_getheaders testnet sha hashes num genesis = do {
     bl \<leftarrow> (if 0 < num then btcmsg_prepare_blocklocator hashes num None
            else btcmsg_prepare_blocklocator [] 0 genesis);
     (_, buf) \<leftarrow> serialize_blocklocator buff_alloc bl;
     btcmsg_craft_msgheader testnet sha ''getheaders'' (Some buf)
   }"

definition craft_inv_list ::
  "bool \<Rightarrow> (byte list \<Rightarrow> uint256) \<Rightarrow> string \<Rightarrow> u32 \<Rightarrow> uint256 list \<Rightarrow> nat \<Rightarrow> buff option" where
  "craft_inv_list testnet sha name type hash n = do {
     (_, buf) \<leftarrow> serialize_varint buff_alloc (of_nat n);
     (_, buf) \<leftarrow> write_array (\<lambda>b h. serialize_inv b \<lparr>inv_type = type, inv_hash = h\<rparr>) n hash buf;
     btcmsg_craft_msgheader testnet sha name (Some buf)
   }"

definition btcmsg_craft_inv ::
  "bool \<Rightarrow> (byte list \<Rightarrow> uint256) \<Rightarrow> u32 \<Rightarrow> uint256 list \<Rightarrow> nat \<Rightarrow> buff option" where
  "btcmsg_craft_inv testnet sha type hash n = do {
     ASSERT (n \<le> unat BTC_MSG_INV_MAX_ENTRIES);
     craft_inv_list testnet sha ''inv'' type hash n
   }"

definition btcmsg_craft_getdata ::
  "bool \<Rightarrow> (byte list \<Rightarrow> uint256) \<Rightarrow> u32 \<Rightarrow> uint256 list \<Rightarrow> nat \<Rightarrow> buff option" where
  "btcmsg_craft_getdata testnet sha type hash n = do {
     ASSERT (n \<le> unat BTC_MSG_GETDATA_MAX_ENTRIES);
     craft_inv_list testnet sha ''getdata'' type hash n
   }"

definition btcmsg_craft_verack :: "bool \<Rightarrow> (byte list \<Rightarrow> uint256) \<Rightarrow> buff option" where
  "btcmsg_craft_verack testnet sha = btcmsg_craft_msgheader testnet sha ''verack'' None"

definition btcmsg_craft_mempool :: "bool \<Rightarrow> (byte list \<Rightarrow> uint256) \<Rightarrow> buff option" where
  "btcmsg_craft_mempool testnet sha = btcmsg_craft_msgheader testnet sha ''mempool'' None"

definition btcmsg_craft_getaddr :: "bool \<Rightarrow> (byte list \<Rightarrow> uint256) \<Rightarrow> buff option" where
  "btcmsg_craft_getaddr testnet sha = btcmsg_craft_msgheader testnet sha ''getaddr'' None"

definition btcmsg_craft_version :: "bool \<Rightarrow> (byte list \<Rightarrow> uint256) \<Rightarrow> u64 \<Rightarrow> buff option" where
  "btcmsg_craft_version testnet sha now = do {
     (_, buf) \<leftarrow> btcmsg_prepare_version now buff_alloc;
     btcmsg_craft_msgheader testnet sha ''version'' (Some buf)
   }"

definition craft_addr_payload :: "btc_msg_address list \<Rightarrow> nat \<Rightarrow> buff option" where
  "craft_addr_payload addrs n = do {
     ASSERT (n \<le> unat BTC_MSG_ADDR_MAX_ENTRIES);
     (_, buf) \<leftarrow> serialize_varint buff_alloc (of_nat n);
     (_, buf) \<leftarrow> write_array serialize_addr n addrs buf;
     Some buf
   }"

definition btcmsg_craft_addr ::
  "bool \<Rightarrow> (byte list \<Rightarrow> uint256) \<Rightarrow> u32 \<Rightarrow> btc_msg_address list \<Rightarrow> nat \<Rightarrow> buff option" where
  "btcmsg_craft_addr testnet sha protversion addrs n = do {
     buf \<leftarrow> craft_addr_payload addrs n;
     btcmsg_craft_msgheader testnet sha ''addr'' (Some buf)
   }"

definition craft_getcf ::
  "bool \<Rightarrow> (byte list \<Rightarrow> uint256) \<Rightarrow> string \<Rightarrow> btc_msg_getcfilters \<Rightarrow> buff option" where
  "craft_getcf testnet sha name g = do {
     (_, buf) \<leftarrow> serialize_uint8 buff_alloc (gcf_filterType g);
     (_, buf) \<leftarrow> serialize_uint32 buf (gcf_startHeight g);
     (_, buf) \<leftarrow> serialize_uint256 buf (gcf_stopHash g);
     btcmsg_craft_msgheader testnet sha name (Some buf)
   }"

definition btcmsg_craft_getcfilters ::
  "bool \<Rightarrow> (byte list \<Rightarrow> uint256) \<Rightarrow> btc_msg_getcfilters \<Rightarrow> buff option" where
  "btcmsg_craft_getcfilters testnet sha g = craft_getcf testnet sha ''getcfilters'' g"

text \<open>\<open>btc_msg_getcfheaders\<close> has the fields of \<open>btc_msg_getcfilters\<close>.\<close>

definition btcmsg_craft_getcfheaders ::
  "bool \<Rightarrow> (byte list \<Rightarrow> uint256) \<Rightarrow> btc_msg_getcfilters \<Rightarrow> buff option" where
  "btcmsg_craft_getcfheaders testnet sha g = craft_getcf testnet sha ''getcfheaders'' g"

definition btcmsg_craft_getcfcheckpt ::
  "bool \<Rightarrow> (byte list \<Rightarrow> uint256) \<Rightarrow> btc_msg_getcfcheckpt \<Rightarrow> buff option" where
  "btcmsg_craft_getcfcheckpt testnet sha g = do {
     (_, buf) \<leftarrow> serialize_uint8 buff_alloc (gcc_filterType g);
     (_, buf) \<leftarrow> serialize_uint256 buf (gcc_stopHash g);
     btcmsg_craft_msgheader testnet sha ''getcfcheckpt'' (Some buf)
   }"

section \<open>Transactions in memory\<close>

definition btc_msg_tx_init :: btc_msg_tx where
  "btc_msg_tx_init = btc_msg_tx_zero"

text \<open>\<open>memcpy\<close> of a script of positive length; a zero length leaves a null pointer.\<close>

definition script_dup :: "u64 \<Rightarrow> memory \<Rightarrow> memory option" where
  "script_dup n s = (if 0 < n then map_option Some (mem_read s 0 (unat n)) else Some None)"

definition btc_msg_tx_dup :: "btc_msg_tx \<Rightarrow> btc_msg_tx option" where
  "btc_msg_tx_dup tx0 = do {
     ASSERT (unat (tx_in_count tx0) \<le> length (tx_tx_in tx0));
     ASSERT (unat (tx_out_count tx0) \<le> length (tx_tx_out tx0));
     let ins = take (unat (tx_in_count tx0)) (tx_tx_in tx0);
     let outs = take (unat (tx_out_count tx0)) (tx_tx_out tx0);
     ins \<leftarrow> those (map (\<lambda>ti. do { s \<leftarrow> script_dup (ti_scriptLength ti) (ti_scriptSig ti);
                                 Some (ti\<lparr>ti_scriptSig := s\<rparr>) }) ins);
     outs \<leftarrow> those (map (\<lambda>tout. do { s \<leftarrow> script_dup (to_scriptLength tout) (to_scriptPubKey tout);
                                 Some (tout\<lparr>to_scriptPubKey := s\<rparr>) }) outs);
     Some (tx0\<lparr>tx_tx_in := ins, tx_tx_out := outs\<rparr>)
   }"

definition btc_msg_tx_value :: "btc_msg_tx \<Rightarrow> u64 option" where
  "btc_msg_tx_value tx = do {
     ASSERT (unat (tx_out_count tx) \<le> length (tx_tx_out tx));
     Some (fold (\<lambda>tout val. val + to_value tout) (take (unat (tx_out_count tx)) (tx_tx_out tx)) 0)
   }"

text \<open>The allocations \<open>btc_msg_tx_free\<close> hands to \<open>free\<close>; it reads both arrays up to their
  counts.\<close>

definition btc_msg_tx_free :: "btc_msg_tx \<Rightarrow> memory list option" where
  "btc_msg_tx_free tx = do {
     ASSERT (unat (tx_in_count tx) \<le> length (tx_tx_in tx));
     ASSERT (unat (tx_out_count tx) \<le> length (tx_tx_out tx));
     Some (map ti_scriptSig (take (unat (tx_in_count tx)) (tx_tx_in tx)) @
           map to_scriptPubKey (take (unat (tx_out_count tx)) (tx_tx_out tx)))
   }"

definition btc_msg_block_free :: "btc_msg_block \<Rightarrow> memory list option" where
  "btc_msg_block_free blk = do {
     ASSERT (unat (blk_txCount blk) \<le> length (blk_tx blk));
     map_option concat (those (map btc_msg_tx_free (take (unat (blk_txCount blk)) (blk_tx blk))))
   }"

definition btc_msg_cfilter_free :: "btc_msg_cfilter option \<Rightarrow> btc_msg_cfilter option" where
  "btc_msg_cfilter_free cf = map_option (\<lambda>cf. cf\<lparr>cf_filterData := None\<rparr>) cf"

definition btc_msg_cfheaders_free :: "btc_msg_cfheaders option \<Rightarrow> btc_msg_cfheaders option" where
  "btc_msg_cfheaders_free cfh = map_option (\<lambda>cfh. cfh\<lparr>cfh_filterHashes := None\<rparr>) cfh"

definition btc_msg_cfcheckpt_free :: "btc_msg_cfcheckpt option \<Rightarrow> btc_msg_cfcheckpt option" where
  "btc_msg_cfcheckpt_free cfc = map_option (\<lambda>cfc. cfc\<lparr>cfc_filterHeaders := None\<rparr>) cfc"

section \<open>What the messages look like on the wire\<close>

definition enc_msgheader :: "btc_msg_header \<Rightarrow> byte list" where
  "enc_msgheader h = le_bytes (mh_magic h) @ mh_message h @ le_bytes (mh_payloadLength h) @ mh_checksum h"

definition enc_headers :: "btc_block_header list \<Rightarrow> byte list" where
  "enc_headers hs = enc_varint (of_nat (length hs)) @ concat (map (\<lambda>h. enc_blockheader h @ [0]) hs)"

section \<open>Safety of the parsers\<close>

lemma read_array_reads_ok:
  assumes "\<And>b x. buff_wf b \<Longrightarrow> reads_ok b (f b x)" and "buff_wf b"
  shows "reads_ok b (read_array f z n b)"
  using assms(2)
  by (induction n arbitrary: b) (auto intro!: reads_ok_bind reads_ok_return assms(1))

lemma read_all_reads_ok:
  assumes "\<And>b x. buff_wf b \<Longrightarrow> reads_ok b (f b x)" and "buff_wf b"
  shows "reads_ok b (read_all f z n b)"
  using assms(2)
  by (induction n arbitrary: b) (auto intro!: reads_ok_bind reads_ok_return assms(1))

lemma parse_header_entry_safe [reads_intros]: "buff_wf b \<Longrightarrow> reads_ok b (parse_header_entry b h)"
  unfolding parse_header_entry_def by (auto intro!: reads_intros)

lemma parse_notfound_safe: "buff_wf b \<Longrightarrow> reads_ok b (btcmsg_parse_notfound w b)"
  unfolding btcmsg_parse_notfound_def Let_def
  by (auto intro!: reads_intros read_array_reads_ok simp: space_left_eq)

lemma parse_alert_safe: "buff_wf b \<Longrightarrow> reads_ok b (btcmsg_parse_alert b)"
  unfolding btcmsg_parse_alert_def by (auto intro!: reads_intros)

lemma parse_block_safe: "buff_wf b \<Longrightarrow> reads_ok b (btcmsg_parse_block b blk)"
  unfolding btcmsg_parse_block_def by (auto intro!: reads_intros simp: space_left_eq)

lemma parse_headers_safe: "buff_wf b \<Longrightarrow> reads_ok b (btcmsg_parse_headers b)"
  unfolding btcmsg_parse_headers_def
  by (auto intro!: reads_intros read_array_reads_ok simp: space_left_eq)

lemma parse_pingpong_safe: "buff_wf b \<Longrightarrow> reads_ok b (btcmsg_parse_pingpong pv b)"
  unfolding btcmsg_parse_pingpong_def by (auto intro!: reads_intros)

lemma parse_addr_safe: "buff_wf b \<Longrightarrow> reads_ok b (btcmsg_parse_addr now pv b)"
  unfolding btcmsg_parse_addr_def
  by (auto intro!: reads_intros read_array_reads_ok simp: space_left_eq)

lemma parse_inv_safe: "buff_wf b \<Longrightarrow> reads_ok b (btcmsg_parse_inv b)"
  unfolding btcmsg_parse_inv_def by (auto intro!: reads_intros read_all_reads_ok)

lemma parse_cfilter_safe: "buff_wf b \<Longrightarrow> reads_ok b (btcmsg_parse_cfilter b)"
  unfolding btcmsg_parse_cfilter_def Let_def
  by (auto intro!: reads_intros simp: safe_malloc_def word_less_nat_alt)

lemma parse_cfheaders_safe: "buff_wf b \<Longrightarrow> reads_ok b (btcmsg_parse_cfheaders b)"
  unfolding btcmsg_parse_cfheaders_def Let_def
  by (auto intro!: reads_intros)

lemma parse_cfcheckpt_safe: "buff_wf b \<Longrightarrow> reads_ok b (btcmsg_parse_cfcheckpt b)"
  unfolding btcmsg_parse_cfcheckpt_def Let_def
  by (auto intro!: reads_intros)

section \<open>The frame\<close>

lemma serialize_msgheader_appends:
  assumes "buff_growing b" and "length (mh_message h) = 12" and "length (mh_checksum h) = 4"
    and "length (buff_data b) + 24 < 2 ^ 60"
  shows "appends b (serialize_msgheader b h) (enc_msgheader h)"
  using assms unfolding serialize_msgheader_def enc_msgheader_def
  by (auto intro!: appends_intros)

lemma length_strncpy [simp]: "length (strncpy n s) = n"
  by (simp add: strncpy_def)

lemma length_hash4 [simp]: "length (hash4_calc sha bs) = 4"
  by (simp add: hash4_calc_def)

lemma mem_read_data:
  assumes "buff_wf b" and "buf_idx b \<noteq> 0"
  shows "mem_read (buf_base b) 0 (unat (buf_idx b)) = Some (buff_data b)"
  using assms by (auto simp: mem_read_def buff_wf_def buff_data_def buff_bytes_def split: option.splits)

lemma craft_msgheader_data:
  assumes "buff_growing b" and "length (buff_data b) < 2 ^ 59"
  shows "\<exists>out. btcmsg_craft_msgheader testnet sha name (Some b) = Some out \<and>
     buff_data out = enc_msgheader \<lparr>mh_magic = btc_net_magic testnet, mh_message = strncpy 12 (c_bytes name),
       mh_payloadLength = ucast (buf_idx b), mh_checksum = hash4_calc sha (buff_data b)\<rparr> @ buff_data b"
proof -
  have wf: "buff_wf b" using assms(1) by (rule buff_growing_wf)
  let ?h = "\<lparr>mh_magic = btc_net_magic testnet, mh_message = strncpy 12 (c_bytes name),
       mh_payloadLength = ucast (buf_idx b), mh_checksum = hash4_calc sha (buff_data b)\<rparr>"
  have rd: "(if buf_idx b = 0 then Some [] else mem_read (buf_base b) 0 (unat (buf_idx b))) = Some (buff_data b)"
    using mem_read_data [OF wf] by (simp add: buff_data_def)
  have "appends buff_alloc (serialize_msgheader buff_alloc ?h) (enc_msgheader ?h)"
    by (intro serialize_msgheader_appends) simp_all
  then obtain b1 where b1: "serialize_msgheader buff_alloc ?h = Some (False, b1)" "buff_growing b1"
      "buff_data b1 = enc_msgheader ?h" by (auto elim!: appendsE)
  have "length (buff_data b1) = 24" using b1 by (simp add: enc_msgheader_def)
  then have "appends b1 (buff_copy_to b1 (buff_bytes b) (buf_idx b)) (take (unat (buf_idx b)) (buff_bytes b))"
    using b1 wf assms by (intro copy_to_appends_take) (auto simp: length_buff_data buff_wf_def)
  then obtain b2 where "buff_append b1 (Some b) = Some (False, b2)" "buff_data b2 = enc_msgheader ?h @ buff_data b"
    using b1 by (auto elim!: appendsE simp: buff_append_def buff_bytes_def buff_data_def)
  with b1 show ?thesis
    unfolding btcmsg_craft_msgheader_def buff_curlen_def buff_base_def option.case rd by simp
qed

section \<open>Parsing what was built\<close>

lemma parse_header_entry_enc:
  assumes "buff_wf b" and "buff_rest b = enc_blockheader h @ [0] @ ys"
  shows "parse_header_entry b old = Some (False, h, buff_adv b 81)"
proof -
  have l: "length (enc_blockheader h) = 80" by (simp add: enc_blockheader_def)
  have e: "enc_varint 0 = [0]" by (simp add: enc_varint_def)
  have "deserialize_blockheader b old = Some (False, h, buff_adv b 80)"
    using deserialize_blockheader_enc [OF assms(1), of h "0 # ys"] assms l by simp
  moreover have "deserialize_varint (buff_adv b 80) 0 = Some (False, 0, buff_adv (buff_adv b 80) 1)"
    using deserialize_varint_enc [of 0 "buff_adv b 80" ys 0] assms l e by (simp add: ok_varint_def)
  ultimately show ?thesis by (simp add: parse_header_entry_def)
qed

lemma read_array_encoded:
  assumes f: "\<And>b x ys old. buff_wf b \<Longrightarrow> buff_rest b = enc x @ ys \<Longrightarrow>
       f b old = Some (False, x, buff_adv b (length (enc x)))"
    and "buff_wf b" and "buff_rest b = concat (map enc xs) @ ys"
  shows "read_array f z (length xs) b = Some (False, xs, buff_adv b (length (concat (map enc xs))))"
  using assms(2,3)
proof (induction xs arbitrary: b)
  case Nil
  then show ?case by simp
next
  case (Cons x xs)
  with f [OF Cons.prems(1), of x "concat (map enc xs) @ ys" z] show ?case by simp
qed

lemma read_all_encoded:
  assumes f: "\<And>b x ys old. buff_wf b \<Longrightarrow> buff_rest b = enc x @ ys \<Longrightarrow>
       f b old = Some (False, x, buff_adv b (length (enc x)))"
    and "buff_wf b" and "buff_rest b = concat (map enc xs) @ ys"
  shows "read_all f z (length xs) b = Some (False, xs, buff_adv b (length (concat (map enc xs))))"
  using assms(2,3)
proof (induction xs arbitrary: b)
  case Nil
  then show ?case by simp
next
  case (Cons x xs)
  with f [OF Cons.prems(1), of x "concat (map enc xs) @ ys" z] show ?case by simp
qed

lemma parse_headers_enc:
  assumes wf: "buff_wf b" and r: "buff_rest b = enc_headers hs" and n: "length hs \<le> 2000"
  shows "\<exists>b'. btcmsg_parse_headers b = Some (False, (Some hs, length hs), b') \<and> buff_rest b' = []"
proof -
  let ?n = "of_nat (length hs) :: u64" and ?e = "\<lambda>h. enc_blockheader h @ [0]"
  have u: "unat ?n = length hs" using n by (simp add: unat_of_nat_small)
  let ?b = "buff_adv b (length (enc_varint ?n))"
  have d: "deserialize_varint b 0 = Some (False, ?n, ?b)"
    using wf r n u by (intro deserialize_varint_enc) (auto simp: ok_varint_iff enc_headers_def)
  have b: "buff_wf ?b" "buff_rest ?b = concat (map ?e hs) @ []"
    using wf r by (simp_all add: enc_headers_def)
  have ra: "read_array parse_header_entry z (length hs) ?b =
      Some (False, hs, buff_adv ?b (length (concat (map ?e hs))))" for z
    by (rule read_array_encoded [OF _ b])
      (use parse_header_entry_enc in \<open>simp add: enc_blockheader_def\<close>)
  have "\<not> BTC_MSG_GETHEADERS_MAX_ENTRIES < ?n"
    using n u by (simp add: bitc_defs word_less_nat_alt)
  moreover have "buff_wf (buff_adv ?b (length (concat (map ?e hs))))"
    "buff_rest (buff_adv ?b (length (concat (map ?e hs)))) = []"
    using b by (simp_all del: buff_adv_adv)
  ultimately show ?thesis
    using d ra [of btc_block_header_zero] u
    by (simp add: btcmsg_parse_headers_def space_left_eq del: buff_adv_adv)
qed

text \<open>A peer's header arrives as 24 bytes laid over the structure \<open>btc_msg_header\<close>
  (\<open>netasync_receive\<close> into \<open>peer->msgHdr\<close>).\<close>

definition msghdr_overlay :: "byte list \<Rightarrow> btc_msg_header" where
  "msghdr_overlay bs = \<lparr>mh_magic = le_word (take 4 bs), mh_message = take 12 (drop 4 bs),
     mh_payloadLength = le_word (take 4 (drop 16 bs)), mh_checksum = take 4 (drop 20 bs)\<rparr>"

definition recv_buff :: "byte list \<Rightarrow> buff" where
  "recv_buff bs = buff_init (Some bs) (of_nat (length bs))"

definition tx_counts_ok :: "btc_msg_tx \<Rightarrow> bool" where
  "tx_counts_ok tx \<longleftrightarrow> unat (tx_in_count tx) \<le> length (tx_tx_in tx) \<and>
     unat (tx_out_count tx) \<le> length (tx_tx_out tx)"

lemma recv_buff_wf [simp]:
  assumes "length bs < 2 ^ 62"
  shows "buff_wf (recv_buff bs)" "buff_rest (recv_buff bs) = bs"
  using buff_init_wf [OF assms] by (simp_all add: recv_buff_def)

lemma msghdr_overlay_enc [simp]:
  assumes "length (mh_message h) = 12" and "length (mh_checksum h) = 4"
  shows "msghdr_overlay (take 24 (enc_msgheader h @ ys)) = h"
  using assms by (simp add: msghdr_overlay_def enc_msgheader_def)

lemma unat_of_char: "unat (of_char c :: byte) = (of_char c :: nat)"
proof -
  have "(of_char c :: byte) = of_nat (of_char c)" by (cases c) (simp add: of_char_def)
  also have "unat \<dots> = of_char c" by (intro unat_of_nat_small) (use range_nat_of_char in auto)
  finally show ?thesis .
qed

lemma of_char_byte_eq_iff: "(of_char c :: byte) = of_char d \<longleftrightarrow> c = d"
  by (metis of_char_eq_iff unat_of_char)

lemma of_char_byte_eq_0: "(of_char c :: byte) = 0 \<longleftrightarrow> c = CHR 0x00"
  using of_char_byte_eq_iff [of c "CHR 0x00"] by simp

lemma strncmp_padded:
  assumes "length s \<le> n" and "length t \<le> n" and "CHR 0x00 \<notin> set s" and "CHR 0x00 \<notin> set t"
  shows "strncmp_eq n (c_bytes s @ replicate (n - length s) 0) (c_bytes t) \<longleftrightarrow> s = t"
  using assms
proof (induction n arbitrary: s t)
  case (Suc n)
  show ?case
  proof (cases s)
    case Nil
    with Suc.prems show ?thesis by (cases t) (auto simp: c_bytes_def of_char_byte_eq_0)
  next
    case (Cons c s')
    have c: "(of_char c :: byte) \<noteq> 0" using Suc.prems Cons by (auto simp: of_char_byte_eq_0)
    show ?thesis
    proof (cases t)
      case Nil
      with Cons c show ?thesis by (simp add: c_bytes_def)
    next
      case (Cons d t')
      with \<open>s = c # s'\<close> c Suc.prems Suc.IH [of s' t'] show ?thesis
        by (auto simp: c_bytes_def of_char_byte_eq_iff)
    qed
  qed
qed (simp add: c_bytes_def)

lemma command_names:
  "distinct (map btcmsg_type_to_str btc_msg_types)"
  "list_all (\<lambda>t. length (btcmsg_type_to_str t) \<le> 12 \<and> CHR 0x00 \<notin> set (btcmsg_type_to_str t)) btc_msg_types"
  "t \<in> set btc_msg_types"
  by (code_simp, code_simp, cases t) (simp_all add: btc_msg_types_def)

lemma filter_distinct_image:
  "distinct (map g xs) \<Longrightarrow> t \<in> set xs \<Longrightarrow> filter (\<lambda>u. g t = g u) xs = [t]"
  by (induction xs) (auto simp: filter_empty_conv rev_image_eqI)

text \<open>The name of every command, as \<open>btcmsg_craft_msgheader\<close> pads it, is recognised.\<close>

lemma str_to_type_name: "btcmsg_str_to_type (strncpy 12 (c_bytes (btcmsg_type_to_str t))) = t"
proof -
  have n: "length (btcmsg_type_to_str u) \<le> 12" "CHR 0x00 \<notin> set (btcmsg_type_to_str u)" for u
    using command_names(2,3) by (auto simp: list_all_iff)
  have "strncpy 12 (c_bytes (btcmsg_type_to_str t)) =
      c_bytes (btcmsg_type_to_str t) @ replicate (12 - length (btcmsg_type_to_str t)) 0"
    using n by (simp add: strncpy_def c_bytes_def)
  then have "filter (\<lambda>u. strncmp_eq 12 (strncpy 12 (c_bytes (btcmsg_type_to_str t)))
       (c_bytes (btcmsg_type_to_str u))) btc_msg_types = [t]"
    using n by (simp add: strncmp_padded filter_distinct_image [OF command_names(1,3)])
  then show ?thesis by (simp add: btcmsg_str_to_type_def)
qed

lemma concat_const_length:
  assumes "\<And>x. length (f x) = k"
  shows "length (concat (map f xs)) = k * length xs"
  by (induction xs) (simp_all add: assms)

lemma payload_valid_init:
  assumes "length bs < 2 ^ 62"
  shows "btcmsg_payload_valid sha (Some (recv_buff bs)) (hash4_calc sha bs) = Some True"
proof -
  have "unat (of_nat (length bs) :: u64) = length bs" using assms by (intro unat_of_nat_small) simp
  moreover have "mem_read (Some bs) 0 (length bs) = Some bs" by (simp add: mem_read_def)
  moreover have "(of_nat (length bs) :: u64) = 0 \<Longrightarrow> bs = []"
    using calculation(1) by (metis length_0_conv unat_0)
  ultimately show ?thesis
    by (auto simp: btcmsg_payload_valid_def buff_curlen_def buff_maxlen_def recv_buff_def buff_init_def buff_base_def ASSERT_def)
qed

section \<open>Properties\<close>

text \<open>C27: a message framed by \<open>btcmsg_craft_msgheader\<close> is accepted by the receiving side: the
  first 24 bytes are a valid header of this network that names the command and the payload's
  length, the rest is the payload, and its checksum is the one the header carries.\<close>

theorem crafted_frame_accepted:
  assumes b: "buff_growing b" and n: "length (buff_data b) \<le> 32 * 1024 * 1024"
  shows "\<exists>out h. btcmsg_craft_msgheader testnet sha (btcmsg_type_to_str t) (Some b) = Some out \<and>
     h = msghdr_overlay (take 24 (buff_data out)) \<and> btcmsg_header_valid testnet h \<and>
     btcmsg_str_to_type (mh_message h) = t \<and>
     unat (mh_payloadLength h) = length (buff_data b) \<and> drop 24 (buff_data out) = buff_data b \<and>
     btcmsg_payload_valid sha (Some (recv_buff (drop 24 (buff_data out)))) (mh_checksum h) = Some True"
proof -
  let ?h = "\<lparr>mh_magic = btc_net_magic testnet, mh_message = strncpy 12 (c_bytes (btcmsg_type_to_str t)),
       mh_payloadLength = ucast (buf_idx b), mh_checksum = hash4_calc sha (buff_data b)\<rparr>"
  have wf: "buff_wf b" using b by (rule buff_growing_wf)
  obtain out where out: "btcmsg_craft_msgheader testnet sha (btcmsg_type_to_str t) (Some b) = Some out"
    "buff_data out = enc_msgheader ?h @ buff_data b"
    using craft_msgheader_data [OF b] n by fastforce
  have l: "length (enc_msgheader ?h) = 24" by (simp add: enc_msgheader_def)
  have u: "unat (ucast (buf_idx b) :: u32) = length (buff_data b)"
    using n wf by (simp add: length_buff_data unsigned_ucast_eq take_bit_nat_eq_self)
  then have "btcmsg_header_valid testnet ?h"
    using n by (simp add: btcmsg_header_valid_def bitc_defs word_less_nat_alt)
  moreover have "btcmsg_payload_valid sha (Some (recv_buff (buff_data b))) (mh_checksum ?h) = Some True"
    using n by (simp add: payload_valid_init)
  ultimately show ?thesis
    using out l u by (intro exI [of _ out] exI [of _ ?h]) (simp add: str_to_type_name del: take_append)
qed

theorem crafted_frame_accepted_witness:
  "buff_growing buff_alloc \<and> length (buff_data buff_alloc) \<le> 32 * 1024 * 1024 \<and>
   (\<exists>out h. btcmsg_craft_msgheader True (\<lambda>_. 0) (btcmsg_type_to_str BTC_MSG_VERACK) (Some buff_alloc) = Some out \<and>
     h = msghdr_overlay (take 24 (buff_data out)) \<and> btcmsg_header_valid True h \<and>
     btcmsg_str_to_type (mh_message h) = BTC_MSG_VERACK \<and>
     unat (mh_payloadLength h) = length (buff_data buff_alloc) \<and> drop 24 (buff_data out) = buff_data buff_alloc \<and>
     btcmsg_payload_valid (\<lambda>_. 0) (Some (recv_buff (drop 24 (buff_data out)))) (mh_checksum h) = Some True)"
  using crafted_frame_accepted [of buff_alloc True "\<lambda>_. 0" BTC_MSG_VERACK] by simp

text \<open>C7: every parser of \<open>btc-message.c\<close> is safe on any bytes a peer sends: it returns,
  without a failed assertion or an access outside the buffer, with the cursor within the buffer.\<close>

theorem parsers_memory_safe:
  assumes "buff_wf b"
  shows "reads_ok b (btcmsg_parse_notfound w b) \<and>
     reads_ok b (btcmsg_parse_alert b) \<and>
     reads_ok b (btcmsg_parse_block b blk) \<and>
     reads_ok b (btcmsg_parse_headers b) \<and>
     reads_ok b (btcmsg_parse_pingpong pv b) \<and>
     reads_ok b (btcmsg_parse_addr now pv b) \<and>
     reads_ok b (btcmsg_parse_inv b) \<and>
     reads_ok b (btcmsg_parse_version b v) \<and>
     reads_ok b (btcmsg_parse_cfilter b) \<and>
     reads_ok b (btcmsg_parse_cfheaders b) \<and>
     reads_ok b (btcmsg_parse_cfcheckpt b)"
  using assms
  by (simp add: parse_notfound_safe parse_alert_safe parse_block_safe parse_headers_safe
      parse_pingpong_safe parse_addr_safe parse_inv_safe btcmsg_parse_version_def deserialize_version_safe
      parse_cfilter_safe parse_cfheaders_safe parse_cfcheckpt_safe)

theorem parsers_memory_safe_witness:
  "buff_wf sample_buff \<and> reads_ok sample_buff (btcmsg_parse_headers sample_buff) \<and>
   reads_ok sample_buff (btcmsg_parse_inv sample_buff) \<and>
   reads_ok sample_buff (btcmsg_parse_addr 0 70016 sample_buff)"
proof -
  have "buff_wf sample_buff"
    by (simp add: sample_buff_def buff_wf_def buff_init_def buff_bytes_def)
  then show ?thesis using parsers_memory_safe by blast
qed

text \<open>A \<open>headers\<close> message with at most 2000 headers, each followed by a zero transaction
  count, is accepted by \<open>btcmsg_parse_headers\<close>, which returns exactly these headers and their
  number and consumes the whole message.\<close>

theorem headers_accepted:
  assumes "length hs \<le> 2000"
  shows "\<exists>b'. btcmsg_parse_headers (recv_buff (enc_headers hs)) = Some (False, (Some hs, length hs), b') \<and>
     buff_rest b' = []"
proof -
  have "length (concat (map (\<lambda>h. enc_blockheader h @ [0]) hs)) = 81 * length hs"
    by (intro concat_const_length) (simp add: enc_blockheader_def)
  then have "length (enc_headers hs) < 2 ^ 62"
    using assms length_enc_varint(1) [of "of_nat (length hs)"] by (simp add: enc_headers_def)
  with assms show ?thesis by (intro parse_headers_enc) simp_all
qed

theorem headers_accepted_witness:
  "length [btc_block_header_zero] \<le> 2000 \<and>
   (\<exists>b'. btcmsg_parse_headers (recv_buff (enc_headers [btc_block_header_zero])) =
       Some (False, (Some [btc_block_header_zero], 1), b') \<and> buff_rest b' = [])"
  using headers_accepted [of "[btc_block_header_zero]"] by simp

subsection \<open>Inventories\<close>

lemma write_array_take:
  assumes "n \<le> length xs"
  shows "write_array f n xs b = write_array f n (take n xs) b"
  using assms
proof (induction n arbitrary: xs b)
  case (Suc n)
  then obtain x ys where "xs = x # ys" "n \<le> length ys" by (cases xs) auto
  then show ?case using Suc.IH [of ys] by (simp del: write_array.simps(2) add: write_array.simps(2) [of f n "_ # _"])
qed simp

lemma write_array_map:
  "write_array f n (map g xs) b = write_array (\<lambda>b x. f b (g x)) n xs b"
  by (induction n arbitrary: xs b) (simp_all split: list.splits)

lemma length_enc_inv [simp]: "length (enc_inv iv) = 36"
  by (simp add: enc_inv_def)

lemma length_enc_msgheader:
  "length (mh_message h) = 12 \<Longrightarrow> length (mh_checksum h) = 4 \<Longrightarrow> length (enc_msgheader h) = 24"
  by (simp add: enc_msgheader_def)

lemma craft_inv_list_data:
  assumes n: "n \<le> length hash" "n \<le> 2 ^ 20"
  shows "\<exists>out. craft_inv_list testnet sha name ty hash n = Some out \<and>
     drop 24 (buff_data out) = enc_varint (of_nat n) @
       concat (map enc_inv (map (\<lambda>h. \<lparr>inv_type = ty, inv_hash = h\<rparr>) (take n hash)))"
proof -
  let ?v = "of_nat n :: u64" and ?is = "map (\<lambda>h. \<lparr>inv_type = ty, inv_hash = h\<rparr>) (take n hash)"
  have len: "length (concat (map enc_inv ?is)) = 36 * n"
    using n by (subst concat_const_length [where k = 36]) simp_all
  have wa: "write_array (\<lambda>b h. serialize_inv b \<lparr>inv_type = ty, inv_hash = h\<rparr>) n hash b =
      write_array serialize_inv (length ?is) ?is b" for b
    using n by (simp add: write_array_map write_array_take [of n hash])
  have "appends buff_alloc (serialize_varint buff_alloc ?v) (enc_varint ?v)"
    using length_enc_varint(1) [of ?v] by (intro serialize_varint_appends) simp_all
  then obtain b1 where b1: "serialize_varint buff_alloc ?v = Some (False, b1)" "buff_growing b1"
    "buff_data b1 = enc_varint ?v" by (auto elim!: appendsE)
  have "appends b1 (write_array serialize_inv (length ?is) ?is b1) (concat (map enc_inv ?is))"
    using b1 length_enc_varint(1) [of ?v] len n
    by (intro invc.write_array_appends) (simp_all add: list_all_iff)
  then obtain b2 where b2: "write_array serialize_inv (length ?is) ?is b1 = Some (False, b2)"
    "buff_growing b2" "buff_data b2 = enc_varint ?v @ concat (map enc_inv ?is)"
    using b1 by (auto elim!: appendsE)
  moreover have "length (buff_data b2) < 2 ^ 59"
    using b2 len n length_enc_varint(1) [of ?v] by simp
  ultimately obtain out where out: "btcmsg_craft_msgheader testnet sha name (Some b2) = Some out"
    "\<exists>h. buff_data out = enc_msgheader h @ buff_data b2 \<and> length (enc_msgheader h) = 24"
    using craft_msgheader_data [OF b2(2), of testnet sha name] length_enc_msgheader by fastforce
  then have "drop 24 (buff_data out) = buff_data b2" by auto
  with out b1 b2 show ?thesis unfolding craft_inv_list_def wa by simp
qed

lemma parse_inv_enc:
  assumes wf: "buff_wf b" and r: "buff_rest b = enc_varint (of_nat (length is)) @ concat (map enc_inv is)"
    and n: "length is \<le> 50000"
  shows "\<exists>b'. btcmsg_parse_inv b = Some (False, (Some is, length is), b') \<and> buff_rest b' = []"
proof -
  let ?n = "of_nat (length is) :: u64"
  let ?b = "buff_adv b (length (enc_varint ?n))"
  have u: "unat ?n = length is" using n by (simp add: unat_of_nat_small)
  have d: "deserialize_varint b 0 = Some (False, ?n, ?b)"
    using wf r n u by (intro deserialize_varint_enc) (auto simp: ok_varint_iff)
  have b: "buff_wf ?b" "buff_rest ?b = concat (map enc_inv is) @ []"
    using wf r by simp_all
  have ra: "read_all deserialize_inv z (length is) ?b =
      Some (False, is, buff_adv ?b (length (concat (map enc_inv is))))" for z
    by (rule read_all_encoded [OF _ b]) (rule deserialize_inv_enc)
  have "\<not> BTC_MSG_INV_MAX_ENTRIES < ?n" using n u by (simp add: bitc_defs word_less_nat_alt)
  moreover have "buff_rest (buff_adv ?b (length (concat (map enc_inv is)))) = []"
    using b by (simp del: buff_adv_adv)
  ultimately show ?thesis
    using d ra [of btc_msg_inv_zero] u by (simp add: btcmsg_parse_inv_def del: buff_adv_adv)
qed

text \<open>The payload of an \<open>inv\<close> message built by \<open>btcmsg_craft_inv\<close> is parsed back by
  \<open>btcmsg_parse_inv\<close> into the same hashes, in order, all of the given type.\<close>

theorem inv_roundtrip:
  assumes "n \<le> length hash" and "n \<le> 50000"
  shows "\<exists>out b'. btcmsg_craft_inv testnet sha ty hash n = Some out \<and>
     btcmsg_parse_inv (recv_buff (drop 24 (buff_data out))) =
       Some (False, (Some (map (\<lambda>h. \<lparr>inv_type = ty, inv_hash = h\<rparr>) (take n hash)), n), b')"
proof -
  let ?is = "map (\<lambda>h. \<lparr>inv_type = ty, inv_hash = h\<rparr>) (take n hash)"
  obtain out where out: "craft_inv_list testnet sha ''inv'' ty hash n = Some out"
    "drop 24 (buff_data out) = enc_varint (of_nat (length ?is)) @ concat (map enc_inv ?is)"
    using craft_inv_list_data [of n hash testnet sha "''inv''" ty] assms by auto
  have len: "length (enc_varint (of_nat (length ?is)) @ concat (map enc_inv ?is)) < 2 ^ 62"
    using assms length_enc_varint(1) [of "of_nat (length ?is)"]
      concat_const_length [of enc_inv 36 ?is] by simp
  from parse_inv_enc [OF recv_buff_wf(1) recv_buff_wf(2), OF len len] assms
  have "\<exists>b'. btcmsg_parse_inv (recv_buff (drop 24 (buff_data out))) = Some (False, (Some ?is, n), b')"
    using out(2) by auto
  with out(1) assms show ?thesis by (simp add: btcmsg_craft_inv_def bitc_defs ASSERT_def)
qed


theorem inv_roundtrip_witness:
  "2 \<le> length [5, 6, 7 :: uint256] \<and> 2 \<le> (50000::nat) \<and>
   (\<exists>out b'. btcmsg_craft_inv False (\<lambda>_. 0) INV_TYPE_MSG_TX [5, 6, 7] 2 = Some out \<and>
     btcmsg_parse_inv (recv_buff (drop 24 (buff_data out))) =
       Some (False, (Some [\<lparr>inv_type = INV_TYPE_MSG_TX, inv_hash = 5\<rparr>,
         \<lparr>inv_type = INV_TYPE_MSG_TX, inv_hash = 6\<rparr>], 2), b'))"
  using inv_roundtrip [of 2 "[5, 6, 7]" False "\<lambda>_. 0" INV_TYPE_MSG_TX] by simp

subsection \<open>Addresses\<close>

lemma deserialize_addr_needs:
  assumes "buff_wf b" and "BTC_PROTO_ADDR_W_TIME \<le> pv"
    and "deserialize_addr pv b old = Some (False, ad, b')"
  shows "30 \<le> length (buff_rest b) \<and> b' = buff_adv b 30"
  using assms by (auto simp: deserialize_addr_def deserialize_uint_eqs deserialize_bytes_eq split: if_splits)

lemma read_addrs_needs:
  assumes "buff_wf b" and "BTC_PROTO_ADDR_W_TIME \<le> pv"
    and "read_array (deserialize_addr pv) z n b = Some (False, ads, b')"
  shows "30 * n \<le> length (buff_rest b)"
  using assms(1,3)
proof (induction n arbitrary: b ads)
  case (Suc n)
  then obtain ad b1 ads' where "deserialize_addr pv b z = Some (False, ad, b1)"
    and 1: "read_array (deserialize_addr pv) z n b1 = Some (False, ads', b')"
    by (auto split: bind_splits if_splits)
  with deserialize_addr_needs [OF Suc.prems(1) assms(2)]
  have 2: "30 \<le> length (buff_rest b)" "b1 = buff_adv b 30" by auto
  with Suc.IH [of b1 ads'] 1 Suc.prems(1) show ?case by simp
qed simp

lemma craft_addr_payload_data:
  assumes n: "n \<le> length addrs" "n \<le> 1000"
  shows "\<exists>b. craft_addr_payload addrs n = Some b \<and>
     buff_data b = enc_varint (of_nat n) @ concat (map enc_addr (take n addrs))"
proof -
  let ?v = "of_nat n :: u64" and ?as = "take n addrs"
  have "appends buff_alloc (serialize_varint buff_alloc ?v) (enc_varint ?v)"
    using length_enc_varint(1) [of ?v] by (intro serialize_varint_appends) simp_all
  then obtain b1 where b1: "serialize_varint buff_alloc ?v = Some (False, b1)" "buff_growing b1"
    "buff_data b1 = enc_varint ?v" by (auto elim!: appendsE)
  have "appends b (write_array serialize_addr (length as) as b) (concat (map enc_addr as))"
    if "buff_growing b" "length (buff_data b) + 26 * length as < 2 ^ 60" for b as
    using that
  proof (induction as arbitrary: b)
    case (Cons a as)
    then show ?case
      by (simp, intro appends_bind)
        (auto intro!: appends_bind [where ys = "[]", simplified] appends_return appends_intros)
  qed (simp add: appends_return)
  from this [of b1 ?as] obtain b2 where
    "write_array serialize_addr (length ?as) ?as b1 = Some (False, b2)"
    "buff_data b2 = enc_varint ?v @ concat (map enc_addr ?as)"
    using b1 n length_enc_varint(1) [of ?v] by (auto elim!: appendsE)
  with b1 n show ?thesis
    by (simp add: craft_addr_payload_def bitc_defs ASSERT_def write_array_take [of n addrs])
qed

text \<open>An \<open>addr\<close> payload built by \<open>btcmsg_craft_addr\<close> is always rejected by
  \<open>btcmsg_parse_addr\<close> at every protocol version that carries times in addresses (31402 and
  above): the writer leaves the time field out.\<close>

theorem crafted_addr_rejected:
  assumes "0 < n" and "n \<le> length addrs" and "n \<le> 1000" and "31402 \<le> unat pv"
  shows "\<exists>b b'. craft_addr_payload addrs n = Some b \<and>
     btcmsg_parse_addr now pv (recv_buff (buff_data b)) = Some (True, None, b')"
proof -
  let ?v = "of_nat n :: u64"
  obtain b where b: "craft_addr_payload addrs n = Some b"
    "buff_data b = enc_varint ?v @ concat (map enc_addr (take n addrs))"
    using craft_addr_payload_data assms by blast
  have l: "length (concat (map enc_addr (take n addrs))) = 26 * n"
    using assms by (simp add: concat_const_length [where k = 26])
  let ?r = "recv_buff (buff_data b)" and ?r1 = "buff_adv (recv_buff (buff_data b)) (length (enc_varint ?v))"
  have wf: "buff_wf ?r" "buff_rest ?r = enc_varint ?v @ concat (map enc_addr (take n addrs))"
    using b l assms length_enc_varint(1) [of ?v] by simp_all
  have u: "unat ?v = n" using assms by (simp add: unat_of_nat_small)
  have d: "deserialize_varint ?r 0 = Some (False, ?v, ?r1)"
    using wf u assms by (intro deserialize_varint_enc) (auto simp: ok_varint_iff)
  have w1: "buff_wf ?r1" "length (buff_rest ?r1) = 26 * n" using wf l by simp_all
  have pv: "BTC_PROTO_ADDR_W_TIME \<le> pv" using assms by (simp add: bitc_defs word_le_nat_alt)
  obtain r ads b' where a: "read_array (deserialize_addr pv) btc_msg_address_zero n ?r1 = Some (r, ads, b')"
    using read_array_reads_ok [of "deserialize_addr pv", OF deserialize_addr_safe w1(1)]
    by (metis reads_ok_def)
  have r using read_addrs_needs [OF w1(1) pv, of _ n] a w1(2) assms(1) by (cases r) fastforce+
  moreover have "\<not> BTC_MSG_ADDR_MAX_ENTRIES < ?v" using assms u by (simp add: bitc_defs word_less_nat_alt)
  ultimately show ?thesis using a d u b(1) by (simp add: btcmsg_parse_addr_def)
qed

text \<open>C37: \<open>btcmsg_parse_addr\<close> hands out at most 1000 addresses, all IPv4 and not older than a
  day, and none when it fails.\<close>

theorem parse_addr_sound:
  assumes "btcmsg_parse_addr now pv b = Some (r, out, b')"
  shows "if r then out = None
     else \<exists>ads. out = Some ads \<and> length ads \<le> 1000 \<and>
        list_all (\<lambda>ad. btcmsg_addr_is_ipv4 ad \<and> now \<le> uint (ad_time ad) + 24 * 60 * 60) ads"
proof (cases r)
  case True
  with assms show ?thesis
    by (auto simp: btcmsg_parse_addr_def split: bind_splits if_splits)
next
  case False
  with assms obtain n b1 ads b2 where "\<not> BTC_MSG_ADDR_MAX_ENTRIES < n"
    and ra: "read_array (deserialize_addr pv) btc_msg_address_zero (unat n) b1 = Some (False, ads, b2)"
    and out: "out = Some (filter (addr_wanted now) ads)"
    by (auto simp: btcmsg_parse_addr_def split: bind_splits if_splits)
  then have "length ads \<le> 1000"
    using read_array_length [OF ra] by (simp add: bitc_defs word_less_nat_alt)
  then have "length (filter (addr_wanted now) ads) \<le> 1000"
    using length_filter_le le_trans by blast
  with out False show ?thesis by (auto simp: list_all_iff addr_wanted_def)
qed

theorem crafted_addr_rejected_witness:
  "31402 \<le> unat (70016 :: u32) \<and>
   (\<exists>b b'. craft_addr_payload [btc_msg_address_zero] 1 = Some b \<and>
     btcmsg_parse_addr 1700000000 70016 (recv_buff (buff_data b)) = Some (True, None, b'))"
  using crafted_addr_rejected [of 1 "[btc_msg_address_zero]" 70016 1700000000] by simp

theorem parse_addr_sound_witness:
  "\<exists>b'. btcmsg_parse_addr 0 70016 (recv_buff [0]) = Some (False, Some [], b') \<and>
     (\<exists>ads :: btc_msg_address list. Some [] = Some ads \<and> length ads \<le> 1000 \<and>
        list_all (\<lambda>ad. btcmsg_addr_is_ipv4 ad \<and> 0 \<le> uint (ad_time ad) + 24 * 60 * 60) ads)"
proof -
  have "\<exists>b'. btcmsg_parse_addr 0 70016 (recv_buff [0]) = Some (False, Some [], b')"
    by (simp add: btcmsg_parse_addr_def deserialize_varint_def deserialize_uint_eqs le_word_def
        bitc_defs space_left_eq)
  then obtain b' where b': "btcmsg_parse_addr 0 70016 (recv_buff [0]) = Some (False, Some [], b')" ..
  with parse_addr_sound [OF b', unfolded if_False] show ?thesis by blast
qed

subsection \<open>Release\<close>

lemma deserialize_tx_counts:
  assumes "deserialize_tx b tx0 = Some (r, tx, b')"
  shows "tx_counts_ok tx"
  using assms
  by (auto simp: deserialize_tx_def tx_counts_ok_def btc_msg_tx_zero_def Let_def
      dest!: read_array_length split: bind_splits if_splits)

lemma read_array_elems:
  assumes "\<And>b r x b'. f b z = Some (r, x, b') \<Longrightarrow> P x" and "P z"
    and "read_array f z n b = Some (r, xs, b')"
  shows "list_all P xs"
  using assms(3)
proof (induction n arbitrary: b r xs b')
  case (Suc n)
  then obtain r1 x b1 where 1: "f b z = Some (r1, x, b1)" by (auto split: bind_splits)
  with Suc assms(1) [OF 1] show ?case
    by (auto split: bind_splits if_splits simp: assms(2) list_all_iff)
qed simp

lemma tx_free_ok: "tx_counts_ok tx \<Longrightarrow> \<exists>fs. btc_msg_tx_free tx = Some fs"
  by (auto simp: btc_msg_tx_free_def tx_counts_ok_def ASSERT_def)

lemma those_map_ex: "list_all (\<lambda>x. \<exists>y. f x = Some y) xs \<Longrightarrow> \<exists>ys. those (map f xs) = Some ys"
  by (induction xs) auto

text \<open>Whatever \<open>deserialize_block\<close> leaves behind, after success or failure, can be released:
  \<open>btc_msg_block_free\<close> reads no entry outside the arrays.\<close>

theorem block_free_safe:
  assumes "deserialize_block b blk0 = Some (r, blk, b')"
  shows "\<exists>fs. btc_msg_block_free blk = Some fs"
proof -
  have "unat (blk_txCount blk) \<le> length (blk_tx blk) \<and> list_all tx_counts_ok (blk_tx blk)"
  proof -
    have z: "tx_counts_ok btc_msg_tx_zero" by (simp add: tx_counts_ok_def btc_msg_tx_zero_def)
    have "length txs = n \<and> list_all tx_counts_ok txs"
      if "read_array deserialize_tx btc_msg_tx_zero n b1 = Some (r, txs, b2)" for n b1 r txs b2
      using read_array_elems [of deserialize_tx btc_msg_tx_zero tx_counts_ok, OF _ z that]
        deserialize_tx_counts read_array_length [OF that] by blast
    note this [THEN conjunct1] this [THEN conjunct2]
    then show ?thesis using assms
      by (auto simp: deserialize_block_def Let_def split: bind_splits if_splits)
  qed
  then have "list_all (\<lambda>tx. \<exists>fs. btc_msg_tx_free tx = Some fs) (take (unat (blk_txCount blk)) (blk_tx blk))"
    by (auto simp: list_all_iff dest: in_set_takeD intro: tx_free_ok)
  from those_map_ex [OF this] show ?thesis
    using \<open>_ \<and> _\<close> by (auto simp: btc_msg_block_free_def ASSERT_def)
qed

theorem block_free_safe_witness:
  "\<exists>r blk b'. deserialize_block sample_buff
       \<lparr>blk_header = btc_block_header_zero, blk_txCount = 0, blk_tx = []\<rparr> = Some (r, blk, b') \<and>
     (\<exists>fs. btc_msg_block_free blk = Some fs)"
proof -
  have "buff_wf sample_buff"
    by (simp add: sample_buff_def buff_wf_def buff_init_def buff_bytes_def)
  then obtain r blk b' where d: "deserialize_block sample_buff
       \<lparr>blk_header = btc_block_header_zero, blk_txCount = 0, blk_tx = []\<rparr> = Some (r, blk, b')"
    by (metis deserialize_block_safe reads_ok_def)
  with block_free_safe [OF d] show ?thesis by blast
qed

end
