(* ===== verification/Base58.thy ===== *)
theory Base58
  imports Hash
begin

text \<open>
  The base-58 text form of addresses and private keys, \<^verbatim>\<open>src/core/base58.c\<close>.

  The big numbers are OpenSSL's: their operations are the record \<open>bn_ops\<close>, an argument of
  every definition that uses them, and \<open>bn_laws\<close> states their documented behaviour.
  SHA-256 is the argument \<open>sha\<close>, as in the theory \<open>Hash\<close>.

  The value \<^const>\<open>None\<close> of the outermost option is a failed assertion or an access outside of an
  allocation; a null pointer is the value \<^const>\<open>None\<close> of a \<^typ>\<open>memory\<close>.
\<close>

section \<open>Big numbers\<close>

record 'b bn_ops =
  BN_new :: 'b
  BN_set_word :: "nat \<Rightarrow> 'b"
  BN_get_word :: "'b \<Rightarrow> nat"
  BN_is_zero :: "'b \<Rightarrow> bool"
  BN_mul :: "'b \<Rightarrow> 'b \<Rightarrow> 'b option"
  BN_add :: "'b \<Rightarrow> 'b \<Rightarrow> 'b option"
  BN_div :: "'b \<Rightarrow> 'b \<Rightarrow> ('b \<times> 'b) option"
  BN_cmp :: "'b \<Rightarrow> 'b \<Rightarrow> int"
  BN_bn2mpi :: "'b \<Rightarrow> byte list"
  BN_mpi2bn :: "byte list \<Rightarrow> 'b option"

section \<open>Decoding\<close>

definition base58Chars :: string where
  "base58Chars = ''123456789ABCDEFGHJKLMNPQRSTUVWXYZabcdefghijkmnopqrstuvwxyz''"

text \<open>The offset of the first occurrence of a character.\<close>

primrec strchr :: "string \<Rightarrow> char \<Rightarrow> nat option" where
  "strchr [] c = None"
| "strchr (d # ds) c = (if d = c then Some 0 else map_option Suc (strchr ds c))"

text \<open>The bytes of a number, least significant first; a null pointer for zero.\<close>

definition base58_getvch :: "'b bn_ops \<Rightarrow> 'b \<Rightarrow> memory \<times> nat" where
  "base58_getvch ops v =
     (let s = BN_bn2mpi ops v; size = length s
      in if size \<le> 4 then (None, 0)
         else (Some (str_copyreverse (drop 4 s) (size - 4)), size - 4))"

text \<open>The number a string stands for; \<^const>\<open>None\<close> is the jump to the error exit. A character
  outside of the alphabet must start the white space at the end.\<close>

fun decode_loop :: "'b bn_ops \<Rightarrow> 'b \<Rightarrow> string \<Rightarrow> 'b option" where
  "decode_loop ops bn [] = Some bn"
| "decode_loop ops bn (c # buf) = (case strchr base58Chars c of
     None \<Rightarrow> (if dropWhile isspace (c # buf) \<noteq> [] then None else Some bn)
   | Some p \<Rightarrow> do {
       bn \<leftarrow> BN_mul ops bn (BN_set_word ops 58);
       bn \<leftarrow> BN_add ops bn (BN_set_word ops p);
       decode_loop ops bn buf
     })"

definition base58_decode :: "'b bn_ops \<Rightarrow> string \<Rightarrow> (memory \<times> nat) option" where
  "base58_decode ops str =
     (let str = dropWhile isspace str
      in case decode_loop ops (BN_set_word ops 0) str of None \<Rightarrow> Some (None, 0)
         | Some bn \<Rightarrow>
             (let (tmp, len) = base58_getvch ops bn;
                  t = (case tmp of None \<Rightarrow> [] | Some t \<Rightarrow> t);
                  len = (if 2 \<le> len \<and> t ! (len - 1) = 0 \<and> 0x80 \<le> t ! (len - 2) then len - 1 else len);
                  numLeadingZeros = length (takeWhile (\<lambda>c. c = base58Chars ! 0) str);
                  dstLen = len + numLeadingZeros
              in do {
                dst \<leftarrow> mem_write (Some (replicate dstLen 0)) numLeadingZeros (str_copyreverse t len);
                Some (dst, dstLen)
              }))"

text \<open>\<open>addrtype\<close> is a pointer to a byte, or null. The result: success, the byte, the data and their
  length, a \<open>size_t\<close> that wraps around when only the checksum was there.\<close>

definition base58_decode_check ::
  "'b bn_ops \<Rightarrow> (byte list \<Rightarrow> uint256) \<Rightarrow> byte option \<Rightarrow> string \<Rightarrow> (bool \<times> byte option \<times> memory \<times> nat) option" where
  "base58_decode_check ops sha addrtype buf = do {
     (data, len) \<leftarrow> base58_decode ops buf;
     if len < 4 then Some (False, addrtype, None, 0)
     else do {
       payload \<leftarrow> mem_read data 0 (len - 4);
       sum \<leftarrow> mem_read data (len - 4) 4;
       if hash4_calc sha payload \<noteq> sum then Some (False, addrtype, None, 0)
       else do {
         data \<leftarrow> mem_write data (len - 4) [0, 0, 0, 0];
         let len = len - 4;
         if addrtype = None then Some (True, addrtype, data, len)
         else do {
           t \<leftarrow> mem_read data 0 1;
           moved \<leftarrow> mem_read data 1 (len + 1);
           data \<leftarrow> mem_write data 0 moved;
           Some (True, Some (t ! 0), data, (len + (2 ^ 64 - 1)) mod 2 ^ 64)
         }
       }
     }
   }"

section \<open>Encoding\<close>

definition base58_setvch :: "'b bn_ops \<Rightarrow> 'b \<Rightarrow> byte list \<Rightarrow> nat \<Rightarrow> 'b option" where
  "base58_setvch ops bn buf0 len0 = do {
     let len = (of_nat len0 + 4 :: u32);
     let buffer = safe_malloc (unat len);
     ASSERT (BN_is_zero ops bn);
     buffer \<leftarrow> mem_write (Some buffer) 0 [of_nat (len0 div 2 ^ 24), of_nat (len0 div 2 ^ 16), of_nat (len0 div 2 ^ 8), of_nat len0];
     buffer \<leftarrow> mem_write buffer 4 (str_copyreverse buf0 len0);
     buffer \<leftarrow> buffer;
     BN_mpi2bn ops buffer
   }"

text \<open>The division loop, least significant digit first. \<open>str\<close> are the characters written so far to
  an allocation of \<open>cap\<close> bytes; the inner \<^const>\<open>None\<close> is the jump to the error exit.\<close>

partial_function (option) encode_loop :: "'b bn_ops \<Rightarrow> nat \<Rightarrow> 'b \<Rightarrow> string \<Rightarrow> string option option" where
  [code]: "encode_loop ops cap bn str =
     (if 0 < BN_cmp ops bn (BN_set_word ops 0)
      then (case BN_div ops bn (BN_set_word ops 58) of None \<Rightarrow> Some None
        | Some (div0, rem) \<Rightarrow> do {
            ASSERT (BN_get_word ops rem < length base58Chars);
            ASSERT (length str < cap);
            encode_loop ops cap div0 (str @ [base58Chars ! BN_get_word ops rem])
          })
      else Some (Some str))"

definition base58_encode :: "'b bn_ops \<Rightarrow> byte list \<Rightarrow> string option option" where
  "base58_encode ops buf0 = do {
     let len = length buf0;
     let cap = (len * 138) mod 2 ^ 64 div 100 + 1;
     let revd = str_copyreverse buf0 len @ [0];
     bn \<leftarrow> base58_setvch ops (BN_new ops) revd (len + 1);
     ASSERT (\<not> BN_is_zero ops bn);
     r \<leftarrow> encode_loop ops cap bn [];
     case r of None \<Rightarrow> Some None
     | Some str \<Rightarrow> do {
         ASSERT (length str \<noteq> 0);
         let str = str @ map (\<lambda>_. base58Chars ! 0) (takeWhile (\<lambda>b. b = 0) buf0);
         ASSERT (length str \<le> cap);
         Some (Some (rev str))
       }
   }"

definition base58_encode_check ::
  "'b bn_ops \<Rightarrow> (byte list \<Rightarrow> uint256) \<Rightarrow> byte \<Rightarrow> bool \<Rightarrow> byte list \<Rightarrow> string option option" where
  "base58_encode_check ops sha addrtype have_addrtype buf =
     (let s = (if have_addrtype then [addrtype] else []) @ buf
      in base58_encode ops (s @ hash4_calc sha s))"

section \<open>Addresses and keys\<close>

definition PUBKEY_ADDRESS :: byte where "PUBKEY_ADDRESS = 0"
definition SCRIPT_ADDRESS :: byte where "SCRIPT_ADDRESS = 5"
definition PRIVKEY_ADDRESS :: byte where "PRIVKEY_ADDRESS = 128"

definition b58_pubkey_from_uint160 :: "'b bn_ops \<Rightarrow> (byte list \<Rightarrow> uint256) \<Rightarrow> uint160 \<Rightarrow> string option option" where
  "b58_pubkey_from_uint160 ops sha digest = base58_encode_check ops sha PUBKEY_ADDRESS True (le_bytes digest)"

text \<open>\<open>type0\<close> is what the uninitialised variable \<open>type\<close> holds.\<close>

definition b58_pubkey_is_valid :: "'b bn_ops \<Rightarrow> (byte list \<Rightarrow> uint256) \<Rightarrow> byte \<Rightarrow> string option \<Rightarrow> bool option" where
  "b58_pubkey_is_valid ops sha type0 addr = (case addr of None \<Rightarrow> Some False
     | Some addr \<Rightarrow> do {
         (_, ty, _, len) \<leftarrow> base58_decode_check ops sha (Some type0) addr;
         Some (len = 20 \<and> (ty = Some PUBKEY_ADDRESS \<or> ty = Some SCRIPT_ADDRESS))
       })"

definition b58_bytes_to_privkey :: "'b bn_ops \<Rightarrow> (byte list \<Rightarrow> uint256) \<Rightarrow> byte list \<Rightarrow> string option option" where
  "b58_bytes_to_privkey ops sha key = base58_encode_check ops sha PRIVKEY_ADDRESS True key"

definition b58_bytes_to_pubkey :: "'b bn_ops \<Rightarrow> (byte list \<Rightarrow> uint256) \<Rightarrow> byte list \<Rightarrow> string option option" where
  "b58_bytes_to_pubkey ops sha key = base58_encode_check ops sha PUBKEY_ADDRESS True key"

text \<open>The key, if the text is one, and the length.\<close>

definition b58_privkey_to_bytes ::
  "'b bn_ops \<Rightarrow> (byte list \<Rightarrow> uint256) \<Rightarrow> byte \<Rightarrow> string \<Rightarrow> (memory \<times> nat) option" where
  "b58_privkey_to_bytes ops sha type0 addr = do {
     (_, ty, buf, len) \<leftarrow> base58_decode_check ops sha (Some type0) addr;
     last \<leftarrow> (if len = 33 then map_option (\<lambda>b. b ! 0) (mem_read buf 32 1) else Some 0);
     if ty = Some PRIVKEY_ADDRESS \<and> (len = 32 \<or> (len = 33 \<and> last = 1)) then Some (buf, len) else Some (None, len)
   }"

definition b58_pubkey_to_uint160 ::
  "'b bn_ops \<Rightarrow> (byte list \<Rightarrow> uint256) \<Rightarrow> byte \<Rightarrow> string \<Rightarrow> uint160 \<Rightarrow> uint160 option" where
  "b58_pubkey_to_uint160 ops sha type0 addr digest = do {
     (_, ty, buf, len) \<leftarrow> base58_decode_check ops sha (Some type0) addr;
     ASSERT (ty = Some PUBKEY_ADDRESS);
     if len = 20 then do { bs \<leftarrow> mem_read buf 0 20; Some (le_word bs) } else Some digest
   }"

section \<open>What OpenSSL documents\<close>

text \<open>Big-endian values and the shortest big-endian form of a number.\<close>

definition be_val :: "byte list \<Rightarrow> nat" where
  "be_val bs = foldl (\<lambda>v b. 256 * v + unat b) 0 bs"

fun be_bytes :: "nat \<Rightarrow> byte list" where
  "be_bytes n = (if n = 0 then [] else be_bytes (n div 256) @ [of_nat (n mod 256)])"

declare be_bytes.simps [simp del]

text \<open>The MPI format of a number: the length in four bytes and the shortest form of the number, with
  a zero byte in front when its first bit, which is the sign, would be set.\<close>

definition be_len :: "nat \<Rightarrow> byte list" where
  "be_len n = [of_nat (n div 2 ^ 24), of_nat (n div 2 ^ 16), of_nat (n div 2 ^ 8), of_nat n]"

definition mpi_body :: "nat \<Rightarrow> byte list" where
  "mpi_body n = (let b = be_bytes n in if b \<noteq> [] \<and> 0x80 \<le> hd b then 0 # b else b)"

definition bn_laws :: "'b bn_ops \<Rightarrow> ('b \<Rightarrow> nat) \<Rightarrow> bool" where
  "bn_laws ops val \<longleftrightarrow> val (BN_new ops) = 0 \<and> (\<forall>w < 2 ^ 64. val (BN_set_word ops w) = w) \<and>
     (\<forall>a. val a < 2 ^ 64 \<longrightarrow> BN_get_word ops a = val a) \<and> (\<forall>a. BN_is_zero ops a \<longleftrightarrow> val a = 0) \<and>
     (\<forall>a b. \<exists>c. BN_mul ops a b = Some c \<and> val c = val a * val b) \<and>
     (\<forall>a b. \<exists>c. BN_add ops a b = Some c \<and> val c = val a + val b) \<and>
     (\<forall>a b. val b \<noteq> 0 \<longrightarrow> (\<exists>q r. BN_div ops a b = Some (q, r) \<and> val q = val a div val b \<and> val r = val a mod val b)) \<and>
     (\<forall>a b. 0 < BN_cmp ops a b \<longleftrightarrow> val b < val a) \<and>
     (\<forall>a. length (be_bytes (val a)) < 2 ^ 31 - 8 \<longrightarrow>
        BN_bn2mpi ops a = be_len (length (mpi_body (val a))) @ mpi_body (val a)) \<and>
     (\<forall>body. body \<noteq> [] \<longrightarrow> hd body < 0x80 \<longrightarrow> length body < 2 ^ 31 - 8 \<longrightarrow>
        (\<exists>a. BN_mpi2bn ops (be_len (length body) @ body) = Some a \<and> val a = be_val body))"

lemma bn_lawsD:
  assumes "bn_laws ops val"
  shows "val (BN_new ops) = 0" "w < 2 ^ 64 \<Longrightarrow> val (BN_set_word ops w) = w"
    "val a < 2 ^ 64 \<Longrightarrow> BN_get_word ops a = val a" "BN_is_zero ops a \<longleftrightarrow> val a = 0"
    "\<exists>c. BN_mul ops a b = Some c \<and> val c = val a * val b"
    "\<exists>c. BN_add ops a b = Some c \<and> val c = val a + val b"
    "val b \<noteq> 0 \<Longrightarrow> \<exists>q r. BN_div ops a b = Some (q, r) \<and> val q = val a div val b \<and> val r = val a mod val b"
    "0 < BN_cmp ops a b \<longleftrightarrow> val b < val a"
    "length (be_bytes (val a)) < 2 ^ 31 - 8 \<Longrightarrow>
        BN_bn2mpi ops a = be_len (length (mpi_body (val a))) @ mpi_body (val a)"
    "body \<noteq> [] \<Longrightarrow> hd body < 0x80 \<Longrightarrow> length body < 2 ^ 31 - 8 \<Longrightarrow>
        \<exists>a. BN_mpi2bn ops (be_len (length body) @ body) = Some a \<and> val a = be_val body"
  using assms unfolding bn_laws_def by blast+

section \<open>Numbers and digits\<close>

lemma be_val_Nil [simp]: "be_val [] = 0" and be_val_snoc [simp]: "be_val (bs @ [b]) = 256 * be_val bs + unat b"
  by (simp_all add: be_val_def)

lemma be_val_Cons0 [simp]: "be_val (0 # bs) = be_val bs" and be_val_single [simp]: "be_val [b] = unat b"
  by (simp_all add: be_val_def)

lemma be_val_zeros [simp]: "be_val (replicate z 0 @ bs) = be_val bs"
  by (induction z) simp_all

lemma byte_lt: "unat (b :: byte) < 256"
  using unsigned_less [of b, where ?'a = nat] by simp

lemma be_val_bytes [simp]: "be_val (be_bytes n) = n"
proof (induction n rule: be_bytes.induct)
  case (1 n)
  then show ?case by (cases "n = 0") (simp_all add: be_bytes.simps [of n] be_bytes.simps [of 0] unsigned_of_nat take_bit_nat_eq_self)
qed

lemma be_bytes_val:
  assumes "bs \<noteq> []" and "hd bs \<noteq> 0"
  shows "be_bytes (be_val bs) = bs \<and> be_val bs \<noteq> 0"
  using assms
proof (induction bs rule: rev_induct)
  case (snoc b bs)
  have b: "(256 * be_val bs + unat b) div 256 = be_val bs" "(256 * be_val bs + unat b) mod 256 = unat b"
    using byte_lt [of b] by simp_all
  show ?case
  proof (cases "bs = []")
    case True
    with snoc.prems have "unat b \<noteq> 0" by (simp add: unat_eq_0)
    with True byte_lt [of b] show ?thesis
      by (simp add: be_bytes.simps [of "unat b"] be_bytes.simps [of 0])
  next
    case False
    with snoc have "be_bytes (be_val bs) = bs" "be_val bs \<noteq> 0" by simp_all
    with b show ?thesis by (simp add: be_bytes.simps [of "256 * be_val bs + unat b"])
  qed
qed simp

lemma be_bytes_hd: "n \<noteq> 0 \<Longrightarrow> be_bytes n \<noteq> [] \<and> hd (be_bytes n) \<noteq> 0"
proof (induction n rule: be_bytes.induct)
  case (1 n)
  show ?case
  proof (cases "n div 256 = 0")
    case True
    then have "n < 256" by simp
    then have "unat (of_nat (n mod 256) :: byte) = n" by (simp add: unsigned_of_nat take_bit_nat_eq_self)
    then have "(of_nat (n mod 256) :: byte) \<noteq> 0" using 1(2) by auto
    with True 1(2) show ?thesis by (simp add: be_bytes.simps [of n] be_bytes.simps [of 0])
  next
    case False
    with 1 show ?thesis by (simp add: be_bytes.simps [of n])
  qed
qed

text \<open>A byte string is its leading zeros and the shortest form of its value.\<close>

lemma leading_zeros:
  "replicate (length (takeWhile (\<lambda>b. b = 0) bs)) 0 @ be_bytes (be_val bs) = (bs :: byte list)"
proof -
  let ?z = "takeWhile (\<lambda>b. b = (0 :: byte)) bs" and ?r = "dropWhile (\<lambda>b. b = (0 :: byte)) bs"
  have z: "replicate (length ?z) 0 = ?z" by (metis (mono_tags, lifting) replicate_eqI set_takeWhileD)
  have "be_val bs = be_val ?r" by (metis be_val_zeros takeWhile_dropWhile_id z)
  moreover have "be_bytes (be_val ?r) = ?r"
  proof (cases "?r = []")
    case True
    then show ?thesis unfolding True by (simp add: be_bytes.simps [of 0])
  next
    case False
    then show ?thesis using be_bytes_val [OF False] hd_dropWhile [OF False] by simp
  qed
  ultimately show ?thesis by (simp add: z)
qed

lemma be_val_less: "be_val bs < 256 ^ length (dropWhile (\<lambda>b. b = 0) bs)"
proof -
  have less: "be_val r < 256 ^ length r" for r
  proof (induction r rule: rev_induct)
    case (snoc b bs)
    then show ?case using byte_lt [of b] by simp
  qed simp
  let ?z = "takeWhile (\<lambda>b. b = (0 :: byte)) bs" and ?r = "dropWhile (\<lambda>b. b = (0 :: byte)) bs"
  have z: "replicate (length ?z) 0 = ?z" by (metis (mono_tags, lifting) replicate_eqI set_takeWhileD)
  have "be_val bs = be_val ?r" by (metis be_val_zeros takeWhile_dropWhile_id z)
  with less show ?thesis by simp
qed

lemma be_val_zero: "be_val bs = 0 \<longleftrightarrow> (\<forall>b \<in> set bs. b = 0)"
  by (induction bs rule: rev_induct) (auto simp: unat_eq_0)

text \<open>Base-58 digits, least significant first.\<close>

fun digits58 :: "nat \<Rightarrow> nat list" where
  "digits58 n = (if n = 0 then [] else n mod 58 # digits58 (n div 58))"

declare digits58.simps [simp del]

lemma digits58_less: "d \<in> set (digits58 n) \<Longrightarrow> d < 58"
  by (induction n rule: digits58.induct) (subst (asm) (2) digits58.simps, auto split: if_splits)

lemma digits58_last: "n \<noteq> 0 \<Longrightarrow> digits58 n \<noteq> [] \<and> last (digits58 n) \<noteq> 0"
proof (induction n rule: digits58.induct)
  case (1 n)
  then show ?case by (cases "n div 58 = 0") (simp_all add: digits58.simps [of n] digits58.simps [of 0])
qed

lemma digits58_length: "n \<noteq> 0 \<Longrightarrow> 58 ^ (length (digits58 n) - 1) \<le> n"
proof (induction n rule: digits58.induct)
  case (1 n)
  show ?case
  proof (cases "n div 58 = 0")
    case True
    with 1(2) show ?thesis by (simp add: digits58.simps [of n] digits58.simps [of 0])
  next
    case False
    with 1 have "58 ^ (length (digits58 (n div 58)) - 1) \<le> n div 58" by simp
    then have "58 * 58 ^ (length (digits58 (n div 58)) - 1) \<le> n" by linarith
    moreover have "0 < length (digits58 (n div 58))" using digits58_last [OF False] by simp
    ultimately show ?thesis using 1(2) by (simp add: digits58.simps [of n] power_eq_if)
  qed
qed

lemma digits58_val: "foldr (\<lambda>d v. 58 * v + d) (digits58 n) 0 = n"
  by (induction n rule: digits58.induct) (subst digits58.simps, simp)

text \<open>The characters fit: 138/100 exceeds the logarithm of 256 to the base 58.\<close>

lemma digits58_fit:
  assumes "n \<noteq> 0" and "n < 256 ^ m"
  shows "length (digits58 n) \<le> m * 138 div 100 + 1"
proof (rule ccontr)
  assume "\<not> length (digits58 n) \<le> m * 138 div 100 + 1"
  then have "m * 138 div 100 + 1 \<le> length (digits58 n) - 1" by simp
  then have "m * 138 \<le> 100 * (length (digits58 n) - 1)" by linarith
  then have "(58 :: nat) ^ (m * 138) \<le> 58 ^ (100 * (length (digits58 n) - 1))" by (intro power_increasing) simp_all
  also have "\<dots> = (58 ^ (length (digits58 n) - 1)) ^ 100" by (simp add: power_mult mult.commute)
  also have "\<dots> \<le> n ^ 100" using digits58_length [OF assms(1)] by (rule power_mono) simp
  also have "\<dots> < (256 ^ m) ^ 100" using assms(2) by (rule power_strict_mono) simp_all
  also have "(256 ^ m) ^ 100 = ((256 :: nat) ^ 100) ^ m" by (metis power_mult mult.commute)
  also have "\<dots> \<le> (58 ^ 138) ^ m" by (rule power_mono) simp_all
  also have "\<dots> = 58 ^ (m * 138)" by (metis power_mult mult.commute)
  finally show False by simp
qed

section \<open>Encoding and decoding\<close>

lemma alphabet:
  assumes "d < 58"
  shows "strchr base58Chars (base58Chars ! d) = Some d" "\<not> isspace (base58Chars ! d)"
    "base58Chars ! d = base58Chars ! 0 \<longleftrightarrow> d = 0"
proof -
  have "\<forall>d \<in> set [0..<58]. strchr base58Chars (base58Chars ! d) = Some d \<and> \<not> isspace (base58Chars ! d)
     \<and> (base58Chars ! d = base58Chars ! 0 \<longleftrightarrow> d = 0)" by code_simp
  then show "strchr base58Chars (base58Chars ! d) = Some d" "\<not> isspace (base58Chars ! d)"
    "base58Chars ! d = base58Chars ! 0 \<longleftrightarrow> d = 0" using assms by auto
qed

lemma length_alphabet [simp]: "length base58Chars = 58"
  by (simp add: base58Chars_def)

text \<open>The base-58 form of a byte string.\<close>

definition b58 :: "byte list \<Rightarrow> string" where
  "b58 bs = map ((!) base58Chars)
     (replicate (length (takeWhile (\<lambda>b. b = 0) bs)) 0 @ rev (digits58 (be_val bs)))"

lemma encode_loop_ok:
  assumes "bn_laws ops val" and "length str + length (digits58 (val bn)) \<le> cap"
  shows "encode_loop ops cap bn str = Some (Some (str @ map ((!) base58Chars) (digits58 (val bn))))"
  using assms(2)
proof (induction "val bn" arbitrary: bn str rule: digits58.induct)
  case 1
  note L = bn_lawsD [OF assms(1)]
  have z: "val (BN_set_word ops 0) = 0" "val (BN_set_word ops 58) = 58" using L(2) by simp_all
  show ?case
  proof (cases "val bn = 0")
    case True
    then show ?thesis using L(8) z by (subst encode_loop.simps) (simp add: digits58.simps [of 0])
  next
    case False
    obtain q r where d: "BN_div ops bn (BN_set_word ops 58) = Some (q, r)" "val q = val bn div 58" "val r = val bn mod 58"
      using L(7) [of "BN_set_word ops 58" bn] z by auto
    have "val r < 58" "BN_get_word ops r = val r" using d(3) L(3) [of r] by simp_all
    moreover have dg: "digits58 (val bn) = val r # digits58 (val q)" using False d by (simp add: digits58.simps [of "val bn"])
    ultimately show ?thesis
      using 1(1) [OF False, of q "str @ [base58Chars ! val r]"] 1(2) d False L(8) z
      by (subst encode_loop.simps) simp
  qed
qed

lemma mem_write_0 [simp]: "length xs \<le> length m \<Longrightarrow> mem_write (Some m) 0 xs = Some (Some (xs @ drop (length xs) m))"
  by (simp add: mem_write_def)

lemma setvch_ok:
  assumes "bn_laws ops val" and "length buf < 2 ^ 31 - 9"
  shows "\<exists>bn. base58_setvch ops (BN_new ops) (rev buf @ [0]) (length buf + 1) = Some bn \<and> val bn = be_val buf"
proof -
  note L = bn_lawsD [OF assms(1)]
  define N where "N = length buf + 1"
  have N: "N + 4 < 2 ^ LENGTH(32)" using assms(2) by (simp add: N_def)
  have "of_nat N + 4 = (of_nat (N + 4) :: u32)" by simp
  with N have n: "unat (of_nat N + 4 :: u32) = N + 4" using unat_of_nat_small [where 'a = 32] by metis
  have r: "str_copyreverse (rev buf @ [0]) N = 0 # buf"
    using str_copyreverse_rev [of "rev buf @ [0]"] by (simp add: N_def)
  have l: "[of_nat (N div 2 ^ 24), of_nat (N div 2 ^ 16), of_nat (N div 2 ^ 8), of_nat N] = be_len N" "length (be_len N) = 4"
    by (simp_all add: be_len_def)
  have w: "mem_write (Some (be_len N @ replicate N 0)) 4 (0 # buf) = Some (Some (be_len N @ 0 # buf))"
    using l(2) by (simp add: mem_write_def N_def)
  have m: "mem_write (Some (safe_malloc (N + 4))) 0 (be_len N) = Some (Some (be_len N @ replicate N 0))"
    using l(2) by (simp add: safe_malloc_def)
  obtain bn where "BN_mpi2bn ops (be_len N @ 0 # buf) = Some bn" "val bn = be_val buf"
    using L(10) [of "0 # buf"] assms(2) by (auto simp: N_def)
  with L(1,4) w m show ?thesis
    unfolding N_def [symmetric] base58_setvch_def Let_def n r l(1) by simp
qed

lemma digits_in: "\<forall>d \<in> set (replicate z 0 @ rev (digits58 n)). d < 58"
  using digits58_less by auto

lemma encode_ok:
  assumes "bn_laws ops val" and "length buf < 2 ^ 31 - 9" and "be_val buf \<noteq> 0"
  shows "base58_encode ops buf = Some (Some (b58 buf))"
proof -
  note L = bn_lawsD [OF assms(1)]
  let ?len = "length buf" and ?z = "takeWhile (\<lambda>b. b = 0) buf" and ?m = "length (dropWhile (\<lambda>b. b = 0) buf)"
  let ?cap = "(?len * 138) mod 2 ^ 64 div 100 + 1" and ?ds = "digits58 (be_val buf)"
  obtain bn where bn: "base58_setvch ops (BN_new ops) (rev buf @ [0]) (?len + 1) = Some bn" "val bn = be_val buf"
    using setvch_ok [OF assms(1,2)] by blast
  have cap: "?cap = ?len * 138 div 100 + 1" using assms(2) by simp
  have "length ?z + ?m = ?len" by (metis length_append takeWhile_dropWhile_id)
  moreover have "length ?ds \<le> ?m * 138 div 100 + 1" using digits58_fit [OF assms(3) be_val_less] .
  ultimately have fit: "length ?ds + length ?z \<le> ?cap" unfolding cap by linarith
  have loop: "encode_loop ops ?cap bn [] = Some (Some (map ((!) base58Chars) ?ds))"
    using encode_loop_ok [OF assms(1), of "[]" bn ?cap] fit bn(2) by simp
  have z: "rev (map (\<lambda>_. base58Chars ! 0) ?z) = map ((!) base58Chars) (replicate (length ?z) 0)"
    by (simp add: map_replicate_const)
  show ?thesis
    using bn loop fit L(4) assms(3) digits58_last [OF assms(3)]
    by (simp add: base58_encode_def Let_def str_copyreverse_rev z [simplified rev_map] b58_def rev_map map_replicate_const)
qed

lemma decode_loop_ok:
  assumes "bn_laws ops val" and "\<forall>d \<in> set ds. d < 58"
  shows "\<exists>bn'. decode_loop ops bn (map ((!) base58Chars) ds) = Some bn' \<and> val bn' = foldl (\<lambda>v d. 58 * v + d) (val bn) ds"
  using assms(2)
proof (induction ds arbitrary: bn)
  case (Cons d ds)
  note L = bn_lawsD [OF assms(1)]
  obtain m where m: "BN_mul ops bn (BN_set_word ops 58) = Some m" "val m = val bn * 58"
    using L(5) [of bn "BN_set_word ops 58"] L(2) [of 58] by auto
  obtain a where a: "BN_add ops m (BN_set_word ops d) = Some a" "val a = val bn * 58 + d"
    using L(6) [of m "BN_set_word ops d"] L(2) [of d] m Cons.prems by auto
  have "decode_loop ops bn (map ((!) base58Chars) (d # ds)) = decode_loop ops a (map ((!) base58Chars) ds)"
    using m(1) a(1) alphabet(1) Cons.prems by simp
  with Cons.IH [of a] Cons.prems a(2) show ?case by (simp add: mult.commute)
qed simp

lemma getvch_ok:
  assumes "bn_laws ops val" and "length (be_bytes (val bn)) < 2 ^ 31 - 8"
  shows "base58_getvch ops bn = (if val bn = 0 then (None, 0)
     else (Some (rev (mpi_body (val bn))), length (mpi_body (val bn))))"
proof -
  note L = bn_lawsD [OF assms(1)]
  have l: "length (be_len n) = 4" for n by (simp add: be_len_def)
  have z: "mpi_body (val bn) = [] \<longleftrightarrow> val bn = 0"
    using be_bytes_hd [of "val bn"] by (cases "val bn = 0") (simp_all add: mpi_body_def Let_def be_bytes.simps [of 0])
  show ?thesis unfolding base58_getvch_def Let_def L(9) [OF assms(2)]
    using l z str_copyreverse_rev [of "mpi_body (val bn)"] by simp
qed

lemma copyreverse_take: "n \<le> length src \<Longrightarrow> str_copyreverse src n = rev (take n src)"
  by (auto intro!: nth_equalityI simp: str_copyreverse_def rev_nth)

text \<open>The sign byte is recognised and dropped.\<close>

lemma mpi_strip:
  assumes "n \<noteq> 0" and "t = rev (mpi_body n)"
    and "len = (if 2 \<le> length t \<and> t ! (length t - 1) = 0 \<and> 0x80 \<le> t ! (length t - 2) then length t - 1 else length t)"
  shows "len = length (be_bytes n)" "str_copyreverse t len = be_bytes n"
proof -
  obtain b bs where bb: "be_bytes n = b # bs" and b: "b \<noteq> 0"
    using be_bytes_hd [OF assms(1)] by (cases "be_bytes n") auto
  have "len = length (be_bytes n) \<and> take len t = rev (be_bytes n) \<and> len \<le> length t"
  proof (cases "0x80 \<le> b")
    case True
    then have "t = rev bs @ [b, 0]" using assms(2) bb by (simp add: mpi_body_def)
    then show ?thesis using True assms(3) bb by (simp add: nth_append)
  next
    case False
    then have "t = rev bs @ [b]" using assms(2) bb by (simp add: mpi_body_def)
    then show ?thesis using b assms(3) bb by (simp add: nth_append)
  qed
  then show "len = length (be_bytes n)" "str_copyreverse t len = be_bytes n"
    using copyreverse_take [of len t] by (metis, metis rev_rev_ident)
qed

lemma decode_ok:
  assumes "bn_laws ops val" and "length buf < 2 ^ 31 - 9" and "be_val buf \<noteq> 0"
  shows "base58_decode ops (b58 buf) = Some (Some buf, length buf)"
proof -
  let ?n = "be_val buf" and ?z = "length (takeWhile (\<lambda>b. b = 0) buf)"
  let ?ds = "replicate ?z 0 @ rev (digits58 ?n)"
  note dg = digits58_last [OF assms(3)]
  have str: "b58 buf = map ((!) base58Chars) ?ds" by (simp add: b58_def)
  have small: "\<forall>d \<in> set ?ds. d < 58" by (rule digits_in)
  have "\<not> isspace (hd (b58 buf))" if "b58 buf \<noteq> []"
  proof -
    have "?ds \<noteq> []" using dg by simp
    then have "hd ?ds < 58" using small hd_in_set by blast
    moreover have "hd (b58 buf) = base58Chars ! hd ?ds" unfolding str by (rule hd_map) (rule \<open>?ds \<noteq> []\<close>)
    ultimately show ?thesis using alphabet(2) by simp
  qed
  then have sp: "dropWhile isspace (b58 buf) = b58 buf" by (cases "b58 buf") auto
  have "takeWhile (\<lambda>c. c = base58Chars ! 0) (b58 buf) = map ((!) base58Chars) (takeWhile (\<lambda>d. d = 0) ?ds)"
    unfolding str takeWhile_map o_def using small alphabet(3)
    by (intro arg_cong [where f = "map _"] takeWhile_cong refl) auto
  moreover have "takeWhile (\<lambda>d. d = 0) ?ds = replicate ?z 0"
    using dg by (subst takeWhile_append) (auto simp: takeWhile_eq_Nil_iff hd_rev)
  ultimately have lz: "length (takeWhile (\<lambda>c. c = base58Chars ! 0) (b58 buf)) = ?z" by simp
  have f0: "foldl (\<lambda>v d. 58 * v + d) 0 (replicate z 0 @ xs) = foldl (\<lambda>v d. 58 * v + d) 0 xs" for z and xs :: "nat list"
    by (induction z) simp_all
  have "foldl (\<lambda>v d. 58 * v + d) 0 ?ds = ?n"
    unfolding f0 using digits58_val [of ?n] by (simp add: foldl_conv_foldr)
  then obtain bn where bn: "decode_loop ops (BN_set_word ops 0) (b58 buf) = Some bn" "val bn = ?n"
    using decode_loop_ok [OF assms(1) small, of "BN_set_word ops 0"] bn_lawsD(2) [OF assms(1), of 0] str by auto
  have lb: "?z + length (be_bytes ?n) = length buf" by (metis leading_zeros length_append length_replicate)
  then have g: "base58_getvch ops bn = (Some (rev (mpi_body ?n)), length (mpi_body ?n))"
    using getvch_ok [OF assms(1), of bn] bn(2) assms(2,3) by simp
  note st = mpi_strip [OF assms(3) refl refl, unfolded length_rev]
  have "mem_write (Some (replicate (length (be_bytes ?n) + ?z) 0)) ?z (be_bytes ?n) = Some (Some buf)"
    using leading_zeros [of buf] by (simp add: mem_write_def)
  then show ?thesis
    unfolding base58_decode_def Let_def sp bn(1) option.case g prod.case lz st(1) st(2) [unfolded st(1)]
    using lb by simp
qed

section \<open>Properties\<close>

lemma hash4_length [simp]: "length (hash4_calc sha buf) = 4"
  by (simp add: hash4_calc_def)

lemma encode_None:
  assumes "bn_laws ops val" and "length buf < 2 ^ 31 - 9" and "be_val buf = 0"
  shows "base58_encode ops buf = None"
  using setvch_ok [OF assms(1,2)] bn_lawsD(4) [OF assms(1)] assms(3)
  by (auto simp: base58_encode_def Let_def str_copyreverse_rev)

text \<open>The payload of a checked string: prefix byte, data and checksum.\<close>

definition checked :: "(byte list \<Rightarrow> uint256) \<Rightarrow> byte \<Rightarrow> byte list \<Rightarrow> byte list" where
  "checked sha t buf = (t # buf) @ hash4_calc sha (t # buf)"

lemma encode_check_ok:
  assumes "bn_laws ops val" and "length buf < 2 ^ 31 - 14" and "be_val (checked sha t buf) \<noteq> 0"
  shows "base58_encode_check ops sha t True buf = Some (Some (b58 (checked sha t buf)))"
  using encode_ok [OF assms(1) _ assms(3)] assms(2) by (simp add: base58_encode_check_def Let_def checked_def)

text \<open>What is left in the buffer after the data does not matter to the callers.\<close>

lemma decode_check_ok:
  assumes "bn_laws ops val" and "length buf < 2 ^ 31 - 14" and "be_val (checked sha t buf) \<noteq> 0" and "buf \<noteq> []"
  shows "\<exists>rest. base58_decode_check ops sha (Some t0) (b58 (checked sha t buf)) =
    Some (True, Some t, Some (buf @ rest), length buf) \<and> rest \<noteq> []"
proof -
  let ?d = "checked sha t buf" and ?n = "length buf"
  have "length ?d < 2 ^ 31 - 9" using assms(2) by (simp add: checked_def)
  note d = decode_ok [OF assms(1) this assms(3)]
  have l: "length ?d = ?n + 5" by (simp add: checked_def)
  have "mem_read (Some ?d) 0 (?n + 1) = Some (t # buf)" "mem_read (Some ?d) (?n + 1) 4 = Some (hash4_calc sha (t # buf))"
    by (simp_all add: mem_read_def checked_def)
  moreover have "mem_write (Some ?d) (?n + 1) [0, 0, 0, 0] = Some (Some (t # buf @ [0, 0, 0, 0]))"
    by (simp add: mem_write_def checked_def)
  moreover have "mem_read (Some (t # buf @ [0, 0, 0, 0])) 0 1 = Some [t]"
    "mem_read (Some (t # buf @ [0, 0, 0, 0])) 1 (?n + 2) = Some (buf @ [0, 0])"
    by (simp_all add: mem_read_def)
  moreover have "mem_write (Some (t # buf @ [0, 0, 0, 0])) 0 (buf @ [0, 0]) = Some (Some (buf @ [0, 0, 0, 0, 0]))"
    by (simp add: mem_write_def)
  moreover have "(?n + 1 + (2 ^ 64 - 1)) mod 2 ^ 64 = ?n" using assms(2) by simp
  ultimately show ?thesis
    unfolding base58_decode_check_def d l by (intro exI [of _ "[0, 0, 0, 0, 0]"]) (simp add: Let_def)
qed

text \<open>\<open>base58_encode\<close> never writes outside its allocation, \<open>len * 138 / 100 + 1\<close> bytes; it returns
  the text of the bytes unless they are all zero, when its assertion stops the program.\<close>

theorem encode_within_bounds:
  assumes "bn_laws ops val" and "length buf < 2 ^ 31 - 9"
  shows "base58_encode ops buf = (if \<forall>b \<in> set buf. b = 0 then None else Some (Some (b58 buf)))"
  using encode_ok [OF assms] encode_None [OF assms] by (simp add: be_val_zero)

text \<open>The text of a byte string decodes to the same bytes, leading zeros included.\<close>

theorem base58_roundtrip:
  assumes "bn_laws ops val" and "length buf < 2 ^ 31 - 9" and "base58_encode ops buf = Some (Some str)"
  shows "base58_decode ops str = Some (Some buf, length buf)"
proof (cases "be_val buf = 0")
  case True
  then show ?thesis using encode_None [OF assms(1,2)] assms(3) by simp
next
  case False
  then show ?thesis using encode_ok [OF assms(1,2)] decode_ok [OF assms(1,2)] assms(3) by simp
qed

lemma address_decodes:
  assumes "bn_laws ops val" and "b58_pubkey_from_uint160 ops sha digest = Some (Some addr)"
  shows "\<exists>rest. base58_decode_check ops sha (Some type0) addr = Some (True, Some PUBKEY_ADDRESS, Some (le_bytes digest @ rest), 20)"
proof -
  let ?d = "le_bytes digest" and ?c = "checked sha PUBKEY_ADDRESS (le_bytes digest)"
  have l: "length ?d = 20" "?d \<noteq> []" using length_le_bytes [of digest] by fastforce+
  have "base58_encode ops ?c = Some (Some addr)"
    using assms(2) by (simp add: b58_pubkey_from_uint160_def base58_encode_check_def checked_def)
  moreover have "length ?c < 2 ^ 31 - 9" by (simp add: checked_def)
  ultimately have nz: "be_val ?c \<noteq> 0" and addr: "addr = b58 ?c"
    using encode_None [OF assms(1), of ?c] encode_ok [OF assms(1), of ?c] by auto
  show ?thesis using decode_check_ok [OF assms(1) _ nz, of type0] l addr by auto
qed

lemma address_pays:
  assumes "bn_laws ops val" and "b58_pubkey_from_uint160 ops sha digest = Some (Some addr)"
  shows "b58_pubkey_to_uint160 ops sha type0 addr old = Some digest"
  using address_decodes [OF assms, of type0] by (auto simp: b58_pubkey_to_uint160_def mem_read_def)

text \<open>C18: an address gives back the digest it was made from and passes the validity check, whatever
  the uninitialised variables hold.\<close>

theorem address_roundtrip:
  assumes "bn_laws ops val" and "b58_pubkey_from_uint160 ops sha digest = Some (Some addr)"
  shows "b58_pubkey_to_uint160 ops sha type0 addr old = Some digest \<and>
    b58_pubkey_is_valid ops sha type0 (Some addr) = Some True"
  using address_decodes [OF assms, of type0] by (auto simp: b58_pubkey_to_uint160_def b58_pubkey_is_valid_def mem_read_def)

text \<open>The exported text of a private key (32 bytes, or 33 with the compression mark) is imported as
  the same key.\<close>

theorem privkey_roundtrip:
  assumes "bn_laws ops val" and "length key = 32 \<or> (length key = 33 \<and> key ! 32 = 1)"
  shows "\<exists>text rest. b58_bytes_to_privkey ops sha key = Some (Some text) \<and>
    b58_privkey_to_bytes ops sha type0 text = Some (Some (key @ rest), length key)"
proof -
  let ?c = "checked sha PRIVKEY_ADDRESS key"
  have nz: "be_val ?c \<noteq> 0" using be_bytes_val [of ?c] by (simp add: checked_def PRIVKEY_ADDRESS_def)
  have ne: "key \<noteq> []" using assms(2) by auto
  have small: "length key < 2 ^ 31 - 14" using assms(2) by auto
  have enc: "b58_bytes_to_privkey ops sha key = Some (Some (b58 ?c))"
    using encode_check_ok [OF assms(1) small nz] by (simp add: b58_bytes_to_privkey_def)
  obtain rest where "base58_decode_check ops sha (Some type0) (b58 ?c) = Some (True, Some PRIVKEY_ADDRESS, Some (key @ rest), length key)"
    using decode_check_ok [OF assms(1) small nz ne, of type0] by auto
  then have "b58_privkey_to_bytes ops sha type0 (b58 ?c) = Some (Some (key @ rest), length key)"
    using assms(2) by (auto simp: b58_privkey_to_bytes_def mem_read_def nth_append)
  with enc show ?thesis by blast
qed

text \<open>The validity check lets script addresses through, but \<open>b58_pubkey_to_uint160\<close>, which the
  callers apply next, stops the program on them.\<close>

theorem valid_script_address_stops:
  assumes "bn_laws ops val" and "length digest = 20" and "addr = b58 (checked sha SCRIPT_ADDRESS digest)"
  shows "b58_pubkey_is_valid ops sha type0 (Some addr) = Some True \<and>
    b58_pubkey_to_uint160 ops sha type0 addr old = None"
proof -
  let ?c = "checked sha SCRIPT_ADDRESS digest"
  have nz: "be_val ?c \<noteq> 0" using be_bytes_val [of ?c] by (simp add: checked_def SCRIPT_ADDRESS_def)
  have "digest \<noteq> []" using assms(2) by auto
  then obtain rest where "base58_decode_check ops sha (Some type0) addr = Some (True, Some SCRIPT_ADDRESS, Some (digest @ rest), 20)"
    using decode_check_ok [OF assms(1) _ nz, of type0] assms(2,3) by auto
  then show ?thesis
    by (simp add: b58_pubkey_to_uint160_def b58_pubkey_is_valid_def SCRIPT_ADDRESS_def PUBKEY_ADDRESS_def)
qed

section \<open>Big numbers as natural numbers\<close>

definition nat_bn :: "nat bn_ops" where
  "nat_bn = \<lparr>BN_new = 0, BN_set_word = (\<lambda>w. w), BN_get_word = (\<lambda>a. a), BN_is_zero = (\<lambda>a. a = 0),
     BN_mul = (\<lambda>a b. Some (a * b)), BN_add = (\<lambda>a b. Some (a + b)), BN_div = (\<lambda>a b. Some (a div b, a mod b)),
     BN_cmp = (\<lambda>a b. int a - int b), BN_bn2mpi = (\<lambda>a. be_len (length (mpi_body a)) @ mpi_body a),
     BN_mpi2bn = (\<lambda>bs. Some (be_val (drop 4 bs)))\<rparr>"

lemma nat_bn_laws: "bn_laws nat_bn id"
proof -
  have "length (be_len n) = 4" for n by (simp add: be_len_def)
  then show ?thesis by (simp add: bn_laws_def nat_bn_def)
qed

theorem encode_within_bounds_witness: "base58_encode nat_bn [0, 0] = None"
  using encode_within_bounds [OF nat_bn_laws, of "[0, 0]"] by simp

theorem base58_roundtrip_witness: "base58_decode nat_bn ''112'' = Some (Some [0, 0, 1], 3)"
proof -
  have "base58_encode nat_bn [0, 0, 1] = Some (Some ''112'')"
    using encode_ok [OF nat_bn_laws, of "[0, 0, 1]"]
    by (simp add: be_val_def b58_def digits58.simps [of "Suc 0"] digits58.simps [of 0] base58Chars_def)
  then show ?thesis using base58_roundtrip [OF nat_bn_laws, of "[0, 0, 1]" "''112''"] by simp
qed

theorem address_roundtrip_witness:
  "\<exists>addr. b58_pubkey_from_uint160 nat_bn (\<lambda>_. 7) 5 = Some (Some addr) \<and>
     b58_pubkey_to_uint160 nat_bn (\<lambda>_. 7) 99 addr 0 = Some 5"
proof -
  let ?c = "checked (\<lambda>_. 7) PUBKEY_ADDRESS (le_bytes (5 :: uint160))"
  have "be_val ?c \<noteq> 0"
  proof -
    have "(ucast (drop_bit (8 * 0) (5 :: uint160)) :: byte) \<in> set (le_bytes (5 :: uint160))"
      unfolding le_bytes_def set_map by (intro imageI) simp
    then have "5 \<in> set ?c" by (simp add: checked_def)
    moreover have "(5 :: byte) \<noteq> 0" by simp
    ultimately show ?thesis unfolding be_val_zero by blast
  qed
  then have "b58_pubkey_from_uint160 nat_bn (\<lambda>_. 7) 5 = Some (Some (b58 ?c))"
    using encode_check_ok [OF nat_bn_laws, of "le_bytes (5 :: uint160)"] by (simp add: b58_pubkey_from_uint160_def)
  with address_roundtrip [OF nat_bn_laws this] show ?thesis by blast
qed

theorem privkey_roundtrip_witness:
  "\<exists>text rest. b58_bytes_to_privkey nat_bn (\<lambda>_. 7) (replicate 32 9) = Some (Some text) \<and>
     b58_privkey_to_bytes nat_bn (\<lambda>_. 7) 99 text = Some (Some (replicate 32 9 @ rest), 32)"
  using privkey_roundtrip [OF nat_bn_laws, of "replicate 32 9" "\<lambda>_. 7" 99] by simp

theorem valid_script_address_stops_witness:
  "\<exists>addr. b58_pubkey_is_valid nat_bn (\<lambda>_. 7) 99 (Some addr) = Some True \<and>
     b58_pubkey_to_uint160 nat_bn (\<lambda>_. 7) 99 addr 0 = None"
  using valid_script_address_stops [OF nat_bn_laws _ refl, of "replicate 20 9" "\<lambda>_. 7" 99 0] by auto

end
