(* ===== verification/Key.thy ===== *)
theory Key
  imports Base58
begin

text \<open>
  The secp256k1 keys of \<^verbatim>\<open>src/core/key.c\<close>. The elliptic curve, the signatures and the big
  integers are OpenSSL's and are arguments of the definitions: the record \<open>ec_ops\<close>, whose laws
  \<open>ec_laws\<close> state only how integers are written as bytes. A key pair of OpenSSL is a value of the
  type \<^typ>\<open>'pk\<close>, a private scalar one of \<^typ>\<open>'b\<close>, a point of the curve one of \<^typ>\<open>'pt\<close>.

  Which random key \<open>EVP_PKEY_generate\<close> makes is an argument too. Failed assertions and accesses
  through a null pointer are \<^const>\<open>None\<close>, as everywhere.
\<close>

record ('b, 'pt, 'pk) ec_ops =
  BN_bin2bn :: "byte list \<Rightarrow> 'b option"
  BN_num_bytes :: "'b \<Rightarrow> nat"
  BN_bn2bin :: "'b \<Rightarrow> byte list"
  EC_POINT_mul :: "'b \<Rightarrow> 'pt option"
  EC_POINT_point2oct :: "'pt \<Rightarrow> byte list"
  EVP_PKEY_fromdata :: "'b \<Rightarrow> byte list \<Rightarrow> 'pk option"
  EVP_PKEY_get_priv :: "'pk \<Rightarrow> 'b option"
  EVP_PKEY_sign_size :: "'pk \<Rightarrow> byte list \<Rightarrow> nat option"
  EVP_PKEY_sign :: "'pk \<Rightarrow> byte list \<Rightarrow> byte list option"
  EVP_PKEY_verify :: "'pk \<Rightarrow> byte list \<Rightarrow> byte list \<Rightarrow> bool"

text \<open>The key with its cached compressed public key; \<open>pub_len\<close> is the length of the list.\<close>

record 'pk key =
  k_pkey :: "'pk option"
  k_pub_key :: "byte list option"

definition key_alloc :: "'pk key" where
  "key_alloc = \<lparr>k_pkey = None, k_pub_key = None\<rparr>"

text \<open>A failure to allocate the group, the context or the point counts as one of
  \<open>EC_POINT_mul\<close>.\<close>

definition key_pubkey_from_priv_bn :: "('b, 'pt, 'pk) ec_ops \<Rightarrow> 'b \<Rightarrow> byte list option" where
  "key_pubkey_from_priv_bn ec priv = (case EC_POINT_mul ec priv of None \<Rightarrow> None
     | Some point \<Rightarrow>
         let oct = EC_POINT_point2oct ec point; len = length oct
         in if len = 0 \<or> 65 < len then None else Some oct)"

definition key_build_pkey :: "('b, 'pt, 'pk) ec_ops \<Rightarrow> 'b \<Rightarrow> byte list \<Rightarrow> 'pk option" where
  "key_build_pkey ec priv pub = EVP_PKEY_fromdata ec priv pub"

text \<open>The private key as bytes with the mark of a compressed public key, or no success.\<close>

definition key_get_privkey :: "('b, 'pt, 'pk) ec_ops \<Rightarrow> 'pk key option \<Rightarrow> byte list option option" where
  "key_get_privkey ec k = do {
     k \<leftarrow> k;
     case k_pkey k of None \<Rightarrow> Some None
     | Some pkey \<Rightarrow> (case EVP_PKEY_get_priv ec pkey of None \<Rightarrow> Some None
       | Some bn \<Rightarrow> do {
           let len = BN_num_bytes ec bn + 1;
           priv \<leftarrow> mem_write (Some (safe_malloc len)) 0 (BN_bn2bin ec bn);
           priv \<leftarrow> mem_write priv (len - 1) [1];
           Some priv
         })
   }"

definition key_get_pubkey :: "'pk key option \<Rightarrow> byte list option" where
  "key_get_pubkey k = do { k \<leftarrow> k; Some (case k_pub_key k of None \<Rightarrow> [] | Some p \<Rightarrow> p) }"

definition key_set_privkey ::
  "('b, 'pt, 'pk) ec_ops \<Rightarrow> 'pk key \<Rightarrow> byte list \<Rightarrow> (bool \<times> 'pk key) option" where
  "key_set_privkey ec k privkey = do {
     ASSERT (length privkey = 32 \<or> length privkey = 33);
     bn \<leftarrow> BN_bin2bn ec (take 32 privkey);
     case key_pubkey_from_priv_bn ec bn of None \<Rightarrow> Some (False, k\<lparr>k_pub_key := None\<rparr>)
     | Some pub \<Rightarrow> (case key_build_pkey ec bn pub of
         None \<Rightarrow> Some (False, k\<lparr>k_pkey := None, k_pub_key := None\<rparr>)
       | Some pkey \<Rightarrow> Some (True, k\<lparr>k_pkey := Some pkey, k_pub_key := Some pub\<rparr>))
   }"

text \<open>\<open>gen\<close> is the key pair that \<open>EVP_PKEY_generate\<close> makes, if it succeeds.\<close>

definition key_generate_new :: "('b, 'pt, 'pk) ec_ops \<Rightarrow> 'pk option \<Rightarrow> 'pk key option" where
  "key_generate_new ec gen = (case gen of None \<Rightarrow> None
     | Some pkey \<Rightarrow> (case EVP_PKEY_get_priv ec pkey of None \<Rightarrow> None
       | Some priv \<Rightarrow> (case key_pubkey_from_priv_bn ec priv of None \<Rightarrow> None
         | Some pub \<Rightarrow> Some (key_alloc\<lparr>k_pkey := Some pkey, k_pub_key := Some pub\<rparr>))))"

definition key_verify :: "('b, 'pt, 'pk) ec_ops \<Rightarrow> 'pk key \<Rightarrow> byte list \<Rightarrow> byte list \<Rightarrow> bool" where
  "key_verify ec k data sig = (case k_pkey k of None \<Rightarrow> False | Some pkey \<Rightarrow> EVP_PKEY_verify ec pkey sig data)"

text \<open>The signature is written to an allocation of the size asked for first.\<close>

definition key_sign :: "('b, 'pt, 'pk) ec_ops \<Rightarrow> 'pk key \<Rightarrow> byte list \<Rightarrow> byte list option option" where
  "key_sign ec k data = (case k_pkey k of None \<Rightarrow> Some None
     | Some pkey \<Rightarrow> (case EVP_PKEY_sign_size ec pkey data of None \<Rightarrow> Some None
       | Some len \<Rightarrow> (case EVP_PKEY_sign ec pkey data of None \<Rightarrow> Some None
         | Some sig \<Rightarrow> do { ASSERT (length sig \<le> len); Some (Some sig) })))"

definition key_get_pubkey_hash160 :: "(byte list \<Rightarrow> uint256) \<Rightarrow> 'pk key \<Rightarrow> uint160 option" where
  "key_get_pubkey_hash160 sha k = do {
     pub \<leftarrow> k_pub_key k;
     ASSERT (0 < length pub);
     Some (hash160_calc sha pub)
   }"

section \<open>Exporting and importing\<close>

text \<open>How OpenSSL writes integers: \<open>BN_bn2bin\<close> gives the shortest big-endian form.\<close>

definition ec_laws :: "('b, 'pt, 'pk) ec_ops \<Rightarrow> ('b \<Rightarrow> nat) \<Rightarrow> bool" where
  "ec_laws ec val \<longleftrightarrow> (\<forall>bs. length bs \<le> 32 \<longrightarrow> (\<exists>b. BN_bin2bn ec bs = Some b \<and> val b = be_val bs)) \<and>
     (\<forall>b. BN_bn2bin ec b = be_bytes (val b)) \<and> (\<forall>b. BN_num_bytes ec b = length (be_bytes (val b)))"

lemma ec_lawsD:
  assumes "ec_laws ec val"
  shows "length bs \<le> 32 \<Longrightarrow> \<exists>b. BN_bin2bn ec bs = Some b \<and> val b = be_val bs"
    "BN_bn2bin ec b = be_bytes (val b)" "BN_num_bytes ec b = length (be_bytes (val b))"
  using assms unfolding ec_laws_def by blast+

text \<open>What a key exports: its scalar without leading zeros, then the mark.\<close>

lemma get_privkey_bytes:
  assumes "ec_laws ec val" and "k_pkey k = Some pk" and "EVP_PKEY_get_priv ec pk = Some s"
  shows "key_get_privkey ec (Some k) = Some (Some (be_bytes (val s) @ [1]))"
  using assms ec_lawsD [OF assms(1)]
  by (simp add: key_get_privkey_def Let_def safe_malloc_def mem_write_def)

text \<open>Which scalar an import takes: the first 32 bytes, whatever they stand for.\<close>

lemma set_privkey_scalar:
  assumes "ec_laws ec val" and "length bs = 32 \<or> length bs = 33"
    and "\<forall>b. val b = be_val (take 32 bs) \<longrightarrow> (\<exists>pub pk. key_pubkey_from_priv_bn ec b = Some pub \<and> key_build_pkey ec b pub = Some pk \<and>
        EVP_PKEY_get_priv ec pk = Some b)"
  shows "\<exists>k pk b. key_set_privkey ec key_alloc bs = Some (True, k) \<and> k_pkey k = Some pk \<and>
    EVP_PKEY_get_priv ec pk = Some b \<and> val b = be_val (take 32 bs)"
proof -
  obtain b where b: "BN_bin2bn ec (take 32 bs) = Some b" "val b = be_val (take 32 bs)"
    using ec_lawsD(1) [OF assms(1), of "take 32 bs"] by auto
  with assms(3) obtain pub pk where "key_pubkey_from_priv_bn ec b = Some pub" "key_build_pkey ec b pub = Some pk"
    "EVP_PKEY_get_priv ec pk = Some b" by blast
  then show ?thesis using assms(2) b by (simp add: key_set_privkey_def)
qed

lemma length_be_bytes_le: "length (be_bytes n) \<le> k \<longleftrightarrow> n < 256 ^ k"
proof (induction k arbitrary: n)
  case 0
  show ?case by (simp add: be_bytes.simps [of n])
next
  case (Suc k)
  show ?case
  proof (cases "n = 0")
    case True
    then show ?thesis by (simp add: be_bytes.simps [of 0])
  next
    case False
    then have "length (be_bytes n) \<le> Suc k \<longleftrightarrow> n div 256 < 256 ^ k"
      using Suc.IH [of "n div 256"] by (simp add: be_bytes.simps [of n])
    also have "\<dots> \<longleftrightarrow> n < 256 ^ Suc k" by (simp add: div_less_iff_less_mult mult.commute)
    finally show ?thesis .
  qed
qed

text \<open>The number that an import of the bytes takes as the scalar.\<close>

definition imports_as :: "('b, 'pt, 'pk) ec_ops \<Rightarrow> ('b \<Rightarrow> nat) \<Rightarrow> byte list \<Rightarrow> nat \<Rightarrow> bool" where
  "imports_as ec val bytes n \<longleftrightarrow> (\<exists>k pk b. key_set_privkey ec key_alloc bytes = Some (True, k) \<and>
     k_pkey k = Some pk \<and> EVP_PKEY_get_priv ec pk = Some b \<and> val b = n)"

text \<open>What a key exports is imported again as the same key only when its scalar fills 32 bytes.
  With one leading zero byte, as one key in 256 has, the mark of the compressed form is taken as the
  last byte of the scalar and another key is imported; with more, the import stops the program.\<close>

theorem exported_key_imports:
  assumes "ec_laws ec val" and "k_pkey k = Some pk" and "EVP_PKEY_get_priv ec pk = Some s" and "val s < 2 ^ 256"
    and ok: "\<forall>b. val b = val s \<or> val b = 256 * val s + 1 \<longrightarrow> (\<exists>pub pk. key_pubkey_from_priv_bn ec b = Some pub \<and> key_build_pkey ec b pub = Some pk \<and>
      EVP_PKEY_get_priv ec pk = Some b)"
  shows "\<exists>bytes. key_get_privkey ec (Some k) = Some (Some bytes) \<and>
    (if 2 ^ 248 \<le> val s then imports_as ec val bytes (val s)
     else if 2 ^ 240 \<le> val s then imports_as ec val bytes (256 * val s + 1)
     else key_set_privkey ec key_alloc bytes = None)"
proof -
  let ?l = "length (be_bytes (val s))"
  have 32: "?l \<le> 32" using length_be_bytes_le [of "val s" 32] assms(4) by simp
  have 31: "?l \<le> 31 \<longleftrightarrow> val s < 2 ^ 248" and 30: "?l \<le> 30 \<longleftrightarrow> val s < 2 ^ 240"
    using length_be_bytes_le [of "val s" 31] length_be_bytes_le [of "val s" 30] by simp_all
  have imp: "imports_as ec val bs n" if "length bs = 32 \<or> length bs = 33" "be_val (take 32 bs) = n"
    "n = val s \<or> n = 256 * val s + 1" for bs n
    unfolding imports_as_def using set_privkey_scalar [OF assms(1) that(1)] that(2,3) ok by metis
  let ?bs = "be_bytes (val s) @ [1]"
  have "imports_as ec val ?bs (val s)" if "2 ^ 248 \<le> val s"
    using that 31 32 imp [of ?bs] by simp
  moreover have "imports_as ec val ?bs (256 * val s + 1)" if "\<not> 2 ^ 248 \<le> val s" "2 ^ 240 \<le> val s"
    using that 31 30 imp [of ?bs] by simp
  moreover have "key_set_privkey ec key_alloc ?bs = None" if "\<not> 2 ^ 240 \<le> val s"
    using that 30 by (auto simp: key_set_privkey_def)
  ultimately show ?thesis using get_privkey_bytes [OF assms(1-3)] by simp
qed

text \<open>Numbers as scalars, keys and points.\<close>

definition nat_ec :: "(nat, nat, nat) ec_ops" where
  "nat_ec = \<lparr>BN_bin2bn = \<lambda>bs. Some (be_val bs), BN_num_bytes = \<lambda>n. length (be_bytes n), BN_bn2bin = be_bytes,
     EC_POINT_mul = Some, EC_POINT_point2oct = \<lambda>n. replicate 33 2, EVP_PKEY_fromdata = \<lambda>n pub. Some n,
     EVP_PKEY_get_priv = Some, EVP_PKEY_sign_size = \<lambda>n d. Some 72, EVP_PKEY_sign = \<lambda>n d. Some d,
     EVP_PKEY_verify = \<lambda>n s d. s = d\<rparr>"

theorem exported_key_imports_witness:
  "\<exists>bytes. key_get_privkey nat_ec (Some \<lparr>k_pkey = Some (2 ^ 240), k_pub_key = None\<rparr>) = Some (Some bytes) \<and>
     imports_as nat_ec (\<lambda>n. n) bytes (256 * 2 ^ 240 + 1)"
proof -
  have "ec_laws nat_ec (\<lambda>n. n)" by (simp add: ec_laws_def nat_ec_def)
  then show ?thesis
    using exported_key_imports [of nat_ec "\<lambda>n. n" "\<lparr>k_pkey = Some (2 ^ 240), k_pub_key = None\<rparr>" "2 ^ 240" "2 ^ 240"]
    by (simp add: nat_ec_def key_pubkey_from_priv_bn_def key_build_pkey_def)
qed

end
