(* ===== verification/Script.thy ===== *)
theory Script
  imports Messages Key
begin

text \<open>
  The script language of \<^verbatim>\<open>src/core/script.c\<close>: the scripts the client writes, the parser,
  the two standard forms it recognises, and the signature of a transaction's input.

  The keys are those of the theory \<open>Key\<close>, over OpenSSL's curve; \<open>wallet_lookup_pubkey\<close> is the
  argument \<open>lookup\<close>. A growing array of instructions is a list.

  The second half specifies the parser by a function on lists of bytes, \<open>ops_of\<close>, and says exactly
  when an output script stops the program.
\<close>

section \<open>Opcodes and templates\<close>

definition OP_PUSHDATA1 :: byte where "OP_PUSHDATA1 = 0x4c"
definition OP_PUSHDATA2 :: byte where "OP_PUSHDATA2 = 0x4d"
definition OP_PUSHDATA4 :: byte where "OP_PUSHDATA4 = 0x4e"
definition OP_DUP :: byte where "OP_DUP = 0x76"
definition OP_EQUALVERIFY :: byte where "OP_EQUALVERIFY = 0x88"
definition OP_HASH160 :: byte where "OP_HASH160 = 0xa9"
definition OP_CHECKSIG :: byte where "OP_CHECKSIG = 0xac"
definition OP_PUBKEYHASH :: byte where "OP_PUBKEYHASH = 0xfd"
definition OP_PUBKEY :: byte where "OP_PUBKEY = 0xfe"
definition SIGHASH_ALL :: u32 where "SIGHASH_ALL = 1"

lemmas opcodes = OP_PUSHDATA1_def OP_PUSHDATA2_def OP_PUSHDATA4_def OP_DUP_def OP_EQUALVERIFY_def
  OP_HASH160_def OP_CHECKSIG_def OP_PUBKEYHASH_def OP_PUBKEY_def

datatype script_txout_type = TX_NONSTANDARD | TX_PUBKEY | TX_PUBKEYHASH | TX_SCRIPTHASH | TX_MULTISIG

definition std_pubkey :: "byte list" where
  "std_pubkey = [OP_PUBKEY, OP_CHECKSIG]"

definition std_pubkeyhash :: "byte list" where
  "std_pubkeyhash = [OP_DUP, OP_HASH160, OP_PUBKEYHASH, OP_EQUALVERIFY, OP_CHECKSIG]"

definition std_scripts :: "(script_txout_type \<times> byte list) list" where
  "std_scripts = [(TX_PUBKEY, std_pubkey), (TX_PUBKEYHASH, std_pubkeyhash)]"

text \<open>An instruction; \<open>data\<close> is a pointer into the buffer that is parsed, an offset, or null.\<close>

record script_inst =
  si_opcode :: byte
  si_data :: "nat option"
  si_len :: u64

section \<open>Writing\<close>

definition script_push_data :: "buff \<Rightarrow> byte list \<Rightarrow> u64 \<Rightarrow> buff option" where
  "script_push_data buf data len = do {
     ASSERT (buf_grow buf);
     (_, buf) \<leftarrow> (if len < ucast OP_PUSHDATA1 then serialize_uint8 buf (ucast len)
       else if len \<le> 0xff then do {
         (_, buf) \<leftarrow> serialize_uint8 buf OP_PUSHDATA1;
         serialize_uint8 buf (ucast len)
       }
       else if len \<le> 0xffff then do {
         (_, buf) \<leftarrow> serialize_uint8 buf OP_PUSHDATA2;
         serialize_uint16 buf (ucast len)
       }
       else do {
         (_, buf) \<leftarrow> serialize_uint8 buf OP_PUSHDATA4;
         serialize_uint32 buf (ucast len)
       });
     (_, buf) \<leftarrow> serialize_bytes buf data len;
     Some buf
   }"

text \<open>The script that pays to a key hash, with its length.\<close>

definition script_txo_generate :: "uint160 \<Rightarrow> (memory \<times> u64) option" where
  "script_txo_generate pubkey = do {
     (_, buf) \<leftarrow> serialize_uint8 buff_alloc OP_DUP;
     (_, buf) \<leftarrow> serialize_uint8 buf OP_HASH160;
     buf \<leftarrow> script_push_data buf (le_bytes pubkey) 20;
     (_, buf) \<leftarrow> serialize_uint8 buf OP_EQUALVERIFY;
     (_, buf) \<leftarrow> serialize_uint8 buf OP_CHECKSIG;
     Some (buff_base (Some buf), buff_curlen (Some buf))
   }"

section \<open>Parsing\<close>

definition script_inst_ispush :: "script_inst \<Rightarrow> bool" where
  "script_inst_ispush i \<longleftrightarrow> si_opcode i \<le> OP_PUSHDATA4"

definition script_inst_match :: "script_inst \<Rightarrow> byte \<Rightarrow> bool" where
  "script_inst_match i template \<longleftrightarrow>
     (if template = OP_PUBKEY then script_inst_ispush i \<and> \<not> (si_len i < 23 \<or> 120 < si_len i)
      else if template = OP_PUBKEYHASH then script_inst_ispush i \<and> si_len i = 20
      else \<not> script_inst_ispush i \<and> si_opcode i = template)"

text \<open>An instruction with the error flag; no instruction at the end or on an error.\<close>

definition script_parse_one_op :: "buff \<Rightarrow> (script_inst option \<times> bool \<times> buff) option" where
  "script_parse_one_op buf = do {
     left \<leftarrow> buff_space_left buf;
     if left = 0 then Some (None, False, buf)
     else do {
       (res, opcode, buf) \<leftarrow> deserialize_uint8 buf 0;
       if res then Some (None, True, buf)
       else if OP_PUSHDATA4 < opcode
       then Some (Some \<lparr>si_opcode = opcode, si_data = None, si_len = 0\<rparr>, False, buf)
       else do {
         (res, len, buf) \<leftarrow>
           (if opcode < OP_PUSHDATA1 then Some (False, ucast opcode :: u64, buf)
            else if opcode = OP_PUSHDATA1 then do {
              (res, len8, buf) \<leftarrow> deserialize_uint8 buf 0;
              Some (res, ucast len8, buf)
            }
            else if opcode = OP_PUSHDATA2 then do {
              (res, len16, buf) \<leftarrow> deserialize_uint16 buf 0;
              Some (res, ucast len16, buf)
            }
            else do {
              (res, len32, buf) \<leftarrow> deserialize_uint32 buf 0;
              Some (res, ucast len32, buf)
            });
         if res then Some (None, True, buf)
         else do {
           data \<leftarrow> buff_curptr buf;
           (res, buf) \<leftarrow> buff_skip buf len;
           if res then Some (None, True, buf)
           else Some (Some \<lparr>si_opcode = opcode, si_data = Some data, si_len = len\<rparr>, False, buf)
         }
       }
     }
   }"

text \<open>The loop; \<^const>\<open>None\<close> inside is the null pointer of a script that does not parse.\<close>

partial_function (option) parse_ops :: "buff \<Rightarrow> script_inst list \<Rightarrow> script_inst list option option" where
  [code]: "parse_ops buf script = do {
     (inst, error, buf) \<leftarrow> script_parse_one_op buf;
     case inst of Some i \<Rightarrow> parse_ops buf (script @ [i])
     | None \<Rightarrow> Some (if error then None else Some script)
   }"

definition script_parse :: "buff \<Rightarrow> script_inst list option option" where
  "script_parse buf = parse_ops buf []"

definition script_classify :: "script_inst list \<Rightarrow> script_txout_type" where
  "script_classify script =
     (case find (\<lambda>(_, opcodes). length script = length opcodes \<and>
               list_all (\<lambda>(i, t). script_inst_match i t) (zip script opcodes)) std_scripts of
        None \<Rightarrow> TX_NONSTANDARD | Some (ty, _) \<Rightarrow> ty)"

text \<open>The code, the type, and a copy of the data with its length.\<close>

definition script_match_type :: "buff \<Rightarrow> (bool \<times> script_txout_type \<times> memory \<times> u64) option" where
  "script_match_type buf = do {
     script \<leftarrow> script_parse buf;
     case script of None \<Rightarrow> Some (True, TX_NONSTANDARD, None, 0)
     | Some script \<Rightarrow> do {
         let copy = (\<lambda>i. do { p \<leftarrow> si_data i; mem_read (buf_base buf) p (unat (si_len i)) });
         let type = script_classify script;
         case type of
           TX_PUBKEY \<Rightarrow> do {
             data \<leftarrow> copy (script ! 0);
             Some (False, type, Some data, si_len (script ! 0))
           }
         | TX_PUBKEYHASH \<Rightarrow> do {
             ASSERT (si_len (script ! 2) = 20);
             data \<leftarrow> copy (script ! 2);
             Some (False, type, Some data, si_len (script ! 2))
           }
         | _ \<Rightarrow> Some (False, type, None, 0)
       }
   }"

text \<open>The code and the key hash that an output script pays to.\<close>

definition script_parse_pubkey_hash ::
  "(byte list \<Rightarrow> uint256) \<Rightarrow> memory \<Rightarrow> u64 \<Rightarrow> (bool \<times> uint160) option" where
  "script_parse_pubkey_hash sha scriptPubKey scriptLength = do {
     let buf = buff_init scriptPubKey scriptLength;
     (res, type, data, datalen) \<leftarrow> script_match_type buf;
     if res then Some (True, 0)
     else (case type of
         TX_PUBKEY \<Rightarrow> do {
           data \<leftarrow> mem_read data 0 (unat datalen);
           Some (False, hash160_calc sha data)
         }
       | TX_PUBKEYHASH \<Rightarrow> do {
           ASSERT (datalen = 20);
           data \<leftarrow> mem_read data 0 20;
           Some (False, le_word data)
         }
       | _ \<Rightarrow> Some (True, 0))
   }"

section \<open>Signing\<close>

text \<open>\<open>lookup\<close> is \<open>wallet_lookup_pubkey\<close>: \<^const>\<open>None\<close> stops the program.\<close>

definition script_sign_hash ::
  "('b, 'pt, 'pk) ec_ops \<Rightarrow> (uint160 \<Rightarrow> 'pk key option option) \<Rightarrow> uint160 \<Rightarrow> uint256 \<Rightarrow> u32 \<Rightarrow> buff \<Rightarrow> (bool \<times> buff) option" where
  "script_sign_hash ec lookup keyHash hash hashType script = do {
     k \<leftarrow> lookup keyHash;
     case k of None \<Rightarrow> Some (True, script)
     | Some k \<Rightarrow> do {
         s \<leftarrow> key_sign ec k (le_bytes hash);
         case s of None \<Rightarrow> Some (True, script)
         | Some sig \<Rightarrow> do {
             ASSERT (key_verify ec k (le_bytes hash) sig);
             let push_data = sig @ [ucast hashType];
             script \<leftarrow> script_push_data script push_data (of_nat (length sig) + 1);
             Some (False, script)
           }
       }
   }"

definition script_push_pubkey :: "(uint160 \<Rightarrow> 'pk key option option) \<Rightarrow> uint160 \<Rightarrow> buff \<Rightarrow> (bool \<times> buff) option" where
  "script_push_pubkey lookup keyHash scriptSig = do {
     k \<leftarrow> lookup keyHash;
     case k of None \<Rightarrow> Some (True, scriptSig)
     | Some k \<Rightarrow> do {
         pkey \<leftarrow> key_get_pubkey (Some k);
         scriptSig \<leftarrow> script_push_data scriptSig pkey (of_nat (length pkey));
         Some (False, scriptSig)
       }
   }"

definition script_tx_sighash ::
  "(byte list \<Rightarrow> uint256) \<Rightarrow> buff \<Rightarrow> btc_msg_tx \<Rightarrow> u32 \<Rightarrow> u32 \<Rightarrow> uint256 option" where
  "script_tx_sighash sha scriptPubKey tx idx hashType = do {
     ASSERT (ucast idx < tx_in_count tx);
     tx2 \<leftarrow> btc_msg_tx_dup tx;
     let ins = map (\<lambda>ti. ti\<lparr>ti_scriptLength := 0\<rparr>) (tx_tx_in tx2);
     let len = buff_maxlen (Some scriptPubKey);
     ASSERT (0 < len);
     ASSERT (ti_scriptSig (ins ! unat idx) = None);
     ASSERT (ti_scriptLength (ins ! unat idx) = 0);
     script \<leftarrow> mem_read (buff_base (Some scriptPubKey)) 0 (unat len);
     let ins = ins[unat idx := (ins ! unat idx)\<lparr>ti_scriptLength := len, ti_scriptSig := Some script\<rparr>];
     ASSERT (hashType AND 0x1f = SIGHASH_ALL);
     (_, buf) \<leftarrow> serialize_tx buff_alloc (tx2\<lparr>tx_tx_in := ins\<rparr>);
     (_, buf) \<leftarrow> serialize_uint32 buf hashType;
     bytes \<leftarrow> mem_read (buff_base (Some buf)) 0 (unat (buff_curlen (Some buf)));
     Some (hash256_calc sha bytes)
   }"

text \<open>The code and the transaction with the input signed. Only pay-to-key-hash outputs can be
  signed for; the other types stop the program (\<open>NOT_IMPLEMENTED\<close>).\<close>

definition script_sign ::
  "('b, 'pt, 'pk) ec_ops \<Rightarrow> (byte list \<Rightarrow> uint256) \<Rightarrow> (uint160 \<Rightarrow> 'pk key option option) \<Rightarrow> btc_msg_tx_out \<Rightarrow>
    btc_msg_tx \<Rightarrow> u32 \<Rightarrow> u32 \<Rightarrow> (bool \<times> btc_msg_tx) option" where
  "script_sign ec sha lookup txo tx idx hashType = do {
     ASSERT (ucast idx < tx_in_count tx);
     let scriptPubKey = buff_init (to_scriptPubKey txo) (to_scriptLength txo);
     hash \<leftarrow> script_tx_sighash sha scriptPubKey tx idx hashType;
     (res, type, data, data_len) \<leftarrow> script_match_type scriptPubKey;
     if res then Some (True, tx)
     else (case type of
         TX_PUBKEYHASH \<Rightarrow> do {
           ASSERT (data_len = 20);
           data \<leftarrow> mem_read data 0 20;
           let keyHash = le_word data;
           (res, scriptSig) \<leftarrow> script_sign_hash ec lookup keyHash hash hashType buff_alloc;
           if res then Some (True, tx)
           else do {
             (res, scriptSig) \<leftarrow> script_push_pubkey lookup keyHash scriptSig;
             if res then Some (True, tx)
             else Some (False, tx\<lparr>tx_tx_in := (tx_tx_in tx)[unat idx := (tx_tx_in tx ! unat idx)
               \<lparr>ti_scriptLength := buff_curlen (Some scriptSig), ti_scriptSig := buff_base (Some scriptSig)\<rparr>]\<rparr>)
           }
         }
       | _ \<Rightarrow> None)
   }"

section \<open>Reference parser\<close>

text \<open>What an instruction starts with: the length of the opcode and its length field, and the length of
  the data that follows. No value: the field is cut off.\<close>

fun op_header :: "byte list \<Rightarrow> (nat \<times> nat) option" where
  "op_header [] = None"
| "op_header (op # r) =
     (if op < OP_PUSHDATA1 then Some (1, unat op)
      else if op = OP_PUSHDATA1 then (if length r < 1 then None else Some (2, unat (hd r)))
      else if op = OP_PUSHDATA2 then (if length r < 2 then None else Some (3, unat (le_word (take 2 r) :: u16)))
      else if op = OP_PUSHDATA4 then (if length r < 4 then None else Some (5, unat (le_word (take 4 r) :: u32)))
      else Some (1, 0))"

lemma op_header_pos: "op_header bs = Some (h, n) \<Longrightarrow> 0 < h \<and> h \<le> length bs"
  by (cases bs) (auto simp: Suc_le_eq split: if_splits)

text \<open>The instructions of a script. Outer \<^const>\<open>None\<close>: the program stops, because a push starts
  where the script ends. Inner \<^const>\<open>None\<close>: the script does not parse.\<close>

function ops_of :: "byte list \<Rightarrow> (byte \<times> byte list) list option option" where
  "ops_of [] = Some (Some [])"
| "ops_of (op # r) = (case op_header (op # r) of None \<Rightarrow> Some None
     | Some (h, n) \<Rightarrow>
         if op \<le> OP_PUSHDATA4 \<and> length (op # r) = h then None
         else if length (op # r) < h + n then Some None
         else map_option (map_option ((#) (op, take n (drop h (op # r))))) (ops_of (drop (h + n) (op # r))))"
  by pat_completeness auto
termination
proof (relation "measure length")
  fix op :: byte and r x y h n
  assume "op_header (op # r) = Some x" "(h, n) = x"
  then show "(drop (h + n) (op # r), op # r) \<in> measure length"
    using op_header_pos [of "op # r" h n] by simp
qed simp

declare ops_of.simps(2) [simp del]

text \<open>The instruction of the program that stands for one of the reference.\<close>

definition denotes :: "byte list \<Rightarrow> script_inst \<Rightarrow> byte \<times> byte list \<Rightarrow> bool" where
  "denotes bytes i od \<longleftrightarrow> si_opcode i = fst od \<and> unat (si_len i) = length (snd od) \<and>
     (case si_data i of None \<Rightarrow> OP_PUSHDATA4 < fst od \<and> snd od = []
      | Some p \<Rightarrow> fst od \<le> OP_PUSHDATA4 \<and> mem_read (Some bytes) p (length (snd od)) = Some (snd od))"

lemma opcode_cases:
  obtains "op < OP_PUSHDATA1" | "op = OP_PUSHDATA1" | "op = OP_PUSHDATA2" | "op = OP_PUSHDATA4"
    | "OP_PUSHDATA4 < (op :: byte)"
proof -
  have "unat op < 0x4c \<or> unat op = 0x4c \<or> unat op = 0x4d \<or> unat op = 0x4e \<or> 0x4e < unat op" by linarith
  then show thesis
    using that by (auto simp: word_less_nat_alt opcodes word_unat_eq_iff)
qed

lemma take_1_Cons: "take 1 (x # xs) = [x]"
  by simp

text \<open>What follows the length field.\<close>

definition push_tail :: "byte \<Rightarrow> u64 \<Rightarrow> buff \<Rightarrow> (script_inst option \<times> bool \<times> buff) option" where
  "push_tail opcode len buf = do {
     data \<leftarrow> buff_curptr buf;
     (res, buf) \<leftarrow> buff_skip buf len;
     if res then Some (None, True, buf)
     else Some (Some \<lparr>si_opcode = opcode, si_data = Some data, si_len = len\<rparr>, False, buf)
   }"

lemma push_tail_eq:
  assumes "buff_wf b" and "h \<le> length (buff_rest b)" and "\<not> buf_grow b" and "unat len < 2 ^ 63"
  shows "push_tail op len (buff_adv b h) =
    (if length (buff_rest b) = h then None
     else if length (buff_rest b) < h + unat len then Some (None, True, buff_adv b h)
     else Some (Some \<lparr>si_opcode = op, si_data = Some (unat (buf_idx b) + h), si_len = len\<rparr>, False,
            buff_adv b (h + unat len)))"
proof -
  have wf: "buff_wf (buff_adv b h)" and i: "unat (buf_idx (buff_adv b h)) = unat (buf_idx b) + h"
    using assms buf_idx_adv by simp_all
  have p: "buff_curptr (buff_adv b h) = (if length (buff_rest b) = h then None else Some (unat (buf_idx b) + h))"
    using assms(1,2) i by (auto simp: buff_curptr_def word_less_nat_alt length_buff_rest)
  have s: "buff_skip (buff_adv b h) len = Some (if length (buff_rest b) < h + unat len then (True, buff_adv b h)
      else (False, buff_adv b (h + unat len)))"
  proof -
    have "buff_check_overflow (buff_adv b h) len \<longleftrightarrow> length (buff_rest b) < h + unat len"
      using assms check_overflow_iff [OF wf assms(4)] by auto
    then show ?thesis using assms(3) by (auto simp: buff_skip_def buff_adv_def add.assoc)
  qed
  show ?thesis by (simp add: push_tail_def p s)
qed

lemma one_op_eq:
  assumes "buff_wf b" and "\<not> buf_grow b"
  shows "script_parse_one_op b = (case buff_rest b of [] \<Rightarrow> Some (None, False, b)
    | op # r \<Rightarrow> (case op_header (op # r) of None \<Rightarrow> Some (None, True, buff_adv b 1)
       | Some (h, n) \<Rightarrow> if OP_PUSHDATA4 < op then Some (Some \<lparr>si_opcode = op, si_data = None, si_len = 0\<rparr>, False, buff_adv b 1)
           else push_tail op (of_nat n) (buff_adv b h)))"
proof (cases "buff_rest b")
  case Nil
  then show ?thesis using assms by (simp add: script_parse_one_op_def space_left_eq)
next
  case (Cons op r)
  have wf1: "buff_wf (buff_adv b 1)" and r1: "buff_rest (buff_adv b 1) = r" using assms Cons by simp_all
  have 0: "buff_left b \<noteq> 0" using assms Cons by simp
  have op: "deserialize_uint8 b 0 = Some (False, op, buff_adv b 1)"
    using assms Cons by (simp add: deserialize_uint_eqs)
  note eqs = script_parse_one_op_def space_left_eq [OF assms(1)] op deserialize_uint_eqs [OF wf1] r1 push_tail_def Cons
  show ?thesis
  proof (cases rule: opcode_cases [of op])
    case 1
    then show ?thesis using 0 by (auto simp: eqs opcodes simp del: One_nat_def)
  next
    case 2
    then have op2: "\<not> OP_PUSHDATA4 < op" "\<not> op < OP_PUSHDATA1" by (simp_all add: opcodes)
    show ?thesis
    proof (cases r)
      case Nil
      with 0 2 op2 show ?thesis by (simp add: eqs del: One_nat_def)
    next
      case (Cons a l)
      have "deserialize_uint8 (buff_adv b 1) 0 = Some (False, a, buff_adv b 2)"
        using Cons deserialize_uint_eqs(1) [OF wf1] by (simp add: r1 take_1_Cons del: One_nat_def)
      then have "script_parse_one_op b = push_tail op (ucast a) (buff_adv b 2)"
        using 0 2 op2 by (simp add: script_parse_one_op_def space_left_eq [OF assms(1)] op push_tail_def)
      then show ?thesis using 2 op2 Cons \<open>buff_rest b = op # r\<close> by simp
    qed
  next
    case 3
    then have no: "\<not> OP_PUSHDATA4 < op" "\<not> op < OP_PUSHDATA1" "op \<noteq> OP_PUSHDATA1" "op = OP_PUSHDATA4 \<Longrightarrow> op \<noteq> OP_PUSHDATA2"
      by (simp_all add: opcodes)
    show ?thesis
    proof (cases "length r < 2")
      case True
      with 0 3 no show ?thesis by (simp add: eqs del: One_nat_def)
    next
      case False
      then have "script_parse_one_op b = push_tail op (ucast (le_word (take 2 r) :: u16)) (buff_adv b 3)"
        using 0 3 no by (simp add: eqs del: One_nat_def)
      then show ?thesis using 3 no False \<open>buff_rest b = op # r\<close> by simp
    qed
  next
    case 4
    then have no: "\<not> OP_PUSHDATA4 < op" "\<not> op < OP_PUSHDATA1" "op \<noteq> OP_PUSHDATA1" "op = OP_PUSHDATA4 \<Longrightarrow> op \<noteq> OP_PUSHDATA2"
      by (simp_all add: opcodes)
    show ?thesis
    proof (cases "length r < 4")
      case True
      with 0 4 no show ?thesis by (simp add: eqs del: One_nat_def)
    next
      case False
      then have "script_parse_one_op b = push_tail op (ucast (le_word (take 4 r) :: u32)) (buff_adv b 5)"
        using 0 4 no by (simp add: eqs del: One_nat_def)
      then show ?thesis using 4 no False \<open>buff_rest b = op # r\<close> by simp
    qed
  next
    case 5
    then show ?thesis using 0 by (auto simp: eqs opcodes simp del: One_nat_def)
  qed
qed


lemma parse_ops_eq:
  assumes "buff_wf b" and "\<not> buf_grow b" and "buff_rest b = bs"
  shows "case ops_of bs of None \<Rightarrow> parse_ops b acc = None
    | Some None \<Rightarrow> parse_ops b acc = Some None
    | Some (Some ods) \<Rightarrow> \<exists>is. parse_ops b acc = Some (Some (acc @ is)) \<and> list_all2 (denotes (buff_bytes b)) is ods"
  using assms
proof (induction bs arbitrary: b acc rule: ops_of.induct)
  case 1
  then show ?case by (simp add: parse_ops.simps [of b acc] one_op_eq)
next
  case (2 op r)
  note one = one_op_eq [OF 2(2,3), unfolded 2(4), simplified list.case]
  have wf0: "length (op # r) < 2 ^ 62" using length_buff_rest_bound [OF 2(2)] 2(4) by simp
  show ?case
  proof (cases "op_header (op # r)")
    case None
    with one show ?thesis by (simp add: parse_ops.simps [of b acc] ops_of.simps(2))
  next
    case (Some hn)
    obtain h n where hn: "hn = (h, n)" by fastforce
    have h: "h \<le> length (op # r)" "0 < h" using op_header_pos Some hn by blast+
    have n: "n < 2 ^ 32" and push0: "OP_PUSHDATA4 < op \<Longrightarrow> h = 1 \<and> n = 0"
      using Some hn unsigned_less [of "le_word (take 2 r) :: u16", where ?'a = nat]
        unsigned_less [of "le_word (take 4 r) :: u32", where ?'a = nat] byte_lt [of op] byte_lt [of "hd r"]
      by (auto simp: opcodes word_less_nat_alt split: if_splits)
    have un: "unat (of_nat n :: u64) = n" using n by (simp add: unat_of_nat_small)
    have tail: "push_tail op (of_nat n) (buff_adv b h) =
      (if length (op # r) = h then None
       else if length (op # r) < h + n then Some (None, True, buff_adv b h)
       else Some (Some \<lparr>si_opcode = op, si_data = Some (unat (buf_idx b) + h), si_len = of_nat n\<rparr>, False, buff_adv b (h + n)))"
      using push_tail_eq [OF 2(2) _ 2(3), of h "of_nat n" op] h(1) n 2(4) un by simp
    have step: "script_parse_one_op b = (if OP_PUSHDATA4 < op then Some (Some \<lparr>si_opcode = op, si_data = None, si_len = 0\<rparr>, False, buff_adv b 1)
           else push_tail op (of_nat n) (buff_adv b h))"
      using one Some hn by simp
    show ?thesis
    proof (cases "op \<le> OP_PUSHDATA4 \<and> length (op # r) \<le> h + n \<and> length (op # r) \<noteq> h + n \<or> op \<le> OP_PUSHDATA4 \<and> length (op # r) = h")
      case True
      then show ?thesis
        using step tail Some hn by (auto simp: parse_ops.simps [of b acc] ops_of.simps(2))
    next
      case False
      define i where "i = \<lparr>si_opcode = op, si_data = (if OP_PUSHDATA4 < op then None else Some (unat (buf_idx b) + h)), si_len = of_nat n\<rparr>"
      let ?d = "take n (drop h (op # r))"
      have fits: "h + n \<le> length (op # r)" using False push0 h by (cases "op \<le> OP_PUSHDATA4") auto
      have go: "parse_ops b acc = parse_ops (buff_adv b (h + n)) (acc @ [i])"
        using step tail False push0 by (auto simp: parse_ops.simps [of b acc] i_def not_le)
      have den: "denotes (buff_bytes b) i (op, ?d)"
      proof -
        have "mem_read (Some (buff_bytes b)) (unat (buf_idx b) + h) n = Some ?d"
          using fits 2(2) arg_cong [OF 2(4), of length] h
          by (auto simp: mem_read_def buff_rest_def buff_wf_def simp flip: 2(4) drop_drop) (simp add: add.commute)
        then show ?thesis using fits un push0 by (auto simp: denotes_def i_def)
      qed
      have ops: "ops_of (op # r) = map_option (map_option ((#) (op, ?d))) (ops_of (drop (h + n) (op # r)))"
        using Some hn False fits by (auto simp: ops_of.simps(2))
      have wf: "buff_wf (buff_adv b (h + n))" "\<not> buf_grow (buff_adv b (h + n))"
        "buff_rest (buff_adv b (h + n)) = drop (h + n) (op # r)"
        using 2(2,3,4) fits by simp_all
      have c: "\<not> (op \<le> OP_PUSHDATA4 \<and> length (op # r) = h)" "\<not> length (op # r) < h + n"
        using False fits by auto
      have IH: "case ops_of (drop (h + n) (op # r)) of None \<Rightarrow> parse_ops (buff_adv b (h + n)) (acc @ [i]) = None
        | Some None \<Rightarrow> parse_ops (buff_adv b (h + n)) (acc @ [i]) = Some None
        | Some (Some ods) \<Rightarrow> \<exists>is. parse_ops (buff_adv b (h + n)) (acc @ [i]) = Some (Some ((acc @ [i]) @ is)) \<and>
            list_all2 (denotes (buff_bytes b)) is ods"
        using 2(1) [OF Some hn [symmetric] c wf, of "acc @ [i]", unfolded buff_adv_sel] .
      show ?thesis
        using IH den unfolding ops go
        by (cases "ops_of (drop (h + n) (op # r))") (auto split: option.splits)
    qed
  qed
qed


section \<open>What an output pays to\<close>

lemma denotes_match:
  assumes "denotes bytes i od"
  shows "script_inst_match i OP_PUBKEY \<longleftrightarrow> fst od \<le> OP_PUSHDATA4 \<and> length (snd od) \<in> {23..120}"
    "script_inst_match i OP_PUBKEYHASH \<longleftrightarrow> fst od \<le> OP_PUSHDATA4 \<and> length (snd od) = 20"
    "script_inst_match i OP_DUP \<longleftrightarrow> fst od = OP_DUP"
    "script_inst_match i OP_HASH160 \<longleftrightarrow> fst od = OP_HASH160"
    "script_inst_match i OP_EQUALVERIFY \<longleftrightarrow> fst od = OP_EQUALVERIFY"
    "script_inst_match i OP_CHECKSIG \<longleftrightarrow> fst od = OP_CHECKSIG"
proof -
  have "si_len i < 23 \<longleftrightarrow> length (snd od) < 23" "120 < si_len i \<longleftrightarrow> 120 < length (snd od)"
    "si_len i = 20 \<longleftrightarrow> length (snd od) = 20" "si_opcode i = fst od"
    using assms by (simp_all add: denotes_def word_less_nat_alt word_unat_eq_iff)
  then show "script_inst_match i OP_PUBKEY \<longleftrightarrow> fst od \<le> OP_PUSHDATA4 \<and> length (snd od) \<in> {23..120}"
    "script_inst_match i OP_PUBKEYHASH \<longleftrightarrow> fst od \<le> OP_PUSHDATA4 \<and> length (snd od) = 20"
    "script_inst_match i OP_DUP \<longleftrightarrow> fst od = OP_DUP"
    "script_inst_match i OP_HASH160 \<longleftrightarrow> fst od = OP_HASH160"
    "script_inst_match i OP_EQUALVERIFY \<longleftrightarrow> fst od = OP_EQUALVERIFY"
    "script_inst_match i OP_CHECKSIG \<longleftrightarrow> fst od = OP_CHECKSIG"
    by (auto simp: script_inst_match_def script_inst_ispush_def opcodes not_less)
qed

lemma list_all2_2: "list_all2 P xs ys \<Longrightarrow> length ys = 2 \<Longrightarrow> \<exists>x0 x1. xs = [x0, x1] \<and> P x0 (ys ! 0) \<and> P x1 (ys ! 1)"
  by (auto simp: length_Suc_conv numeral_2_eq_2 list_all2_Cons2)

lemma list_all2_5: "list_all2 P xs ys \<Longrightarrow> length ys = 5 \<Longrightarrow> \<exists>x0 x1 x2 x3 x4. xs = [x0, x1, x2, x3, x4] \<and>
   P x0 (ys ! 0) \<and> P x1 (ys ! 1) \<and> P x2 (ys ! 2) \<and> P x3 (ys ! 3) \<and> P x4 (ys ! 4)"
  by (auto simp: length_Suc_conv eval_nat_numeral list_all2_Cons2)

definition is_p2pk :: "(byte \<times> byte list) list \<Rightarrow> bool" where
  "is_p2pk ods \<longleftrightarrow> length ods = 2 \<and> fst (ods ! 0) \<le> OP_PUSHDATA4 \<and> length (snd (ods ! 0)) \<in> {23..120} \<and> fst (ods ! 1) = OP_CHECKSIG"

definition is_p2pkh :: "(byte \<times> byte list) list \<Rightarrow> bool" where
  "is_p2pkh ods \<longleftrightarrow> length ods = 5 \<and> fst (ods ! 0) = OP_DUP \<and> fst (ods ! 1) = OP_HASH160 \<and> fst (ods ! 2) \<le> OP_PUSHDATA4 \<and>
        length (snd (ods ! 2)) = 20 \<and> fst (ods ! 3) = OP_EQUALVERIFY \<and> fst (ods ! 4) = OP_CHECKSIG"

lemma classify_eq:
  assumes "list_all2 (denotes bytes) is ods"
  shows "script_classify is = (if is_p2pk ods then TX_PUBKEY else if is_p2pkh ods then TX_PUBKEYHASH else TX_NONSTANDARD)"
proof -
  have l: "length is = length ods" using assms by (rule list_all2_lengthD)
  consider "length ods = 2" | "length ods = 5" | "length ods \<noteq> 2" "length ods \<noteq> 5" by blast
  then show ?thesis
  proof cases
    case 1
    from list_all2_2 [OF assms 1] l 1 show ?thesis
      by (auto simp: script_classify_def std_scripts_def std_pubkey_def std_pubkeyhash_def denotes_match is_p2pk_def is_p2pkh_def)
  next
    case 2
    from list_all2_5 [OF assms 2] l 2 show ?thesis
      by (auto simp: script_classify_def std_scripts_def std_pubkey_def std_pubkeyhash_def denotes_match is_p2pk_def is_p2pkh_def)
  next
    case 3
    with l show ?thesis
      by (simp add: script_classify_def std_scripts_def std_pubkey_def std_pubkeyhash_def is_p2pk_def is_p2pkh_def)
  qed
qed

lemma word_of_unat: "unat (w :: u64) = n \<Longrightarrow> w = of_nat n"
  by auto

lemma match_type_eq:
  assumes "length bs < 2 ^ 62"
  shows "script_match_type (buff_init (Some bs) (of_nat (length bs))) = (case ops_of bs of None \<Rightarrow> None
    | Some None \<Rightarrow> Some (True, TX_NONSTANDARD, None, 0)
    | Some (Some ods) \<Rightarrow> Some (if is_p2pk ods then (False, TX_PUBKEY, Some (snd (ods ! 0)), of_nat (length (snd (ods ! 0))))
        else if is_p2pkh ods then (False, TX_PUBKEYHASH, Some (snd (ods ! 2)), 20) else (False, TX_NONSTANDARD, None, 0)))"
proof -
  let ?b = "buff_init (Some bs) (of_nat (length bs))"
  have wf: "buff_wf ?b" "buff_rest ?b = bs" using buff_init_wf [OF assms] by simp_all
  have b: "buf_base ?b = Some bs" "buff_bytes ?b = bs" "\<not> buf_grow ?b" by (simp_all add: buff_init_def buff_bytes_def)
  show ?thesis
  proof (cases "ops_of bs")
    case None
    then show ?thesis using parse_ops_eq [OF wf(1) b(3) wf(2), of "[]"] by (simp add: script_match_type_def script_parse_def)
  next
    case (Some o1)
    show ?thesis
    proof (cases o1)
      case None
      then show ?thesis using Some parse_ops_eq [OF wf(1) b(3) wf(2), of "[]"] by (simp add: script_match_type_def script_parse_def)
    next
      case (Some ods)
      then obtain "is" where ps: "script_parse ?b = Some (Some is)" and d: "list_all2 (denotes bs) is ods"
        using \<open>ops_of bs = Some o1\<close> parse_ops_eq [OF wf(1) b(3) wf(2), of "[]"] b(2) by (auto simp: script_parse_def)
      have copy: "do { p \<leftarrow> si_data i; mem_read (Some bs) p (unat (si_len i)) } = Some (snd od)"
        "si_len i = of_nat (length (snd od))"
        if "denotes bs i od" "fst od \<le> OP_PUSHDATA4" for i od
        using that by (auto simp: denotes_def not_less [symmetric] split: option.splits intro!: word_of_unat)
      consider "is_p2pk ods" | "\<not> is_p2pk ods" "is_p2pkh ods" | "\<not> is_p2pk ods" "\<not> is_p2pkh ods" by blast
      then show ?thesis
      proof cases
        case 1
        then have "denotes bs (is ! 0) (ods ! 0)" "fst (ods ! 0) \<le> OP_PUSHDATA4"
          using d by (auto simp: is_p2pk_def list_all2_conv_all_nth)
        from copy [OF this] 1 show ?thesis
          using \<open>ops_of bs = Some o1\<close> Some ps classify_eq [OF d] by (simp add: script_match_type_def b)
      next
        case 2
        then have "denotes bs (is ! 2) (ods ! 2)" "fst (ods ! 2) \<le> OP_PUSHDATA4" "length (snd (ods ! 2)) = 20"
          using d by (auto simp: is_p2pkh_def list_all2_conv_all_nth)
        from copy [OF this(1,2)] this(3) 2 show ?thesis
          using \<open>ops_of bs = Some o1\<close> Some ps classify_eq [OF d] by (simp add: script_match_type_def b)
      next
        case 3
        then show ?thesis
          using \<open>ops_of bs = Some o1\<close> Some ps classify_eq [OF d] by (simp add: script_match_type_def b)
      qed
    qed
  qed
qed

section \<open>What an output pays to\<close>

text \<open>The key hash of the two standard forms: of the key itself, and given as it is.\<close>

definition pays_to :: "(byte list \<Rightarrow> uint256) \<Rightarrow> (byte \<times> byte list) list \<Rightarrow> uint160 option" where
  "pays_to sha ods = (if is_p2pk ods then Some (hash160_calc sha (snd (ods ! 0)))
     else if is_p2pkh ods then Some (le_word (snd (ods ! 2))) else None)"

text \<open>C28: the key hash that the program reads from an output script is the one of the reference
  parser, for every script, and it stops exactly where the reference says so.\<close>

theorem parse_pubkey_hash_correct:
  assumes "length bs < 2 ^ 62"
  shows "script_parse_pubkey_hash sha (Some bs) (of_nat (length bs)) =
    map_option (\<lambda>ods. case ods \<bind> pays_to sha of None \<Rightarrow> (True, 0) | Some h \<Rightarrow> (False, h)) (ops_of bs)"
proof -
  have rd: "mem_read (Some (snd (ods ! 0))) 0 (unat (of_nat (length (snd (ods ! 0))) :: u64)) = Some (snd (ods ! 0))"
    if "is_p2pk ods" for ods :: "(byte \<times> byte list) list"
    using that by (auto simp: is_p2pk_def mem_read_def unat_of_nat_small)
  have "mem_read (Some (snd (ods ! 2))) 0 20 = Some (snd (ods ! 2))" if "is_p2pkh ods" for ods :: "(byte \<times> byte list) list"
    using that by (simp add: is_p2pkh_def mem_read_def)
  with rd show ?thesis
    by (auto simp: script_parse_pubkey_hash_def match_type_eq [OF assms] pays_to_def split: option.splits)
qed

text \<open>The scripts that stop the program: complete instructions, then a push opcode, with its length
  field, where the script ends.\<close>

inductive runs_into_end :: "byte list \<Rightarrow> bool" where
  bare: "op_header bs = Some (length bs, n) \<Longrightarrow> hd bs \<le> OP_PUSHDATA4 \<Longrightarrow> runs_into_end bs"
| skip: "op_header bs = Some (h, n) \<Longrightarrow> h + n \<le> length bs \<Longrightarrow> runs_into_end (drop (h + n) bs) \<Longrightarrow>
     runs_into_end bs"

inductive_simps runs_into_end_Nil: "runs_into_end []"
inductive_simps runs_into_end_Cons: "runs_into_end (op # r)"

lemma ops_of_stops_iff: "ops_of bs = None \<longleftrightarrow> runs_into_end bs"
proof (induction bs rule: ops_of.induct)
  case 1
  show ?case by (simp add: runs_into_end_Nil)
next
  case (2 op r)
  show ?case
  proof (cases "op_header (op # r)")
    case None
    then show ?thesis by (simp add: ops_of.simps(2) runs_into_end_Cons)
  next
    case (Some hn)
    obtain h n where hn: "hn = (h, n)" by fastforce
    have "0 < h" using op_header_pos Some hn by blast
    show ?thesis
    proof (cases "op \<le> OP_PUSHDATA4 \<and> length (op # r) = h")
      case True
      then show ?thesis using Some hn by (auto simp: ops_of.simps(2) runs_into_end_Cons)
    next
      case F: False
      show ?thesis
      proof (cases "length (op # r) < h + n")
        case True
        then show ?thesis using Some hn F by (auto simp: ops_of.simps(2) runs_into_end_Cons)
      next
        case False
        with 2 [OF Some hn [symmetric] F] Some hn F show ?thesis
          by (auto simp: ops_of.simps(2) runs_into_end_Cons)
      qed
    qed
  qed
qed

text \<open>C29: parsing an output script stops the program exactly for the scripts that end in a push opcode
  without data, such as a trailing \<open>OP_0\<close>. Any peer can send one.\<close>

theorem output_script_stops_iff:
  assumes "length bs < 2 ^ 62"
  shows "script_parse_pubkey_hash sha (Some bs) (of_nat (length bs)) = None \<longleftrightarrow> runs_into_end bs"
  unfolding ops_of_stops_iff [symmetric] script_parse_pubkey_hash_def
  by (auto simp: match_type_eq [OF assms] is_p2pk_def is_p2pkh_def mem_read_def unat_of_nat_small split: option.splits)

section \<open>The scripts the client writes\<close>

definition push :: "byte list \<Rightarrow> byte list" where
  "push d = (let n = length d in
     if n < 0x4c then [of_nat n] else if n \<le> 0xff then [OP_PUSHDATA1, of_nat n]
     else if n \<le> 0xffff then OP_PUSHDATA2 # le_bytes (of_nat n :: u16) else OP_PUSHDATA4 # le_bytes (of_nat n :: u32)) @ d"

lemma appends_ignore:
  assumes "appends b m xs" and "\<And>b'. buff_growing b' \<Longrightarrow> buff_data b' = buff_data b @ xs \<Longrightarrow>
     \<exists>b''. f (False, b') = Some b'' \<and> buff_growing b'' \<and> buff_data b'' = buff_data b' @ ys"
  shows "\<exists>b''. m \<bind> f = Some b'' \<and> buff_growing b'' \<and> buff_data b'' = buff_data b @ xs @ ys"
  using assms by (fastforce simp: appends_def)

lemma push_data_ok:
  assumes "buff_growing b" and "length d < 2 ^ 32" and "length (buff_data b) < 2 ^ 32"
  shows "\<exists>b'. script_push_data b d (of_nat (length d)) = Some b' \<and> buff_growing b' \<and> buff_data b' = buff_data b @ push d"
proof -
  let ?n = "of_nat (length d) :: u64"
  have n: "unat ?n = length d" using assms(2) by (simp add: unat_of_nat_small)
  have c: "?n < ucast OP_PUSHDATA1 \<longleftrightarrow> length d < 0x4c" "?n \<le> 0xff \<longleftrightarrow> length d \<le> 0xff" "?n \<le> 0xffff \<longleftrightarrow> length d \<le> 0xffff"
    by (simp_all add: word_less_nat_alt word_le_nat_alt n OP_PUSHDATA1_def)
  have body: "\<exists>b''. (\<lambda>(_, buf). do { (_, buf) \<leftarrow> serialize_bytes buf d ?n; Some buf }) (False, b') = Some b'' \<and> buff_growing b'' \<and>
      buff_data b'' = buff_data b' @ d" if "buff_growing b'" "length (buff_data b') < 2 ^ 33" for b'
    using serialize_bytes_appends [OF that(1), of ?n d] that assms(2) n by (auto simp: appends_def)
  have g: "buf_grow b" using assms(1) by (simp add: buff_growing_def)
  let ?w = "(if ?n < ucast OP_PUSHDATA1 then serialize_uint8 b (ucast ?n)
       else if ?n \<le> 0xff then do {
         (_, buf) \<leftarrow> serialize_uint8 b OP_PUSHDATA1;
         serialize_uint8 buf (ucast ?n)
       }
       else if ?n \<le> 0xffff then do {
         (_, buf) \<leftarrow> serialize_uint8 b OP_PUSHDATA2;
         serialize_uint16 buf (ucast ?n)
       }
       else do {
         (_, buf) \<leftarrow> serialize_uint8 b OP_PUSHDATA4;
         serialize_uint32 buf (ucast ?n)
       })"
  have u: "ucast ?n = (of_nat (length d) :: byte)" "ucast ?n = (of_nat (length d) :: u16)" "ucast ?n = (of_nat (length d) :: u32)"
    by (simp_all add: word_unat_eq_iff unsigned_ucast_eq unsigned_of_nat)
  have one: "appends b (serialize_uint8 b c) [c]" if "buff_growing b" "length (buff_data b) < 2 ^ 33" for b c
    using serialize_uint_appends(1) [OF that(1), of c] that(2) by (simp add: le_bytes_byte)
  have two: "appends b (serialize_uint8 b c \<bind> (\<lambda>(_, buf). f buf)) (c # ys)"
    if "\<And>b'. buff_growing b' \<Longrightarrow> length (buff_data b') < 2 ^ 33 \<Longrightarrow> appends b' (f b') ys" for c f ys
    using appends_bind [OF one [OF assms(1)], of c "\<lambda>(_, buf). f buf" ys] that assms(3) by simp
  have w: "appends b ?w (take (length (push d) - length d) (push d))"
    using one [OF assms(1)] assms(3) unfolding c u
    by (auto simp: push_def Let_def intro!: two one serialize_uint_appends)
  have "push d = take (length (push d) - length d) (push d) @ d" by (simp add: push_def Let_def)
  moreover have "\<exists>b'. (?w \<bind> (\<lambda>(_, buf). do { (_, buf) \<leftarrow> serialize_bytes buf d ?n; Some buf })) = Some b' \<and> buff_growing b' \<and>
      buff_data b' = buff_data b @ take (length (push d) - length d) (push d) @ d"
    using assms(3) by (intro appends_ignore [OF w] body) (auto simp: push_def Let_def)
  ultimately show ?thesis using g by (simp add: script_push_data_def)
qed


lemma push_hd:
  assumes "d \<noteq> []" and "length d < 2 ^ 32"
  shows "\<exists>h r. push d = h # r \<and> h \<le> OP_PUSHDATA4"
  using assms by (auto simp: push_def Let_def opcodes word_le_nat_alt unsigned_of_nat take_bit_nat_eq_self)

lemma op_header_push:
  assumes "d \<noteq> []" and "length d < 2 ^ 32"
  shows "op_header (push d @ r) = Some (length (push d) - length d, length d)"
proof -
  have "(of_nat (length d) :: byte) < 0x4c" if "length d < 0x4c"
    using that by (simp add: word_less_nat_alt unsigned_of_nat take_bit_nat_eq_self)
  then show ?thesis
    using assms by (auto simp: push_def Let_def opcodes unsigned_of_nat take_bit_nat_eq_self)
qed

lemma ops_of_push:
  assumes "d \<noteq> []" and "length d < 2 ^ 32"
  shows "ops_of (push d @ r) = map_option (map_option ((#) (hd (push d), d))) (ops_of r)"
proof -
  obtain h t where h: "push d = h # t" "h \<le> OP_PUSHDATA4" using push_hd [OF assms] by blast
  let ?k = "length (push d) - length d"
  have k: "length (push d) = ?k + length d" "take (length d) (drop ?k (push d @ r)) = d" "drop (?k + length d) (push d @ r) = r"
    by (auto simp: push_def Let_def)
  have "0 < length d" using assms(1) by simp
  then have "length (push d @ r) \<noteq> ?k" "\<not> length (push d @ r) < ?k + length d" using k(1) unfolding length_append by linarith+
  then show ?thesis
    using op_header_push [OF assms, of r] k(2,3) unfolding h append_Cons by (simp add: ops_of.simps(2) del: op_header.simps)
qed

lemma ops_of_plain: "OP_PUSHDATA4 < op \<Longrightarrow> ops_of (op # r) = map_option (map_option ((#) (op, []))) (ops_of r)"
proof -
  assume op: "OP_PUSHDATA4 < op"
  then have "\<not> op < OP_PUSHDATA1" "op \<noteq> OP_PUSHDATA1" "op \<noteq> OP_PUSHDATA2" "op \<noteq> OP_PUSHDATA4"
    by (auto simp: opcodes word_less_nat_alt)
  with op show ?thesis by (simp add: ops_of.simps(2) not_le)
qed

definition p2pkh_script :: "uint160 \<Rightarrow> byte list" where
  "p2pkh_script h = [OP_DUP, OP_HASH160] @ push (le_bytes h) @ [OP_EQUALVERIFY, OP_CHECKSIG]"

definition p2pk_script :: "byte list \<Rightarrow> byte list" where
  "p2pk_script pub = push pub @ [OP_CHECKSIG]"

lemma length_p2pkh_script [simp]: "length (p2pkh_script h) = 25"
  by (simp add: p2pkh_script_def push_def)

lemma le_bytes_nonempty: "le_bytes (h :: uint160) \<noteq> []"
  using length_le_bytes [of h] by fastforce

lemma ops_of_p2pkh: "ops_of (p2pkh_script h) = Some (Some
    [(OP_DUP, []), (OP_HASH160, []), (hd (push (le_bytes h)), le_bytes h), (OP_EQUALVERIFY, []), (OP_CHECKSIG, [])])"
proof -
  have "OP_PUSHDATA4 < OP_DUP" "OP_PUSHDATA4 < OP_HASH160" "OP_PUSHDATA4 < OP_EQUALVERIFY" "OP_PUSHDATA4 < OP_CHECKSIG"
    by (simp_all add: opcodes)
  then show ?thesis by (simp add: p2pkh_script_def ops_of_plain ops_of_push le_bytes_nonempty)
qed

lemma p2pkh_is: "ops_of (p2pkh_script h) = Some (Some ods) \<Longrightarrow> \<not> is_p2pk ods \<and> is_p2pkh ods \<and> snd (ods ! 2) = le_bytes h"
  using push_hd [of "le_bytes h"] le_bytes_nonempty [of h]
  by (auto simp: ops_of_p2pkh is_p2pk_def is_p2pkh_def)

lemma p2pk_is:
  assumes "23 \<le> length pub" and "length pub \<le> 120"
  shows "\<exists>ods. ops_of (p2pk_script pub) = Some (Some ods) \<and> is_p2pk ods \<and> snd (ods ! 0) = pub"
proof -
  have ne: "pub \<noteq> []" using assms by auto
  have "OP_PUSHDATA4 < OP_CHECKSIG" by (simp add: opcodes)
  then show ?thesis
    using assms ne push_hd [of pub] by (auto simp: p2pk_script_def ops_of_push ops_of_plain is_p2pk_def)
qed

text \<open>The script written for a key hash pays to this key hash when it is parsed.\<close>

theorem generated_script_roundtrip:
  "\<exists>m. script_txo_generate h = Some (Some m, 25) \<and> take 25 m = p2pkh_script h \<and>
     script_parse_pubkey_hash sha (Some (take 25 m)) 25 = Some (False, h)"
proof -
  have "\<exists>b. script_txo_generate h = Some (buff_base (Some b), buff_curlen (Some b)) \<and> buff_growing b \<and> buff_data b = p2pkh_script h"
  proof -
    have one: "\<exists>b'. serialize_uint8 b c = Some (False, b') \<and> buff_growing b' \<and> buff_data b' = buff_data b @ [c]"
      if "buff_growing b" "length (buff_data b) < 100" for b c
      using serialize_uint_appends(1) [OF that(1), of c] that(2) by (auto simp: le_bytes_byte appends_def)
    obtain b1 where b1: "serialize_uint8 buff_alloc OP_DUP = Some (False, b1)" "buff_growing b1" "buff_data b1 = [OP_DUP]"
      using one [of buff_alloc OP_DUP] by auto
    obtain b2 where b2: "serialize_uint8 b1 OP_HASH160 = Some (False, b2)" "buff_growing b2" "buff_data b2 = [OP_DUP, OP_HASH160]"
      using one [of b1 OP_HASH160] b1 by auto
    obtain b3 where b3: "script_push_data b2 (le_bytes h) 20 = Some b3" "buff_growing b3"
      "buff_data b3 = [OP_DUP, OP_HASH160] @ push (le_bytes h)"
      using push_data_ok [of b2 "le_bytes h"] b2 by auto
    have l3: "length (buff_data b3) = 23" by (simp add: b3 push_def)
    obtain b4 where b4: "serialize_uint8 b3 OP_EQUALVERIFY = Some (False, b4)" "buff_growing b4" "buff_data b4 = buff_data b3 @ [OP_EQUALVERIFY]"
      using one [of b3 OP_EQUALVERIFY] b3 l3 by auto
    obtain b5 where b5: "serialize_uint8 b4 OP_CHECKSIG = Some (False, b5)" "buff_growing b5" "buff_data b5 = buff_data b4 @ [OP_CHECKSIG]"
      using one [of b4 OP_CHECKSIG] b4 l3 by auto
    show ?thesis using b1 b2 b3 b4 b5 by (intro exI [of _ b5]) (simp add: script_txo_generate_def p2pkh_script_def)
  qed
  then obtain b where b: "script_txo_generate h = Some (buff_base (Some b), buff_curlen (Some b))" "buff_growing b"
    "buff_data b = p2pkh_script h" by blast
  then obtain m where m: "buf_base b = Some m" by (auto simp: buff_growing_def buff_wf_def)
  have i: "unat (buf_idx b) = 25" using b length_buff_data [of b] by (simp add: buff_growing_def)
  then have idx: "buf_idx b = 25" by (simp add: word_unat_eq_iff)
  have t: "take 25 m = p2pkh_script h" using b(3) m i by (simp add: buff_data_def buff_bytes_def)
  have "script_parse_pubkey_hash sha (Some (p2pkh_script h)) 25 = Some (False, h)"
    using match_type_eq [of "p2pkh_script h"] p2pkh_is [of h]
    by (simp add: script_parse_pubkey_hash_def ops_of_p2pkh mem_read_def)
  then show ?thesis using b(1) m idx t by (simp add: buff_base_def buff_curlen_def)
qed

text \<open>An output that pays to a public key counts as the client's own, with the hash of the key, but
  signing for it stops the program, whatever the transaction and the keys.\<close>

theorem pubkey_output_not_signed:
  assumes "23 \<le> length pub" and "length pub \<le> 120"
    and "txo = \<lparr>to_value = v, to_scriptLength = of_nat (length (p2pk_script pub)), to_scriptPubKey = Some (p2pk_script pub)\<rparr>"
  shows "script_parse_pubkey_hash sha (to_scriptPubKey txo) (to_scriptLength txo) = Some (False, hash160_calc sha pub) \<and>
    script_sign ec sha lookup txo tx idx hashType = None"
proof -
  obtain ods where o: "ops_of (p2pk_script pub) = Some (Some ods)" "is_p2pk ods" "snd (ods ! 0) = pub"
    using p2pk_is [OF assms(1,2)] by blast
  have l: "length (p2pk_script pub) < 2 ^ 62" using assms(2) by (simp add: p2pk_script_def push_def Let_def)
  have m: "script_match_type (buff_init (to_scriptPubKey txo) (to_scriptLength txo)) =
      Some (False, TX_PUBKEY, Some pub, of_nat (length pub))"
    using match_type_eq [OF l] o assms(3) by simp
  have "unat (of_nat (length pub) :: u64) = length pub" using assms(2) by (simp add: unat_of_nat_small)
  then have "script_parse_pubkey_hash sha (to_scriptPubKey txo) (to_scriptLength txo) = Some (False, hash160_calc sha pub)"
    using m by (simp add: script_parse_pubkey_hash_def mem_read_def)
  moreover have "script_sign ec sha lookup txo tx idx hashType = None"
    by (cases "script_tx_sighash sha (buff_init (to_scriptPubKey txo) (to_scriptLength txo)) tx idx hashType")
      (simp_all add: script_sign_def m)
  ultimately show ?thesis by blast
qed

section \<open>What a signature covers\<close>

text \<open>The transaction that is hashed: no input script except at the signed input, which has the
  script of the output it spends.\<close>

definition sighash_tx :: "btc_msg_tx \<Rightarrow> nat \<Rightarrow> byte list \<Rightarrow> btc_msg_tx" where
  "sighash_tx tx idx script =
     (let ins = map (\<lambda>ti. ti\<lparr>ti_scriptLength := 0, ti_scriptSig := Some []\<rparr>) (tx_tx_in tx)
      in tx\<lparr>tx_tx_in := ins[idx := (ins ! idx)\<lparr>ti_scriptLength := of_nat (length script), ti_scriptSig := Some script\<rparr>]\<rparr>)"

text \<open>A transaction some of whose inputs are signed, the one at \<open>idx\<close> not.\<close>

definition signable :: "btc_msg_tx \<Rightarrow> nat \<Rightarrow> bool" where
  "signable tx idx \<longleftrightarrow> idx < length (tx_tx_in tx) \<and> length (tx_tx_in tx) < 2 ^ 32 \<and> tx_in_count tx = of_nat (length (tx_tx_in tx)) \<and>
     length (tx_tx_out tx) < 2 ^ 32 \<and> tx_out_count tx = of_nat (length (tx_tx_out tx)) \<and> list_all ok_tx_out (tx_tx_out tx) \<and>
     (\<forall>ti \<in> set (tx_tx_in tx). ti_scriptLength ti = 0 \<or> (\<exists>s. ti_scriptSig ti = Some s \<and> unat (ti_scriptLength ti) \<le> length s)) \<and>
     ti_scriptLength (tx_tx_in tx ! idx) = 0"

lemma write_array_relabel:
  assumes "\<And>b x. f b (g x) = f b x"
  shows "write_array f n (map g xs) b = write_array f n xs b"
proof (induction n arbitrary: xs b)
  case (Suc n)
  then show ?case by (cases xs) (simp_all add: assms)
qed simp

definition fill :: "u64 \<Rightarrow> memory \<Rightarrow> memory" where
  "fill n m = Some (if n = 0 then [] else case m of None \<Rightarrow> [] | Some s \<Rightarrow> s)"

definition fill_tx :: "btc_msg_tx \<Rightarrow> btc_msg_tx" where
  "fill_tx tx = tx\<lparr>tx_tx_in := map (\<lambda>ti. ti\<lparr>ti_scriptSig := fill (ti_scriptLength ti) (ti_scriptSig ti)\<rparr>) (tx_tx_in tx),
     tx_tx_out := map (\<lambda>tout. tout\<lparr>to_scriptPubKey := fill (to_scriptLength tout) (to_scriptPubKey tout)\<rparr>) (tx_tx_out tx)\<rparr>"

lemma serialize_bytes_0: "serialize_bytes b src 0 = serialize_bytes b [] 0"
  by (simp add: serialize_bytes_def buff_copy_to_def buff_put_def)

lemma serialize_bytes_fill:
  "serialize_bytes b (case fill n m of None \<Rightarrow> [] | Some s \<Rightarrow> s) n = serialize_bytes b (case m of None \<Rightarrow> [] | Some s \<Rightarrow> s) n"
  by (cases "n = 0") (auto simp: fill_def split: option.splits intro: serialize_bytes_0 [symmetric])

lemma serialize_fill_tx: "serialize_tx b (fill_tx tx) = serialize_tx b tx"
proof -
  have "serialize_tx_in b (ti\<lparr>ti_scriptSig := fill (ti_scriptLength ti) (ti_scriptSig ti)\<rparr>) = serialize_tx_in b ti" for b ti
    by (simp add: serialize_tx_in_def serialize_bytes_fill)
  moreover have "serialize_tx_out b (tout\<lparr>to_scriptPubKey := fill (to_scriptLength tout) (to_scriptPubKey tout)\<rparr>) = serialize_tx_out b tout" for b tout
    by (simp add: serialize_tx_out_def serialize_bytes_fill)
  ultimately show ?thesis by (simp add: serialize_tx_def fill_tx_def write_array_relabel)
qed

definition cut :: "u64 \<Rightarrow> memory \<Rightarrow> memory" where
  "cut n m = (if 0 < n then map_option (take (unat n)) m else None)"

lemma script_dup_cut: "n = 0 \<or> (\<exists>s. m = Some s \<and> unat n \<le> length s) \<Longrightarrow> script_dup n m = Some (cut n m)"
  by (auto simp: script_dup_def cut_def mem_read_def)

lemma tx_dup_ok:
  assumes "signable tx idx"
  shows "btc_msg_tx_dup tx = Some (tx\<lparr>tx_tx_in := map (\<lambda>ti. ti\<lparr>ti_scriptSig := cut (ti_scriptLength ti) (ti_scriptSig ti)\<rparr>) (tx_tx_in tx),
     tx_tx_out := map (\<lambda>tout. tout\<lparr>to_scriptPubKey := cut (to_scriptLength tout) (to_scriptPubKey tout)\<rparr>) (tx_tx_out tx)\<rparr>)"
proof -
  have n: "unat (tx_in_count tx) = length (tx_tx_in tx)" "unat (tx_out_count tx) = length (tx_tx_out tx)"
    using assms by (auto simp: signable_def unat_of_nat_small)
  have i: "script_dup (ti_scriptLength ti) (ti_scriptSig ti) = Some (cut (ti_scriptLength ti) (ti_scriptSig ti))"
    if "ti \<in> set (tx_tx_in tx)" for ti
    using assms that by (intro script_dup_cut) (auto simp: signable_def)
  have o: "script_dup (to_scriptLength ti) (to_scriptPubKey ti) = Some (cut (to_scriptLength ti) (to_scriptPubKey ti))"
    if "ti \<in> set (tx_tx_out tx)" for ti
    using assms that by (intro script_dup_cut) (auto simp: signable_def list_all_iff ok_tx_out_def split: option.splits)
  show ?thesis
    by (simp add: btc_msg_tx_dup_def n i o those_map [where g = "\<lambda>ti. ti\<lparr>ti_scriptSig := cut (ti_scriptLength ti) (ti_scriptSig ti)\<rparr>"]
        those_map [where g = "\<lambda>ti. ti\<lparr>to_scriptPubKey := cut (to_scriptLength ti) (to_scriptPubKey ti)\<rparr>"])
qed

lemma fill_cut_out: "ok_tx_out tout \<Longrightarrow> tout\<lparr>to_scriptPubKey := fill (to_scriptLength tout) (cut (to_scriptLength tout) (to_scriptPubKey tout))\<rparr> = tout"
  by (cases tout) (auto simp: ok_tx_out_def fill_def cut_def word_gt_0 split: option.splits)

lemma unat_ucast_u32: "unat (ucast (i :: u32) :: u64) = unat i"
  using unsigned_less [of i, where ?'a = nat] by (simp add: unsigned_ucast_eq take_bit_nat_eq_self)

lemma signable_idx: "signable tx (unat idx) \<Longrightarrow> ucast (idx :: u32) < tx_in_count tx"
  by (simp add: word_less_nat_alt unat_ucast_u32 signable_def unat_of_nat_small)

lemma sighash_ok:
  assumes "signable tx (unat idx)" and "script \<noteq> []" and "length script < 2 ^ 32"
    and "length (enc_tx (sighash_tx tx (unat idx) script)) < 2 ^ 59"
  shows "script_tx_sighash sha (buff_init (Some script) (of_nat (length script))) tx idx SIGHASH_ALL =
    Some (hash256_calc sha (enc_tx (sighash_tx tx (unat idx) script) @ le_bytes SIGHASH_ALL))"
proof -
  let ?i = "unat idx" and ?s = "sighash_tx tx (unat idx) script"
  have lt: "?i < length (tx_tx_in tx)" using assms(1) by (simp add: signable_def)
  note idx = signable_idx [OF assms(1)]
  have len: "unat (of_nat (length script) :: u64) = length script" using assms(3) by (simp add: unat_of_nat_small)
  have pos: "(0 :: u64) < of_nat (length script)" using assms(2) len by (simp add: word_less_nat_alt)
  define ins where "ins = map (\<lambda>ti. ti\<lparr>ti_scriptLength := 0, ti_scriptSig := cut (ti_scriptLength ti) (ti_scriptSig ti)\<rparr>) (tx_tx_in tx)"
  define tx2 where "tx2 = tx\<lparr>tx_tx_in := ins[?i := (ins ! ?i)\<lparr>ti_scriptLength := of_nat (length script), ti_scriptSig := Some script\<rparr>],
     tx_tx_out := map (\<lambda>tout. tout\<lparr>to_scriptPubKey := cut (to_scriptLength tout) (to_scriptPubKey tout)\<rparr>) (tx_tx_out tx)\<rparr>"
  have null: "ti_scriptSig (ins ! ?i) = None" "ti_scriptLength (ins ! ?i) = 0"
    using assms(1) lt by (simp_all add: ins_def signable_def cut_def)
  have dup: "btc_msg_tx_dup tx = Some (tx\<lparr>tx_tx_in := map (\<lambda>ti. ti\<lparr>ti_scriptSig := cut (ti_scriptLength ti) (ti_scriptSig ti)\<rparr>) (tx_tx_in tx),
     tx_tx_out := tx_tx_out tx2\<rparr>)"
    unfolding tx2_def using tx_dup_ok [OF assms(1)] by simp
  have fill: "fill_tx tx2 = ?s"
  proof -
    have "map (\<lambda>tout. tout\<lparr>to_scriptPubKey := fill (to_scriptLength tout) (cut (to_scriptLength tout) (to_scriptPubKey tout))\<rparr>) (tx_tx_out tx) = tx_tx_out tx"
      using assms(1) by (intro map_idI fill_cut_out) (auto simp: signable_def list_all_iff)
    then show ?thesis
      using lt len assms(2) by (simp add: fill_tx_def tx2_def sighash_tx_def ins_def map_update comp_def fill_def [of 0]) (auto simp: fill_def)
  qed
  have ok: "ok_tx ?s"
    using assms(1,3) lt len unfolding ok_tx_def signable_def
    by (auto simp: sighash_tx_def ok_varint_iff unat_of_nat_small list_all_iff ok_tx_in_def in_set_conv_nth nth_list_update)
  obtain b1 where b1: "serialize_tx buff_alloc tx2 = Some (False, b1)" "buff_growing b1" "buff_data b1 = enc_tx ?s"
    using serialize_tx_appends [OF ok, of buff_alloc] assms(4) serialize_fill_tx [of buff_alloc tx2]
    by (auto simp: fill elim: appendsE)
  obtain b2 where b2: "serialize_uint32 b1 SIGHASH_ALL = Some (False, b2)" "buff_growing b2"
    "buff_data b2 = enc_tx ?s @ le_bytes SIGHASH_ALL"
    using serialize_uint_appends(3) [OF b1(2), of SIGHASH_ALL] b1(3) assms(4) by (auto elim: appendsE)
  have rd: "mem_read (buff_base (Some b2)) 0 (unat (buff_curlen (Some b2))) = Some (buff_data b2)"
    using b2(2) by (auto simp: buff_growing_def buff_wf_def mem_read_def buff_base_def buff_curlen_def buff_data_def buff_bytes_def)
  define txd where "txd = tx\<lparr>tx_tx_in := map (\<lambda>ti. ti\<lparr>ti_scriptSig := cut (ti_scriptLength ti) (ti_scriptSig ti)\<rparr>) (tx_tx_in tx),
     tx_tx_out := tx_tx_out tx2\<rparr>"
  have ins: "map (\<lambda>ti. ti\<lparr>ti_scriptLength := 0\<rparr>) (tx_tx_in txd) = ins" by (simp add: txd_def ins_def)
  have tx2: "txd\<lparr>tx_tx_in := ins[?i := (ins ! ?i)\<lparr>ti_scriptLength := of_nat (length script), ti_scriptSig := Some script\<rparr>]\<rparr> = tx2"
    by (simp add: txd_def tx2_def)
  have "(SIGHASH_ALL AND 0x1f :: u32) = SIGHASH_ALL" by (simp add: SIGHASH_ALL_def)
  moreover have "mem_read (Some script) 0 (length script) = Some script" by (simp add: mem_read_def)
  ultimately show ?thesis
    using idx pos null b1(1) b2(1,3) rd len
    by (simp add: script_tx_sighash_def dup [folded txd_def] Let_def ins tx2 buff_init_def buff_maxlen_def buff_base_def)
qed

lemma sign_runs:
  assumes "signable tx (unat idx)" and "length (enc_tx (sighash_tx tx (unat idx) (p2pkh_script h))) < 2 ^ 59"
    and txo: "to_scriptPubKey txo = Some (p2pkh_script h)" "to_scriptLength txo = 25"
    and key: "lookup h = Some (Some k)" "k_pub_key k = Some pub" "length pub \<le> 65"
    and sig: "key_sign ec k (le_bytes (hash256_calc sha (enc_tx (sighash_tx tx (unat idx) (p2pkh_script h)) @ le_bytes SIGHASH_ALL))) = Some (Some sig)"
      "key_verify ec k (le_bytes (hash256_calc sha (enc_tx (sighash_tx tx (unat idx) (p2pkh_script h)) @ le_bytes SIGHASH_ALL))) sig"
      "length sig < 2 ^ 16"
  shows "\<exists>script n. script_sign ec sha lookup txo tx idx SIGHASH_ALL = Some (False,
      tx\<lparr>tx_tx_in := (tx_tx_in tx)[unat idx := (tx_tx_in tx ! unat idx)\<lparr>ti_scriptLength := n, ti_scriptSig := Some script\<rparr>]\<rparr>) \<and>
    take (unat n) script = push (sig @ [1]) @ push pub \<and> unat n \<le> length script"
proof -
  let ?H = "hash256_calc sha (enc_tx (sighash_tx tx (unat idx) (p2pkh_script h)) @ le_bytes SIGHASH_ALL)"
  have "script_tx_sighash sha (buff_init (Some (p2pkh_script h)) (of_nat (length (p2pkh_script h)))) tx idx SIGHASH_ALL = Some ?H"
    using assms(1,2) length_p2pkh_script [of h] by (intro sighash_ok) (auto simp del: length_p2pkh_script)
  then have H: "script_tx_sighash sha (buff_init (Some (p2pkh_script h)) 25) tx idx SIGHASH_ALL = Some ?H" by simp
  have m: "script_match_type (buff_init (Some (p2pkh_script h)) 25) = Some (False, TX_PUBKEYHASH, Some (le_bytes h), 20)"
    using match_type_eq [of "p2pkh_script h"] p2pkh_is [of h] by (simp add: ops_of_p2pkh)
  have one: "ucast SIGHASH_ALL = (1 :: byte)" by (simp add: SIGHASH_ALL_def)
  obtain b1 where b1: "script_push_data buff_alloc (sig @ [1]) (of_nat (length sig) + 1) = Some b1" "buff_growing b1" "buff_data b1 = push (sig @ [1])"
    using push_data_ok [of buff_alloc "sig @ [1]"] sig(3) by (auto simp: add.commute)
  have l1: "length (buff_data b1) < 2 ^ 32" using sig(3) by (simp add: b1(3) push_def Let_def)
  obtain b2 where b2: "script_push_data b1 pub (of_nat (length pub)) = Some b2" "buff_growing b2" "buff_data b2 = push (sig @ [1]) @ push pub"
    using push_data_ok [OF b1(2) _ l1, of pub] key(3) b1(3) by auto
  obtain s where s: "buf_base b2 = Some s" using b2(2) by (auto simp: buff_growing_def buff_wf_def)
  note cnt = signable_idx [OF assms(1)]
  have "script_sign_hash ec lookup h ?H SIGHASH_ALL buff_alloc = Some (False, b1)"
    by (simp add: script_sign_hash_def key sig one b1(1))
  moreover have "script_push_pubkey lookup h b1 = Some (False, b2)"
    by (simp add: script_push_pubkey_def key key_get_pubkey_def b2(1))
  moreover have "mem_read (Some (le_bytes h)) 0 20 = Some (le_bytes h)" by (simp add: mem_read_def)
  ultimately have "script_sign ec sha lookup txo tx idx SIGHASH_ALL = Some (False,
      tx\<lparr>tx_tx_in := (tx_tx_in tx)[unat idx := (tx_tx_in tx ! unat idx)\<lparr>ti_scriptLength := buf_idx b2, ti_scriptSig := Some s\<rparr>]\<rparr>)"
    by (simp add: script_sign_def txo H m cnt buff_curlen_def buff_base_def s)
  moreover have "take (unat (buf_idx b2)) s = push (sig @ [1]) @ push pub"
    using b2(3) s by (simp add: buff_data_def buff_bytes_def)
  moreover have "unat (buf_idx b2) \<le> length s" using b2(2) s by (simp add: buff_growing_def buff_wf_def buff_bytes_def)
  ultimately show ?thesis by blast
qed

text \<open>C8: signing for an output that pays to the hash of a known key puts the signature of the
  transaction's hash and the public key into the input, and changes nothing else.\<close>

theorem script_sign_ok:
  assumes "signable tx (unat idx)" and "length (enc_tx (sighash_tx tx (unat idx) (p2pkh_script h))) < 2 ^ 59"
    and txo: "to_scriptPubKey txo = Some (p2pkh_script h)" "to_scriptLength txo = 25"
    and key: "lookup h = Some (Some k)" "k_pub_key k = Some pub" "length pub \<le> 65"
    and sig: "key_sign ec k (le_bytes (hash256_calc sha (enc_tx (sighash_tx tx (unat idx) (p2pkh_script h)) @ le_bytes SIGHASH_ALL))) = Some (Some sig)"
      "key_verify ec k (le_bytes (hash256_calc sha (enc_tx (sighash_tx tx (unat idx) (p2pkh_script h)) @ le_bytes SIGHASH_ALL))) sig"
      "length sig < 2 ^ 16"
  shows "\<exists>script n. script_sign ec sha lookup txo tx idx SIGHASH_ALL = Some (False,
      tx\<lparr>tx_tx_in := (tx_tx_in tx)[unat idx := (tx_tx_in tx ! unat idx)\<lparr>ti_scriptLength := n, ti_scriptSig := Some script\<rparr>]\<rparr>) \<and>
    take (unat n) script = push (sig @ [1]) @ push pub"
  using sign_runs [of tx idx h txo lookup k pub ec sha sig] assms by blast

section \<open>Examples\<close>

theorem parse_pubkey_hash_correct_witness:
  "script_parse_pubkey_hash (\<lambda>_. 7) (Some [0x51]) 1 = Some (True, 0)"
  using parse_pubkey_hash_correct [of "[0x51]" "\<lambda>_. 7"] by (simp add: ops_of.simps(2) opcodes pays_to_def is_p2pk_def is_p2pkh_def)

theorem output_script_stops_iff_witness:
  "script_parse_pubkey_hash (\<lambda>_. 7) (Some [0x76, 0]) 2 = None"
proof -
  have "runs_into_end [0x76, 0]"
    by (rule skip [of _ 1 0]) (simp_all add: opcodes bare [of _ 0])
  then show ?thesis using output_script_stops_iff [of "[0x76, 0]" "\<lambda>_. 7"] by simp
qed

theorem pubkey_output_not_signed_witness:
  "script_sign nat_ec (\<lambda>_. 7) (\<lambda>_. None)
     \<lparr>to_value = 1, to_scriptLength = 35, to_scriptPubKey = Some (p2pk_script (replicate 33 2))\<rparr> sample_tx 0 SIGHASH_ALL = None"
proof -
  have "length (p2pk_script (replicate 33 2)) = 35" by (simp add: p2pk_script_def push_def)
  then show ?thesis
    using pubkey_output_not_signed [OF _ _ refl, of "replicate 33 2" "\<lambda>_. 7" 1 nat_ec "\<lambda>_. None" sample_tx 0 SIGHASH_ALL] by simp
qed

definition unsigned_tx :: btc_msg_tx where
  "unsigned_tx = \<lparr>tx_in_count = 1, tx_tx_in = [\<lparr>ti_prevTxHash = 7, ti_prevTxOutIdx = 0, ti_scriptLength = 0, ti_scriptSig = None, ti_sequence = 0\<rparr>],
     tx_out_count = 0, tx_tx_out = [], tx_version = 1, tx_lock_time = 0\<rparr>"

theorem script_sign_ok_witness:
  "\<exists>script n. script_sign nat_ec (\<lambda>_. 7) (\<lambda>_. Some (Some \<lparr>k_pkey = Some 5, k_pub_key = Some (replicate 33 2)\<rparr>))
      \<lparr>to_value = 1, to_scriptLength = 25, to_scriptPubKey = Some (p2pkh_script 9)\<rparr> unsigned_tx 0 SIGHASH_ALL =
    Some (False, unsigned_tx\<lparr>tx_tx_in := [(tx_tx_in unsigned_tx ! 0)\<lparr>ti_scriptLength := n, ti_scriptSig := Some script\<rparr>]\<rparr>) \<and>
    take (unat n) script = push (le_bytes (7 :: uint256) @ [1]) @ push (replicate 33 2)"
proof -
  let ?k = "\<lparr>k_pkey = Some 5, k_pub_key = Some (replicate 33 2)\<rparr>"
  have "signable unsigned_tx (unat (0 :: u32))" by (simp add: signable_def unsigned_tx_def)
  moreover have "length (enc_tx (sighash_tx unsigned_tx (unat (0 :: u32)) (p2pkh_script 9))) < 2 ^ 59"
    using length_enc_varint by (simp add: enc_tx_def sighash_tx_def unsigned_tx_def enc_tx_in_def enc_varint_def)
  moreover have "key_sign nat_ec ?k d = Some (Some d)" "key_verify nat_ec ?k d d" if "length d = 32" for d
    using that by (simp_all add: key_sign_def key_verify_def nat_ec_def)
  ultimately show ?thesis
    using script_sign_ok [of unsigned_tx 0 9 "\<lparr>to_value = 1, to_scriptLength = 25, to_scriptPubKey = Some (p2pkh_script 9)\<rparr>"
        "\<lambda>_. Some (Some ?k)" ?k "replicate 33 2" nat_ec "\<lambda>_. 7" "le_bytes (7 :: uint256)"]
    by (simp add: hash256_calc_def sha256_calc_def unsigned_tx_def Let_def)
qed

end
