(* ===== verification/Wallet.thy ===== *)
theory Wallet
  imports Hashtable Config Crypt Script
begin

text \<open>
  The wallet of \<^verbatim>\<open>src/core/wallet.c\<close>: its keys, their protection by a passphrase, the file they are
  kept in, and the scripts that block filters are matched against.

  The table of keys is the table of the theory \<open>Hashtable\<close>, keyed by the bytes of the key hash. The
  primitives of OpenSSL are collected in a record. \<open>btc->wallet_state\<close>, which every caller passes as
  the state to set, is a component of the wallet. The parts that spend coins are in \<open>Txdb\<close>.
\<close>

record ('bn, 'b, 'pt, 'pk) openssl =
  o_bn :: "'bn bn_ops"
  o_ec :: "('b, 'pt, 'pk) ec_ops"
  o_sha :: "byte list \<Rightarrow> uint256"
  o_encrypt :: evp_cipher
  o_decrypt :: evp_cipher
  o_kdf :: bytes_to_key

datatype wallet_state = WALLET_UNKNOWN | WALLET_PLAIN | WALLET_ENCRYPTED_LOCKED | WALLET_ENCRYPTED_UNLOCKED

record 'pk wallet_key =
  wk_key :: "'pk key option"
  wk_birth :: int
  wk_desc :: "string option"
  wk_btc_addr :: "string option"
  wk_pub_key :: uint160
  wk_cfg_idx :: u32
  wk_spendable :: bool

text \<open>The cache of filter scripts is \<^const>\<open>None\<close> when it is not valid; the lengths of the scripts are
  those of the lists.\<close>

record 'pk wallet =
  w_state :: wallet_state
  w_hash_keys :: "'pk wallet_key hashtable"
  w_balance :: u64
  w_pass :: "byte list option"
  w_ckey :: crypt_key
  w_filterScripts :: "byte list list option"

section \<open>Strings\<close>

definition bytes_of :: "string \<Rightarrow> byte list" where
  "bytes_of s = map (\<lambda>c. of_nat (of_char c)) s"

definition string_of :: "byte list \<Rightarrow> string" where
  "string_of bs = map (\<lambda>b. char_of (unat b)) (takeWhile (\<lambda>b. b \<noteq> 0) bs)"

text \<open>\<open>sscanf (str + i * 2, "%02x", &x)\<close>, which skips white space first and leaves \<open>x\<close> without a value
  when nothing matches.\<close>

definition scan_byte :: "string \<Rightarrow> byte option" where
  "scan_byte s = do {
     x \<leftarrow> (case take 2 (dropWhile isspace s) of [c] \<Rightarrow> map_option of_nat (hex_value c) | t \<Rightarrow> sscanf_02x t);
     ASSERT (x \<le> 255);
     Some (ucast x)
   }"

definition str_to_bytes :: "string option \<Rightarrow> byte list option" where
  "str_to_bytes str = (case str of None \<Rightarrow> Some []
     | Some s \<Rightarrow> those (map (\<lambda>i. scan_byte (drop (i * 2) s)) [0..<length s div 2]))"

section \<open>Encrypted keys\<close>

definition wallet_hmac_string :: "(byte list \<Rightarrow> uint256) \<Rightarrow> byte list \<Rightarrow> byte list \<Rightarrow> string option" where
  "wallet_hmac_string sha privkey passphrase = do {
     hmac \<leftarrow> crypt_hmac_sha256 sha privkey passphrase;
     str_snprintf_bytes 128 None (le_bytes hmac)
   }"

text \<open>\<open>lock\<close>: whether the memory for the text could be locked.\<close>

definition wallet_encrypt_string ::
  "('bn, 'b, 'pt, 'pk) openssl \<Rightarrow> bool \<Rightarrow> 'pk wallet \<Rightarrow> string \<Rightarrow> crypt_key \<Rightarrow> string option" where
  "wallet_encrypt_string ssl lock wallet plaintext ckey = do {
     _ \<leftarrow> secure_alloc lock (length plaintext + 1);
     let sec = bytes_of plaintext @ [0];
     cipher \<leftarrow> crypt_encrypt (o_encrypt ssl) ckey sec;
     cipher \<leftarrow> cipher;
     cipherStr \<leftarrow> str_snprintf_bytes 1024 None cipher;
     pass \<leftarrow> w_pass wallet;
     hmac \<leftarrow> wallet_hmac_string (o_sha ssl) cipher pass;
     Some (cipherStr @ ''-'' @ hmac)
   }"

text \<open>The encrypted key when the code that follows it is the right one.\<close>

definition wallet_verify_hmac ::
  "(byte list \<Rightarrow> uint256) \<Rightarrow> 'pk wallet \<Rightarrow> string \<Rightarrow> byte list option option" where
  "wallet_verify_hmac sha wallet privStr =
     (let len = length privStr in
      if len < 65 then Some None
      else do {
        let macStr = drop (len - 64) privStr;
        ASSERT (privStr ! (len - 65) = CHR ''-'');
        let keyStr = take (len - 65) privStr;
        hash \<leftarrow> str_to_bytes (Some macStr);
        key \<leftarrow> str_to_bytes (Some keyStr);
        ASSERT (length hash = 32);
        pass \<leftarrow> w_pass wallet;
        mac \<leftarrow> crypt_hmac_sha256 sha key pass;
        Some (if le_bytes mac = hash then Some key else None)
      })"

section \<open>Adding keys\<close>

definition wallet_invalidate_filter_scripts :: "'pk wallet \<Rightarrow> 'pk wallet" where
  "wallet_invalidate_filter_scripts wallet = wallet\<lparr>w_filterScripts := None\<rparr>"

text \<open>The bytes of the private key, if it is known, and otherwise the hash of the public key.
  \<open>type0\<close> is what an uninitialised byte holds.\<close>

definition wallet_key_bytes ::
  "('bn, 'b, 'pt, 'pk) openssl \<Rightarrow> bool \<Rightarrow> byte \<Rightarrow> 'pk wallet \<Rightarrow> string \<Rightarrow> string option \<Rightarrow>
    (byte list option \<times> uint160) option option" where
  "wallet_key_bytes ssl lock type0 wallet priv pub =
     (let decode = (\<lambda>s. do {
           (buf, len) \<leftarrow> b58_privkey_to_bytes (o_bn ssl) (o_sha ssl) type0 s;
           ASSERT (buf \<noteq> None);
           buf \<leftarrow> mem_read buf 0 len;
           Some (Some (Some buf, 0 :: uint160))
         })
      in if w_state wallet = WALLET_ENCRYPTED_LOCKED
      then (if w_pass wallet \<noteq> None then do {
              key \<leftarrow> wallet_verify_hmac (o_sha ssl) wallet priv;
              case key of None \<Rightarrow> Some None
              | Some encPrivKey \<Rightarrow> do {
                  sec \<leftarrow> crypt_decrypt (o_decrypt ssl) lock (w_ckey wallet) encPrivKey;
                  sec \<leftarrow> sec;
                  ASSERT (0 \<in> set sec);
                  decode (string_of sec)
                }
            }
            else do {
              pkey \<leftarrow> str_to_bytes pub;
              Some (Some (None, hash160_calc (o_sha ssl) pkey))
            })
      else decode priv)"

definition wallet_alloc_key ::
  "('bn, 'b, 'pt, 'pk) openssl \<Rightarrow> bool \<Rightarrow> byte \<Rightarrow> 'pk wallet \<Rightarrow> string option \<Rightarrow> string option \<Rightarrow> string option \<Rightarrow>
    int \<Rightarrow> bool \<Rightarrow> (bool \<times> 'pk wallet) option" where
  "wallet_alloc_key ssl lock type0 wallet priv pub desc birth spendable = do {
     priv \<leftarrow> priv;
     r \<leftarrow> wallet_key_bytes ssl lock type0 wallet priv pub;
     case r of None \<Rightarrow> Some (False, wallet)
     | Some (buf, pub_key) \<Rightarrow> do {
         (key, pub_key) \<leftarrow> (case buf of None \<Rightarrow> Some (None, pub_key)
           | Some buf \<Rightarrow> do {
               (_, key) \<leftarrow> key_set_privkey (o_ec ssl) key_alloc buf;
               pub_key \<leftarrow> key_get_pubkey_hash160 (o_sha ssl) key;
               Some (Some key, pub_key)
             });
         ASSERT (pub_key \<noteq> 0);
         btc_addr \<leftarrow> b58_pubkey_from_uint160 (o_bn ssl) (o_sha ssl) pub_key;
         let wkey = \<lparr>wk_key = key, wk_birth = birth, wk_desc = desc, wk_btc_addr = btc_addr, wk_pub_key = pub_key,
             wk_cfg_idx = hashtable_getnumentries (w_hash_keys wallet), wk_spendable = spendable\<rparr>;
         (s, hash_keys) \<leftarrow> hashtable_insert (w_hash_keys wallet) (le_bytes pub_key) wkey;
         ASSERT s;
         Some (True, wallet_invalidate_filter_scripts (wallet\<lparr>w_hash_keys := hash_keys\<rparr>))
       }
   }"

section \<open>Looking keys up\<close>

definition wallet_lookup_pubkey :: "'pk wallet \<Rightarrow> uint160 \<Rightarrow> 'pk key option option" where
  "wallet_lookup_pubkey wallet pub_key = do {
     r \<leftarrow> hashtable_lookup (w_hash_keys wallet) (le_bytes pub_key);
     case r of None \<Rightarrow> Some None
     | Some wkey \<Rightarrow> do { ASSERT (wk_key wkey \<noteq> None); Some (wk_key wkey) }
   }"

definition wallet_is_pubkey_spendable :: "'pk wallet \<Rightarrow> uint160 \<Rightarrow> bool option" where
  "wallet_is_pubkey_spendable wallet pub_key = do {
     r \<leftarrow> hashtable_lookup (w_hash_keys wallet) (le_bytes pub_key);
     wkey \<leftarrow> r;
     Some (wk_spendable wkey)
   }"

definition wallet_is_pubkey_hash160_mine :: "'pk wallet \<Rightarrow> uint160 \<Rightarrow> bool option" where
  "wallet_is_pubkey_hash160_mine wallet pub_key =
     map_option (\<lambda>r. r \<noteq> None) (hashtable_lookup (w_hash_keys wallet) (le_bytes pub_key))"

text \<open>The oldest key's birth, twelve hours earlier; births are compared as unsigned numbers.\<close>

definition wallet_get_birth :: "u64 \<Rightarrow> 'pk wallet \<Rightarrow> u64 option" where
  "wallet_get_birth now wallet = do {
     birth \<leftarrow> hashtable_for_each (w_hash_keys wallet) (\<lambda>_ wkey birth. Some (min birth (of_int (wk_birth wkey))))
                (now + 100 * 365 * 24 * 60 * 60);
     Some (birth - 12 * 60 * 60)
   }"

definition wallet_find_key_by_idx :: "'pk wallet \<Rightarrow> u32 \<Rightarrow> 'pk wallet_key option option" where
  "wallet_find_key_by_idx wallet idx =
     hashtable_for_each (w_hash_keys wallet) (\<lambda>_ wkey data. Some (if wk_cfg_idx wkey = idx then Some wkey else data)) None"

definition wallet_get_change_addr :: "'pk wallet \<Rightarrow> string option option" where
  "wallet_get_change_addr wallet = do {
     wkey \<leftarrow> wallet_find_key_by_idx wallet 0;
     wkey \<leftarrow> wkey;
     Some (wk_btc_addr wkey)
   }"

section \<open>Filter scripts\<close>

definition wallet_get_filter_scripts_cb :: "byte list \<Rightarrow> 'pk wallet_key \<Rightarrow> byte list list \<Rightarrow> byte list list option" where
  "wallet_get_filter_scripts_cb key wkey ctx = Some (ctx @ [[0x76, 0xa9, 0x14] @ le_bytes (wk_pub_key wkey) @ [0x88, 0xac]])"

definition wallet_get_filter_scripts :: "'pk wallet \<Rightarrow> (byte list list \<times> 'pk wallet) option" where
  "wallet_get_filter_scripts wallet = (case w_filterScripts wallet of
       Some scripts \<Rightarrow> Some (scripts, wallet)
     | None \<Rightarrow> do {
         scripts \<leftarrow> hashtable_for_each (w_hash_keys wallet) wallet_get_filter_scripts_cb [];
         Some (scripts, wallet\<lparr>w_filterScripts := Some scripts\<rparr>)
       })"

section \<open>The wallet file\<close>

definition cfg_key :: "u32 \<Rightarrow> string \<Rightarrow> string" where
  "cfg_key idx name = ''key'' @ print_nat (unat idx) @ ''.'' @ name"

text \<open>A key whose private part is not in memory cannot be saved: \<open>key_get_privkey\<close> reads through the
  null pointer.\<close>

definition wallet_save_key_cb ::
  "('bn, 'b, 'pt, 'pk) openssl \<Rightarrow> bool \<Rightarrow> 'pk wallet \<Rightarrow> byte list \<Rightarrow> 'pk wallet_key \<Rightarrow> config \<Rightarrow> config option" where
  "wallet_save_key_cb ssl lock wallet key wkey wcfg = do {
     privkey \<leftarrow> key_get_privkey (o_ec ssl) (wk_key wkey);
     privkey \<leftarrow> privkey;
     pubkey \<leftarrow> key_get_pubkey (wk_key wkey);
     privStr \<leftarrow> b58_bytes_to_privkey (o_bn ssl) (o_sha ssl) privkey;
     pubStr \<leftarrow> str_snprintf_bytes 256 None pubkey;
     let idx = wk_cfg_idx wkey;
     wcfg \<leftarrow> config_setint64 wcfg (wk_birth wkey) (cfg_key idx ''birth'');
     wcfg \<leftarrow> config_setstring wcfg (wk_desc wkey) (cfg_key idx ''desc'');
     wcfg \<leftarrow> config_setstring wcfg (Some pubStr) (cfg_key idx ''pubkey'');
     wcfg \<leftarrow> config_setbool wcfg (wk_spendable wkey) (cfg_key idx ''spendable'');
     privStr \<leftarrow> (if w_pass wallet \<noteq> None then do {
         s \<leftarrow> privStr;
         enc \<leftarrow> wallet_encrypt_string ssl lock wallet s (w_ckey wallet);
         Some (Some enc)
       } else Some privStr);
     config_setstring wcfg privStr (cfg_key idx ''privkey'')
   }"

text \<open>What the system does: the random salt if there is one, the times of the three rounds that
  choose the number of iterations, whether the new file could be created and its mode set, and the
  outcomes of writing it.\<close>

record save_env =
  se_salt :: "byte list option"
  se_times :: "int \<times> int \<times> int"
  se_lock :: bool
  se_create :: bool
  se_chmod :: bool
  se_open :: bool
  se_truncate :: bool
  se_pwrite :: "nat \<Rightarrow> bool \<times> nat"

text \<open>The code, the content written, if the file could be written, and the wallet.\<close>

definition wallet_save_keys ::
  "('bn, 'b, 'pt, 'pk) openssl \<Rightarrow> save_env \<Rightarrow> string \<Rightarrow> 'pk wallet \<Rightarrow> (bool \<times> string option \<times> 'pk wallet) option" where
  "wallet_save_keys ssl env filename wallet = do {
     let n = hashtable_getnumentries (w_hash_keys wallet);
     cfg \<leftarrow> config_setint64 config_create (sint n) ''numKeys'';
     r \<leftarrow> (case w_pass wallet of None \<Rightarrow> Some (Some (cfg, wallet))
       | Some pass \<Rightarrow> (case se_salt env of None \<Rightarrow> Some None
         | Some salt \<Rightarrow> do {
             let ckey = (w_ckey wallet)\<lparr>ck_salt := salt\<rparr>;
             saltStr \<leftarrow> str_snprintf_bytes 80 None salt;
             cfg \<leftarrow> config_setstring cfg (Some saltStr) ''encryption.salt'';
             (s, ckey, iters) \<leftarrow> crypt_set_key_from_passphrase (o_kdf ssl) (se_times env) pass ckey 0;
             ASSERT s;
             ASSERT (CRYPT_NUM_ITERATIONS_OLD \<le> iters);
             cfg \<leftarrow> config_setint64 cfg iters ''encryption.numIterations'';
             Some (Some (cfg, wallet\<lparr>w_ckey := ckey\<rparr>))
           }));
     case r of None \<Rightarrow> Some (True, None, wallet)
     | Some (cfg, wallet) \<Rightarrow> do {
         cfg \<leftarrow> hashtable_for_each (w_hash_keys wallet) (wallet_save_key_cb ssl (se_lock env) wallet) cfg;
         if \<not> se_create env \<or> \<not> se_chmod env then Some (True, None, wallet)
         else do {
           (res, file, _) \<leftarrow> config_write (se_open env) (se_truncate env) (se_pwrite env) cfg (Some filename);
           Some (res, file, wallet)
         }
       }
   }"

definition wallet_crypt_init ::
  "('bn, 'b, 'pt, 'pk) openssl \<Rightarrow> 'pk wallet \<Rightarrow> string option \<Rightarrow> int \<Rightarrow> 'pk wallet option" where
  "wallet_crypt_init ssl wallet saltStr iters = (case (saltStr, w_pass wallet) of
       (Some saltStr, Some pass) \<Rightarrow> do {
         salt \<leftarrow> str_to_bytes (Some saltStr);
         ASSERT (length salt = 8);
         (s, ckey, count0) \<leftarrow> crypt_set_key_from_passphrase (o_kdf ssl) (0, 0, 0) pass ((w_ckey wallet)\<lparr>ck_salt := salt\<rparr>) iters;
         ASSERT s;
         ASSERT (iters = count0);
         Some (wallet\<lparr>w_ckey := ckey\<rparr>)
       }
     | _ \<Rightarrow> Some wallet)"

text \<open>The loop over the keys from \<open>i\<close>; false at the first that cannot be loaded.\<close>

fun load_keys_loop ::
  "('bn, 'b, 'pt, 'pk) openssl \<Rightarrow> bool \<Rightarrow> byte \<Rightarrow> u32 list \<Rightarrow> config \<Rightarrow> 'pk wallet \<Rightarrow> (bool \<times> 'pk wallet) option" where
  "load_keys_loop ssl lock type0 [] cfg wallet = Some (True, wallet)"
| "load_keys_loop ssl lock type0 (i # is) cfg wallet = do {
     (birth, cfg) \<leftarrow> config_getint64 cfg 0 (cfg_key i ''birth'');
     (desc, cfg) \<leftarrow> config_getstring cfg None (cfg_key i ''desc'');
     (priv, cfg) \<leftarrow> config_getstring cfg None (cfg_key i ''privkey'');
     (pub, cfg) \<leftarrow> config_getstring cfg None (cfg_key i ''pubkey'');
     (spendable, cfg) \<leftarrow> config_getbool cfg True (cfg_key i ''spendable'');
     (s, wallet) \<leftarrow> wallet_alloc_key ssl lock type0 wallet priv pub desc birth spendable;
     if \<not> s then Some (False, wallet) else load_keys_loop ssl lock type0 is cfg wallet
   }"

definition wallet_load_keys ::
  "('bn, 'b, 'pt, 'pk) openssl \<Rightarrow> bool \<Rightarrow> byte \<Rightarrow> 'pk wallet \<Rightarrow> config \<Rightarrow> (bool \<times> 'pk wallet) option" where
  "wallet_load_keys ssl lock type0 wallet cfg = do {
     (n, cfg) \<leftarrow> config_getint64 cfg 0 ''numKeys'';
     (saltStr, cfg) \<leftarrow> config_getstring cfg None ''encryption.salt'';
     (iters, cfg) \<leftarrow> config_getint64 cfg CRYPT_NUM_ITERATIONS_OLD ''encryption.numIterations'';
     let wallet = wallet\<lparr>w_state := (if saltStr = None then WALLET_PLAIN else WALLET_ENCRYPTED_LOCKED)\<rparr>;
     wallet \<leftarrow> wallet_crypt_init ssl wallet saltStr iters;
     (s, wallet) \<leftarrow> load_keys_loop ssl lock type0 (map of_nat [0..<nat (to_int n)]) cfg wallet;
     if \<not> s then Some (True, wallet)
     else Some (False, if w_pass wallet \<noteq> None \<and> w_state wallet = WALLET_ENCRYPTED_LOCKED
                       then wallet\<lparr>w_state := WALLET_ENCRYPTED_UNLOCKED\<rparr> else wallet)
   }"

text \<open>\<open>file\<close> is the wallet file: \<^const>\<open>None\<close> if there is none, otherwise what reading it gives.\<close>

definition wallet_open_file ::
  "('bn, 'b, 'pt, 'pk) openssl \<Rightarrow> bool \<Rightarrow> byte \<Rightarrow> string option option \<Rightarrow> string \<Rightarrow> byte list option \<Rightarrow> 'pk wallet option option" where
  "wallet_open_file ssl lock type0 file filename pass = do {
     keys \<leftarrow> hashtable_create;
     ASSERT lock;
     let ckey = \<lparr>ck_key = replicate 32 0, ck_iv = replicate 32 0, ck_salt = replicate 8 0\<rparr>;
     let wallet = \<lparr>w_state = WALLET_UNKNOWN, w_hash_keys = keys, w_balance = 0, w_pass = pass, w_ckey = ckey, w_filterScripts = None\<rparr>;
     (res, wcfg) \<leftarrow> (case file of None \<Rightarrow> Some (False, Some config_create) | Some f \<Rightarrow> config_load filename f);
     case wcfg of None \<Rightarrow> Some None
     | Some wcfg \<Rightarrow> do {
         (res, wallet) \<leftarrow> wallet_load_keys ssl lock type0 wallet wcfg;
         Some (if res then None else Some wallet)
       }
   }"

definition wallet_verify ::
  "('bn, 'b, 'pt, 'pk) openssl \<Rightarrow> bool \<Rightarrow> byte \<Rightarrow> string option option \<Rightarrow> string \<Rightarrow> byte list option \<Rightarrow> bool option" where
  "wallet_verify ssl lock type0 file filename passphrase =
     map_option (\<lambda>w. w \<noteq> None) (wallet_open_file ssl lock type0 file filename passphrase)"

definition wallet_encrypt ::
  "('bn, 'b, 'pt, 'pk) openssl \<Rightarrow> save_env \<Rightarrow> string \<Rightarrow> 'pk wallet \<Rightarrow> byte list option \<Rightarrow> (bool \<times> string option \<times> 'pk wallet) option" where
  "wallet_encrypt ssl env filename wallet pass = do {
     ASSERT (pass \<noteq> None);
     wallet_save_keys ssl env filename (wallet\<lparr>w_pass := pass\<rparr>)
   }"

text \<open>\<open>gen\<close> is the key pair that OpenSSL makes. Result: the code, the address to report, the content of
  the file and the wallet. A failure to export the key leaves its bytes without a value.\<close>

definition wallet_add_key ::
  "('bn, 'b, 'pt, 'pk) openssl \<Rightarrow> save_env \<Rightarrow> byte \<Rightarrow> string \<Rightarrow> 'pk option \<Rightarrow> int \<Rightarrow> 'pk wallet \<Rightarrow> string option \<Rightarrow>
    (bool \<times> string option \<times> string option \<times> 'pk wallet) option" where
  "wallet_add_key ssl env type0 filename gen now wallet desc = (case key_generate_new (o_ec ssl) gen of
       None \<Rightarrow> Some (True, None, None, wallet)
     | Some k \<Rightarrow> do {
         privkey \<leftarrow> key_get_privkey (o_ec ssl) (Some k);
         privkey \<leftarrow> privkey;
         privStr \<leftarrow> b58_bytes_to_privkey (o_bn ssl) (o_sha ssl) privkey;
         pub_key \<leftarrow> key_get_pubkey_hash160 (o_sha ssl) k;
         btc_addr \<leftarrow> b58_pubkey_from_uint160 (o_bn ssl) (o_sha ssl) pub_key;
         (_, wallet) \<leftarrow> wallet_alloc_key ssl (se_lock env) type0 wallet privStr None desc now True;
         (res, file, wallet) \<leftarrow> wallet_save_keys ssl env filename wallet;
         Some (res, btc_addr, file, wallet)
       })"

section \<open>The keys of a wallet\<close>

text \<open>What every wallet keeps: the table is keyed by the hashes, a key has the address of its hash, the hash of
  a known key is its own, and valid filter scripts are those of all keys.\<close>

definition wallet_ok :: "('bn, 'b, 'pt, 'pk) openssl \<Rightarrow> 'pk wallet \<Rightarrow> bool" where
  "wallet_ok ssl w \<longleftrightarrow> ht_wf (w_hash_keys w) \<and>
     (\<forall>key wk. ht_map (w_hash_keys w) key = Some wk \<longrightarrow> key = le_bytes (wk_pub_key wk) \<and>
        b58_pubkey_from_uint160 (o_bn ssl) (o_sha ssl) (wk_pub_key wk) = Some (wk_btc_addr wk) \<and>
        (\<forall>k. wk_key wk = Some k \<longrightarrow> key_get_pubkey_hash160 (o_sha ssl) k = Some (wk_pub_key wk))) \<and>
     (\<forall>scripts. w_filterScripts w = Some scripts \<longrightarrow>
        set scripts = p2pkh_script ` {h. ht_map (w_hash_keys w) (le_bytes h) \<noteq> None})"

lemma ht_map_entry:
  assumes "ht_wf ht"
  shows "ht_map ht k = Some d \<longleftrightarrow> (\<exists>e \<in> set (ht_entries ht). he_key e = k \<and> he_clientData e = d)"
proof -
  have "distinct (map he_key (ht_entries ht))" using assms by (simp add: ht_wf_def)
  from find_distinct [OF this, of k] show ?thesis by (auto simp: ht_map_def)
qed

lemma p2pkh_bytes: "p2pkh_script h = [0x76, 0xa9, 0x14] @ le_bytes h @ [0x88, 0xac]"
  by (simp add: p2pkh_script_def push_def opcodes)

lemma scripts_loop:
  "for_each_entry wallet_get_filter_scripts_cb es ctx = Some (ctx @ map (\<lambda>e. p2pkh_script (wk_pub_key (he_clientData e))) es)"
  by (induction es arbitrary: ctx) (simp_all add: wallet_get_filter_scripts_cb_def p2pkh_bytes)

text \<open>In a consistent wallet the scripts that block filters are matched against are those of exactly its keys.\<close>

lemma filter_scripts_ok:
  assumes "wallet_ok ssl w"
  shows "\<exists>scripts w'. wallet_get_filter_scripts w = Some (scripts, w') \<and> wallet_ok ssl w' \<and> w_hash_keys w' = w_hash_keys w \<and>
    set scripts = p2pkh_script ` {h. wallet_is_pubkey_hash160_mine w h = Some True}"
proof -
  have wf: "ht_wf (w_hash_keys w)" using assms by (simp add: wallet_ok_def)
  have mine: "wallet_is_pubkey_hash160_mine w h = Some (ht_map (w_hash_keys w) (le_bytes h) \<noteq> None)" for h
    by (simp add: wallet_is_pubkey_hash160_mine_def lookup_eq [OF wf])
  have law: "key = le_bytes (wk_pub_key wk)" if "ht_map (w_hash_keys w) key = Some wk" for key wk
    using assms that unfolding wallet_ok_def by blast
  have S: "{h. wallet_is_pubkey_hash160_mine w h = Some True} = {h. ht_map (w_hash_keys w) (le_bytes h) \<noteq> None}"
    by (simp add: mine)
  show ?thesis
  proof (cases "w_filterScripts w")
    case (Some scripts)
    have "set scripts = p2pkh_script ` {h. wallet_is_pubkey_hash160_mine w h = Some True}"
      unfolding S using assms Some unfolding wallet_ok_def by blast
    moreover have "wallet_get_filter_scripts w = Some (scripts, w)" using Some by (simp add: wallet_get_filter_scripts_def)
    ultimately show ?thesis using assms by blast
  next
    case None
    let ?es = "ht_entries (w_hash_keys w)" and ?s = "\<lambda>e. p2pkh_script (wk_pub_key (he_clientData e))"
    have get: "wallet_get_filter_scripts w = Some (map ?s ?es, w\<lparr>w_filterScripts := Some (map ?s ?es)\<rparr>)"
      using None scripts_loop [of ?es "[]"]
      by (simp add: wallet_get_filter_scripts_def hashtable_for_each_def ht_entries_def)
    have key: "he_key e = le_bytes (wk_pub_key (he_clientData e))" "ht_map (w_hash_keys w) (he_key e) \<noteq> None" if "e \<in> set ?es" for e
    proof -
      have m: "ht_map (w_hash_keys w) (he_key e) = Some (he_clientData e)" using ht_map_entry [OF wf] that by blast
      then show "ht_map (w_hash_keys w) (he_key e) \<noteq> None" by simp
      show "he_key e = le_bytes (wk_pub_key (he_clientData e))" by (rule law [OF m])
    qed
    have found: "\<exists>e \<in> set ?es. wk_pub_key (he_clientData e) = h" if "ht_map (w_hash_keys w) (le_bytes h) \<noteq> None" for h
    proof -
      from that obtain wk where wk: "ht_map (w_hash_keys w) (le_bytes h) = Some wk" by blast
      then obtain e where e: "e \<in> set ?es" "he_clientData e = wk" using ht_map_entry [OF wf] by blast
      have "le_bytes h = le_bytes (wk_pub_key wk)" by (rule law [OF wk])
      then have "wk_pub_key wk = h" by (simp add: le_bytes_eq_iff)
      with e show ?thesis by blast
    qed
    have "(\<lambda>e. wk_pub_key (he_clientData e)) ` set ?es = {h. ht_map (w_hash_keys w) (le_bytes h) \<noteq> None}"
    proof (intro equalityI subsetI)
      fix h :: uint160
      assume "h \<in> (\<lambda>e. wk_pub_key (he_clientData e)) ` set ?es"
      then obtain e where e: "e \<in> set ?es" "h = wk_pub_key (he_clientData e)" by blast
      show "h \<in> {h. ht_map (w_hash_keys w) (le_bytes h) \<noteq> None}"
        unfolding mem_Collect_eq e(2) key(1) [OF e(1), symmetric] by (rule key(2) [OF e(1)])
    next
      fix h :: uint160
      assume "h \<in> {h. ht_map (w_hash_keys w) (le_bytes h) \<noteq> None}"
      then show "h \<in> (\<lambda>e. wk_pub_key (he_clientData e)) ` set ?es" using found by blast
    qed
    then have "set (map ?s ?es) = p2pkh_script ` {h. ht_map (w_hash_keys w) (le_bytes h) \<noteq> None}"
      unfolding set_map by (metis image_image)
    then have ss: "set (map ?s ?es) = p2pkh_script ` {h. ht_map (w_hash_keys w) (le_bytes h) \<noteq> None}" .
    define w' where "w' = w\<lparr>w_filterScripts := Some (map ?s ?es)\<rparr>"
    have k: "w_hash_keys w' = w_hash_keys w" "w_filterScripts w' = Some (map ?s ?es)" by (simp_all add: w'_def)
    have ok: "wallet_ok ssl w'"
      unfolding wallet_ok_def k
    proof (intro conjI)
      show "\<forall>scripts. Some (map ?s ?es) = Some scripts \<longrightarrow> set scripts = p2pkh_script ` {h. ht_map (w_hash_keys w) (le_bytes h) \<noteq> None}"
        unfolding option.inject using ss by blast
    qed (use assms in \<open>unfold wallet_ok_def, blast\<close>)+
    show ?thesis
      unfolding S by (intro exI [of _ "map ?s ?es"] exI [of _ w'] conjI get [folded w'_def] ok k(1) ss)
  qed
qed

text \<open>Adding a key keeps the wallet consistent: the new key is found under its hash, the others stay, and
  nothing changes when it fails; filter scripts that were computed before are no longer used.\<close>

theorem alloc_key_keeps_wallet:
  assumes "wallet_ok ssl w" and "wallet_alloc_key ssl lock type0 w priv pub desc birth spendable = Some (ok, w')"
  shows "wallet_ok ssl w' \<and> (if \<not> ok then w' = w else \<exists>wk. ht_map (w_hash_keys w) (le_bytes (wk_pub_key wk)) = None \<and>
    ht_map (w_hash_keys w') = (ht_map (w_hash_keys w))(le_bytes (wk_pub_key wk) \<mapsto> wk) \<and>
    wk_birth wk = birth \<and> wk_spendable wk = spendable \<and> wk_cfg_idx wk = ht_count (w_hash_keys w))"
proof (cases ok)
  case False
  then have "w' = w" using assms(2)
    by (auto simp: wallet_alloc_key_def Let_def split: bind_splits option.splits prod.splits if_splits)
  then show ?thesis using assms(1) False by simp
next
  case True
  note [simp] = True
  have wf: "ht_wf (w_hash_keys w)" using assms(1) by (simp add: wallet_ok_def)
  from assms(2) obtain p buf pk0 where r: "priv = Some p" "wallet_key_bytes ssl lock type0 w p pub = Some (Some (buf, pk0))"
    by (auto simp: wallet_alloc_key_def split: bind_splits option.splits)
  define K where "K = (case buf of None \<Rightarrow> Some (None, pk0)
           | Some buf \<Rightarrow> do {
               (_, key) \<leftarrow> key_set_privkey (o_ec ssl) key_alloc buf;
               pub_key \<leftarrow> key_get_pubkey_hash160 (o_sha ssl) key;
               Some (Some key, pub_key)
             })"
  note alloc = assms(2) [unfolded True wallet_alloc_key_def r bind.bind_lunit option.case prod.case, folded K_def]
  from alloc obtain key pub_key where K: "K = Some (key, pub_key)" by (auto split: bind_splits)
  have key: "\<forall>k. key = Some k \<longrightarrow> key_get_pubkey_hash160 (o_sha ssl) k = Some pub_key"
    using K by (auto simp: K_def split: option.splits bind_splits)
  from alloc [unfolded K] obtain addr hk where addr: "b58_pubkey_from_uint160 (o_bn ssl) (o_sha ssl) pub_key = Some addr"
    and ins: "hashtable_insert (w_hash_keys w) (le_bytes pub_key) \<lparr>wk_key = key, wk_birth = birth, wk_desc = desc,
        wk_btc_addr = addr, wk_pub_key = pub_key, wk_cfg_idx = hashtable_getnumentries (w_hash_keys w), wk_spendable = spendable\<rparr> = Some (True, hk)"
    and w': "w' = wallet_invalidate_filter_scripts (w\<lparr>w_hash_keys := hk\<rparr>)"
    by (auto simp: Let_def split: bind_splits if_splits)
  let ?wk = "\<lparr>wk_key = key, wk_birth = birth, wk_desc = desc,
        wk_btc_addr = addr, wk_pub_key = pub_key, wk_cfg_idx = hashtable_getnumentries (w_hash_keys w), wk_spendable = spendable\<rparr>"
  from insert_ok [OF wf, of "le_bytes pub_key" ?wk] ins
  have new: "ht_map (w_hash_keys w) (le_bytes pub_key) = None" "ht_wf hk"
    "ht_map hk = (ht_map (w_hash_keys w))(le_bytes pub_key \<mapsto> ?wk)"
    by (auto split: if_splits)
  have "wallet_ok ssl w'"
    using assms(1) new(2) key addr unfolding w' wallet_ok_def
    by (auto simp: wallet_invalidate_filter_scripts_def new(3))
  moreover have "ht_map (w_hash_keys w') = (ht_map (w_hash_keys w))(le_bytes pub_key \<mapsto> ?wk)"
    by (simp add: w' wallet_invalidate_filter_scripts_def new(3))
  ultimately have "\<exists>wk. ht_map (w_hash_keys w) (le_bytes (wk_pub_key wk)) = None \<and>
    ht_map (w_hash_keys w') = (ht_map (w_hash_keys w))(le_bytes (wk_pub_key wk) \<mapsto> wk) \<and>
    wk_birth wk = birth \<and> wk_spendable wk = spendable \<and> wk_cfg_idx wk = ht_count (w_hash_keys w)"
    using new(1) by (intro exI [of _ ?wk]) (simp add: hashtable_getnumentries_def)
  with \<open>wallet_ok ssl w'\<close> show ?thesis by simp
qed


section \<open>The life of a wallet\<close>

text \<open>The wallets a program can hold: one that was opened from its file (or without one), and what any
  sequence of new keys, encryptions, requests for the filter scripts and settings of the balance makes of it.\<close>

inductive wallet_run :: "('bn, 'b, 'pt, 'pk) openssl \<Rightarrow> 'pk wallet \<Rightarrow> bool" for ssl where
  opened: "wallet_open_file ssl lock type0 file filename pass = Some (Some w) \<Longrightarrow> wallet_run ssl w"
| key_added: "wallet_run ssl w \<Longrightarrow> wallet_add_key ssl env type0 filename gen now w desc = Some (res, addr, file, w') \<Longrightarrow> wallet_run ssl w'"
| encrypted: "wallet_run ssl w \<Longrightarrow> wallet_encrypt ssl env filename w pass = Some (res, file, w') \<Longrightarrow> wallet_run ssl w'"
| scripts: "wallet_run ssl w \<Longrightarrow> wallet_get_filter_scripts w = Some (scripts, w') \<Longrightarrow> wallet_run ssl w'"
| balance: "wallet_run ssl w \<Longrightarrow> wallet_run ssl (w\<lparr>w_balance := b\<rparr>)"

lemma wallet_ok_frame [simp]:
  "wallet_ok ssl (w\<lparr>w_balance := b\<rparr>) = wallet_ok ssl w" "wallet_ok ssl (w\<lparr>w_pass := p\<rparr>) = wallet_ok ssl w"
  "wallet_ok ssl (w\<lparr>w_ckey := c\<rparr>) = wallet_ok ssl w" "wallet_ok ssl (w\<lparr>w_state := st\<rparr>) = wallet_ok ssl w"
  by (simp_all add: wallet_ok_def)

lemma save_keys_ok: "wallet_save_keys ssl env filename w = Some (res, file, w') \<Longrightarrow> wallet_ok ssl w' = wallet_ok ssl w"
  by (auto simp: wallet_save_keys_def Let_def split: option.splits bind_splits if_splits prod.splits)

lemma crypt_init_ok: "wallet_crypt_init ssl w salt iters = Some w' \<Longrightarrow> wallet_ok ssl w' = wallet_ok ssl w"
  by (auto simp: wallet_crypt_init_def Let_def split: option.splits bind_splits if_splits)

lemma alloc_key_ok: "wallet_alloc_key ssl lock type0 w priv pub desc birth spendable = Some (r, w') \<Longrightarrow> wallet_ok ssl w \<Longrightarrow> wallet_ok ssl w'"
  using alloc_key_keeps_wallet by blast

lemma load_loop_ok: "load_keys_loop ssl lock type0 is cfg w = Some (s, w') \<Longrightarrow> wallet_ok ssl w \<Longrightarrow> wallet_ok ssl w'"
  by (induction "is" arbitrary: cfg w) (auto split: bind_splits if_splits, (blast intro: alloc_key_ok)+)

lemma load_keys_ok:
  assumes "wallet_load_keys ssl lock type0 w cfg = Some (r, w')" and "wallet_ok ssl w"
  shows "wallet_ok ssl w'"
proof -
  have "\<exists>st salt iters is cfg' w1 s w2. wallet_crypt_init ssl (w\<lparr>w_state := st\<rparr>) salt iters = Some w1 \<and>
      load_keys_loop ssl lock type0 is cfg' w1 = Some (s, w2) \<and> (w' = w2 \<or> w' = w2\<lparr>w_state := WALLET_ENCRYPTED_UNLOCKED\<rparr>)"
    using assms(1) unfolding wallet_load_keys_def Let_def
    by (auto split: bind_splits if_splits) (blast | metis)+
  then obtain st salt iters "is" cfg' w1 s w2 where w1: "wallet_crypt_init ssl (w\<lparr>w_state := st\<rparr>) salt iters = Some w1"
    and w2: "load_keys_loop ssl lock type0 is cfg' w1 = Some (s, w2)" and w': "w' = w2 \<or> w' = w2\<lparr>w_state := WALLET_ENCRYPTED_UNLOCKED\<rparr>"
    by blast
  have "wallet_ok ssl w1" using crypt_init_ok [OF w1] assms(2) by simp
  then have "wallet_ok ssl w2" by (rule load_loop_ok [OF w2])
  then show ?thesis using w' by auto
qed

lemma open_file_ok:
  assumes "wallet_open_file (ssl :: ('bn, 'b, 'pt, 'pk) openssl) lock type0 file filename pass = Some (Some w)"
  shows "wallet_ok ssl w"
proof -
  obtain keys :: "'pk wallet_key hashtable" where keys: "hashtable_create = Some keys" "ht_wf keys" "ht_map keys = Map.empty"
    using create_ok by blast
  let ?w0 = "\<lparr>w_state = WALLET_UNKNOWN, w_hash_keys = keys, w_balance = 0, w_pass = pass,
    w_ckey = \<lparr>ck_key = replicate 32 0, ck_iv = replicate 32 0, ck_salt = replicate 8 0\<rparr>, w_filterScripts = None\<rparr>"
  have ok0: "wallet_ok ssl ?w0" using keys by (simp add: wallet_ok_def)
  obtain wcfg w1 where l: "wallet_load_keys ssl lock type0 ?w0 wcfg = Some (False, w1)" "w = w1"
    using assms unfolding wallet_open_file_def keys(1) by (auto simp: Let_def split: bind_splits if_splits option.splits)
  then show ?thesis using load_keys_ok [OF l(1) ok0] by simp
qed

lemma get_scripts_run:
  assumes "wallet_ok ssl w" and "wallet_get_filter_scripts w = Some (scripts, w')"
  shows "wallet_ok ssl w'"
  using filter_scripts_ok [OF assms(1)] assms(2) by auto

lemma add_key_ok:
  assumes "wallet_add_key ssl env type0 filename gen now w desc = Some (res, addr, out, w')" and "wallet_ok ssl w"
  shows "wallet_ok ssl w'"
proof (cases "key_generate_new (o_ec ssl) gen")
  case (Some k)
  then obtain priv s w1 where "wallet_alloc_key ssl (se_lock env) type0 w priv None desc now True = Some (s, w1)"
    "wallet_save_keys ssl env filename w1 = Some (res, out, w')"
    using assms(1) by (auto simp: wallet_add_key_def split: bind_splits)
  then show ?thesis using alloc_key_ok [OF _ assms(2)] save_keys_ok by blast
qed (use assms in \<open>simp add: wallet_add_key_def\<close>)

lemma wallet_run_ok: "wallet_run ssl w \<Longrightarrow> wallet_ok ssl w"
  by (induction rule: wallet_run.induct)
    (auto simp: wallet_encrypt_def open_file_ok save_keys_ok split: if_splits dest: add_key_ok get_scripts_run)

text \<open>C19: whatever was done to a wallet since it was opened, the scripts that block filters are matched against
  are those of exactly the keys it holds now: a list that was cached before a key came is not used again.\<close>

theorem filter_scripts_complete:
  assumes "wallet_run ssl w"
  shows "\<exists>scripts w'. wallet_get_filter_scripts w = Some (scripts, w') \<and> w_hash_keys w' = w_hash_keys w \<and>
    set scripts = p2pkh_script ` {h. wallet_is_pubkey_hash160_mine w h = Some True}"
  using filter_scripts_ok [OF wallet_run_ok [OF assms]] by blast


section \<open>Encrypted keys\<close>

lemma byte_string [simp]: "bytes_of (s @ t) = bytes_of s @ bytes_of t" "bytes_of [] = []" "bytes_of (c # s) = of_nat (of_char c) # bytes_of s"
  by (simp_all add: bytes_of_def)

lemma of_char_lt: "(of_char c :: nat) < 256"
  by (cases c) simp

lemma string_of_bytes_of:
  assumes "CHR 0x00 \<notin> set s"
  shows "string_of (bytes_of s @ 0 # t) = s"
  using assms
proof (induction s)
  case (Cons c s)
  have u: "unat (of_nat (of_char c) :: byte) = of_char c" using of_char_lt [of c] by (simp add: unat_of_nat_small)
  moreover have "(of_char c :: nat) \<noteq> 0"
  proof
    assume "(of_char c :: nat) = 0"
    then have "(of_char c :: nat) = of_char (CHR 0x00)" by simp
    then have "c = CHR 0x00" unfolding of_char_eq_iff .
    with Cons.prems show False by simp
  qed
  ultimately have "(of_nat (of_char c) :: byte) \<noteq> 0" by (metis unsigned_0)
  with Cons u show ?case by (simp add: string_of_def)
qed (simp add: string_of_def)

lemma scan_hex_byte: "scan_byte (hex_byte b @ s) = Some b"
proof -
  have "\<not> isspace (hex_digit (unat b div 16))" using hex_digit_plain [of "unat b div 16"] byte_lt [of b] by simp
  then have "take 2 (dropWhile isspace (hex_byte b @ s)) = hex_byte b" by (simp add: hex_byte_def)
  moreover have "hex_byte b = [c, d] \<Longrightarrow> sscanf_02x [c, d] = Some (ucast b)" for c d using sscanf_hex_byte [of b] by simp
  moreover obtain c d where cd: "hex_byte b = [c, d]" by (simp add: hex_byte_def)
  moreover have "(ucast b :: u32) \<le> 255" using byte_lt [of b] by (simp add: word_le_nat_alt unsigned_ucast_eq take_bit_nat_eq_self)
  moreover have "(ucast (ucast b :: u32) :: byte) = b"
    by (rule bit_word_eqI) (auto simp: bit_ucast_iff)
  ultimately show ?thesis by (simp add: scan_byte_def)
qed

lemma those_Cons_upt: "those (map f [0..<Suc n]) = (case f 0 of None \<Rightarrow> None | Some x \<Rightarrow> map_option ((#) x) (those (map (\<lambda>i. f (Suc i)) [0..<n])))"
  by (simp add: upt_conv_Cons map_Suc_upt [symmetric] comp_def del: upt_Suc split: option.splits)

lemma str_to_bytes_hex: "str_to_bytes (Some (concat (map hex_byte bs))) = Some bs"
proof (induction bs)
  case (Cons b bs)
  define X where "X = concat (map hex_byte (b # bs))"
  have l: "length X div 2 = Suc (length (concat (map hex_byte bs)) div 2)"
    by (simp add: X_def hex_byte_def)
  have d: "drop (Suc i * 2) X = drop (i * 2) (concat (map hex_byte bs))" for i
    by (simp add: X_def hex_byte_def)
  have 0: "scan_byte (drop (0 * 2) X) = Some b" using scan_hex_byte by (simp add: X_def)
  have "those (map (\<lambda>i. scan_byte (drop (i * 2) X)) [0..<length X div 2]) = Some (b # bs)"
    unfolding l those_Cons_upt d 0 using Cons by (simp add: str_to_bytes_def)
  then show ?case unfolding X_def [symmetric] by (simp add: str_to_bytes_def)
qed (simp add: str_to_bytes_def)

lemma length_hex [simp]: "length (concat (map hex_byte bs)) = 2 * length bs"
  by (induction bs) (simp_all add: hex_byte_def)

text \<open>What AES promises: decryption undoes encryption with the same key.\<close>

definition aes_laws :: "('bn, 'b, 'pt, 'pk) openssl \<Rightarrow> bool" where
  "aes_laws ssl \<longleftrightarrow> (\<forall>ck text cipher. crypt_encrypt (o_encrypt ssl) ck text = Some (Some cipher) \<longrightarrow>
     crypt_decrypt (o_decrypt ssl) True ck cipher = Some (Some text))"

text \<open>The text that \<open>wallet_encrypt_string\<close> makes of a private key passes the check of its code when the
  wallet is loaded with the same passphrase, and gives the same key bytes as the plain text does.\<close>

theorem encrypted_key_loads:
  assumes "aes_laws ssl" and "CHR 0x00 \<notin> set s"
    and "wallet_encrypt_string ssl True w s (w_ckey w) = Some enc"
  shows "wallet_key_bytes ssl True type0 (w\<lparr>w_state := WALLET_ENCRYPTED_LOCKED\<rparr>) enc pub =
    wallet_key_bytes ssl True type0 (w\<lparr>w_state := WALLET_PLAIN\<rparr>) s pub"
proof -
  from assms(3) obtain cipher cs pass hmac where
      c: "crypt_encrypt (o_encrypt ssl) (w_ckey w) (bytes_of s @ [0]) = Some (Some cipher)"
    and cs: "str_snprintf_bytes 1024 None cipher = Some cs" and pass: "w_pass w = Some pass"
    and h: "wallet_hmac_string (o_sha ssl) cipher pass = Some hmac" and enc: "enc = cs @ ''-'' @ hmac"
    by (auto simp: wallet_encrypt_string_def split: bind_splits)
  from h obtain mac where mac: "crypt_hmac_sha256 (o_sha ssl) cipher pass = Some mac"
    and hm: "str_snprintf_bytes 128 None (le_bytes mac) = Some hmac"
    by (auto simp: wallet_hmac_string_def split: bind_splits)
  have small: "length cipher < 512" using mac by (auto simp: crypt_hmac_sha256_def split: if_splits)
  have hex: "cs = concat (map hex_byte cipher)" "hmac = concat (map hex_byte (le_bytes mac))"
    using cs hm small str_snprintf_loop_fits [of cipher 0 1024 "[]"] str_snprintf_loop_fits [of "le_bytes mac" 0 128 "[]"]
    by (simp_all add: str_snprintf_bytes_def)
  have lh: "length hmac = 64" unfolding hex by simp
  have "wallet_verify_hmac (o_sha ssl) (w\<lparr>w_state := WALLET_ENCRYPTED_LOCKED\<rparr>) enc = Some (Some cipher)"
    using lh str_to_bytes_hex [of cipher] str_to_bytes_hex [of "le_bytes mac"] pass mac
    by (simp add: wallet_verify_hmac_def enc nth_append flip: hex)
  moreover have "crypt_decrypt (o_decrypt ssl) True (w_ckey w) cipher = Some (Some (bytes_of s @ [0]))"
    using assms(1) c unfolding aes_laws_def by blast
  ultimately show ?thesis
    using pass string_of_bytes_of [OF assms(2), of "[]"] by (simp add: wallet_key_bytes_def Let_def)
qed


section \<open>Examples\<close>

definition copy_cipher :: evp_cipher where
  "copy_cipher = \<lparr>EVP_Init = \<lambda>key iv. True, EVP_Update = \<lambda>key iv text. Some text, EVP_Final = \<lambda>key iv text. Some []\<rparr>"

definition toy_ssl :: "(nat, nat, nat, nat) openssl" where
  "toy_ssl = \<lparr>o_bn = nat_bn, o_ec = nat_ec, o_sha = \<lambda>_. 7, o_encrypt = copy_cipher, o_decrypt = copy_cipher,
     o_kdf = \<lambda>salt pass n. (32, replicate 32 0, replicate 32 0)\<rparr>"

definition toy_wallet :: "nat wallet" where
  "toy_wallet = \<lparr>w_state = WALLET_ENCRYPTED_LOCKED, w_hash_keys = the hashtable_create, w_balance = 0, w_pass = Some [1],
     w_ckey = \<lparr>ck_key = replicate 32 0, ck_iv = replicate 32 0, ck_salt = replicate 8 0\<rparr>, w_filterScripts = None\<rparr>"

lemma toy_wallet_empty: "ht_wf (w_hash_keys toy_wallet) \<and> ht_map (w_hash_keys toy_wallet) = Map.empty"
proof -
  obtain ht :: "nat wallet_key hashtable" where ht: "hashtable_create = Some ht" "ht_wf ht" "ht_map ht = Map.empty"
    using create_ok by blast
  have "w_hash_keys toy_wallet = ht" unfolding toy_wallet_def ht(1) by simp
  then show ?thesis using ht(2,3) by simp
qed

theorem filter_scripts_complete_witness:
  "\<exists>w scripts w'. wallet_open_file toy_ssl True 0 None ''w'' None = Some (Some w) \<and>
     wallet_get_filter_scripts w = Some (scripts, w') \<and> set scripts = {}"
proof -
  obtain keys :: "nat wallet_key hashtable" where keys: "hashtable_create = Some keys" "ht_wf keys" "ht_map keys = Map.empty"
    using create_ok by blast
  have "config_getint64 config_create 0 ''numKeys'' = Some (0, \<lparr>cfg_fileName = None, cfg_list =
      [\<lparr>kv_key = ''numKeys'', kv_save = False, kv_type = CONFIG_KV_INT64, kv_u = kv_val 0\<rparr>]\<rparr>)" (is "_ = Some (0, ?c1)")
    by code_simp
  moreover have "config_getstring ?c1 None ''encryption.salt'' = Some (None, ?c1\<lparr>cfg_list :=
      \<lparr>kv_key = ''encryption.salt'', kv_save = False, kv_type = CONFIG_KV_STRING, kv_u = kv_string None\<rparr> # cfg_list ?c1\<rparr>)" (is "_ = Some (None, ?c2)")
    by code_simp
  moreover have "map_option fst (config_getint64 ?c2 CRYPT_NUM_ITERATIONS_OLD ''encryption.numIterations'') = Some CRYPT_NUM_ITERATIONS_OLD"
    by code_simp
  ultimately have "\<exists>w. wallet_open_file toy_ssl True 0 None ''w'' None = Some (Some w) \<and> w_hash_keys w = keys"
    by (auto simp: wallet_open_file_def wallet_load_keys_def wallet_crypt_init_def to_int_def keys(1))
  then obtain w where w: "wallet_open_file toy_ssl True 0 None ''w'' None = Some (Some w)" "w_hash_keys w = keys" by blast
  from filter_scripts_complete [OF wallet_run.opened [OF w(1)]] obtain scripts w' where
    "wallet_get_filter_scripts w = Some (scripts, w')" "set scripts = p2pkh_script ` {h. wallet_is_pubkey_hash160_mine w h = Some True}" by blast
  moreover have "{h. wallet_is_pubkey_hash160_mine w h = Some True} = {}"
    using keys by (simp add: wallet_is_pubkey_hash160_mine_def lookup_eq w(2))
  ultimately show ?thesis using w(1) by (intro exI [of _ w] exI [of _ scripts] exI [of _ w']) simp
qed

theorem alloc_key_keeps_wallet_witness:
  "wallet_alloc_key toy_ssl True 0 toy_wallet (Some ''x'') None None 0 True = Some (False, toy_wallet) \<and> wallet_ok toy_ssl toy_wallet"
proof -
  have ok: "wallet_ok toy_ssl toy_wallet"
    using toy_wallet_empty by (simp add: wallet_ok_def) (simp add: toy_wallet_def)
  have "wallet_alloc_key toy_ssl True 0 toy_wallet (Some ''x'') None None 0 True = Some (False, toy_wallet)"
    by (simp add: wallet_alloc_key_def wallet_key_bytes_def wallet_verify_hmac_def toy_wallet_def)
  moreover from alloc_key_keeps_wallet [OF ok this] have "wallet_ok toy_ssl toy_wallet" by (simp add: toy_ssl_def)
  ultimately show ?thesis by blast
qed

theorem encrypted_key_loads_witness:
  "\<exists>enc. wallet_encrypt_string toy_ssl True toy_wallet ''a'' (w_ckey toy_wallet) = Some enc \<and>
     wallet_key_bytes toy_ssl True 0 (toy_wallet\<lparr>w_state := WALLET_ENCRYPTED_LOCKED\<rparr>) enc None =
     wallet_key_bytes toy_ssl True 0 (toy_wallet\<lparr>w_state := WALLET_PLAIN\<rparr>) ''a'' None"
proof -
  have aes: "aes_laws toy_ssl"
    by (auto simp: aes_laws_def toy_ssl_def copy_cipher_def crypt_encrypt_def crypt_decrypt_def evp_run_def secure_alloc_def)
  have enc: "crypt_encrypt (o_encrypt toy_ssl) (w_ckey toy_wallet) (bytes_of ''a'' @ [0]) = Some (Some (bytes_of ''a'' @ [0]))"
    by (simp add: toy_ssl_def copy_cipher_def crypt_encrypt_def evp_run_def)
  have "\<exists>enc. wallet_encrypt_string toy_ssl True toy_wallet ''a'' (w_ckey toy_wallet) = Some enc"
    using enc by (simp add: wallet_encrypt_string_def secure_alloc_def wallet_hmac_string_def hmac_eq str_snprintf_bytes_def
        str_snprintf_loop_fits toy_wallet_def)
  then obtain e where e: "wallet_encrypt_string toy_ssl True toy_wallet ''a'' (w_ckey toy_wallet) = Some e" ..
  with encrypted_key_loads [OF aes _ e, of 0 None] show ?thesis by auto
qed

end
