(* ===== verification/BlockStore.thy ===== *)
theory BlockStore
  imports Serialize Hash Hashtable
begin

text \<open>
  The block store of \<^verbatim>\<open>src/core/block-store.c\<close>: the tree of block headers, its best
  chain, the orphans and the reorganisations. Block entries live in a heap, a list that only
  grows; an address is an index into it and the null pointer is \<^const>\<open>None\<close>. The
  tables \<open>hash_blk\<close> and \<open>hash_orphans\<close> are the hash tables of the theory
  \<open>Hashtable\<close>. SHA-256 is the argument \<open>sha\<close>. The headers file is the list of its
  bytes; the recursive mutex, the user interface and the log are not modelled.

  A recursion that does not end has the value \<^const>\<open>None\<close>, like a failed assertion.
\<close>

section \<open>Checkpoints\<close>

definition cpt_testnet :: "(u32 \<times> string) list" where
  "cpt_testnet = [(0, ''000000000933ea01ad0ee984209779baaec3ced90fa3f408719526f8d77f4943'')]"

definition cpt_main :: "(u32 \<times> string) list" where
  "cpt_main =
    [(     0, ''000000000019d6689c085ae165831e934ff763ae46a2a6c172b3f1b60a8ce26f''),
     ( 11111, ''0000000069e244f73d78e8fd29ba2fd2ed618bd6fa2ee92559f542fdb26e7c1d''),
     ( 33333, ''000000002dd5588a74784eaa7ab0507a18ad16a236e7b1ce69f00d7ddfb5d0a6''),
     ( 74000, ''0000000000573993a3c9e41ce34471c079dcf5f52a0e824a81e7f953b8661a20''),
     (105000, ''00000000000291ce28027faea320c8d2b054b2e0fe44a773f3eefb151d6bdc97''),
     (134444, ''00000000000005b12ffd4cd315cd34ffd4a594f430ac814c91184a0d42d2b0fe''),
     (168000, ''000000000000099e61ea72015e79632f216fe6cb33d7899acb35b75c8303b763''),
     (193000, ''000000000000059f452a5f7340de6682a977387c17010ff6e6c3bd83ca8b1317''),
     (210000, ''000000000000048b95347e83192f69cf0366076336c639f9b7228e9ba171342e''),
     (216116, ''00000000000001b4f4b433e81ee46494af945cf96014816a4e2370f11b23df4e''),
     (225430, ''00000000000001c108384350f74090433e7fcf79a606b8e797f065b130575932''),
     (250000, ''000000000000003887df1f29024b06fc2200b55f8af8f35453d7be294df2d214''),
     (275000, ''00000000000000044750d80a0d3f3e307e54e8802397ae840d91adc28068f5bc'')]"

text \<open>The arrays that \<open>blockstore_init\<close> fills in from the strings, which it asserts to parse.\<close>

primrec parse_cpts :: "(u32 \<times> string) list \<Rightarrow> (u32 \<times> uint256) list option" where
  "parse_cpts [] = Some []"
| "parse_cpts (c # cs) = do {
     let (s, h) = uint256_from_str (snd c) 0;
     ASSERT s;
     cs \<leftarrow> parse_cpts cs;
     Some ((fst c, h) # cs)
   }"

fun blockstore_validate_chkpt :: "(u32 \<times> uint256) list \<Rightarrow> uint256 \<Rightarrow> u32 \<Rightarrow> bool" where
  "blockstore_validate_chkpt [] hash height = True"
| "blockstore_validate_chkpt (c # cs) hash height =
     (if height = fst c then (if \<not> uint256_issame hash (snd c) then False else True)
      else blockstore_validate_chkpt cs hash height)"

section \<open>The state\<close>

record blockentry =
  be_prev :: "nat option"
  be_next :: "nat option"
  be_header :: btc_block_header
  be_height :: int
  be_written :: bool

text \<open>\<open>bs_file\<close> and \<open>bs_filesize\<close> are the open headers file and the size in
  \<open>blockset\<close>; \<open>bs_cpts\<close> is the checkpoint array of the network; \<open>bs_count\<close> is the
  static counter of \<open>blockstore_add_header\<close>.\<close>

record blockstore =
  bs_heap :: "blockentry list"
  bs_file :: "byte list"
  bs_filesize :: nat
  bs_genesis_hash :: uint256
  bs_best_hash :: uint256
  bs_best_chain :: "nat option"
  bs_genesis :: "nat option"
  bs_height :: int
  bs_hash_blk :: "nat hashtable"
  bs_hash_orphans :: "nat hashtable"
  bs_cpts :: "(u32 \<times> uint256) list"
  bs_count :: u32

definition hdr_hash :: "(byte list \<Rightarrow> uint256) \<Rightarrow> btc_block_header \<Rightarrow> uint256" where
  "hdr_hash sha h = hash256_calc sha (enc_blockheader h)"

definition hkey :: "uint256 \<Rightarrow> byte list" where
  "hkey h = le_bytes h"

text \<open>Reading and writing through a pointer.\<close>

definition deref :: "blockstore \<Rightarrow> nat \<Rightarrow> blockentry option" where
  "deref bs a = (if a < length (bs_heap bs) then Some (bs_heap bs ! a) else None)"

definition assign :: "nat \<Rightarrow> (blockentry \<Rightarrow> blockentry) \<Rightarrow> blockstore \<Rightarrow> blockstore" where
  "assign a f bs = bs\<lparr>bs_heap := (bs_heap bs)[a := f (bs_heap bs ! a)]\<rparr>"

section \<open>Queries\<close>

definition blockstore_lookup :: "blockstore \<Rightarrow> uint256 \<Rightarrow> nat option option" where
  "blockstore_lookup bs hash = do {
     r \<leftarrow> hashtable_lookup (bs_hash_orphans bs) (hkey hash);
     case r of Some a \<Rightarrow> Some (Some a)
     | None \<Rightarrow> hashtable_lookup (bs_hash_blk bs) (hkey hash)
   }"

definition blockstore_get_timestamp :: "blockstore \<Rightarrow> u64 option" where
  "blockstore_get_timestamp bs = (case bs_best_chain bs of None \<Rightarrow> Some 1231006505
     | Some a \<Rightarrow> do {
         e \<leftarrow> deref bs a;
         ASSERT (bs_height bs = be_height e);
         Some (ucast (bh_timestamp (be_header e)))
       })"

definition blockstore_get_height :: "blockstore option \<Rightarrow> int option" where
  "blockstore_get_height b = (case b of None \<Rightarrow> Some 0 | Some bs \<Rightarrow>
     (case bs_best_chain bs of None \<Rightarrow> Some 0
      | Some a \<Rightarrow> do {
          e \<leftarrow> deref bs a;
          ASSERT (bs_height bs = be_height e);
          Some (bs_height bs)
        }))"

definition blockstore_get_block_height :: "blockstore \<Rightarrow> uint256 option \<Rightarrow> int option" where
  "blockstore_get_block_height bs hash =
     (if uint256_iszero hash then Some 0
      else do {
        h \<leftarrow> hash;
        r \<leftarrow> hashtable_lookup (bs_hash_blk bs) (hkey h);
        a \<leftarrow> r;
        e \<leftarrow> deref bs a;
        Some (be_height e)
      })"

definition blockstore_get_highest :: "blockstore \<Rightarrow> uint256 \<Rightarrow> uint256 \<Rightarrow> uint256 option" where
  "blockstore_get_highest bs hash0 hash1 =
     (if uint256_iszero (Some hash0) then Some hash1
      else if uint256_iszero (Some hash1) then Some hash0
      else do {
        height0 \<leftarrow> blockstore_get_block_height bs (Some hash0);
        height1 \<leftarrow> blockstore_get_block_height bs (Some hash1);
        ASSERT (0 < height0);
        ASSERT (0 < height1);
        Some (if height0 < height1 then hash1 else hash0)
      })"

text \<open>The walks from the best block to genesis; reaching a null pointer first is a null
  dereference.\<close>

partial_function (option) find_at_height ::
  "blockstore \<Rightarrow> int \<Rightarrow> nat option \<Rightarrow> blockentry option option" where
  [code]: "find_at_height bs height e =
     (if e = bs_genesis bs then Some None
      else do {
        a \<leftarrow> e;
        be \<leftarrow> deref bs a;
        if be_height be = height then Some (Some be) else find_at_height bs height (be_prev be)
      })"

definition blockstore_get_block_at_height ::
  "(byte list \<Rightarrow> uint256) \<Rightarrow> blockstore \<Rightarrow> int \<Rightarrow> (uint256 \<times> btc_block_header) option option" where
  "blockstore_get_block_at_height sha bs height = do {
     ASSERT (height \<le> bs_height bs);
     r \<leftarrow> find_at_height bs height (bs_best_chain bs);
     Some (map_option (\<lambda>be. (hdr_hash sha (be_header be), be_header be)) r)
   }"

partial_function (option) find_before ::
  "blockstore \<Rightarrow> u64 \<Rightarrow> nat option \<Rightarrow> blockentry option option" where
  [code]: "find_before bs birth e =
     (if e = bs_genesis bs then Some None
      else do {
        a \<leftarrow> e;
        be \<leftarrow> deref bs a;
        if ucast (bh_timestamp (be_header be)) < birth then Some (Some be)
        else find_before bs birth (be_prev be)
      })"

definition blockstore_get_hash_from_birth ::
  "(byte list \<Rightarrow> uint256) \<Rightarrow> blockstore \<Rightarrow> u64 \<Rightarrow> uint256 option" where
  "blockstore_get_hash_from_birth sha bs birth = do {
     r \<leftarrow> find_before bs birth (bs_best_chain bs);
     Some (case r of None \<Rightarrow> bs_genesis_hash bs | Some be \<Rightarrow> hdr_hash sha (be_header be))
   }"

definition blockstore_is_next ::
  "(byte list \<Rightarrow> uint256) \<Rightarrow> blockstore \<Rightarrow> uint256 \<Rightarrow> uint256 \<Rightarrow> bool option" where
  "blockstore_is_next sha bs prev nxt = do {
     r \<leftarrow> hashtable_lookup (bs_hash_blk bs) (hkey prev);
     case r of None \<Rightarrow> Some False
     | Some a \<Rightarrow> do {
         be \<leftarrow> deref bs a;
         case be_next be of None \<Rightarrow> Some False
         | Some n \<Rightarrow> do { e \<leftarrow> deref bs n; Some (uint256_issame (hdr_hash sha (be_header e)) nxt) }
       }
   }"

text \<open>At most \<open>num\<close> hashes along the \<open>next\<close> pointers.\<close>

primrec next_hashes :: "(byte list \<Rightarrow> uint256) \<Rightarrow> blockstore \<Rightarrow> nat \<Rightarrow> nat option \<Rightarrow> uint256 list option" where
  "next_hashes sha bs 0 be = Some []"
| "next_hashes sha bs (Suc num) be = (case be of None \<Rightarrow> Some []
     | Some a \<Rightarrow> do {
         e \<leftarrow> deref bs a;
         hs \<leftarrow> next_hashes sha bs num (be_next e);
         Some (hdr_hash sha (be_header e) # hs)
       })"

definition blockstore_get_next_hashes ::
  "(byte list \<Rightarrow> uint256) \<Rightarrow> blockstore \<Rightarrow> uint256 \<Rightarrow> uint256 list option" where
  "blockstore_get_next_hashes sha bs start = do {
     r \<leftarrow> hashtable_lookup (bs_hash_blk bs) (hkey start);
     case r of None \<Rightarrow> Some []
     | Some a \<Rightarrow> do {
         be \<leftarrow> deref bs a;
         if be_next be = None then Some [] else next_hashes sha bs 1000 (be_next be)
       }
   }"

definition blockstore_get_best_hash :: "blockstore \<Rightarrow> uint256" where
  "blockstore_get_best_hash bs = (if bs_best_chain bs = None then 0 else bs_best_hash bs)"

definition blockstore_get_genesis :: "blockstore \<Rightarrow> uint256" where
  "blockstore_get_genesis bs = bs_genesis_hash bs"

primrec prev_n :: "blockstore \<Rightarrow> nat \<Rightarrow> nat option \<Rightarrow> nat option option" where
  "prev_n bs 0 be = Some be"
| "prev_n bs (Suc i) be = (case be of None \<Rightarrow> Some None
     | Some a \<Rightarrow> do { e \<leftarrow> deref bs a; prev_n bs i (be_prev e) })"

text \<open>The locator: ten consecutive hashes, then steps that double; \<open>n\<close> hashes are in the
  64-entry array so far. \<open>i < step\<close> compares an \<open>int\<close> with a \<open>uint32\<close>.\<close>

partial_function (option) locator_loop ::
  "(byte list \<Rightarrow> uint256) \<Rightarrow> blockstore \<Rightarrow> nat option \<Rightarrow> u32 \<Rightarrow> nat \<Rightarrow> uint256 list option" where
  [code]: "locator_loop sha bs be step n = (case be of None \<Rightarrow> Some []
     | Some a \<Rightarrow> do {
         ASSERT (n < 64);
         e \<leftarrow> deref bs a;
         let n = n + 1;
         let step = (if 10 \<le> n then step * 2 else step);
         be \<leftarrow> prev_n bs (unat step) be;
         hs \<leftarrow> locator_loop sha bs be step n;
         Some (hdr_hash sha (be_header e) # hs)
       })"

definition blockstore_get_locator_hashes :: "(byte list \<Rightarrow> uint256) \<Rightarrow> blockstore \<Rightarrow> uint256 list option" where
  "blockstore_get_locator_hashes sha bs = locator_loop sha bs (bs_best_chain bs) 1 0"

definition blockstore_get_block_timestamp :: "blockstore \<Rightarrow> uint256 option \<Rightarrow> u64 option" where
  "blockstore_get_block_timestamp bs hash =
     (if uint256_iszero hash then Some 0
      else do {
        h \<leftarrow> hash;
        r \<leftarrow> blockstore_lookup bs h;
        a \<leftarrow> r;
        e \<leftarrow> deref bs a;
        Some (ucast (bh_timestamp (be_header e)))
      })"

definition blockstore_has_header :: "blockstore \<Rightarrow> uint256 \<Rightarrow> bool option" where
  "blockstore_has_header bs hash =
     map_option (\<lambda>r. r \<noteq> None) (hashtable_lookup (bs_hash_blk bs) (hkey hash))"

definition blockstore_is_orphan :: "blockstore \<Rightarrow> uint256 \<Rightarrow> bool option" where
  "blockstore_is_orphan bs hash =
     map_option (\<lambda>r. r \<noteq> None) (hashtable_lookup (bs_hash_orphans bs) (hkey hash))"

definition blockstore_is_block_known :: "blockstore \<Rightarrow> uint256 \<Rightarrow> bool option" where
  "blockstore_is_block_known bs hash = do {
     s \<leftarrow> blockstore_has_header bs hash;
     if s then Some True else blockstore_is_orphan bs hash
   }"

section \<open>Adding a block\<close>

text \<open>The loop that turns the rest of the old best chain into orphans.\<close>

partial_function (option) orphan_tail ::
  "(byte list \<Rightarrow> uint256) \<Rightarrow> nat option \<Rightarrow> blockstore \<Rightarrow> blockstore option" where
  [code]: "orphan_tail sha li bs = (case li of None \<Rightarrow> Some bs
     | Some a \<Rightarrow> do {
         e \<leftarrow> deref bs a;
         let hash = hdr_hash sha (be_header e);
         (s, blk) \<leftarrow> hashtable_remove (bs_hash_blk bs) (hkey hash);
         ASSERT s;
         let bs = assign a (\<lambda>e. e\<lparr>be_height := -1\<rparr>) (bs\<lparr>bs_hash_blk := blk\<rparr>);
         (s, orph) \<leftarrow> hashtable_insert (bs_hash_orphans bs) (hkey hash) a;
         ASSERT s;
         orphan_tail sha (be_next e) (bs\<lparr>bs_hash_orphans := orph\<rparr>)
       })"

partial_function (option) blockstore_set_chain_links ::
  "(byte list \<Rightarrow> uint256) \<Rightarrow> nat \<Rightarrow> blockstore \<Rightarrow> (int \<times> blockstore) option" where
  [code]: "blockstore_set_chain_links sha be bs = do {
     e \<leftarrow> deref bs be;
     let hash = hdr_hash sha (be_header e);
     if 0 \<le> be_height e
     then do { bs \<leftarrow> orphan_tail sha (be_next e) bs; Some (be_height e, bs) }
     else do {
       ASSERT (be_height e = -1);
       r \<leftarrow> blockstore_lookup bs (bh_prevBlock (be_header e));
       prev \<leftarrow> r;
       (h, bs) \<leftarrow> blockstore_set_chain_links sha prev bs;
       let bs = assign be (\<lambda>e. e\<lparr>be_height := 1 + h\<rparr>) bs;
       let bs = assign prev (\<lambda>e. e\<lparr>be_next := Some be\<rparr>) bs;
       let bs = assign be (\<lambda>e. e\<lparr>be_prev := Some prev\<rparr>) bs;
       (s, orph) \<leftarrow> hashtable_remove (bs_hash_orphans bs) (hkey hash);
       ASSERT s;
       (s, blk) \<leftarrow> hashtable_insert (bs_hash_blk bs) (hkey hash) be;
       ASSERT s;
       Some (1 + h, bs\<lparr>bs_hash_orphans := orph, bs_hash_blk := blk\<rparr>)
     }
   }"

partial_function (option) blockstore_find_alternate_chain_height ::
  "blockstore \<Rightarrow> nat \<Rightarrow> int option" where
  [code]: "blockstore_find_alternate_chain_height bs be = do {
     e \<leftarrow> deref bs be;
     if 0 < be_height e then Some (be_height e)
     else do {
       ASSERT (be_height e = -1);
       r \<leftarrow> blockstore_lookup bs (bh_prevBlock (be_header e));
       case r of None \<Rightarrow> Some 0
       | Some prev \<Rightarrow> do { h \<leftarrow> blockstore_find_alternate_chain_height bs prev; Some (1 + h) }
     }
   }"

definition blockstore_set_best_chain ::
  "(byte list \<Rightarrow> uint256) \<Rightarrow> nat \<Rightarrow> uint256 \<Rightarrow> blockstore \<Rightarrow> blockstore option" where
  "blockstore_set_best_chain sha be hash bs = do {
     height \<leftarrow> blockstore_find_alternate_chain_height bs be;
     if height \<le> bs_height bs then Some bs
     else do {
       (_, bs) \<leftarrow> blockstore_set_chain_links sha be bs;
       Some (bs\<lparr>bs_best_chain := Some be, bs_height := height, bs_best_hash := hash\<rparr>)
     }
   }"

definition blockstore_add_entry ::
  "(byte list \<Rightarrow> uint256) \<Rightarrow> nat \<Rightarrow> uint256 \<Rightarrow> blockstore \<Rightarrow> blockstore option" where
  "blockstore_add_entry sha be hash bs = do {
     e \<leftarrow> deref bs be;
     case bs_best_chain bs of
       None \<Rightarrow> do {
         (s, blk) \<leftarrow> hashtable_insert (bs_hash_blk bs) (hkey hash) be;
         ASSERT s;
         ASSERT (uint256_issame hash (bs_genesis_hash bs));
         ASSERT (be_prev e = None);
         ASSERT (bs_height bs \<noteq> 0);
         Some (assign be (\<lambda>e. e\<lparr>be_height := 0\<rparr>)
           (bs\<lparr>bs_hash_blk := blk, bs_best_chain := Some be, bs_genesis := Some be, bs_height := 0,
              bs_best_hash := hash\<rparr>))
       }
     | Some best \<Rightarrow>
         if uint256_issame (bh_prevBlock (be_header e)) (bs_best_hash bs)
         then do {
           (s, blk) \<leftarrow> hashtable_insert (bs_hash_blk bs) (hkey hash) be;
           ASSERT s;
           let bs = bs\<lparr>bs_hash_blk := blk, bs_height := bs_height bs + 1\<rparr>;
           let bs = assign be (\<lambda>e. e\<lparr>be_height := bs_height bs\<rparr>) bs;
           ASSERT (best < length (bs_heap bs));
           let bs = assign best (\<lambda>e. e\<lparr>be_next := Some be\<rparr>) bs;
           let bs = assign be (\<lambda>e. e\<lparr>be_prev := Some best\<rparr>) bs;
           Some (bs\<lparr>bs_best_chain := Some be, bs_best_hash := hash\<rparr>)
         }
         else do {
           let bs = assign be (\<lambda>e. e\<lparr>be_height := -1\<rparr>) bs;
           (s, orph) \<leftarrow> hashtable_insert (bs_hash_orphans bs) (hkey hash) be;
           ASSERT s;
           blockstore_set_best_chain sha be hash (bs\<lparr>bs_hash_orphans := orph\<rparr>)
         }
   }"

definition blockstore_alloc_entry :: "btc_block_header \<Rightarrow> blockstore \<Rightarrow> nat \<times> blockstore" where
  "blockstore_alloc_entry hdr bs =
     (length (bs_heap bs),
      bs\<lparr>bs_heap := bs_heap bs @ [\<lparr>be_prev = None, be_next = None, be_header = hdr, be_height = 0,
                                    be_written = False\<rparr>]\<rparr>)"

text \<open>The result: whether the header was added and whether it is an orphan now.\<close>

definition blockstore_add_header ::
  "(byte list \<Rightarrow> uint256) \<Rightarrow> btc_block_header \<Rightarrow> uint256 \<Rightarrow> blockstore \<Rightarrow>
   ((bool \<times> bool) \<times> blockstore) option" where
  "blockstore_add_header sha hdr hash bs = do {
     let bs = bs\<lparr>bs_count := bs_count bs + 1\<rparr>;
     ASSERT (bs_count bs mod 32 = 0 \<longrightarrow> uint256_issame hash (hdr_hash sha hdr));
     r \<leftarrow> blockstore_lookup bs hash;
     if r \<noteq> None then Some ((False, False), bs)
     else do {
       ASSERT (blockstore_validate_chkpt (bs_cpts bs) hash (of_int (bs_height bs + 1)));
       ASSERT (bs_best_chain bs \<noteq> None \<or> uint256_issame hash (bs_genesis_hash bs));
       let (be, bs) = blockstore_alloc_entry hdr bs;
       bs \<leftarrow> blockstore_add_entry sha be hash bs;
       e \<leftarrow> deref bs be;
       Some ((True, be_height e = -1), bs)
     }
   }"

section \<open>The headers file\<close>

text \<open>The entries not written yet, from the best block back to the first written one.\<close>

partial_function (option) unwritten :: "blockstore \<Rightarrow> nat option \<Rightarrow> nat list option" where
  [code]: "unwritten bs e = (case e of None \<Rightarrow> Some []
     | Some a \<Rightarrow> do {
         be \<leftarrow> deref bs a;
         if be_written be then Some []
         else do { as \<leftarrow> unwritten bs (be_prev be); Some (a # as) }
       })"

definition mark_written :: "nat list \<Rightarrow> blockstore \<Rightarrow> blockstore" where
  "mark_written as bs = fold (\<lambda>a. assign a (\<lambda>e. e\<lparr>be_written := True\<rparr>)) as bs"

text \<open>\<open>file_pwrite\<close> may fail or write less than asked (\<open>wr\<close>: whether it failed and how many
  bytes it wrote). Bytes beyond the end of a file read as zero.\<close>

definition blockstore_write_headers :: "bool \<times> nat \<Rightarrow> blockstore \<Rightarrow> blockstore option" where
  "blockstore_write_headers wr bs = do {
     as \<leftarrow> unwritten bs (bs_best_chain bs);
     let numhdr = length as;
     ASSERT (numhdr < 2048);
     if numhdr = 0 then Some bs
     else do {
       let buf = concat (map (\<lambda>a. enc_blockheader (be_header (bs_heap bs ! a))) (rev as));
       let bs = mark_written as bs;
       let (res, numWritten) = (fst wr, min (snd wr) (length buf));
       let bs = bs\<lparr>bs_file := (if res then bs_file bs
                   else file_store (bs_file bs) (bs_filesize bs) (take numWritten buf))\<rparr>;
       if res \<or> numWritten \<noteq> numhdr * 80 then Some bs
       else Some (bs\<lparr>bs_filesize := bs_filesize bs + numWritten\<rparr>)
     }
   }"

definition hdr_of_bytes :: "byte list \<Rightarrow> btc_block_header" where
  "hdr_of_bytes b = \<lparr>bh_version = le_word (take 4 b), bh_prevBlock = le_word (take 32 (drop 4 b)),
     bh_merkleRoot = le_word (take 32 (drop 36 b)), bh_timestamp = le_word (take 4 (drop 68 b)),
     bh_bits = le_word (take 4 (drop 72 b)), bh_nonce = le_word (take 4 (drop 76 b))\<rparr>"

text \<open>The headers of one read of the file, in order; the flag is the early return at a failed
  checkpoint.\<close>

primrec load_headers ::
  "(byte list \<Rightarrow> uint256) \<Rightarrow> btc_block_header list \<Rightarrow> blockstore \<Rightarrow> (bool \<times> blockstore) option" where
  "load_headers sha [] bs = Some (False, bs)"
| "load_headers sha (hdr # hdrs) bs = do {
     let (be, bs) = blockstore_alloc_entry hdr bs;
     let bs = assign be (\<lambda>e. e\<lparr>be_written := True\<rparr>) bs;
     let hash = hdr_hash sha hdr;
     if \<not> blockstore_validate_chkpt (bs_cpts bs) hash (of_int (bs_height bs + 1))
     then Some (True, bs)
     else do { bs \<leftarrow> blockstore_add_entry sha be hash bs; load_headers sha hdrs bs }
   }"

text \<open>The headers in a run of bytes; what is left of a last incomplete one is ignored.\<close>

function split_headers :: "byte list \<Rightarrow> btc_block_header list" where
  "split_headers b = (if length b < 80 then [] else hdr_of_bytes b # split_headers (drop 80 b))"
  by auto
termination by (relation "measure length") auto

declare split_headers.simps [simp del]

text \<open>The file is read in pieces of at most 10000 headers. \<open>rd\<close> is the outcome of each
  \<open>file_pread\<close>: a failure, or all the bytes asked for; \<open>stop\<close> is \<open>btc->stop\<close>.\<close>

function load_file ::
  "(byte list \<Rightarrow> uint256) \<Rightarrow> (nat \<Rightarrow> bool) \<Rightarrow> bool \<Rightarrow> nat \<Rightarrow> blockstore \<Rightarrow> (bool \<times> blockstore) option" where
  "load_file sha rd stop offset bs =
     (if bs_filesize bs \<le> offset then Some (False, bs)
      else if rd offset then Some (True, bs)
      else if stop then Some (True, bs)
      else (let numBytes = min (bs_filesize bs - offset) (10000 * 80);
                buf = take numBytes (drop offset (bs_file bs))
            in case load_headers sha (split_headers buf) bs of None \<Rightarrow> None
               | Some (r, bs') \<Rightarrow> if r then Some (True, bs')
                   else load_file sha rd stop (offset + numBytes)
                          (bs'\<lparr>bs_file := bs_file bs, bs_filesize := bs_filesize bs\<rparr>)))"
  by auto
termination
  by (relation "measure (\<lambda>(sha, rd, stop, offset, bs). bs_filesize bs - offset)") auto

declare load_file.simps [simp del]

definition blockset_open_file ::
  "(byte list \<Rightarrow> uint256) \<Rightarrow> (nat \<Rightarrow> bool) \<Rightarrow> bool \<Rightarrow> byte list \<Rightarrow> blockstore \<Rightarrow> (bool \<times> blockstore) option" where
  "blockset_open_file sha rd stop file bs =
     load_file sha rd stop 0 (bs\<lparr>bs_file := file, bs_filesize := length file\<rparr>)"

text \<open>\<open>blockstore_init\<close> on an existing (possibly empty) headers file. The counter is static
  storage, which starts at zero.\<close>

definition blockstore_create :: "(u32 \<times> string) list \<Rightarrow> blockstore option" where
  "blockstore_create strs = do {
     blk \<leftarrow> hashtable_create;
     orph \<leftarrow> hashtable_create;
     cpts \<leftarrow> parse_cpts strs;
     ASSERT (cpts \<noteq> []);
     Some \<lparr>bs_heap = [], bs_file = [], bs_filesize = 0, bs_genesis_hash = snd (hd cpts),
           bs_best_hash = 0, bs_best_chain = None, bs_genesis = None, bs_height = -1,
           bs_hash_blk = blk, bs_hash_orphans = orph, bs_cpts = cpts, bs_count = 0\<rparr>
   }"

definition blockstore_init ::
  "(byte list \<Rightarrow> uint256) \<Rightarrow> (nat \<Rightarrow> bool) \<Rightarrow> bool \<Rightarrow> bool \<Rightarrow> byte list \<Rightarrow> (bool \<times> blockstore) option" where
  "blockstore_init sha rd stop testnet file = do {
     bs \<leftarrow> blockstore_create (if testnet then cpt_testnet else cpt_main);
     blockset_open_file sha rd stop file bs
   }"

text \<open>What \<open>blockstore_exit\<close> writes and the entries it releases.\<close>

definition blockstore_exit :: "bool \<times> nat \<Rightarrow> blockstore option \<Rightarrow> (byte list \<times> nat list) option" where
  "blockstore_exit wr b = (case b of None \<Rightarrow> Some ([], [])
     | Some bs \<Rightarrow> do {
         bs \<leftarrow> blockstore_write_headers wr bs;
         (blk, freed1) \<leftarrow> hashtable_clear_with_free (bs_hash_blk bs);
         (orph, freed2) \<leftarrow> hashtable_clear_with_free (bs_hash_orphans bs);
         _ \<leftarrow> hashtable_destroy blk;
         _ \<leftarrow> hashtable_destroy orph;
         Some (bs_file bs, freed1 @ freed2)
       })"

section \<open>The invariant\<close>

definition ehash :: "(byte list \<Rightarrow> uint256) \<Rightarrow> blockstore \<Rightarrow> nat \<Rightarrow> uint256" where
  "ehash sha bs a = hdr_hash sha (be_header (bs_heap bs ! a))"

text \<open>\<open>pre\<close> is a chain from genesis: linked both ways, each block naming the one before it, its
  height its position. \<open>tail\<close> lists blocks still in \<open>hash_blk\<close> that are not part of it, in
  the order of their \<open>next\<close> pointers (while a reorganisation takes the old chain apart).\<close>

definition linked :: "(byte list \<Rightarrow> uint256) \<Rightarrow> nat list \<Rightarrow> blockstore \<Rightarrow> bool" where
  "linked sha pre bs \<longleftrightarrow> (\<forall>i < length pre. let e = bs_heap bs ! (pre ! i) in
     be_height e = int i \<and> be_prev e = (if i = 0 then None else Some (pre ! (i - 1))) \<and>
     (Suc i < length pre \<longrightarrow> be_next e = Some (pre ! Suc i)) \<and>
     (0 < i \<longrightarrow> bh_prevBlock (be_header e) = ehash sha bs (pre ! (i - 1))))"

primrec next_list :: "nat list \<Rightarrow> blockstore \<Rightarrow> bool" where
  "next_list [] bs = True"
| "next_list (a # as) bs \<longleftrightarrow>
     be_next (bs_heap bs ! a) = (case as of [] \<Rightarrow> None | b # _ \<Rightarrow> Some b) \<and> next_list as bs"

definition tables :: "(byte list \<Rightarrow> uint256) \<Rightarrow> nat list \<Rightarrow> blockstore \<Rightarrow> bool" where
  "tables sha main bs \<longleftrightarrow> ht_wf (bs_hash_blk bs) \<and> ht_wf (bs_hash_orphans bs) \<and>
     distinct main \<and> (\<forall>a\<in>set main. a < length (bs_heap bs)) \<and>
     (\<forall>k a. ht_map (bs_hash_blk bs) k = Some a \<longleftrightarrow> a \<in> set main \<and> k = hkey (ehash sha bs a)) \<and>
     (\<forall>k a. ht_map (bs_hash_orphans bs) k = Some a \<longrightarrow>
        a < length (bs_heap bs) \<and> be_height (bs_heap bs ! a) = -1 \<and> k = hkey (ehash sha bs a) \<and>
        a \<notin> set main \<and> ht_map (bs_hash_blk bs) k = None)"

text \<open>The states the store goes through, with its best chain \<open>cs\<close>.\<close>

definition bs_ok :: "(byte list \<Rightarrow> uint256) \<Rightarrow> nat list \<Rightarrow> blockstore \<Rightarrow> bool" where
  "bs_ok sha cs bs \<longleftrightarrow> linked sha cs bs \<and> tables sha cs bs \<and>
     bs_height bs = int (length cs) - 1 \<and>
     (if cs = [] then bs_best_chain bs = None \<and> bs_genesis bs = None \<and>
        ht_map (bs_hash_orphans bs) = Map.empty
      else bs_best_chain bs = Some (last cs) \<and> bs_genesis bs = Some (hd cs) \<and>
        be_next (bs_heap bs ! last cs) = None \<and>
        bs_best_hash bs = ehash sha bs (last cs) \<and> ehash sha bs (hd cs) = bs_genesis_hash bs)"

lemma bs_okD:
  assumes "bs_ok sha cs bs" and "cs \<noteq> []"
  shows "linked sha cs bs" "tables sha cs bs" "bs_height bs = int (length cs) - 1"
    "bs_best_chain bs = Some (last cs)" "bs_genesis bs = Some (hd cs)"
    "be_next (bs_heap bs ! last cs) = None" "bs_best_hash bs = ehash sha bs (last cs)"
    "ehash sha bs (hd cs) = bs_genesis_hash bs"
  using assms by (simp_all add: bs_ok_def)

section \<open>Heap updates\<close>

lemma assign_sel [simp]:
  "length (bs_heap (assign a f bs)) = length (bs_heap bs)"
  "bs_hash_blk (assign a f bs) = bs_hash_blk bs" "bs_hash_orphans (assign a f bs) = bs_hash_orphans bs"
  "bs_height (assign a f bs) = bs_height bs" "bs_best_chain (assign a f bs) = bs_best_chain bs"
  "bs_genesis (assign a f bs) = bs_genesis bs" "bs_best_hash (assign a f bs) = bs_best_hash bs"
  "bs_genesis_hash (assign a f bs) = bs_genesis_hash bs" "bs_cpts (assign a f bs) = bs_cpts bs"
  "bs_file (assign a f bs) = bs_file bs" "bs_filesize (assign a f bs) = bs_filesize bs"
  by (simp_all add: assign_def)

lemma assign_nth [simp]:
  "x < length (bs_heap bs) \<Longrightarrow>
     bs_heap (assign a f bs) ! x = (if x = a then f (bs_heap bs ! x) else bs_heap bs ! x)"
  by (simp add: assign_def nth_list_update)

lemma ehash_assign [simp]:
  assumes "\<And>e. be_header (f e) = be_header e"
  shows "ehash sha (assign a f bs) = ehash sha bs"
proof
  fix x
  show "ehash sha (assign a f bs) x = ehash sha bs x"
    using assms by (cases "a < length (bs_heap bs)") (auto simp: ehash_def assign_def nth_list_update list_update_beyond)
qed

lemma ehash_tables [simp]:
  "ehash sha (bs\<lparr>bs_hash_blk := t\<rparr>) = ehash sha bs" "ehash sha (bs\<lparr>bs_hash_orphans := t\<rparr>) = ehash sha bs"
  "ehash sha (bs\<lparr>bs_best_chain := p\<rparr>) = ehash sha bs" "ehash sha (bs\<lparr>bs_genesis := p\<rparr>) = ehash sha bs"
  "ehash sha (bs\<lparr>bs_best_hash := h\<rparr>) = ehash sha bs" "ehash sha (bs\<lparr>bs_height := i\<rparr>) = ehash sha bs"
  "ehash sha (bs\<lparr>bs_count := c\<rparr>) = ehash sha bs"
  by (simp_all add: ehash_def fun_eq_iff)

lemma deref_Some [simp]: "a < length (bs_heap bs) \<Longrightarrow> deref bs a = Some (bs_heap bs ! a)"
  by (simp add: deref_def)

lemma deref_eq_Some: "deref bs a = Some e \<longleftrightarrow> a < length (bs_heap bs) \<and> e = bs_heap bs ! a"
  by (auto simp: deref_def)

lemma hkey_inj [simp]: "hkey a = hkey b \<longleftrightarrow> a = b"
proof -
  have "le_word (le_bytes h) = h" for h :: uint256 by (rule le_word_le_bytes) simp
  then show ?thesis unfolding hkey_def by metis
qed

section \<open>Taking the old chain apart\<close>

text \<open>What a step may change besides the tables: heights and links, nothing else.\<close>

definition same_frame :: "blockstore \<Rightarrow> blockstore \<Rightarrow> bool" where
  "same_frame bs bs' \<longleftrightarrow> map be_header (bs_heap bs') = map be_header (bs_heap bs) \<and>
     map be_written (bs_heap bs') = map be_written (bs_heap bs) \<and>
     bs_file bs' = bs_file bs \<and> bs_filesize bs' = bs_filesize bs \<and>
     bs_genesis_hash bs' = bs_genesis_hash bs \<and> bs_best_hash bs' = bs_best_hash bs \<and>
     bs_best_chain bs' = bs_best_chain bs \<and> bs_genesis bs' = bs_genesis bs \<and>
     bs_height bs' = bs_height bs \<and> bs_cpts bs' = bs_cpts bs \<and> bs_count bs' = bs_count bs"

lemma same_frame_refl [simp]: "same_frame bs bs"
  by (simp add: same_frame_def)

lemma same_frame_trans: "same_frame a b \<Longrightarrow> same_frame b c \<Longrightarrow> same_frame a c"
  by (simp add: same_frame_def)

lemma map_update_same: "f y = f (xs ! a) \<Longrightarrow> map f (xs[a := y]) = map f xs"
  by (cases "a < length xs") (simp_all add: map_update list_update_beyond, metis list_update_id nth_map)

lemma same_frame_assign [simp]:
  assumes "\<And>e. be_header (f e) = be_header e" and "\<And>e. be_written (f e) = be_written e"
  shows "same_frame bs (assign a f bs)"
  using assms by (simp add: same_frame_def assign_def map_update_same)

lemma same_frame_tables [simp]:
  "same_frame bs (b\<lparr>bs_hash_blk := t\<rparr>) = same_frame bs b"
  "same_frame bs (b\<lparr>bs_hash_orphans := t\<rparr>) = same_frame bs b"
  "same_frame (b\<lparr>bs_hash_blk := t\<rparr>) bs = same_frame b bs"
  "same_frame (b\<lparr>bs_hash_orphans := t\<rparr>) bs = same_frame b bs"
  by (simp_all add: same_frame_def)

lemma same_frame_ehash:
  assumes "same_frame bs bs'" and "a < length (bs_heap bs)"
  shows "ehash sha bs' a = ehash sha bs a" "length (bs_heap bs') = length (bs_heap bs)"
proof -
  have m: "map be_header (bs_heap bs') = map be_header (bs_heap bs)" using assms(1) by (simp add: same_frame_def)
  then show l: "length (bs_heap bs') = length (bs_heap bs)" by (metis length_map)
  show "ehash sha bs' a = ehash sha bs a" unfolding ehash_def using assms(2) l m by (metis nth_map)
qed

lemma tables_orphD:
  assumes "tables sha main bs" and "ht_map (bs_hash_orphans bs) k = Some a"
  shows "a < length (bs_heap bs)" "be_height (bs_heap bs ! a) = -1" "k = hkey (ehash sha bs a)"
    "a \<notin> set main" "ht_map (bs_hash_blk bs) k = None"
  using assms unfolding tables_def by blast+

lemma tables_blkD:
  assumes "tables sha main bs"
  shows "ht_map (bs_hash_blk bs) k = Some a \<longleftrightarrow> a \<in> set main \<and> k = hkey (ehash sha bs a)"
  using assms unfolding tables_def by blast

lemma tables_disjoint:
  assumes "tables sha main bs" and "ht_map (bs_hash_blk bs) k = Some a"
  shows "ht_map (bs_hash_orphans bs) k = None"
  using tables_orphD(5) [OF assms(1)] assms(2) by (cases "ht_map (bs_hash_orphans bs) k") auto

lemma tables_inj:
  assumes "tables sha main bs" and "a \<in> set main" and "b \<in> set main" and "ehash sha bs a = ehash sha bs b"
  shows "a = b"
  using tables_blkD [OF assms(1), of "hkey (ehash sha bs a)"] assms(2-4) by (metis option.inject)

lemma tables_wf:
  assumes "tables sha main bs"
  shows "ht_wf (bs_hash_blk bs)" "ht_wf (bs_hash_orphans bs)" "distinct main"
    "\<And>a. a \<in> set main \<Longrightarrow> a < length (bs_heap bs)"
  using assms unfolding tables_def by blast+

lemma orphan_tail_ok:
  assumes "tables sha (pre @ tail) bs" and "next_list tail bs"
  shows "\<exists>bs'. orphan_tail sha (case tail of [] \<Rightarrow> None | a # _ \<Rightarrow> Some a) bs = Some bs' \<and>
     tables sha pre bs' \<and> same_frame bs bs' \<and>
     (\<forall>x. x \<notin> set tail \<longrightarrow> bs_heap bs' ! x = bs_heap bs ! x) \<and>
     (\<forall>x < length (bs_heap bs). be_next (bs_heap bs' ! x) = be_next (bs_heap bs ! x)) \<and>
     (\<forall>k a. ht_map (bs_hash_orphans bs') k = Some a \<longrightarrow> ht_map (bs_hash_orphans bs) k = Some a \<or> a \<in> set tail) \<and>
     (\<forall>k a. ht_map (bs_hash_orphans bs) k = Some a \<longrightarrow> ht_map (bs_hash_orphans bs') k = Some a)"
  using assms
proof (induction tail arbitrary: bs)
  case Nil
  show ?case using Nil.prems
    by (intro exI [of _ bs]) (auto simp: orphan_tail.simps same_frame_def)
next
  case (Cons a tail)
  let ?k = "hkey (ehash sha bs a)"
  have T: "ht_wf (bs_hash_blk bs)" "ht_wf (bs_hash_orphans bs)" "a < length (bs_heap bs)"
    "ht_map (bs_hash_blk bs) ?k = Some a"
    using Cons.prems(1) by (auto simp: tables_def)
  obtain blk where blk: "hashtable_remove (bs_hash_blk bs) ?k = Some (True, blk)" "ht_wf blk"
    "ht_map blk = (ht_map (bs_hash_blk bs))(?k := None)"
    using hts.remove_law [OF T(1), of ?k] T(4) by auto
  have on: "ht_map (bs_hash_orphans bs) ?k = None"
    using tables_disjoint [OF Cons.prems(1) T(4)] .
  obtain orph where orph: "hashtable_insert (bs_hash_orphans bs) ?k a = Some (True, orph)" "ht_wf orph"
    "ht_map orph = (ht_map (bs_hash_orphans bs))(?k \<mapsto> a)"
    using hts.insert_law [OF T(2), of ?k a] on by auto
  let ?bs1 = "assign a (\<lambda>e. e\<lparr>be_height := -1\<rparr>) (bs\<lparr>bs_hash_blk := blk\<rparr>)"
  let ?bs = "?bs1\<lparr>bs_hash_orphans := orph\<rparr>"
  have step: "orphan_tail sha (Some a) bs = orphan_tail sha (be_next (bs_heap bs ! a)) ?bs"
    using T blk(1) orph(1) by (subst orphan_tail.simps) (simp add: ehash_def)
  have nx: "be_next (bs_heap bs ! a) = (case tail of [] \<Rightarrow> None | b # _ \<Rightarrow> Some b)"
    using Cons.prems(2) by simp
  have heap: "bs_heap ?bs ! x = (if x = a then (bs_heap bs ! a)\<lparr>be_height := -1\<rparr> else bs_heap bs ! x)" for x
    using T(3) by (simp add: assign_def nth_list_update)
  have len: "length (bs_heap ?bs) = length (bs_heap bs)" by simp
  have eh: "ehash sha ?bs = ehash sha bs" by simp
  have inj: "\<forall>x\<in>set pre. ehash sha bs a \<noteq> ehash sha bs x" "\<forall>x\<in>set tail. ehash sha bs a \<noteq> ehash sha bs x"
    using tables_inj [OF Cons.prems(1), of a] tables_wf(3) [OF Cons.prems(1)] by auto
  have "tables sha (pre @ tail) ?bs"
    using Cons.prems(1) blk(2,3) orph(2,3) on inj
    unfolding tables_def eh len by (auto simp: heap split: if_splits)
  moreover have "next_list tail ?bs"
  proof -
    have "be_next (bs_heap ?bs ! x) = be_next (bs_heap bs ! x)" for x by (simp only: heap) simp
    then have "next_list ts ?bs = next_list ts bs" for ts
      by (induction ts) (simp_all only: next_list.simps)
    with Cons.prems(2) show ?thesis by simp
  qed
  ultimately obtain bs' where bs': "orphan_tail sha (case tail of [] \<Rightarrow> None | a # _ \<Rightarrow> Some a) ?bs = Some bs'"
     "tables sha pre bs'" "same_frame ?bs bs'"
     "\<forall>x. x \<notin> set tail \<longrightarrow> bs_heap bs' ! x = bs_heap ?bs ! x"
     "\<forall>x < length (bs_heap ?bs). be_next (bs_heap bs' ! x) = be_next (bs_heap ?bs ! x)"
     "\<forall>k a. ht_map (bs_hash_orphans bs') k = Some a \<longrightarrow> ht_map (bs_hash_orphans ?bs) k = Some a \<or> a \<in> set tail"
     "\<forall>k a. ht_map (bs_hash_orphans ?bs) k = Some a \<longrightarrow> ht_map (bs_hash_orphans bs') k = Some a"
    using Cons.IH [of ?bs] by blast
  have "same_frame (bs\<lparr>bs_hash_blk := blk\<rparr>) ?bs1" by (rule same_frame_assign) simp_all
  then have "same_frame bs ?bs" by simp
  then have "same_frame bs bs'" using bs'(3) same_frame_trans by blast
  moreover have "be_next (bs_heap bs' ! x) = be_next (bs_heap bs ! x)" if "x < length (bs_heap bs)" for x
    using bs'(5) that heap [of x] by (cases "x = a") simp_all
  moreover have "bs_heap bs' ! x = bs_heap bs ! x" if "x \<notin> set (a # tail)" for x
    using bs'(4) that heap [of x] by simp
  moreover have "ht_map (bs_hash_orphans bs') k = Some x \<longrightarrow>
      ht_map (bs_hash_orphans bs) k = Some x \<or> x \<in> set (a # tail)"
    "ht_map (bs_hash_orphans bs) k = Some x \<longrightarrow> ht_map (bs_hash_orphans bs') k = Some x" for k x
    using bs'(6,7) on by (cases "k = ?k"; fastforce simp: orph(3))+
  ultimately show ?case using bs'(1,2) step nx by auto
qed

section \<open>Reorganising\<close>

lemma lookup_main:
  assumes "tables sha main bs" and "blockstore_lookup bs h = Some (Some a)"
  shows "(a \<in> set main \<or> ht_map (bs_hash_orphans bs) (hkey h) = Some a) \<and> ehash sha bs a = h \<and> a < length (bs_heap bs)"
proof -
  have "ht_map (bs_hash_orphans bs) (hkey h) = Some a \<or> ht_map (bs_hash_blk bs) (hkey h) = Some a"
    using assms(2) hts.lookup_law [OF tables_wf(1) [OF assms(1)]] hts.lookup_law [OF tables_wf(2) [OF assms(1)]]
    by (auto simp: blockstore_lookup_def split: option.splits)
  then show ?thesis
  proof
    assume o: "ht_map (bs_hash_orphans bs) (hkey h) = Some a"
    from tables_orphD [OF assms(1) o] o show ?thesis by simp
  next
    assume "ht_map (bs_hash_blk bs) (hkey h) = Some a"
    then show ?thesis using tables_blkD [OF assms(1)] tables_wf(4) [OF assms(1)] by auto
  qed
qed

text \<open>What \<open>blockstore_set_chain_links\<close> did when it returned: the chain now ends in \<open>be\<close>.\<close>

definition relinked :: "(byte list \<Rightarrow> uint256) \<Rightarrow> nat list \<Rightarrow> nat \<Rightarrow> blockstore \<Rightarrow> int \<Rightarrow> blockstore \<Rightarrow> bool" where
  "relinked sha cs be bs h bs' \<longleftrightarrow> (\<exists>j os. j < length cs \<and>
     (let cs' = take (Suc j) cs @ os in
        linked sha cs' bs' \<and> tables sha cs' bs' \<and> last cs' = be \<and> h = int (length cs') - 1 \<and>
        same_frame bs bs' \<and>
        (\<forall>x < length (bs_heap bs). x \<notin> set (butlast cs') \<longrightarrow> be_next (bs_heap bs' ! x) = be_next (bs_heap bs ! x)) \<and>
        (\<forall>k a. ht_map (bs_hash_orphans bs') k = Some a \<longrightarrow>
           ht_map (bs_hash_orphans bs) k = Some a \<or> a \<in> set (drop (Suc j) cs))))"

lemma next_list_drop:
  assumes "linked sha cs bs" and "be_next (bs_heap bs ! last cs) = None"
  shows "next_list (drop j cs) bs"
proof (induction "length cs - j" arbitrary: j)
  case 0
  then show ?case by simp
next
  case (Suc n)
  then have j: "j < length cs" by simp
  have d: "drop j cs = cs ! j # drop (Suc j) cs" using j by (rule Cons_nth_drop_Suc [symmetric])
  have "next_list (drop (Suc j) cs) bs" using Suc by (intro Suc.hyps) simp
  moreover have "be_next (bs_heap bs ! (cs ! j)) = (case drop (Suc j) cs of [] \<Rightarrow> None | b # _ \<Rightarrow> Some b)"
  proof (cases "Suc j < length cs")
    case True
    then have "drop (Suc j) cs = cs ! Suc j # drop (Suc (Suc j)) cs" by (rule Cons_nth_drop_Suc [symmetric])
    with True j assms(1) show ?thesis by (auto simp: linked_def Let_def)
  next
    case False
    then have "last cs = cs ! j" using j by (metis Suc_lessI diff_Suc_1 last_conv_nth length_0_conv less_nat_zero_code)
    with False assms(2) show ?thesis by simp
  qed
  ultimately show ?case unfolding d by simp
qed

lemma linked_take:
  assumes "linked sha cs bs" and "\<forall>a\<in>set cs. a < length (bs_heap bs)"
    and "same_frame bs bs'" and "\<forall>x\<in>set (take (Suc j) cs). bs_heap bs' ! x = bs_heap bs ! x"
  shows "linked sha (take (Suc j) cs) bs'"
proof -
  have e: "ehash sha bs' (cs ! i) = ehash sha bs (cs ! i)" if "i < length cs" for i
    using same_frame_ehash(1) [OF assms(3)] assms(2) that by simp
  have "bs_heap bs' ! (cs ! i) = bs_heap bs ! (cs ! i)" if "i < length cs" "i < Suc j" for i
    using assms(4) that by (metis in_set_conv_nth length_take min_less_iff_conj nth_take)
  then show ?thesis using assms(1) e unfolding linked_def Let_def by (auto simp: less_imp_diff_less)
qed

lemma linked_heights:
  assumes "linked sha cs bs" and "a \<in> set cs"
  shows "0 \<le> be_height (bs_heap bs ! a)"
  using assms by (auto simp: linked_def Let_def in_set_conv_nth)

lemma relink_junction:
  assumes "linked sha cs bs" and "tables sha cs bs" and "be_next (bs_heap bs ! last cs) = None"
    and j: "j < length cs" and "orphan_tail sha (be_next (bs_heap bs ! (cs ! j))) bs = Some bs'"
  shows "relinked sha cs (cs ! j) bs (int j) bs'"
proof -
  have d: "drop j cs = cs ! j # drop (Suc j) cs" using j by (rule Cons_nth_drop_Suc [symmetric])
  have "next_list (drop j cs) bs" using next_list_drop assms by blast
  then have nl: "next_list (drop (Suc j) cs) bs"
    and nx: "be_next (bs_heap bs ! (cs ! j)) = (case drop (Suc j) cs of [] \<Rightarrow> None | b # _ \<Rightarrow> Some b)"
    unfolding d by simp_all
  have t: "tables sha (take (Suc j) cs @ drop (Suc j) cs) bs" using assms(2) by simp
  have o: "tables sha (take (Suc j) cs) bs'" "same_frame bs bs'"
     "\<forall>x. x \<notin> set (drop (Suc j) cs) \<longrightarrow> bs_heap bs' ! x = bs_heap bs ! x"
     "\<forall>x < length (bs_heap bs). be_next (bs_heap bs' ! x) = be_next (bs_heap bs ! x)"
     "\<forall>k a. ht_map (bs_hash_orphans bs') k = Some a \<longrightarrow> ht_map (bs_hash_orphans bs) k = Some a \<or> a \<in> set (drop (Suc j) cs)"
    using orphan_tail_ok [OF t nl] assms(5) nx by auto
  have "set (take (Suc j) cs) \<inter> set (drop (Suc j) cs) = {}"
    using tables_wf(3) [OF assms(2)] by (rule set_take_disj_set_drop_if_distinct) simp
  then have "linked sha (take (Suc j) cs) bs'"
    using linked_take [OF assms(1) _ o(2)] tables_wf(4) [OF assms(2)] o(3) by blast
  moreover have "last (take (Suc j) cs) = cs ! j" using j by (simp add: take_Suc_conv_app_nth)
  moreover have "length (take (Suc j) cs) = Suc j" using j by simp
  ultimately show ?thesis using j o unfolding relinked_def by (intro exI [of _ j] exI [of _ "[]"]) simp
qed

text \<open>Appending a block to a chain.\<close>

lemma linked_snoc:
  assumes L: "linked sha cs bs" and T: "tables sha cs bs" and ne: "cs \<noteq> []" and last: "last cs = prev"
    and be: "be \<notin> set cs" "be < length (bs_heap bs)"
    and pv: "bh_prevBlock (be_header (bs_heap bs ! be)) = ehash sha bs prev"
    and heap: "\<And>x. x < length (bs_heap bs) \<Longrightarrow> bs_heap B ! x =
      (if x = be then (bs_heap bs ! be)\<lparr>be_height := int (length cs), be_prev := Some prev\<rparr>
       else if x = prev then (bs_heap bs ! prev)\<lparr>be_next := Some be\<rparr> else bs_heap bs ! x)"
    and eh: "ehash sha B = ehash sha bs"
  shows "linked sha (cs @ [be]) B"
  unfolding linked_def Let_def
proof (intro allI impI)
  fix i
  assume "i < length (cs @ [be])"
  then consider "i = length cs" | "Suc i = length cs" | "Suc i < length cs" by fastforce
  moreover have lst: "cs ! (length cs - 1) = prev" using last ne by (simp add: last_conv_nth)
  moreover have pm: "prev \<in> set cs" using last ne by auto
  moreover have pb: "prev \<noteq> be" using pm be by blast
  moreover have pl: "prev < length (bs_heap bs)" using pm tables_wf(4) [OF T] by blast
  ultimately show "be_height (bs_heap B ! ((cs @ [be]) ! i)) = int i \<and>
      be_prev (bs_heap B ! ((cs @ [be]) ! i)) = (if i = 0 then None else Some ((cs @ [be]) ! (i - 1))) \<and>
      (Suc i < length (cs @ [be]) \<longrightarrow> be_next (bs_heap B ! ((cs @ [be]) ! i)) = Some ((cs @ [be]) ! Suc i)) \<and>
      (0 < i \<longrightarrow> bh_prevBlock (be_header (bs_heap B ! ((cs @ [be]) ! i))) = ehash sha B ((cs @ [be]) ! (i - 1)))"
  proof cases
    case 1
    with ne lst show ?thesis unfolding eh using heap [OF be(2)] pv by (auto simp: nth_append)
  next
    case 2
    then have i: "i < length cs" by auto
    have ip: "cs ! i = prev" using 2 lst by (metis diff_Suc_1)
    have "be_height (bs_heap bs ! prev) = int i \<and>
        be_prev (bs_heap bs ! prev) = (if i = 0 then None else Some (cs ! (i - 1))) \<and>
        (0 < i \<longrightarrow> bh_prevBlock (be_header (bs_heap bs ! prev)) = ehash sha bs (cs ! (i - 1)))"
      using L i ip by (auto simp: linked_def Let_def)
    with i ip 2 show ?thesis unfolding eh using heap [OF pl] pb by (auto simp: nth_append)
  next
    case 3
    then have i: "i < length cs" by simp
    have "cs ! i \<noteq> be" using be(1) i by (metis nth_mem)
    moreover have "cs ! i \<noteq> prev"
      using 3 lst tables_wf(3) [OF T] by (metis Suc_lessD diff_Suc_1 i less_not_refl lessI nth_eq_iff_index_eq Suc_pred length_greater_0_conv ne)
    ultimately have "bs_heap B ! (cs ! i) = bs_heap bs ! (cs ! i)"
      using heap [of "cs ! i"] tables_wf(4) [OF T, of "cs ! i"] i by simp
    with L 3 i show ?thesis unfolding eh by (auto simp: linked_def Let_def nth_append)
  qed
qed

text \<open>One block goes from the orphans to the end of the chain.\<close>

lemma relink_orphan:
  assumes T: "tables sha cs bs" and be: "ht_map (bs_hash_orphans bs) (hkey (ehash sha bs be)) = Some be"
    and prev: "bh_prevBlock (be_header (bs_heap bs ! be)) = ehash sha bs prev" "prev < length (bs_heap bs)"
    and R: "relinked sha cs prev bs h bs1"
    and rem: "hashtable_remove (bs_hash_orphans bs1) (hkey (ehash sha bs be)) = Some (True, orph)"
    and ins: "hashtable_insert (bs_hash_blk bs1) (hkey (ehash sha bs be)) be = Some (True, blk)"
    and bs3: "bs3 = assign be (\<lambda>e. e\<lparr>be_prev := Some prev\<rparr>) (assign prev (\<lambda>e. e\<lparr>be_next := Some be\<rparr>)
        (assign be (\<lambda>e. e\<lparr>be_height := 1 + h\<rparr>) bs1))"
  shows "relinked sha cs be bs (1 + h) (bs3\<lparr>bs_hash_orphans := orph, bs_hash_blk := blk\<rparr>)"
proof -
  let ?k = "hkey (ehash sha bs be)"
  define B where "B = bs3\<lparr>bs_hash_orphans := orph, bs_hash_blk := blk\<rparr>"
  obtain j os cs1 where j: "j < length cs" and cs1: "cs1 = take (Suc j) cs @ os"
    and L: "linked sha cs1 bs1" and T1: "tables sha cs1 bs1" and last: "last cs1 = prev"
    and h: "h = int (length cs1) - 1" and F: "same_frame bs bs1"
    and nx: "\<forall>x < length (bs_heap bs). x \<notin> set (butlast cs1) \<longrightarrow> be_next (bs_heap bs1 ! x) = be_next (bs_heap bs ! x)"
    and orp: "\<forall>k a. ht_map (bs_hash_orphans bs1) k = Some a \<longrightarrow>
       ht_map (bs_hash_orphans bs) k = Some a \<or> a \<in> set (drop (Suc j) cs)"
    using R unfolding relinked_def Let_def by blast
  have beL: "be < length (bs_heap bs)" using tables_orphD(1) [OF T be] .
  have e1: "ehash sha bs1 x = ehash sha bs x" if "x < length (bs_heap bs)" for x
    using same_frame_ehash(1) [OF F that] .
  have len1: "length (bs_heap bs1) = length (bs_heap bs)" using same_frame_ehash(2) [OF F beL] .
  have ne: "cs1 \<noteq> []" using j by (cases cs) (simp_all add: cs1)
  \<comment> \<open>the entry removed from the orphans is \<open>be\<close>\<close>
  have o1: "ht_map (bs_hash_orphans bs1) ?k = Some be"
  proof -
    obtain a where a: "ht_map (bs_hash_orphans bs1) ?k = Some a"
      using hts.remove_law [OF tables_wf(2) [OF T1], of ?k] rem by auto
    moreover have "a = be"
    proof (rule disjE [OF orp [rule_format, OF a]])
      assume "a \<in> set (drop (Suc j) cs)"
      then have m: "a \<in> set cs" by (rule in_set_dropD)
      then have "ht_map (bs_hash_blk bs) (hkey (ehash sha bs a)) = Some a" using tables_blkD [OF T] by blast
      moreover have "ehash sha bs a = ehash sha bs be"
        using tables_orphD(1,3) [OF T1 a] e1 len1 by simp
      ultimately show ?thesis using tables_orphD(5) [OF T be] by simp
    qed (use be in simp)
    ultimately show ?thesis by simp
  qed
  have bem: "be_height (bs_heap bs1 ! be) = -1" "be \<notin> set cs1" using tables_orphD(2,4) [OF T1 o1] .
  have prevm: "prev \<in> set cs1" using last ne by auto
  then have pb: "prev \<noteq> be" using bem by blast
  obtain blk' where blk: "ht_wf blk" "ht_map blk = (ht_map (bs_hash_blk bs1))(?k \<mapsto> be)"
    using hts.insert_law [OF tables_wf(1) [OF T1], of ?k be] ins by (auto split: if_splits)
  have orph: "ht_wf orph" "ht_map orph = (ht_map (bs_hash_orphans bs1))(?k := None)"
    using hts.remove_law [OF tables_wf(2) [OF T1], of ?k] rem by auto
  have heap: "bs_heap B ! x = (if x = be then (bs_heap bs1 ! be)\<lparr>be_height := 1 + h, be_prev := Some prev\<rparr>
      else if x = prev then (bs_heap bs1 ! prev)\<lparr>be_next := Some be\<rparr> else bs_heap bs1 ! x)"
    if "x < length (bs_heap bs)" for x
    using that len1 pb by (simp add: B_def bs3)
  have eh: "ehash sha B = ehash sha bs1" by (simp add: B_def bs3)
  have len: "length (bs_heap B) = length (bs_heap bs)" by (simp add: B_def bs3 len1)
  have "same_frame bs1 bs3"
    unfolding bs3 by (rule same_frame_trans [OF same_frame_trans [OF same_frame_assign same_frame_assign] same_frame_assign]) simp_all
  then have F3: "same_frame bs B" using same_frame_trans [OF F] by (simp add: B_def)
  have tab: "bs_hash_blk B = blk" "bs_hash_orphans B = orph" by (simp_all add: B_def)
  have v: "x < length (bs_heap bs)" if "x \<in> set cs1" for x using tables_wf(4) [OF T1 that] len1 by simp
  let ?cs = "cs1 @ [be]"
  have lst: "cs1 ! (length cs1 - 1) = prev" using last ne by (simp add: last_conv_nth)
  have "be_header (bs_heap bs1 ! be) = be_header (bs_heap bs ! be)"
    using F beL len1 unfolding same_frame_def by (metis nth_map)
  then have "linked sha ?cs B"
    using linked_snoc [OF L T1 ne _ bem(2) _ _ _ eh] last beL len1 prev e1 heap h by simp
  moreover have "tables sha ?cs B"
  proof -
    have "ht_map (bs_hash_blk bs1) ?k = None" using tables_orphD(5) [OF T1 o1] .
    moreover have "be_height (bs_heap B ! a) = -1"
      if "ht_map (bs_hash_orphans bs1) k = Some a" "k \<noteq> ?k" for k a
    proof -
      have "a \<noteq> be" "a \<noteq> prev" "a < length (bs_heap bs)" "be_height (bs_heap bs1 ! a) = -1"
        using tables_orphD [OF T1 that(1)] that(2) e1 [OF beL] prevm len1 by auto
      then show ?thesis using heap by simp
    qed
    moreover have "be \<noteq> a" if "ht_map (bs_hash_orphans bs1) k = Some a" "k \<noteq> ?k" for k a
      using tables_orphD(3) [OF T1 that(1)] that(2) e1 [OF beL] by auto
    moreover have "\<forall>x\<in>set cs1. ehash sha bs1 be \<noteq> ehash sha bs1 x"
      using tables_blkD [OF T1] e1 [OF beL] calculation(1) by (metis option.distinct(1))
    ultimately show ?thesis
      using T1 bem(2) beL blk orph e1 [OF beL] len1 unfolding tables_def eh len tab by (auto simp: v)
  qed
  moreover have "ht_map (bs_hash_orphans B) k = Some a \<longrightarrow>
       ht_map (bs_hash_orphans bs) k = Some a \<or> a \<in> set (drop (Suc j) cs)" for k a
    using orp by (simp add: orph(2) tab)
  moreover have "be_next (bs_heap B ! x) = be_next (bs_heap bs ! x)"
    if "x < length (bs_heap bs)" "x \<notin> set (butlast ?cs)" for x
    using that nx prevm by (auto simp: heap dest: in_set_butlastD)
  ultimately show ?thesis using j F3 h unfolding relinked_def Let_def B_def [symmetric]
    by (intro exI [of _ j] exI [of _ "os @ [be]"]) (simp add: cs1)
qed

lemma set_chain_links_ok:
  assumes "blockstore_set_chain_links sha be bs = Some (h, bs')"
    and "linked sha cs bs" and "tables sha cs bs" and "be_next (bs_heap bs ! last cs) = None"
    and "be \<in> set cs \<or> ht_map (bs_hash_orphans bs) (hkey (ehash sha bs be)) = Some be"
  shows "relinked sha cs be bs h bs'"
proof -
  have "case r of (h, bs') \<Rightarrow> \<forall>cs. linked sha cs bs \<longrightarrow> tables sha cs bs \<longrightarrow> be_next (bs_heap bs ! last cs) = None \<longrightarrow>
      be \<in> set cs \<or> ht_map (bs_hash_orphans bs) (hkey (ehash sha bs be)) = Some be \<longrightarrow> relinked sha cs be bs h bs'"
    if "blockstore_set_chain_links sha be bs = Some r" for sha be bs r
  proof (rule blockstore_set_chain_links.raw_induct [OF _ that, where
      P = "\<lambda>sha be bs r. case r of (h, bs') \<Rightarrow> \<forall>cs. linked sha cs bs \<longrightarrow> tables sha cs bs \<longrightarrow>
        be_next (bs_heap bs ! last cs) = None \<longrightarrow>
        be \<in> set cs \<or> ht_map (bs_hash_orphans bs) (hkey (ehash sha bs be)) = Some be \<longrightarrow> relinked sha cs be bs h bs'"])
    fix f :: "(byte list \<Rightarrow> uint256) \<Rightarrow> nat \<Rightarrow> blockstore \<Rightarrow> (int \<times> blockstore) option" and sha be bs r
    assume IH: "\<And>sha be bs r. f sha be bs = Some r \<Longrightarrow> case r of (h, bs') \<Rightarrow> \<forall>cs. linked sha cs bs \<longrightarrow> tables sha cs bs \<longrightarrow>
        be_next (bs_heap bs ! last cs) = None \<longrightarrow>
        be \<in> set cs \<or> ht_map (bs_hash_orphans bs) (hkey (ehash sha bs be)) = Some be \<longrightarrow> relinked sha cs be bs h bs'"
    assume step: "(do {
       e \<leftarrow> deref bs be;
       let hash = hdr_hash sha (be_header e);
       if 0 \<le> be_height e
       then do { bs \<leftarrow> orphan_tail sha (be_next e) bs; Some (be_height e, bs) }
       else do {
         ASSERT (be_height e = -1);
         r \<leftarrow> blockstore_lookup bs (bh_prevBlock (be_header e));
         prev \<leftarrow> r;
         (h, bs) \<leftarrow> f sha prev bs;
         let bs = assign be (\<lambda>e. e\<lparr>be_height := 1 + h\<rparr>) bs;
         let bs = assign prev (\<lambda>e. e\<lparr>be_next := Some be\<rparr>) bs;
         let bs = assign be (\<lambda>e. e\<lparr>be_prev := Some prev\<rparr>) bs;
         (s, orph) \<leftarrow> hashtable_remove (bs_hash_orphans bs) (hkey hash);
         ASSERT s;
         (s, blk) \<leftarrow> hashtable_insert (bs_hash_blk bs) (hkey hash) be;
         ASSERT s;
         Some (1 + h, bs\<lparr>bs_hash_orphans := orph, bs_hash_blk := blk\<rparr>)
       }}) = Some r"
    obtain h bs' where r: "r = (h, bs')" by fastforce
    have "relinked sha cs be bs h bs'"
      if c: "linked sha cs bs" "tables sha cs bs" "be_next (bs_heap bs ! last cs) = None"
        "be \<in> set cs \<or> ht_map (bs_hash_orphans bs) (hkey (ehash sha bs be)) = Some be" for cs
    proof -
      have bl: "be < length (bs_heap bs)" using step by (auto simp: deref_def split: if_splits)
      show ?thesis
      proof (cases "0 \<le> be_height (bs_heap bs ! be)")
        case True
        then have "be \<in> set cs" using c(4) tables_orphD(2) [OF c(2)] by fastforce
        then obtain j where j: "j < length cs" "be = cs ! j" by (auto simp: in_set_conv_nth)
        then have "be_height (bs_heap bs ! be) = int j" using c(1) by (auto simp: linked_def Let_def)
        then show ?thesis
          using relink_junction [OF c(1-3) j(1)] step True bl j r by (auto split: bind_splits)
      next
        case False
        then have be: "ht_map (bs_hash_orphans bs) (hkey (ehash sha bs be)) = Some be"
          using c(4) linked_heights [OF c(1)] by auto
        have ht: "be_height (bs_heap bs ! be) = -1" using tables_orphD(2) [OF c(2) be] .
        obtain prev h1 bs1 orph blk where
          lk: "blockstore_lookup bs (bh_prevBlock (be_header (bs_heap bs ! be))) = Some (Some prev)"
          and f: "f sha prev bs = Some (h1, bs1)"
          and rem: "hashtable_remove (bs_hash_orphans bs1) (hkey (ehash sha bs be)) = Some (True, orph)"
          and ins: "hashtable_insert (bs_hash_blk bs1) (hkey (ehash sha bs be)) be = Some (True, blk)"
          and res: "h = 1 + h1" "bs' = (assign be (\<lambda>e. e\<lparr>be_prev := Some prev\<rparr>) (assign prev (\<lambda>e. e\<lparr>be_next := Some be\<rparr>)
             (assign be (\<lambda>e. e\<lparr>be_height := 1 + h1\<rparr>) bs1)))\<lparr>bs_hash_orphans := orph, bs_hash_blk := blk\<rparr>"
          using step False ht bl unfolding r ehash_def
          by (auto simp: Let_def split: bind_splits if_splits)
        note lm = lookup_main [OF c(2) lk]
        have "relinked sha cs prev bs h1 bs1" using IH [OF f] c(1-3) lm by auto
        from relink_orphan [OF c(2) be _ _ this rem ins refl] lm res show ?thesis by simp
      qed
    qed
    with r show "case r of (h, bs') \<Rightarrow> \<forall>cs. linked sha cs bs \<longrightarrow> tables sha cs bs \<longrightarrow> be_next (bs_heap bs ! last cs) = None \<longrightarrow>
      be \<in> set cs \<or> ht_map (bs_hash_orphans bs) (hkey (ehash sha bs be)) = Some be \<longrightarrow> relinked sha cs be bs h bs'"
      by simp
  qed
  from this [OF assms(1)] assms(2-) show ?thesis unfolding prod.case by blast
qed

lemma alternate_height_eq:
  assumes "blockstore_find_alternate_chain_height bs be = Some h"
    and "blockstore_set_chain_links sha be bs = Some (h', bs')"
  shows "h = h'"
proof -
  have "\<forall>h' bs'. blockstore_set_chain_links sha be bs = Some (h', bs') \<longrightarrow> h = h'"
    if "blockstore_find_alternate_chain_height bs be = Some h" for bs be h
  proof (rule blockstore_find_alternate_chain_height.raw_induct [OF _ that, where
      P = "\<lambda>bs be h. \<forall>h' bs'. blockstore_set_chain_links sha be bs = Some (h', bs') \<longrightarrow> h = h'"])
    fix f :: "blockstore \<Rightarrow> nat \<Rightarrow> int option" and bs be h
    assume IH: "\<And>bs be h. f bs be = Some h \<Longrightarrow> \<forall>h' bs'. blockstore_set_chain_links sha be bs = Some (h', bs') \<longrightarrow> h = h'"
    assume step: "(do {
       e \<leftarrow> deref bs be;
       if 0 < be_height e then Some (be_height e)
       else do {
         ASSERT (be_height e = -1);
         r \<leftarrow> blockstore_lookup bs (bh_prevBlock (be_header e));
         case r of None \<Rightarrow> Some 0 | Some prev \<Rightarrow> do { h \<leftarrow> f bs prev; Some (1 + h) }
       }}) = Some h"
    show "\<forall>h' bs'. blockstore_set_chain_links sha be bs = Some (h', bs') \<longrightarrow> h = h'"
    proof (intro allI impI)
      fix h' bs'
      assume links: "blockstore_set_chain_links sha be bs = Some (h', bs')"
      have bl: "be < length (bs_heap bs)" using step by (auto simp: deref_def split: if_splits)
      show "h = h'"
      proof (cases "0 < be_height (bs_heap bs ! be)")
        case True
        with step links bl show ?thesis
          by (subst (asm) blockstore_set_chain_links.simps) (auto split: bind_splits)
      next
        case False
        with step bl have ht: "be_height (bs_heap bs ! be) = -1" by (auto split: if_splits)
        with links bl obtain prev h1 bs1 where
          p: "blockstore_lookup bs (bh_prevBlock (be_header (bs_heap bs ! be))) = Some (Some prev)"
          "blockstore_set_chain_links sha prev bs = Some (h1, bs1)" "h' = 1 + h1"
          by (subst (asm) blockstore_set_chain_links.simps) (auto simp: Let_def split: bind_splits if_splits)
        with step ht bl obtain h0 where "f bs prev = Some h0" "h = 1 + h0" by (auto split: bind_splits)
        with IH p show ?thesis by blast
      qed
    qed
  qed
  with assms show ?thesis by blast
qed


section \<open>Adding an entry\<close>

text \<open>A new entry: on the heap, unlinked, its hash unknown.\<close>

definition fresh :: "(byte list \<Rightarrow> uint256) \<Rightarrow> nat \<Rightarrow> uint256 \<Rightarrow> blockstore \<Rightarrow> bool" where
  "fresh sha be hash bs \<longleftrightarrow> be < length (bs_heap bs) \<and> be_prev (bs_heap bs ! be) = None \<and>
     be_next (bs_heap bs ! be) = None \<and> ehash sha bs be = hash \<and>
     ht_map (bs_hash_blk bs) (hkey hash) = None \<and> ht_map (bs_hash_orphans bs) (hkey hash) = None"

lemma fresh_not_in:
  assumes "tables sha cs bs" and "fresh sha be hash bs"
  shows "be \<notin> set cs" "ht_map (bs_hash_orphans bs) k \<noteq> Some be"
  using tables_blkD [OF assms(1), of "hkey hash" be] tables_orphD(3) [OF assms(1), of k be] assms(2)
  by (auto simp: fresh_def)

lemma uint256_issame_iff [simp]: "uint256_issame a b \<longleftrightarrow> a = b"
  using hkey_inj by (simp add: uint256_issame_def hkey_def)

text \<open>The three ways a block is added: as genesis, at the tip, as an orphan.\<close>

lemma add_genesis_ok:
  assumes "bs_ok sha [] bs" and "fresh sha be hash bs" and "blockstore_add_entry sha be hash bs = Some bs'"
  shows "bs_ok sha [be] bs' \<and> bs_cpts bs' = bs_cpts bs"
proof -
  have T: "tables sha [] bs" and bc: "bs_best_chain bs = None" and on: "ht_map (bs_hash_orphans bs) = Map.empty"
    using assms(1) by (simp_all add: bs_ok_def)
  have fr: "be < length (bs_heap bs)" "be_prev (bs_heap bs ! be) = None" "be_next (bs_heap bs ! be) = None"
    "ehash sha bs be = hash" using assms(2) by (simp_all add: fresh_def)
  obtain blk where blk: "hashtable_insert (bs_hash_blk bs) (hkey hash) be = Some (True, blk)"
    and g: "hash = bs_genesis_hash bs"
    and bs': "bs' = assign be (\<lambda>e. e\<lparr>be_height := 0\<rparr>)
       (bs\<lparr>bs_hash_blk := blk, bs_best_chain := Some be, bs_genesis := Some be, bs_height := 0, bs_best_hash := hash\<rparr>)"
    using assms(3) bc fr by (auto simp: blockstore_add_entry_def split: bind_splits if_splits)
  have eh: "ehash sha bs' = ehash sha bs" by (simp add: bs')
  have b: "ht_wf blk" "ht_map blk = (ht_map (bs_hash_blk bs))(hkey hash \<mapsto> be)"
    using hts.insert_law [OF tables_wf(1) [OF T], of "hkey hash" be] blk by (auto split: if_splits)
  have bn: "ht_map (bs_hash_blk bs) k \<noteq> Some a" for k a using tables_blkD [OF T] by simp
  have heap: "bs_heap bs' ! be = (bs_heap bs ! be)\<lparr>be_height := 0\<rparr>"
    using fr(1) by (simp add: bs' assign_def)
  have "tables sha [be] bs'"
    using tables_wf [OF T] b bn on fr unfolding tables_def eh by (auto simp: bs')
  moreover have "linked sha [be] bs'" unfolding linked_def Let_def eh using heap fr by simp
  ultimately show ?thesis
    unfolding bs_ok_def eh using heap fr g by (simp add: bs')
qed

lemma add_tip_ok:
  assumes "bs_ok sha cs bs" and "cs \<noteq> []" and "fresh sha be hash bs"
    and "bh_prevBlock (be_header (bs_heap bs ! be)) = bs_best_hash bs"
  shows "\<exists>bs'. blockstore_add_entry sha be hash bs = Some bs' \<and> bs_ok sha (cs @ [be]) bs' \<and> bs_cpts bs' = bs_cpts bs \<and>
    bs_best_hash bs' = hash \<and> be_height (bs_heap bs' ! be) \<noteq> -1"
proof -
  have L: "linked sha cs bs" and T: "tables sha cs bs" and bc: "bs_best_chain bs = Some (last cs)"
    and bh: "bs_best_hash bs = ehash sha bs (last cs)" and ht: "bs_height bs = int (length cs) - 1"
    and gen: "bs_genesis bs = Some (hd cs)" "ehash sha bs (hd cs) = bs_genesis_hash bs"
    using assms(1,2) by (simp_all add: bs_ok_def)
  have fr: "be < length (bs_heap bs)" "be_prev (bs_heap bs ! be) = None" "be_next (bs_heap bs ! be) = None"
    "ehash sha bs be = hash" "ht_map (bs_hash_blk bs) (hkey hash) = None" "ht_map (bs_hash_orphans bs) (hkey hash) = None"
    using assms(3) by (simp_all add: fresh_def)
  note ni = fresh_not_in [OF T assms(3)]
  let ?p = "last cs"
  have pm: "?p \<in> set cs" using assms(2) by simp
  then have pl: "?p < length (bs_heap bs)" and pb: "?p \<noteq> be" using tables_wf(4) [OF T] ni by auto
  obtain blk where blk: "hashtable_insert (bs_hash_blk bs) (hkey hash) be = Some (True, blk)" "ht_wf blk"
    "ht_map blk = (ht_map (bs_hash_blk bs))(hkey hash \<mapsto> be)"
    using hts.insert_law [OF tables_wf(1) [OF T], of "hkey hash" be] fr(5) by auto
  define B where "B = (assign be (\<lambda>e. e\<lparr>be_prev := Some ?p\<rparr>) (assign ?p (\<lambda>e. e\<lparr>be_next := Some be\<rparr>)
     (assign be (\<lambda>e. e\<lparr>be_height := bs_height bs + 1\<rparr>) (bs\<lparr>bs_hash_blk := blk, bs_height := bs_height bs + 1\<rparr>))))
     \<lparr>bs_best_chain := Some be, bs_best_hash := hash\<rparr>"
  have run: "blockstore_add_entry sha be hash bs = Some B"
    using bc fr(1) blk(1) assms(4) pl by (simp add: blockstore_add_entry_def B_def Let_def)
  have heap: "bs_heap B ! x = (if x = be then (bs_heap bs ! be)\<lparr>be_height := int (length cs), be_prev := Some ?p\<rparr>
      else if x = ?p then (bs_heap bs ! ?p)\<lparr>be_next := Some be\<rparr> else bs_heap bs ! x)"
    if "x < length (bs_heap bs)" for x
    using that pb ht by (simp add: B_def)
  have sel: "length (bs_heap B) = length (bs_heap bs)" "bs_hash_blk B = blk" "bs_hash_orphans B = bs_hash_orphans bs"
    "bs_height B = bs_height bs + 1" "bs_best_chain B = Some be" "bs_best_hash B = hash"
    "bs_genesis B = bs_genesis bs" "bs_genesis_hash B = bs_genesis_hash bs" "bs_cpts B = bs_cpts bs"
    by (simp_all add: B_def)
  have eh: "ehash sha B = ehash sha bs" by (simp add: B_def)
  have "linked sha (cs @ [be]) B"
    using linked_snoc [OF L T assms(2) refl ni(1) fr(1) _ _ eh] heap assms(4) bh by simp
  moreover have "tables sha (cs @ [be]) B"
  proof -
    have inj: "\<forall>x\<in>set cs. hash \<noteq> ehash sha bs x" using tables_blkD [OF T] fr(5) by (metis option.distinct(1))
    have "a < length (bs_heap bs) \<and> be_height (bs_heap B ! a) = -1 \<and> k = hkey (ehash sha bs a) \<and>
        a \<noteq> be \<and> a \<notin> set cs \<and> k \<noteq> hkey hash \<and> ht_map (bs_hash_blk bs) k = None"
      if "ht_map (bs_hash_orphans bs) k = Some a" for k a
      using tables_orphD [OF T that] heap [of a] ni(2) [of k] that pm fr(6) by auto
    note orp = this
    show ?thesis unfolding tables_def eh sel blk(3)
    proof (intro conjI allI ballI impI)
      fix k a
      show "((ht_map (bs_hash_blk bs))(hkey hash \<mapsto> be)) k = Some a \<longleftrightarrow>
          a \<in> set (cs @ [be]) \<and> k = hkey (ehash sha bs a)"
        using tables_blkD [OF T, of k a] inj ni(1) fr(4) by auto
    qed (use tables_wf [OF T] blk(2) ni(1) fr(1) orp in auto)
  qed
  moreover have "be_next (bs_heap B ! be) = None" "be_height (bs_heap B ! be) \<noteq> -1" using heap [OF fr(1)] fr(3) by simp_all
  ultimately show ?thesis
    using run assms(2) fr(4) gen ht by (simp add: bs_ok_def sel eh)
qed

lemma bs_ok_orphaned:
  assumes ok: "bs_ok sha cs bs" and ne: "cs \<noteq> []" and fr: "fresh sha be hash bs"
    and ins: "hashtable_insert (bs_hash_orphans bs) (hkey hash) be = Some (True, orph)"
    and B: "B = (assign be (\<lambda>e. e\<lparr>be_height := -1\<rparr>) bs)\<lparr>bs_hash_orphans := orph\<rparr>"
  shows "bs_ok sha cs B" "ht_map (bs_hash_orphans B) (hkey (ehash sha B be)) = Some be"
    "be_height (bs_heap B ! be) = -1" "be_next (bs_heap B ! be) = None"
proof -
  have L: "linked sha cs bs" and T: "tables sha cs bs" using ok by (simp_all add: bs_ok_def)
  have f: "be < length (bs_heap bs)" "be_next (bs_heap bs ! be) = None" "ehash sha bs be = hash"
    "ht_map (bs_hash_blk bs) (hkey hash) = None" "ht_map (bs_hash_orphans bs) (hkey hash) = None"
    using fr by (simp_all add: fresh_def)
  note ni = fresh_not_in [OF T fr]
  have o: "ht_wf orph" "ht_map orph = (ht_map (bs_hash_orphans bs))(hkey hash \<mapsto> be)"
    using hts.insert_law [OF tables_wf(2) [OF T], of "hkey hash" be] ins by (auto split: if_splits)
  have eh: "ehash sha B = ehash sha bs" by (simp add: B)
  have heap: "bs_heap B ! x = (if x = be then (bs_heap bs ! be)\<lparr>be_height := -1\<rparr> else bs_heap bs ! x)"
    if "x < length (bs_heap bs)" for x
    using that by (simp add: B)
  have sel: "length (bs_heap B) = length (bs_heap bs)" "bs_hash_blk B = bs_hash_blk bs" "bs_hash_orphans B = orph"
    by (simp_all add: B)
  have same: "bs_heap B ! x = bs_heap bs ! x" if "x \<in> set cs" for x
    using heap [of x] that ni(1) tables_wf(4) [OF T that] by auto
  have "linked sha cs B" using L same unfolding linked_def Let_def eh by auto
  moreover have "tables sha cs B"
  proof -
    have "a < length (bs_heap bs) \<and> be_height (bs_heap B ! a) = -1 \<and> k = hkey (ehash sha bs a) \<and>
        a \<notin> set cs \<and> ht_map (bs_hash_blk bs) k = None" if "((ht_map (bs_hash_orphans bs))(hkey hash \<mapsto> be)) k = Some a" for k a
      using tables_orphD [OF T, of k a] heap [of a] that f ni(1) by (auto split: if_splits)
    note orp = this
    show ?thesis unfolding tables_def eh sel o(2)
      using tables_wf [OF T] tables_blkD [OF T] o(1) orp by blast
  qed
  moreover have "be_next (bs_heap B ! last cs) = be_next (bs_heap bs ! last cs)" using same ne by simp
  ultimately show "bs_ok sha cs B" using ok ne unfolding bs_ok_def eh by (simp add: B)
  show "ht_map (bs_hash_orphans B) (hkey (ehash sha B be)) = Some be" using o(2) f(3) by (simp add: sel eh)
  show "be_height (bs_heap B ! be) = -1" "be_next (bs_heap B ! be) = None" using heap [OF f(1)] f(2) by simp_all
qed

lemma add_orphan_ok:
  assumes ok: "bs_ok sha cs bs" and ne: "cs \<noteq> []" and fr: "fresh sha be hash bs"
    and pv: "bh_prevBlock (be_header (bs_heap bs ! be)) \<noteq> bs_best_hash bs"
    and run: "blockstore_add_entry sha be hash bs = Some bs'"
  shows "\<exists>cs'. bs_ok sha cs' bs' \<and> bs_cpts bs' = bs_cpts bs \<and>
    (if be_height (bs_heap bs' ! be) = -1 then cs' = cs
     else length cs < length cs' \<and> last cs' = be \<and> (\<exists>j os. j < length cs \<and> cs' = take (Suc j) cs @ os))"
proof -
  have bc: "bs_best_chain bs \<noteq> None" and bl: "be < length (bs_heap bs)"
    using ok ne fr by (simp_all add: bs_ok_def fresh_def)
  obtain orph where ins: "hashtable_insert (bs_hash_orphans bs) (hkey hash) be = Some (True, orph)"
    using hts.insert_law [of "bs_hash_orphans bs" "hkey hash" be] fr ok
    by (auto simp: fresh_def bs_ok_def tables_def)
  define B where "B = (assign be (\<lambda>e. e\<lparr>be_height := -1\<rparr>) bs)\<lparr>bs_hash_orphans := orph\<rparr>"
  note o = bs_ok_orphaned [OF ok ne fr ins B_def]
  have best: "blockstore_set_best_chain sha be hash B = Some bs'"
    using run bc bl pv ins by (auto simp: blockstore_add_entry_def B_def)
  then obtain h where h: "blockstore_find_alternate_chain_height B be = Some h"
    by (auto simp: blockstore_set_best_chain_def split: bind_splits)
  have cp: "bs_cpts B = bs_cpts bs" by (simp add: B_def)
  show ?thesis
  proof (cases "h \<le> bs_height B")
    case True
    then have "bs' = B" using best h by (simp add: blockstore_set_best_chain_def)
    with o cp show ?thesis by auto
  next
    case False
    then obtain h' bs3 where s: "blockstore_set_chain_links sha be B = Some (h', bs3)"
      and bs': "bs' = bs3\<lparr>bs_best_chain := Some be, bs_height := h, bs_best_hash := hash\<rparr>"
      using best h by (auto simp: blockstore_set_best_chain_def split: bind_splits)
    have hh: "h = h'" using alternate_height_eq [OF h s] .
    have L: "linked sha cs B" and T: "tables sha cs B" and nx: "be_next (bs_heap B ! last cs) = None"
      and hb: "bs_height B = int (length cs) - 1"
      and gen: "bs_genesis B = Some (hd cs)" "ehash sha B (hd cs) = bs_genesis_hash B"
      using o(1) ne by (simp_all add: bs_ok_def)
    obtain j os cs' where j: "j < length cs" "cs' = take (Suc j) cs @ os"
      and L': "linked sha cs' bs3" and T': "tables sha cs' bs3" and last: "last cs' = be"
      and h': "h' = int (length cs') - 1" and F: "same_frame B bs3"
      and nx': "\<forall>x < length (bs_heap B). x \<notin> set (butlast cs') \<longrightarrow> be_next (bs_heap bs3 ! x) = be_next (bs_heap B ! x)"
      using set_chain_links_ok [OF s L T nx] o(2) unfolding relinked_def Let_def by blast
    have ne': "cs' \<noteq> []" and hd': "hd cs' = hd cs" using j ne by (cases cs; simp)+
    have eh: "ehash sha bs' = ehash sha bs3" by (simp add: bs')
    have "be \<notin> set (butlast cs')"
      using tables_wf(3) [OF T'] last ne' by (metis append_butlast_last_id distinct_append disjoint_iff list.set_intros(1))
    then have "be_next (bs_heap bs3 ! be) = None" using nx' o(4) bl by (simp add: B_def)
    moreover have "ehash sha bs3 be = hash" "ehash sha bs3 (hd cs) = bs_genesis_hash bs3"
      using same_frame_ehash(1) [OF F] bl fr gen tables_wf(4) [OF T] ne F
      by (simp_all add: B_def fresh_def same_frame_def)
    moreover have "bs_genesis bs3 = Some (hd cs)" "bs_cpts bs3 = bs_cpts bs"
      using F gen cp by (simp_all add: same_frame_def)
    moreover have "linked sha cs' bs'" "tables sha cs' bs'"
      using L' T' unfolding linked_def tables_def eh by (simp_all add: bs')
    moreover have "0 \<le> be_height (bs_heap bs' ! be)"
      using linked_heights [OF calculation(6)] last ne' by (metis last_in_set)
    ultimately have "bs_ok sha cs' bs'" "bs_cpts bs' = bs_cpts bs" "be_height (bs_heap bs' ! be) \<noteq> -1"
      unfolding bs_ok_def eh using ne' hd' last hh h' by (auto simp: bs')
    moreover have "length cs < length cs'" using False hb hh h' by simp
    ultimately show ?thesis using j last by (intro exI [of _ cs']) auto
  qed
qed

definition with_new :: "btc_block_header \<Rightarrow> blockstore \<Rightarrow> blockstore" where
  "with_new hdr bs = snd (blockstore_alloc_entry hdr bs)"

lemma with_new_sel [simp]:
  "bs_hash_blk (with_new hdr bs) = bs_hash_blk bs" "bs_hash_orphans (with_new hdr bs) = bs_hash_orphans bs"
  "bs_height (with_new hdr bs) = bs_height bs" "bs_best_chain (with_new hdr bs) = bs_best_chain bs"
  "bs_genesis (with_new hdr bs) = bs_genesis bs" "bs_best_hash (with_new hdr bs) = bs_best_hash bs"
  "bs_genesis_hash (with_new hdr bs) = bs_genesis_hash bs" "bs_cpts (with_new hdr bs) = bs_cpts bs"
  "length (bs_heap (with_new hdr bs)) = Suc (length (bs_heap bs))"
  "x < length (bs_heap bs) \<Longrightarrow> bs_heap (with_new hdr bs) ! x = bs_heap bs ! x"
  "be_header (bs_heap (with_new hdr bs) ! length (bs_heap bs)) = hdr"
  "be_prev (bs_heap (with_new hdr bs) ! length (bs_heap bs)) = None"
  "be_next (bs_heap (with_new hdr bs) ! length (bs_heap bs)) = None"
  by (simp_all add: with_new_def blockstore_alloc_entry_def nth_append)

lemma with_new_ehash [simp]:
  "x < length (bs_heap bs) \<Longrightarrow> ehash sha (with_new hdr bs) x = ehash sha bs x"
  "ehash sha (with_new hdr bs) (length (bs_heap bs)) = hdr_hash sha hdr"
  by (simp_all add: ehash_def)

lemma bs_ok_with_new:
  assumes "bs_ok sha cs bs"
  shows "bs_ok sha cs (with_new hdr bs)"
proof -
  let ?B = "with_new hdr bs"
  have L: "linked sha cs bs" and T: "tables sha cs bs" using assms by (simp_all add: bs_ok_def)
  have v: "x < length (bs_heap bs)" if "x \<in> set cs" for x using tables_wf(4) [OF T that] .
  then have vi: "cs ! i < length (bs_heap bs)" if "i < length cs" for i using that by simp
  have "linked sha cs ?B"
    using L vi unfolding linked_def Let_def by (auto simp: less_imp_diff_less)
  moreover have "tables sha cs ?B"
  proof -
    have "a < Suc (length (bs_heap bs)) \<and> be_height (bs_heap ?B ! a) = -1 \<and> k = hkey (ehash sha ?B a) \<and>
        a \<notin> set cs \<and> ht_map (bs_hash_blk bs) k = None" if "ht_map (bs_hash_orphans bs) k = Some a" for k a
      using tables_orphD [OF T that] by simp
    moreover have "ht_map (bs_hash_blk bs) k = Some a \<longleftrightarrow> a \<in> set cs \<and> k = hkey (ehash sha ?B a)" for k a
      using tables_blkD [OF T, of k a] v [of a] by auto
    ultimately show ?thesis using tables_wf [OF T] unfolding tables_def by (simp add: less_SucI)
  qed
  moreover have "hd cs < length (bs_heap bs)" "last cs < length (bs_heap bs)" if "cs \<noteq> []"
    using that v by simp_all
  ultimately show ?thesis using assms by (auto simp: bs_ok_def)
qed

lemma lookup_eq_maps:
  assumes "tables sha cs bs"
  shows "blockstore_lookup bs h = Some (case ht_map (bs_hash_orphans bs) (hkey h) of Some a \<Rightarrow> Some a
     | None \<Rightarrow> ht_map (bs_hash_blk bs) (hkey h))"
  using hts.lookup_law [OF tables_wf(1) [OF assms]] hts.lookup_law [OF tables_wf(2) [OF assms]]
  by (auto simp: blockstore_lookup_def split: option.splits)

lemma fresh_with_new:
  assumes "tables sha cs bs" and "blockstore_lookup bs (hdr_hash sha hdr) = Some None"
  shows "fresh sha (length (bs_heap bs)) (hdr_hash sha hdr) (with_new hdr bs)"
  using assms(2) unfolding lookup_eq_maps [OF assms(1)] by (simp add: fresh_def split: option.splits)

text \<open>What adding a header may do to the best chain.\<close>

definition grows :: "nat list \<Rightarrow> nat \<Rightarrow> nat list \<Rightarrow> bool" where
  "grows cs be cs' \<longleftrightarrow> length cs < length cs' \<and> last cs' = be \<and>
     (cs = [] \<or> (\<exists>j os. j < length cs \<and> cs' = take (Suc j) cs @ os))"

lemma add_entry_ok:
  assumes ok: "bs_ok sha cs bs" and fr: "fresh sha be hash bs" and run: "blockstore_add_entry sha be hash bs = Some bs'"
  shows "\<exists>cs'. bs_ok sha cs' bs' \<and> bs_cpts bs' = bs_cpts bs \<and>
    (if be_height (bs_heap bs' ! be) = -1 then cs' = cs else grows cs be cs')"
proof (cases "cs = []")
  case True
  have "bs_ok sha [be] bs'" "bs_cpts bs' = bs_cpts bs"
    using add_genesis_ok [OF ok [unfolded True] fr run] by simp_all
  moreover have "be_height (bs_heap bs' ! be) = 0"
    using calculation(1) by (simp add: bs_ok_def linked_def Let_def)
  ultimately show ?thesis using True by (intro exI [of _ "[be]"]) (simp add: grows_def)
next
  case ne: False
  show ?thesis
  proof (cases "bh_prevBlock (be_header (bs_heap bs ! be)) = bs_best_hash bs")
    case True
    with add_tip_ok [OF ok ne fr] run show ?thesis
      by (intro exI [of _ "cs @ [be]"]) (auto simp: grows_def intro!: exI [of _ "length cs - 1"] ne)
  next
    case False
    from add_orphan_ok [OF ok ne fr False run] show ?thesis by (auto simp: grows_def split: if_splits)
  qed
qed

section \<open>Properties\<close>

text \<open>C2: adding a header keeps the store consistent: the best chain stays linked both ways from
  genesis to the tip, each block naming its predecessor's hash and knowing its height, both tables
  hold exactly what they should, and the chain changes only by growing strictly longer, from a
  block of the old chain, to end in the new header; otherwise the header is reported as an orphan
  or as already known and the chain stays as it is.\<close>

theorem add_header_keeps_chain:
  assumes "bs_ok sha cs bs" and "hash = hdr_hash sha hdr"
    and "blockstore_add_header sha hdr hash bs = Some ((added, orphan), bs')"
  shows "\<exists>cs'. bs_ok sha cs' bs' \<and>
    (if added \<and> \<not> orphan then grows cs (length (bs_heap bs)) cs' else cs' = cs)"
proof -
  let ?b = "bs\<lparr>bs_count := bs_count bs + 1\<rparr>"
  have okc: "bs_ok sha cs ?b" using assms(1) by (simp add: bs_ok_def linked_def tables_def)
  then have T: "tables sha cs ?b" by (simp add: bs_ok_def)
  show ?thesis
  proof (cases "blockstore_lookup ?b hash = Some None")
    case False
    then have "\<not> added" "bs' = ?b" using assms(3) unfolding blockstore_add_header_def Let_def
      by (auto split: bind_splits if_splits)
    with okc show ?thesis by auto
  next
    case True
    let ?B = "with_new hdr ?b" and ?be = "length (bs_heap ?b)"
    have run: "blockstore_add_entry sha ?be hash ?B = Some bs'" "added" "orphan = (be_height (bs_heap bs' ! ?be) = -1)"
      using assms(3) True unfolding blockstore_add_header_def Let_def
      by (auto simp: with_new_def blockstore_alloc_entry_def deref_def split: bind_splits if_splits)
    have fr: "fresh sha ?be hash ?B" using fresh_with_new [OF T] True assms(2) by simp
    from add_entry_ok [OF bs_ok_with_new [OF okc] fr run(1)] run(2,3) show ?thesis by auto
  qed
qed

section \<open>Where a header goes\<close>

lemma create_ok':
  assumes "blockstore_create strs = Some bs"
  shows "bs_ok sha [] bs"
proof -
  obtain ht where ht: "hashtable_create = Some ht" "ht_wf (ht::nat hashtable)" "ht_map ht = Map.empty"
    using create_ok by blast
  have "bs_hash_blk bs = ht" "bs_hash_orphans bs = ht" "bs_height bs = -1" "bs_best_chain bs = None" "bs_genesis bs = None"
    using assms unfolding blockstore_create_def ht(1) by (auto split: bind_splits if_splits)
  with ht(2,3) show ?thesis by (simp add: bs_ok_def linked_def tables_def)
qed

lemma unknown_lookup:
  assumes "tables sha cs bs" and "blockstore_is_block_known bs h = Some False"
  shows "ht_map (bs_hash_blk bs) (hkey h) = None" "ht_map (bs_hash_orphans bs) (hkey h) = None"
    "blockstore_lookup bs h = Some None"
  using assms(2) hts.lookup_law [OF tables_wf(1) [OF assms(1)]] hts.lookup_law [OF tables_wf(2) [OF assms(1)]]
  by (auto simp: blockstore_is_block_known_def blockstore_has_header_def blockstore_is_orphan_def
      blockstore_lookup_def split: bind_splits if_splits)

text \<open>What \<open>blockstore_add_header\<close> does on a new header once past its assertions.\<close>

definition counted :: "btc_block_header \<Rightarrow> blockstore \<Rightarrow> blockstore" where
  "counted hdr bs = with_new hdr (bs\<lparr>bs_count := bs_count bs + 1\<rparr>)"

lemma counted_ok:
  assumes "bs_ok sha cs bs" and "blockstore_is_block_known bs (hdr_hash sha hdr) = Some False"
  shows "bs_ok sha cs (counted hdr bs)" "fresh sha (length (bs_heap bs)) (hdr_hash sha hdr) (counted hdr bs)"
proof -
  have okc: "bs_ok sha cs (bs\<lparr>bs_count := bs_count bs + 1\<rparr>)"
    using assms(1) by (simp add: bs_ok_def linked_def tables_def)
  from bs_ok_with_new [OF this] show "bs_ok sha cs (counted hdr bs)" by (simp add: counted_def)
  have T: "tables sha cs bs" using assms(1) by (simp add: bs_ok_def)
  have "blockstore_lookup (bs\<lparr>bs_count := bs_count bs + 1\<rparr>) (hdr_hash sha hdr) = Some None"
    using unknown_lookup(3) [OF T assms(2)] by (simp add: blockstore_lookup_def cong: option.case_cong)
  with fresh_with_new [of sha cs "bs\<lparr>bs_count := bs_count bs + 1\<rparr>" hdr] okc
  show "fresh sha (length (bs_heap bs)) (hdr_hash sha hdr) (counted hdr bs)"
    by (simp add: counted_def bs_ok_def)
qed

lemma add_header_new:
  assumes "bs_ok sha cs bs" and "cs \<noteq> []" and "hash = hdr_hash sha hdr"
    and "blockstore_is_block_known bs hash = Some False"
    and "blockstore_validate_chkpt (bs_cpts bs) hash (of_int (bs_height bs + 1))"
  shows "blockstore_add_header sha hdr hash bs = do {
     bs' \<leftarrow> blockstore_add_entry sha (length (bs_heap bs)) hash (counted hdr bs);
     e \<leftarrow> deref bs' (length (bs_heap bs));
     Some ((True, be_height e = -1), bs')
   }"
proof -
  have T: "tables sha cs bs" and bc: "bs_best_chain bs \<noteq> None" using assms(1,2) by (simp_all add: bs_ok_def)
  have "blockstore_lookup (bs\<lparr>bs_count := bs_count bs + 1\<rparr>) hash = Some None"
    using unknown_lookup(3) [OF T assms(4)] by (simp add: blockstore_lookup_def cong: option.case_cong)
  then show ?thesis using assms(3,5) bc
    by (simp add: blockstore_add_header_def Let_def counted_def with_new_def blockstore_alloc_entry_def)
qed

section \<open>Reorganisations happen\<close>

text \<open>\<open>xs\<close> are orphans, the newest first, each the parent of the one before it, the last one's
  parent being \<open>g\<close>.\<close>

fun branch :: "(byte list \<Rightarrow> uint256) \<Rightarrow> blockstore \<Rightarrow> nat \<Rightarrow> nat list \<Rightarrow> bool" where
  "branch sha bs g [] = True"
| "branch sha bs g (a # xs) \<longleftrightarrow> ht_map (bs_hash_orphans bs) (hkey (ehash sha bs a)) = Some a \<and>
     bh_prevBlock (be_header (bs_heap bs ! a)) = ehash sha bs (hd (xs @ [g])) \<and> branch sha bs g xs"

lemma branch_lookup:
  assumes "tables sha cs bs" and "g \<in> set cs" and "branch sha bs g xs"
  shows "blockstore_lookup bs (ehash sha bs (hd (xs @ [g]))) = Some (Some (hd (xs @ [g])))"
  using assms tables_disjoint [OF assms(1)] tables_blkD [OF assms(1)]
  by (cases xs) (auto simp: lookup_eq_maps [OF assms(1)] split: option.splits)

lemma branch_height:
  assumes "tables sha cs bs" and "g \<in> set cs" and "0 < be_height (bs_heap bs ! g)" and "branch sha bs g xs"
  shows "blockstore_find_alternate_chain_height bs (hd (xs @ [g])) =
    Some (be_height (bs_heap bs ! g) + int (length xs))"
  using assms(4)
proof (induction xs)
  case Nil
  then show ?case using assms tables_wf(4) [OF assms(1,2)]
    by (subst blockstore_find_alternate_chain_height.simps) simp
next
  case (Cons a xs)
  then have a: "ht_map (bs_hash_orphans bs) (hkey (ehash sha bs a)) = Some a" by simp
  note o = tables_orphD [OF assms(1) a]
  show ?case
    using Cons o(1,2) branch_lookup [OF assms(1,2), of xs]
    by (subst blockstore_find_alternate_chain_height.simps) (simp add: algebra_simps)
qed

lemma branch_links:
  assumes L: "linked sha cs bs" and T: "tables sha cs bs" and nx: "be_next (bs_heap bs ! last cs) = None"
    and g: "g \<in> set cs" and "branch sha bs g xs" and "distinct xs"
  shows "\<exists>h bs'. blockstore_set_chain_links sha (hd (xs @ [g])) bs = Some (h, bs') \<and>
    relinked sha cs (hd (xs @ [g])) bs h bs' \<and>
    (\<forall>k a. ht_map (bs_hash_orphans bs) k = Some a \<longrightarrow> a \<notin> set xs \<longrightarrow> ht_map (bs_hash_orphans bs') k = Some a)"
  using assms(5,6)
proof (induction xs)
  case Nil
  obtain j where j: "j < length cs" "g = cs ! j" using g by (auto simp: in_set_conv_nth)
  have d: "drop j cs = cs ! j # drop (Suc j) cs" using j(1) by (rule Cons_nth_drop_Suc [symmetric])
  have "next_list (drop j cs) bs" using next_list_drop [OF L nx] .
  then have nl: "next_list (drop (Suc j) cs) bs"
    and nxt: "be_next (bs_heap bs ! g) = (case drop (Suc j) cs of [] \<Rightarrow> None | b # _ \<Rightarrow> Some b)"
    unfolding d by (simp_all add: j)
  have "tables sha (take (Suc j) cs @ drop (Suc j) cs) bs" using T by simp
  from orphan_tail_ok [OF this nl] obtain bs' where bs': "orphan_tail sha (be_next (bs_heap bs ! g)) bs = Some bs'"
    "\<forall>k a. ht_map (bs_hash_orphans bs) k = Some a \<longrightarrow> ht_map (bs_hash_orphans bs') k = Some a"
    using nxt by auto
  have hg: "be_height (bs_heap bs ! g) = int j" using L j by (simp add: linked_def Let_def)
  have "blockstore_set_chain_links sha g bs = Some (int j, bs')"
    using bs'(1) hg tables_wf(4) [OF T g] by (subst blockstore_set_chain_links.simps) simp
  moreover have "relinked sha cs g bs (int j) bs'"
    using relink_junction [OF L T nx j(1)] bs'(1) j(2) by simp
  ultimately show ?case using bs'(2) by auto
next
  case (Cons a xs)
  let ?p = "hd (xs @ [g])" and ?k = "hkey (ehash sha bs a)"
  have a: "ht_map (bs_hash_orphans bs) ?k = Some a" and pv: "bh_prevBlock (be_header (bs_heap bs ! a)) = ehash sha bs ?p"
    and br: "branch sha bs g xs" and di: "a \<notin> set xs" "distinct xs"
    using Cons.prems by simp_all
  note o = tables_orphD [OF T a] and lk = branch_lookup [OF T g br]
  obtain h1 bs1 where s1: "blockstore_set_chain_links sha ?p bs = Some (h1, bs1)"
    and R: "relinked sha cs ?p bs h1 bs1"
    and keep: "\<forall>k x. ht_map (bs_hash_orphans bs) k = Some x \<longrightarrow> x \<notin> set xs \<longrightarrow> ht_map (bs_hash_orphans bs1) k = Some x"
    using Cons.IH [OF br di(2)] by blast
  obtain cs1 where T1: "tables sha cs1 bs1" using R unfolding relinked_def Let_def by blast
  have a1: "ht_map (bs_hash_orphans bs1) ?k = Some a" using keep a di(1) by blast
  obtain orph where rem: "hashtable_remove (bs_hash_orphans bs1) ?k = Some (True, orph)"
    and orph: "ht_map orph = (ht_map (bs_hash_orphans bs1))(?k := None)"
    using hts.remove_law [OF tables_wf(2) [OF T1], of ?k] a1 by auto
  obtain blk where ins: "hashtable_insert (bs_hash_blk bs1) ?k a = Some (True, blk)"
    using hts.insert_law [OF tables_wf(1) [OF T1], of ?k a] tables_orphD(5) [OF T1 a1] by auto
  let ?bs3 = "assign a (\<lambda>e. e\<lparr>be_prev := Some ?p\<rparr>) (assign ?p (\<lambda>e. e\<lparr>be_next := Some a\<rparr>)
        (assign a (\<lambda>e. e\<lparr>be_height := 1 + h1\<rparr>) bs1))\<lparr>bs_hash_orphans := orph, bs_hash_blk := blk\<rparr>"
  have run: "blockstore_set_chain_links sha a bs = Some (1 + h1, ?bs3)"
    using o(1,2) lk pv s1 rem ins
    by (subst blockstore_set_chain_links.simps) (simp add: ehash_def Let_def)
  have pl: "?p < length (bs_heap bs)" using lookup_main [OF T lk] by simp
  have rel: "relinked sha cs a bs (1 + h1) ?bs3" using relink_orphan [OF T a pv pl R rem ins refl] .
  moreover have "ht_map (bs_hash_orphans ?bs3) k = Some x"
    if "ht_map (bs_hash_orphans bs) k = Some x" "x \<notin> set (a # xs)" for k x
  proof -
    have "k \<noteq> ?k" using that a by auto
    then show ?thesis using keep that by (simp add: orph)
  qed
  ultimately show ?case using run by (intro exI [of _ "1 + h1"] exI [of _ ?bs3]) simp
qed

lemma branch_frame:
  assumes "tables sha cs bs" and "g \<in> set cs" and "branch sha bs g xs"
    and "\<And>x. x < length (bs_heap bs) \<Longrightarrow> be_header (bs_heap B ! x) = be_header (bs_heap bs ! x)"
    and "\<And>k a. ht_map (bs_hash_orphans bs) k = Some a \<Longrightarrow> ht_map (bs_hash_orphans B) k = Some a"
  shows "branch sha B g xs"
  using assms(3)
proof (induction xs)
  case (Cons a xs)
  have e: "ehash sha B x = ehash sha bs x" if "x < length (bs_heap bs)" for x
    using assms(4) [OF that] by (simp add: ehash_def)
  have "hd (xs @ [g]) < length (bs_heap bs)"
    using lookup_main [OF assms(1) branch_lookup [OF assms(1,2)], of xs] Cons.prems by simp
  then show ?case
    using Cons tables_orphD(1) [OF assms(1), of "hkey (ehash sha bs a)" a] assms(4,5) e by auto
qed simp

lemma add_header_tip:
  assumes "bs_ok sha cs bs" and "cs \<noteq> []" and "hash = hdr_hash sha hdr"
    and "blockstore_is_block_known bs hash = Some False"
    and "blockstore_validate_chkpt (bs_cpts bs) hash (of_int (bs_height bs + 1))"
    and "bh_prevBlock hdr = bs_best_hash bs"
  shows "\<exists>bs'. blockstore_add_header sha hdr hash bs = Some ((True, False), bs') \<and>
    bs_ok sha (cs @ [length (bs_heap bs)]) bs' \<and> bs_best_hash bs' = hash \<and> bs_height bs' = bs_height bs + 1"
proof -
  let ?be = "length (bs_heap bs)"
  note c = counted_ok [OF assms(1) assms(4) [unfolded assms(3)]]
  have "bh_prevBlock (be_header (bs_heap (counted hdr bs) ! ?be)) = bs_best_hash (counted hdr bs)"
    using assms(6) with_new_sel(11) [of hdr "bs\<lparr>bs_count := bs_count bs + 1\<rparr>"] by (simp add: counted_def)
  from add_tip_ok [OF c(1) assms(2) c(2) this] obtain bs' where
    run: "blockstore_add_entry sha ?be hash (counted hdr bs) = Some bs'"
    and ok: "bs_ok sha (cs @ [?be]) bs'" and bh: "bs_best_hash bs' = hash" and h: "be_height (bs_heap bs' ! ?be) \<noteq> -1"
    using assms(3) by auto
  have "?be < length (bs_heap bs')" using ok by (simp add: bs_ok_def tables_def)
  moreover have "bs_height bs = int (length cs) - 1" using assms(1) by (simp add: bs_ok_def)
  ultimately show ?thesis using add_header_new [OF assms(1-5)] run ok h bh by (simp add: bs_ok_def)
qed

text \<open>C33: a new header on top of the best block always becomes the new tip: the chain is the old one
  with the header's entry at its end, one block higher.\<close>

theorem add_header_extends_tip:
  assumes "bs_ok sha cs bs" and "cs \<noteq> []" and "hash = hdr_hash sha hdr"
    and "blockstore_is_block_known bs hash = Some False"
    and "blockstore_validate_chkpt (bs_cpts bs) hash (of_int (bs_height bs + 1))"
    and "bh_prevBlock hdr = bs_best_hash bs"
  shows "\<exists>bs'. blockstore_add_header sha hdr hash bs = Some ((True, False), bs') \<and>
    bs_ok sha (cs @ [length (bs_heap bs)]) bs' \<and> bs_best_hash bs' = hash \<and> bs_height bs' = bs_height bs + 1"
  using add_header_tip [OF assms] .

lemma orphaned_state:
  assumes "bs_ok sha cs bs" and "cs \<noteq> []" and "blockstore_is_block_known bs (hdr_hash sha hdr) = Some False"
    and "bh_prevBlock hdr \<noteq> bs_best_hash bs"
  shows "\<exists>B. blockstore_add_entry sha (length (bs_heap bs)) (hdr_hash sha hdr) (counted hdr bs) =
      blockstore_set_best_chain sha (length (bs_heap bs)) (hdr_hash sha hdr) B \<and> bs_ok sha cs B \<and>
    ht_map (bs_hash_orphans B) = (ht_map (bs_hash_orphans bs))(hkey (hdr_hash sha hdr) \<mapsto> length (bs_heap bs)) \<and>
    ht_map (bs_hash_blk B) = ht_map (bs_hash_blk bs) \<and>
    length (bs_heap B) = Suc (length (bs_heap bs)) \<and>
    be_header (bs_heap B ! length (bs_heap bs)) = hdr \<and> be_height (bs_heap B ! length (bs_heap bs)) = -1 \<and>
    (\<forall>x < length (bs_heap bs). bs_heap B ! x = bs_heap bs ! x)"
proof -
  let ?be = "length (bs_heap bs)" and ?h = "hdr_hash sha hdr" and ?C = "counted hdr bs"
  note c = counted_ok [OF assms(1,3)]
  have T: "tables sha cs ?C" using c(1) by (simp add: bs_ok_def)
  obtain orph where ins: "hashtable_insert (bs_hash_orphans ?C) (hkey ?h) ?be = Some (True, orph)"
    "ht_map orph = (ht_map (bs_hash_orphans ?C))(hkey ?h \<mapsto> ?be)"
    using hts.insert_law [OF tables_wf(2) [OF T], of "hkey ?h" ?be] c(2) by (auto simp: fresh_def)
  define B where "B = (assign ?be (\<lambda>e. e\<lparr>be_height := -1\<rparr>) ?C)\<lparr>bs_hash_orphans := orph\<rparr>"
  have hdr: "be_header (bs_heap ?C ! ?be) = hdr"
    using with_new_sel(11) [of hdr "bs\<lparr>bs_count := bs_count bs + 1\<rparr>"] by (simp add: counted_def)
  have len: "length (bs_heap ?C) = Suc ?be" by (simp add: counted_def)
  have "bs_best_chain ?C \<noteq> None" "bs_best_hash ?C = bs_best_hash bs" using assms(1,2)
    by (auto simp: counted_def bs_ok_def)
  then have "blockstore_add_entry sha ?be ?h ?C = blockstore_set_best_chain sha ?be ?h B"
    using ins(1) assms(4) hdr len by (auto simp: blockstore_add_entry_def B_def)
  moreover have "bs_ok sha cs B" using bs_ok_orphaned(1) [OF c(1) assms(2) c(2) ins(1) B_def] .
  moreover have "bs_heap B ! x = bs_heap bs ! x" if "x < ?be" for x
    using that len with_new_sel(10) [of x "bs\<lparr>bs_count := bs_count bs + 1\<rparr>" hdr] by (simp add: B_def counted_def)
  moreover have "ht_map (bs_hash_blk B) = ht_map (bs_hash_blk bs)"
    "ht_map (bs_hash_orphans ?C) = ht_map (bs_hash_orphans bs)" by (simp_all add: B_def counted_def)
  ultimately show ?thesis using ins(2) hdr len by (intro exI [of _ B]) (simp add: B_def)
qed

text \<open>A header whose parent is unknown is kept as an orphan and leaves the best chain alone.\<close>

theorem unknown_parent_is_orphan:
  assumes "bs_ok sha cs bs" and "cs \<noteq> []" and "hash = hdr_hash sha hdr"
    and "blockstore_is_block_known bs hash = Some False"
    and "blockstore_validate_chkpt (bs_cpts bs) hash (of_int (bs_height bs + 1))"
    and "blockstore_is_block_known bs (bh_prevBlock hdr) = Some False" and "bh_prevBlock hdr \<noteq> hash"
  shows "\<exists>bs'. blockstore_add_header sha hdr hash bs = Some ((True, True), bs') \<and>
    bs_ok sha cs bs' \<and> blockstore_is_orphan bs' hash = Some True"
proof -
  let ?be = "length (bs_heap bs)"
  have T: "tables sha cs bs" using assms(1) by (simp add: bs_ok_def)
  note u = unknown_lookup [OF T assms(6)]
  have ne: "bh_prevBlock hdr \<noteq> bs_best_hash bs"
    using u(1) tables_blkD [OF T, of "hkey (bs_best_hash bs)" "last cs"] bs_okD(7) [OF assms(1,2)] assms(2) by auto
  obtain B where B: "blockstore_add_entry sha ?be hash (counted hdr bs) = blockstore_set_best_chain sha ?be hash B"
    "bs_ok sha cs B" "ht_map (bs_hash_orphans B) = (ht_map (bs_hash_orphans bs))(hkey hash \<mapsto> ?be)"
    "ht_map (bs_hash_blk B) = ht_map (bs_hash_blk bs)" "length (bs_heap B) = Suc ?be"
    "be_header (bs_heap B ! ?be) = hdr" "be_height (bs_heap B ! ?be) = -1"
    using orphaned_state [OF assms(1,2) assms(4) [unfolded assms(3)] ne] assms(3) by blast
  have TB: "tables sha cs B" and ht: "bs_height B = int (length cs) - 1" using B(2) by (simp_all add: bs_ok_def)
  have "blockstore_lookup B (bh_prevBlock hdr) = Some None"
    using u(1,2) assms(7) by (simp add: lookup_eq_maps [OF TB] B(3,4))
  then have "blockstore_find_alternate_chain_height B ?be = Some 0"
    using B(5-7) by (subst blockstore_find_alternate_chain_height.simps) simp
  moreover have "0 \<le> bs_height B" using ht assms(2) by (cases cs) simp_all
  ultimately have "blockstore_set_best_chain sha ?be hash B = Some B" by (simp add: blockstore_set_best_chain_def)
  moreover have "blockstore_is_orphan B hash = Some True"
    using hts.lookup_law [OF tables_wf(2) [OF TB]] B(3) by (simp add: blockstore_is_orphan_def)
  ultimately show ?thesis using add_header_new [OF assms(1-5)] B by simp
qed

text \<open>C34: as soon as the best chain has a second block, a header that is new and whose parent is the genesis block
  stops the program: \<open>blockstore_find_alternate_chain_height\<close> takes a block of height 0 for an
  orphan and asserts that its height is -1.\<close>

theorem fork_at_genesis_stops:
  assumes "bs_ok sha cs bs" and "1 < length cs" and "hash = hdr_hash sha hdr"
    and "blockstore_is_block_known bs hash = Some False"
    and "bh_prevBlock hdr = bs_genesis_hash bs"
  shows "blockstore_add_header sha hdr hash bs = None"
proof (cases "blockstore_validate_chkpt (bs_cpts bs) hash (of_int (bs_height bs + 1))")
  case False
  have T: "tables sha cs bs" using assms(1) by (simp add: bs_ok_def)
  have "blockstore_lookup (bs\<lparr>bs_count := bs_count bs + 1\<rparr>) hash = Some None"
    using unknown_lookup(3) [OF T assms(4)] by (simp add: blockstore_lookup_def cong: option.case_cong)
  with False show ?thesis by (simp add: blockstore_add_header_def Let_def)
next
  case True
  let ?be = "length (bs_heap bs)"
  have T: "tables sha cs bs" and L: "linked sha cs bs" and ne: "cs \<noteq> []" and bh: "bs_best_hash bs = ehash sha bs (last cs)"
    and gh: "ehash sha bs (hd cs) = bs_genesis_hash bs"
    using bs_okD [OF assms(1)] assms(2) by fastforce+
  have "hd cs \<noteq> last cs"
    using tables_wf(3) [OF T] assms(2) by (cases cs) (auto dest: last_in_set)
  then have pv: "bh_prevBlock hdr \<noteq> bs_best_hash bs"
    using tables_inj [OF T, of "hd cs" "last cs"] ne bh gh assms(5) by auto
  obtain B where B: "blockstore_add_entry sha ?be hash (counted hdr bs) = blockstore_set_best_chain sha ?be hash B"
    "bs_ok sha cs B" "length (bs_heap B) = Suc ?be" "be_header (bs_heap B ! ?be) = hdr"
    "be_height (bs_heap B ! ?be) = -1" "\<forall>x < ?be. bs_heap B ! x = bs_heap bs ! x"
    using orphaned_state [OF assms(1) ne assms(4) [unfolded assms(3)] pv] assms(3) by blast
  have TB: "tables sha cs B" and LB: "linked sha cs B" using B(2) by (simp_all add: bs_ok_def)
  have gl: "hd cs < ?be" using tables_wf(4) [OF T, of "hd cs"] ne by simp
  then have "ehash sha B (hd cs) = bs_genesis_hash bs" using gh B(6) by (simp add: ehash_def)
  then have "blockstore_lookup B (bh_prevBlock hdr) = Some (Some (hd cs))"
    using branch_lookup [OF TB, of "hd cs" "[]"] ne assms(5) by simp
  moreover have "be_height (bs_heap B ! hd cs) = 0" using LB ne by (auto simp: linked_def Let_def hd_conv_nth)
  then have "blockstore_find_alternate_chain_height B (hd cs) = None"
    using gl B(3) by (subst blockstore_find_alternate_chain_height.simps) simp
  ultimately have "blockstore_find_alternate_chain_height B ?be = None"
    using B(3-5) by (subst blockstore_find_alternate_chain_height.simps) simp
  then show ?thesis
    using add_header_new [OF assms(1) ne assms(3,4) True] B(1) by (simp add: blockstore_set_best_chain_def)
qed

text \<open>C30: the longer branch wins: when a new header ends a branch of orphans that leaves the best chain above
  the genesis block and below the tip (\<open>0 < j\<close>, \<open>Suc j < length cs\<close>) and is longer than what it replaces, the store
  switches to it, provided that the header passes the checkpoint test, which is made at the height after the
  tip. A fork at the genesis block stops the program instead, see \<open>fork_at_genesis_stops\<close>.\<close>

theorem longer_branch_becomes_best:
  assumes "bs_ok sha cs bs" and "hash = hdr_hash sha hdr"
    and "blockstore_is_block_known bs hash = Some False"
    and "blockstore_validate_chkpt (bs_cpts bs) hash (of_int (bs_height bs + 1))"
    and "0 < j" and "Suc j < length cs" and "branch sha bs (cs ! j) xs" and "distinct xs"
    and "bh_prevBlock hdr = ehash sha bs (hd (xs @ [cs ! j]))" and "length cs < j + length xs + 2"
  shows "\<exists>cs' bs'. blockstore_add_header sha hdr hash bs = Some ((True, False), bs') \<and> bs_ok sha cs' bs' \<and>
    bs_best_hash bs' = hash \<and> length cs' = j + length xs + 2 \<and> last cs' = length (bs_heap bs)"
proof -
  let ?be = "length (bs_heap bs)" and ?g = "cs ! j"
  have ne: "cs \<noteq> []" and g: "?g \<in> set cs" using assms(6) by auto
  have T: "tables sha cs bs" and L: "linked sha cs bs" using bs_okD [OF assms(1) ne] by simp_all
  have hg: "be_height (bs_heap bs ! ?g) = int j" using L assms(6) by (simp add: linked_def Let_def)
  note lk = branch_lookup [OF T g assms(7)]
  have pv: "bh_prevBlock hdr \<noteq> bs_best_hash bs"
  proof
    assume "bh_prevBlock hdr = bs_best_hash bs"
    then have "ehash sha bs (hd (xs @ [?g])) = ehash sha bs (last cs)" using bs_okD(7) [OF assms(1) ne] assms(9) by simp
    then have "hd (xs @ [?g]) = last cs"
      using lk branch_lookup [OF T, of "last cs" "[]"] ne by simp
    moreover have "hd (xs @ [?g]) \<notin> set cs" if "xs \<noteq> []"
      using assms(7) that tables_orphD(4) [OF T] by (cases xs) auto
    ultimately have "xs = []" "?g = last cs" using ne by (cases xs; force)+
    then have "j = length cs - 1"
      using tables_wf(3) [OF T] assms(6) ne by (simp add: last_conv_nth nth_eq_iff_index_eq)
    with \<open>xs = []\<close> assms(6,10) show False by simp
  qed
  obtain B where B: "blockstore_add_entry sha ?be hash (counted hdr bs) = blockstore_set_best_chain sha ?be hash B"
    "bs_ok sha cs B" "ht_map (bs_hash_orphans B) = (ht_map (bs_hash_orphans bs))(hkey hash \<mapsto> ?be)"
    "length (bs_heap B) = Suc ?be" "be_header (bs_heap B ! ?be) = hdr"
    "\<forall>x < ?be. bs_heap B ! x = bs_heap bs ! x"
    using orphaned_state [OF assms(1) ne assms(3) [unfolded assms(2)] pv] assms(2) by blast
  note okB = bs_okD [OF B(2) ne]
  note u = unknown_lookup [OF T assms(3)]
  have br: "branch sha B ?g (?be # xs)"
  proof -
    have "ht_map (bs_hash_orphans B) k = Some a" if "ht_map (bs_hash_orphans bs) k = Some a" for k a
      using that u(2) B(3) by auto
    then have "branch sha B ?g xs" using branch_frame [OF T g assms(7)] B(6) by simp
    moreover have "hd (xs @ [?g]) < ?be" using lookup_main [OF T lk] by simp
    ultimately show ?thesis using B assms(2,9) by (simp add: ehash_def)
  qed
  have "?be \<notin> set xs"
  proof
    assume "?be \<in> set xs"
    then have "\<exists>k. ht_map (bs_hash_orphans bs) k = Some ?be"
      using assms(7) by (induction xs) auto
    then show False using tables_orphD(1) [OF T] by blast
  qed
  then have di: "distinct (?be # xs)" using assms(8) by simp
  have hgB: "be_height (bs_heap B ! ?g) = int j" using hg B(6) tables_wf(4) [OF T g] by simp
  then have h: "blockstore_find_alternate_chain_height B ?be = Some (int j + 1 + int (length xs))"
    using branch_height [OF okB(2) g _ br] assms(5) by simp
  obtain h' bs3 where links: "blockstore_set_chain_links sha ?be B = Some (h', bs3)"
    using branch_links [OF okB(1,2,6) g br di] by auto
  let ?bs' = "bs3\<lparr>bs_best_chain := Some ?be, bs_height := int j + 1 + int (length xs), bs_best_hash := hash\<rparr>"
  have run: "blockstore_add_entry sha ?be hash (counted hdr bs) = Some ?bs'"
    using B(1) h links okB(3) assms(10) by (simp add: blockstore_set_best_chain_def)
  note c = counted_ok [OF assms(1) assms(3) [unfolded assms(2)]]
  obtain cs' where cs': "bs_ok sha cs' ?bs'"
    "if be_height (bs_heap ?bs' ! ?be) = -1 then cs' = cs else grows cs ?be cs'"
    using add_entry_ok [OF c(1) c(2) [folded assms(2)] run] by blast
  have len: "length cs' = j + length xs + 2" using cs'(1) by (simp add: bs_ok_def)
  then have gr: "grows cs ?be cs'" "be_height (bs_heap ?bs' ! ?be) \<noteq> -1" using cs'(2) assms(10) by (auto split: if_splits)
  have "cs' \<noteq> []" using len by auto
  then have "?be \<in> set cs'" using gr(1) by (metis grows_def last_in_set)
  then have "?be < length (bs_heap ?bs')"
    using tables_wf(4) [OF bs_okD(2) [OF cs'(1) \<open>cs' \<noteq> []\<close>]] by blast
  then have "blockstore_add_header sha hdr hash bs = Some ((True, False), ?bs')"
    using add_header_new [OF assms(1) ne assms(2-4)] run gr(2) by simp
  then show ?thesis using cs'(1) len gr(1) by (intro exI [of _ cs'] exI [of _ ?bs']) (simp add: grows_def)
qed

section \<open>A sample store\<close>

text \<open>A stand-in for SHA-256 whose double application to a header is the header's Merkle root, and
  a store with the chain of hashes 1, 2, 3 and the orphan 5, a child of 2.\<close>

definition toy_sha :: "byte list \<Rightarrow> uint256" where
  "toy_sha b = (if length b = 80 then le_word (take 32 (drop 36 b)) else le_word b)"

definition toy_header :: "uint256 \<Rightarrow> uint256 \<Rightarrow> btc_block_header" where
  "toy_header hash prev = btc_block_header_zero\<lparr>bh_prevBlock := prev, bh_merkleRoot := hash\<rparr>"

definition toy_entry :: "nat option \<Rightarrow> nat option \<Rightarrow> uint256 \<Rightarrow> uint256 \<Rightarrow> int \<Rightarrow> blockentry" where
  "toy_entry prv nxt hash prev height = \<lparr>be_prev = prv, be_next = nxt, be_header = toy_header hash prev,
     be_height = height, be_written = False\<rparr>"

definition toy_heap :: "blockentry list" where
  "toy_heap = [toy_entry None (Some 1) 1 0 0, toy_entry (Some 0) (Some 2) 2 1 1,
     toy_entry (Some 1) None 3 2 2, toy_entry None None 5 2 (-1)]"

lemma toy_hash [simp]: "hdr_hash toy_sha (toy_header h p) = h"
  by (simp add: hdr_hash_def hash256_calc_def sha256_calc_def toy_sha_def toy_header_def enc_blockheader_def)

lemma toy_ehash:
  assumes "bs_heap bs = toy_heap"
  shows "ehash toy_sha bs 0 = 1" "ehash toy_sha bs (Suc 0) = 2" "ehash toy_sha bs 2 = 3" "ehash toy_sha bs 3 = 5"
  by (simp_all add: ehash_def assms toy_heap_def toy_entry_def)

lemma ht_of_list:
  assumes "distinct (map fst kvs)"
  shows "\<exists>ht. ht_wf ht \<and> ht_map ht = map_of kvs"
  using assms
proof (induction kvs)
  case Nil
  then show ?case using create_ok by auto
next
  case (Cons kv kvs)
  then obtain ht where ht: "ht_wf ht" "ht_map ht = map_of kvs" by auto
  have "ht_map ht (fst kv) = None" using Cons.prems by (simp add: ht(2) map_of_eq_None_iff)
  then show ?case using hts.insert_law [OF ht(1), of "fst kv" "snd kv"] ht(2) by (auto split: if_splits)
qed

definition toy_store :: "blockstore \<Rightarrow> bool" where
  "toy_store bs \<longleftrightarrow> bs_ok toy_sha [0, 1, 2] bs \<and> bs_heap bs = toy_heap \<and> bs_cpts bs = [(0, 1)] \<and>
     bs_genesis_hash bs = 1 \<and> ht_map (bs_hash_orphans bs) = [hkey 5 \<mapsto> 3] \<and>
     (\<forall>h. h \<notin> {1, 2, 3, 5} \<longrightarrow> blockstore_is_block_known bs h = Some False)"

lemma toy_exists: "\<exists>bs. toy_store bs"
proof -
  obtain blk :: "nat hashtable" where blk: "ht_wf blk" "ht_map blk = map_of [(hkey 1, 0), (hkey 2, 1), (hkey 3, 2)]"
    using ht_of_list [of "[(hkey 1, 0), (hkey 2, 1), (hkey 3, 2 :: nat)]"] by auto
  obtain orph :: "nat hashtable" where orph: "ht_wf orph" "ht_map orph = map_of [(hkey 5, 3)]"
    using ht_of_list [of "[(hkey 5, 3 :: nat)]"] by auto
  define bs where "bs = \<lparr>bs_heap = toy_heap, bs_file = [], bs_filesize = 0, bs_genesis_hash = 1, bs_best_hash = 3,
     bs_best_chain = Some 2, bs_genesis = Some 0, bs_height = 2, bs_hash_blk = blk, bs_hash_orphans = orph,
     bs_cpts = [(0, 1)], bs_count = 0\<rparr>"
  have sel: "bs_heap bs = toy_heap" "bs_hash_blk bs = blk" "bs_hash_orphans bs = orph" "bs_best_hash bs = 3"
    "bs_best_chain bs = Some 2" "bs_genesis bs = Some 0" "bs_height bs = 2" "bs_genesis_hash bs = 1" "bs_cpts bs = [(0, 1)]"
    by (simp_all add: bs_def)
  note e = toy_ehash [OF sel(1)]
  have n: "toy_heap ! 0 = toy_entry None (Some 1) 1 0 0" "toy_heap ! Suc 0 = toy_entry (Some 0) (Some 2) 2 1 1"
    "toy_heap ! 2 = toy_entry (Some 1) None 3 2 2" "toy_heap ! 3 = toy_entry None None 5 2 (-1)" "length toy_heap = 4"
    by (simp_all add: toy_heap_def)
  have three: "i < length [0, 1, 2 :: nat] \<longleftrightarrow> i = 0 \<or> i = Suc 0 \<or> i = 2" for i by auto
  have "linked toy_sha [0, 1, 2] bs"
    unfolding linked_def Let_def three
    by (auto simp: e sel n toy_entry_def toy_header_def)
  moreover have "tables toy_sha [0, 1, 2] bs"
    unfolding tables_def sel using blk orph n e by (auto simp: toy_entry_def split: if_splits intro: gr0I)
  ultimately have "bs_ok toy_sha [0, 1, 2] bs"
    by (simp add: bs_ok_def e sel n toy_entry_def)
  moreover have "blockstore_is_block_known bs h = Some False" if "h \<notin> {1, 2, 3, 5}" for h
    using that blk orph hts.lookup_law [OF blk(1)] hts.lookup_law [OF orph(1)]
    by (simp add: blockstore_is_block_known_def blockstore_has_header_def blockstore_is_orphan_def sel)
  ultimately have "toy_store bs" using orph by (simp add: toy_store_def sel fun_eq_iff)
  then show ?thesis by blast
qed

lemma toy_known:
  assumes "toy_store bs"
  shows "bs_ok toy_sha [0, 1, 2] bs" "[0, 1, 2] \<noteq> ([] :: nat list)"
    "h \<notin> {1, 2, 3, 5} \<Longrightarrow> blockstore_is_block_known bs h = Some False"
    "blockstore_validate_chkpt (bs_cpts bs) h (of_int (bs_height bs + 1))"
    "bs_best_hash bs = 3" "bs_genesis_hash bs = 1" "branch toy_sha bs 1 [3]"
    "ehash toy_sha bs 3 = 5" "ehash toy_sha bs 1 = 2"
proof -
  show ok: "bs_ok toy_sha [0, 1, 2] bs" and "bs_genesis_hash bs = 1" using assms by (simp_all add: toy_store_def)
  show "h \<notin> {1, 2, 3, 5} \<Longrightarrow> blockstore_is_block_known bs h = Some False" using assms by (simp add: toy_store_def)
  note d = bs_okD [OF ok] and e = toy_ehash [of bs]
  have hp: "bs_heap bs = toy_heap" and o: "ht_map (bs_hash_orphans bs) = [hkey 5 \<mapsto> 3]"
    using assms by (simp_all add: toy_store_def)
  show "blockstore_validate_chkpt (bs_cpts bs) h (of_int (bs_height bs + 1))"
    using d assms by (simp add: toy_store_def)
  show "bs_best_hash bs = 3" using d e hp by simp
  show "ehash toy_sha bs 3 = 5" "ehash toy_sha bs 1 = 2" using e hp by simp_all
  show "branch toy_sha bs 1 [3]" using e hp o by (simp add: toy_heap_def toy_entry_def toy_header_def)
qed simp

text \<open>The theorems above at this store.\<close>

theorem add_header_extends_tip_witness:
  "\<exists>bs bs'. toy_store bs \<and> blockstore_add_header toy_sha (toy_header 4 3) 4 bs = Some ((True, False), bs') \<and>
     bs_height bs' = bs_height bs + 1"
proof -
  obtain bs where t: "toy_store bs" using toy_exists by blast
  note k = toy_known [OF t]
  have "4 \<notin> {1, 2, 3, 5 :: uint256}" by simp
  from add_header_extends_tip [OF k(1,2) toy_hash [symmetric] k(3) [OF this] k(4), of 3] k(5) t
  show ?thesis by (auto simp: toy_header_def)
qed

theorem unknown_parent_is_orphan_witness:
  "\<exists>bs bs'. toy_store bs \<and> blockstore_add_header toy_sha (toy_header 4 9) 4 bs = Some ((True, True), bs')"
proof -
  obtain bs where t: "toy_store bs" using toy_exists by blast
  note k = toy_known [OF t]
  have n: "4 \<notin> {1, 2, 3, 5 :: uint256}" "9 \<notin> {1, 2, 3, 5 :: uint256}" by simp_all
  from unknown_parent_is_orphan [OF k(1,2) toy_hash [symmetric] k(3) [OF n(1)] k(4), of 9] k(3) [OF n(2)] t
  show ?thesis by (auto simp: toy_header_def)
qed

theorem fork_at_genesis_stops_witness:
  "\<exists>bs. toy_store bs \<and> blockstore_add_header toy_sha (toy_header 4 1) 4 bs = None"
proof -
  obtain bs where t: "toy_store bs" using toy_exists by blast
  note k = toy_known [OF t]
  have n: "4 \<notin> {1, 2, 3, 5 :: uint256}" by simp
  from fork_at_genesis_stops [OF k(1) _ toy_hash [symmetric] k(3) [OF n], of 1] k(6) t
  show ?thesis by (auto simp: toy_header_def)
qed

theorem longer_branch_becomes_best_witness:
  "\<exists>bs bs'. toy_store bs \<and> blockstore_add_header toy_sha (toy_header 6 5) 6 bs = Some ((True, False), bs') \<and>
     bs_best_hash bs' = 6"
proof -
  obtain bs where t: "toy_store bs" using toy_exists by blast
  note k = toy_known [OF t]
  have n: "6 \<notin> {1, 2, 3, 5 :: uint256}" by simp
  from longer_branch_becomes_best [OF k(1) toy_hash [symmetric] k(3) [OF n] k(4), of 1 "[3]" 5] k(7,8) t
  show ?thesis by (auto simp: toy_header_def)
qed

theorem add_header_keeps_chain_witness:
  "\<exists>bs bs' cs'. toy_store bs \<and> blockstore_add_header toy_sha (toy_header 4 3) 4 bs = Some ((True, False), bs') \<and>
     bs_ok toy_sha cs' bs' \<and> grows [0, 1, 2] (length (bs_heap bs)) cs'"
proof -
  obtain bs where t: "toy_store bs" using toy_exists by blast
  note k = toy_known [OF t]
  have n: "4 \<notin> {1, 2, 3, 5 :: uint256}" by simp
  obtain bs' where "blockstore_add_header toy_sha (toy_header 4 3) 4 bs = Some ((True, False), bs')"
    using add_header_tip [OF k(1,2) toy_hash [symmetric] k(3) [OF n] k(4), of 3] k(5) by (auto simp: toy_header_def)
  with add_header_keeps_chain [OF k(1) toy_hash [symmetric] this] t show ?thesis by auto
qed

section \<open>Writing the headers and reading them back\<close>

lemma hdr_of_bytes_enc [simp]: "hdr_of_bytes (enc_blockheader h @ ys) = h"
  by (cases h) (simp add: hdr_of_bytes_def enc_blockheader_def)

lemma enc_blockheader_length [simp]: "length (enc_blockheader h) = 80"
  by (simp add: enc_blockheader_def)

lemma split_headers_concat [simp]: "split_headers (concat (map enc_blockheader hs)) = hs"
  by (induction hs) (simp_all add: split_headers.simps [of "enc_blockheader _ @ _"] split_headers.simps [of "[]"])

lemma length_enc_headers [simp]: "length (concat (map enc_blockheader hs)) = 80 * length hs"
  by (induction hs) simp_all

lemma drop_enc [simp]: "drop (80 * m) (concat (map enc_blockheader hs)) = concat (map enc_blockheader (drop m hs))"
proof (induction hs arbitrary: m)
  case (Cons h hs)
  then show ?case by (cases m) simp_all
qed simp

lemma take_enc [simp]: "take (80 * m) (concat (map enc_blockheader hs)) = concat (map enc_blockheader (take m hs))"
proof (induction hs arbitrary: m)
  case (Cons h hs)
  then show ?case by (cases m) simp_all
qed simp

text \<open>The unwritten part of the chain, walked from its end to the first written block.\<close>

lemma unwritten_chain:
  assumes "linked sha cs bs" and "\<forall>i < length cs. cs ! i < length (bs_heap bs) \<and> (be_written (bs_heap bs ! (cs ! i)) \<longleftrightarrow> i < k)"
  shows "unwritten bs (if cs = [] then None else Some (last cs)) = Some (rev (drop k cs))"
proof -
  have "unwritten bs (if n = 0 then None else Some (cs ! (n - 1))) = Some (rev (drop k (take n cs)))" if "n \<le> length cs" for n
    using that
  proof (induction n)
    case 0
    then show ?case by (simp add: unwritten.simps)
  next
    case (Suc n)
    have "be_prev (bs_heap bs ! (cs ! n)) = (if n = 0 then None else Some (cs ! (n - 1)))"
      using assms(1) Suc.prems by (simp add: linked_def Let_def)
    then show ?case
      using Suc assms(2) by (subst unwritten.simps) (auto simp: take_Suc_conv_app_nth)
  qed
  from this [of "length cs"] show ?thesis by (cases "cs = []") (simp_all add: last_conv_nth)
qed

lemma mark_written_sel [simp]:
  "bs_file (mark_written as bs) = bs_file bs" "bs_filesize (mark_written as bs) = bs_filesize bs"
  "bs_best_chain (mark_written as bs) = bs_best_chain bs" "length (bs_heap (mark_written as bs)) = length (bs_heap bs)"
  by (induction as arbitrary: bs) (simp_all add: mark_written_def)

lemma mark_written_nth:
  assumes "a < length (bs_heap bs)"
  shows "bs_heap (mark_written as bs) ! a =
    (if a \<in> set as then (bs_heap bs ! a)\<lparr>be_written := True\<rparr> else bs_heap bs ! a)"
  using assms by (induction as arbitrary: bs) (auto simp: mark_written_def)

text \<open>Adding at the tip or as genesis leaves the rest of the store alone.\<close>

lemma header_assign [simp]:
  assumes "\<And>e. be_header (f e) = be_header e"
  shows "map be_header (bs_heap (assign a f bs)) = map be_header (bs_heap bs)"
  using assms by (simp add: assign_def map_update_same)

lemma written_assign [simp]:
  assumes "\<And>e. be_written (f e) = be_written e"
  shows "map be_written (bs_heap (assign a f bs)) = map be_written (bs_heap bs)"
  using assms by (simp add: assign_def map_update_same)

lemma add_entry_frame:
  assumes "blockstore_add_entry sha be hash bs = Some bs'" and "be < length (bs_heap bs)"
    and "bs_best_chain bs = None \<or> bh_prevBlock (be_header (bs_heap bs ! be)) = bs_best_hash bs"
  shows "map be_header (bs_heap bs') = map be_header (bs_heap bs)" "bs_hash_orphans bs' = bs_hash_orphans bs"
    "bs_genesis_hash bs' = bs_genesis_hash bs" "map be_written (bs_heap bs') = map be_written (bs_heap bs)"
  using assms by (auto simp: blockstore_add_entry_def Let_def split: option.splits bind_splits if_splits)

text \<open>Headers that form a chain from genesis, with hashes as good as distinct.\<close>

definition header_chain :: "(byte list \<Rightarrow> uint256) \<Rightarrow> uint256 \<Rightarrow> (u32 \<times> uint256) list \<Rightarrow> btc_block_header list \<Rightarrow> bool" where
  "header_chain sha g cpts hs \<longleftrightarrow> distinct (map (hdr_hash sha) hs) \<and>
     (hs \<noteq> [] \<longrightarrow> hdr_hash sha (hd hs) = g) \<and>
     (\<forall>i < length hs. blockstore_validate_chkpt cpts (hdr_hash sha (hs ! i)) (of_nat i) \<and>
       (0 < i \<longrightarrow> bh_prevBlock (hs ! i) = hdr_hash sha (hs ! (i - 1))))"

text \<open>A store that has loaded \<open>hs\<close>.\<close>

definition loaded :: "(byte list \<Rightarrow> uint256) \<Rightarrow> btc_block_header list \<Rightarrow> blockstore \<Rightarrow> bool" where
  "loaded sha hs bs \<longleftrightarrow> bs_ok sha [0..<length hs] bs \<and> map be_header (bs_heap bs) = hs \<and>
     map be_written (bs_heap bs) = replicate (length hs) True \<and> ht_map (bs_hash_orphans bs) = Map.empty"

lemma add_genesis_runs:
  assumes "bs_ok sha [] bs" and "fresh sha be hash bs" and "hash = bs_genesis_hash bs"
  shows "\<exists>bs'. blockstore_add_entry sha be hash bs = Some bs'"
proof -
  have T: "tables sha [] bs" and s: "bs_best_chain bs = None" "bs_height bs = -1"
    using assms(1) by (simp_all add: bs_ok_def)
  have f: "be < length (bs_heap bs)" "be_prev (bs_heap bs ! be) = None" "ht_map (bs_hash_blk bs) (hkey hash) = None"
    using assms(2) by (simp_all add: fresh_def)
  obtain blk where "hashtable_insert (bs_hash_blk bs) (hkey hash) be = Some (True, blk)"
    using hts.insert_law [OF tables_wf(1) [OF T], of "hkey hash" be] f(3) by auto
  then show ?thesis using s f assms(3) by (simp add: blockstore_add_entry_def)
qed

lemma linked_assign_written:
  assumes "bs_ok sha cs bs"
  shows "bs_ok sha cs (assign a (\<lambda>e. e\<lparr>be_written := True\<rparr>) bs)"
proof -
  let ?B = "assign a (\<lambda>e. e\<lparr>be_written := True\<rparr>) bs"
  have h: "\<exists>w. bs_heap ?B ! x = (bs_heap bs ! x)\<lparr>be_written := w\<rparr>" for x
  proof (cases "x = a \<and> a < length (bs_heap bs)")
    case False
    then have "bs_heap ?B ! x = bs_heap bs ! x" by (auto simp: assign_def nth_list_update list_update_beyond)
    then show ?thesis by (intro exI [of _ "be_written (bs_heap bs ! x)"]) simp
  qed auto
  have s: "be_height (bs_heap ?B ! x) = be_height (bs_heap bs ! x)" "be_prev (bs_heap ?B ! x) = be_prev (bs_heap bs ! x)"
    "be_next (bs_heap ?B ! x) = be_next (bs_heap bs ! x)" "be_header (bs_heap ?B ! x) = be_header (bs_heap bs ! x)" for x
    using h [of x] by auto
  have e: "ehash sha ?B = ehash sha bs" by simp
  show ?thesis using assms unfolding bs_ok_def linked_def tables_def e Let_def
    by (simp add: s del: assign_nth)
qed

lemma header_chain_prefix:
  assumes "header_chain sha g cpts (hs @ hs')"
  shows "header_chain sha g cpts hs"
  unfolding header_chain_def
proof (intro conjI allI impI)
  show "distinct (map (hdr_hash sha) hs)" using assms by (simp add: header_chain_def)
  show "hdr_hash sha (hd hs) = g" if "hs \<noteq> []" using assms that by (simp add: header_chain_def)
  fix i
  assume i: "i < length hs"
  have *: "\<forall>i < length (hs @ hs'). blockstore_validate_chkpt cpts (hdr_hash sha ((hs @ hs') ! i)) (of_nat i) \<and>
       (0 < i \<longrightarrow> bh_prevBlock ((hs @ hs') ! i) = hdr_hash sha ((hs @ hs') ! (i - 1)))"
    using assms unfolding header_chain_def by blast
  show "blockstore_validate_chkpt cpts (hdr_hash sha (hs ! i)) (of_nat i)"
    using * [rule_format, of i] i by (simp add: nth_append)
  show "bh_prevBlock (hs ! i) = hdr_hash sha (hs ! (i - 1))" if "0 < i"
    using * [rule_format, of i] i that by (simp add: nth_append less_imp_diff_less)
qed

lemma header_chain_snoc:
  assumes "header_chain sha g cpts (hs @ [h])"
  shows "hdr_hash sha h \<notin> set (map (hdr_hash sha) hs)" "hs = [] \<Longrightarrow> hdr_hash sha h = g"
    "hs \<noteq> [] \<Longrightarrow> bh_prevBlock h = hdr_hash sha (hs ! (length hs - 1))"
    "blockstore_validate_chkpt cpts (hdr_hash sha h) (of_nat (length hs))"
proof -
  have *: "\<forall>i < length (hs @ [h]). blockstore_validate_chkpt cpts (hdr_hash sha ((hs @ [h]) ! i)) (of_nat i) \<and>
       (0 < i \<longrightarrow> bh_prevBlock ((hs @ [h]) ! i) = hdr_hash sha ((hs @ [h]) ! (i - 1)))"
    and "distinct (map (hdr_hash sha) (hs @ [h]))" "hdr_hash sha (hd (hs @ [h])) = g"
    using assms unfolding header_chain_def by auto
  then show "hdr_hash sha h \<notin> set (map (hdr_hash sha) hs)" "hs = [] \<Longrightarrow> hdr_hash sha h = g" by auto
  show "hs \<noteq> [] \<Longrightarrow> bh_prevBlock h = hdr_hash sha (hs ! (length hs - 1))"
    "blockstore_validate_chkpt cpts (hdr_hash sha h) (of_nat (length hs))"
    using * [rule_format, of "length hs"] by (simp_all add: nth_append)
qed

lemma load_step:
  assumes "loaded sha hs bs" and "header_chain sha (bs_genesis_hash bs) (bs_cpts bs) (hs @ [h])"
  shows "\<exists>bs'. load_headers sha (h # hs') bs = load_headers sha hs' bs' \<and> loaded sha (hs @ [h]) bs' \<and>
     bs_genesis_hash bs' = bs_genesis_hash bs \<and> bs_cpts bs' = bs_cpts bs"
proof -
  let ?n = "length hs" and ?hash = "hdr_hash sha h"
  have ok: "bs_ok sha [0..<?n] bs" and hp: "map be_header (bs_heap bs) = hs"
    and on: "ht_map (bs_hash_orphans bs) = Map.empty" and wr: "map be_written (bs_heap bs) = replicate ?n True"
    using assms(1) by (simp_all add: loaded_def)
  have len: "length (bs_heap bs) = ?n" using hp by (metis length_map)
  have T: "tables sha [0..<?n] bs" and ht: "bs_height bs = int ?n - 1" using ok by (simp_all add: bs_ok_def)
  have c: "?hash \<notin> set (map (hdr_hash sha) hs)" "hs = [] \<Longrightarrow> ?hash = bs_genesis_hash bs"
    "hs \<noteq> [] \<Longrightarrow> bh_prevBlock h = hdr_hash sha (hs ! (?n - 1))"
    "blockstore_validate_chkpt (bs_cpts bs) ?hash (of_nat ?n)"
    using header_chain_snoc [OF assms(2)] by simp_all
  have eh: "ehash sha bs a = hdr_hash sha (hs ! a)" if "a < ?n" for a
    using that hp len by (metis ehash_def nth_map)
  have un: "ht_map (bs_hash_blk bs) (hkey ?hash) = None"
  proof (rule ccontr)
    assume "ht_map (bs_hash_blk bs) (hkey ?hash) \<noteq> None"
    then obtain a where "a < ?n" "?hash = ehash sha bs a" using tables_blkD [OF T, of "hkey ?hash"] by auto
    with c(1) eh show False by simp
  qed
  define B where "B = assign ?n (\<lambda>e. e\<lparr>be_written := True\<rparr>) (with_new h bs)"
  have okB: "bs_ok sha [0..<?n] B" unfolding B_def using bs_ok_with_new [OF ok] by (rule linked_assign_written)
  have fr: "fresh sha ?n ?hash B"
    using len un on with_new_sel(11-13) [of h bs] with_new_ehash(2) [of sha h bs] by (simp add: fresh_def B_def)
  have hB: "map be_header (bs_heap B) = hs @ [h]"
    using hp by (simp add: B_def with_new_def blockstore_alloc_entry_def)
  have wB: "map be_written (bs_heap B) = replicate ?n True @ [True]"
    using wr unfolding B_def len [symmetric] by (simp add: with_new_def blockstore_alloc_entry_def assign_def)
  have step: "load_headers sha (h # hs') bs = do { bs \<leftarrow> blockstore_add_entry sha ?n ?hash B; load_headers sha hs' bs }"
    using c(4) ht len by (simp add: B_def with_new_def blockstore_alloc_entry_def)
  have "\<exists>bs'. blockstore_add_entry sha ?n ?hash B = Some bs' \<and> bs_ok sha ([0..<?n] @ [?n]) bs' \<and> bs_cpts bs' = bs_cpts B \<and>
      (bs_best_chain B = None \<or> bh_prevBlock (be_header (bs_heap B ! ?n)) = bs_best_hash B)"
  proof (cases "hs = []")
    case True
    with okB fr obtain bs' where r: "blockstore_add_entry sha ?n ?hash B = Some bs'"
      using add_genesis_runs [of sha B ?n ?hash] c(2) by (auto simp: B_def)
    have "bs_ok sha [0] bs'" "bs_cpts bs' = bs_cpts B"
      using add_genesis_ok [of sha B ?n ?hash bs'] okB fr r True by simp_all
    with r True okB show ?thesis by (simp add: bs_ok_def)
  next
    case False
    then have ne: "[0..<?n] \<noteq> []" by simp
    have "bs_best_hash B = ehash sha B (?n - 1)" using bs_okD(7) [OF okB ne] False by simp
    also have "\<dots> = hdr_hash sha (hs ! (?n - 1))"
      using eh [of "?n - 1"] False len by (simp add: B_def)
    finally have p: "bh_prevBlock (be_header (bs_heap B ! ?n)) = bs_best_hash B"
      using c(3) [OF False] with_new_sel(11) [of h bs] len by (simp add: B_def)
    from add_tip_ok [OF okB ne fr p] p show ?thesis by auto
  qed
  then obtain bs' where bs': "blockstore_add_entry sha ?n ?hash B = Some bs'" "bs_ok sha ([0..<?n] @ [?n]) bs'"
    "bs_cpts bs' = bs_cpts B" "bs_best_chain B = None \<or> bh_prevBlock (be_header (bs_heap B ! ?n)) = bs_best_hash B" by blast
  have "?n < length (bs_heap B)" using len by (simp add: B_def)
  note fm = add_entry_frame [OF bs'(1) this bs'(4)]
  have "loaded sha (hs @ [h]) bs'" using bs'(2) fm hB on wB by (simp add: loaded_def replicate_append_same) (simp add: B_def)
  then show ?thesis using step bs' fm by (intro exI [of _ bs']) (simp add: B_def)
qed

lemma load_all:
  assumes "loaded sha hs bs" and "header_chain sha (bs_genesis_hash bs) (bs_cpts bs) (hs @ hs')"
  shows "\<exists>bs'. load_headers sha hs' bs = Some (False, bs') \<and> loaded sha (hs @ hs') bs' \<and>
    bs_genesis_hash bs' = bs_genesis_hash bs \<and> bs_cpts bs' = bs_cpts bs"
  using assms
proof (induction hs' arbitrary: hs bs)
  case (Cons h hs')
  have "header_chain sha (bs_genesis_hash bs) (bs_cpts bs) (hs @ [h])"
    using header_chain_prefix [of sha _ _ "hs @ [h]" hs'] Cons.prems(2) by simp
  from load_step [OF Cons.prems(1) this] obtain bs' where bs': "load_headers sha (h # hs') bs = load_headers sha hs' bs'"
    "loaded sha (hs @ [h]) bs'" "bs_genesis_hash bs' = bs_genesis_hash bs" "bs_cpts bs' = bs_cpts bs" by blast
  from Cons.IH [OF bs'(2)] bs'(1,3,4) Cons.prems(2) show ?case by simp
qed simp

lemma ehash_file [simp]: "ehash sha (bs\<lparr>bs_file := f, bs_filesize := n\<rparr>) = ehash sha bs"
  by (simp add: ehash_def fun_eq_iff)

lemma bs_ok_file [simp]: "bs_ok sha cs (bs\<lparr>bs_file := f, bs_filesize := n\<rparr>) = bs_ok sha cs bs"
  by (simp add: bs_ok_def linked_def tables_def)

lemma loaded_file [simp]: "loaded sha hs (bs\<lparr>bs_file := f, bs_filesize := n\<rparr>) = loaded sha hs bs"
  by (simp add: loaded_def)

text \<open>The file is loaded in pieces.\<close>

lemma load_file_all:
  assumes "loaded sha (take m hs) bs" and "m \<le> length hs" and "header_chain sha (bs_genesis_hash bs) (bs_cpts bs) hs"
    and "bs_file bs = concat (map enc_blockheader hs)" and "bs_filesize bs = 80 * length hs"
  shows "\<exists>bs'. load_file sha (\<lambda>_. False) False (80 * m) bs = Some (False, bs') \<and> loaded sha hs bs' \<and>
    bs_file bs' = bs_file bs \<and> bs_filesize bs' = bs_filesize bs"
  using assms
proof (induction "length hs - m" arbitrary: m bs rule: less_induct)
  case less
  show ?case
  proof (cases "m = length hs")
    case True
    then show ?thesis using less.prems by (subst load_file.simps) simp
  next
    case False
    let ?k = "min (length hs - m) 10000" and ?F = "\<lambda>b. b\<lparr>bs_file := bs_file bs, bs_filesize := bs_filesize bs\<rparr>"
    have t: "take (m + ?k) hs = take m hs @ take ?k (drop m hs)" by (rule take_add)
    have "header_chain sha (bs_genesis_hash bs) (bs_cpts bs) (take m hs @ take ?k (drop m hs))"
      unfolding t [symmetric] by (rule header_chain_prefix [where hs' = "drop (m + ?k) hs"]) (simp add: less.prems(3))
    from load_all [OF less.prems(1) this] obtain b where b: "load_headers sha (take ?k (drop m hs)) bs = Some (False, b)"
      "loaded sha (take (m + ?k) hs) b" "bs_genesis_hash b = bs_genesis_hash bs" "bs_cpts b = bs_cpts bs"
      unfolding t by blast
    have n: "min (80 * length hs - 80 * m) 800000 = 80 * ?k" by linarith
    have "load_file sha (\<lambda>_. False) False (80 * m) bs = load_file sha (\<lambda>_. False) False (80 * (m + ?k)) (?F b)"
      using less.prems False b(1)
      by (subst load_file.simps) (simp add: n add_mult_distrib2 del: mult_Suc_right)
    moreover have "length hs - (m + ?k) < length hs - m" "m + ?k \<le> length hs" using less.prems(2) False by auto
    note less.hyps [OF this(1), of "?F b"]
    ultimately show ?thesis using b less.prems by simp
  qed
qed

text \<open>The headers of the best chain.\<close>

definition chain_headers :: "nat list \<Rightarrow> blockstore \<Rightarrow> btc_block_header list" where
  "chain_headers cs bs = map (\<lambda>a. be_header (bs_heap bs ! a)) cs"

text \<open>The file holds the first \<open>k\<close> headers of the chain, and their blocks are the ones marked as written.\<close>

definition file_holds :: "nat \<Rightarrow> nat list \<Rightarrow> blockstore \<Rightarrow> bool" where
  "file_holds k cs bs \<longleftrightarrow> k \<le> length cs \<and> bs_filesize bs = length (bs_file bs) \<and>
     bs_file bs = concat (map enc_blockheader (chain_headers (take k cs) bs)) \<and>
     (\<forall>i < length cs. be_written (bs_heap bs ! (cs ! i)) \<longleftrightarrow> i < k)"

lemma chain_headers_chain:
  assumes "bs_ok sha cs bs" and "\<forall>i < length cs. blockstore_validate_chkpt (bs_cpts bs) (ehash sha bs (cs ! i)) (of_nat i)"
  shows "header_chain sha (bs_genesis_hash bs) (bs_cpts bs) (chain_headers cs bs)"
proof (cases "cs = []")
  case True
  then show ?thesis by (simp add: header_chain_def chain_headers_def)
next
  case False
  note d = bs_okD [OF assms(1) False]
  have "map (hdr_hash sha) (chain_headers cs bs) = map (ehash sha bs) cs" by (simp add: chain_headers_def ehash_def)
  moreover have "distinct (map (ehash sha bs) cs)"
    unfolding distinct_map using tables_wf(3) [OF d(2)] tables_inj [OF d(2)] by (auto simp: inj_on_def)
  ultimately have "distinct (map (hdr_hash sha) (chain_headers cs bs))" by simp
  then show ?thesis
    using d(1,8) False assms(2) by (auto simp: header_chain_def chain_headers_def ehash_def linked_def Let_def hd_map simp del: map_map)
qed

text \<open>Writing appends the headers that are not in the file yet.\<close>

lemma write_holds:
  assumes "bs_ok sha cs bs" and "cs \<noteq> []" and "file_holds k cs bs" and "length cs < k + 2048" and "80 * (length cs - k) \<le> n"
  shows "\<exists>bs1. blockstore_write_headers (False, n) bs = Some bs1 \<and> file_holds (length cs) cs bs1 \<and>
    chain_headers cs bs1 = chain_headers cs bs"
proof -
  note d = bs_okD [OF assms(1,2)]
  let ?hs = "chain_headers cs bs"
  have f: "k \<le> length cs" "bs_filesize bs = length (bs_file bs)" "bs_file bs = concat (map enc_blockheader (take k ?hs))"
    and w: "\<forall>i < length cs. be_written (bs_heap bs ! (cs ! i)) \<longleftrightarrow> i < k"
    using assms(3) by (simp_all add: file_holds_def chain_headers_def take_map)
  have h: "\<forall>i < length cs. cs ! i < length (bs_heap bs)" using tables_wf(4) [OF d(2)] by simp
  have un: "unwritten bs (bs_best_chain bs) = Some (rev (drop k cs))"
    using unwritten_chain [OF d(1), of k] h w assms(2) d(4) by simp
  let ?buf = "concat (map enc_blockheader (drop k ?hs))"
  have buf: "concat (map (\<lambda>a. enc_blockheader (be_header (bs_heap bs ! a))) (drop k cs)) = ?buf"
    by (simp add: chain_headers_def drop_map o_def)
  define bs1 where "bs1 = (let b = mark_written (rev (drop k cs)) bs in
    b\<lparr>bs_file := bs_file bs @ ?buf, bs_filesize := length (bs_file bs) + length ?buf\<rparr>)"
  have l: "length ?buf = 80 * (length cs - k)" unfolding length_enc_headers by (simp add: chain_headers_def)
  have "blockstore_write_headers (False, n) bs = Some bs1"
  proof (cases "k = length cs")
    case True
    then have "bs1 = bs" using f(2) by (simp add: bs1_def mark_written_def chain_headers_def)
    then show ?thesis using un True by (simp add: blockstore_write_headers_def)
  next
    case False
    then show ?thesis using un assms(4,5) f(1,2) l buf
      by (simp add: blockstore_write_headers_def bs1_def Let_def file_store_def min_def rev_map [symmetric] del: length_concat)
  qed
  moreover have m: "bs_heap bs1 ! (cs ! i) = (if k \<le> i then (bs_heap bs ! (cs ! i))\<lparr>be_written := True\<rparr> else bs_heap bs ! (cs ! i))"
    if "i < length cs" for i
  proof -
    have "cs ! i \<in> set (drop k cs) \<longleftrightarrow> k \<le> i"
      using that nth_eq_iff_index_eq [OF tables_wf(3) [OF d(2)]] by (auto simp: in_set_conv_nth intro: exI [of _ "i - k"])
    then show ?thesis using mark_written_nth [of "cs ! i" bs "rev (drop k cs)"] h that by (simp add: bs1_def Let_def)
  qed
  have ch: "chain_headers cs bs1 = ?hs"
    by (rule nth_equalityI) (simp_all add: chain_headers_def m)
  moreover have "bs_file bs1 = concat (map enc_blockheader ?hs)" "bs_filesize bs1 = length (bs_file bs1)"
    by (simp_all add: bs1_def Let_def f(3) flip: concat_append map_append)
  ultimately show ?thesis using w m by (auto simp: file_holds_def)
qed

text \<open>C32: the headers survive a restart: when the file holds the headers of a first part of the best chain
  (none of them, or those of earlier writes), a complete write of the rest, of fewer than 2048 headers as the
  code asserts, leaves a file from which a freshly created store of the same network loads the same chain,
  however long it is (the file is read in pieces of 10000 headers). After the write and after the restart
  the file holds the whole chain and its blocks count as written, so that the next write appends to it.\<close>

theorem headers_survive_restart:
  assumes "bs_ok sha cs bs" and "cs \<noteq> []" and "file_holds k cs bs" and "length cs < k + 2048"
    and "\<forall>i < length cs. blockstore_validate_chkpt (bs_cpts bs) (ehash sha bs (cs ! i)) (of_nat i)"
    and "blockstore_create strs = Some bs0" and "bs_cpts bs0 = bs_cpts bs" and "bs_genesis_hash bs0 = bs_genesis_hash bs"
    and "80 * (length cs - k) \<le> n"
  shows "\<exists>bs1 bs2. blockstore_write_headers (False, n) bs = Some bs1 \<and> file_holds (length cs) cs bs1 \<and>
    blockset_open_file sha (\<lambda>_. False) False (bs_file bs1) bs0 = Some (False, bs2) \<and>
    bs_ok sha [0..<length cs] bs2 \<and> chain_headers [0..<length cs] bs2 = chain_headers cs bs \<and>
    file_holds (length cs) [0..<length cs] bs2"
proof -
  let ?hs = "chain_headers cs bs"
  have lh: "length ?hs = length cs" by (simp add: chain_headers_def)
  obtain bs1 where w: "blockstore_write_headers (False, n) bs = Some bs1" "file_holds (length cs) cs bs1" "chain_headers cs bs1 = ?hs"
    using write_holds [OF assms(1-4,9)] by blast
  then have f: "bs_file bs1 = concat (map enc_blockheader ?hs)" by (simp add: file_holds_def)
  define B where "B = bs0\<lparr>bs_file := bs_file bs1, bs_filesize := length (bs_file bs1)\<rparr>"
  have hp: "bs_heap bs0 = []" using assms(6) by (auto simp: blockstore_create_def split: bind_splits if_splits)
  have "loaded sha (take 0 ?hs) B" using create_ok' [OF assms(6), of sha] hp by (simp add: loaded_def B_def) (simp add: bs_ok_def)
  moreover have "header_chain sha (bs_genesis_hash B) (bs_cpts B) ?hs"
    using chain_headers_chain [OF assms(1,5)] assms(7,8) by (simp add: B_def)
  ultimately obtain bs2 where l: "load_file sha (\<lambda>_. False) False (80 * 0) B = Some (False, bs2)" "loaded sha ?hs bs2"
    "bs_file bs2 = bs_file B" "bs_filesize bs2 = bs_filesize B"
    using load_file_all [of sha 0 ?hs B] f by (auto simp: B_def simp del: length_concat)
  from l(2) have b: "bs_ok sha [0..<length cs] bs2" "map be_header (bs_heap bs2) = ?hs"
    "map be_written (bs_heap bs2) = replicate (length cs) True" unfolding loaded_def lh by blast+
  have len: "length (bs_heap bs2) = length cs" using b(2) lh by (metis length_map)
  have ch: "chain_headers [0..<length cs] bs2 = ?hs" unfolding chain_headers_def b(2) [symmetric, unfolded chain_headers_def]
    by (simp add: map_nth len [symmetric] flip: map_map [unfolded comp_def])
  have "be_written (bs_heap bs2 ! i)" if "i < length cs" for i
    using b(3) that len by (metis nth_map nth_replicate)
  then have "file_holds (length cs) [0..<length cs] bs2" using l(3,4) f ch by (simp add: file_holds_def B_def)
  then show ?thesis using w l(1) b(1) ch by (auto simp: blockset_open_file_def B_def)
qed

text \<open>C35: a failed write loses headers: \<open>blockstore_write_headers\<close> marks the entries as written before
  it calls \<open>file_pwrite\<close>, so that when the write fails the file is unchanged and no later call writes
  them.\<close>

theorem failed_write_is_never_retried:
  assumes "bs_ok sha cs bs" and "cs \<noteq> []" and "blockstore_write_headers (True, n) bs = Some bs1"
  shows "bs_file bs1 = bs_file bs \<and> (\<forall>wr. blockstore_write_headers wr bs1 = Some bs1)"
proof -
  note d = bs_okD [OF assms(1,2)]
  obtain as where as: "unwritten bs (bs_best_chain bs) = Some as" using assms(3)
    by (auto simp: blockstore_write_headers_def split: bind_splits)
  have lst: "last cs < length (bs_heap bs)" using tables_wf(4) [OF d(2)] assms(2) by simp
  have "last cs \<in> set as \<or> be_written (bs_heap bs ! last cs)"
    using as d(4) lst by (subst (asm) unwritten.simps) (auto split: if_splits bind_splits)
  then have "be_written (bs_heap (mark_written as bs) ! last cs)" "as = [] \<longrightarrow> mark_written as bs = bs"
    using mark_written_nth [OF lst] by (auto simp: mark_written_def)
  then have "unwritten (mark_written as bs) (bs_best_chain (mark_written as bs)) = Some []"
    using d(4) lst by (subst unwritten.simps) simp
  moreover have "bs1 = mark_written as bs"
    using assms(3) as by (auto simp: blockstore_write_headers_def Let_def mark_written_def split: if_splits)
  ultimately show ?thesis by (simp add: blockstore_write_headers_def)
qed

text \<open>A store whose genesis hash is a string of zeroes that ends in 1, the network of the sample
  store.\<close>

definition toy_network :: "(u32 \<times> string) list" where
  "toy_network = [(0, replicate 63 (CHR ''0'') @ ''1'')]"

lemma toy_create:
  "\<exists>bs0. blockstore_create toy_network = Some bs0 \<and> bs_cpts bs0 = [(0, 1)] \<and> bs_genesis_hash bs0 = 1"
proof -
  have "uint256_from_str (replicate 63 (CHR ''0'') @ ''1'') 0 = (True, 1)" by code_simp
  then have "parse_cpts toy_network = Some [(0, 1)]" by (simp add: toy_network_def)
  moreover obtain ht :: "nat hashtable" where ht: "hashtable_create = Some ht" using create_ok by blast
  ultimately show ?thesis unfolding blockstore_create_def ht by simp
qed

theorem headers_survive_restart_witness:
  "\<exists>bs bs1 bs0 bs2. file_holds 1 [0, 1, 2] bs \<and> blockstore_create toy_network = Some bs0 \<and>
     blockstore_write_headers (False, 160) bs = Some bs1 \<and>
     blockset_open_file toy_sha (\<lambda>_. False) False (bs_file bs1) bs0 = Some (False, bs2) \<and>
     chain_headers [0, 1, 2] bs2 = [toy_header 1 0, toy_header 2 1, toy_header 3 2] \<and> file_holds 3 [0, 1, 2] bs2"
proof -
  obtain bs where t: "toy_store bs" using toy_exists by blast
  note k = toy_known [OF t]
  let ?bs = "(assign 0 (\<lambda>e. e\<lparr>be_written := True\<rparr>) bs)\<lparr>bs_file := enc_blockheader (toy_header 1 0), bs_filesize := 80\<rparr>"
  obtain bs0 where c: "blockstore_create toy_network = Some bs0" "bs_cpts bs0 = [(0, 1)]" "bs_genesis_hash bs0 = 1"
    using toy_create by blast
  have h: "bs_heap bs = toy_heap" "bs_cpts bs = [(0, 1)]" "bs_genesis_hash bs = 1" using t by (simp_all add: toy_store_def)
  have ok: "bs_ok toy_sha [0, 1, 2] ?bs" using linked_assign_written [OF k(1)] by simp
  have f: "file_holds 1 [0, 1, 2] ?bs"
    by (auto simp: file_holds_def chain_headers_def h toy_heap_def toy_entry_def less_Suc_eq numeral_eq_Suc)
  have "ehash toy_sha ?bs = ehash toy_sha bs" by simp
  then have v: "\<forall>i < length [0, 1, 2 :: nat]. blockstore_validate_chkpt (bs_cpts ?bs) (ehash toy_sha ?bs ([0, 1, 2] ! i)) (of_nat i)"
    using toy_ehash [OF h(1)] h(2) by (auto simp: less_Suc_eq numeral_eq_Suc)
  have ch: "chain_headers [0, 1, 2] ?bs = [toy_header 1 0, toy_header 2 1, toy_header 3 2]"
    by (simp add: chain_headers_def h toy_heap_def toy_entry_def)
  have u: "[0..<length [0, 1, 2 :: nat]] = [0, 1, 2]" by (simp add: upt_rec)
  from headers_survive_restart [OF ok _ f _ v c(1), of 160] c(2,3) h(2,3)
  have "\<exists>bs1 bs2. blockstore_write_headers (False, 160) ?bs = Some bs1 \<and>
     blockset_open_file toy_sha (\<lambda>_. False) False (bs_file bs1) bs0 = Some (False, bs2) \<and>
     chain_headers [0, 1, 2] bs2 = chain_headers [0, 1, 2] ?bs \<and> file_holds 3 [0, 1, 2] bs2"
    unfolding u by (auto simp: numeral_3_eq_3)
  then show ?thesis unfolding ch using f c(1) by blast
qed

theorem failed_write_is_never_retried_witness:
  "\<exists>bs bs1. toy_store bs \<and> blockstore_write_headers (True, 0) bs = Some bs1 \<and> bs_file bs1 = bs_file bs \<and>
     (\<forall>wr. blockstore_write_headers wr bs1 = Some bs1)"
proof -
  obtain bs where t: "toy_store bs" using toy_exists by blast
  have ok: "bs_ok toy_sha [0, 1, 2] bs" using t by (simp add: toy_store_def)
  note d = bs_okD [OF ok]
  have n: "\<forall>i < length [0, 1, 2 :: nat]. [0, 1, 2] ! i < length (bs_heap bs) \<and> (be_written (bs_heap bs ! ([0, 1, 2] ! i)) \<longleftrightarrow> i < 0)"
    using t by (auto simp: toy_store_def toy_heap_def toy_entry_def less_Suc_eq numeral_eq_Suc)
  have "unwritten bs (bs_best_chain bs) = Some [2, 1, 0]" using unwritten_chain [OF d(1) n] d(4) by simp
  then have w: "blockstore_write_headers (True, 0) bs = Some (mark_written [2, 1, 0] bs)"
    by (simp add: blockstore_write_headers_def Let_def)
  from failed_write_is_never_retried [OF ok _ w] w t show ?thesis by auto
qed

end
