(* ===== verification/Txdb.thy ===== *)
theory Txdb
  imports Wallet BlockStore
begin

text \<open>
  The transaction database of \<^verbatim>\<open>src/core/txdb.c\<close> and the operations of \<^verbatim>\<open>src/core/wallet.c\<close> that
  use it: which outputs are the client's coins, which of them are spent, and the transactions that
  spend them.

  Both tables map to pointers: a pointer is an index into the list of the entries that were
  allocated. LevelDB is a parameter with the operations \<open>ldb_put\<close> (no value: an error) and
  \<open>ldb_entries\<close>, the entries in the order of the iterator; so are \<open>qsort\<close> and the clock. Reporting to
  the user interface and relaying to the peers are not modelled.
\<close>

record tx_entry =
  te_tx :: btc_msg_tx
  te_blkHash :: uint256
  te_timestamp :: u64
  te_relevant :: bool

record txo_entry =
  txo_txHash :: uint256
  txo_blkHash :: uint256
  txo_btc_addr :: "string option"
  txo_outIdx :: u32
  txo_value :: u64
  txo_spent :: bool
  txo_spendable :: bool

record tx_ser_data =
  sd_blkHash :: uint256
  sd_timestamp :: u64
  sd_buf :: "byte list"
  sd_len :: u64

record tx_ser_key =
  sk_seq :: u64
  sk_txHash :: uint256

record 'db leveldb =
  ldb_put :: "'db \<Rightarrow> byte list \<Rightarrow> byte list \<Rightarrow> 'db option"
  ldb_entries :: "'db \<Rightarrow> (byte list \<times> byte list) list"

record 'db txdb =
  db_hash_tx :: "nat hashtable"
  db_hash_txo :: "nat hashtable"
  db_tx_seq :: u64
  db_db :: 'db
  db_txs :: "tx_entry list"
  db_txos :: "txo_entry list"

section \<open>Coins\<close>

definition deref_tx :: "'db txdb \<Rightarrow> nat \<Rightarrow> tx_entry option" where
  "deref_tx db a = (if a < length (db_txs db) then Some (db_txs db ! a) else None)"

definition deref_txo :: "'db txdb \<Rightarrow> nat \<Rightarrow> txo_entry option" where
  "deref_txo db a = (if a < length (db_txos db) then Some (db_txos db ! a) else None)"

definition txo_key :: "uint256 \<Rightarrow> u32 \<Rightarrow> byte list" where
  "txo_key txHash outIdx = le_bytes txHash @ le_bytes outIdx"

definition txdb_lookup_txo :: "'db txdb \<Rightarrow> uint256 \<Rightarrow> u32 \<Rightarrow> nat option option" where
  "txdb_lookup_txo db txHash outIdx = hashtable_lookup (db_hash_txo db) (txo_key txHash outIdx)"

text \<open>What an output pays to the wallet: the key hash, if the output is its own.\<close>

definition pays_wallet :: "(byte list \<Rightarrow> uint256) \<Rightarrow> 'pk wallet \<Rightarrow> btc_msg_tx_out \<Rightarrow> uint160 option option" where
  "pays_wallet sha wallet txo = do {
     (res, addr) \<leftarrow> script_parse_pubkey_hash sha (to_scriptPubKey txo) (to_scriptLength txo);
     if res then Some None
     else do {
       mine \<leftarrow> wallet_is_pubkey_hash160_mine wallet addr;
       Some (if mine then Some addr else None)
     }
   }"

fun credit_loop :: "(byte list \<Rightarrow> uint256) \<Rightarrow> 'pk wallet \<Rightarrow> btc_msg_tx_out list \<Rightarrow> u64 \<Rightarrow> u64 option" where
  "credit_loop sha wallet [] credit = Some credit"
| "credit_loop sha wallet (txo # txos) credit = do {
     addr \<leftarrow> pays_wallet sha wallet txo;
     credit_loop sha wallet txos (if addr = None then credit else credit + to_value txo)
   }"

definition txdb_get_tx_credit :: "(byte list \<Rightarrow> uint256) \<Rightarrow> 'pk wallet \<Rightarrow> btc_msg_tx \<Rightarrow> u64 option" where
  "txdb_get_tx_credit sha wallet tx = do {
     ASSERT (unat (tx_out_count tx) \<le> length (tx_tx_out tx));
     credit_loop sha wallet (take (unat (tx_out_count tx)) (tx_tx_out tx)) 0
   }"

fun debit_loop :: "'db txdb \<Rightarrow> btc_msg_tx_in list \<Rightarrow> u64 \<Rightarrow> u64 option" where
  "debit_loop db [] debit = Some debit"
| "debit_loop db (txi # txis) debit = do {
     r \<leftarrow> txdb_lookup_txo db (ti_prevTxHash txi) (ti_prevTxOutIdx txi);
     case r of None \<Rightarrow> debit_loop db txis debit
     | Some a \<Rightarrow> do { e \<leftarrow> deref_txo db a; debit_loop db txis (debit + txo_value e) }
   }"

definition txdb_get_tx_debit :: "'db txdb \<Rightarrow> btc_msg_tx \<Rightarrow> u64 option" where
  "txdb_get_tx_debit db tx = do {
     ASSERT (unat (tx_in_count tx) \<le> length (tx_tx_in tx));
     debit_loop db (take (unat (tx_in_count tx)) (tx_tx_in tx)) 0
   }"

text \<open>The two loops of \<open>txdb_process_tx_entry\<close>: coins that an input spends, and new coins.\<close>

fun spend_inputs :: "btc_msg_tx_in list \<Rightarrow> 'db txdb \<Rightarrow> bool \<Rightarrow> ('db txdb \<times> bool) option" where
  "spend_inputs [] db relevant = Some (db, relevant)"
| "spend_inputs (txi # txis) db relevant = do {
     r \<leftarrow> txdb_lookup_txo db (ti_prevTxHash txi) (ti_prevTxOutIdx txi);
     case r of None \<Rightarrow> spend_inputs txis db relevant
     | Some a \<Rightarrow> do {
         e \<leftarrow> deref_txo db a;
         ASSERT (\<not> txo_spent e);
         spend_inputs txis (db\<lparr>db_txos := (db_txos db)[a := e\<lparr>txo_spent := True\<rparr>]\<rparr>) True
       }
   }"

fun add_outputs ::
  "('bn, 'b, 'pt, 'pk) openssl \<Rightarrow> 'pk wallet \<Rightarrow> uint256 \<Rightarrow> uint256 option \<Rightarrow> u32 \<Rightarrow> btc_msg_tx_out list \<Rightarrow>
    'db txdb \<Rightarrow> bool \<Rightarrow> ('db txdb \<times> bool) option" where
  "add_outputs ssl wallet txHash blkHash i [] db relevant = Some (db, relevant)"
| "add_outputs ssl wallet txHash blkHash i (txo # txos) db relevant = do {
     addr \<leftarrow> pays_wallet (o_sha ssl) wallet txo;
     case addr of None \<Rightarrow> add_outputs ssl wallet txHash blkHash (i + 1) txos db relevant
     | Some pub_key \<Rightarrow> do {
         btc_addr \<leftarrow> b58_pubkey_from_uint160 (o_bn ssl) (o_sha ssl) pub_key;
         spendable \<leftarrow> wallet_is_pubkey_spendable wallet pub_key;
         let e = \<lparr>txo_txHash = txHash, txo_blkHash = (case blkHash of None \<Rightarrow> 0 | Some h \<Rightarrow> h), txo_btc_addr = btc_addr,
              txo_outIdx = i, txo_value = to_value txo, txo_spent = False, txo_spendable = spendable\<rparr>;
         (s, hash_txo) \<leftarrow> hashtable_insert (db_hash_txo db) (txo_key txHash i) (length (db_txos db));
         ASSERT s;
         add_outputs ssl wallet txHash blkHash (i + 1) txos
           (db\<lparr>db_hash_txo := hash_txo, db_txos := db_txos db @ [e]\<rparr>) True
       }
   }"

definition txdb_process_tx_entry ::
  "('bn, 'b, 'pt, 'pk) openssl \<Rightarrow> 'pk wallet \<Rightarrow> 'db txdb \<Rightarrow> uint256 \<Rightarrow> uint256 option \<Rightarrow> btc_msg_tx \<Rightarrow> bool \<Rightarrow>
    ('db txdb \<times> bool) option" where
  "txdb_process_tx_entry ssl wallet db txHash blkHash tx relevant = do {
     ASSERT (\<not> relevant);
     ASSERT (unat (tx_in_count tx) \<le> length (tx_tx_in tx) \<and> unat (tx_out_count tx) \<le> length (tx_tx_out tx));
     (db, relevant) \<leftarrow> spend_inputs (take (unat (tx_in_count tx)) (tx_tx_in tx)) db relevant;
     add_outputs ssl wallet txHash blkHash 0 (take (unat (tx_out_count tx)) (tx_tx_out tx)) db relevant
   }"

definition txdb_get_balance_cb :: "'db txdb \<Rightarrow> byte list \<Rightarrow> nat \<Rightarrow> u64 \<Rightarrow> u64 option" where
  "txdb_get_balance_cb db key a balance = do {
     e \<leftarrow> deref_txo db a;
     Some (if \<not> txo_spent e then balance + txo_value e else balance)
   }"

definition txdb_get_balance :: "'db txdb \<Rightarrow> u64 option" where
  "txdb_get_balance db = hashtable_for_each (db_hash_txo db) (txdb_get_balance_cb db) 0"

section \<open>Records in LevelDB\<close>

text \<open>The format \<open>%010\<close> pads with zeros.\<close>

definition tx_key_string :: "u64 \<Rightarrow> string \<Rightarrow> string" where
  "tx_key_string seq hashStr = (let n = print_nat (unat seq)
     in ''/tx/'' @ replicate (10 - length n) CHR ''0'' @ n @ ''/'' @ hashStr)"

definition txdb_serialize_tx_key :: "u64 \<Rightarrow> string \<Rightarrow> buff option" where
  "txdb_serialize_tx_key seq hashStr = do {
     let str = take 255 (tx_key_string seq hashStr);
     (_, buf) \<leftarrow> serialize_bytes buff_alloc (bytes_of str @ [0]) (of_nat (length str) + 1);
     Some buf
   }"

text \<open>\<open>sscanf\<close> with \<open>/tx/%010u/%s\<close>: up to ten digits, then the text up to white space, into 80 bytes.\<close>

definition txdb_deserialize_tx_key :: "byte list \<Rightarrow> tx_ser_key option" where
  "txdb_deserialize_tx_key key = do {
     ASSERT (0 \<in> set key);
     let s = string_of key;
     ASSERT (take 4 s = ''/tx/'');
     let s = dropWhile isspace (drop 4 s);
     let seq = takeWhile is_digit (take 10 s);
     ASSERT (seq \<noteq> []);
     let s = drop (length seq) s;
     ASSERT (take 1 s = ''/'');
     let hashStr = takeWhile (\<lambda>c. \<not> isspace c) (dropWhile isspace (drop 1 s));
     ASSERT (hashStr \<noteq> [] \<and> length hashStr < 80);
     case uint256_from_str hashStr 0 of (ok, h) \<Rightarrow> do {
       ASSERT ok;
       Some \<lparr>sk_seq = of_nat (digits_value seq), sk_txHash = h\<rparr>
     }
   }"

definition txdb_serialize_tx_data :: "tx_ser_data \<Rightarrow> buff option" where
  "txdb_serialize_tx_data tx = do {
     (_, buf) \<leftarrow> serialize_uint256 buff_alloc (sd_blkHash tx);
     (_, buf) \<leftarrow> serialize_uint64 buf (sd_timestamp tx);
     (_, buf) \<leftarrow> serialize_varint buf (sd_len tx);
     (_, buf) \<leftarrow> serialize_bytes buf (sd_buf tx) (sd_len tx);
     Some buf
   }"

definition txdb_deserialize_tx_data :: "byte list \<Rightarrow> tx_ser_data option" where
  "txdb_deserialize_tx_data val = do {
     let buf = buff_init (Some val) (of_nat (length val));
     (_, blkHash, buf) \<leftarrow> deserialize_uint256 buf 0;
     (_, timestamp, buf) \<leftarrow> deserialize_uint64 buf 0;
     (_, len, buf) \<leftarrow> deserialize_varint buf 0;
     (_, bytes, buf) \<leftarrow> deserialize_bytes buf (replicate (unat (len + 1)) 0) len;
     left \<leftarrow> buff_space_left buf;
     ASSERT (left = 0);
     Some \<lparr>sd_blkHash = blkHash, sd_timestamp = timestamp, sd_buf = bytes, sd_len = len\<rparr>
   }"

definition buff_content :: "buff \<Rightarrow> byte list option" where
  "buff_content b = mem_read (buff_base (Some b)) 0 (unat (buff_curlen (Some b)))"

text \<open>The code: whether LevelDB reported an error.\<close>

definition txdb_save_tx ::
  "'db leveldb \<Rightarrow> 'db txdb \<Rightarrow> uint256 option \<Rightarrow> uint256 \<Rightarrow> u64 \<Rightarrow> byte list \<Rightarrow> u64 \<Rightarrow> (bool \<times> 'db txdb) option" where
  "txdb_save_tx ldb db blkHash txHash ts buf len = do {
     let txdata = \<lparr>sd_blkHash = (case blkHash of None \<Rightarrow> 0 | Some h \<Rightarrow> h), sd_timestamp = ts, sd_buf = buf, sd_len = len\<rparr>;
     hashStr \<leftarrow> uint256_snprintf_reverse 80 txHash;
     bufk \<leftarrow> txdb_serialize_tx_key (db_tx_seq db) hashStr;
     bufd \<leftarrow> txdb_serialize_tx_data txdata;
     k \<leftarrow> buff_content bufk;
     d \<leftarrow> buff_content bufd;
     Some (case ldb_put ldb (db_db db) k d of None \<Rightarrow> (True, db) | Some s \<Rightarrow> (False, db\<lparr>db_db := s\<rparr>))
   }"

section \<open>Transactions\<close>

definition txdb_get_tx_entry :: "'db txdb \<Rightarrow> uint256 \<Rightarrow> nat option option" where
  "txdb_get_tx_entry db hash = hashtable_lookup (db_hash_tx db) (le_bytes hash)"

definition txdb_has_tx :: "'db txdb \<Rightarrow> uint256 \<Rightarrow> bool option" where
  "txdb_has_tx db hash = map_option (\<lambda>r. r \<noteq> None) (txdb_get_tx_entry db hash)"

definition txdb_remove_from_hashtable :: "'db txdb \<Rightarrow> uint256 \<Rightarrow> 'db txdb option" where
  "txdb_remove_from_hashtable db txHash = do {
     r \<leftarrow> txdb_get_tx_entry db txHash;
     case r of None \<Rightarrow> Some db
     | Some a \<Rightarrow> do {
         txe \<leftarrow> deref_tx db a;
         if te_relevant txe then Some db
         else do {
           _ \<leftarrow> btc_msg_tx_free (te_tx txe);
           (_, hash_tx) \<leftarrow> hashtable_remove (db_hash_tx db) (le_bytes txHash);
           Some (db\<lparr>db_hash_tx := hash_tx\<rparr>)
         }
       }
   }"

text \<open>The new entry's pointer. A transaction that cannot be read stops the program, as does one that
  is in the table already.\<close>

definition txdb_add_to_hashtable ::
  "'db txdb \<Rightarrow> memory \<Rightarrow> u64 \<Rightarrow> uint256 \<Rightarrow> uint256 option \<Rightarrow> u64 \<Rightarrow> (nat \<times> 'db txdb) option" where
  "txdb_add_to_hashtable db buf len txHash blkHash timestamp = do {
     (res, tx, _) \<leftarrow> deserialize_tx (buff_init buf len) btc_msg_tx_zero;
     ASSERT (\<not> res);
     let txe = \<lparr>te_tx = tx, te_blkHash = (case blkHash of None \<Rightarrow> 0 | Some h \<Rightarrow> h), te_timestamp = timestamp, te_relevant = False\<rparr>;
     let a = length (db_txs db);
     (s, hash_tx) \<leftarrow> hashtable_insert (db_hash_tx db) (le_bytes txHash) a;
     ASSERT s;
     Some (a, db\<lparr>db_hash_tx := hash_tx, db_txs := db_txs db @ [txe]\<rparr>)
   }"

text \<open>The code and whether the transaction concerns the wallet and was not saved before.\<close>

definition txdb_remember_tx ::
  "('bn, 'b, 'pt, 'pk) openssl \<Rightarrow> 'db leveldb \<Rightarrow> 'pk wallet \<Rightarrow> 'db txdb \<Rightarrow> bool \<Rightarrow> u64 \<Rightarrow> memory \<Rightarrow> u64 \<Rightarrow>
    uint256 \<Rightarrow> uint256 option \<Rightarrow> (bool \<times> bool \<times> 'db txdb) option" where
  "txdb_remember_tx ssl ldb wallet db alreadySaved ts buf len txHash blkHash = do {
     (a, db) \<leftarrow> txdb_add_to_hashtable db buf len txHash blkHash ts;
     txe \<leftarrow> deref_tx db a;
     (db, rel) \<leftarrow> txdb_process_tx_entry ssl wallet db txHash blkHash (te_tx txe) (te_relevant txe);
     let db = db\<lparr>db_txs := (db_txs db)[a := txe\<lparr>te_relevant := rel\<rparr>]\<rparr>;
     if \<not> rel then Some (False, False, db)
     else if alreadySaved then Some (False, False, db)
     else do {
       bytes \<leftarrow> buf;
       (res, db) \<leftarrow> txdb_save_tx ldb db blkHash txHash ts bytes len;
       Some (res, True, if res then db else db\<lparr>db_tx_seq := db_tx_seq db + 1\<rparr>)
     }
   }"

text \<open>The loop over the entries of LevelDB: the first one of the transaction is rewritten. Stopping the
  broadcast of the transaction is left to the peers.\<close>

fun confirm_loop :: "'db leveldb \<Rightarrow> uint256 \<Rightarrow> uint256 \<Rightarrow> (byte list \<times> byte list) list \<Rightarrow> 'db txdb \<Rightarrow> 'db txdb option" where
  "confirm_loop ldb blkHash txHash [] db = Some db"
| "confirm_loop ldb blkHash txHash ((key, val) # es) db = do {
     txkey \<leftarrow> txdb_deserialize_tx_key key;
     if txHash \<noteq> sk_txHash txkey then confirm_loop ldb blkHash txHash es db
     else do {
       txdata \<leftarrow> txdb_deserialize_tx_data val;
       ASSERT (sd_blkHash txdata = 0);
       ASSERT (sd_timestamp txdata \<noteq> 0);
       buf \<leftarrow> txdb_serialize_tx_data (txdata\<lparr>sd_blkHash := blkHash\<rparr>);
       d \<leftarrow> buff_content buf;
       Some (case ldb_put ldb (db_db db) key d of None \<Rightarrow> db | Some s \<Rightarrow> db\<lparr>db_db := s\<rparr>)
     }
   }"

definition txdb_confirm_one_tx :: "'db leveldb \<Rightarrow> 'db txdb \<Rightarrow> uint256 \<Rightarrow> uint256 \<Rightarrow> 'db txdb option" where
  "txdb_confirm_one_tx ldb db blkHash txHash = do {
     ASSERT (blkHash \<noteq> 0);
     ASSERT (txHash \<noteq> 0);
     r \<leftarrow> txdb_get_tx_entry db txHash;
     case r of None \<Rightarrow> Some db
     | Some a \<Rightarrow> do {
         txe \<leftarrow> deref_tx db a;
         if \<not> te_relevant txe then txdb_remove_from_hashtable db txHash
         else if te_blkHash txe \<noteq> 0 then do { ASSERT (te_blkHash txe = blkHash); Some db }
         else confirm_loop ldb blkHash txHash (ldb_entries ldb (db_db db))
                (db\<lparr>db_txs := (db_txs db)[a := txe\<lparr>te_blkHash := blkHash\<rparr>]\<rparr>)
       }
   }"

definition txdb_handle_tx ::
  "('bn, 'b, 'pt, 'pk) openssl \<Rightarrow> 'db leveldb \<Rightarrow> blockstore \<Rightarrow> u64 \<Rightarrow> 'pk wallet \<Rightarrow> 'db txdb \<Rightarrow> uint256 option \<Rightarrow>
    memory \<Rightarrow> u64 \<Rightarrow> (bool \<times> bool \<times> 'db txdb) option" where
  "txdb_handle_tx ssl ldb bs now wallet db blkHash buf len = do {
     bytes \<leftarrow> mem_read buf 0 (unat len);
     let txHash = hash256_calc (o_sha ssl) bytes;
     txKnown \<leftarrow> txdb_has_tx db txHash;
     db \<leftarrow> (if uint256_iszero blkHash then Some db else do { h \<leftarrow> blkHash; txdb_confirm_one_tx ldb db h txHash });
     if txKnown then Some (False, False, db)
     else do {
       ts \<leftarrow> (if uint256_iszero blkHash then Some now else blockstore_get_block_timestamp bs blkHash);
       txdb_remember_tx ssl ldb wallet db False ts buf len txHash blkHash
     }
   }"

text \<open>Loading one entry, and all entries in the order of their keys. Unconfirmed transactions are
  relayed again, which is not modelled. \<open>store\<close> is the open database, if LevelDB opens it; \<open>chmod\<close> is whether
  protecting its directory fails.\<close>

definition txdb_load_tx ::
  "('bn, 'b, 'pt, 'pk) openssl \<Rightarrow> 'db leveldb \<Rightarrow> 'pk wallet \<Rightarrow> 'db txdb \<Rightarrow> byte list \<Rightarrow> byte list \<Rightarrow> (bool \<times> 'db txdb) option" where
  "txdb_load_tx ssl ldb wallet db key val = do {
     ASSERT (take 4 (string_of key) = ''/tx/'');
     txk \<leftarrow> txdb_deserialize_tx_key key;
     txd \<leftarrow> txdb_deserialize_tx_data val;
     ASSERT (db_tx_seq db = sk_seq txk);
     let db = db\<lparr>db_tx_seq := db_tx_seq db + 1\<rparr>;
     bytes \<leftarrow> mem_read (Some (sd_buf txd)) 0 (unat (sd_len txd));
     let txHash = hash256_calc (o_sha ssl) bytes;
     ASSERT (txHash = sk_txHash txk);
     (res, _, db) \<leftarrow> txdb_remember_tx ssl ldb wallet db True (sd_timestamp txd) (Some (sd_buf txd)) (sd_len txd)
        (sk_txHash txk) (Some (sd_blkHash txd));
     Some (res, db)
   }"

fun load_entries ::
  "('bn, 'b, 'pt, 'pk) openssl \<Rightarrow> 'db leveldb \<Rightarrow> 'pk wallet \<Rightarrow> (byte list \<times> byte list) list \<Rightarrow> 'db txdb \<Rightarrow> 'db txdb option" where
  "load_entries ssl ldb wallet [] db = Some db"
| "load_entries ssl ldb wallet ((key, val) # es) db =
     (if 4 < length key \<and> take 4 (string_of key) = ''/tx/'' then do {
        (res, db) \<leftarrow> txdb_load_tx ssl ldb wallet db key val;
        ASSERT (\<not> res);
        load_entries ssl ldb wallet es db
      }
      else load_entries ssl ldb wallet es db)"

definition txdb_open ::
  "('bn, 'b, 'pt, 'pk) openssl \<Rightarrow> 'db leveldb \<Rightarrow> 'pk wallet \<Rightarrow> 'db option \<Rightarrow> bool \<Rightarrow> (bool \<times> 'db txdb option) option" where
  "txdb_open ssl ldb wallet store chmod = do {
     hash_txo \<leftarrow> hashtable_create;
     hash_tx \<leftarrow> hashtable_create;
     case store of None \<Rightarrow> Some (True, None)
     | Some store \<Rightarrow>
         if chmod then Some (True, None)
         else do {
           db \<leftarrow> load_entries ssl ldb wallet (ldb_entries ldb store)
             \<lparr>db_hash_tx = hash_tx, db_hash_txo = hash_txo, db_tx_seq = 0, db_db = store, db_txs = [], db_txos = []\<rparr>;
           Some (False, Some db)
         }
   }"

section \<open>The coins as a map\<close>

type_synonym coins = "uint256 \<times> u32 \<Rightarrow> txo_entry option"

definition txdb_ok :: "'db txdb \<Rightarrow> bool" where
  "txdb_ok db \<longleftrightarrow> ht_wf (db_hash_tx db) \<and> ht_wf (db_hash_txo db) \<and>
     (\<forall>k a. ht_map (db_hash_tx db) k = Some a \<longrightarrow> a < length (db_txs db)) \<and>
     (\<forall>k a. ht_map (db_hash_txo db) k = Some a \<longrightarrow> a < length (db_txos db) \<and>
        k = txo_key (txo_txHash (db_txos db ! a)) (txo_outIdx (db_txos db ! a)))"

definition coins :: "'db txdb \<Rightarrow> coins" where
  "coins db p = map_option ((!) (db_txos db)) (ht_map (db_hash_txo db) (txo_key (fst p) (snd p)))"

lemma txo_key_eq: "txo_key h i = txo_key h' i' \<longleftrightarrow> h = h' \<and> i = i'"
  by (auto simp: txo_key_def append_eq_append_conv le_bytes_eq_iff)

lemma txdb_okD:
  assumes "txdb_ok db"
  shows "ht_wf (db_hash_tx db)" "ht_wf (db_hash_txo db)"
    "ht_map (db_hash_txo db) k = Some a \<Longrightarrow> a < length (db_txos db) \<and> k = txo_key (txo_txHash (db_txos db ! a)) (txo_outIdx (db_txos db ! a))"
    "ht_map (db_hash_tx db) k = Some a \<Longrightarrow> a < length (db_txs db)"
  using assms unfolding txdb_ok_def by blast+

text \<open>What an input does to the coins, and an output.\<close>

fun spend_spec :: "(uint256 \<times> u32) list \<Rightarrow> coins \<Rightarrow> bool \<Rightarrow> (coins \<times> bool) option" where
  "spend_spec [] c r = Some (c, r)"
| "spend_spec (p # ps) c r = (case c p of None \<Rightarrow> spend_spec ps c r
     | Some e \<Rightarrow> if txo_spent e then None else spend_spec ps (c(p \<mapsto> e\<lparr>txo_spent := True\<rparr>)) True)"

fun receive_spec :: "(btc_msg_tx_out \<Rightarrow> u32 \<Rightarrow> txo_entry option option) \<Rightarrow> uint256 \<Rightarrow> u32 \<Rightarrow> btc_msg_tx_out list \<Rightarrow>
    coins \<Rightarrow> bool \<Rightarrow> (coins \<times> bool) option" where
  "receive_spec coin h i [] c r = Some (c, r)"
| "receive_spec coin h i (txo # txos) c r = do {
     e \<leftarrow> coin txo i;
     case e of None \<Rightarrow> receive_spec coin h (i + 1) txos c r
     | Some e \<Rightarrow> if c (h, i) \<noteq> None then None else receive_spec coin h (i + 1) txos (c((h, i) \<mapsto> e)) True
   }"

definition new_coin ::
  "('bn, 'b, 'pt, 'pk) openssl \<Rightarrow> 'pk wallet \<Rightarrow> uint256 \<Rightarrow> uint256 option \<Rightarrow> btc_msg_tx_out \<Rightarrow> u32 \<Rightarrow> txo_entry option option" where
  "new_coin ssl wallet txHash blkHash txo i = do {
     addr \<leftarrow> pays_wallet (o_sha ssl) wallet txo;
     case addr of None \<Rightarrow> Some None
     | Some pub_key \<Rightarrow> do {
         btc_addr \<leftarrow> b58_pubkey_from_uint160 (o_bn ssl) (o_sha ssl) pub_key;
         spendable \<leftarrow> wallet_is_pubkey_spendable wallet pub_key;
         Some (Some \<lparr>txo_txHash = txHash, txo_blkHash = (case blkHash of None \<Rightarrow> 0 | Some h \<Rightarrow> h), txo_btc_addr = btc_addr,
              txo_outIdx = i, txo_value = to_value txo, txo_spent = False, txo_spendable = spendable\<rparr>)
       }
   }"

definition outpoint :: "btc_msg_tx_in \<Rightarrow> uint256 \<times> u32" where
  "outpoint txi = (ti_prevTxHash txi, ti_prevTxOutIdx txi)"

definition same_txs :: "'db txdb \<Rightarrow> 'db txdb \<Rightarrow> bool" where
  "same_txs db db' \<longleftrightarrow> db_hash_tx db' = db_hash_tx db \<and> db_txs db' = db_txs db \<and> db_tx_seq db' = db_tx_seq db \<and> db_db db' = db_db db"

lemma lookup_txo: "txdb_ok db \<Longrightarrow> txdb_lookup_txo db h i = Some (ht_map (db_hash_txo db) (txo_key h i))"
  by (simp add: txdb_lookup_txo_def lookup_eq txdb_okD)

lemma mark_spent:
  assumes ok: "txdb_ok db" and a: "ht_map (db_hash_txo db) (txo_key h i) = Some a"
  shows "txdb_ok (db\<lparr>db_txos := (db_txos db)[a := (db_txos db ! a)\<lparr>txo_spent := True\<rparr>]\<rparr>)"
    "coins (db\<lparr>db_txos := (db_txos db)[a := (db_txos db ! a)\<lparr>txo_spent := True\<rparr>]\<rparr>) =
       (coins db)((h, i) \<mapsto> (db_txos db ! a)\<lparr>txo_spent := True\<rparr>)"
proof -
  let ?e = "(db_txos db ! a)\<lparr>txo_spent := True\<rparr>"
  have l: "a < length (db_txos db)" using txdb_okD(3) [OF ok a] by blast
  have sel: "txo_txHash ((db_txos db)[a := ?e] ! b) = txo_txHash (db_txos db ! b)"
    "txo_outIdx ((db_txos db)[a := ?e] ! b) = txo_outIdx (db_txos db ! b)" for b
    by (cases "b = a"; cases "b < length (db_txos db)"; simp add: l)+
  show "txdb_ok (db\<lparr>db_txos := (db_txos db)[a := ?e]\<rparr>)"
    using ok unfolding txdb_ok_def by (simp add: sel)
  have "b \<noteq> a" if "ht_map (db_hash_txo db) (txo_key h' i') = Some b" "(h', i') \<noteq> (h, i)" for h' i' b
    using txdb_okD(3) [OF ok that(1)] txdb_okD(3) [OF ok a] that(2) by (auto simp: txo_key_eq)
  then show "coins (db\<lparr>db_txos := (db_txos db)[a := ?e]\<rparr>) = (coins db)((h, i) \<mapsto> ?e)"
    using a l by (fastforce simp: coins_def fun_eq_iff split: option.splits intro: option.map_cong0)
qed

lemma spend_refines:
  assumes "txdb_ok db"
  shows "map_option (\<lambda>(db', r'). (coins db', r')) (spend_inputs txis db r) = spend_spec (map outpoint txis) (coins db) r \<and>
    (\<forall>db' r'. spend_inputs txis db r = Some (db', r') \<longrightarrow> txdb_ok db' \<and> same_txs db db')"
  using assms
proof (induction txis arbitrary: db r)
  case Nil
  then show ?case by (simp add: same_txs_def)
next
  case (Cons txi txis)
  let ?k = "txo_key (ti_prevTxHash txi) (ti_prevTxOutIdx txi)"
  show ?case
  proof (cases "ht_map (db_hash_txo db) ?k")
    case None
    then have "spend_inputs (txi # txis) db r = spend_inputs txis db r"
      using Cons.prems by (simp add: lookup_txo)
    moreover have "spend_spec (map outpoint (txi # txis)) (coins db) r = spend_spec (map outpoint txis) (coins db) r"
      using None by (simp add: coins_def outpoint_def)
    ultimately show ?thesis using Cons.IH [OF Cons.prems, of r] by (simp only: simp_thms) blast
  next
    case (Some a)
    have l: "a < length (db_txos db)" using txdb_okD(3) [OF Cons.prems Some] by blast
    have c: "coins db (outpoint txi) = Some (db_txos db ! a)" using Some by (simp add: coins_def outpoint_def)
    note m = mark_spent [OF Cons.prems Some]
    show ?thesis
    proof (cases "txo_spent (db_txos db ! a)")
      case True
      then show ?thesis using Some Cons.prems l c by (simp add: lookup_txo deref_txo_def)
    next
      case False
      define d where "d = db\<lparr>db_txos := (db_txos db)[a := (db_txos db ! a)\<lparr>txo_spent := True\<rparr>]\<rparr>"
      have "spend_inputs (txi # txis) db r = spend_inputs txis d True"
        using Some Cons.prems l False by (simp add: lookup_txo deref_txo_def d_def)
      moreover have "spend_spec (map outpoint (txi # txis)) (coins db) r = spend_spec (map outpoint txis) (coins d) True"
        using c False m(2) by (simp add: d_def outpoint_def)
      moreover have "same_txs db = same_txs d" by (simp add: same_txs_def d_def fun_eq_iff)
      ultimately show ?thesis using Cons.IH [OF m(1) [folded d_def], of True] by (simp only: simp_thms) blast
    qed
  qed
qed

lemma add_coin:
  assumes ok: "txdb_ok db" and new: "coins db (h, i) = None" and e: "txo_txHash e = h" "txo_outIdx e = i"
  shows "\<exists>ht. hashtable_insert (db_hash_txo db) (txo_key h i) (length (db_txos db)) = Some (True, ht) \<and>
    txdb_ok (db\<lparr>db_hash_txo := ht, db_txos := db_txos db @ [e]\<rparr>) \<and>
    coins (db\<lparr>db_hash_txo := ht, db_txos := db_txos db @ [e]\<rparr>) = (coins db)((h, i) \<mapsto> e)"
proof -
  have n: "ht_map (db_hash_txo db) (txo_key h i) = None" using new by (simp add: coins_def)
  obtain ht where ht: "hashtable_insert (db_hash_txo db) (txo_key h i) (length (db_txos db)) = Some (True, ht)" "ht_wf ht"
    "ht_map ht = (ht_map (db_hash_txo db))(txo_key h i \<mapsto> length (db_txos db))"
    using insert_ok [OF txdb_okD(2) [OF ok], of "txo_key h i" "length (db_txos db)"] n by auto
  have "txdb_ok (db\<lparr>db_hash_txo := ht, db_txos := db_txos db @ [e]\<rparr>)"
    unfolding txdb_ok_def using ht(2,3) txdb_okD [OF ok] e
    by (auto simp: nth_append split: if_splits) (metis less_SucI)+
  moreover have old: "map_option ((!) (db_txos db @ [e])) (ht_map (db_hash_txo db) k) = map_option ((!) (db_txos db)) (ht_map (db_hash_txo db) k)" for k
    using txdb_okD(3) [OF ok, of k] by (cases "ht_map (db_hash_txo db) k") (auto simp: nth_append)
  have "coins (db\<lparr>db_hash_txo := ht, db_txos := db_txos db @ [e]\<rparr>) = (coins db)((h, i) \<mapsto> e)"
    by (auto simp: coins_def fun_eq_iff ht(3) txo_key_eq old)
  ultimately show ?thesis using ht(1) by blast
qed

lemma receive_refines:
  assumes "txdb_ok db"
  shows "map_option (\<lambda>(db', r'). (coins db', r')) (add_outputs ssl wallet h blk i txos db r) =
      receive_spec (new_coin ssl wallet h blk) h i txos (coins db) r \<and>
    (\<forall>db' r'. add_outputs ssl wallet h blk i txos db r = Some (db', r') \<longrightarrow> txdb_ok db' \<and> same_txs db db')"
  using assms
proof (induction txos arbitrary: db i r)
  case Nil
  then show ?case by (simp add: same_txs_def)
next
  case (Cons txo txos)
  show ?case
  proof (cases "new_coin ssl wallet h blk txo i")
    case None
    then show ?thesis
      by (cases "pays_wallet (o_sha ssl) wallet txo")
        (auto simp: new_coin_def split: option.splits bind_splits)
  next
    case (Some c)
    show ?thesis
    proof (cases c)
      case None
      then have "pays_wallet (o_sha ssl) wallet txo = Some None"
        using Some by (auto simp: new_coin_def split: option.splits bind_splits)
      then have "add_outputs ssl wallet h blk i (txo # txos) db r = add_outputs ssl wallet h blk (i + 1) txos db r" by simp
      moreover have "receive_spec (new_coin ssl wallet h blk) h i (txo # txos) (coins db) r =
          receive_spec (new_coin ssl wallet h blk) h (i + 1) txos (coins db) r" using Some None by simp
      ultimately show ?thesis using Cons.IH [OF Cons.prems, of "i + 1" r] by (simp only: simp_thms) blast
    next
      case (Some e)
      then obtain pk ba sp where p: "pays_wallet (o_sha ssl) wallet txo = Some (Some pk)"
        "b58_pubkey_from_uint160 (o_bn ssl) (o_sha ssl) pk = Some ba" "wallet_is_pubkey_spendable wallet pk = Some sp"
        and e: "e = \<lparr>txo_txHash = h, txo_blkHash = (case blk of None \<Rightarrow> 0 | Some h \<Rightarrow> h), txo_btc_addr = ba,
              txo_outIdx = i, txo_value = to_value txo, txo_spent = False, txo_spendable = sp\<rparr>"
        using \<open>new_coin ssl wallet h blk txo i = Some c\<close> by (auto simp: new_coin_def split: option.splits bind_splits)
      have eh: "txo_txHash e = h" "txo_outIdx e = i" by (simp_all add: e)
      show ?thesis
      proof (cases "coins db (h, i)")
        case None
        obtain ht where ht: "hashtable_insert (db_hash_txo db) (txo_key h i) (length (db_txos db)) = Some (True, ht)"
          "txdb_ok (db\<lparr>db_hash_txo := ht, db_txos := db_txos db @ [e]\<rparr>)"
          "coins (db\<lparr>db_hash_txo := ht, db_txos := db_txos db @ [e]\<rparr>) = (coins db)((h, i) \<mapsto> e)"
          using add_coin [OF Cons.prems None eh] by blast
        define d where "d = db\<lparr>db_hash_txo := ht, db_txos := db_txos db @ [e]\<rparr>"
        have "add_outputs ssl wallet h blk i (txo # txos) db r = add_outputs ssl wallet h blk (i + 1) txos d True"
          using ht(1) p by (simp add: Let_def d_def e)
        moreover have "receive_spec (new_coin ssl wallet h blk) h i (txo # txos) (coins db) r =
            receive_spec (new_coin ssl wallet h blk) h (i + 1) txos (coins d) True"
          using \<open>new_coin ssl wallet h blk txo i = Some c\<close> Some None ht(3) by (simp add: d_def)
        moreover have "same_txs db = same_txs d" by (simp add: same_txs_def d_def fun_eq_iff)
        ultimately show ?thesis using Cons.IH [OF ht(2) [folded d_def], of "i + 1" True] by (simp only: simp_thms) blast
      next
        case (Some x)
        then have "ht_map (db_hash_txo db) (txo_key h i) \<noteq> None" by (auto simp: coins_def)
        then obtain ht where "hashtable_insert (db_hash_txo db) (txo_key h i) (length (db_txos db)) = Some (False, ht)"
          using insert_ok [OF txdb_okD(2) [OF Cons.prems], of "txo_key h i" "length (db_txos db)"] by auto
        then show ?thesis using p \<open>new_coin ssl wallet h blk txo i = Some c\<close> \<open>c = Some e\<close> Some by (simp add: Let_def)
      qed
    qed
  qed
qed

text \<open>C3: processing a transaction is, on the map of the coins, what the specification says: every known
  coin that an input names is marked as spent and must not have been, then every output to the
  wallet becomes a coin. The database stays consistent.\<close>

theorem process_tx_refines:
  assumes "txdb_ok db" and "unat (tx_in_count tx) \<le> length (tx_tx_in tx)" and "unat (tx_out_count tx) \<le> length (tx_tx_out tx)"
  shows "map_option (\<lambda>(db', r). (coins db', r)) (txdb_process_tx_entry ssl wallet db h blk tx False) = do {
      (c, r) \<leftarrow> spend_spec (map outpoint (take (unat (tx_in_count tx)) (tx_tx_in tx))) (coins db) False;
      receive_spec (new_coin ssl wallet h blk) h 0 (take (unat (tx_out_count tx)) (tx_tx_out tx)) c r
    } \<and> (\<forall>db' r. txdb_process_tx_entry ssl wallet db h blk tx False = Some (db', r) \<longrightarrow> txdb_ok db' \<and> same_txs db db')"
proof -
  let ?is = "take (unat (tx_in_count tx)) (tx_tx_in tx)"
  note s = spend_refines [OF assms(1), of ?is False]
  show ?thesis
  proof (cases "spend_inputs ?is db False")
    case None
    then show ?thesis using s assms(2,3) by (simp add: txdb_process_tx_entry_def)
  next
    case (Some p)
    obtain db1 r1 where p: "p = (db1, r1)" by fastforce
    have "txdb_ok db1" "same_txs db db1" "spend_spec (map outpoint ?is) (coins db) False = Some (coins db1, r1)"
      using s Some p by auto
    then show ?thesis
      using Some p assms(2,3) receive_refines [of db1 ssl wallet h blk 0 "take (unat (tx_out_count tx)) (tx_tx_out tx)" r1]
      by (simp add: txdb_process_tx_entry_def) (auto simp: same_txs_def)
  qed
qed


section \<open>Balance\<close>

definition unspent_value :: "txo_entry option \<Rightarrow> u64" where
  "unspent_value e = (case e of None \<Rightarrow> 0 | Some e \<Rightarrow> if txo_spent e then 0 else txo_value e)"

lemma coins_entries:
  assumes "txdb_ok db"
  shows "bij_betw (\<lambda>e. (txo_txHash (db_txos db ! he_clientData e), txo_outIdx (db_txos db ! he_clientData e)))
    (set (ht_entries (db_hash_txo db))) (dom (coins db))"
    and "e \<in> set (ht_entries (db_hash_txo db)) \<Longrightarrow> he_clientData e < length (db_txos db) \<and>
      coins db (txo_txHash (db_txos db ! he_clientData e), txo_outIdx (db_txos db ! he_clientData e)) = Some (db_txos db ! he_clientData e)"
proof -
  let ?p = "\<lambda>e. (txo_txHash (db_txos db ! he_clientData e), txo_outIdx (db_txos db ! he_clientData e))"
  note ent = ht_map_entry [OF txdb_okD(2) [OF assms]]
  have e: "he_clientData e < length (db_txos db) \<and> he_key e = txo_key (fst (?p e)) (snd (?p e)) \<and>
      coins db (?p e) = Some (db_txos db ! he_clientData e)" if "e \<in> set (ht_entries (db_hash_txo db))" for e
  proof -
    have m: "ht_map (db_hash_txo db) (he_key e) = Some (he_clientData e)" using ent that by blast
    from txdb_okD(3) [OF assms this] m show ?thesis by (simp add: coins_def)
  qed
  then show "e \<in> set (ht_entries (db_hash_txo db)) \<Longrightarrow> he_clientData e < length (db_txos db) \<and>
      coins db (?p e) = Some (db_txos db ! he_clientData e)" by blast
  have dist: "distinct (map he_key (ht_entries (db_hash_txo db)))" using txdb_okD(2) [OF assms] by (simp add: ht_wf_def)
  show "bij_betw ?p (set (ht_entries (db_hash_txo db))) (dom (coins db))"
  proof (rule bij_betwI')
    fix x y
    assume xy: "x \<in> set (ht_entries (db_hash_txo db))" "y \<in> set (ht_entries (db_hash_txo db))"
    have "he_key x = he_key y \<Longrightarrow> x = y" using dist xy by (auto simp: distinct_map inj_on_def)
    then show "(?p x = ?p y) = (x = y)" using e [OF xy(1)] e [OF xy(2)] by auto
  next
    fix x
    assume "x \<in> set (ht_entries (db_hash_txo db))"
    then show "?p x \<in> dom (coins db)" using e by blast
  next
    fix q
    assume "q \<in> dom (coins db)"
    then obtain a where a: "ht_map (db_hash_txo db) (txo_key (fst q) (snd q)) = Some a" by (auto simp: coins_def)
    then obtain x where x: "x \<in> set (ht_entries (db_hash_txo db))" "he_key x = txo_key (fst q) (snd q)" "he_clientData x = a"
      using ent by blast
    then have "q = ?p x" using e [OF x(1)] by (cases q) (auto simp: txo_key_eq)
    with x(1) show "\<exists>x\<in>set (ht_entries (db_hash_txo db)). q = ?p x" by blast
  qed
qed

lemma balance_loop:
  assumes "\<And>e. e \<in> set es \<Longrightarrow> he_clientData e < length (db_txos db)"
  shows "for_each_entry (txdb_get_balance_cb db) es b =
    Some (b + sum_list (map (\<lambda>e. unspent_value (Some (db_txos db ! he_clientData e))) es))"
  using assms
  by (induction es arbitrary: b) (simp_all add: txdb_get_balance_cb_def deref_txo_def unspent_value_def add.assoc)

text \<open>The balance is the sum of the values of the coins that are not spent, modulo \<open>2 ^ 64\<close>.\<close>

theorem balance_is_unspent:
  assumes "txdb_ok db"
  shows "txdb_get_balance db = Some (\<Sum>p \<in> dom (coins db). unspent_value (coins db p))"
proof -
  let ?p = "\<lambda>e. (txo_txHash (db_txos db ! he_clientData e), txo_outIdx (db_txos db ! he_clientData e))"
  let ?es = "ht_entries (db_hash_txo db)"
  have "txdb_get_balance db = Some (sum_list (map (\<lambda>e. unspent_value (Some (db_txos db ! he_clientData e))) ?es))"
    using balance_loop [of ?es db 0] coins_entries(2) [OF assms]
    by (simp add: txdb_get_balance_def hashtable_for_each_def ht_entries_def)
  also have "distinct ?es" using txdb_okD(2) [OF assms] by (simp add: ht_wf_def distinct_map)
  then have "sum_list (map (\<lambda>e. unspent_value (Some (db_txos db ! he_clientData e))) ?es) =
      (\<Sum>e \<in> set ?es. unspent_value (Some (db_txos db ! he_clientData e)))" by (rule sum_list_distinct_conv_sum_set)
  also have "\<dots> = (\<Sum>e \<in> set ?es. unspent_value (coins db (?p e)))"
    using coins_entries(2) [OF assms] by (intro sum.cong) auto
  also have "\<dots> = (\<Sum>p \<in> dom (coins db). unspent_value (coins db p))"
    using sum.reindex_bij_betw [OF coins_entries(1) [OF assms], of "\<lambda>p. unspent_value (coins db p)"] .
  finally show ?thesis .
qed

section \<open>What a peer can send\<close>

lemma spend_spec_stops:
  assumes "p \<in> set ps" and "c p = Some e" and "txo_spent e"
  shows "spend_spec ps c r = None"
  using assms
proof (induction ps arbitrary: c r e)
  case (Cons q ps)
  show ?case
  proof (cases "c q")
    case None
    then have "p \<in> set ps" using Cons.prems by auto
    with Cons None show ?thesis by simp
  next
    case (Some x)
    show ?thesis
    proof (cases "txo_spent x")
      case True
      with Some show ?thesis by simp
    next
      case False
      then have "p \<noteq> q" using Some Cons.prems by auto
      then have "p \<in> set ps" "(c(q \<mapsto> x\<lparr>txo_spent := True\<rparr>)) p = Some e" using Cons.prems by simp_all
      from Cons.IH [where c = "c(q \<mapsto> x\<lparr>txo_spent := True\<rparr>)" and r = True, OF this Cons.prems(3)] show ?thesis using Some False by (simp del: fun_upd_apply)
    qed
  qed
qed simp

text \<open>C38: a transaction that has been seen is not processed again; one that has not stops the program when
  it cannot be read, or when it spends a coin that is known to be spent. Nothing checks its
  signatures before, so any peer can send such a transaction.\<close>

theorem handle_tx_stops:
  assumes "txdb_ok db" and "length bs < 2 ^ 62" and "txHash = hash256_calc (o_sha ssl) bs"
    and "des = deserialize_tx (buff_init (Some bs) (of_nat (length bs))) btc_msg_tx_zero"
  shows "if ht_map (db_hash_tx db) (le_bytes txHash) \<noteq> None
      then txdb_handle_tx ssl ldb store now wallet db None (Some bs) (of_nat (length bs)) = Some (False, False, db)
      else (\<exists>tx b. des = Some (True, tx, b)) \<or>
          (\<exists>tx b p e. des = Some (False, tx, b) \<and> p \<in> set (map outpoint (take (unat (tx_in_count tx)) (tx_tx_in tx))) \<and>
             coins db p = Some e \<and> txo_spent e) \<longrightarrow>
        txdb_handle_tx ssl ldb store now wallet db None (Some bs) (of_nat (length bs)) = None"
proof -
  have rd: "mem_read (Some bs) 0 (unat (of_nat (length bs) :: u64)) = Some bs"
    using assms(2) by (simp add: mem_read_def unat_of_nat_small)
  have has: "txdb_has_tx db txHash = Some (ht_map (db_hash_tx db) (le_bytes txHash) \<noteq> None)"
    using assms(1) by (simp add: txdb_has_tx_def txdb_get_tx_entry_def lookup_eq txdb_okD)
  show ?thesis
  proof (cases "ht_map (db_hash_tx db) (le_bytes txHash) = None")
    case False
    then show ?thesis using rd has assms(3) by (simp add: txdb_handle_tx_def uint256_iszero_def)
  next
    case True
    have h: "txdb_handle_tx ssl ldb store now wallet db None (Some bs) (of_nat (length bs)) =
        txdb_remember_tx ssl ldb wallet db False now (Some bs) (of_nat (length bs)) txHash None"
      using True rd has assms(3) by (simp add: txdb_handle_tx_def uint256_iszero_def)
    have "txdb_remember_tx ssl ldb wallet db False now (Some bs) (of_nat (length bs)) txHash None = None"
      if "des = Some (True, tx, b)" for tx b
      using that assms(4) by (simp add: txdb_remember_tx_def txdb_add_to_hashtable_def)
    moreover have "txdb_remember_tx ssl ldb wallet db False now (Some bs) (of_nat (length bs)) txHash None = None"
      if d: "des = Some (False, tx, b)" and p: "p \<in> set (map outpoint (take (unat (tx_in_count tx)) (tx_tx_in tx)))"
        and c: "coins db p = Some e" "txo_spent e" for tx b p e
    proof -
      obtain ht where ht: "hashtable_insert (db_hash_tx db) (le_bytes txHash) (length (db_txs db)) = Some (True, ht)" "ht_wf ht"
        "ht_map ht = (ht_map (db_hash_tx db))(le_bytes txHash \<mapsto> length (db_txs db))"
        using insert_ok [OF txdb_okD(1) [OF assms(1)], of "le_bytes txHash" "length (db_txs db)"] True by auto
      define txe where "txe = \<lparr>te_tx = tx, te_blkHash = 0, te_timestamp = now, te_relevant = False\<rparr>"
      define d1 where "d1 = db\<lparr>db_hash_tx := ht, db_txs := db_txs db @ [txe]\<rparr>"
      have add: "txdb_add_to_hashtable db (Some bs) (of_nat (length bs)) txHash None now = Some (length (db_txs db), d1)"
        using d assms(4) ht(1) by (simp add: txdb_add_to_hashtable_def Let_def d1_def txe_def)
      have ok: "txdb_ok d1"
        using assms(1) ht(2,3) unfolding txdb_ok_def d1_def by (auto simp: less_Suc_eq split: if_splits)
      have cd: "coins d1 = coins db" by (simp add: coins_def d1_def fun_eq_iff)
      have "spend_spec (map outpoint (take (unat (tx_in_count tx)) (tx_tx_in tx))) (coins d1) False = None"
        using spend_spec_stops [OF p, of "coins d1" e] c cd by simp
      then have "spend_inputs (take (unat (tx_in_count tx)) (tx_tx_in tx)) d1 False = None"
        using spend_refines [OF ok, of "take (unat (tx_in_count tx)) (tx_tx_in tx)" False] by auto
      then have "txdb_process_tx_entry ssl wallet d1 txHash None tx False = None"
        by (simp add: txdb_process_tx_entry_def)
      moreover have "deref_tx d1 (length (db_txs db)) = Some txe" by (simp add: deref_tx_def d1_def)
      ultimately show ?thesis using add by (simp add: txdb_remember_tx_def) (simp add: txe_def)
    qed
    ultimately show ?thesis using True h by (simp only: if_P if_not_P simp_thms not_not) blast
  qed
qed

definition empty_txdb :: "unit txdb" where
  "empty_txdb = \<lparr>db_hash_tx = the hashtable_create, db_hash_txo = the hashtable_create, db_tx_seq = 0, db_db = (),
     db_txs = [], db_txos = []\<rparr>"

definition one_coin :: txo_entry where
  "one_coin = \<lparr>txo_txHash = 1, txo_blkHash = 2, txo_btc_addr = None, txo_outIdx = 0, txo_value = 5, txo_spent = False, txo_spendable = True\<rparr>"

definition spend_one :: btc_msg_tx where
  "spend_one = \<lparr>tx_in_count = 1, tx_tx_in = [\<lparr>ti_prevTxHash = 1, ti_prevTxOutIdx = 0, ti_scriptLength = 0, ti_scriptSig = None, ti_sequence = 0\<rparr>],
     tx_out_count = 0, tx_tx_out = [], tx_version = 1, tx_lock_time = 0\<rparr>"

lemma empty_txdb_ok: "txdb_ok empty_txdb \<and> coins empty_txdb = Map.empty \<and> ht_map (db_hash_tx empty_txdb) = Map.empty"
proof -
  obtain ht :: "nat hashtable" where ht: "hashtable_create = Some ht" "ht_wf ht" "ht_map ht = Map.empty" "ht_count ht = 0"
    using create_ok by blast
  have "the hashtable_create = ht" unfolding ht(1) by simp
  then show ?thesis using ht(2,3) by (simp add: empty_txdb_def txdb_ok_def coins_def fun_eq_iff)
qed

lemma one_coin_txdb: "\<exists>db :: unit txdb. txdb_ok db \<and> coins db = [(1, 0) \<mapsto> one_coin]"
  using add_coin [of empty_txdb 1 0 one_coin] empty_txdb_ok by (auto simp: one_coin_def)

theorem balance_is_unspent_witness:
  "\<exists>db :: unit txdb. txdb_ok db \<and> txdb_get_balance db = Some 5"
proof -
  obtain db :: "unit txdb" where db: "txdb_ok db" "coins db = [(1, 0) \<mapsto> one_coin]" using one_coin_txdb by blast
  from balance_is_unspent [OF db(1)] have "txdb_get_balance db = Some 5"
    by (simp add: db(2) unspent_value_def one_coin_def)
  with db(1) show ?thesis by blast
qed

theorem process_tx_refines_witness:
  "\<exists>db db' :: unit txdb. txdb_ok db \<and> coins db = [(1, 0) \<mapsto> one_coin] \<and>
     txdb_process_tx_entry toy_ssl toy_wallet db 3 None spend_one False = Some (db', True) \<and>
     coins db' = [(1, 0) \<mapsto> one_coin\<lparr>txo_spent := True\<rparr>] \<and> txdb_ok db'"
proof -
  obtain db :: "unit txdb" where db: "txdb_ok db" "coins db = [(1, 0) \<mapsto> one_coin]" using one_coin_txdb by blast
  have "map_option (\<lambda>(db', r). (coins db', r)) (txdb_process_tx_entry toy_ssl toy_wallet db 3 None spend_one False) =
      Some ([(1, 0) \<mapsto> one_coin\<lparr>txo_spent := True\<rparr>], True) \<and>
    (\<forall>db' r. txdb_process_tx_entry toy_ssl toy_wallet db 3 None spend_one False = Some (db', r) \<longrightarrow> txdb_ok db' \<and> same_txs db db')"
    using process_tx_refines [OF db(1), of spend_one toy_ssl toy_wallet 3 None]
    by (simp add: db(2) spend_one_def one_coin_def outpoint_def)
  with db show ?thesis by (cases "txdb_process_tx_entry toy_ssl toy_wallet db 3 None spend_one False") auto
qed

theorem handle_tx_stops_witness:
  "\<forall>bs. txdb_handle_tx toy_ssl \<lparr>ldb_put = \<lambda>_ _ _. None, ldb_entries = \<lambda>_. []\<rparr> bs 0 toy_wallet empty_txdb None (Some []) 0 = None"
proof
  fix bs
  have "\<exists>tx b. deserialize_tx (buff_init (Some []) (of_nat (length ([] :: byte list)))) btc_msg_tx_zero = Some (True, tx, b)"
    by (simp add: deserialize_tx_def deserialize_uint32_def deserialize_bytes_def buff_copy_from_def buff_check_overflow_def buff_init_def
      deserialize_varint_def deserialize_uint8_def btc_msg_tx_zero_def mem_read_def)
  then show "txdb_handle_tx toy_ssl \<lparr>ldb_put = \<lambda>_ _ _. None, ldb_entries = \<lambda>_. []\<rparr> bs 0 toy_wallet empty_txdb None (Some []) 0 = None"
    using handle_tx_stops [OF conjunct1 [OF empty_txdb_ok], of "[]" "hash256_calc (o_sha toy_ssl) []" toy_ssl _
        "\<lparr>ldb_put = \<lambda>_ _ _. None, ldb_entries = \<lambda>_. []\<rparr>" bs 0 toy_wallet] empty_txdb_ok by simp
qed

section \<open>Crafting a transaction\<close>

text \<open>\<open>fee\<close> is a signed 64-bit integer; every use converts it to an unsigned one, which keeps the bits.\<close>

record btc_tx_desc =
  td_label :: string
  td_num_addr :: u32
  td_total_value :: u64
  td_fee :: u64
  td_dst :: "(string \<times> u64) list"

definition BTC_TX_MAX_SIZE :: u64 where
  "BTC_TX_MAX_SIZE = 128 * 1024"

text \<open>The fixed surroundings of a client: OpenSSL, LevelDB, the block store, the clock, \<open>qsort\<close>, and the
  bytes of the two local variables that \<open>b58_pubkey_to_uint160\<close> and its caller do not set.\<close>

record ('bn, 'b, 'pt, 'pk, 'db) client =
  cl_ssl :: "('bn, 'b, 'pt, 'pk) openssl"
  cl_ldb :: "'db leveldb"
  cl_blockStore :: blockstore
  cl_now :: u64
  cl_qsort :: "(txo_entry \<Rightarrow> txo_entry \<Rightarrow> int option) \<Rightarrow> txo_entry list \<Rightarrow> txo_entry list option"
  cl_type :: byte
  cl_pubkey :: uint160
  cl_testing :: bool

definition txdb_set_txo ::
  "('bn, 'b, 'pt, 'pk, 'db) client \<Rightarrow> btc_msg_tx \<Rightarrow> nat \<Rightarrow> string option \<Rightarrow> u64 \<Rightarrow> btc_msg_tx option" where
  "txdb_set_txo cl tx idx btc_addr value = do {
     addr \<leftarrow> btc_addr;
     pubkey \<leftarrow> b58_pubkey_to_uint160 (o_bn (cl_ssl cl)) (o_sha (cl_ssl cl)) (cl_type cl) addr (cl_pubkey cl);
     ASSERT (idx < unat (tx_out_count tx));
     ASSERT (idx < length (tx_tx_out tx));
     (script, len) \<leftarrow> script_txo_generate pubkey;
     Some (tx\<lparr>tx_tx_out := (tx_tx_out tx)[idx := \<lparr>to_value = value, to_scriptLength = len, to_scriptPubKey = script\<rparr>]\<rparr>)
   }"

fun set_txos ::
  "('bn, 'b, 'pt, 'pk, 'db) client \<Rightarrow> nat \<Rightarrow> (string \<times> u64) list \<Rightarrow> btc_msg_tx \<Rightarrow> btc_msg_tx option" where
  "set_txos cl i [] tx = Some tx"
| "set_txos cl i ((addr, value) # dst) tx = do {
     tx \<leftarrow> txdb_set_txo cl tx i (Some addr) value;
     set_txos cl (i + 1) dst tx
   }"

text \<open>One output more than the payments: for the change.\<close>

definition txdb_prepare_txout ::
  "('bn, 'b, 'pt, 'pk, 'db) client \<Rightarrow> btc_tx_desc \<Rightarrow> btc_msg_tx \<Rightarrow> btc_msg_tx option" where
  "txdb_prepare_txout cl desc tx = do {
     ASSERT (tx_tx_out tx = []);
     ASSERT (unat (td_num_addr desc) \<le> length (td_dst desc));
     set_txos cl 0 (take (unat (td_num_addr desc)) (td_dst desc))
       (tx\<lparr>tx_out_count := ucast (td_num_addr desc),
           tx_tx_out := replicate (unat (td_num_addr desc) + 1) btc_msg_tx_out_zero\<rparr>)
   }"

fun sign_loop ::
  "('bn, 'b, 'pt, 'pk) openssl \<Rightarrow> 'pk wallet \<Rightarrow> 'db txdb \<Rightarrow> nat list \<Rightarrow> btc_msg_tx \<Rightarrow> btc_msg_tx option" where
  "sign_loop ssl wallet db [] tx = Some tx"
| "sign_loop ssl wallet db (i # is) tx = do {
     ASSERT (i < length (tx_tx_in tx));
     let txi = tx_tx_in tx ! i;
     r \<leftarrow> hashtable_lookup (db_hash_tx db) (le_bytes (ti_prevTxHash txi));
     a \<leftarrow> r;
     txe \<leftarrow> deref_tx db a;
     ASSERT (ucast (ti_prevTxOutIdx txi) < tx_out_count (te_tx txe));
     ASSERT (unat (ti_prevTxOutIdx txi) < length (tx_tx_out (te_tx txe)));
     (res, tx) \<leftarrow> script_sign (o_ec ssl) (o_sha ssl) (wallet_lookup_pubkey wallet)
        (tx_tx_out (te_tx txe) ! unat (ti_prevTxOutIdx txi)) tx (of_nat i) SIGHASH_ALL;
     ASSERT (\<not> res);
     sign_loop ssl wallet db is tx
   }"

definition txdb_sign_tx_inputs ::
  "('bn, 'b, 'pt, 'pk) openssl \<Rightarrow> 'pk wallet \<Rightarrow> 'db txdb \<Rightarrow> btc_msg_tx \<Rightarrow> btc_msg_tx option" where
  "txdb_sign_tx_inputs ssl wallet db tx = sign_loop ssl wallet db [0..<unat (tx_in_count tx)] tx"

definition txdb_txo_entry_compare_cb :: "blockstore \<Rightarrow> txo_entry \<Rightarrow> txo_entry \<Rightarrow> int option" where
  "txdb_txo_entry_compare_cb bs txo0 txo1 = do {
     t0 \<leftarrow> blockstore_get_block_timestamp bs (Some (txo_blkHash txo0));
     t1 \<leftarrow> blockstore_get_block_timestamp bs (Some (txo_blkHash txo1));
     Some (if t0 = t1 then
             if txo_outIdx txo0 = txo_outIdx txo1 then 0
             else if sint (txo_outIdx txo1) < sint (txo_outIdx txo0) then 1 else -1
           else if t1 < t0 then 1 else -1)
   }"

text \<open>The table is copied into an array of entries, in the order of its buckets, and sorted.\<close>

definition txdb_get_coins_sorted :: "('bn, 'b, 'pt, 'pk, 'db) client \<Rightarrow> 'db txdb \<Rightarrow> txo_entry list option" where
  "txdb_get_coins_sorted cl db = do {
     ptr \<leftarrow> hashtable_for_each (db_hash_txo db) (\<lambda>_ a es. map_option (\<lambda>e. es @ [e]) (deref_txo db a)) [];
     ASSERT (hashtable_getnumentries (db_hash_txo db) \<noteq> 0);
     cl_qsort cl (txdb_txo_entry_compare_cb (cl_blockStore cl)) ptr
   }"

fun select_loop :: "u64 \<Rightarrow> txo_entry list \<Rightarrow> u64 \<Rightarrow> btc_msg_tx \<Rightarrow> (u64 \<times> btc_msg_tx) option" where
  "select_loop target [] value tx = Some (value, tx)"
| "select_loop target (txo_ent # es) value tx =
     (if \<not> value < target then Some (value, tx)
      else if txo_spent txo_ent \<or> \<not> txo_spendable txo_ent then select_loop target es value tx
      else if txo_blkHash txo_ent = 0 then select_loop target es value tx
      else do {
        let n = unat (tx_in_count tx);
        ASSERT (n < length (tx_tx_in tx));
        select_loop target es (value + txo_value txo_ent)
          (tx\<lparr>tx_tx_in := (tx_tx_in tx)[n := (tx_tx_in tx ! n)
                \<lparr>ti_prevTxHash := txo_txHash txo_ent, ti_prevTxOutIdx := txo_outIdx txo_ent, ti_sequence := - 1\<rparr>],
              tx_in_count := tx_in_count tx + 1\<rparr>)
      })"

text \<open>The transaction and the change.\<close>

definition txdb_select_coins ::
  "('bn, 'b, 'pt, 'pk, 'db) client \<Rightarrow> 'db txdb \<Rightarrow> btc_tx_desc \<Rightarrow> btc_msg_tx \<Rightarrow> (btc_msg_tx \<times> u64) option" where
  "txdb_select_coins cl db desc tx = do {
     txo_array \<leftarrow> txdb_get_coins_sorted cl db;
     (value, tx) \<leftarrow> select_loop (td_total_value desc + td_fee desc)
        (take (unat (hashtable_getnumentries (db_hash_txo db))) txo_array) 0 (tx\<lparr>tx_in_count := 0\<rparr>);
     ASSERT (td_total_value desc \<le> value);
     Some (tx, value - td_total_value desc - td_fee desc)
   }"

text \<open>The code, the transaction and the database. \<open>broadcast\<close> is the result of \<open>peergroup_new_tx_broadcast\<close>.
  Saving the label and reporting to the user interface are not modelled.\<close>

definition txdb_craft_tx ::
  "('bn, 'b, 'pt, 'pk, 'db) client \<Rightarrow> (byte list \<Rightarrow> uint256 \<Rightarrow> bool) \<Rightarrow> 'pk wallet \<Rightarrow> 'db txdb \<Rightarrow> btc_tx_desc \<Rightarrow>
    btc_msg_tx \<Rightarrow> (bool \<times> btc_msg_tx \<times> 'db txdb) option" where
  "txdb_craft_tx cl broadcast wallet db desc tx = do {
     tx \<leftarrow> txdb_prepare_txout cl desc (tx\<lparr>tx_version := 1\<rparr>);
     let numCoins = hashtable_getnumentries (db_hash_txo db);
     (tx, change) \<leftarrow> txdb_select_coins cl db desc (tx\<lparr>tx_tx_in := replicate (unat numCoins) btc_msg_tx_in_zero\<rparr>);
     tx \<leftarrow> (if 0 < change then do {
              btc_change \<leftarrow> wallet_get_change_addr wallet;
              let tx = tx\<lparr>tx_out_count := tx_out_count tx + 1\<rparr>;
              txdb_set_txo cl tx (unat (tx_out_count tx - 1)) btc_change change
            }
            else Some tx);
     tx \<leftarrow> txdb_sign_tx_inputs (cl_ssl cl) wallet db tx;
     (_, buf) \<leftarrow> serialize_tx buff_alloc tx;
     if BTC_TX_MAX_SIZE < buff_curlen (Some buf) then Some (True, tx, db)
     else do {
       bytes \<leftarrow> buff_content buf;
       let txHash = hash256_calc (o_sha (cl_ssl cl)) bytes;
       if cl_testing cl then Some (False, tx, db)
       else do {
         (_, _, db) \<leftarrow> txdb_remember_tx (cl_ssl cl) (cl_ldb cl) wallet db False (cl_now cl)
            (buff_base (Some buf)) (buff_curlen (Some buf)) txHash None;
         Some (broadcast bytes txHash, tx, db)
       }
     }
   }"

section \<open>The wallet's operations on transactions\<close>

definition wallet_open ::
  "('bn, 'b, 'pt, 'pk) openssl \<Rightarrow> 'db leveldb \<Rightarrow> bool \<Rightarrow> byte \<Rightarrow> string option option \<Rightarrow> string \<Rightarrow> byte list option \<Rightarrow>
    'db option \<Rightarrow> bool \<Rightarrow> (bool \<times> ('pk wallet \<times> 'db txdb) option) option" where
  "wallet_open ssl ldb lock type0 file filename pass store chmod = do {
     wallet \<leftarrow> wallet_open_file ssl lock type0 file filename pass;
     case wallet of None \<Rightarrow> Some (True, None)
     | Some wallet \<Rightarrow> do {
         (res, db) \<leftarrow> txdb_open ssl ldb wallet store chmod;
         if res then Some (True, None)
         else do {
           db \<leftarrow> db;
           balance \<leftarrow> txdb_get_balance db;
           Some (False, Some (wallet\<lparr>w_balance := balance\<rparr>, db))
         }
       }
   }"

definition wallet_has_tx :: "'db txdb \<Rightarrow> uint256 \<Rightarrow> bool option" where
  "wallet_has_tx db txHash = txdb_has_tx db txHash"

definition wallet_handle_tx ::
  "('bn, 'b, 'pt, 'pk) openssl \<Rightarrow> 'db leveldb \<Rightarrow> blockstore \<Rightarrow> u64 \<Rightarrow> 'pk wallet \<Rightarrow> 'db txdb \<Rightarrow> uint256 option \<Rightarrow>
    memory \<Rightarrow> u64 \<Rightarrow> (bool \<times> 'pk wallet \<times> 'db txdb) option" where
  "wallet_handle_tx ssl ldb bs now wlt db blkHash buf len = do {
     (res, relevant, db) \<leftarrow> txdb_handle_tx ssl ldb bs now wlt db blkHash buf len;
     if \<not> res \<and> relevant then do {
       balance \<leftarrow> txdb_get_balance db;
       Some (res, wlt\<lparr>w_balance := balance\<rparr>, db)
     }
     else Some (res, wlt, db)
   }"

definition wallet_craft_tx ::
  "('bn, 'b, 'pt, 'pk, 'db) client \<Rightarrow> (byte list \<Rightarrow> uint256 \<Rightarrow> bool) \<Rightarrow> 'pk wallet \<Rightarrow> 'db txdb \<Rightarrow> btc_tx_desc \<Rightarrow>
    (bool \<times> btc_msg_tx \<times> 'db txdb) option" where
  "wallet_craft_tx cl broadcast wallet db desc = do {
     let tx = btc_msg_tx_init;
     ASSERT (unat (td_num_addr desc) \<le> length (td_dst desc));
     let value = sum_list (map snd (take (unat (td_num_addr desc)) (td_dst desc)));
     ASSERT (value = td_total_value desc);
     if w_balance wallet < value + td_fee desc then Some (True, tx, db)
     else txdb_craft_tx cl broadcast wallet db desc tx
   }"

section \<open>Coin selection\<close>

definition eligible :: "txo_entry \<Rightarrow> bool" where
  "eligible e \<longleftrightarrow> \<not> txo_spent e \<and> txo_spendable e \<and> txo_blkHash e \<noteq> 0"

definition coin_outpoint :: "txo_entry \<Rightarrow> uint256 \<times> u32" where
  "coin_outpoint e = (txo_txHash e, txo_outIdx e)"

fun pick :: "u64 \<Rightarrow> txo_entry list \<Rightarrow> u64 \<Rightarrow> txo_entry list" where
  "pick target [] v = []"
| "pick target (e # es) v = (if \<not> v < target then []
     else if eligible e then e # pick target es (v + txo_value e) else pick target es v)"

definition input_of :: "txo_entry \<Rightarrow> btc_msg_tx_in" where
  "input_of e = btc_msg_tx_in_zero\<lparr>ti_prevTxHash := txo_txHash e, ti_prevTxOutIdx := txo_outIdx e, ti_sequence := - 1\<rparr>"

definition total :: "txo_entry list \<Rightarrow> u64" where
  "total es = sum_list (map txo_value es)"

lemma outpoint_input_of: "outpoint (input_of e) = coin_outpoint e"
  by (simp add: outpoint_def input_of_def coin_outpoint_def)

lemma pick_set: "set (pick target es v) \<subseteq> {e \<in> set es. eligible e}"
  by (induction target es v rule: pick.induct) auto

lemma pick_length: "length (pick target es v) \<le> length es"
  by (induction target es v rule: pick.induct) auto

lemma pick_distinct: "distinct (map f es) \<Longrightarrow> distinct (map f (pick target es v))"
proof (induction target es v rule: pick.induct)
  case (2 target e es v)
  then show ?case using pick_set [of target es "v + txo_value e"] by auto
qed simp

lemma pick_enough: "target \<le> v + total (pick target es v) \<or> pick target es v = filter eligible es"
  by (induction target es v rule: pick.induct) (auto simp: total_def add.assoc not_less)

lemma select_loop_pick:
  assumes "length (pick target es v) \<le> k" and "length cs + k < 2 ^ 32"
  shows "select_loop target es v (tx\<lparr>tx_tx_in := map input_of cs @ replicate k btc_msg_tx_in_zero, tx_in_count := of_nat (length cs)\<rparr>) =
    Some (v + total (pick target es v),
      tx\<lparr>tx_tx_in := map input_of (cs @ pick target es v) @ replicate (k - length (pick target es v)) btc_msg_tx_in_zero,
         tx_in_count := of_nat (length cs + length (pick target es v))\<rparr>)"
  using assms
proof (induction es arbitrary: v cs k)
  case Nil
  then show ?case by (simp add: total_def)
next
  case (Cons e es)
  consider "\<not> v < target" | "v < target" "\<not> eligible e" | "v < target" "eligible e" by blast
  then show ?case
  proof cases
    case 1
    then show ?thesis by (simp add: total_def)
  next
    case 2
    then have "select_loop target (e # es) v t = select_loop target es v t" for t by (auto simp: eligible_def)
    with 2 Cons.IH [of v k cs] Cons.prems show ?thesis by simp
  next
    case 3
    let ?p = "pick target es (v + txo_value e)"
    obtain k' where k: "k = Suc k'" using 3 Cons.prems(1) by (cases k) simp_all
    have u: "unat (of_nat (length cs) :: u64) = length cs" using Cons.prems(2) by (simp add: unat_of_nat_small)
    have "select_loop target (e # es) v (tx\<lparr>tx_tx_in := map input_of cs @ replicate k btc_msg_tx_in_zero, tx_in_count := of_nat (length cs)\<rparr>) =
       select_loop target es (v + txo_value e)
         (tx\<lparr>tx_tx_in := map input_of (cs @ [e]) @ replicate k' btc_msg_tx_in_zero, tx_in_count := of_nat (length (cs @ [e]))\<rparr>)"
      using 3 u by (simp add: eligible_def k Let_def input_of_def list_update_append add.commute nth_append)
    also have "\<dots> = Some (v + txo_value e + total ?p,
        tx\<lparr>tx_tx_in := map input_of ((cs @ [e]) @ ?p) @ replicate (k' - length ?p) btc_msg_tx_in_zero,
           tx_in_count := of_nat (length (cs @ [e]) + length ?p)\<rparr>)"
      using Cons.IH [of "v + txo_value e" k' "cs @ [e]"] Cons.prems 3 k by simp
    finally show ?thesis using 3 k by (simp add: total_def add.assoc)
  qed
qed

definition qsort_permutes :: "('bn, 'b, 'pt, 'pk, 'db) client \<Rightarrow> bool" where
  "qsort_permutes cl \<longleftrightarrow> (\<forall>cmp xs ys. cl_qsort cl cmp xs = Some ys \<longrightarrow> mset ys = mset xs)"

lemma collect_coins:
  assumes "\<And>e. e \<in> set es \<Longrightarrow> he_clientData e < length (db_txos db)"
  shows "for_each_entry (\<lambda>_ a es. map_option (\<lambda>e. es @ [e]) (deref_txo db a)) es acc =
    Some (acc @ map (\<lambda>e. db_txos db ! he_clientData e) es)"
  using assms by (induction es arbitrary: acc) (simp_all add: deref_txo_def)

lemma coins_sorted:
  assumes "txdb_ok db" and "qsort_permutes cl" and "txdb_get_coins_sorted cl db = Some es"
  shows "length es = length (ht_entries (db_hash_txo db))" "distinct (map coin_outpoint es)"
    "set es = ran (coins db)" "e \<in> set es \<Longrightarrow> coins db (coin_outpoint e) = Some e"
proof -
  let ?f = "\<lambda>e. db_txos db ! he_clientData e"
  note ce = coins_entries [OF assms(1)]
  have "hashtable_for_each (db_hash_txo db) (\<lambda>_ a es. map_option (\<lambda>e. es @ [e]) (deref_txo db a)) [] =
      Some (map ?f (ht_entries (db_hash_txo db)))"
    using collect_coins [of "ht_entries (db_hash_txo db)" db "[]"] ce(2)
    by (simp add: hashtable_for_each_def ht_entries_def)
  then have m: "mset es = mset (map ?f (ht_entries (db_hash_txo db)))"
    using assms(2,3) by (auto simp: txdb_get_coins_sorted_def qsort_permutes_def ASSERT_def split: bind_splits if_splits)
  show "length es = length (ht_entries (db_hash_txo db))" using arg_cong [OF m, of size] by simp
  have s: "set es = ?f ` set (ht_entries (db_hash_txo db))" using arg_cong [OF m, of set_mset] by simp
  have "distinct (map (\<lambda>e. coin_outpoint (?f e)) (ht_entries (db_hash_txo db)))"
    using ce(1) txdb_okD(2) [OF assms(1)]
    by (auto simp: distinct_map bij_betw_def ht_wf_def coin_outpoint_def)
  then show "distinct (map coin_outpoint es)"
    using mset_eq_imp_distinct_iff [of "map coin_outpoint es" "map (\<lambda>e. coin_outpoint (?f e)) (ht_entries (db_hash_txo db))"]
      arg_cong [OF m, of "image_mset coin_outpoint"] by (simp add: image_mset.compositionality comp_def)
  show c: "e \<in> set es \<Longrightarrow> coins db (coin_outpoint e) = Some e" for e
    using ce(2) s by (auto simp: coin_outpoint_def)
  show "set es = ran (coins db)"
  proof
    show "set es \<subseteq> ran (coins db)" using c by (blast intro: ranI)
    show "ran (coins db) \<subseteq> set es"
    proof
      fix e
      assume "e \<in> ran (coins db)"
      then obtain q where q: "coins db q = Some e" by (auto simp: ran_def)
      then have "q \<in> (\<lambda>e. (txo_txHash (?f e), txo_outIdx (?f e))) ` set (ht_entries (db_hash_txo db))"
        using ce(1) by (auto simp: bij_betw_def)
      then obtain x where "x \<in> set (ht_entries (db_hash_txo db))" "coins db q = Some (?f x)" using ce(2) by auto
      then show "e \<in> set es" using s q by auto
    qed
  qed
qed

text \<open>The coins that are chosen, in the order of the sorted array.\<close>

definition good_choice :: "'db txdb \<Rightarrow> btc_tx_desc \<Rightarrow> txo_entry list \<Rightarrow> bool" where
  "good_choice db desc cs \<longleftrightarrow> distinct (map coin_outpoint cs) \<and>
     (\<forall>e \<in> set cs. coins db (coin_outpoint e) = Some e \<and> eligible e) \<and>
     (td_total_value desc + td_fee desc \<le> total cs \<or> set cs = {e \<in> ran (coins db). eligible e})"

lemma select_coins_ok:
  assumes "txdb_ok db" and "qsort_permutes cl" and "txdb_get_coins_sorted cl db = Some es"
    and "length (ht_entries (db_hash_txo db)) < 2 ^ 32"
  shows "\<exists>cs. good_choice db desc cs \<and> length cs < 2 ^ 32 \<and>
    txdb_select_coins cl db desc
      (tx\<lparr>tx_tx_in := replicate (unat (hashtable_getnumentries (db_hash_txo db))) btc_msg_tx_in_zero\<rparr>) =
    (if total cs < td_total_value desc then None
     else Some (tx\<lparr>tx_tx_in := map input_of cs @ replicate (length (ht_entries (db_hash_txo db)) - length cs) btc_msg_tx_in_zero,
                  tx_in_count := of_nat (length cs)\<rparr>, total cs - td_total_value desc - td_fee desc))"
proof -
  note c = coins_sorted [OF assms(1-3)]
  let ?t = "td_total_value desc + td_fee desc"
  let ?cs = "pick ?t es 0"
  have n: "unat (hashtable_getnumentries (db_hash_txo db)) = length es"
    using assms(4) c(1) txdb_okD(2) [OF assms(1)]
    by (simp add: hashtable_getnumentries_def ht_wf_def unat_of_nat_small)
  have len: "length ?cs \<le> length es" by (rule pick_length)
  have "distinct (map coin_outpoint ?cs)" by (rule pick_distinct [OF c(2)])
  moreover have "set ?cs \<subseteq> {e \<in> set es. eligible e}" by (rule pick_set)
  ultimately have "good_choice db desc ?cs"
    using c(3,4) pick_enough [of ?t 0 es] by (auto simp: good_choice_def)
  moreover have "select_loop ?t es 0 (tx\<lparr>tx_tx_in := replicate (length es) btc_msg_tx_in_zero, tx_in_count := 0\<rparr>) =
      Some (total ?cs, tx\<lparr>tx_tx_in := map input_of ?cs @ replicate (length es - length ?cs) btc_msg_tx_in_zero,
         tx_in_count := of_nat (length ?cs)\<rparr>)"
    using select_loop_pick [of ?t es 0 "length es" "[]" tx] len assms(4) c(1) by simp
  ultimately show ?thesis
    using assms(3,4) n len c(1) by (intro exI [of _ ?cs]) (auto simp: txdb_select_coins_def not_less ASSERT_def)
qed

section \<open>The transaction that is sent\<close>

text \<open>An output of a value that pays to a digest.\<close>

definition pays_to_key :: "uint160 \<times> u64 \<Rightarrow> btc_msg_tx_out \<Rightarrow> bool" where
  "pays_to_key p out \<longleftrightarrow> to_value out = snd p \<and> to_scriptLength out = 25 \<and>
     (\<exists>m. to_scriptPubKey out = Some m \<and> take 25 m = p2pkh_script (fst p))"

text \<open>What a payment asks for: its address is that of the digest.\<close>

definition asked :: "('bn, 'b, 'pt, 'pk) openssl \<Rightarrow> string \<times> u64 \<Rightarrow> uint160 \<times> u64 \<Rightarrow> bool" where
  "asked ssl d p \<longleftrightarrow> b58_pubkey_from_uint160 (o_bn ssl) (o_sha ssl) (fst p) = Some (Some (fst d)) \<and> snd p = snd d"

lemma set_txo_pays:
  assumes "bn_laws (o_bn (cl_ssl cl)) val" and "asked (cl_ssl cl) (a, v) p" and "txdb_set_txo cl tx i (Some a) v = Some tx'"
  shows "\<exists>out. pays_to_key p out \<and> i < length (tx_tx_out tx) \<and> tx' = tx\<lparr>tx_tx_out := (tx_tx_out tx)[i := out]\<rparr>"
proof -
  have d: "b58_pubkey_to_uint160 (o_bn (cl_ssl cl)) (o_sha (cl_ssl cl)) (cl_type cl) a (cl_pubkey cl) = Some (fst p)" and v: "snd p = v"
    using address_pays [OF assms(1)] assms(2) by (simp_all add: asked_def)
  obtain m where "script_txo_generate (fst p) = Some (Some m, 25)" "take 25 m = p2pkh_script (fst p)"
    using generated_script_roundtrip by blast
  then show ?thesis using assms(3) d v
    by (auto simp: txdb_set_txo_def pays_to_key_def split: bind_splits if_splits intro!: exI)
qed

lemma set_txos_pay:
  assumes "bn_laws (o_bn (cl_ssl cl)) val" and "list_all2 (asked (cl_ssl cl)) dst pays" and "set_txos cl i dst tx = Some tx'"
    and "i + length dst \<le> length (tx_tx_out tx)"
  shows "\<exists>outs. list_all2 pays_to_key pays outs \<and>
    tx' = tx\<lparr>tx_tx_out := take i (tx_tx_out tx) @ outs @ drop (i + length dst) (tx_tx_out tx)\<rparr>"
  using assms(2-4)
proof (induction dst pays arbitrary: i tx rule: list_all2_induct)
  case Nil
  then show ?case by simp
next
  case (Cons d dst p pays)
  obtain tx1 where tx1: "txdb_set_txo cl tx i (Some (fst d)) (snd d) = Some tx1" "set_txos cl (i + 1) dst tx1 = Some tx'"
    using Cons.prems(1) by (cases d) (auto split: bind_splits)
  obtain out where out: "pays_to_key p out" "tx1 = tx\<lparr>tx_tx_out := (tx_tx_out tx)[i := out]\<rparr>"
    using set_txo_pays [OF assms(1) _ tx1(1), of p] Cons.hyps(1) by auto
  obtain outs where o: "list_all2 pays_to_key pays outs"
    "tx' = tx1\<lparr>tx_tx_out := take (i + 1) (tx_tx_out tx1) @ outs @ drop (i + 1 + length dst) (tx_tx_out tx1)\<rparr>"
    using Cons.IH [OF tx1(2)] Cons.prems(2) out(2) by auto
  have "i < length (tx_tx_out tx)" using Cons.prems(2) by simp
  then show ?case using out o by (intro exI [of _ "out # outs"]) (simp add: take_Suc_conv_app_nth)
qed

text \<open>The outputs after the payments are set: one for each of them and an empty one for the change.\<close>

lemma prepare_pays:
  assumes "bn_laws (o_bn (cl_ssl cl)) val"
    and "list_all2 (asked (cl_ssl cl)) (take (unat (td_num_addr desc)) (td_dst desc)) pays"
    and "txdb_prepare_txout cl desc tx = Some tx'"
  shows "\<exists>outs. list_all2 pays_to_key pays outs \<and> length outs = unat (td_num_addr desc) \<and>
    tx' = tx\<lparr>tx_out_count := ucast (td_num_addr desc), tx_tx_out := outs @ [btc_msg_tx_out_zero]\<rparr>"
proof -
  let ?n = "unat (td_num_addr desc)"
  have n: "?n \<le> length (td_dst desc)" and s: "set_txos cl 0 (take ?n (td_dst desc))
      (tx\<lparr>tx_out_count := ucast (td_num_addr desc), tx_tx_out := replicate (?n + 1) btc_msg_tx_out_zero\<rparr>) = Some tx'"
    using assms(3) by (simp_all add: txdb_prepare_txout_def split: if_splits)
  from set_txos_pay [OF assms(1,2) s] n obtain outs where "list_all2 pays_to_key pays outs"
    "tx' = tx\<lparr>tx_out_count := ucast (td_num_addr desc), tx_tx_out := outs @ [btc_msg_tx_out_zero]\<rparr>"
    by (auto simp: replicate_append_same [symmetric])
  moreover have "length pays = ?n" using list_all2_lengthD [OF assms(2)] n by simp
  ultimately show ?thesis using list_all2_lengthD [of pays_to_key pays outs] by auto
qed

text \<open>The change goes to the first key of the wallet.\<close>

lemma find_key:
  assumes "wallet_ok ssl w" and "wallet_find_key_by_idx w idx = Some (Some wk)"
  shows "ht_map (w_hash_keys w) (le_bytes (wk_pub_key wk)) = Some wk \<and> wk_cfg_idx wk = idx"
proof -
  have wf: "ht_wf (w_hash_keys w)" using assms(1) by (simp add: wallet_ok_def)
  have loop: "for_each_entry (\<lambda>_ wkey data. Some (if wk_cfg_idx wkey = idx then Some wkey else data)) es r = Some (Some wk) \<Longrightarrow>
      r = Some wk \<or> wk_cfg_idx wk = idx \<and> (\<exists>e \<in> set es. he_clientData e = wk)" for es r
  proof (induction es arbitrary: r)
    case (Cons e es)
    from Cons.IH [of "if wk_cfg_idx (he_clientData e) = idx then Some (he_clientData e) else r"] Cons.prems
    show ?case by (auto split: if_splits)
  qed simp
  have "wk_cfg_idx wk = idx" "\<exists>e \<in> set (ht_entries (w_hash_keys w)). he_clientData e = wk"
    using loop [of "ht_entries (w_hash_keys w)" None] assms(2)
    by (simp_all add: wallet_find_key_by_idx_def hashtable_for_each_def ht_entries_def)
  then obtain e where e: "e \<in> set (ht_entries (w_hash_keys w))" "he_clientData e = wk" by blast
  then have "ht_map (w_hash_keys w) (he_key e) = Some wk" using ht_map_entry [OF wf] by blast
  moreover from this have "he_key e = le_bytes (wk_pub_key wk)" using assms(1) unfolding wallet_ok_def by blast
  ultimately show ?thesis using \<open>wk_cfg_idx wk = idx\<close> by simp
qed

definition change_key :: "'pk wallet \<Rightarrow> uint160 \<Rightarrow> bool" where
  "change_key w h \<longleftrightarrow> (\<exists>wk. ht_map (w_hash_keys w) (le_bytes h) = Some wk \<and> wk_pub_key wk = h \<and> wk_cfg_idx wk = 0)"

lemma change_addr:
  assumes "wallet_ok ssl w" and "wallet_get_change_addr w = Some (Some a)"
  shows "\<exists>h. change_key w h \<and> asked ssl (a, v) (h, v)"
proof -
  obtain wk where wk: "wallet_find_key_by_idx w 0 = Some (Some wk)" "wk_btc_addr wk = Some a"
    using assms(2) by (auto simp: wallet_get_change_addr_def split: bind_splits)
  note k = find_key [OF assms(1) wk(1)]
  then have "b58_pubkey_from_uint160 (o_bn ssl) (o_sha ssl) (wk_pub_key wk) = Some (Some a)"
    using assms(1) wk(2) unfolding wallet_ok_def by metis
  with k show ?thesis by (intro exI [of _ "wk_pub_key wk"]) (auto simp: change_key_def asked_def)
qed

text \<open>The output for the change.\<close>

lemma change_pays:
  assumes "bn_laws (o_bn (cl_ssl cl)) val" and "wallet_ok (cl_ssl cl) w" and "unat (tx_out_count tx) = length outs"
    and "tx_tx_out tx = outs @ [btc_msg_tx_out_zero]" and "length outs < 2 ^ 32" and "list_all2 pays_to_key pays outs"
    and "(if 0 < change then do {
        btc_change \<leftarrow> wallet_get_change_addr w;
        let tx = tx\<lparr>tx_out_count := tx_out_count tx + 1\<rparr>;
        txdb_set_txo cl tx (unat (tx_out_count tx - 1)) btc_change change
      } else Some tx) = Some tx'"
  shows "\<exists>c. (if change = 0 then c = [] else \<exists>h. change_key w h \<and> c = [(h, change)]) \<and>
    list_all2 pays_to_key (pays @ c) (take (unat (tx_out_count tx')) (tx_tx_out tx')) \<and>
    tx_tx_in tx' = tx_tx_in tx \<and> tx_in_count tx' = tx_in_count tx"
proof (cases "change = 0")
  case True
  then show ?thesis using assms(3,4,6,7) by simp
next
  case False
  let ?tx = "tx\<lparr>tx_out_count := tx_out_count tx + 1\<rparr>"
  obtain r where r: "wallet_get_change_addr w = Some r" "txdb_set_txo cl ?tx (length outs) r change = Some tx'"
    using assms(3,7) False by (auto simp: word_gt_0 split: bind_splits)
  then obtain a where a: "wallet_get_change_addr w = Some (Some a)" "txdb_set_txo cl ?tx (length outs) (Some a) change = Some tx'"
    by (cases r) (auto simp: txdb_set_txo_def)
  obtain h where h: "change_key w h" "asked (cl_ssl cl) (a, change) (h, change)" using change_addr [OF assms(2) a(1)] by blast
  from set_txo_pays [OF assms(1) h(2) a(2)] obtain out where o: "pays_to_key (h, change) out" "tx' = ?tx\<lparr>tx_tx_out := outs @ [out]\<rparr>"
    by (auto simp: assms(4))
  have "unat (tx_out_count tx + 1) = length outs + 1"
    using assms(3,5) by (subst unat_add_lem [THEN iffD1]) simp_all
  then show ?thesis using h(1) o False assms(6) by (intro exI [of _ "[(h, change)]"]) (auto intro: list_all2_appendI)
qed

lemma sign_keeps:
  assumes "script_sign ec sha lookup txo tx i ht = Some (r, tx')"
  shows "\<exists>ins. tx' = tx\<lparr>tx_tx_in := ins\<rparr> \<and> map outpoint ins = map outpoint (tx_tx_in tx)"
proof -
  have upd: "map outpoint (xs[n := (xs ! n)\<lparr>ti_scriptLength := l, ti_scriptSig := s\<rparr>]) = map outpoint xs" for xs n l s
    by (cases "n < length xs") (auto intro!: nth_equalityI simp: nth_list_update outpoint_def)
  have "tx' = tx \<or> (\<exists>l s. tx' = tx\<lparr>tx_tx_in := (tx_tx_in tx)[unat i := (tx_tx_in tx ! unat i)\<lparr>ti_scriptLength := l, ti_scriptSig := s\<rparr>]\<rparr>)"
    using assms by (auto simp: script_sign_def Let_def split: bind_splits if_splits script_txout_type.splits) blast
  then show ?thesis
  proof
    assume "tx' = tx"
    then show ?thesis by (intro exI [of _ "tx_tx_in tx"]) simp
  next
    assume "\<exists>l s. tx' = tx\<lparr>tx_tx_in := (tx_tx_in tx)[unat i := (tx_tx_in tx ! unat i)\<lparr>ti_scriptLength := l, ti_scriptSig := s\<rparr>]\<rparr>"
    then show ?thesis using upd by blast
  qed
qed

lemma sign_loop_keeps:
  assumes "sign_loop ssl wallet db is tx = Some tx'"
  shows "\<exists>ins. tx' = tx\<lparr>tx_tx_in := ins\<rparr> \<and> map outpoint ins = map outpoint (tx_tx_in tx)"
  using assms
proof (induction "is" arbitrary: tx)
  case Nil
  then show ?case by (auto intro!: exI [of _ "tx_tx_in tx"])
next
  case (Cons i is')
  then obtain txo r tx1 where t: "script_sign (o_ec ssl) (o_sha ssl) (wallet_lookup_pubkey wallet) txo tx (of_nat i) SIGHASH_ALL = Some (r, tx1)"
    "sign_loop ssl wallet db is' tx1 = Some tx'"
    by (auto simp: Let_def split: bind_splits if_splits)
  from sign_keeps [OF t(1)] Cons.IH [OF t(2)] show ?case by force
qed

text \<open>Sums that fit into 64 bits.\<close>

lemma unat_sum: "sum_list (map unat vs) < 2 ^ 64 \<Longrightarrow> unat (sum_list vs :: u64) = sum_list (map unat vs)"
proof (induction vs)
  case (Cons v vs)
  then have "unat v + unat (sum_list vs) < 2 ^ 64" by simp
  then show ?case using Cons by (simp add: unat_word_ariths)
qed simp

lemma unat_change:
  fixes t f w :: u64
  assumes "\<not> w < t" and "unat t + unat f < 2 ^ 64"
  shows "unat (w - t - f) = (if unat t + unat f \<le> unat w then unat w - unat t - unat f else 2 ^ 64 + unat w - unat t - unat f)"
proof -
  have "unat (w - t) = unat w - unat t" using assms(1) by (simp add: unat_sub not_less)
  moreover have "unat t \<le> unat w" using assms(1) by (simp add: word_le_nat_alt not_less)
  ultimately show ?thesis by (auto simp: unat_sub_if_size word_size)
qed

text \<open>The coins that are chosen, with their worth as a natural number.\<close>

lemma choice_worth:
  assumes "good_choice db desc cs" and "finite (ran (coins db))"
    and "(\<Sum>e | e \<in> ran (coins db) \<and> eligible e. unat (txo_value e)) < 2 ^ 64"
  shows "unat (total cs) = (\<Sum>e\<leftarrow>cs. unat (txo_value e))"
proof -
  let ?w = "\<lambda>e. unat (txo_value e)"
  have "distinct cs" using assms(1) by (auto simp: good_choice_def distinct_map)
  then have "(\<Sum>e\<leftarrow>cs. ?w e) = sum ?w (set cs)" by (simp add: sum_list_distinct_conv_sum_set)
  also have "\<dots> \<le> (\<Sum>e | e \<in> ran (coins db) \<and> eligible e. ?w e)"
    using assms(1,2) by (intro sum_mono2) (auto simp: good_choice_def intro: ranI)
  finally have "sum_list (map unat (map txo_value cs)) < 2 ^ 64" using assms(3) by (simp add: o_def)
  from unat_sum [OF this] show ?thesis by (simp add: total_def o_def)
qed

text \<open>The inputs and outputs of the transaction.\<close>

lemma craft_shape:
  assumes "bn_laws (o_bn (cl_ssl cl)) val" and "qsort_permutes cl" and "txdb_ok db" and "wallet_ok (cl_ssl cl) wallet"
    and "length (ht_entries (db_hash_txo db)) < 2 ^ 32"
    and "list_all2 (asked (cl_ssl cl)) (take (unat (td_num_addr desc)) (td_dst desc)) pays"
    and "txdb_craft_tx cl broadcast wallet db desc btc_msg_tx_init = Some (res, tx, db')"
  shows "\<exists>cs change. good_choice db desc cs \<and> finite (ran (coins db)) \<and> \<not> total cs < td_total_value desc \<and>
    map outpoint (take (unat (tx_in_count tx)) (tx_tx_in tx)) = map coin_outpoint cs \<and>
    list_all2 pays_to_key (pays @ change) (take (unat (tx_out_count tx)) (tx_tx_out tx)) \<and>
    (if total cs - td_total_value desc - td_fee desc = 0 then change = []
     else \<exists>h. change_key wallet h \<and> change = [(h, total cs - td_total_value desc - td_fee desc)])"
proof -
  let ?n = "unat (td_num_addr desc)" and ?tx0 = "btc_msg_tx_init\<lparr>tx_version := 1\<rparr>"
  let ?ne = "unat (hashtable_getnumentries (db_hash_txo db))" and ?tot = "td_total_value desc"
  obtain tx1 tx2 change tx3 where t: "txdb_prepare_txout cl desc ?tx0 = Some tx1"
    "txdb_select_coins cl db desc (tx1\<lparr>tx_tx_in := replicate ?ne btc_msg_tx_in_zero\<rparr>) = Some (tx2, change)"
    "(if 0 < change then do {
        btc_change \<leftarrow> wallet_get_change_addr wallet;
        let tx = tx2\<lparr>tx_out_count := tx_out_count tx2 + 1\<rparr>;
        txdb_set_txo cl tx (unat (tx_out_count tx - 1)) btc_change change
      } else Some tx2) = Some tx3"
    "txdb_sign_tx_inputs (cl_ssl cl) wallet db tx3 = Some tx"
    using assms(7) by (auto simp: txdb_craft_tx_def Let_def split: bind_splits if_splits)
  obtain outs where o: "list_all2 pays_to_key pays outs" "length outs = ?n"
    "tx1 = ?tx0\<lparr>tx_out_count := ucast (td_num_addr desc), tx_tx_out := outs @ [btc_msg_tx_out_zero]\<rparr>"
    using prepare_pays [OF assms(1,6) t(1)] by blast
  obtain es where es: "txdb_get_coins_sorted cl db = Some es" using t(2) by (auto simp: txdb_select_coins_def split: bind_splits)
  obtain cs k where cs: "good_choice db desc cs" "length cs < 2 ^ 32"
    and sel: "Some (tx2, change) = (if total cs < ?tot then None
      else Some (tx1\<lparr>tx_tx_in := map input_of cs @ replicate k btc_msg_tx_in_zero, tx_in_count := of_nat (length cs)\<rparr>,
             total cs - ?tot - td_fee desc))"
    using select_coins_ok [OF assms(3,2) es assms(5), of desc tx1] unfolding t(2) by blast
  have tot: "\<not> total cs < ?tot" "change = total cs - ?tot - td_fee desc"
    and tx2: "tx2 = tx1\<lparr>tx_tx_in := map input_of cs @ replicate k btc_msg_tx_in_zero, tx_in_count := of_nat (length cs)\<rparr>"
    using sel by (simp_all split: if_splits)
  have lo: "length outs < 2 ^ 32" using unsigned_less [of "td_num_addr desc"] o(2) by simp
  have "unat (tx_out_count tx2) = length outs" "tx_tx_out tx2 = outs @ [btc_msg_tx_out_zero]"
    by (simp_all add: tx2 o(2,3) unat_ucast_u32)
  from change_pays [OF assms(1,4) this lo o(1) t(3)] obtain c where
    c: "if change = 0 then c = [] else \<exists>h. change_key wallet h \<and> c = [(h, change)]"
    "list_all2 pays_to_key (pays @ c) (take (unat (tx_out_count tx3)) (tx_tx_out tx3))"
    "tx_tx_in tx3 = tx_tx_in tx2" "tx_in_count tx3 = tx_in_count tx2" by blast
  obtain ins where ins: "tx = tx3\<lparr>tx_tx_in := ins\<rparr>" "map outpoint ins = map outpoint (tx_tx_in tx3)"
    using sign_loop_keeps [OF t(4) [unfolded txdb_sign_tx_inputs_def]] by blast
  have "unat (of_nat (length cs) :: u64) = length cs" using cs(2) by (simp add: unat_of_nat_small)
  then have "map outpoint (take (unat (tx_in_count tx)) (tx_tx_in tx)) = map coin_outpoint cs"
    using ins c(3,4) tx2 by (simp add: take_map [symmetric] comp_def outpoint_input_of)
  moreover have "list_all2 pays_to_key (pays @ c) (take (unat (tx_out_count tx)) (tx_tx_out tx))" using c(2) ins(1) by simp
  moreover have "finite (ran (coins db))" using coins_sorted(3) [OF assms(3,2) es] by (metis List.finite_set)
  ultimately show ?thesis using cs(1) c(1) tot by blast
qed

lemma change_amount:
  fixes W T F :: u64
  assumes "\<not> W < T" and "unat T + unat F < 2 ^ 64"
    and "if W - T - F = 0 then change = [] else \<exists>h. K h \<and> change = [(h, W - T - F)]"
  shows "unat T \<le> unat W \<and> (if unat W = unat T + unat F then change = []
    else \<exists>h v. change = [(h, v)] \<and> K h \<and>
      unat v = (if unat T + unat F < unat W then unat W - unat T - unat F else 2 ^ 64 + unat W - unat T - unat F))"
proof -
  have le: "unat T \<le> unat W" using assms(1) by (simp add: word_le_nat_alt not_less)
  note u = unat_change [OF assms(1,2)]
  show ?thesis
  proof (cases "unat W = unat T + unat F")
    case True
    then have "W - T - F = 0" using u by (simp add: unat_eq_zero)
    then show ?thesis using assms(3) le True by simp
  next
    case False
    then have "unat (W - T - F) \<noteq> 0" using u le assms(2) by (auto split: if_splits)
    then have "W - T - F \<noteq> 0" by (metis unsigned_0)
    then obtain h where "K h" "change = [(h, W - T - F)]" using assms(3) by auto
    then show ?thesis using u False le by auto
  qed
qed

text \<open>C9: the transaction that the wallet sends spends distinct coins of its database that are confirmed, unspent
  and spendable. Its outputs are one for each payment, of its value and to the key hash that its address stands for, in
  order, and one for the change, to the first key of the wallet, unless there is none. The coins are worth
  the payments; the change is what they are worth less the payments and the fee. They may not cover the
  fee, but only if all coins that can be chosen were: then the change is that difference modulo \<open>2 ^ 64\<close>, a
  fault of the code, see \<open>change_wraps\<close>. Payments and fee, and the coins, each sum up to less than \<open>2 ^ 64\<close>.\<close>

theorem craft_tx_spends_own_coins:
  assumes "bn_laws (o_bn (cl_ssl cl)) val" and "qsort_permutes cl" and "txdb_ok db" and "wallet_ok (cl_ssl cl) wallet"
    and "length (ht_entries (db_hash_txo db)) < 2 ^ 32"
    and "list_all2 (asked (cl_ssl cl)) (take (unat (td_num_addr desc)) (td_dst desc)) pays"
    and "(\<Sum>p\<leftarrow>pays. unat (snd p)) + unat (td_fee desc) < 2 ^ 64"
    and "(\<Sum>e | e \<in> ran (coins db) \<and> eligible e. unat (txo_value e)) < 2 ^ 64"
    and "wallet_craft_tx cl broadcast wallet db desc = Some (res, tx, db')"
    and "\<not> w_balance wallet < td_total_value desc + td_fee desc"
  shows "\<exists>cs change. distinct (map coin_outpoint cs) \<and> (\<forall>e \<in> set cs. coins db (coin_outpoint e) = Some e \<and> eligible e) \<and>
    map outpoint (take (unat (tx_in_count tx)) (tx_tx_in tx)) = map coin_outpoint cs \<and>
    list_all2 pays_to_key (pays @ change) (take (unat (tx_out_count tx)) (tx_tx_out tx)) \<and>
    (let worth = (\<Sum>e\<leftarrow>cs. unat (txo_value e)); paid = (\<Sum>p\<leftarrow>pays. unat (snd p)); fee = unat (td_fee desc)
     in paid \<le> worth \<and> (worth < paid + fee \<longrightarrow> set cs = {e \<in> ran (coins db). eligible e}) \<and>
       (if worth = paid + fee then change = []
        else \<exists>h v. change = [(h, v)] \<and> change_key wallet h \<and>
          unat v = (if paid + fee < worth then worth - paid - fee else 2 ^ 64 + worth - paid - fee)))"
proof -
  have sum: "td_total_value desc = sum_list (map snd (take (unat (td_num_addr desc)) (td_dst desc)))"
    and craft: "txdb_craft_tx cl broadcast wallet db desc btc_msg_tx_init = Some (res, tx, db')"
    using assms(9,10) by (auto simp: wallet_craft_tx_def Let_def split: bind_splits if_splits)
  obtain cs change where c: "good_choice db desc cs" "finite (ran (coins db))" "\<not> total cs < td_total_value desc"
    and tx: "map outpoint (take (unat (tx_in_count tx)) (tx_tx_in tx)) = map coin_outpoint cs"
      "list_all2 pays_to_key (pays @ change) (take (unat (tx_out_count tx)) (tx_tx_out tx))"
    and change: "if total cs - td_total_value desc - td_fee desc = 0 then change = []
      else \<exists>h. change_key wallet h \<and> change = [(h, total cs - td_total_value desc - td_fee desc)]"
    using craft_shape [OF assms(1-6) craft] by blast
  have w: "unat (total cs) = (\<Sum>e\<leftarrow>cs. unat (txo_value e))" by (rule choice_worth [OF c(1,2) assms(8)])
  have "map snd (take (unat (td_num_addr desc)) (td_dst desc)) = map snd pays"
    using assms(6) by (induction rule: list_all2_induct) (simp_all add: asked_def)
  then have p: "unat (td_total_value desc) = (\<Sum>p\<leftarrow>pays. unat (snd p))"
    using unat_sum [of "map snd pays"] assms(7) sum by (simp add: o_def)
  have "unat (td_total_value desc + td_fee desc) = unat (td_total_value desc) + unat (td_fee desc)"
    using assms(7) p by (subst unat_add_lem [THEN iffD1]) simp_all
  then have all: "unat (total cs) < unat (td_total_value desc) + unat (td_fee desc) \<longrightarrow> set cs = {e \<in> ran (coins db). eligible e}"
    using c(1) by (auto simp: good_choice_def word_le_nat_alt)
  have "distinct (map coin_outpoint cs)" "\<forall>e \<in> set cs. coins db (coin_outpoint e) = Some e \<and> eligible e"
    using c(1) by (simp_all add: good_choice_def)
  then show ?thesis
    using tx all [unfolded w p] change_amount [OF c(3) _ change, unfolded w p, OF assms(7)] unfolding Let_def
    by (intro exI [of _ cs] exI [of _ change]) blast
qed

definition toy_client :: "blockstore \<Rightarrow> (nat, nat, nat, nat, unit) client" where
  "toy_client bs = \<lparr>cl_ssl = toy_ssl, cl_ldb = \<lparr>ldb_put = \<lambda>_ _ _. None, ldb_entries = \<lambda>_. []\<rparr>, cl_blockStore = bs, cl_now = 0,
     cl_qsort = \<lambda>_ xs. Some xs, cl_type = 0, cl_pubkey = 0, cl_testing = True\<rparr>"

lemma toy_client_sorts: "qsort_permutes (toy_client bs)"
  by (simp add: qsort_permutes_def toy_client_def)

lemma one_coin_sorted:
  assumes "txdb_ok (db :: unit txdb)" and "coins db = [(1, 0) \<mapsto> one_coin]"
  shows "txdb_get_coins_sorted (toy_client bs) db = Some [one_coin]" "length (ht_entries (db_hash_txo db)) = 1"
proof -
  let ?es = "ht_entries (db_hash_txo db)"
  note ce = coins_entries [OF assms(1)]
  have d: "distinct ?es" using txdb_okD(2) [OF assms(1)] by (simp add: ht_wf_def distinct_map)
  have "card (set ?es) = card (dom (coins db))" by (rule bij_betw_same_card [OF ce(1)])
  then show l: "length ?es = 1" using d assms(2) by (simp add: distinct_card)
  then obtain x where x: "?es = [x]" by (cases ?es) auto
  have "coins db (txo_txHash (db_txos db ! he_clientData x), txo_outIdx (db_txos db ! he_clientData x)) = Some (db_txos db ! he_clientData x)"
    using ce(2) x by auto
  then have e: "db_txos db ! he_clientData x = one_coin" by (auto simp: assms(2) split: if_splits)
  have "hashtable_for_each (db_hash_txo db) (\<lambda>_ a es. map_option (\<lambda>e. es @ [e]) (deref_txo db a)) [] = Some [one_coin]"
    using collect_coins [of ?es db "[]"] ce(2) x e by (simp add: hashtable_for_each_def flip: ht_entries_def)
  moreover have "hashtable_getnumentries (db_hash_txo db) = 1"
    using txdb_okD(2) [OF assms(1)] l by (simp add: hashtable_getnumentries_def ht_wf_def)
  ultimately show "txdb_get_coins_sorted (toy_client bs) db = Some [one_coin]"
    by (simp add: txdb_get_coins_sorted_def toy_client_def)
qed

definition payment :: "u64 \<Rightarrow> u64 \<Rightarrow> btc_tx_desc" where
  "payment value fee = \<lparr>td_label = [], td_num_addr = 0, td_total_value = value, td_fee = fee, td_dst = []\<rparr>"

text \<open>A payment that the coins cover, but not its fee: the change is computed modulo \<open>2 ^ 64\<close>, so the
  wallet would pay itself an enormous sum. The balance, which the wallet checks first, counts coins
  that cannot be chosen, such as unconfirmed ones.\<close>

theorem change_wraps:
  "\<exists>db :: unit txdb. txdb_ok db \<and> coins db = [(1, 0) \<mapsto> one_coin] \<and>
     (\<forall>bs. \<exists>tx. txdb_select_coins (toy_client bs) db (payment 5 1) (btc_msg_tx_init\<lparr>tx_tx_in := [btc_msg_tx_in_zero]\<rparr>) =
       Some (tx, 2 ^ 64 - 1))"
proof -
  obtain db :: "unit txdb" where db: "txdb_ok db" "coins db = [(1, 0) \<mapsto> one_coin]" using one_coin_txdb by blast
  have "hashtable_getnumentries (db_hash_txo db) = 1"
    using txdb_okD(2) [OF db(1)] one_coin_sorted(2) [OF db] by (simp add: hashtable_getnumentries_def ht_wf_def)
  then have "\<exists>tx. txdb_select_coins (toy_client bs) db (payment 5 1) (btc_msg_tx_init\<lparr>tx_tx_in := [btc_msg_tx_in_zero]\<rparr>) = Some (tx, 2 ^ 64 - 1)" for bs
    using one_coin_sorted(1) [OF db, of bs]
    by (simp add: txdb_select_coins_def payment_def one_coin_def)
  with db show ?thesis by blast
qed

text \<open>Outputs whose scripts agree as far as their lengths say.\<close>

definition same_out :: "btc_msg_tx_out \<Rightarrow> btc_msg_tx_out \<Rightarrow> bool" where
  "same_out x y \<longleftrightarrow> to_value x = to_value y \<and> to_scriptLength x = to_scriptLength y \<and>
     (\<exists>m m'. to_scriptPubKey x = Some m \<and> to_scriptPubKey y = Some m' \<and> unat (to_scriptLength y) \<le> length m \<and>
        unat (to_scriptLength y) \<le> length m' \<and> take (unat (to_scriptLength y)) m = take (unat (to_scriptLength y)) m')"

lemma same_out_dup:
  assumes "list_all2 same_out outs (tx_tx_out tx)"
  shows "btc_msg_tx_dup (tx\<lparr>tx_tx_out := outs\<rparr>) = btc_msg_tx_dup tx"
proof -
  let ?f = "\<lambda>tout. do { s \<leftarrow> script_dup (to_scriptLength tout) (to_scriptPubKey tout); Some (tout\<lparr>to_scriptPubKey := s\<rparr>) }"
  have f: "?f x = ?f y" if "same_out x y" for x y
    using that by (cases x; cases y) (auto simp: same_out_def script_dup_def mem_read_def)
  have "map ?f xs = map ?f ys" if "list_all2 same_out xs ys" for xs ys
    using that by (induction rule: list_all2_induct) (simp, simp only: list.map f)
  then have "map ?f (take n outs) = map ?f (take n (tx_tx_out tx))" for n
    using list_all2_takeI [OF assms, of n] by blast
  then show ?thesis using list_all2_lengthD [OF assms] by (simp add: btc_msg_tx_dup_def)
qed

lemma same_out_sign:
  assumes "list_all2 same_out outs (tx_tx_out tx)" and "script_sign ec sha lookup txo tx i ht = Some (r, tx')"
  shows "script_sign ec sha lookup txo (tx\<lparr>tx_tx_out := outs\<rparr>) i ht = Some (r, tx'\<lparr>tx_tx_out := outs\<rparr>)"
proof -
  have "script_tx_sighash sha s (tx\<lparr>tx_tx_out := outs\<rparr>) i ht = script_tx_sighash sha s tx i ht" for s
    by (simp add: script_tx_sighash_def same_out_dup [OF assms(1)])
  then show ?thesis using assms(2)
    by (auto simp: script_sign_def Let_def split: bind_splits if_splits script_txout_type.splits)
qed

lemma toy_address: "\<exists>a. b58_pubkey_from_uint160 nat_bn (\<lambda>_. 7) h = Some (Some a)"
proof -
  let ?c = "checked (\<lambda>_. 7) PUBKEY_ADDRESS (le_bytes (h :: uint160))"
  have "hash4_calc (\<lambda>_. 7) bs ! 0 = (7 :: byte)" for bs by (simp add: hash4_calc_def hash256_calc_def sha256_calc_def) code_simp
  then have "7 \<in> set ?c" using nth_mem [of 0 "hash4_calc (\<lambda>_. 7) (PUBKEY_ADDRESS # le_bytes h)"] by (simp add: checked_def)
  moreover have "(7 :: byte) \<noteq> 0" by simp
  ultimately have "be_val ?c \<noteq> 0" unfolding be_val_zero by blast
  then show ?thesis
    using encode_check_ok [OF nat_bn_laws, of "le_bytes h"] by (simp add: b58_pubkey_from_uint160_def)
qed

lemma find_only_key:
  assumes "\<forall>e \<in> set es. he_clientData e = wk" and "wk_cfg_idx wk = idx"
  shows "for_each_entry (\<lambda>_ wkey data. Some (if wk_cfg_idx wkey = idx then Some wkey else data)) es r =
    Some (if es = [] then r else Some wk)"
  using assms by (induction es arbitrary: r) auto

text \<open>A wallet of one key, and a database of one coin that pays to it.\<close>

definition toy_pair :: "nat key" where
  "toy_pair = \<lparr>k_pkey = Some 5, k_pub_key = Some (replicate 33 2)\<rparr>"

definition toy_digest :: uint160 where
  "toy_digest = hash160_calc (\<lambda>_. 7) (replicate 33 2)"

lemma rich_wallet:
  "\<exists>w a. wallet_ok toy_ssl w \<and> w_balance w = 5 \<and> change_key w toy_digest \<and> (\<forall>h. change_key w h \<longrightarrow> h = toy_digest) \<and>
     wallet_lookup_pubkey w toy_digest = Some (Some toy_pair) \<and> wallet_get_change_addr w = Some (Some a) \<and>
     asked toy_ssl (a, 1) (toy_digest, 1)"
proof -
  obtain a where a: "b58_pubkey_from_uint160 nat_bn (\<lambda>_. 7) toy_digest = Some (Some a)" using toy_address by blast
  define wk where "wk = \<lparr>wk_key = Some toy_pair, wk_birth = 0, wk_desc = None, wk_btc_addr = Some a, wk_pub_key = toy_digest,
    wk_cfg_idx = 0, wk_spendable = True\<rparr>"
  obtain hk where hk: "ht_wf hk" "ht_map hk = [le_bytes toy_digest \<mapsto> wk]"
    using insert_ok [of "w_hash_keys toy_wallet" "le_bytes toy_digest" wk] toy_wallet_empty by auto
  define w where "w = toy_wallet\<lparr>w_hash_keys := hk, w_balance := 5\<rparr>"
  have s: "w_hash_keys w = hk" "w_filterScripts w = None" "w_balance w = 5" by (simp_all add: w_def toy_wallet_def)
  have ok: "wallet_ok toy_ssl w"
    using hk a by (auto simp: wallet_ok_def s wk_def toy_ssl_def toy_pair_def toy_digest_def key_get_pubkey_hash160_def split: if_splits)
  have e: "\<forall>e \<in> set (ht_entries hk). he_clientData e = wk" "ht_entries hk \<noteq> []"
  proof -
    have m: "ht_map hk (he_key e) = Some (he_clientData e)" if "e \<in> set (ht_entries hk)" for e
      using ht_map_entry [OF hk(1)] that by blast
    show "\<forall>e \<in> set (ht_entries hk). he_clientData e = wk"
    proof
      fix e
      assume "e \<in> set (ht_entries hk)"
      from m [OF this] show "he_clientData e = wk" by (simp add: hk(2) split: if_splits)
    qed
    have "ht_map hk (le_bytes toy_digest) = Some wk" by (simp add: hk(2))
    then show "ht_entries hk \<noteq> []" unfolding ht_map_entry [OF hk(1)] by auto
  qed
  have "wallet_find_key_by_idx w 0 = Some (Some wk)"
    using find_only_key [OF e(1), of 0 None] e(2)
    by (simp add: wallet_find_key_by_idx_def hashtable_for_each_def s wk_def flip: ht_entries_def)
  then have "wallet_get_change_addr w = Some (Some a)" by (simp add: wallet_get_change_addr_def wk_def)
  moreover have "wallet_lookup_pubkey w toy_digest = Some (Some toy_pair)"
    using hk by (simp add: wallet_lookup_pubkey_def s lookup_eq wk_def)
  moreover have "change_key w toy_digest" "change_key w h \<Longrightarrow> h = toy_digest" for h
    using hk(2) by (auto simp: change_key_def s wk_def split: if_splits)
  moreover have "asked toy_ssl (a, 1) (toy_digest, 1)" using a by (simp add: asked_def toy_ssl_def)
  ultimately show ?thesis using ok s(3) by blast
qed

lemma rich_db:
  "\<exists>db :: unit txdb. txdb_ok db \<and> coins db = [(1, 0) \<mapsto> one_coin] \<and>
     (\<exists>txe. hashtable_lookup (db_hash_tx db) (le_bytes (1 :: uint256)) = Some (Some 0) \<and> deref_tx db 0 = Some txe \<and>
       tx_out_count (te_tx txe) = 1 \<and> tx_tx_out (te_tx txe) = [\<lparr>to_value = 5, to_scriptLength = 25, to_scriptPubKey = Some (p2pkh_script toy_digest)\<rparr>])"
proof -
  note e = empty_txdb_ok
  have wf: "ht_wf (db_hash_tx empty_txdb)" using e by (simp add: txdb_ok_def)
  obtain ht :: "nat hashtable" where ht: "ht_wf ht" "ht_map ht = [le_bytes (1 :: uint256) \<mapsto> 0]"
    using insert_ok [OF wf, of "le_bytes (1 :: uint256)" 0] unfolding e [THEN conjunct2, THEN conjunct2] by auto
  define txe where "txe = \<lparr>te_tx = btc_msg_tx_init\<lparr>tx_out_count := 1,
      tx_tx_out := [\<lparr>to_value = 5, to_scriptLength = 25, to_scriptPubKey = Some (p2pkh_script toy_digest)\<rparr>]\<rparr>,
    te_blkHash = 2, te_timestamp = 0, te_relevant = True\<rparr>"
  let ?db = "empty_txdb\<lparr>db_hash_tx := ht, db_txs := [txe]\<rparr>"
  have "coins ?db = coins empty_txdb" by (simp add: coins_def fun_eq_iff)
  then have "txdb_ok ?db" "coins ?db = Map.empty" using e ht by (auto simp: txdb_ok_def)
  then obtain ht' where "txdb_ok (?db\<lparr>db_hash_txo := ht', db_txos := db_txos ?db @ [one_coin]\<rparr>)"
    "coins (?db\<lparr>db_hash_txo := ht', db_txos := db_txos ?db @ [one_coin]\<rparr>) = [(1, 0) \<mapsto> one_coin]"
    using add_coin [of ?db 1 0 one_coin] by (auto simp: one_coin_def)
  then show ?thesis using ht
    by (intro exI [of _ "?db\<lparr>db_hash_txo := ht', db_txos := db_txos ?db @ [one_coin]\<rparr>"])
      (auto simp: lookup_eq deref_tx_def txe_def)
qed

text \<open>The transaction that this wallet makes of its coin: three for the digest 5, one for itself, one as the fee.\<close>

definition toy_tx :: "btc_msg_tx_in \<Rightarrow> byte list \<Rightarrow> byte list \<Rightarrow> btc_msg_tx" where
  "toy_tx txi m m' = \<lparr>tx_in_count = 1, tx_tx_in = [txi], tx_out_count = 2,
     tx_tx_out = [\<lparr>to_value = 3, to_scriptLength = 25, to_scriptPubKey = Some m\<rparr>, \<lparr>to_value = 1, to_scriptLength = 25, to_scriptPubKey = Some m'\<rparr>],
     tx_version = 1, tx_lock_time = 0\<rparr>"

lemma serialize_bytes_take: "unat n \<le> length m \<Longrightarrow> serialize_bytes b m n = serialize_bytes b (take (unat n) m) n"
proof -
  assume "unat n \<le> length m"
  then have "buff_put b m n = buff_put b (take (unat n) m) n" for b by (simp add: buff_put_def)
  then show ?thesis by (simp add: serialize_bytes_def buff_copy_to_def)
qed

lemma toy_tx_written:
  assumes "25 \<le> length m" and "25 \<le> length m'" and "unat n \<le> length s" and "unat n < 1000"
  shows "\<exists>b bytes. serialize_tx buff_alloc (toy_tx ((input_of one_coin)\<lparr>ti_scriptLength := n, ti_scriptSig := Some s\<rparr>) m m') = Some (False, b) \<and>
    buff_content b = Some bytes \<and> \<not> BTC_TX_MAX_SIZE < buff_curlen (Some b)"
proof -
  let ?t = "\<lambda>s m m'. toy_tx ((input_of one_coin)\<lparr>ti_scriptLength := n, ti_scriptSig := Some s\<rparr>) m m'"
  let ?s = "take (unat n) s" and ?m = "take 25 m" and ?m' = "take 25 m'"
  have "serialize_bytes b m 25 = serialize_bytes b ?m 25" "serialize_bytes b m' 25 = serialize_bytes b ?m' 25"
    "serialize_bytes b s n = serialize_bytes b ?s n" for b
    using serialize_bytes_take [of 25 m b] serialize_bytes_take [of 25 m' b] serialize_bytes_take [of n s b] assms by simp_all
  moreover have two: "write_array f 2 xs b = write_array f (Suc (Suc 0)) xs b" for f :: "buff \<Rightarrow> 'a \<Rightarrow> (bool \<times> buff) option" and xs b
    by (simp only: numeral_2_eq_2)
  ultimately have eq: "serialize_tx b (?t s m m') = serialize_tx b (?t ?s ?m ?m')" for b
    by (simp add: serialize_tx_def toy_tx_def serialize_tx_in_def serialize_tx_out_def two)
  have ok: "ok_tx (?t ?s ?m ?m')"
    using assms by (simp add: ok_tx_def toy_tx_def ok_tx_in_def ok_tx_out_def ok_varint_iff input_of_def)
  have l: "length (enc_tx (?t ?s ?m ?m')) < 2000"
    using assms length_enc_varint by (simp add: enc_tx_def toy_tx_def enc_tx_in_def enc_tx_out_def input_of_def enc_varint_def)
  obtain b where b: "serialize_tx buff_alloc (?t s m m') = Some (False, b)" "buff_growing b" "buff_data b = enc_tx (?t ?s ?m ?m')"
    unfolding eq using serialize_tx_appends [OF ok, of buff_alloc] l by (auto elim!: appendsE)
  have "unat (buff_curlen (Some b)) < 2000" "\<exists>bytes. buff_content b = Some bytes"
    using b(2,3) l length_buff_data [of b] by (auto simp: buff_growing_def buff_wf_def buff_content_def mem_read_def buff_base_def buff_curlen_def buff_bytes_def)
  then show ?thesis using b(1) by (auto simp: word_less_nat_alt BTC_TX_MAX_SIZE_def)
qed

lemma toy_tx_signed:
  assumes "take 25 m = p2pkh_script 5" and "take 25 m' = p2pkh_script toy_digest" and "wallet_lookup_pubkey w toy_digest = Some (Some toy_pair)"
  shows "\<exists>n s. unat n \<le> length s \<and> unat n < 1000 \<and>
    script_sign nat_ec (\<lambda>_. 7) (wallet_lookup_pubkey w) \<lparr>to_value = 5, to_scriptLength = 25, to_scriptPubKey = Some (p2pkh_script toy_digest)\<rparr>
      (toy_tx (input_of one_coin) m m') 0 SIGHASH_ALL =
    Some (False, toy_tx ((input_of one_coin)\<lparr>ti_scriptLength := n, ti_scriptSig := Some s\<rparr>) m m')"
proof -
  let ?t = "toy_tx (input_of one_coin) (p2pkh_script 5) (p2pkh_script toy_digest)"
  let ?txo = "\<lparr>to_value = 5, to_scriptLength = 25, to_scriptPubKey = Some (p2pkh_script toy_digest)\<rparr>"
  have "signable ?t (unat (0 :: u32))"
    by (simp add: signable_def toy_tx_def ok_tx_out_def ok_varint_iff input_of_def btc_msg_tx_in_zero_def)
  moreover have "length (enc_tx (sighash_tx ?t (unat (0 :: u32)) (p2pkh_script toy_digest))) < 2 ^ 59"
    using length_enc_varint by (simp add: enc_tx_def sighash_tx_def toy_tx_def enc_tx_in_def enc_tx_out_def enc_varint_def input_of_def)
  moreover have "key_sign nat_ec toy_pair d = Some (Some d)" "key_verify nat_ec toy_pair d d" if "length d = 32" for d
    using that by (simp_all add: key_sign_def key_verify_def nat_ec_def toy_pair_def)
  moreover have "k_pub_key toy_pair = Some (replicate 33 2)" by (simp add: toy_pair_def)
  ultimately obtain s n where s: "script_sign nat_ec (\<lambda>_. 7) (wallet_lookup_pubkey w) ?txo ?t 0 SIGHASH_ALL = Some (False,
      ?t\<lparr>tx_tx_in := (tx_tx_in ?t)[unat (0 :: u32) := (tx_tx_in ?t ! unat (0 :: u32))\<lparr>ti_scriptLength := n, ti_scriptSig := Some s\<rparr>]\<rparr>)"
    "take (unat n) s = push (le_bytes (7 :: uint256) @ [1]) @ push (replicate 33 2)" "unat n \<le> length s"
    using sign_runs [of ?t 0 toy_digest ?txo "wallet_lookup_pubkey w" toy_pair "replicate 33 2" nat_ec "\<lambda>_. 7" "le_bytes (7 :: uint256)"] assms(3)
    by (auto simp: hash256_calc_def sha256_calc_def)
  have len: "25 \<le> length m" "25 \<le> length m'" using arg_cong [OF assms(1), of length] arg_cong [OF assms(2), of length] by simp_all
  have "list_all2 same_out (tx_tx_out (toy_tx (input_of one_coin) m m')) (tx_tx_out ?t)"
    using assms(1,2) len by (simp add: toy_tx_def same_out_def)
  from same_out_sign [OF this s(1)]
  have "script_sign nat_ec (\<lambda>_. 7) (wallet_lookup_pubkey w) ?txo (toy_tx (input_of one_coin) m m') 0 SIGHASH_ALL =
      Some (False, toy_tx ((input_of one_coin)\<lparr>ti_scriptLength := n, ti_scriptSig := Some s\<rparr>) m m')"
    by (simp add: toy_tx_def)
  moreover have "unat n < 1000" using arg_cong [OF s(2), of length] s(3) by (simp add: push_def Let_def split: if_splits)
  ultimately show ?thesis using s(3) by blast
qed

definition toy_payment :: "string \<Rightarrow> btc_tx_desc" where
  "toy_payment a = \<lparr>td_label = [], td_num_addr = 1, td_total_value = 3, td_fee = 1, td_dst = [(a, 3)]\<rparr>"

lemma toy_crafted:
  assumes db: "txdb_ok (db :: unit txdb)" "coins db = [(1, 0) \<mapsto> one_coin]"
    and txe: "hashtable_lookup (db_hash_tx db) (le_bytes (1 :: uint256)) = Some (Some 0)" "deref_tx db 0 = Some txe"
      "tx_out_count (te_tx txe) = 1" "tx_tx_out (te_tx txe) = [\<lparr>to_value = 5, to_scriptLength = 25, to_scriptPubKey = Some (p2pkh_script toy_digest)\<rparr>]"
    and w: "w_balance w = 5" "wallet_lookup_pubkey w toy_digest = Some (Some toy_pair)" "wallet_get_change_addr w = Some (Some c)"
    and addr: "asked toy_ssl (a, 3) (5, 3)" "asked toy_ssl (c, 1) (toy_digest, 1)"
  shows "\<exists>tx. wallet_craft_tx (toy_client bs) (\<lambda>_ _. False) w db (toy_payment a) = Some (False, tx, db)"
proof -
  let ?cl = "toy_client bs"
  have ssl: "o_bn toy_ssl = nat_bn" "o_sha toy_ssl = (\<lambda>_. 7)" "o_ec toy_ssl = nat_ec" by (simp_all add: toy_ssl_def)
  have dec: "b58_pubkey_to_uint160 nat_bn (\<lambda>_. 7) t a old = Some 5" "b58_pubkey_to_uint160 nat_bn (\<lambda>_. 7) t c old = Some toy_digest" for t old
    using address_pays [OF nat_bn_laws] addr by (simp_all add: asked_def ssl)
  obtain m m' where m: "script_txo_generate 5 = Some (Some m, 25)" "take 25 m = p2pkh_script 5"
    "script_txo_generate toy_digest = Some (Some m', 25)" "take 25 m' = p2pkh_script toy_digest"
    using generated_script_roundtrip by metis
  have len: "25 \<le> length m" "25 \<le> length m'" using arg_cong [OF m(2), of length] arg_cong [OF m(4), of length] by simp_all
  obtain n s where s: "unat n \<le> length s" "unat n < 1000"
    "script_sign nat_ec (\<lambda>_. 7) (wallet_lookup_pubkey w) \<lparr>to_value = 5, to_scriptLength = 25, to_scriptPubKey = Some (p2pkh_script toy_digest)\<rparr>
      (toy_tx (input_of one_coin) m m') 0 SIGHASH_ALL =
      Some (False, toy_tx ((input_of one_coin)\<lparr>ti_scriptLength := n, ti_scriptSig := Some s\<rparr>) m m')"
    using toy_tx_signed [OF m(2,4) w(2)] by blast
  let ?tx = "toy_tx ((input_of one_coin)\<lparr>ti_scriptLength := n, ti_scriptSig := Some s\<rparr>) m m'"
  obtain b bytes where b: "serialize_tx buff_alloc ?tx = Some (False, b)" "buff_content b = Some bytes" "\<not> BTC_TX_MAX_SIZE < buff_curlen (Some b)"
    using toy_tx_written [OF len s(1,2)] by blast
  let ?tx1 = "btc_msg_tx_init\<lparr>tx_version := 1, tx_out_count := 1,
    tx_tx_out := [\<lparr>to_value = 3, to_scriptLength = 25, to_scriptPubKey = Some m\<rparr>, btc_msg_tx_out_zero]\<rparr>"
  have nc: "hashtable_getnumentries (db_hash_txo db) = 1"
    using txdb_okD(2) [OF db(1)] one_coin_sorted(2) [OF db] by (simp add: hashtable_getnumentries_def ht_wf_def)
  have prep: "txdb_prepare_txout ?cl (toy_payment a) (btc_msg_tx_init\<lparr>tx_version := 1\<rparr>) = Some ?tx1"
    by (simp add: txdb_prepare_txout_def toy_payment_def btc_msg_tx_init_def btc_msg_tx_zero_def txdb_set_txo_def toy_client_def ssl dec m(1) numeral_2_eq_2)
  have sel: "txdb_select_coins ?cl db (toy_payment a) (?tx1\<lparr>tx_tx_in := [btc_msg_tx_in_zero]\<rparr>) =
      Some (?tx1\<lparr>tx_tx_in := [input_of one_coin], tx_in_count := 1\<rparr>, 1)"
    using one_coin_sorted(1) [OF db, of bs] nc
    by (simp add: txdb_select_coins_def toy_payment_def input_of_def one_coin_def)
  have chg: "txdb_set_txo ?cl (?tx1\<lparr>tx_tx_in := [input_of one_coin], tx_in_count := 1, tx_out_count := 2\<rparr>) 1 (Some c) 1 =
      Some (toy_tx (input_of one_coin) m m')"
    by (simp add: txdb_set_txo_def toy_client_def ssl dec m(3) toy_tx_def btc_msg_tx_init_def btc_msg_tx_zero_def)
  have sign: "txdb_sign_tx_inputs toy_ssl w db (toy_tx (input_of one_coin) m m') = Some ?tx"
  proof -
    have "toy_tx (input_of one_coin) m m' = toy_tx (input_of one_coin) m m'\<lparr>tx_in_count := 1, tx_tx_in := [input_of one_coin]\<rparr>"
      by (simp add: toy_tx_def)
    then have f: "tx_in_count (toy_tx (input_of one_coin) m m') = 1" "tx_tx_in (toy_tx (input_of one_coin) m m') = [input_of one_coin]"
      by (simp_all add: toy_tx_def)
    have i: "ti_prevTxHash (input_of one_coin) = 1" "ti_prevTxOutIdx (input_of one_coin) = 0" by (simp_all add: input_of_def one_coin_def)
    show ?thesis by (simp add: txdb_sign_tx_inputs_def f i txe ssl s(3))
  qed
  have "txdb_craft_tx ?cl (\<lambda>_ _. False) w db (toy_payment a) btc_msg_tx_init = Some (False, ?tx, db)"
    using prep sel chg sign b nc w(3) by (simp add: txdb_craft_tx_def toy_client_def)
  then show ?thesis using w(1) by (intro exI [of _ ?tx]) (simp add: wallet_craft_tx_def, simp add: toy_payment_def)
qed

theorem craft_tx_spends_own_coins_witness:
  "\<exists>(db :: unit txdb) w a bs tx. coins db = [(1, 0) \<mapsto> one_coin] \<and> asked toy_ssl (a, 3) (5, 3) \<and> change_key w toy_digest \<and>
     wallet_craft_tx (toy_client bs) (\<lambda>_ _. False) w db (toy_payment a) = Some (False, tx, db) \<and>
     map outpoint (take (unat (tx_in_count tx)) (tx_tx_in tx)) = [(1, 0)] \<and>
     list_all2 pays_to_key [(5, 3), (toy_digest, 1)] (take (unat (tx_out_count tx)) (tx_tx_out tx))"
proof -
  obtain w c where w: "wallet_ok toy_ssl w" "w_balance w = 5" "change_key w toy_digest" "\<forall>h. change_key w h \<longrightarrow> h = toy_digest"
    "wallet_lookup_pubkey w toy_digest = Some (Some toy_pair)" "wallet_get_change_addr w = Some (Some c)"
    "asked toy_ssl (c, 1) (toy_digest, 1)" using rich_wallet by blast
  obtain db :: "unit txdb" and txe where db: "txdb_ok db" "coins db = [(1, 0) \<mapsto> one_coin]"
    "hashtable_lookup (db_hash_tx db) (le_bytes (1 :: uint256)) = Some (Some 0)" "deref_tx db 0 = Some txe"
    "tx_out_count (te_tx txe) = 1" "tx_tx_out (te_tx txe) = [\<lparr>to_value = 5, to_scriptLength = 25, to_scriptPubKey = Some (p2pkh_script toy_digest)\<rparr>]"
    using rich_db by blast
  obtain a where a: "asked toy_ssl (a, 3) (5, 3)" using toy_address [of 5] by (auto simp: asked_def toy_ssl_def)
  let ?cl = "toy_client undefined"
  obtain tx where tx: "wallet_craft_tx ?cl (\<lambda>_ _. False) w db (toy_payment a) = Some (False, tx, db)"
    using toy_crafted [OF db w(2,5,6) a w(7)] by blast
  have el: "{e \<in> ran (coins db). eligible e} = {one_coin}" by (auto simp: db(2) eligible_def one_coin_def)
  have h: "bn_laws (o_bn (cl_ssl ?cl)) id" "wallet_ok (cl_ssl ?cl) w" "length (ht_entries (db_hash_txo db)) < 2 ^ 32"
    "list_all2 (asked (cl_ssl ?cl)) (take (unat (td_num_addr (toy_payment a))) (td_dst (toy_payment a))) [(5, 3)]"
    using nat_bn_laws w(1) one_coin_sorted(2) [OF db(1,2)] a
    by (simp_all add: toy_client_def toy_payment_def) (simp add: toy_ssl_def)
  have f: "unat (td_fee (toy_payment a)) = 1" "(\<Sum>p\<leftarrow>[(5 :: uint160, 3 :: u64)]. unat (snd p)) = 3" by (simp_all add: toy_payment_def)
  have s: "(\<Sum>e | e \<in> ran (coins db) \<and> eligible e. unat (txo_value e)) < 2 ^ 64" unfolding el by (simp add: one_coin_def)
  have bal: "\<not> w_balance w < td_total_value (toy_payment a) + td_fee (toy_payment a)" by (simp add: w(2) toy_payment_def)
  note spends = craft_tx_spends_own_coins [OF h(1) toy_client_sorts db(1) h(2-4) _ s tx bal, unfolded f Let_def, simplified]
  obtain cs change where cs: "distinct (map coin_outpoint cs)" "\<forall>e \<in> set cs. coins db (coin_outpoint e) = Some e \<and> eligible e"
    "map outpoint (take (unat (tx_in_count tx)) (tx_tx_in tx)) = map coin_outpoint cs"
    "list_all2 pays_to_key ((5, 3) # change) (take (unat (tx_out_count tx)) (tx_tx_out tx))" "3 \<le> (\<Sum>e\<leftarrow>cs. unat (txo_value e))"
    and ch: "if (\<Sum>e\<leftarrow>cs. unat (txo_value e)) = 4 then change = [] else \<exists>h v. change = [(h, v)] \<and> change_key w h \<and>
      unat v = (if 3 + 1 < (\<Sum>e\<leftarrow>cs. unat (txo_value e)) then (\<Sum>e\<leftarrow>cs. unat (txo_value e)) - 3 - 1
        else 2 ^ 64 + (\<Sum>e\<leftarrow>cs. unat (txo_value e)) - 3 - 1)"
    using spends by blast
  have "set cs \<subseteq> {one_coin}" using cs(2) by (auto simp: db(2) split: if_splits)
  then have one: "cs = [one_coin]" using cs(1,5) by (cases cs; cases "tl cs") auto
  then obtain v where "change = [(toy_digest, v)]" "unat v = 1" using ch w(4) by (fastforce simp: one_coin_def)
  moreover from this have "v = 1" by (simp add: word_unat_eq_iff)
  ultimately show ?thesis using db(2) a w(3) tx cs(3,4) one
    by (intro exI [of _ db] exI [of _ w] exI [of _ a] exI [of _ undefined] exI [of _ tx]) (simp add: coin_outpoint_def one_coin_def)
qed

end
