(* ===== verification/CfheaderStore.thy ===== *)
theory CfheaderStore
  imports Hash
begin

text \<open>
  The chain of filter headers of \<^verbatim>\<open>src/core/cfheader-store.c\<close>: an append-only file of records, kept
  in memory as a list, whose first record may have any height.

  The file is the list of its bytes. Writing is a parameter of every operation that writes: whether
  \<open>lseek\<close> fails, and how many bytes \<open>write\<close> stores (an error stores none). Heights are C integers;
  the sums of heights that the code computes are assumed not to leave their range.
\<close>

section \<open>Records\<close>

definition CFHS_MAGIC :: "byte list" where "CFHS_MAGIC = [0x42, 0x54, 0x43, 0x46]"
definition CFHS_VERSION_1 :: byte where "CFHS_VERSION_1 = 1"
definition CFHS_VERSION_2 :: byte where "CFHS_VERSION_2 = 2"
definition CFHS_HEADER_SIZE_V1 :: nat where "CFHS_HEADER_SIZE_V1 = 9"
definition CFHS_HEADER_SIZE_V2 :: nat where "CFHS_HEADER_SIZE_V2 = 13"
definition CFHS_RECORD_SIZE :: nat where "CFHS_RECORD_SIZE = 68"

lemmas cfhs_sizes = CFHS_HEADER_SIZE_V1_def CFHS_HEADER_SIZE_V2_def CFHS_RECORD_SIZE_def

record cfheader_entry =
  ce_height :: int
  ce_filterHeader :: uint256
  ce_filterHash :: uint256

text \<open>The count is the length of \<open>cs_entries\<close>.\<close>

record cfheaderstore =
  cs_file :: "byte list"
  cs_headerSize :: nat
  cs_baseHeight :: int
  cs_entries :: "cfheader_entry list"
  cs_capacity :: nat

abbreviation cs_count :: "cfheaderstore \<Rightarrow> nat" where
  "cs_count cfs \<equiv> length (cs_entries cfs)"

type_synonym write_result = "bool \<times> nat"

definition cfheader_calc :: "(byte list \<Rightarrow> uint256) \<Rightarrow> uint256 \<Rightarrow> uint256 \<Rightarrow> uint256" where
  "cfheader_calc sha filterHash prevFilterHeader = hash256_calc sha (le_bytes filterHash @ le_bytes prevFilterHeader)"

definition write_le32 :: "u32 \<Rightarrow> byte list" where
  "write_le32 val = [ucast val, ucast (drop_bit 8 val), ucast (drop_bit 16 val), ucast (drop_bit 24 val)]"

definition read_le32 :: "byte list \<Rightarrow> u32" where
  "read_le32 buf = ucast (buf ! 0) OR push_bit 8 (ucast (buf ! 1)) OR push_bit 16 (ucast (buf ! 2)) OR push_bit 24 (ucast (buf ! 3))"

section \<open>Writing\<close>

definition header_bytes :: "cfheaderstore \<Rightarrow> byte list" where
  "header_bytes cfs = CFHS_MAGIC @ [if cs_headerSize cfs = CFHS_HEADER_SIZE_V2 then CFHS_VERSION_2 else CFHS_VERSION_1] @
     write_le32 (of_nat (cs_count cfs)) @
     (if cs_headerSize cfs = CFHS_HEADER_SIZE_V2 then write_le32 (of_int (cs_baseHeight cfs)) else [])"

definition cfheaderstore_write_header :: "write_result \<Rightarrow> cfheaderstore \<Rightarrow> bool \<times> cfheaderstore" where
  "cfheaderstore_write_header wr cfs = (let hdr = header_bytes cfs in
     if fst wr then (True, cfs)
     else let n = min (snd wr) (cs_headerSize cfs);
              cfs = cfs\<lparr>cs_file := file_store (cs_file cfs) 0 (take n hdr)\<rparr>
       in (n \<noteq> cs_headerSize cfs, cfs))"

definition record_bytes :: "int \<Rightarrow> uint256 \<Rightarrow> uint256 \<Rightarrow> byte list" where
  "record_bytes height filterHeader filterHash = write_le32 (of_int height) @ le_bytes filterHeader @ le_bytes filterHash"

definition cfheaderstore_append ::
  "write_result \<Rightarrow> write_result \<Rightarrow> cfheaderstore option \<Rightarrow> int \<Rightarrow> uint256 option \<Rightarrow> uint256 option \<Rightarrow>
    bool \<times> cfheaderstore option" where
  "cfheaderstore_append wr wrh cfs height filterHeader filterHash = (case (cfs, filterHeader, filterHash) of
     (Some cfs, Some hdr, Some hash) \<Rightarrow>
       if (if cs_count cfs = 0 then 0 \<le> cs_baseHeight cfs \<and> height \<noteq> cs_baseHeight cfs
           else height \<noteq> ce_height (cs_entries cfs ! (cs_count cfs - 1)) + 1)
       then (True, Some cfs)
       else (let cfs = (if cs_capacity cfs \<le> cs_count cfs then cfs\<lparr>cs_capacity := cs_capacity cfs * 2\<rparr> else cfs);
                 rec = record_bytes height hdr hash;
                 offset = cs_headerSize cfs + cs_count cfs * CFHS_RECORD_SIZE
         in if fst wr then (True, Some cfs)
            else (let n = min (snd wr) CFHS_RECORD_SIZE;
                      cfs = cfs\<lparr>cs_file := file_store (cs_file cfs) offset (take n rec)\<rparr>
              in if n \<noteq> CFHS_RECORD_SIZE then (True, Some cfs)
                 else (let cfs = (if cs_count cfs = 0 then cfs\<lparr>cs_baseHeight := height\<rparr> else cfs);
                           cfs = cfs\<lparr>cs_entries := cs_entries cfs @ [\<lparr>ce_height = height, ce_filterHeader = hdr, ce_filterHash = hash\<rparr>]\<rparr>;
                           (res, cfs) = cfheaderstore_write_header wrh cfs
                   in (res, Some cfs))))
   | _ \<Rightarrow> (True, cfs))"

section \<open>Reading\<close>

definition cfheaderstore_get_tip_height :: "cfheaderstore option \<Rightarrow> int" where
  "cfheaderstore_get_tip_height cfs = (case cfs of None \<Rightarrow> -1
     | Some cfs \<Rightarrow> if cs_count cfs = 0 then -1 else ce_height (cs_entries cfs ! (cs_count cfs - 1)))"

definition cfheaderstore_get_base_height :: "cfheaderstore option \<Rightarrow> int" where
  "cfheaderstore_get_base_height cfs = (case cfs of None \<Rightarrow> -1
     | Some cfs \<Rightarrow> if cs_count cfs = 0 then -1 else cs_baseHeight cfs)"

definition cfheaderstore_get_header :: "cfheaderstore option \<Rightarrow> int \<Rightarrow> uint256 option" where
  "cfheaderstore_get_header cfs height = (case cfs of None \<Rightarrow> None
     | Some cfs \<Rightarrow> if cs_count cfs = 0 then None
         else (let idx = height - cs_baseHeight cfs
           in if idx < 0 \<or> int (cs_count cfs) \<le> idx then None else Some (ce_filterHeader (cs_entries cfs ! nat idx))))"

definition cfheaderstore_get_hash :: "cfheaderstore option \<Rightarrow> int \<Rightarrow> uint256 option" where
  "cfheaderstore_get_hash cfs height = (case cfs of None \<Rightarrow> None
     | Some cfs \<Rightarrow> if cs_count cfs = 0 then None
         else (let idx = height - cs_baseHeight cfs
           in if idx < 0 \<or> int (cs_count cfs) \<le> idx then None else Some (ce_filterHash (cs_entries cfs ! nat idx))))"

text \<open>The loop over the records of the file: \<open>n\<close> are left according to the header; it ends early at a
  record that is cut off.\<close>

fun read_records :: "nat \<Rightarrow> byte list \<Rightarrow> cfheaderstore \<Rightarrow> cfheaderstore" where
  "read_records 0 bytes cfs = cfs"
| "read_records (Suc n) bytes cfs =
     (if length bytes < CFHS_RECORD_SIZE then cfs
      else (let cfs = (if cs_capacity cfs \<le> cs_count cfs then cfs\<lparr>cs_capacity := cs_capacity cfs * 2\<rparr> else cfs)
        in read_records n (drop CFHS_RECORD_SIZE bytes)
             (cfs\<lparr>cs_entries := cs_entries cfs @ [\<lparr>ce_height = sint (read_le32 bytes),
                ce_filterHeader = le_word (take 32 (drop 4 bytes)), ce_filterHash = le_word (take 32 (drop 36 bytes))\<rparr>]\<rparr>)))"

text \<open>\<open>file\<close> is the content after \<open>open\<close>, which creates the file if needed, or nothing if that fails. The
  result: the code and the store.\<close>

definition cfheaderstore_init :: "write_result \<Rightarrow> byte list option \<Rightarrow> bool \<times> cfheaderstore option" where
  "cfheaderstore_init wr file = (case file of None \<Rightarrow> (True, None)
     | Some file \<Rightarrow>
       let cfs = \<lparr>cs_file = file, cs_headerSize = CFHS_HEADER_SIZE_V2, cs_baseHeight = 0, cs_entries = [], cs_capacity = 1024\<rparr>;
           fresh = (\<lambda>cfs. let (res, cfs) = cfheaderstore_write_header wr
                       (cfs\<lparr>cs_headerSize := CFHS_HEADER_SIZE_V2, cs_baseHeight := -1\<rparr>)
             in if res then (True, None) else (False, Some cfs))
       in if length file < 5 \<or> take 4 file \<noteq> CFHS_MAGIC \<or> file ! 4 \<notin> {CFHS_VERSION_1, CFHS_VERSION_2} then fresh cfs
          else (let cfs = cfs\<lparr>cs_headerSize := (if file ! 4 = CFHS_VERSION_1 then CFHS_HEADER_SIZE_V1 else CFHS_HEADER_SIZE_V2)\<rparr>
            in if length file < cs_headerSize cfs then fresh cfs
               else (let count = read_le32 (drop 5 file);
                         cfs = read_records (nat (sint count)) (drop (cs_headerSize cfs) file) cfs;
                         cfs = cfs\<lparr>cs_baseHeight := (if 0 < cs_count cfs then ce_height (cs_entries cfs ! 0)
                           else if cs_headerSize cfs = CFHS_HEADER_SIZE_V1 then 0 else -1)\<rparr>;
                         cfs = (if int (cs_count cfs) \<noteq> sint count then snd (cfheaderstore_write_header wr cfs) else cfs)
                 in (False, Some cfs))))"

section \<open>The file as an image of the store\<close>

lemma write_le32_eq: "write_le32 v = le_bytes v"
  by (simp add: write_le32_def le_bytes_def upt_rec)

lemma read_le32_Cons: "read_le32 (a # b # c # d # bs) = le_word [a, b, c, d]"
  by (simp add: read_le32_def push_bit_or)

lemma read_write_le32 [simp]: "read_le32 (write_le32 v @ bs) = v"
proof -
  have "read_le32 (write_le32 v @ bs) = le_word (le_bytes v)"
    by (simp add: write_le32_def read_le32_Cons del: le_word.simps flip: write_le32_eq)
  then show ?thesis by simp
qed

lemma length_write_le32 [simp]: "length (write_le32 v) = 4"
  by (simp add: write_le32_def)

definition int32 :: "int \<Rightarrow> bool" where
  "int32 i \<longleftrightarrow> - (2 ^ 31) \<le> i \<and> i < 2 ^ 31"

lemma sint_int32: "int32 i \<Longrightarrow> sint (of_int i :: u32) = i"
  by (simp add: int32_def signed_of_int signed_take_bit_int_eq_self)

definition entry_bytes :: "cfheader_entry \<Rightarrow> byte list" where
  "entry_bytes e = record_bytes (ce_height e) (ce_filterHeader e) (ce_filterHash e)"

definition cs_image :: "cfheaderstore \<Rightarrow> byte list" where
  "cs_image cfs = header_bytes cfs @ concat (map entry_bytes (cs_entries cfs))"

definition cs_ok :: "cfheaderstore \<Rightarrow> bool" where
  "cs_ok cfs \<longleftrightarrow> cs_headerSize cfs \<in> {CFHS_HEADER_SIZE_V1, CFHS_HEADER_SIZE_V2} \<and> cs_count cfs < 2 ^ 31 \<and>
     (\<forall>i < cs_count cfs. ce_height (cs_entries cfs ! i) = cs_baseHeight cfs + int i \<and> int32 (cs_baseHeight cfs + int i)) \<and>
     (cs_count cfs = 0 \<longrightarrow> cs_baseHeight cfs = (if cs_headerSize cfs = CFHS_HEADER_SIZE_V1 then 0 else -1)) \<and>
     (\<exists>rest. cs_file cfs = cs_image cfs @ rest)"

lemma length_record_bytes [simp]: "length (record_bytes h f g) = 68"
  by (simp add: record_bytes_def)

lemma length_entry_bytes [simp]: "length (entry_bytes e) = 68"
  by (simp add: entry_bytes_def)

lemma length_header_bytes: "cs_headerSize cfs \<in> {CFHS_HEADER_SIZE_V1, CFHS_HEADER_SIZE_V2} \<Longrightarrow> length (header_bytes cfs) = cs_headerSize cfs"
  by (auto simp: header_bytes_def CFHS_MAGIC_def cfhs_sizes)

lemma length_records [simp]: "length (concat (map entry_bytes es)) = 68 * length es"
  by (induction es) simp_all

lemma length_image: "cs_ok cfs \<Longrightarrow> length (cs_image cfs) = cs_headerSize cfs + 68 * cs_count cfs"
  by (simp add: cs_image_def length_header_bytes cs_ok_def)

lemma read_records_image:
  assumes "list_all (\<lambda>e. int32 (ce_height e)) es"
  shows "\<exists>cap. read_records (length es) (concat (map entry_bytes es) @ rest) cfs =
    cfs\<lparr>cs_entries := cs_entries cfs @ es, cs_capacity := cap\<rparr>"
  using assms
proof (induction es arbitrary: cfs)
  case Nil
  then show ?case by (auto intro!: exI [of _ "cs_capacity cfs"])
next
  case (Cons e es)
  let ?b = "entry_bytes e @ concat (map entry_bytes es) @ rest"
  define c where "c = (if cs_capacity cfs \<le> cs_count cfs then cfs\<lparr>cs_capacity := cs_capacity cfs * 2\<rparr> else cfs)"
  have e: "\<lparr>ce_height = sint (read_le32 ?b), ce_filterHeader = le_word (take 32 (drop 4 ?b)),
      ce_filterHash = le_word (take 32 (drop 36 ?b))\<rparr> = e"
    using Cons.prems by (cases e) (simp add: entry_bytes_def record_bytes_def sint_int32)
  have "read_records (length (e # es)) (concat (map entry_bytes (e # es)) @ rest) cfs =
      read_records (length es) (concat (map entry_bytes es) @ rest) (c\<lparr>cs_entries := cs_entries cfs @ [e]\<rparr>)"
    using e by (simp add: CFHS_RECORD_SIZE_def c_def Let_def)
  then show ?case using Cons.IH [of "c\<lparr>cs_entries := cs_entries cfs @ [e]\<rparr>"] Cons.prems by (auto simp: c_def)
qed

lemma header_fields:
  assumes "cs_headerSize cfs \<in> {CFHS_HEADER_SIZE_V1, CFHS_HEADER_SIZE_V2}"
  shows "take 4 (header_bytes cfs @ r) = CFHS_MAGIC"
    "(header_bytes cfs @ r) ! 4 = (if cs_headerSize cfs = CFHS_HEADER_SIZE_V2 then CFHS_VERSION_2 else CFHS_VERSION_1)"
    "read_le32 (drop 5 (header_bytes cfs @ r)) = of_nat (cs_count cfs)"
  by (simp_all add: header_bytes_def CFHS_MAGIC_def nth_append)

lemma init_ok:
  assumes "cs_ok cfs"
  shows "\<exists>cap. cfheaderstore_init wr (Some (cs_file cfs)) = (False, Some (cfs\<lparr>cs_capacity := cap\<rparr>))"
proof -
  have hs: "cs_headerSize cfs \<in> {CFHS_HEADER_SIZE_V1, CFHS_HEADER_SIZE_V2}" and n: "cs_count cfs < 2 ^ 31"
    using assms by (auto simp: cs_ok_def)
  obtain rest where f: "cs_file cfs = header_bytes cfs @ concat (map entry_bytes (cs_entries cfs)) @ rest"
    using assms by (auto simp: cs_ok_def cs_image_def)
  note hf = header_fields [OF hs, of "concat (map entry_bytes (cs_entries cfs)) @ rest", folded f]
  have v: "CFHS_VERSION_1 \<noteq> CFHS_VERSION_2" "CFHS_HEADER_SIZE_V1 \<noteq> CFHS_HEADER_SIZE_V2"
    by (simp_all add: CFHS_VERSION_1_def CFHS_VERSION_2_def cfhs_sizes)
  have len: "\<not> length (cs_file cfs) < cs_headerSize cfs" "\<not> length (cs_file cfs) < 5"
    using hs length_header_bytes [OF hs] by (auto simp: f cfhs_sizes)
  have cnt: "sint (read_le32 (drop 5 (cs_file cfs))) = int (cs_count cfs)"
    using sint_int32 [of "int (cs_count cfs)"] n by (simp add: hf(3) int32_def)
  have hsz: "(if cs_file cfs ! 4 = CFHS_VERSION_1 then CFHS_HEADER_SIZE_V1 else CFHS_HEADER_SIZE_V2) = cs_headerSize cfs"
    using hs v by (auto simp: hf(2))
  have ver: "cs_file cfs ! 4 \<in> {CFHS_VERSION_1, CFHS_VERSION_2}" by (simp add: hf(2))
  have d: "drop (cs_headerSize cfs) (cs_file cfs) = concat (map entry_bytes (cs_entries cfs)) @ rest"
    using length_header_bytes [OF hs] by (simp add: f)
  let ?c = "\<lparr>cs_file = cs_file cfs, cs_headerSize = cs_headerSize cfs, cs_baseHeight = 0, cs_entries = [], cs_capacity = 1024\<rparr>"
  have "list_all (\<lambda>e. int32 (ce_height e)) (cs_entries cfs)"
    using assms by (auto simp: cs_ok_def list_all_length)
  then obtain cap where r: "read_records (cs_count cfs) (drop (cs_headerSize cfs) (cs_file cfs)) ?c =
      ?c\<lparr>cs_entries := cs_entries cfs, cs_capacity := cap\<rparr>"
    using read_records_image [of "cs_entries cfs" rest ?c] unfolding d by auto
  have base: "(if 0 < cs_count cfs then ce_height (cs_entries cfs ! 0)
      else if cs_headerSize cfs = CFHS_HEADER_SIZE_V1 then 0 else -1) = cs_baseHeight cfs"
    using assms by (auto simp: cs_ok_def)
  show ?thesis
    using len hf(1) ver hsz cnt r base
    by (cases cfs) (auto intro!: exI [of _ cap] simp: cfheaderstore_init_def Let_def split: if_splits)
qed

section \<open>What the store keeps\<close>

text \<open>Whether an append is refused before anything is written.\<close>

definition refused :: "cfheaderstore \<Rightarrow> int \<Rightarrow> bool" where
  "refused cfs height \<longleftrightarrow> (if cs_count cfs = 0 then 0 \<le> cs_baseHeight cfs \<and> height \<noteq> cs_baseHeight cfs
     else height \<noteq> cs_baseHeight cfs + int (cs_count cfs))"

lemma file_after_image:
  assumes "cs_ok cfs"
  shows "\<exists>rest. file_store (cs_file cfs) (cs_headerSize cfs + cs_count cfs * CFHS_RECORD_SIZE) bs = cs_image cfs @ bs @ rest"
proof -
  obtain rest where f: "cs_file cfs = cs_image cfs @ rest" using assms by (auto simp: cs_ok_def)
  have l: "cs_headerSize cfs + cs_count cfs * CFHS_RECORD_SIZE = length (cs_image cfs)"
    using length_image [OF assms] by (simp add: CFHS_RECORD_SIZE_def)
  show ?thesis unfolding l f by (auto simp: file_store_def Let_def)
qed

lemma last_height:
  assumes "cs_ok cfs" and "cs_count cfs \<noteq> 0"
  shows "ce_height (cs_entries cfs ! (cs_count cfs - 1)) + 1 = cs_baseHeight cfs + int (cs_count cfs)"
  using assms by (auto simp: cs_ok_def of_nat_diff Suc_le_eq)

lemma write_header_ok:
  assumes hs: "cs_headerSize cfs \<in> {CFHS_HEADER_SIZE_V1, CFHS_HEADER_SIZE_V2}"
    and f: "cs_file cfs = hdr @ rest" "length hdr = cs_headerSize cfs" and ok: "\<not> fst wr" "cs_headerSize cfs \<le> snd wr"
  shows "cfheaderstore_write_header wr cfs = (False, cfs\<lparr>cs_file := header_bytes cfs @ rest\<rparr>)"
  using ok length_header_bytes [OF hs]
  by (simp add: cfheaderstore_write_header_def Let_def file_store_def f min_def)

definition entry_of :: "int \<Rightarrow> uint256 \<Rightarrow> uint256 \<Rightarrow> cfheader_entry" where
  "entry_of height hdr hash = \<lparr>ce_height = height, ce_filterHeader = hdr, ce_filterHash = hash\<rparr>"

lemma entries_get:
  assumes "cs_ok cfs"
  shows "cfheaderstore_get_header (Some cfs) h =
    map_option ce_filterHeader (find (\<lambda>e. ce_height e = h) (cs_entries cfs))"
proof (cases "\<exists>i < cs_count cfs. h = cs_baseHeight cfs + int i")
  case True
  then obtain i where i: "i < cs_count cfs" "h = cs_baseHeight cfs + int i" by blast
  have "find (\<lambda>e. ce_height e = h) (cs_entries cfs) = Some (cs_entries cfs ! i)"
    using assms i by (auto simp: cs_ok_def find_Some_iff intro!: exI [of _ i])
  with i show ?thesis by (auto simp: cfheaderstore_get_header_def)
next
  case False
  have "find (\<lambda>e. ce_height e = h) (cs_entries cfs) = None"
    using assms False by (auto simp: cs_ok_def find_None_iff in_set_conv_nth)
  moreover have "h - cs_baseHeight cfs < 0 \<or> int (cs_count cfs) \<le> h - cs_baseHeight cfs"
    using False by (metis diff_add_cancel add.commute int_nat_eq not_less zless_nat_conj nat_less_iff)
  ultimately show ?thesis by (auto simp: cfheaderstore_get_header_def)
qed

lemma append_ok:
  assumes "cs_ok cfs" and "cs_count cfs + 1 < 2 ^ 31" and "int32 height"
  shows "\<exists>res cfs'. cfheaderstore_append wr wrh (Some cfs) height (Some hdr) (Some hash) = (res, Some cfs') \<and>
    (if refused cfs height then res \<and> cfs' = cfs
     else if fst wr \<or> snd wr < CFHS_RECORD_SIZE then res \<and> cs_ok cfs' \<and> cs_entries cfs' = cs_entries cfs
     else cs_entries cfs' = cs_entries cfs @ [entry_of height hdr hash] \<and>
       (res \<longleftrightarrow> fst wrh \<or> snd wrh < cs_headerSize cfs) \<and> (\<not> res \<longrightarrow> cs_ok cfs')) \<and>
    (res \<and> (fst wrh \<or> snd wrh = 0) \<longrightarrow> (\<exists>r. cs_file cfs' = cs_image cfs @ r))"
proof -
  define c where "c = (if cs_capacity cfs \<le> cs_count cfs then cfs\<lparr>cs_capacity := cs_capacity cfs * 2\<rparr> else cfs)"
  define off where "off = cs_headerSize cfs + cs_count cfs * CFHS_RECORD_SIZE"
  define bs where "bs = take (min (snd wr) CFHS_RECORD_SIZE) (record_bytes height hdr hash)"
  have sel: "cs_entries c = cs_entries cfs" "cs_file c = cs_file cfs" "cs_headerSize c = cs_headerSize cfs" "cs_baseHeight c = cs_baseHeight cfs"
    by (simp_all add: c_def)
  have im: "cs_image (c\<lparr>cs_file := f\<rparr>) = cs_image cfs" for f by (simp add: cs_image_def header_bytes_def sel)
  have ok: "cs_ok (c\<lparr>cs_file := cs_image cfs @ r\<rparr>)" for r using assms(1) by (simp add: cs_ok_def sel im)
  have fc: "\<exists>r. cs_file c = cs_image cfs @ r" using assms(1) by (simp add: cs_ok_def sel)
  have okc: "cs_ok c" using ok assms(1) by (auto simp: cs_ok_def sel cs_image_def header_bytes_def)
  have rf: "refused cfs height \<longleftrightarrow> (if cs_count cfs = 0 then 0 \<le> cs_baseHeight cfs \<and> height \<noteq> cs_baseHeight cfs
           else height \<noteq> ce_height (cs_entries cfs ! (cs_count cfs - 1)) + 1)"
    using last_height [OF assms(1)] by (simp add: refused_def)
  obtain rest where f: "file_store (cs_file cfs) off bs = cs_image cfs @ bs @ rest"
    using file_after_image [OF assms(1), of bs] unfolding off_def by blast
  consider "refused cfs height" | "\<not> refused cfs height" "fst wr" | "\<not> refused cfs height" "\<not> fst wr" "snd wr < CFHS_RECORD_SIZE"
    | "\<not> refused cfs height" "\<not> fst wr" "CFHS_RECORD_SIZE \<le> snd wr" by linarith
  then show ?thesis
  proof cases
    case 1
    then have "cfheaderstore_append wr wrh (Some cfs) height (Some hdr) (Some hash) = (True, Some cfs)"
      unfolding rf by (auto simp: cfheaderstore_append_def split: if_splits)
    with 1 assms(1) show ?thesis by (auto simp: cs_ok_def)
  next
    case 2
    then have "cfheaderstore_append wr wrh (Some cfs) height (Some hdr) (Some hash) = (True, Some c)"
      unfolding rf by (simp add: cfheaderstore_append_def Let_def c_def)
    with 2 okc fc show ?thesis by (auto simp: sel)
  next
    case 3
    then have b3: "bs = take (snd wr) (record_bytes height hdr hash)" by (simp add: bs_def)
    note f3 = f [unfolded off_def b3]
    have "cfheaderstore_append wr wrh (Some cfs) height (Some hdr) (Some hash) = (True, Some (c\<lparr>cs_file := cs_image cfs @ bs @ rest\<rparr>))"
      using 3 unfolding rf b3 by (simp add: cfheaderstore_append_def Let_def flip: c_def) (simp add: sel f3)
    with 3 ok [of "bs @ rest"] show ?thesis by (auto simp: sel)
  next
    case 4
    have bs: "bs = record_bytes height hdr hash" using 4 by (simp add: bs_def CFHS_RECORD_SIZE_def)
    have tk: "take CFHS_RECORD_SIZE bs = bs" by (simp add: bs CFHS_RECORD_SIZE_def)
    note f4 = f [unfolded off_def]
    have fz: "cs_entries cfs = [] \<Longrightarrow> file_store (cs_file cfs) (cs_headerSize cfs) bs = cs_image cfs @ bs @ rest"
      using f4 by simp
    define d where "d = (if cs_count cfs = 0 then c\<lparr>cs_file := cs_image cfs @ bs @ rest, cs_baseHeight := height\<rparr>
      else c\<lparr>cs_file := cs_image cfs @ bs @ rest\<rparr>)\<lparr>cs_entries := cs_entries cfs @ [entry_of height hdr hash]\<rparr>"
    have app: "cfheaderstore_append wr wrh (Some cfs) height (Some hdr) (Some hash) =
        (fst (cfheaderstore_write_header wrh d), Some (snd (cfheaderstore_write_header wrh d)))"
      using 4 unfolding rf
      by (simp add: cfheaderstore_append_def Let_def min_def flip: c_def)
        (simp add: sel f4 fz tk d_def entry_of_def split_def flip: bs)
    have hs: "cs_headerSize d \<in> {CFHS_HEADER_SIZE_V1, CFHS_HEADER_SIZE_V2}" "cs_headerSize d = cs_headerSize cfs"
      using assms(1) by (auto simp: d_def sel cs_ok_def)
    have fd: "cs_file d = header_bytes cfs @ concat (map entry_bytes (cs_entries d)) @ rest"
      by (simp add: d_def cs_image_def entry_bytes_def entry_of_def bs)
    have ents: "cs_entries (snd (cfheaderstore_write_header wrh d)) = cs_entries cfs @ [entry_of height hdr hash]"
      by (simp add: cfheaderstore_write_header_def Let_def d_def)
    have res: "fst (cfheaderstore_write_header wrh d) \<longleftrightarrow> fst wrh \<or> snd wrh < cs_headerSize cfs"
      by (auto simp: cfheaderstore_write_header_def Let_def hs(2))
    have "cs_ok (snd (cfheaderstore_write_header wrh d))" if "\<not> fst (cfheaderstore_write_header wrh d)"
    proof -
      have "cfheaderstore_write_header wrh d = (False, d\<lparr>cs_file := header_bytes d @ concat (map entry_bytes (cs_entries d)) @ rest\<rparr>)"
        using that hs length_header_bytes [of cfs] unfolding res by (intro write_header_ok [OF hs(1) fd]) simp_all
      moreover have "cs_ok (d\<lparr>cs_file := header_bytes d @ concat (map entry_bytes (cs_entries d)) @ rest\<rparr>)"
        using assms 4(1) hs(1)
        by (auto simp: cs_ok_def cs_image_def header_bytes_def d_def sel entry_of_def nth_append less_Suc_eq refused_def)
      ultimately show ?thesis by simp
    qed
    moreover have "\<exists>r. cs_file (snd (cfheaderstore_write_header wrh d)) = cs_image cfs @ r" if "fst wrh \<or> snd wrh = 0"
      using that by (auto simp: cfheaderstore_write_header_def Let_def d_def file_store_def)
    ultimately show ?thesis using app ents res 4 by simp
  qed
qed

lemma find_snoc: "find P (xs @ [x]) = (case find P xs of None \<Rightarrow> if P x then Some x else None | Some y \<Rightarrow> Some y)"
  by (induction xs) auto

lemma get_header_snoc:
  assumes "cs_ok cfs" and "cs_ok cfs'" and "cs_entries cfs' = cs_entries cfs @ [entry_of height hdr hash]" and "\<not> refused cfs height"
  shows "cfheaderstore_get_header (Some cfs') = (cfheaderstore_get_header (Some cfs))(height \<mapsto> hdr)"
proof
  fix h
  have "find (\<lambda>e. ce_height e = height) (cs_entries cfs) = None"
    using assms(1,4) by (auto simp: cs_ok_def refused_def find_None_iff in_set_conv_nth split: if_splits)
  then show "cfheaderstore_get_header (Some cfs') h = ((cfheaderstore_get_header (Some cfs))(height \<mapsto> hdr)) h"
    unfolding entries_get [OF assms(1)] entries_get [OF assms(2)] assms(3) fun_upd_apply
    by (auto simp: find_snoc entry_of_def split: option.splits)
qed

text \<open>C21: appending a filter header is refused, without an effect, unless it continues the chain or is the
  first one. Otherwise the chain, seen as a map from heights, grows by it; or, when its record is not
  written in full, stays as it was. When only the header of the file fails to be written, the code
  reports an error although the chain has grown.\<close>

theorem append_cases:
  assumes "cs_ok cfs" and "cs_count cfs + 1 < 2 ^ 31" and "int32 height"
  shows "\<exists>res cfs'. cfheaderstore_append wr wrh (Some cfs) height (Some hdr) (Some hash) = (res, Some cfs') \<and>
    (if refused cfs height then res \<and> cfs' = cfs
     else if fst wr \<or> snd wr < CFHS_RECORD_SIZE then res \<and> cs_ok cfs' \<and> cs_entries cfs' = cs_entries cfs
     else if fst wrh \<or> snd wrh < cs_headerSize cfs then res \<and> cs_entries cfs' = cs_entries cfs @ [entry_of height hdr hash]
     else \<not> res \<and> cs_ok cfs' \<and> cfheaderstore_get_tip_height (Some cfs') = height \<and>
       cfheaderstore_get_header (Some cfs') = (cfheaderstore_get_header (Some cfs))(height \<mapsto> hdr))"
proof -
  obtain res cfs' where a: "cfheaderstore_append wr wrh (Some cfs) height (Some hdr) (Some hash) = (res, Some cfs')"
    "if refused cfs height then res \<and> cfs' = cfs
     else if fst wr \<or> snd wr < CFHS_RECORD_SIZE then res \<and> cs_ok cfs' \<and> cs_entries cfs' = cs_entries cfs
     else cs_entries cfs' = cs_entries cfs @ [entry_of height hdr hash] \<and>
       (res \<longleftrightarrow> fst wrh \<or> snd wrh < cs_headerSize cfs) \<and> (\<not> res \<longrightarrow> cs_ok cfs')"
    using append_ok [OF assms, of wr wrh hdr hash] by blast
  have "cfheaderstore_get_tip_height (Some cfs') = height \<and>
      cfheaderstore_get_header (Some cfs') = (cfheaderstore_get_header (Some cfs))(height \<mapsto> hdr)"
    if "\<not> refused cfs height" "cs_entries cfs' = cs_entries cfs @ [entry_of height hdr hash]" "cs_ok cfs'"
    using get_header_snoc [OF assms(1) that(3,2,1)] that(2) by (simp add: cfheaderstore_get_tip_height_def entry_of_def)
  then show ?thesis using a by (intro exI [of _ res] exI [of _ cfs']) (auto split: if_splits)
qed

text \<open>C22: the store survives a restart, and one in the middle of an append: as long as the header of the file
  is not written, what is loaded is the chain without the new entry, however much of its record has
  reached the file; once it is, the chain with it.\<close>

theorem interrupted_append_reloads:
  assumes "cs_ok cfs" and "cs_count cfs + 1 < 2 ^ 31" and "int32 height"
    and "cfheaderstore_append wr wrh (Some cfs) height (Some hdr) (Some hash) = (res, Some cfs')"
    and "\<not> res \<or> fst wrh \<or> snd wrh = 0"
  shows "\<exists>c. cfheaderstore_init wr' (Some (cs_file cfs')) = (False, Some c) \<and>
    cs_entries c = (if res then cs_entries cfs else cs_entries cfs') \<and> cs_ok c"
proof -
  have c: "cs_ok cfs \<and> cs_image cfs @ r = cs_file (cfs\<lparr>cs_file := cs_image cfs @ r\<rparr>)" for r using assms(1) by simp
  have ok: "cs_ok (cfs\<lparr>cs_file := cs_image cfs @ r\<rparr>)" for r
    using assms(1) by (simp add: cs_ok_def cs_image_def header_bytes_def)
  have cap: "cs_ok (x\<lparr>cs_capacity := n\<rparr>) = cs_ok x" for x n
    by (simp add: cs_ok_def cs_image_def header_bytes_def)
  have "(\<not> res \<longrightarrow> cs_ok cfs') \<and> (res \<longrightarrow> (\<exists>r. cs_file cfs' = cs_image cfs @ r))"
    using append_ok [OF assms(1-3), of wr wrh hdr hash] assms(4,5) by (auto split: if_splits)
  then have "\<exists>x. cs_ok x \<and> cs_file x = cs_file cfs' \<and> cs_entries x = (if res then cs_entries cfs else cs_entries cfs')"
  proof (cases res)
    case True
    then obtain r where "cs_file cfs' = cs_image cfs @ r"
      using \<open>(\<not> res \<longrightarrow> cs_ok cfs') \<and> (res \<longrightarrow> (\<exists>r. cs_file cfs' = cs_image cfs @ r))\<close> by blast
    with True ok [of r] show ?thesis by (intro exI [of _ "cfs\<lparr>cs_file := cs_file cfs'\<rparr>"]) simp
  qed auto
  then obtain x where x: "cs_ok x" "cs_file x = cs_file cfs'" "cs_entries x = (if res then cs_entries cfs else cs_entries cfs')" by blast
  then show ?thesis using init_ok [OF x(1), of wr'] cap by (metis cfheaderstore.ext_inject cfheaderstore.surjective cfheaderstore.update_convs(5))
qed

section \<open>Examples\<close>

definition empty_store :: cfheaderstore where
  "empty_store = \<lparr>cs_file = header_bytes \<lparr>cs_file = [], cs_headerSize = 13, cs_baseHeight = -1, cs_entries = [], cs_capacity = 1024\<rparr>,
     cs_headerSize = 13, cs_baseHeight = -1, cs_entries = [], cs_capacity = 1024\<rparr>"

lemma empty_store_ok: "cs_ok empty_store"
  by (simp add: cs_ok_def empty_store_def cs_image_def header_bytes_def cfhs_sizes)

theorem append_cases_witness:
  "\<exists>cfs'. cfheaderstore_append (False, 68) (False, 13) (Some empty_store) 700 (Some 5) (Some 6) = (False, Some cfs') \<and>
     cs_ok cfs' \<and> cfheaderstore_get_header (Some cfs') 700 = Some 5"
  using append_cases [OF empty_store_ok, of 700 "(False, 68)" "(False, 13)" 5 6]
  by (auto simp: int32_def refused_def empty_store_def CFHS_RECORD_SIZE_def)

theorem interrupted_append_reloads_witness:
  "\<exists>cfs' c. cfheaderstore_append (False, 68) (True, 0) (Some empty_store) 700 (Some 5) (Some 6) = (True, Some cfs') \<and>
     cs_count cfs' = 1 \<and> cfheaderstore_init (True, 0) (Some (cs_file cfs')) = (False, Some c) \<and> cs_entries c = []"
proof -
  obtain cfs' where a: "cfheaderstore_append (False, 68) (True, 0) (Some empty_store) 700 (Some 5) (Some 6) = (True, Some cfs')"
    "cs_count cfs' = 1"
    using append_ok [OF empty_store_ok, of 700 "(False, 68)" "(True, 0)" 5 6]
    by (auto simp: int32_def refused_def empty_store_def CFHS_RECORD_SIZE_def)
  show ?thesis
    using interrupted_append_reloads [OF empty_store_ok _ _ a(1), of "(True, 0)"] a
    by (auto simp: int32_def) (auto simp: empty_store_def)
qed

end
