(* ===== verification/Peerstats.thy ===== *)
theory Peerstats
  imports CfheaderStore Hashtable
begin

text \<open>
  The history of the peers of \<^verbatim>\<open>src/core/peerstats.c\<close>, by address: its file, what is recorded in it, and the
  choice of the peers that served filters best.

  The functions that read and write 32-bit integers are the same as those of the filter header store. An
  entry of the table is changed in place where the code writes through a pointer to it. Scores are
  integers; more than \<open>2 ^ 31 - 1000\<close> failures of one peer would leave the range of a C integer.
\<close>


section \<open>Records\<close>

definition PSTAT_MAGIC :: "byte list" where "PSTAT_MAGIC = [0x42, 0x50, 0x53, 0x54]"
definition PSTAT_VERSION_1 :: byte where "PSTAT_VERSION_1 = 1"
definition PSTAT_VERSION_2 :: byte where "PSTAT_VERSION_2 = 2"
definition PSTAT_HEADER_SIZE :: nat where "PSTAT_HEADER_SIZE = 9"
definition PSTAT_RECORD_SIZE_1 :: nat where "PSTAT_RECORD_SIZE_1 = 36"
definition PSTAT_RECORD_SIZE_2 :: nat where "PSTAT_RECORD_SIZE_2 = 40"

lemmas pstat_defs = PSTAT_MAGIC_def PSTAT_VERSION_1_def PSTAT_VERSION_2_def PSTAT_HEADER_SIZE_def
  PSTAT_RECORD_SIZE_1_def PSTAT_RECORD_SIZE_2_def

record peerstats_entry =
  pe_ip :: "byte list"
  pe_services :: u64
  pe_latencyUsec :: u32
  pe_cfilterOk :: u32
  pe_cfilterFail :: u32
  pe_avgChunkUsec :: u32

record peerstats =
  ps_file :: "byte list"
  ps_hash :: "peerstats_entry hashtable"
  ps_dirty :: bool

definition write_le64 :: "u64 \<Rightarrow> byte list" where
  "write_le64 val = map (\<lambda>i. ucast (drop_bit (8 * i) val)) [0..<8]"

definition read_le64 :: "byte list \<Rightarrow> u64" where
  "read_le64 buf = fold (\<lambda>i val. val OR push_bit (8 * i) (ucast (buf ! i))) [0..<8] 0"

section \<open>Loading\<close>

definition read_entry :: "nat \<Rightarrow> byte list \<Rightarrow> peerstats_entry" where
  "read_entry recSize rec = \<lparr>pe_ip = take 16 rec, pe_services = read_le64 (drop 16 rec),
     pe_latencyUsec = read_le32 (drop 24 rec), pe_cfilterOk = read_le32 (drop 28 rec),
     pe_cfilterFail = read_le32 (drop 32 rec),
     pe_avgChunkUsec = (if recSize = PSTAT_RECORD_SIZE_2 then read_le32 (drop 36 rec) else 0)\<rparr>"

text \<open>The loop over the records of the file: \<open>n\<close> are left according to the header. Of two records with
  the same address the first is kept.\<close>

fun load_records :: "nat \<Rightarrow> nat \<Rightarrow> byte list \<Rightarrow> peerstats_entry hashtable \<Rightarrow> peerstats_entry hashtable option" where
  "load_records recSize 0 bytes ht = Some ht"
| "load_records recSize (Suc n) bytes ht =
     (if length bytes < recSize then Some ht
      else do {
        let e = read_entry recSize (take recSize bytes);
        (_, ht) \<leftarrow> hashtable_insert ht (pe_ip e) e;
        load_records recSize n (drop recSize bytes) ht
      })"

text \<open>\<open>file\<close> is the content after \<open>open\<close>, which creates the file if needed, or nothing if that
  fails.\<close>

definition peerstats_init :: "byte list option \<Rightarrow> (bool \<times> peerstats option) option" where
  "peerstats_init file = do {
     ht \<leftarrow> hashtable_create;
     case file of None \<Rightarrow> do { _ \<leftarrow> hashtable_destroy ht; Some (True, None) }
     | Some file \<Rightarrow> do {
         let hdr = take PSTAT_HEADER_SIZE file;
         ht \<leftarrow> (if length hdr = PSTAT_HEADER_SIZE \<and> take 4 hdr = PSTAT_MAGIC \<and>
                  hdr ! 4 \<in> {PSTAT_VERSION_1, PSTAT_VERSION_2}
                then let recSize = (if hdr ! 4 = PSTAT_VERSION_2 then PSTAT_RECORD_SIZE_2 else PSTAT_RECORD_SIZE_1)
                  in load_records recSize (unat (read_le32 (drop 5 hdr))) (drop PSTAT_HEADER_SIZE file) ht
                else Some ht);
         Some (False, Some \<lparr>ps_file = file, ps_hash = ht, ps_dirty = False\<rparr>)
       }
   }"

section \<open>Saving\<close>

text \<open>The context of the callback: the buffer and the index of the next record in it.\<close>

definition peerstats_flush_cb ::
  "byte list \<Rightarrow> peerstats_entry \<Rightarrow> byte list \<times> nat \<Rightarrow> (byte list \<times> nat) option" where
  "peerstats_flush_cb key e ctx = (case ctx of (buf, idx) \<Rightarrow> do {
     m \<leftarrow> mem_write (Some buf) (PSTAT_HEADER_SIZE + idx * PSTAT_RECORD_SIZE_2)
       (take 16 (pe_ip e) @ write_le64 (pe_services e) @ write_le32 (pe_latencyUsec e) @
        write_le32 (pe_cfilterOk e) @ write_le32 (pe_cfilterFail e) @ write_le32 (pe_avgChunkUsec e));
     buf \<leftarrow> m;
     Some (buf, idx + 1)
   })"

text \<open>\<open>wr\<close> is the outcome of \<open>lseek\<close> and \<open>write\<close>; the file is cut to the written size when everything was
  written, unless \<open>ftruncate\<close> fails (\<open>trunc\<close>).\<close>

definition peerstats_flush :: "write_result \<Rightarrow> bool \<Rightarrow> peerstats option \<Rightarrow> peerstats option option" where
  "peerstats_flush wr trunc ps = (case ps of None \<Rightarrow> Some None
     | Some ps \<Rightarrow>
       if \<not> ps_dirty ps then Some (Some ps)
       else do {
         let count = hashtable_getnumentries (ps_hash ps);
         let total = PSTAT_HEADER_SIZE + unat count * PSTAT_RECORD_SIZE_2;
         let buf = replicate total 0;
         m \<leftarrow> mem_write (Some buf) 0 (PSTAT_MAGIC @ [PSTAT_VERSION_2] @ write_le32 count);
         buf \<leftarrow> m;
         (buf, idx) \<leftarrow> hashtable_for_each (ps_hash ps) peerstats_flush_cb (buf, 0);
         if fst wr then Some (Some ps)
         else do {
           let n = min (snd wr) total;
           let ps = ps\<lparr>ps_file := file_store (ps_file ps) 0 (take n buf)\<rparr>;
           if n \<noteq> total then Some (Some ps)
           else Some (Some (ps\<lparr>ps_file := (if trunc then ps_file ps else take total (ps_file ps)), ps_dirty := False\<rparr>))
         }
       })"

section \<open>Recording\<close>

text \<open>Writing through the pointer to an entry of the table.\<close>

definition set_entry :: "peerstats_entry \<Rightarrow> peerstats \<Rightarrow> peerstats" where
  "set_entry e ps = ps\<lparr>ps_hash := (ps_hash ps)\<lparr>ht_buckets :=
     map (map (\<lambda>he. if he_key he = pe_ip e then he\<lparr>he_clientData := e\<rparr> else he)) (ht_buckets (ps_hash ps))\<rparr>\<rparr>"

definition peerstats_get_or_create :: "peerstats \<Rightarrow> byte list \<Rightarrow> (peerstats_entry \<times> peerstats) option" where
  "peerstats_get_or_create ps ip = do {
     r \<leftarrow> hashtable_lookup (ps_hash ps) ip;
     case r of Some e \<Rightarrow> Some (e, ps)
     | None \<Rightarrow> do {
         let e = \<lparr>pe_ip = ip, pe_services = 0, pe_latencyUsec = 0, pe_cfilterOk = 0, pe_cfilterFail = 0, pe_avgChunkUsec = 0\<rparr>;
         (_, ht) \<leftarrow> hashtable_insert (ps_hash ps) ip e;
         Some (e, ps\<lparr>ps_hash := ht\<rparr>)
       }
   }"

definition peerstats_record_handshake :: "byte list \<Rightarrow> u32 \<Rightarrow> u64 \<Rightarrow> peerstats option \<Rightarrow> peerstats option option" where
  "peerstats_record_handshake ip latencyUsec services ps = (case ps of None \<Rightarrow> Some None
     | Some ps \<Rightarrow> do {
         (e, ps) \<leftarrow> peerstats_get_or_create ps ip;
         Some (Some ((set_entry (e\<lparr>pe_latencyUsec := latencyUsec, pe_services := services\<rparr>) ps)\<lparr>ps_dirty := True\<rparr>))
       })"

definition peerstats_record_cfilter_ok :: "byte list \<Rightarrow> u32 \<Rightarrow> peerstats option \<Rightarrow> peerstats option option" where
  "peerstats_record_cfilter_ok ip chunkUsec ps = (case ps of None \<Rightarrow> Some None
     | Some ps \<Rightarrow> do {
         (e, ps) \<leftarrow> peerstats_get_or_create ps ip;
         let e = e\<lparr>pe_cfilterOk := pe_cfilterOk e + 1\<rparr>;
         let e = (if 0 < chunkUsec
           then e\<lparr>pe_avgChunkUsec := (if pe_avgChunkUsec e = 0 then chunkUsec
                   else ucast ((ucast (pe_avgChunkUsec e) * 3 + ucast chunkUsec :: u64) div 4))\<rparr>
           else e);
         Some (Some ((set_entry e ps)\<lparr>ps_dirty := True\<rparr>))
       })"

definition peerstats_record_cfilter_fail :: "byte list \<Rightarrow> peerstats option \<Rightarrow> peerstats option option" where
  "peerstats_record_cfilter_fail ip ps = (case ps of None \<Rightarrow> Some None
     | Some ps \<Rightarrow> do {
         (e, ps) \<leftarrow> peerstats_get_or_create ps ip;
         Some (Some ((set_entry (e\<lparr>pe_cfilterFail := pe_cfilterFail e + 1\<rparr>) ps)\<lparr>ps_dirty := True\<rparr>))
       })"

definition peerstats_lookup :: "peerstats option \<Rightarrow> byte list \<Rightarrow> peerstats_entry option option" where
  "peerstats_lookup ps ip = (case ps of None \<Rightarrow> Some None | Some ps \<Rightarrow> hashtable_lookup (ps_hash ps) ip)"

section \<open>Choosing\<close>

definition peerstats_score :: "peerstats_entry \<Rightarrow> int" where
  "peerstats_score e =
     (if 0 < pe_cfilterFail e then -1000 - sint (pe_cfilterFail e)
      else if pe_cfilterOk e = 0 then 0
      else if pe_avgChunkUsec e = 0 then 1
      else 100000 - sint (pe_avgChunkUsec e div 1000) + sint (min (pe_cfilterOk e) 50))"

text \<open>The loop that shifts the entries with a lower score down; the result is the index that
  becomes free.\<close>

primrec shift_down :: "int \<Rightarrow> nat \<Rightarrow> peerstats_entry list \<Rightarrow> nat \<times> peerstats_entry list" where
  "shift_down score 0 out = (0, out)"
| "shift_down score (Suc i) out =
     (if peerstats_score (out ! i) < score then shift_down score i (out[Suc i := out ! i]) else (Suc i, out))"

text \<open>The first \<open>count\<close> entries of the array are the list \<open>out\<close>; the entry that is added at the end, before
  the others are shifted, has no defined value in the code and is overwritten.\<close>

definition peerstats_best_cb ::
  "nat \<Rightarrow> byte list \<Rightarrow> peerstats_entry \<Rightarrow> peerstats_entry list \<Rightarrow> peerstats_entry list option" where
  "peerstats_best_cb maxOut key e out =
     (let score = peerstats_score e in
      if score \<le> 0 then Some out
      else if length out < maxOut then
        (let (i, out) = shift_down score (length out) (out @ [e]) in Some (out[i := e]))
      else if peerstats_score (out ! (maxOut - 1)) < score then
        (let (i, out) = shift_down score (maxOut - 1) out in Some (out[i := e]))
      else Some out)"

definition peerstats_get_best :: "peerstats option \<Rightarrow> int \<Rightarrow> peerstats_entry list option" where
  "peerstats_get_best ps maxOut = (case ps of None \<Rightarrow> Some []
     | Some ps \<Rightarrow> if maxOut \<le> 0 then Some []
         else hashtable_for_each (ps_hash ps) (peerstats_best_cb (nat maxOut)) [])"

section \<open>The best peers\<close>

definition ps_entries :: "peerstats \<Rightarrow> peerstats_entry list" where
  "ps_entries ps = map he_clientData (ht_entries (ps_hash ps))"

primrec ins_best :: "peerstats_entry \<Rightarrow> peerstats_entry list \<Rightarrow> peerstats_entry list" where
  "ins_best e [] = [e]"
| "ins_best e (x # xs) = (if peerstats_score x < peerstats_score e then e # x # xs else x # ins_best e xs)"

abbreviation descending :: "peerstats_entry list \<Rightarrow> bool" where
  "descending xs \<equiv> sorted_wrt (\<lambda>x y. peerstats_score y \<le> peerstats_score x) xs"

lemma mset_ins_best [simp]: "mset (ins_best e xs) = add_mset e (mset xs)"
  by (induction xs) auto

lemma set_ins_best [simp]: "set (ins_best e xs) = insert e (set xs)"
  by (induction xs) auto

lemma length_ins_best [simp]: "length (ins_best e xs) = Suc (length xs)"
  by (induction xs) auto

lemma descending_ins_best: "descending xs \<Longrightarrow> descending (ins_best e xs)"
  by (induction xs) auto

lemma ins_best_snoc_less: "peerstats_score x < peerstats_score e \<Longrightarrow> ins_best e (xs @ [x]) = ins_best e xs @ [x]"
  by (induction xs) auto

lemma ins_best_last: "\<forall>x \<in> set xs. \<not> peerstats_score x < peerstats_score e \<Longrightarrow> ins_best e xs = xs @ [e]"
  by (induction xs) auto

lemma take_ins_best: "take k (ins_best e (take k xs)) = take k (ins_best e xs)"
proof (induction xs arbitrary: k)
  case (Cons x xs)
  show ?case
  proof (cases k)
    case (Suc j)
    have "take j (x # take j xs) = take j (x # xs)" by (cases j) (simp_all add: min_def)
    then show ?thesis using Cons.IH [of j] Suc by simp
  qed simp
qed simp

lemma shift_down_ok:
  assumes "descending (take i out)" and "i < length out"
  shows "(let (j, o') = shift_down (peerstats_score e) i out in o'[j := e]) = ins_best e (take i out) @ drop (Suc i) out"
  using assms
proof (induction i arbitrary: out)
  case 0
  then show ?case by (cases out) simp_all
next
  case (Suc i)
  let ?x = "out ! i"
  have t: "take (Suc i) out = take i out @ [?x]" using Suc.prems by (simp add: take_Suc_conv_app_nth)
  show ?case
  proof (cases "peerstats_score ?x < peerstats_score e")
    case True
    have "(let (j, o') = shift_down (peerstats_score e) i (out[Suc i := ?x]) in o'[j := e]) =
        ins_best e (take i out) @ drop (Suc i) (out[Suc i := ?x])"
      using Suc.IH [of "out[Suc i := ?x]"] Suc.prems t by (simp add: sorted_wrt_append)
    moreover have "drop (Suc i) (out[Suc i := ?x]) = ?x # drop (Suc (Suc i)) out"
      using Suc.prems(2) by (metis Cons_nth_drop_Suc drop_update_cancel length_list_update lessI nth_list_update_eq)
    ultimately show ?thesis using True t by (simp add: ins_best_snoc_less)
  next
    case False
    have "ins_best e (take (Suc i) out) = take (Suc i) out @ [e]"
      using Suc.prems(1) False unfolding t by (intro ins_best_last) (auto simp: sorted_wrt_append)
    moreover have "out[Suc i := e] = take (Suc i) out @ e # drop (Suc (Suc i)) out"
      using Suc.prems(2) by (simp add: upd_conv_take_nth_drop)
    ultimately show ?thesis using False by simp
  qed
qed

lemma best_cb_ok:
  assumes "descending out" and "length out \<le> k" and "0 < k"
  shows "peerstats_best_cb k key e out = Some (if 0 < peerstats_score e then take k (ins_best e out) else out)"
proof -
  have new: "(let (j, o') = shift_down (peerstats_score e) (length out) (out @ [e]) in o'[j := e]) = ins_best e out"
    using shift_down_ok [of "length out" "out @ [e]" e] assms(1) by simp
  have full: "(let (j, o') = shift_down (peerstats_score e) (k - 1) out in o'[j := e]) = take k (ins_best e out) \<or>
      \<not> peerstats_score (out ! (k - 1)) < peerstats_score e" 
    if "length out = k"
  proof (cases out rule: rev_cases)
    case (snoc xs x)
    then have k: "k - 1 = length xs" "k = Suc (length xs)" using that by simp_all
    show ?thesis
      using shift_down_ok [of "k - 1" out e] assms(1) k snoc
      by (auto simp: sorted_wrt_append ins_best_snoc_less nth_append)
  qed (use that assms in simp)
  have rest: "take k (ins_best e out) = out" if "length out = k" "\<not> peerstats_score (out ! (k - 1)) < peerstats_score e"
  proof -
    have "out \<noteq> []" "out ! (k - 1) = last out" using that(1) assms(3) by (auto simp: last_conv_nth)
    moreover have "x \<in> set out \<Longrightarrow> peerstats_score (last out) \<le> peerstats_score x" for x
      using assms(1) \<open>out \<noteq> []\<close> by (cases out rule: rev_cases) (auto simp: sorted_wrt_append)
    ultimately have "ins_best e out = out @ [e]" using that(2) by (intro ins_best_last) force
    then show ?thesis using that(1) by simp
  qed
  show ?thesis
    using assms new full rest
    by (cases "length out < k") (auto simp: peerstats_best_cb_def Let_def case_prod_unfold)
qed

lemma best_loop:
  assumes "0 < k" and "descending xs"
  shows "for_each_entry (peerstats_best_cb k) es (take k xs) =
      Some (take k (fold (\<lambda>e out. if 0 < peerstats_score e then ins_best e out else out) (map he_clientData es) xs))"
  using assms(2)
proof (induction es arbitrary: xs)
  case (Cons e es)
  let ?e = "he_clientData e"
  let ?ys = "if 0 < peerstats_score ?e then ins_best ?e xs else xs"
  have "peerstats_best_cb k (he_key e) ?e (take k xs) = Some (take k ?ys)"
    using best_cb_ok [of "take k xs" k "he_key e" ?e] Cons.prems assms(1) by (simp add: sorted_wrt_take take_ins_best)
  moreover have "descending ?ys" using Cons.prems by (simp add: descending_ins_best)
  ultimately show ?case using Cons.IH [of ?ys] by simp
qed simp

lemma fold_ins_best:
  "mset (fold (\<lambda>e out. if 0 < peerstats_score e then ins_best e out else out) es xs) =
     mset (filter (\<lambda>e. 0 < peerstats_score e) es) + mset xs \<and>
   (descending xs \<longrightarrow> descending (fold (\<lambda>e out. if 0 < peerstats_score e then ins_best e out else out) es xs))"
  by (induction es arbitrary: xs) (auto simp: descending_ins_best)

lemma descending_unique:
  assumes "descending xs" and "mset (map peerstats_score xs) = mset ss"
  shows "map peerstats_score xs = rev (sort ss)"
proof -
  have "sorted (rev (map peerstats_score xs))" using assms(1) by (simp add: sorted_wrt_rev sorted_wrt_map)
  then have "sort ss = rev (map peerstats_score xs)" using assms(2) by (metis mset_rev properties_for_sort)
  then show ?thesis by simp
qed

text \<open>C24: the peers chosen are known ones, their scores are the highest positive scores of the known
  peers, from the best one down, and no more than the caller has room for.\<close>

theorem best_is_top:
  "\<exists>out. peerstats_get_best (Some ps) maxOut = Some out \<and> mset out \<subseteq># mset (ps_entries ps) \<and>
     map peerstats_score out =
       take (nat maxOut) (rev (sort (filter (\<lambda>s. 0 < s) (map peerstats_score (ps_entries ps)))))"
proof (cases "maxOut \<le> 0")
  case False
  define all where "all = fold (\<lambda>e out. if 0 < peerstats_score e then ins_best e out else out) (ps_entries ps) []"
  have all: "mset all = mset (filter (\<lambda>e. 0 < peerstats_score e) (ps_entries ps))" "descending all"
    using fold_ins_best [of "ps_entries ps" "[]"] by (simp_all add: all_def)
  have "mset (map peerstats_score all) = mset (filter (\<lambda>s. 0 < s) (map peerstats_score (ps_entries ps)))"
    using all(1) by (simp add: filter_map o_def)
  then have scores: "map peerstats_score all = rev (sort (filter (\<lambda>s. 0 < s) (map peerstats_score (ps_entries ps))))"
    by (rule descending_unique [OF all(2)])
  have "mset (take (nat maxOut) all) \<subseteq># mset all"
    by (metis append_take_drop_id mset_append mset_subset_eq_add_left)
  also have "\<dots> \<subseteq># mset (ps_entries ps)" unfolding all(1) by (simp add: multiset_filter_subset)
  finally have sub: "mset (take (nat maxOut) all) \<subseteq># mset (ps_entries ps)" .
  have "peerstats_get_best (Some ps) maxOut = Some (take (nat maxOut) all)"
    using best_loop [of "nat maxOut" "[]" "ht_entries (ps_hash ps)"] False
    by (simp add: peerstats_get_best_def hashtable_for_each_def all_def ps_entries_def ht_entries_def)
  then show ?thesis using sub scores by (auto simp flip: take_map)
qed (simp add: peerstats_get_best_def)

section \<open>The file\<close>

definition entry_image :: "peerstats_entry \<Rightarrow> byte list" where
  "entry_image e = pe_ip e @ write_le64 (pe_services e) @ write_le32 (pe_latencyUsec e) @
     write_le32 (pe_cfilterOk e) @ write_le32 (pe_cfilterFail e) @ write_le32 (pe_avgChunkUsec e)"

text \<open>The table is filed under the addresses of its entries.\<close>

definition by_ip :: "peerstats_entry hashtable_entry list \<Rightarrow> bool" where
  "by_ip es \<longleftrightarrow> list_all (\<lambda>e. he_key e = pe_ip (he_clientData e) \<and> length (pe_ip (he_clientData e)) = 16) es"

definition ps_ok :: "peerstats \<Rightarrow> bool" where
  "ps_ok ps \<longleftrightarrow> ht_wf (ps_hash ps) \<and> by_ip (ht_entries (ps_hash ps)) \<and> length (ht_entries (ps_hash ps)) < 2 ^ 32"

lemma write_le64_eq: "write_le64 v = le_bytes v"
  by (simp add: write_le64_def le_bytes_def)

lemma length_write_le64 [simp]: "length (write_le64 v) = 8"
  by (simp add: write_le64_def)

lemma read_le64_Cons: "read_le64 (a # b # c # d # e # f # g # h # bs) = le_word [a, b, c, d, e, f, g, h]"
  by (simp add: read_le64_def upt_rec push_bit_or ac_simps)

lemma read_write_le64 [simp]: "read_le64 (write_le64 v @ bs) = v"
proof -
  have "read_le64 (write_le64 v @ bs) = le_word (write_le64 v)"
    by (simp add: write_le64_def upt_rec read_le64_Cons del: le_word.simps)
  then show ?thesis by (simp add: write_le64_eq)
qed

lemma length_entry_image: "length (pe_ip e) = 16 \<Longrightarrow> length (entry_image e) = 40"
  by (simp add: entry_image_def)

lemma read_entry_image: "length (pe_ip e) = 16 \<Longrightarrow> read_entry PSTAT_RECORD_SIZE_2 (entry_image e) = e"
  using read_write_le32 [of "pe_avgChunkUsec e" "[]"]
  by (cases e) (simp add: read_entry_def entry_image_def)

lemma flush_loop:
  assumes "by_ip es" and "length pre = 9 + idx * 40" and "length es * 40 = length post"
  shows "for_each_entry peerstats_flush_cb es (pre @ post, idx) =
     Some (pre @ concat (map (\<lambda>e. entry_image (he_clientData e)) es), idx + length es)"
  using assms
proof (induction es arbitrary: pre post idx)
  case (Cons e es)
  let ?x = "entry_image (he_clientData e)"
  have l: "length (pe_ip (he_clientData e)) = 16" "length ?x = 40"
    using Cons.prems(1) by (simp_all add: by_ip_def length_entry_image)
  have "for_each_entry peerstats_flush_cb es ((pre @ ?x) @ drop 40 post, idx + 1) =
      Some ((pre @ ?x) @ concat (map (\<lambda>e. entry_image (he_clientData e)) es), (idx + 1) + length es)"
    using Cons.prems l by (intro Cons.IH) (auto simp: by_ip_def)
  moreover have "peerstats_flush_cb (he_key e) (he_clientData e) (pre @ post, idx) = Some (pre @ ?x @ drop 40 post, idx + 1)"
    using Cons.prems l
    by (simp add: peerstats_flush_cb_def mem_write_def pstat_defs entry_image_def)
  ultimately show ?case by simp
qed simp

lemma load_loop:
  assumes "by_ip es" and "ht_wf ht"
  shows "\<exists>ht'. load_records PSTAT_RECORD_SIZE_2 (length es) (concat (map (\<lambda>e. entry_image (he_clientData e)) es) @ rest) ht = Some ht' \<and>
    ht_wf ht' \<and> ht_map ht' = (\<lambda>k. case ht_map ht k of Some v \<Rightarrow> Some v | None \<Rightarrow> map_option he_clientData (find (\<lambda>e. he_key e = k) es))"
  using assms
proof (induction es arbitrary: ht)
  case Nil
  then show ?case by (auto simp: fun_eq_iff split: option.splits)
next
  case (Cons e es)
  let ?d = "he_clientData e"
  have l: "length (pe_ip ?d) = 16" "he_key e = pe_ip ?d" "by_ip es" using Cons.prems(1) by (simp_all add: by_ip_def)
  have l40: "length (entry_image ?d) = 40" using l by (simp add: length_entry_image)
  obtain t where t: "hashtable_insert ht (pe_ip ?d) ?d = Some (ht_map ht (pe_ip ?d) = None, t)" "ht_wf t"
    "ht_map t = (if ht_map ht (pe_ip ?d) = None then (ht_map ht)(pe_ip ?d \<mapsto> ?d) else ht_map ht)"
    using insert_ok [OF Cons.prems(2), of "pe_ip ?d" ?d] by blast
  have r: "read_entry PSTAT_RECORD_SIZE_2 (entry_image ?d) = ?d" using l by (simp add: read_entry_image)
  have "load_records PSTAT_RECORD_SIZE_2 (length (e # es)) (concat (map (\<lambda>e. entry_image (he_clientData e)) (e # es)) @ rest) ht =
      load_records PSTAT_RECORD_SIZE_2 (length es) (concat (map (\<lambda>e. entry_image (he_clientData e)) es) @ rest) t"
    using l40 r t(1) by (simp add: PSTAT_RECORD_SIZE_2_def)
  moreover have "(case (if ht_map ht (pe_ip ?d) = None then (ht_map ht)(pe_ip ?d \<mapsto> ?d) else ht_map ht) k of Some v \<Rightarrow> Some v
        | None \<Rightarrow> map_option he_clientData (find (\<lambda>e. he_key e = k) es)) =
      (case ht_map ht k of Some v \<Rightarrow> Some v | None \<Rightarrow> map_option he_clientData (find (\<lambda>e. he_key e = k) (e # es)))" for k
    using l(2) by (auto split: option.splits)
  ultimately show ?case using Cons.IH [OF l(3) t(2)] unfolding t(3) by simp
qed

text \<open>C25: what is saved is loaded again: after a complete write the table read from the file has the
  same entry for every address, also when the rest of an older, longer file could not be cut off.\<close>

theorem flushed_stats_reload:
  assumes "ps_ok ps" and "ps_dirty ps"
    and "\<not> fst wr" and "9 + 40 * length (ps_entries ps) \<le> snd wr"
  shows "\<exists>ps' ps''. peerstats_flush wr trunc (Some ps) = Some (Some ps') \<and> \<not> ps_dirty ps' \<and>
    peerstats_init (Some (ps_file ps')) = Some (False, Some ps'') \<and>
    (\<forall>ip. peerstats_lookup (Some ps'') ip = peerstats_lookup (Some ps) ip)"
proof -
  define es where "es = ht_entries (ps_hash ps)"
  define hdr where "hdr = PSTAT_MAGIC @ [PSTAT_VERSION_2] @ write_le32 (of_nat (length es))"
  define recs where "recs = concat (map (\<lambda>e. entry_image (he_clientData e)) es)"
  have ok: "ht_wf (ps_hash ps)" "by_ip es" "length es < 2 ^ 32" using assms(1) by (simp_all add: ps_ok_def es_def)
  have cnt: "hashtable_getnumentries (ps_hash ps) = of_nat (length es)" "unat (of_nat (length es) :: u32) = length es"
    using ok by (simp_all add: hashtable_getnumentries_def ht_wf_def es_def unat_of_nat_small)
  have lh: "length hdr = 9" by (simp add: hdr_def PSTAT_MAGIC_def)
  have lr: "length recs = 40 * length es"
    using ok(2) unfolding recs_def by (induction es) (simp_all add: by_ip_def length_entry_image)
  have total: "PSTAT_HEADER_SIZE + unat (hashtable_getnumentries (ps_hash ps)) * PSTAT_RECORD_SIZE_2 = length (hdr @ recs)"
    by (simp add: cnt lh lr pstat_defs)
  have first: "mem_write (Some (replicate (length (hdr @ recs)) 0)) 0 hdr = Some (Some (hdr @ replicate (length recs) 0))"
    by (simp add: mem_write_def lh)
  have loop: "hashtable_for_each (ps_hash ps) peerstats_flush_cb (hdr @ replicate (length recs) 0, 0) = Some (hdr @ recs, length es)"
    using flush_loop [OF ok(2), of hdr 0 "replicate (length recs) 0"] lh lr
    by (simp add: hashtable_for_each_def es_def recs_def ht_entries_def)
  have full: "min (snd wr) (length (hdr @ recs)) = length (hdr @ recs)"
    using assms(4) lh lr by (simp add: ps_entries_def es_def)
  define f where "f = file_store (ps_file ps) 0 (hdr @ recs)"
  define ps' where "ps' = ps\<lparr>ps_file := (if trunc then f else take (length (hdr @ recs)) f), ps_dirty := False\<rparr>"
  have fl: "peerstats_flush wr trunc (Some ps) = Some (Some ps')"
    using assms(2,3) full first [unfolded hdr_def] loop [unfolded hdr_def] total
    by (simp add: peerstats_flush_def Let_def total cnt(1) hdr_def ps'_def f_def)
  obtain rest where rest: "ps_file ps' = hdr @ recs @ rest"
    by (cases trunc) (auto simp: ps'_def f_def file_store_def)
  obtain t :: "peerstats_entry hashtable" where t: "hashtable_create = Some t" "ht_wf t" "ht_map t = Map.empty" using create_ok by blast
  obtain t' where t': "load_records PSTAT_RECORD_SIZE_2 (length es) (recs @ rest) t = Some t'" "ht_wf t'"
    "ht_map t' = (\<lambda>k. map_option he_clientData (find (\<lambda>e. he_key e = k) es))"
    using load_loop [OF ok(2) t(2), of rest] t(3) by (auto simp: recs_def)
  have hd: "take 9 (ps_file ps') = hdr" "drop 9 (ps_file ps') = recs @ rest" using lh by (simp_all add: rest)
  have hf: "take 4 hdr = PSTAT_MAGIC" "hdr ! 4 = PSTAT_VERSION_2" "read_le32 (drop 5 hdr) = of_nat (length es)"
    using read_write_le32 [of "of_nat (length es)" "[]"] by (simp_all add: hdr_def PSTAT_MAGIC_def nth_append del: read_write_le32)
  have "peerstats_init (Some (ps_file ps')) = Some (False, Some \<lparr>ps_file = ps_file ps', ps_hash = t', ps_dirty = False\<rparr>)"
    using t'(1) hd hf lh cnt(2) by (simp add: peerstats_init_def PSTAT_HEADER_SIZE_def t(1))
  moreover have "hashtable_lookup t' ip = hashtable_lookup (ps_hash ps) ip" for ip
    using lookup_eq [OF t'(2)] lookup_eq [OF ok(1)] t'(3) by (simp add: ht_map_def es_def)
  ultimately show ?thesis using fl by (auto simp: ps'_def peerstats_lookup_def)
qed

section \<open>Recording\<close>

definition blank :: "byte list \<Rightarrow> peerstats_entry" where
  "blank ip = \<lparr>pe_ip = ip, pe_services = 0, pe_latencyUsec = 0, pe_cfilterOk = 0, pe_cfilterFail = 0, pe_avgChunkUsec = 0\<rparr>"

definition known :: "peerstats \<Rightarrow> byte list \<Rightarrow> peerstats_entry" where
  "known ps ip = (case ht_map (ps_hash ps) ip of Some e \<Rightarrow> e | None \<Rightarrow> blank ip)"

definition ps_wf :: "peerstats \<Rightarrow> bool" where
  "ps_wf ps \<longleftrightarrow> ht_wf (ps_hash ps) \<and> by_ip (ht_entries (ps_hash ps))"

lemma by_ip_map:
  assumes "ht_wf ht"
  shows "by_ip (ht_entries ht) \<longleftrightarrow> (\<forall>k v. ht_map ht k = Some v \<longrightarrow> k = pe_ip v \<and> length k = 16)"
proof -
  have d: "distinct (map he_key (ht_entries ht))" using assms by (simp add: ht_wf_def)
  have m: "ht_map ht k = Some v \<longleftrightarrow> (\<exists>e \<in> set (ht_entries ht). he_key e = k \<and> he_clientData e = v)" for k v
    using find_distinct [OF d, of k] by (auto simp: ht_map_def)
  have "(\<forall>k v. ht_map ht k = Some v \<longrightarrow> k = pe_ip v \<and> length k = 16) \<longleftrightarrow>
      (\<forall>e \<in> set (ht_entries ht). he_key e = pe_ip (he_clientData e) \<and> length (he_key e) = 16)" by (auto simp: m)
  also have "\<dots> \<longleftrightarrow> by_ip (ht_entries ht)" by (auto simp: by_ip_def list_all_iff)
  finally show ?thesis by simp
qed

lemma get_or_create_ok:
  assumes "ps_wf ps" and "length ip = 16"
  shows "\<exists>ps'. peerstats_get_or_create ps ip = Some (known ps ip, ps') \<and> ps_wf ps' \<and>
    ht_map (ps_hash ps') = (ht_map (ps_hash ps))(ip \<mapsto> known ps ip) \<and> pe_ip (known ps ip) = ip"
proof (cases "ht_map (ps_hash ps) ip")
  case (Some e)
  then have "pe_ip e = ip" using assms by_ip_map [of "ps_hash ps"] by (auto simp: ps_wf_def)
  then show ?thesis
    using assms Some lookup_eq [of "ps_hash ps" ip]
    by (auto simp: peerstats_get_or_create_def known_def ps_wf_def fun_upd_idem)
next
  case None
  then obtain t where t: "hashtable_insert (ps_hash ps) ip (blank ip) = Some (True, t)" "ht_wf t"
    "ht_map t = (ht_map (ps_hash ps))(ip \<mapsto> blank ip)"
    using insert_ok [of "ps_hash ps" ip "blank ip"] assms(1) by (auto simp: ps_wf_def)
  have "by_ip (ht_entries t)"
    using assms by_ip_map [OF t(2)] by_ip_map [of "ps_hash ps"] by (auto simp: t(3) ps_wf_def blank_def split: if_splits)
  then show ?thesis
    using assms None t lookup_eq [of "ps_hash ps" ip]
    by (auto simp: peerstats_get_or_create_def known_def ps_wf_def blank_def)
qed

lemma find_set_entry:
  "map_option he_clientData (find (\<lambda>he. he_key he = k) (map (\<lambda>he. if he_key he = pe_ip e then he\<lparr>he_clientData := e\<rparr> else he) es)) =
     (if k = pe_ip e \<and> find (\<lambda>he. he_key he = k) es \<noteq> None then Some e else map_option he_clientData (find (\<lambda>he. he_key he = k) es))"
  by (induction es) auto

lemma set_entry_ok:
  assumes "ps_wf ps" and "ht_map (ps_hash ps) (pe_ip e) \<noteq> None"
  shows "ps_wf (set_entry e ps) \<and> ht_map (ps_hash (set_entry e ps)) = (ht_map (ps_hash ps))(pe_ip e \<mapsto> e)"
proof -
  let ?f = "\<lambda>he. if he_key he = pe_ip e then he\<lparr>he_clientData := e\<rparr> else he"
  let ?h = "ps_hash ps" and ?h' = "ps_hash (set_entry e ps)"
  have w: "ht_wf ?h" "by_ip (ht_entries ?h)" using assms(1) by (simp_all add: ps_wf_def)
  have es: "ht_entries ?h' = map ?f (ht_entries ?h)" by (simp add: set_entry_def ht_entries_def map_concat)
  have key: "he_key (?f he) = he_key he" for he by simp
  have keys: "map he_key (map ?f xs) = map he_key xs" for xs by (simp add: o_def key del: key)
  have "placed (ht_numBuckets ?h) (ht_numBits ?h) (map (map ?f) (ht_buckets ?h))"
    unfolding placed_def
  proof (intro conjI allI impI ballI)
    show "length (map (map ?f) (ht_buckets ?h)) = unat (ht_numBuckets ?h)" using w(1) by (simp add: ht_wf_def placed_def)
    fix i he assume i: "i < length (map (map ?f) (ht_buckets ?h))" and "he \<in> set (map (map ?f) (ht_buckets ?h) ! i)"
    then obtain x where x: "x \<in> set (ht_buckets ?h ! i)" "he = ?f x" by auto
    then have "he_key he = he_key x" using key by simp
    then show "hashtable_compute_hash (ht_numBuckets ?h) (ht_numBits ?h) (he_key he) = Some (of_nat i)"
      using w(1) x(1) i by (simp add: ht_wf_def placed_def)
  qed
  then have wf: "ht_wf ?h'"
    using w(1) unfolding ht_wf_def es keys by (simp add: set_entry_def)
  have m: "ht_map ?h' = (ht_map ?h)(pe_ip e \<mapsto> e)"
    using assms(2) unfolding ht_map_def es find_set_entry by (auto simp: fun_eq_iff)
  have "length (pe_ip e) = 16" using assms(2) by_ip_map [OF w(1)] w(2) by auto
  then have "by_ip (ht_entries ?h')"
    using by_ip_map [OF wf] by_ip_map [OF w(1)] w(2) by (auto simp: m split: if_splits)
  then show ?thesis using wf m by (simp add: ps_wf_def)
qed

lemma record_ok:
  assumes "ps_wf ps" and "length ip = 16" and "pe_ip (f (known ps ip)) = ip"
  shows "\<exists>ps'. do { (e, ps) \<leftarrow> peerstats_get_or_create ps ip; Some (Some ((set_entry (f e) ps)\<lparr>ps_dirty := True\<rparr>)) } = Some (Some ps') \<and>
    ps_wf ps' \<and> ps_dirty ps' \<and> ht_map (ps_hash ps') = (ht_map (ps_hash ps))(ip \<mapsto> f (known ps ip))"
proof -
  obtain q where q: "peerstats_get_or_create ps ip = Some (known ps ip, q)" "ps_wf q"
    "ht_map (ps_hash q) = (ht_map (ps_hash ps))(ip \<mapsto> known ps ip)"
    using get_or_create_ok [OF assms(1,2)] by blast
  show ?thesis
    using set_entry_ok [OF q(2), of "f (known ps ip)"] q(1,3) assms(3) by (simp add: ps_wf_def)
qed

text \<open>Recording the outcome for a peer changes the entry of its address only, which starts blank when there
  is none, and keeps the table filed by address: a success counts and moves the average a quarter of
  the way, a failure counts, a handshake replaces latency and services.\<close>

theorem recording_updates:
  assumes "ps_wf ps" and "length ip = 16"
  defines "e \<equiv> known ps ip" and "upd \<equiv> (\<lambda>r e'. \<exists>ps'. r = Some (Some ps') \<and> ps_wf ps' \<and> ps_dirty ps' \<and>
    ht_map (ps_hash ps') = (ht_map (ps_hash ps))(ip \<mapsto> e'))"
  shows "upd (peerstats_record_handshake ip latency services (Some ps)) (e\<lparr>pe_latencyUsec := latency, pe_services := services\<rparr>) \<and>
    upd (peerstats_record_cfilter_fail ip (Some ps)) (e\<lparr>pe_cfilterFail := pe_cfilterFail e + 1\<rparr>) \<and>
    upd (peerstats_record_cfilter_ok ip usec (Some ps)) (e\<lparr>pe_cfilterOk := pe_cfilterOk e + 1,
      pe_avgChunkUsec := (if usec = 0 then pe_avgChunkUsec e else if pe_avgChunkUsec e = 0 then usec
        else of_nat ((unat (pe_avgChunkUsec e) * 3 + unat usec) div 4))\<rparr>)"
proof -
  have ip: "pe_ip e = ip" using get_or_create_ok [OF assms(1,2)] by (auto simp: e_def)
  have avg: "ucast ((ucast a * 3 + ucast c :: u64) div 4) = (of_nat ((unat a * 3 + unat c) div 4) :: u32)" for a c :: u32
  proof -
    have lt: "unat a < 2 ^ 32" "unat c < 2 ^ 32" using unsigned_less [of a] unsigned_less [of c] by simp_all
    have u: "unat (ucast a :: u64) = unat a" "unat (ucast c :: u64) = unat c" using lt by (simp_all add: unsigned_ucast_eq take_bit_nat_eq_self)
    have m: "unat (ucast a * 3 :: u64) = unat a * 3" using lt u by (subst unat_mult_lem [THEN iffD1]) simp_all
    have "unat (ucast a * 3 + ucast c :: u64) = unat a * 3 + unat c"
      using lt u m by (subst unat_add_lem [THEN iffD1]) simp_all
    then have "unat ((ucast a * 3 + ucast c :: u64) div 4) = (unat a * 3 + unat c) div 4"
      by (simp add: unat_div)
    then show ?thesis by (metis of_nat_unat)
  qed
  note r = record_ok [OF assms(1,2), folded e_def]
  let ?ok = "\<lambda>e. let e = e\<lparr>pe_cfilterOk := pe_cfilterOk e + 1\<rparr> in if 0 < usec
       then e\<lparr>pe_avgChunkUsec := (if pe_avgChunkUsec e = 0 then usec else ucast ((ucast (pe_avgChunkUsec e) * 3 + ucast usec :: u64) div 4))\<rparr> else e"
  have "upd (peerstats_record_handshake ip latency services (Some ps)) (e\<lparr>pe_latencyUsec := latency, pe_services := services\<rparr>)"
    using r [of "\<lambda>e. e\<lparr>pe_latencyUsec := latency, pe_services := services\<rparr>"] ip
    by (simp add: upd_def peerstats_record_handshake_def)
  moreover have "upd (peerstats_record_cfilter_fail ip (Some ps)) (e\<lparr>pe_cfilterFail := pe_cfilterFail e + 1\<rparr>)"
    using r [of "\<lambda>e. e\<lparr>pe_cfilterFail := pe_cfilterFail e + 1\<rparr>"] ip
    by (simp add: upd_def peerstats_record_cfilter_fail_def)
  moreover have "?ok e = e\<lparr>pe_cfilterOk := pe_cfilterOk e + 1,
      pe_avgChunkUsec := (if usec = 0 then pe_avgChunkUsec e else if pe_avgChunkUsec e = 0 then usec
        else of_nat ((unat (pe_avgChunkUsec e) * 3 + unat usec) div 4))\<rparr>"
    by (simp add: Let_def avg word_neq_0_conv)
  moreover have "upd (peerstats_record_cfilter_ok ip usec (Some ps)) (?ok e)"
    using r [of ?ok] ip by (simp add: upd_def peerstats_record_cfilter_ok_def Let_def)
  ultimately show ?thesis by simp
qed

section \<open>Examples\<close>

definition empty_stats :: peerstats where
  "empty_stats = \<lparr>ps_file = [], ps_hash = the hashtable_create, ps_dirty = True\<rparr>"

lemma empty_stats: "ps_wf empty_stats" "ps_ok empty_stats" "ps_entries empty_stats = []"
proof -
  obtain t :: "peerstats_entry hashtable" where t: "hashtable_create = Some t" "ht_wf t" "ht_map t = Map.empty" using create_ok by blast
  have "ht_entries t = []"
  proof (rule ccontr)
    assume "ht_entries t \<noteq> []"
    then obtain e es where "ht_entries t = e # es" by (cases "ht_entries t") auto
    then have "ht_map t (he_key e) \<noteq> None" by (simp add: ht_map_def)
    then show False by (simp add: t(3))
  qed
  then show "ps_wf empty_stats" "ps_ok empty_stats" "ps_entries empty_stats = []"
    using t(2) by (simp_all add: empty_stats_def t(1) ps_wf_def ps_ok_def by_ip_def ps_entries_def)
qed

theorem flushed_stats_reload_witness:
  "\<exists>ps' ps''. peerstats_flush (False, 9) False (Some empty_stats) = Some (Some ps') \<and>
    peerstats_init (Some (ps_file ps')) = Some (False, Some ps'')"
  using flushed_stats_reload [OF empty_stats(2), of "(False, 9)" False] empty_stats(3) by (auto simp: empty_stats_def)

theorem recording_updates_witness:
  "\<exists>ps. peerstats_record_cfilter_ok (replicate 16 7) 90 (Some empty_stats) = Some (Some ps) \<and> ps_wf ps \<and> ps_dirty ps"
  using recording_updates [OF empty_stats(1), of "replicate 16 7" 0 0 90] by auto

end
