(* ===== verification/Addrbook.thy ===== *)
theory Addrbook
  imports CfheaderStore Hashtable BitcDefs
begin

text \<open>
  The address book of \<^verbatim>\<open>src/core/addrbook.c\<close>: the known addresses of peers, by their IP, and the file they
  are saved in.

  Addresses are objects that peers point to as well, so they are in a heap, \<open>ab_addrs\<close>, where a freed one is
  \<^const>\<open>None\<close>; the book is a table of pointers. An address is written as it is in memory, \<open>32\<close> bytes with
  two bytes of padding, which are not used and written as zeros.
\<close>

section \<open>The book\<close>

record peer_addr =
  pa_addr :: btc_msg_address
  pa_connected :: bool
  pa_triedalready :: bool

record addrbook =
  ab_addrs :: "peer_addr option list"
  ab_hash_addr :: "nat hashtable"
  ab_file :: "byte list"
  ab_unsaved :: nat

definition deref_paddr :: "addrbook \<Rightarrow> nat \<Rightarrow> peer_addr option" where
  "deref_paddr book p = (if p < length (ab_addrs book) then ab_addrs book ! p else None)"

definition set_paddr :: "nat \<Rightarrow> peer_addr option \<Rightarrow> addrbook \<Rightarrow> addrbook" where
  "set_paddr p a book = book\<lparr>ab_addrs := (ab_addrs book)[p := a]\<rparr>"

definition alloc_paddr :: "btc_msg_address \<Rightarrow> addrbook \<Rightarrow> nat \<times> addrbook" where
  "alloc_paddr addr book = (length (ab_addrs book),
     book\<lparr>ab_addrs := ab_addrs book @ [Some \<lparr>pa_addr = addr, pa_connected = False, pa_triedalready = False\<rparr>]\<rparr>)"

definition addr_key :: "btc_msg_address \<Rightarrow> byte list" where
  "addr_key addr = le_bytes (ad_ip addr)"

definition addrbook_get_count :: "addrbook \<Rightarrow> u32" where
  "addrbook_get_count book = hashtable_getnumentries (ab_hash_addr book)"

definition addrbook_add_entry_int :: "nat \<Rightarrow> addrbook \<Rightarrow> (bool \<times> addrbook) option" where
  "addrbook_add_entry_int p book = do {
     a \<leftarrow> deref_paddr book p;
     (s, ht) \<leftarrow> hashtable_insert (ab_hash_addr book) (addr_key (pa_addr a)) p;
     Some (s, book\<lparr>ab_hash_addr := ht\<rparr>)
   }"

definition addrbook_remove_entry :: "nat \<Rightarrow> addrbook \<Rightarrow> addrbook option" where
  "addrbook_remove_entry p book = do {
     a \<leftarrow> deref_paddr book p;
     (s, ht) \<leftarrow> hashtable_remove (ab_hash_addr book) (addr_key (pa_addr a));
     ASSERT s;
     Some (book\<lparr>ab_hash_addr := ht\<rparr>)
   }"

text \<open>\<open>random\<close> is the result of \<open>random ()\<close>.\<close>

definition addrbook_get_rand_addr :: "nat \<Rightarrow> addrbook \<Rightarrow> nat option option" where
  "addrbook_get_rand_addr random book =
     (let count = addrbook_get_count book in
      if count = 0 then Some None
      else do {
        r \<leftarrow> hashtable_get_entry_idx (ab_hash_addr book) (of_nat (random mod unat count));
        (key, p) \<leftarrow> r;
        ASSERT (length key = 16);
        Some (Some p)
      })"

definition addrbook_get_by_ip :: "byte list \<Rightarrow> addrbook \<Rightarrow> nat option option" where
  "addrbook_get_by_ip ip book = hashtable_lookup (ab_hash_addr book) ip"

section \<open>Saving\<close>

definition addr_image :: "btc_msg_address \<Rightarrow> byte list" where
  "addr_image addr = le_bytes (ad_services addr) @ le_bytes (ad_ip addr) @ le_bytes (ad_time addr) @ le_bytes (ad_port addr) @ [0, 0]"

text \<open>The table with the objects that its pointers refer to.\<close>

definition image_table :: "addrbook \<Rightarrow> byte list hashtable option" where
  "image_table book = (let ht = ab_hash_addr book in do {
     buckets \<leftarrow> those (map (\<lambda>es. those (map (\<lambda>e. do {
         a \<leftarrow> deref_paddr book (he_clientData e);
         Some \<lparr>he_clientData = addr_image (pa_addr a), he_key = he_key e\<rparr>
       }) es)) (ht_buckets ht));
     Some \<lparr>ht_numBuckets = ht_numBuckets ht, ht_count = ht_count ht, ht_numBits = ht_numBits ht, ht_buckets = buckets\<rparr>
   })"

text \<open>\<open>trunc\<close> is the outcome of \<open>file_truncate\<close>, \<open>wr\<close> that of \<open>file_pwrite\<close>.\<close>

definition addrbook_save :: "bool \<Rightarrow> write_result \<Rightarrow> addrbook \<Rightarrow> (bool \<times> addrbook) option" where
  "addrbook_save trunc wr book = do {
     let count = addrbook_get_count book;
     ASSERT (0 < count);
     ht \<leftarrow> image_table book;
     m \<leftarrow> hashtable_linearize ht 32;
     addrs \<leftarrow> m;
     let len = unat count * 32;
     let book = (if trunc then book else book\<lparr>ab_file := []\<rparr>);
     let n = min (snd wr) len;
     let book = (if fst wr then book else book\<lparr>ab_file := file_store (ab_file book) 0 (take n addrs)\<rparr>);
     Some (fst wr, if fst wr \<or> n \<noteq> len then book else book\<lparr>ab_unsaved := 0\<rparr>)
   }"

definition addrbook_add_entry :: "bool \<Rightarrow> write_result \<Rightarrow> nat \<Rightarrow> addrbook \<Rightarrow> (bool \<times> addrbook) option" where
  "addrbook_add_entry trunc wr p book = do {
     (s, book) \<leftarrow> addrbook_add_entry_int p book;
     if \<not> s then Some (False, book)
     else do {
       let book = book\<lparr>ab_unsaved := ab_unsaved book + 1\<rparr>;
       if 1000 \<le> ab_unsaved book then do {
         (_, book) \<leftarrow> addrbook_save trunc wr book;
         Some (s, book)
       }
       else Some (s, book)
     }
   }"

definition addrbook_replace_entry :: "bool \<Rightarrow> write_result \<Rightarrow> nat \<Rightarrow> addrbook \<Rightarrow> addrbook option" where
  "addrbook_replace_entry trunc wr p book = do {
     a \<leftarrow> deref_paddr book p;
     r \<leftarrow> hashtable_lookup (ab_hash_addr book) (addr_key (pa_addr a));
     p0 \<leftarrow> r;
     book \<leftarrow> addrbook_remove_entry p0 book;
     let book = set_paddr p0 None book;
     (s, book) \<leftarrow> addrbook_add_entry trunc wr p book;
     ASSERT s;
     Some book
   }"

text \<open>The result: what is left of the file.\<close>

definition addrbook_close :: "bool \<Rightarrow> write_result \<Rightarrow> addrbook option \<Rightarrow> byte list option option" where
  "addrbook_close trunc wr book = (case book of None \<Rightarrow> Some None
     | Some book \<Rightarrow> do {
         book \<leftarrow> (if 0 < ab_unsaved book then map_option snd (addrbook_save trunc wr book) else Some book);
         (ht, freed) \<leftarrow> hashtable_clear_with_free (ab_hash_addr book);
         _ \<leftarrow> hashtable_destroy ht;
         Some (Some (ab_file book))
       })"

section \<open>Loading\<close>

definition addr_of_image :: "byte list \<Rightarrow> btc_msg_address" where
  "addr_of_image b = \<lparr>ad_services = le_word (take 8 b), ad_ip = le_word (take 16 (drop 8 b)),
     ad_time = le_word (take 4 (drop 24 b)), ad_port = le_word (take 2 (drop 28 b))\<rparr>"

function split_addrs :: "byte list \<Rightarrow> btc_msg_address list" where
  "split_addrs b = (if length b < 32 then [] else addr_of_image b # split_addrs (drop 32 b))"
  by auto
termination by (relation "measure length") auto

declare split_addrs.simps [simp del]

primrec add_addrs :: "btc_msg_address list \<Rightarrow> addrbook \<Rightarrow> addrbook option" where
  "add_addrs [] book = Some book"
| "add_addrs (addr # addrs) book = do {
     let (p, book) = alloc_paddr addr book;
     (s, book) \<leftarrow> addrbook_add_entry_int p book;
     ASSERT s;
     add_addrs addrs book
   }"

text \<open>The file is read in pieces of at most 10000 addresses. \<open>rd\<close> is the outcome of each \<open>file_pread\<close>: a
  failure, or all the bytes asked for.\<close>

function load_addrs :: "(nat \<Rightarrow> bool) \<Rightarrow> nat \<Rightarrow> addrbook \<Rightarrow> (bool \<times> addrbook) option" where
  "load_addrs rd offset book =
     (let size = length (ab_file book) in
      if size \<le> offset then Some (False, book)
      else if rd offset then Some (True, book)
      else (let numBytes = min (size - offset) (10000 * 32) in
        case add_addrs (split_addrs (take numBytes (drop offset (ab_file book)))) book of None \<Rightarrow> None
        | Some book' \<Rightarrow> load_addrs rd (offset + numBytes) (book'\<lparr>ab_file := ab_file book\<rparr>)))"
  by auto
termination
  by (relation "measure (\<lambda>(rd, offset, book). length (ab_file book) - offset)") auto

declare load_addrs.simps [simp del]

text \<open>\<open>addrbook_open\<close> on an existing, possibly empty file.\<close>

definition addrbook_open :: "(nat \<Rightarrow> bool) \<Rightarrow> byte list \<Rightarrow> (bool \<times> addrbook) option" where
  "addrbook_open rd file = do {
     ht \<leftarrow> hashtable_create;
     load_addrs rd 0 \<lparr>ab_addrs = [], ab_hash_addr = ht, ab_file = file, ab_unsaved = 0\<rparr>
   }"

section \<open>The book as a map\<close>

definition ab_ok :: "addrbook \<Rightarrow> bool" where
  "ab_ok book \<longleftrightarrow> ht_wf (ab_hash_addr book) \<and>
     (\<forall>k p. ht_map (ab_hash_addr book) k = Some p \<longrightarrow> (\<exists>a. deref_paddr book p = Some a \<and> k = addr_key (pa_addr a)))"

definition book_map :: "addrbook \<Rightarrow> byte list \<Rightarrow> btc_msg_address option" where
  "book_map book ip = do { p \<leftarrow> ht_map (ab_hash_addr book) ip; a \<leftarrow> deref_paddr book p; Some (pa_addr a) }"

lemma deref_paddr_upd [simp]:
  "deref_paddr (book\<lparr>ab_file := f\<rparr>) = deref_paddr book" "deref_paddr (book\<lparr>ab_unsaved := n\<rparr>) = deref_paddr book"
  "deref_paddr (book\<lparr>ab_hash_addr := t\<rparr>) = deref_paddr book"
  by (auto simp: deref_paddr_def fun_eq_iff)

lemma book_map_eq:
  "ab_ok book \<Longrightarrow> book_map book ip = map_option (\<lambda>p. pa_addr (the (deref_paddr book p))) (ht_map (ab_hash_addr book) ip)"
  by (cases "ht_map (ab_hash_addr book) ip") (force simp: book_map_def ab_ok_def)+

lemma book_map_None: "ab_ok book \<Longrightarrow> book_map book ip = None \<longleftrightarrow> ht_map (ab_hash_addr book) ip = None"
  by (simp add: book_map_eq)

text \<open>Adding an address to the book.\<close>

lemma add_entry_int_ok:
  assumes "ab_ok book" and "deref_paddr book p = Some a"
  shows "\<exists>book'. addrbook_add_entry_int p book = Some (book_map book (addr_key (pa_addr a)) = None, book') \<and> ab_ok book' \<and>
    book_map book' = (if book_map book (addr_key (pa_addr a)) = None then (book_map book)(addr_key (pa_addr a) \<mapsto> pa_addr a) else book_map book) \<and>
    ab_addrs book' = ab_addrs book \<and> ab_file book' = ab_file book \<and> ab_unsaved book' = ab_unsaved book"
proof -
  let ?k = "addr_key (pa_addr a)"
  obtain t where t: "hashtable_insert (ab_hash_addr book) ?k p = Some (ht_map (ab_hash_addr book) ?k = None, t)" "ht_wf t"
    "ht_map t = (if ht_map (ab_hash_addr book) ?k = None then (ht_map (ab_hash_addr book))(?k \<mapsto> p) else ht_map (ab_hash_addr book))"
    using insert_ok [of "ab_hash_addr book" ?k p] assms(1) by (auto simp: ab_ok_def)
  define book' where "book' = book\<lparr>ab_hash_addr := t\<rparr>"
  have d: "deref_paddr book' = deref_paddr book" by (simp add: book'_def deref_paddr_def fun_eq_iff)
  have ok: "ab_ok book'" using assms t(2,3) by (auto simp: ab_ok_def book'_def deref_paddr_def split: if_splits)
  have "addrbook_add_entry_int p book = Some (book_map book ?k = None, book')"
    using assms t(1) by (simp add: addrbook_add_entry_int_def book_map_None book'_def)
  moreover have "book_map book' = (if book_map book ?k = None then (book_map book)(?k \<mapsto> pa_addr a) else book_map book)"
  proof (cases "ht_map (ab_hash_addr book) ?k = None")
    case True
    then show ?thesis using assms t(3) book_map_None [OF assms(1), of ?k]
      by (simp add: fun_eq_iff book_map_def d) (simp add: book'_def)
  next
    case False
    have tm: "ht_map t = ht_map (ab_hash_addr book)" unfolding t(3) by (rule if_not_P [OF False])
    have "book_map book' = book_map book" by (simp add: fun_eq_iff book_map_def d) (simp add: book'_def tm)
    moreover have "book_map book ?k \<noteq> None" using False book_map_None [OF assms(1), of ?k] by metis
    ultimately show ?thesis by (simp only: if_False)
  qed
  ultimately show ?thesis using ok by (auto simp: book'_def)
qed

lemma alloc_paddr_ok:
  assumes "ab_ok book" and "alloc_paddr addr book = (p, book1)"
  shows "ab_ok book1" "book_map book1 = book_map book" "ab_file book1 = ab_file book" "ab_unsaved book1 = ab_unsaved book"
    "deref_paddr book1 p = Some \<lparr>pa_addr = addr, pa_connected = False, pa_triedalready = False\<rparr>"
proof -
  have b: "book1 = book\<lparr>ab_addrs := ab_addrs book @ [Some \<lparr>pa_addr = addr, pa_connected = False, pa_triedalready = False\<rparr>]\<rparr>"
    "p = length (ab_addrs book)" using assms(2) by (auto simp: alloc_paddr_def)
  have d: "deref_paddr book q = Some a \<Longrightarrow> deref_paddr book1 q = Some a" for q a
    by (auto simp: b deref_paddr_def nth_append split: if_splits)
  show ok: "ab_ok book1" using assms(1) d by (fastforce simp: ab_ok_def b)
  show "book_map book1 = book_map book"
  proof
    fix ip show "book_map book1 ip = book_map book ip"
      using assms(1) d by (cases "ht_map (ab_hash_addr book) ip") (fastforce simp: book_map_def b ab_ok_def)+
  qed
qed (use assms(2) in \<open>auto simp: alloc_paddr_def deref_paddr_def\<close>)

definition keyed :: "btc_msg_address list \<Rightarrow> byte list \<rightharpoonup> btc_msg_address" where
  "keyed as = map_of (map (\<lambda>a. (addr_key a, a)) as)"

lemma add_addrs_ok:
  assumes "ab_ok book" and "distinct (map addr_key as)" and "\<forall>a \<in> set as. book_map book (addr_key a) = None"
  shows "\<exists>book'. add_addrs as book = Some book' \<and> ab_ok book' \<and> book_map book' = book_map book ++ keyed as \<and>
    ab_file book' = ab_file book \<and> ab_unsaved book' = ab_unsaved book"
  using assms
proof (induction as arbitrary: book)
  case (Cons a as)
  obtain p book1 where al: "alloc_paddr a book = (p, book1)" by fastforce
  note b1 = alloc_paddr_ok [OF Cons.prems(1) al]
  obtain book2 where b2: "addrbook_add_entry_int p book1 = Some (True, book2)" "ab_ok book2"
    "book_map book2 = (book_map book)(addr_key a \<mapsto> a)" "ab_file book2 = ab_file book" "ab_unsaved book2 = ab_unsaved book"
    using add_entry_int_ok [OF b1(1,5)] b1(2-4) Cons.prems(3) by auto
  have "\<forall>a' \<in> set as. book_map book2 (addr_key a') = None" using Cons.prems(2,3) by (auto simp: b2(3)) (metis image_eqI)
  then obtain book3 where b3: "add_addrs as book2 = Some book3" "ab_ok book3" "book_map book3 = book_map book2 ++ keyed as"
    "ab_file book3 = ab_file book" "ab_unsaved book3 = ab_unsaved book"
    using Cons.IH [OF b2(2)] Cons.prems(2) b2(4,5) by auto
  have "addr_key a \<notin> dom (keyed as)" using Cons.prems(2) by (auto simp: keyed_def dom_map_of_conv_image_fst)
  then have "book_map book2 ++ keyed as = book_map book ++ keyed (a # as)"
    by (auto simp: b2(3) keyed_def map_add_def fun_eq_iff split: option.splits)
  then show ?case using al b2(1) b3 by simp
qed (simp add: keyed_def)

section \<open>The file\<close>

lemma length_addr_image [simp]: "length (addr_image a) = 32"
  by (simp add: addr_image_def)

lemma addr_of_image_image: "addr_of_image (addr_image a @ r) = a"
  by (cases a) (simp add: addr_of_image_def addr_image_def)

lemma split_addrs_images: "split_addrs (concat (map addr_image as)) = as"
proof (induction as)
  case (Cons a as)
  then show ?case by (subst split_addrs.simps) (simp add: addr_of_image_image)
qed (simp add: split_addrs.simps)

lemma length_images [simp]: "length (concat (map addr_image as)) = 32 * length as"
  by (induction as) simp_all

lemma take_images: "take (32 * n) (concat (map addr_image as)) = concat (map addr_image (take n as))"
proof (induction as arbitrary: n)
  case (Cons a as)
  then show ?case by (cases n) simp_all
qed simp

lemma drop_images: "drop (32 * n) (concat (map addr_image as)) = concat (map addr_image (drop n as))"
proof (induction as arbitrary: n)
  case (Cons a as)
  then show ?case by (cases n) simp_all
qed simp

lemma load_addrs_ok:
  assumes "ab_ok book" and "drop offset (ab_file book) = concat (map addr_image as)" and "offset \<le> length (ab_file book)"
    and "distinct (map addr_key as)" and "\<forall>a \<in> set as. book_map book (addr_key a) = None"
  shows "\<exists>book'. load_addrs (\<lambda>_. False) offset book = Some (False, book') \<and> ab_ok book' \<and>
    book_map book' = book_map book ++ keyed as \<and> ab_file book' = ab_file book \<and> ab_unsaved book' = ab_unsaved book"
  using assms
proof (induction "length as" arbitrary: as offset book rule: less_induct)
  case less
  have sz: "length (ab_file book) - offset = 32 * length as" using arg_cong [OF less.prems(2), of length] by simp
  show ?case
  proof (cases "as = []")
    case True
    then show ?thesis using less.prems sz by (auto simp: load_addrs.simps keyed_def)
  next
    case False
    define n where "n = min (length as) 10000"
    have nb: "min (length (ab_file book) - offset) (10000 * 32) = 32 * n" using sz by (simp add: n_def min_def)
    have piece: "split_addrs (take (32 * n) (drop offset (ab_file book))) = take n as"
      by (simp add: less.prems(2) take_images split_addrs_images)
    obtain b1 where b1: "add_addrs (take n as) book = Some b1" "ab_ok b1" "book_map b1 = book_map book ++ keyed (take n as)"
      "ab_file b1 = ab_file book" "ab_unsaved b1 = ab_unsaved book"
      using add_addrs_ok [OF less.prems(1), of "take n as"] less.prems(4,5)
      by (metis (no_types, lifting) distinct_take in_set_takeD take_map)
    have split: "as = take n as @ drop n as" by simp
    then have "distinct (map addr_key (take n as @ drop n as))" using less.prems(4) by simp
    then have dis: "distinct (map addr_key (drop n as))" "addr_key ` set (take n as) \<inter> addr_key ` set (drop n as) = {}"
      by (simp_all only: map_append distinct_append set_map)
    have new: "\<forall>a \<in> set (drop n as). book_map b1 (addr_key a) = None"
    proof
      fix a assume a: "a \<in> set (drop n as)"
      have "keyed (take n as) (addr_key a) = None"
        using dis(2) a by (auto simp: keyed_def map_of_eq_None_iff image_image)
      then show "book_map b1 (addr_key a) = None" using less.prems(5) a in_set_dropD by (fastforce simp: b1(3) map_add_def)
    qed
    have small: "length (drop n as) < length as" using False by (simp add: n_def)
    have off: "drop (offset + 32 * n) (ab_file b1) = concat (map addr_image (drop n as))" "offset + 32 * n \<le> length (ab_file b1)"
    proof -
      have "drop (offset + 32 * n) (ab_file b1) = drop (32 * n) (drop offset (ab_file book))" by (simp add: b1(4) ac_simps)
      then show "drop (offset + 32 * n) (ab_file b1) = concat (map addr_image (drop n as))" by (simp add: less.prems(2) drop_images)
      have "length (ab_file book) = offset + 32 * length as" using sz less.prems(3) by simp
      then show "offset + 32 * n \<le> length (ab_file b1)" by (simp add: b1(4) n_def)
    qed
    obtain b2 where b2: "load_addrs (\<lambda>_. False) (offset + 32 * n) b1 = Some (False, b2)" "ab_ok b2"
      "book_map b2 = book_map b1 ++ keyed (drop n as)" "ab_file b2 = ab_file book" "ab_unsaved b2 = ab_unsaved book"
      using less.hyps [OF small b1(2) off dis(1) new] b1(4,5) by auto
    have "keyed as = keyed (take n as) ++ keyed (drop n as)"
    proof -
      have "dom (keyed (take n as)) \<inter> dom (keyed (drop n as)) = {}"
        using dis(2) by (auto simp: keyed_def dom_map_of_conv_image_fst image_image)
      moreover have "keyed as = keyed (drop n as) ++ keyed (take n as)"
        unfolding keyed_def by (subst split) (simp only: map_append map_of_append)
      ultimately show ?thesis by (simp add: map_add_comm)
    qed
    moreover have "b1\<lparr>ab_file := ab_file book\<rparr> = b1" by (simp add: b1(4) [symmetric])
    moreover have "\<not> length (ab_file book) \<le> offset" using sz False by auto
    ultimately show ?thesis
      using b1(1,3) b2 piece nb by (subst load_addrs.simps) (simp add: Let_def)
  qed
qed

text \<open>What is saved.\<close>

definition book_addrs :: "addrbook \<Rightarrow> btc_msg_address list" where
  "book_addrs book = map (\<lambda>e. pa_addr (the (deref_paddr book (he_clientData e)))) (ht_entries (ab_hash_addr book))"

lemma book_addrs_keys:
  assumes "ab_ok book"
  shows "map addr_key (book_addrs book) = map he_key (ht_entries (ab_hash_addr book))"
    "\<And>e. e \<in> set (ht_entries (ab_hash_addr book)) \<Longrightarrow> \<exists>a. deref_paddr book (he_clientData e) = Some a \<and> he_key e = addr_key (pa_addr a)"
proof -
  have d: "distinct (map he_key (ht_entries (ab_hash_addr book)))" using assms by (simp add: ab_ok_def ht_wf_def)
  show *: "\<exists>a. deref_paddr book (he_clientData e) = Some a \<and> he_key e = addr_key (pa_addr a)"
    if "e \<in> set (ht_entries (ab_hash_addr book))" for e
  proof -
    have "ht_map (ab_hash_addr book) (he_key e) = Some (he_clientData e)"
      using find_distinct [OF d, of "he_key e" e] that by (simp add: ht_map_def)
    then show ?thesis using assms by (auto simp: ab_ok_def)
  qed
  show "map addr_key (book_addrs book) = map he_key (ht_entries (ab_hash_addr book))"
    using * by (force simp: book_addrs_def)
qed

lemma book_map_keyed:
  assumes "ab_ok book"
  shows "book_map book = keyed (book_addrs book)"
proof
  fix ip
  let ?es = "ht_entries (ab_hash_addr book)"
  have "map_option (\<lambda>e. pa_addr (the (deref_paddr book (he_clientData e)))) (find (\<lambda>e. he_key e = ip) es) =
      map_of (map (\<lambda>a. (addr_key a, a)) (map (\<lambda>e. pa_addr (the (deref_paddr book (he_clientData e)))) es)) ip"
    if "set es \<subseteq> set ?es" for es
    using that
  proof (induction es)
    case (Cons e es)
    then show ?case using book_addrs_keys(2) [OF assms, of e] by auto
  qed simp
  then show "book_map book ip = keyed (book_addrs book) ip"
    using assms by (simp add: book_map_eq ht_map_def keyed_def book_addrs_def option.map_comp o_def)
qed

lemma image_table_ok:
  assumes "ab_ok book"
  shows "\<exists>ht. image_table book = Some ht \<and> ht_wf ht \<and> map he_clientData (ht_entries ht) = map addr_image (book_addrs book)"
proof -
  let ?h = "ab_hash_addr book"
  let ?g = "\<lambda>e. \<lparr>he_clientData = addr_image (pa_addr (the (deref_paddr book (he_clientData e)))), he_key = he_key e\<rparr>"
  have wf: "ht_wf ?h" using assms by (simp add: ab_ok_def)
  have one: "do { a \<leftarrow> deref_paddr book (he_clientData e); Some \<lparr>he_clientData = addr_image (pa_addr a), he_key = he_key e\<rparr> } = Some (?g e)"
    if "es \<in> set (ht_buckets ?h)" "e \<in> set es" for e es
  proof -
    have "e \<in> set (ht_entries ?h)" using that by (auto simp: ht_entries_def)
    then show ?thesis using book_addrs_keys(2) [OF assms] by fastforce
  qed
  have rows: "those (map (\<lambda>e. do { a \<leftarrow> deref_paddr book (he_clientData e); Some \<lparr>he_clientData = addr_image (pa_addr a), he_key = he_key e\<rparr> }) es) =
      Some (map ?g es)" if "es \<in> set (ht_buckets ?h)" for es
    using one [OF that] by (rule those_map)
  define t where "t = \<lparr>ht_numBuckets = ht_numBuckets ?h, ht_count = ht_count ?h, ht_numBits = ht_numBits ?h, ht_buckets = map (map ?g) (ht_buckets ?h)\<rparr>"
  have "image_table book = Some t"
    using those_map [of "ht_buckets ?h", OF rows] by (simp add: image_table_def t_def Let_def)
  moreover have es: "ht_entries t = map ?g (ht_entries ?h)" by (simp add: t_def ht_entries_def map_concat)
  moreover have "ht_wf t"
    using wf unfolding ht_wf_def es by (auto simp: t_def placed_def o_def)
  ultimately show ?thesis by (auto simp: book_addrs_def)
qed

text \<open>No address is marked as connected or tried.\<close>

definition unmarked :: "addrbook \<Rightarrow> bool" where
  "unmarked book \<longleftrightarrow> (\<forall>a \<in> set (ab_addrs book). \<exists>p. a = Some p \<and> \<not> pa_connected p \<and> \<not> pa_triedalready p)"

lemma add_addrs_unmarked: "add_addrs as book = Some book' \<Longrightarrow> unmarked book \<Longrightarrow> unmarked book'"
proof (induction as arbitrary: book)
  case (Cons a as)
  then obtain p book1 book2 where "alloc_paddr a book = (p, book1)" "addrbook_add_entry_int p book1 = Some (True, book2)"
    "add_addrs as book2 = Some book'" by (auto split: bind_splits prod.splits if_splits)
  moreover from this have "unmarked book2" using Cons.prems(2)
    by (auto simp: alloc_paddr_def addrbook_add_entry_int_def unmarked_def split: bind_splits)
  ultimately show ?case using Cons.IH by blast
qed simp

lemma load_addrs_unmarked: "load_addrs rd offset book = Some (r, book') \<Longrightarrow> unmarked book \<Longrightarrow> unmarked book'"
proof (induction rd offset book rule: load_addrs.induct)
  case (1 rd offset book)
  show ?case
    using "1.prems" add_addrs_unmarked "1.IH" [OF refl]
    by (subst (asm) load_addrs.simps) (auto simp: Let_def unmarked_def split: if_splits option.splits)
qed

text \<open>C23: a book that is saved, with a write that is complete, and opened again, with reads that do not fail, has the same
  addresses, and none of them is marked as connected or tried; nothing is unsaved after the save.\<close>

theorem saved_book_reloads:
  assumes "ab_ok book" and "0 < addrbook_get_count book" and "length (book_addrs book) < 2 ^ 31"
    and "\<not> fst wr" and "32 * length (book_addrs book) \<le> snd wr"
  shows "\<exists>book' book''. addrbook_save False wr book = Some (False, book') \<and> ab_unsaved book' = 0 \<and> book_map book' = book_map book \<and>
    addrbook_open (\<lambda>_. False) (ab_file book') = Some (False, book'') \<and> ab_ok book'' \<and> book_map book'' = book_map book \<and>
    (\<forall>p a. deref_paddr book'' p = Some a \<longrightarrow> \<not> pa_connected a \<and> \<not> pa_triedalready a)"
proof -
  let ?as = "book_addrs book" and ?h = "ab_hash_addr book"
  have len: "length ?as = length (ht_entries ?h)" by (simp add: book_addrs_def)
  have wf: "ht_wf ?h" using assms(1) by (simp add: ab_ok_def)
  have cnt: "unat (addrbook_get_count book) = length ?as"
    using count_entries [OF wf] assms(3) by (simp add: addrbook_get_count_def hashtable_getnumentries_def len)
  obtain t where t: "image_table book = Some t" "ht_wf t" "map he_clientData (ht_entries t) = map addr_image ?as"
    using image_table_ok [OF assms(1)] by blast
  have lt: "length (ht_entries t) = length ?as" using arg_cong [OF t(3), of length] by simp
  have all: "list_all (\<lambda>e. 32 \<le> length (he_clientData e)) (ht_entries t)"
  proof -
    have "he_clientData e \<in> set (map addr_image ?as)" if "e \<in> set (ht_entries t)" for e
      using that unfolding t(3) [symmetric] by simp
    then show ?thesis by (fastforce simp: list_all_iff)
  qed
  have "addrbook_get_count book \<noteq> 0" using assms(2) by auto
  then have ne: "ht_entries t \<noteq> []" using lt cnt by (auto simp: unsigned_eq_0_iff)
  have "map (\<lambda>e. take 32 (he_clientData e)) (ht_entries t) = map (take 32) (map he_clientData (ht_entries t))" by simp
  also have "\<dots> = map addr_image ?as" unfolding t(3) by simp
  finally have pieces: "map (\<lambda>e. take 32 (he_clientData e)) (ht_entries t) = map addr_image ?as" .
  have lin: "hashtable_linearize t 32 = Some (Some (concat (map addr_image ?as)))"
    using linearize_correct [OF t(2) _ ne all] lt assms(3) by (simp add: pieces)
  define book' where "book' = book\<lparr>ab_file := concat (map addr_image ?as), ab_unsaved := 0\<rparr>"
  have save: "addrbook_save False wr book = Some (False, book')"
    using assms(2,4,5) t(1) lin cnt
    by (simp add: addrbook_save_def Let_def book'_def file_store_def min_def ac_simps)
  obtain e :: "nat hashtable" where e: "hashtable_create = Some e" "ht_wf e" "ht_map e = Map.empty" using create_ok by blast
  define b0 where "b0 = \<lparr>ab_addrs = [], ab_hash_addr = e, ab_file = concat (map addr_image ?as), ab_unsaved = 0\<rparr>"
  have ok0: "ab_ok b0" "book_map b0 = Map.empty" using e by (simp_all add: b0_def ab_ok_def book_map_def fun_eq_iff)
  have dis: "distinct (map addr_key ?as)"
    using wf unfolding book_addrs_keys(1) [OF assms(1)] by (simp add: ht_wf_def)
  obtain book'' where l: "load_addrs (\<lambda>_. False) 0 b0 = Some (False, book'')" "ab_ok book''" "book_map book'' = keyed ?as"
    using load_addrs_ok [OF ok0(1) _ _ dis, of 0] ok0(2) by (auto simp: b0_def)
  have "unmarked book''" using load_addrs_unmarked [OF l(1)] by (simp add: unmarked_def b0_def)
  then have "\<forall>p a. deref_paddr book'' p = Some a \<longrightarrow> \<not> pa_connected a \<and> \<not> pa_triedalready a"
    by (auto simp: unmarked_def deref_paddr_def split: if_splits) (metis nth_mem option.sel option.simps(3))+
  moreover from l have "addrbook_open (\<lambda>_. False) (ab_file book') = Some (False, book'')" "ab_ok book''" "book_map book'' = book_map book"
    using book_map_keyed [OF assms(1)] by (simp_all add: addrbook_open_def e(1) book'_def b0_def)
  moreover have "book_map book' = book_map book" by (simp add: book'_def book_map_def fun_eq_iff)
  ultimately show ?thesis using save by (auto simp: book'_def)
qed

text \<open>Closing a book from which every address was removed, after some were added, stops the
  program.\<close>

theorem closing_emptied_book_stops:
  assumes "addrbook_get_count book = 0" and "0 < ab_unsaved book"
  shows "addrbook_close trunc wr (Some book) = None"
  using assms by (simp add: addrbook_close_def addrbook_save_def)

section \<open>Examples\<close>

definition one_addr :: addrbook where
  "one_addr = the (add_addrs [btc_msg_address_zero] \<lparr>ab_addrs = [], ab_hash_addr = the hashtable_create, ab_file = [], ab_unsaved = 0\<rparr>)"

lemma one_addr: "ab_ok one_addr" "book_map one_addr = [replicate 16 0 \<mapsto> btc_msg_address_zero]"
proof -
  obtain e :: "nat hashtable" where e: "hashtable_create = Some e" "ht_wf e" "ht_map e = Map.empty" using create_ok by blast
  define b0 where "b0 = \<lparr>ab_addrs = [], ab_hash_addr = e, ab_file = [], ab_unsaved = 0\<rparr>"
  have ok0: "ab_ok b0" "book_map b0 = Map.empty" using e by (simp_all add: b0_def ab_ok_def book_map_def fun_eq_iff)
  have "addr_key btc_msg_address_zero = replicate 16 0"
    by (simp add: addr_key_def btc_msg_address_zero_def le_bytes_def map_replicate_const)
  moreover obtain b1 where b1: "add_addrs [btc_msg_address_zero] b0 = Some b1" "ab_ok b1"
    "book_map b1 = [addr_key btc_msg_address_zero \<mapsto> btc_msg_address_zero]"
    using add_addrs_ok [OF ok0(1), of "[btc_msg_address_zero]"] ok0(2) by (auto simp: keyed_def simp del: add_addrs.simps)
  moreover have "one_addr = b1" unfolding one_addr_def e(1) option.sel b0_def [symmetric] b1(1) ..
  ultimately show "ab_ok one_addr" "book_map one_addr = [replicate 16 0 \<mapsto> btc_msg_address_zero]" by simp_all
qed

lemma one_addr_count: "length (book_addrs one_addr) = 1" "addrbook_get_count one_addr = 1"
proof -
  have "distinct (map addr_key (book_addrs one_addr))"
    using one_addr(1) unfolding book_addrs_keys(1) [OF one_addr(1)] by (simp add: ab_ok_def ht_wf_def)
  moreover have "set (map addr_key (book_addrs one_addr)) = dom (book_map one_addr)"
    by (simp add: book_map_keyed [OF one_addr(1)] keyed_def dom_map_of_conv_image_fst image_image)
  ultimately have "card (dom (book_map one_addr)) = length (book_addrs one_addr)"
    using distinct_card by fastforce
  then show l: "length (book_addrs one_addr) = 1" by (simp add: one_addr(2))
  show "addrbook_get_count one_addr = 1"
    using l one_addr(1) by (simp add: addrbook_get_count_def hashtable_getnumentries_def ab_ok_def ht_wf_def book_addrs_def)
qed

theorem saved_book_reloads_witness:
  "\<exists>book' book''. addrbook_save False (False, 32) one_addr = Some (False, book') \<and>
    addrbook_open (\<lambda>_. False) (ab_file book') = Some (False, book'') \<and>
    book_map book'' = [replicate 16 0 \<mapsto> btc_msg_address_zero] \<and>
    (\<forall>p a. deref_paddr book'' p = Some a \<longrightarrow> \<not> pa_connected a \<and> \<not> pa_triedalready a)"
  using saved_book_reloads [OF one_addr(1), of "(False, 32)"] one_addr(2) one_addr_count by auto

theorem closing_emptied_book_stops_witness:
  "\<exists>p book. addrbook_remove_entry p (one_addr\<lparr>ab_unsaved := 1\<rparr>) = Some book \<and> addrbook_close False (False, 32) (Some book) = None"
proof -
  let ?k = "replicate 16 0 :: byte list" and ?h = "ab_hash_addr one_addr"
  have "ht_map ?h ?k \<noteq> None" using book_map_None [OF one_addr(1), of ?k] one_addr(2) by simp
  then obtain p where p: "ht_map ?h ?k = Some p" by blast
  then obtain a where a: "deref_paddr one_addr p = Some a" "addr_key (pa_addr a) = ?k"
    using one_addr(1) by (metis ab_ok_def)
  obtain t where t: "hashtable_remove ?h ?k = Some (True, t)" "ht_count t = ht_count ?h - 1"
    using remove_ok [of ?h ?k] one_addr(1) p by (auto simp: ab_ok_def)
  define book where "book = one_addr\<lparr>ab_unsaved := 1, ab_hash_addr := t\<rparr>"
  have "deref_paddr (one_addr\<lparr>ab_unsaved := 1\<rparr>) p = Some a" using a(1) by simp
  then have "addrbook_remove_entry p (one_addr\<lparr>ab_unsaved := 1\<rparr>) = Some book"
    using a(2) t(1) by (simp add: addrbook_remove_entry_def book_def)
  moreover have "addrbook_get_count book = 0"
    using t(2) one_addr_count(2) by (simp add: book_def addrbook_get_count_def hashtable_getnumentries_def)
  then have "addrbook_close False (False, 32) (Some book) = None"
    by (rule closing_emptied_book_stops) (simp add: book_def)
  ultimately show ?thesis by blast
qed

end
