(* ===== verification/Gcs.thy ===== *)
theory Gcs
  imports Prelude "HOL-Library.Multiset"
begin

text \<open>
  The compact block filters of \<^verbatim>\<open>src/core/gcs.c\<close>: SipHash-2-4, the bit reader, the
  Golomb-Rice and CompactSize decoders and the membership test
  \<open>gcs_filter_match_any\<close>. A sequence of bytes is a list; reading outside of it is undefined
  and gives \<^const>\<open>None\<close>, as do a signed overflow and a loop that does not end. Positions
  and lengths (\<open>size_t\<close>) are natural numbers, the signed 64-bit values of the decoder are
  integers whose only growing sum is checked against \<open>2 ^ 63\<close>.
\<close>

section \<open>SipHash-2-4\<close>

record siphash_state =
  ss_v0 :: u64
  ss_v1 :: u64
  ss_v2 :: u64
  ss_v3 :: u64

definition ROTL64 :: "u64 \<Rightarrow> nat \<Rightarrow> u64" where
  "ROTL64 x b = push_bit b x OR drop_bit (64 - b) x"

definition SIPROUND :: "siphash_state \<Rightarrow> siphash_state" where
  "SIPROUND s =
     (let s = s\<lparr>ss_v0 := ss_v0 s + ss_v1 s\<rparr>; s = s\<lparr>ss_v1 := ROTL64 (ss_v1 s) 13\<rparr>; s = s\<lparr>ss_v1 := ss_v1 s XOR ss_v0 s\<rparr>;
          s = s\<lparr>ss_v0 := ROTL64 (ss_v0 s) 32\<rparr>;
          s = s\<lparr>ss_v2 := ss_v2 s + ss_v3 s\<rparr>; s = s\<lparr>ss_v3 := ROTL64 (ss_v3 s) 16\<rparr>; s = s\<lparr>ss_v3 := ss_v3 s XOR ss_v2 s\<rparr>;
          s = s\<lparr>ss_v0 := ss_v0 s + ss_v3 s\<rparr>; s = s\<lparr>ss_v3 := ROTL64 (ss_v3 s) 21\<rparr>; s = s\<lparr>ss_v3 := ss_v3 s XOR ss_v0 s\<rparr>;
          s = s\<lparr>ss_v2 := ss_v2 s + ss_v1 s\<rparr>; s = s\<lparr>ss_v1 := ROTL64 (ss_v1 s) 17\<rparr>; s = s\<lparr>ss_v1 := ss_v1 s XOR ss_v2 s\<rparr>;
          s = s\<lparr>ss_v2 := ROTL64 (ss_v2 s) 32\<rparr>
      in s)"

definition sip_compress :: "u64 \<Rightarrow> siphash_state \<Rightarrow> siphash_state" where
  "sip_compress m s =
     (let s = s\<lparr>ss_v3 := ss_v3 s XOR m\<rparr>; s = SIPROUND (SIPROUND s) in s\<lparr>ss_v0 := ss_v0 s XOR m\<rparr>)"

function (sequential) sip_blocks :: "siphash_state \<Rightarrow> byte list \<Rightarrow> siphash_state \<times> byte list" where
  "sip_blocks s (b0 # b1 # b2 # b3 # b4 # b5 # b6 # b7 # data) =
     sip_blocks (sip_compress (le_word [b0, b1, b2, b3, b4, b5, b6, b7]) s) data"
| "sip_blocks s data = (s, data)"
  by pat_completeness auto
termination by (relation "measure (length \<circ> snd)") simp_all

text \<open>The 16 bytes of \<open>key\<close>; the last block holds the up to seven bytes left, in
  little-endian order, below the length modulo 256.\<close>

definition siphash_2_4 :: "byte list \<Rightarrow> byte list \<Rightarrow> u64 option" where
  "siphash_2_4 key data = do {
     ASSERT (16 \<le> length key);
     let k0 = le_word (take 8 key);
     let k1 = le_word (take 8 (drop 8 key));
     let s = \<lparr>ss_v0 = 0x736f6d6570736575 XOR k0, ss_v1 = 0x646f72616e646f6d XOR k1,
              ss_v2 = 0x6c7967656e657261 XOR k0, ss_v3 = 0x7465646279746573 XOR k1\<rparr>;
     let (s, rest) = sip_blocks s data;
     let b = push_bit 56 (of_nat (length data) AND 0xff) OR le_word rest;
     let s = sip_compress b s;
     let s = s\<lparr>ss_v2 := ss_v2 s XOR 0xff\<rparr>;
     let s = SIPROUND (SIPROUND (SIPROUND (SIPROUND s)));
     Some (ss_v0 s XOR ss_v1 s XOR ss_v2 s XOR ss_v3 s)
   }"

definition gcs_self_test :: "bool option" where
  "gcs_self_test = do {
     got \<leftarrow> siphash_2_4 [0x00, 0x01, 0x02, 0x03, 0x04, 0x05, 0x06, 0x07,
                        0x08, 0x09, 0x0a, 0x0b, 0x0c, 0x0d, 0x0e, 0x0f]
                       [0x00, 0x01, 0x02, 0x03, 0x04, 0x05, 0x06, 0x07,
                        0x08, 0x09, 0x0a, 0x0b, 0x0c, 0x0d, 0x0e];
     Some (got = 0xa129ca6149be45e5)
   }"

section \<open>The bit reader\<close>

record bit_reader =
  br_data :: "byte list"
  br_len :: nat
  br_byte_pos :: nat
  br_bit_pos :: int
  br_exhausted :: bool

definition bit_reader_init :: "byte list \<Rightarrow> nat \<Rightarrow> bit_reader" where
  "bit_reader_init data len =
     \<lparr>br_data = data, br_len = len, br_byte_pos = 0, br_bit_pos = 7, br_exhausted = (len = 0)\<rparr>"

definition bit_reader_read_bit :: "bit_reader \<Rightarrow> (int \<times> bit_reader) option" where
  "bit_reader_read_bit br =
     (if br_exhausted br then Some (-1, br)
      else do {
        ASSERT (br_byte_pos br < length (br_data br) \<and> 0 \<le> br_bit_pos br);
        let v = of_bool (bit (br_data br ! br_byte_pos br) (nat (br_bit_pos br)));
        let br = br\<lparr>br_bit_pos := br_bit_pos br - 1\<rparr>;
        let br = (if br_bit_pos br < 0
                  then (let br = br\<lparr>br_bit_pos := 7, br_byte_pos := br_byte_pos br + 1\<rparr> in
                        if br_len br \<le> br_byte_pos br then br\<lparr>br_exhausted := True\<rparr> else br)
                  else br);
        Some (v, br)
      })"

primrec read_bits_loop :: "nat \<Rightarrow> int \<Rightarrow> bit_reader \<Rightarrow> (int \<times> bit_reader) option" where
  "read_bits_loop 0 val br = Some (val, br)"
| "read_bits_loop (Suc i) val br = do {
     (b, br) \<leftarrow> bit_reader_read_bit br;
     if b < 0 then Some (-1, br) else read_bits_loop i (push_bit 1 val OR b) br
   }"

definition bit_reader_read_bits :: "bit_reader \<Rightarrow> nat \<Rightarrow> (int \<times> bit_reader) option" where
  "bit_reader_read_bits br n = read_bits_loop n 0 br"

text \<open>The unary quotient; \<open>-1\<close> at the end of the data or past \<open>100000000\<close>.\<close>

function read_quotient :: "int \<Rightarrow> bit_reader \<Rightarrow> (int \<times> bit_reader) option" where
  "read_quotient q br = (case bit_reader_read_bit br of None \<Rightarrow> None
     | Some (b, br) \<Rightarrow>
         if b < 0 then Some (-1, br)
         else if b = 0 then Some (q, br)
         else if 100000000 < q + 1 then Some (-1, br)
         else read_quotient (q + 1) br)"
  by auto
termination by (relation "measure (\<lambda>(q, br). nat (100000001 - q))") auto

declare read_quotient.simps [simp del]

definition bit_reader_read_gr :: "bit_reader \<Rightarrow> nat \<Rightarrow> (int \<times> bit_reader) option" where
  "bit_reader_read_gr br P = do {
     (quotient, br) \<leftarrow> read_quotient 0 br;
     if quotient < 0 then Some (-1, br)
     else do {
       (remainder, br) \<leftarrow> bit_reader_read_bits br P;
       if remainder < 0 then Some (-1, br) else Some (quotient * 2 ^ P + remainder, br)
     }
   }"

section \<open>Membership\<close>

definition read_compactsize :: "byte list \<Rightarrow> nat \<Rightarrow> nat \<Rightarrow> (bool \<times> nat \<times> u64) option" where
  "read_compactsize data len pos =
     (if len \<le> pos then Some (True, pos, 0)
      else do {
        ASSERT (pos < length data);
        let c = data ! pos;
        let pos = pos + 1;
        let k = (if c < 253 then 0 else if c = 253 then 2 else if c = 254 then 4 else 8);
        if k = 0 then Some (False, pos, ucast c)
        else if len < pos + k then Some (True, pos, 0)
        else do {
          bs \<leftarrow> mem_read (Some data) pos k;
          Some (False, pos + k, le_word bs)
        }
      })"

definition GCS_P :: nat where "GCS_P = 19"
definition GCS_M :: u64 where "GCS_M = 784931"

text \<open>The high half of the 128-bit product maps a hash into \<open>[0, F)\<close>.\<close>

definition map_range :: "u64 \<Rightarrow> u64 \<Rightarrow> int" where
  "map_range h F = sint (ucast (drop_bit 64 (ucast h * ucast F :: 128 word)) :: u64)"

primrec query_hashes_of :: "byte list \<Rightarrow> u64 \<Rightarrow> byte list list \<Rightarrow> int list option" where
  "query_hashes_of key F [] = Some []"
| "query_hashes_of key F (x # xs) = do {
     h \<leftarrow> siphash_2_4 key x;
     hs \<leftarrow> query_hashes_of key F xs;
     Some (map_range h F # hs)
   }"

text \<open>The insertion sort: the inner loop moves larger values up from position \<open>j\<close> and puts
  \<open>v\<close> where it stops.\<close>

primrec shift_up :: "int list \<Rightarrow> int \<Rightarrow> nat \<Rightarrow> int list" where
  "shift_up qs v 0 = qs[0 := v]"
| "shift_up qs v (Suc j) = (if v < qs ! j then shift_up (qs[Suc j := qs ! j]) v j else qs[Suc j := v])"

definition insertion_sort :: "int list \<Rightarrow> int list" where
  "insertion_sort qs = fold (\<lambda>i qs. shift_up qs (qs ! i) i) [1..<length qs] qs"

partial_function (option) intersect :: "int list \<Rightarrow> nat \<Rightarrow> int \<Rightarrow> bit_reader \<Rightarrow> bool option" where
  [code]: "intersect qs q_idx filter_val br =
     (if length qs \<le> q_idx then Some False
      else let target = qs ! q_idx in
        if filter_val < 0 then Some False
        else if filter_val = target then Some True
        else if filter_val < target
        then do {
          (delta, br) \<leftarrow> bit_reader_read_gr br GCS_P;
          if delta < 0 then Some False
          else do {
            ASSERT (filter_val + delta < 2 ^ 63);
            intersect qs q_idx (filter_val + delta) br
          }
        }
        else intersect qs (q_idx + 1) filter_val br)"

text \<open>\<open>items\<close> is \<^const>\<open>None\<close> when \<open>items\<close> or \<open>itemLens\<close> is null; each item is its
  bytes.\<close>

definition gcs_filter_match_any ::
  "memory \<Rightarrow> nat \<Rightarrow> uint256 option \<Rightarrow> byte list list option \<Rightarrow> nat \<Rightarrow> bool option" where
  "gcs_filter_match_any filterData filterLen blockHash items n =
     (case (filterData, blockHash, items) of (Some data, Some bh, Some its) \<Rightarrow>
        if filterLen = 0 \<or> n = 0 then Some False
        else do {
          let key = take 16 (le_bytes bh);
          (r, pos, N) \<leftarrow> read_compactsize data filterLen 0;
          if r then Some False
          else if 10000000 < N then Some False
          else do {
            let F = N * GCS_M;
            if N = 0 then Some False
            else do {
              ASSERT (n \<le> length its);
              qs \<leftarrow> query_hashes_of key F (take n its);
              intersect (insertion_sort qs) 0 0 (bit_reader_init (drop pos data) (filterLen - pos))
            }
          }
        }
      | _ \<Rightarrow> Some False)"

section \<open>Specification\<close>

text \<open>The bits of a byte sequence, most significant first, and what they decode to.\<close>

definition byte_bits :: "byte \<Rightarrow> bool list" where
  "byte_bits b = map (bit b) [7, 6, 5, 4, 3, 2, 1, 0]"

definition bits_of :: "byte list \<Rightarrow> bool list" where
  "bits_of bs = concat (map byte_bits bs)"

definition bits_val :: "bool list \<Rightarrow> int" where
  "bits_val bs = foldl (\<lambda>v b. 2 * v + of_bool b) 0 bs"

fun dec_unary :: "int \<Rightarrow> bool list \<Rightarrow> (int \<times> bool list) option" where
  "dec_unary q [] = None"
| "dec_unary q (False # bs) = Some (q, bs)"
| "dec_unary q (True # bs) = (if 100000000 < q + 1 then None else dec_unary (q + 1) bs)"

definition dec_gr :: "bool list \<Rightarrow> (int \<times> bool list) option" where
  "dec_gr bs = (case dec_unary 0 bs of None \<Rightarrow> None
     | Some (q, bs) \<Rightarrow> if length bs < 19 then None
         else Some (q * 2 ^ 19 + bits_val (take 19 bs), drop 19 bs))"

lemma dec_unary_length: "dec_unary q bs = Some (q', bs') \<Longrightarrow> length bs' < length bs"
  by (induction q bs rule: dec_unary.induct) (auto split: if_splits)

lemma dec_gr_length: "dec_gr bs = Some (d, bs') \<Longrightarrow> length bs' < length bs"
  by (auto simp: dec_gr_def dest!: dec_unary_length split: option.splits if_splits)

function dec_values :: "int \<Rightarrow> bool list \<Rightarrow> int list" where
  "dec_values v bs = (case dec_gr bs of None \<Rightarrow> [] | Some (d, bs') \<Rightarrow> (v + d) # dec_values (v + d) bs')"
  by auto
termination by (relation "measure (length \<circ> snd)") (auto dest: dec_gr_length)

declare dec_values.simps [simp del]

definition br_wf :: "bit_reader \<Rightarrow> bool" where
  "br_wf br \<longleftrightarrow> br_len br \<le> length (br_data br) \<and> 0 \<le> br_bit_pos br \<and> br_bit_pos br \<le> 7 \<and>
     br_exhausted br = (br_len br \<le> br_byte_pos br)"

definition br_bits :: "bit_reader \<Rightarrow> bool list" where
  "br_bits br = drop (8 * br_byte_pos br + nat (7 - br_bit_pos br)) (bits_of (take (br_len br) (br_data br)))"

section \<open>Sorting\<close>

lemma insort_append_greater: "v < x \<Longrightarrow> insort v (xs @ [x]) = insort v xs @ [x]"
  by (induction xs) auto

lemma insort_append_le:
  assumes "sorted (xs @ [v])"
  shows "insort v xs = xs @ [v]"
proof -
  have "sort (insort v xs) = xs @ [v]" using assms by (intro properties_for_sort) simp_all
  moreover have "sorted (insort v xs)" using assms by (simp add: sorted_append sorted_insort)
  ultimately show ?thesis by (simp add: sorted_sort_id)
qed

lemma shift_up_insort:
  assumes "j < length qs" and "sorted (take j qs)"
  shows "shift_up qs v j = insort v (take j qs) @ drop (Suc j) qs"
  using assms
proof (induction j arbitrary: qs)
  case 0
  then show ?case by (cases qs) auto
next
  case (Suc j)
  have t: "take (Suc j) qs = take j qs @ [qs ! j]" using Suc.prems by (simp add: take_Suc_conv_app_nth)
  have s: "sorted (take j qs)" "\<forall>x\<in>set (take j qs). x \<le> qs ! j"
    using Suc.prems(2) unfolding t by (auto simp: sorted_append)
  show ?case
  proof (cases "v < qs ! j")
    case True
    have "shift_up (qs[Suc j := qs ! j]) v j = insort v (take j qs) @ drop (Suc j) (qs[Suc j := qs ! j])"
      using Suc.IH [of "qs[Suc j := qs ! j]"] Suc.prems s by simp
    also have "drop (Suc j) (qs[Suc j := qs ! j]) = qs ! j # drop (Suc (Suc j)) qs"
      using Suc.prems(1) by (simp add: upd_conv_take_nth_drop)
    finally show ?thesis using True t by (simp add: insort_append_greater)
  next
    case False
    then have "sorted (take (Suc j) qs @ [v])" using s t by (auto simp: sorted_append)
    with False Suc.prems show ?thesis by (simp add: insort_append_le upd_conv_take_nth_drop)
  qed
qed

lemma insertion_sort_correct: "insertion_sort qs = sort qs"
proof -
  have "sorted (take m r) \<and> mset r = mset qs"
    if "1 \<le> m" "m \<le> length qs" "r = fold (\<lambda>i qs. shift_up qs (qs ! i) i) [1..<m] qs" for m r
    using that
  proof (induction m arbitrary: r)
    case (Suc m)
    show ?case
    proof (cases "m = 0")
      case True
      with Suc.prems show ?thesis by (cases qs) auto
    next
      case False
      define r0 where "r0 = fold (\<lambda>i qs. shift_up qs (qs ! i) i) [1..<m] qs"
      have r0: "sorted (take m r0)" "mset r0 = mset qs" using Suc.IH [OF _ _ r0_def] Suc.prems False by auto
      then have l: "m < length r0" using Suc.prems mset_eq_length by fastforce
      have "r = insort (r0 ! m) (take m r0) @ drop (Suc m) r0"
        using Suc.prems False shift_up_insort [OF l r0(1)] by (simp add: r0_def)
      moreover have "length (insort (r0 ! m) (take m r0)) = Suc m" using l by simp
      moreover have "mset r0 = mset (take m r0 @ r0 ! m # drop (Suc m) r0)"
        using l by (simp flip: id_take_nth_drop)
      ultimately show ?thesis using r0 by (simp add: sorted_insort)
    qed
  qed simp
  note loop = this
  show ?thesis
  proof (cases "qs = []")
    case False
    then have "sorted (take (length qs) (insertion_sort qs)) \<and> mset (insertion_sort qs) = mset qs"
      by (intro loop) (auto simp: insertion_sort_def Suc_le_eq)
    then show ?thesis by (metis mset_eq_length order_refl properties_for_sort take_all)
  qed (simp add: insertion_sort_def)
qed

section \<open>Decoding\<close>

lemma length_byte_bits [simp]: "length (byte_bits b) = 8"
  by (simp add: byte_bits_def)

lemma length_bits_of [simp]: "length (bits_of bs) = 8 * length bs"
  by (induction bs) (simp_all add: bits_of_def)

lemma nth_bits_of:
  "i < length bs \<Longrightarrow> k < 8 \<Longrightarrow> bits_of bs ! (8 * i + k) = bit (bs ! i) (7 - k)"
proof (induction bs arbitrary: i)
  case (Cons b bs)
  have "byte_bits b ! k = bit b (7 - k)"
    using Cons.prems(2) by (auto simp: byte_bits_def nth_Cons' numeral_eq_Suc less_Suc_eq)
  with Cons show ?case
    by (cases i) (auto simp: bits_of_def nth_append)
qed simp

lemma read_bit_ok:
  assumes wf: "br_wf br"
  shows "case br_bits br of [] \<Rightarrow> bit_reader_read_bit br = Some (-1, br)
     | b # bs \<Rightarrow> \<exists>br'. bit_reader_read_bit br = Some (of_bool b, br') \<and> br_wf br' \<and> br_bits br' = bs"
proof (cases "br_exhausted br")
  case True
  then show ?thesis using wf by (simp add: br_bits_def br_wf_def bit_reader_read_bit_def)
next
  case False
  let ?xs = "take (br_len br) (br_data br)" and ?i = "br_byte_pos br" and ?k = "nat (7 - br_bit_pos br)"
  let ?p = "8 * ?i + ?k"
  have i: "?i < br_len br" "?i < length (br_data br)" and k: "?k < 8" and bp: "7 - ?k = nat (br_bit_pos br)"
    using False wf by (auto simp: br_wf_def)
  have "br_bits br = bits_of ?xs ! ?p # drop (Suc ?p) (bits_of ?xs)"
    unfolding br_bits_def using i k wf by (intro Cons_nth_drop_Suc [symmetric]) (auto simp: br_wf_def)
  moreover have "bits_of ?xs ! ?p = bit (br_data br ! ?i) (nat (br_bit_pos br))"
    using nth_bits_of [of ?i ?xs ?k] i k bp wf by (simp add: br_wf_def)
  ultimately have b: "br_bits br = bit (br_data br ! ?i) (nat (br_bit_pos br)) # drop (Suc ?p) (bits_of ?xs)"
    by simp
  show ?thesis
  proof (cases "br_bit_pos br = 0")
    case True
    let ?br = "br\<lparr>br_bit_pos := 7, br_byte_pos := ?i + 1, br_exhausted := (br_len br \<le> ?i + 1)\<rparr>"
    have "bit_reader_read_bit br = Some (of_bool (bit (br_data br ! ?i) (nat (br_bit_pos br))), ?br)"
      using True False i by (cases br) (simp add: bit_reader_read_bit_def Let_def)
    moreover have "br_wf ?br" using wf by (simp add: br_wf_def)
    moreover have "Suc ?p = 8 * (?i + 1)" using True by simp
    then have "br_bits ?br = drop (Suc ?p) (bits_of ?xs)" by (simp add: br_bits_def)
    ultimately show ?thesis using b by simp
  next
    case nz: False
    let ?br = "br\<lparr>br_bit_pos := br_bit_pos br - 1\<rparr>"
    have "bit_reader_read_bit br = Some (of_bool (bit (br_data br ! ?i) (nat (br_bit_pos br))), ?br)"
      using nz False i wf by (simp add: bit_reader_read_bit_def br_wf_def)
    moreover have "br_wf ?br" using wf nz by (simp add: br_wf_def)
    moreover have "8 * ?i + nat (7 - br_bit_pos ?br) = Suc ?p" using nz wf by (auto simp: br_wf_def)
    then have "br_bits ?br = drop (Suc ?p) (bits_of ?xs)" by (simp add: br_bits_def)
    ultimately show ?thesis using b by simp
  qed
qed

lemma push_or: "b = 0 \<or> b = 1 \<Longrightarrow> push_bit 1 v OR b = 2 * v + (b :: int)"
  by (auto simp: push_bit_eq_mult or_one_eq)

lemma read_bits_ok:
  assumes "br_wf br"
  shows "if length (br_bits br) < n then \<exists>br'. read_bits_loop n v br = Some (-1, br')
     else \<exists>br'. read_bits_loop n v br = Some (foldl (\<lambda>v b. 2 * v + of_bool b) v (take n (br_bits br)), br') \<and>
        br_wf br' \<and> br_bits br' = drop n (br_bits br)"
  using assms
proof (induction n arbitrary: v br)
  case (Suc n)
  show ?case
  proof (cases "br_bits br")
    case Nil
    with read_bit_ok [OF Suc.prems] show ?thesis by simp
  next
    case (Cons b bs)
    with read_bit_ok [OF Suc.prems] obtain br' where
      "bit_reader_read_bit br = Some (of_bool b, br')" "br_wf br'" "br_bits br' = bs" by auto
    note br' = this
    have "read_bits_loop (Suc n) v br = read_bits_loop n (2 * v + of_bool b) br'"
      using br'(1) push_or [of "of_bool b" v] by (cases b) (simp_all add: mult.commute)
    with Suc.IH [OF br'(2), of "2 * v + of_bool b"] show ?thesis unfolding br'(3) Cons by simp
  qed
qed simp

lemma foldl_bits_nonneg: "0 \<le> v \<Longrightarrow> 0 \<le> foldl (\<lambda>v b. 2 * v + of_bool b) (v :: int) bs"
  by (induction bs arbitrary: v) auto

lemma foldl_bits_less: "0 \<le> v \<Longrightarrow> foldl (\<lambda>v b. 2 * v + of_bool b) (v :: int) bs < (v + 1) * 2 ^ length bs"
proof (induction bs arbitrary: v)
  case (Cons b bs)
  have "foldl (\<lambda>v b. 2 * v + of_bool b) (2 * v + of_bool b) bs < (2 * v + of_bool b + 1) * 2 ^ length bs"
    using Cons by simp
  also have "\<dots> \<le> (2 * v + 2) * 2 ^ length bs" by (intro mult_right_mono) auto
  finally show ?case by (simp add: algebra_simps)
qed simp

lemma read_quotient_ok:
  assumes "br_wf br"
  shows "case dec_unary q (br_bits br) of None \<Rightarrow> \<exists>br'. read_quotient q br = Some (-1, br')
     | Some (q', bs) \<Rightarrow> \<exists>br'. read_quotient q br = Some (q', br') \<and> br_wf br' \<and> br_bits br' = bs"
  using assms
proof (induction q "br_bits br" arbitrary: br rule: dec_unary.induct)
  case (1 q)
  with read_bit_ok [of br] show ?case by (simp add: read_quotient.simps)
next
  case (2 q bs)
  then obtain br' where "bit_reader_read_bit br = Some (0, br')" "br_wf br'" "br_bits br' = bs"
    using read_bit_ok [of br] by (auto split: list.splits)
  then show ?case by (simp add: read_quotient.simps flip: 2(1))
next
  case (3 q bs)
  with read_bit_ok [of br] obtain br' where br': "bit_reader_read_bit br = Some (1, br')" "br_wf br'" "br_bits br' = bs"
    by (auto split: list.splits)
  show ?case
  proof (cases "100000000 < q + 1")
    case False
    then have e: "dec_unary q (br_bits br) = dec_unary (q + 1) bs" by (simp flip: 3(2))
    have r: "read_quotient q br = read_quotient (q + 1) br'"
      using br'(1) False by (simp add: read_quotient.simps [of q br])
    show ?thesis unfolding e r using 3(1) [OF False br'(3) [symmetric] br'(2)] unfolding br'(3) .
  qed (use br' in \<open>simp add: read_quotient.simps [of q br] flip: 3(2)\<close>)
qed

lemma dec_unary_bounds: "dec_unary q bs = Some (q', bs') \<Longrightarrow> 0 \<le> q \<Longrightarrow> q \<le> 100000000 \<Longrightarrow> 0 \<le> q' \<and> q' \<le> 100000000"
  by (induction q bs rule: dec_unary.induct) (auto split: if_splits)

lemma dec_gr_bounds:
  assumes "dec_gr bs = Some (d, bs')"
  shows "0 \<le> d \<and> d < 2 ^ 46"
proof -
  obtain q bs1 where q: "dec_unary 0 bs = Some (q, bs1)" "d = q * 2 ^ 19 + bits_val (take 19 bs1)" "19 \<le> length bs1"
    using assms by (auto simp: dec_gr_def split: option.splits if_splits)
  moreover have "0 \<le> bits_val (take 19 bs1)" "bits_val (take 19 bs1) < 2 ^ 19"
    using foldl_bits_nonneg [of 0 "take 19 bs1"] foldl_bits_less [of 0 "take 19 bs1"] q(3)
    by (simp_all add: bits_val_def)
  ultimately show ?thesis using dec_unary_bounds [OF q(1)] by auto
qed

lemma read_gr_ok:
  assumes "br_wf br"
  shows "case dec_gr (br_bits br) of None \<Rightarrow> \<exists>br'. bit_reader_read_gr br GCS_P = Some (-1, br')
     | Some (d, bs) \<Rightarrow> \<exists>br'. bit_reader_read_gr br GCS_P = Some (d, br') \<and> br_wf br' \<and> br_bits br' = bs"
proof (cases "dec_unary 0 (br_bits br)")
  case None
  with read_quotient_ok [OF assms, of 0] show ?thesis by (auto simp: dec_gr_def bit_reader_read_gr_def)
next
  case (Some p)
  obtain q bs where p: "p = (q, bs)" by fastforce
  obtain br' where br': "read_quotient 0 br = Some (q, br')" "br_wf br'" "br_bits br' = bs"
    using read_quotient_ok [OF assms, of 0] Some p by auto
  have "0 \<le> q" using dec_unary_bounds Some p by fastforce
  with read_bits_ok [OF br'(2), of 19 0] br' Some p foldl_bits_nonneg [of 0 "take 19 bs"] show ?thesis
    by (auto simp: dec_gr_def bit_reader_read_gr_def bit_reader_read_bits_def GCS_P_def bits_val_def
        split: if_splits)
qed


section \<open>The intersection\<close>

lemma dec_values_ge:
  "0 \<le> v \<Longrightarrow> \<forall>x\<in>set (dec_values v bs). v \<le> x"
proof (induction v bs rule: dec_values.induct)
  case (1 v bs)
  show ?case
  proof (cases "dec_gr bs")
    case (Some p)
    obtain d bs' where p: "p = (d, bs')" by fastforce
    have "0 \<le> d" using dec_gr_bounds Some p by blast
    with 1 Some p show ?thesis by (subst dec_values.simps) force
  qed (simp add: dec_values.simps)
qed

lemma intersect_ok:
  assumes "br_wf br" and "sorted qs" and "\<forall>x\<in>set qs. x < 2 ^ 62" and "0 \<le> v"
  shows "intersect qs i v br = Some (\<exists>t\<in>set (drop i qs). t \<in> set (v # dec_values v (br_bits br)))"
  using assms(1,4)
proof (induction "length qs - i + length (br_bits br)" arbitrary: i v br rule: less_induct)
  case less
  show ?case
  proof (cases "i < length qs")
    case False
    then show ?thesis by (simp add: intersect.simps)
  next
    case i: True
    let ?t = "qs ! i" and ?vs = "dec_values v (br_bits br)"
    have d: "drop i qs = ?t # drop (Suc i) qs" using i by (rule Cons_nth_drop_Suc [symmetric])
    have "sorted (drop i qs)" using assms(2) by (rule sorted_wrt_drop)
    then have ge: "\<forall>x\<in>set (drop i qs). ?t \<le> x" using d by auto
    consider "v = ?t" | "v < ?t" | "?t < v" by linarith
    then show ?thesis
    proof cases
      case 1
      with i less.prems d show ?thesis by (subst intersect.simps) auto
    next
      case 2
      then have nv: "v \<notin> set (drop i qs)" using ge by auto
      show ?thesis
      proof (cases "dec_gr (br_bits br)")
        case None
        then obtain br' where "bit_reader_read_gr br GCS_P = Some (-1, br')"
          using read_gr_ok [OF less.prems(1)] by auto
        with None 2 i less.prems nv show ?thesis
          by (subst intersect.simps) (auto simp: dec_values.simps [of v])
      next
        case (Some p)
        obtain dl bs where p: "p = (dl, bs)" by fastforce
        obtain br' where br': "bit_reader_read_gr br GCS_P = Some (dl, br')" "br_wf br'" "br_bits br' = bs"
          using read_gr_ok [OF less.prems(1)] Some p by auto
        have b: "0 \<le> dl" "dl < 2 ^ 46" using dec_gr_bounds Some p by blast+
        have "v < 2 ^ 62" using 2 assms(3) i by (meson less_trans nth_mem)
        then have ov: "v + dl < 2 ^ 63" using b by simp
        have "length (br_bits br') < length (br_bits br)" using dec_gr_length Some p br' by blast
        then have "intersect qs i (v + dl) br' =
            Some (\<exists>t\<in>set (drop i qs). t \<in> set ((v + dl) # dec_values (v + dl) (br_bits br')))"
          using less.prems b br'(2) i by (intro less.hyps) auto
        moreover have "intersect qs i v br = intersect qs i (v + dl) br'"
          using 2 i br' b ov less.prems by (subst intersect.simps) simp
        ultimately show ?thesis
          using nv Some p br'(3) by (auto simp: dec_values.simps [of v])
      qed
    next
      case 3
      then have "?t \<notin> set (v # ?vs)" using dec_values_ge [OF less.prems(2), of "br_bits br"] by auto
      moreover have "intersect qs (i + 1) v br = Some (\<exists>t\<in>set (drop (i + 1) qs). t \<in> set (v # ?vs))"
        using less.prems i by (intro less.hyps) auto
      moreover have "intersect qs i v br = intersect qs (i + 1) v br"
        using 3 i less.prems by (subst intersect.simps) simp
      ultimately show ?thesis using d by simp
    qed
  qed
qed

section \<open>The query\<close>

definition item_hash :: "byte list \<Rightarrow> u64 \<Rightarrow> byte list \<Rightarrow> int" where
  "item_hash key F x = map_range (the (siphash_2_4 key x)) F"

lemma siphash_total: "16 \<le> length key \<Longrightarrow> siphash_2_4 key x \<noteq> None"
  by (simp add: siphash_2_4_def Let_def split: prod.splits)

lemma query_hashes_ok:
  "16 \<le> length key \<Longrightarrow> query_hashes_of key F xs = Some (map (item_hash key F) xs)"
proof (induction xs)
  case (Cons x xs)
  then obtain h where "siphash_2_4 key x = Some h" using siphash_total [of key x] by auto
  with Cons show ?case by (simp add: item_hash_def)
qed simp

lemma map_range_bounds:
  assumes "F \<noteq> 0" and "unat F < 2 ^ 62"
  shows "0 \<le> map_range h F \<and> map_range h F < uint F"
proof -
  let ?w = "ucast h * ucast F :: 128 word"
  have h: "uint h < 2 ^ 64" using unsigned_less [of h] by simp
  have F0: "0 < uint F" using assms(1) by (simp add: word_neq_0_conv word_less_def)
  have hF: "uint h * uint F < 2 ^ 64 * uint F" using h F0 by (intro mult_strict_right_mono)
  have "int (unat F) < int (2 ^ 62)" using assms(2) by (simp only: of_nat_less_iff)
  then have F: "uint F < 2 ^ 62" by simp
  have "uint h * uint F < 2 ^ 64 * 2 ^ 62"
    using h F F0 by (intro mult_strict_mono) simp_all
  then have lt: "uint h * uint F < 2 ^ 128" by simp
  have "take_bit 128 (uint h) = uint h" "take_bit 128 (uint F) = uint F"
    using h F F0 by (intro take_bit_int_eq_self; simp)+
  then have "uint ?w = uint h * uint F"
    using lt F0 by (simp add: uint_word_ariths unsigned_ucast_eq mod_pos_pos_trivial)
  moreover have "uint (drop_bit 64 ?w) = drop_bit 64 (uint ?w)" by (simp only: drop_bit_eq_div uint_div_distrib) simp
  ultimately have u: "uint (drop_bit 64 ?w) = uint h * uint F div 2 ^ 64" by (simp only: drop_bit_eq_div)
  have q: "uint h * uint F div 2 ^ 64 < uint F" using hF by (simp add: div_less_iff_less_mult mult.commute)
  define x where "x = uint h * uint F div 2 ^ 64"
  have x: "0 \<le> x" "x < 2 ^ 62" using q F F0 by (simp_all add: x_def pos_imp_zdiv_nonneg_iff)
  have "take_bit 64 x = x" using x by (intro take_bit_int_eq_self) simp_all
  then have "uint (ucast (drop_bit 64 ?w) :: u64) = x"
    using u by (simp only: unsigned_ucast_eq x_def) simp
  moreover have "signed_take_bit 63 x = x" using x by (intro signed_take_bit_int_eq_self) simp_all
  ultimately have "sint (ucast (drop_bit 64 ?w) :: u64) = x" by (simp add: sint_uint)
  then show ?thesis unfolding map_range_def using q x by (simp add: x_def)
qed

lemma compactsize_total:
  assumes "len \<le> length data"
  shows "\<exists>r pos' N. read_compactsize data len pos = Some (r, pos', N) \<and> (\<not> r \<longrightarrow> pos' \<le> len)"
  using assms by (auto simp: read_compactsize_def mem_read_def Let_def)

lemma match_any_eq:
  assumes len: "filterLen \<le> length data" "filterLen \<noteq> 0" and n: "0 < n" "n \<le> length its"
    and cs: "read_compactsize data filterLen 0 = Some (False, pos, N)" "0 < N" "N \<le> 10000000"
  shows "gcs_filter_match_any (Some data) filterLen (Some bh) (Some its) n =
     Some (\<exists>x\<in>set (take n its). item_hash (take 16 (le_bytes bh)) (N * GCS_M) x \<in>
       set (0 # dec_values 0 (bits_of (drop pos (take filterLen data)))))"
proof -
  let ?key = "take 16 (le_bytes bh)" and ?F = "N * GCS_M" and ?br = "bit_reader_init (drop pos data) (filterLen - pos)"
  let ?qs = "map (item_hash ?key ?F) (take n its)"
  have u: "0 < unat N" "unat N \<le> 10000000" using cs(2,3) by (simp_all add: word_less_nat_alt word_le_nat_alt)
  then have F: "unat ?F = unat N * 784931" by (simp add: GCS_M_def unat_mult_lem [THEN iffD1])
  then have "?F \<noteq> 0" using u by (metis mult_is_0 not_gr_zero unat_0 zero_neq_numeral)
  have u62: "unat ?F < 2 ^ 62" unfolding F using u(2) by simp
  then have "int (unat ?F) < int (2 ^ 62)" by (simp only: of_nat_less_iff)
  then have uF: "uint ?F < 2 ^ 62" by simp
  have qb: "\<forall>q\<in>set (insertion_sort ?qs). q < 2 ^ 62"
    using map_range_bounds [OF \<open>?F \<noteq> 0\<close> u62] uF
    by (auto simp: insertion_sort_correct item_hash_def simp del: power_numeral intro: less_trans)
  have pos: "pos \<le> filterLen" using compactsize_total [OF len(1), of 0] cs(1) by auto
  then have wf: "br_wf ?br" using len by (auto simp: br_wf_def bit_reader_init_def)
  have bits: "br_bits ?br = bits_of (drop pos (take filterLen data))"
    by (simp add: br_bits_def bit_reader_init_def drop_take)
  have "intersect (insertion_sort ?qs) 0 0 ?br =
      Some (\<exists>t\<in>set ?qs. t \<in> set (0 # dec_values 0 (bits_of (drop pos (take filterLen data)))))"
    using intersect_ok [OF wf _ qb, of 0 0] bits by (simp add: insertion_sort_correct)
  moreover have "query_hashes_of ?key ?F (take n its) = Some ?qs" by (rule query_hashes_ok) simp
  moreover have "\<not> 10000000 < N" "N \<noteq> 0" using cs by auto
  ultimately show ?thesis
    using len n cs(1) by (simp add: gcs_filter_match_any_def)
qed

subsection \<open>Encoding\<close>

text \<open>The filter a BIP158 encoder produces for a sorted list of values.\<close>

definition enc_gr :: "int \<Rightarrow> bool list" where
  "enc_gr d = replicate (nat (d div 2 ^ 19)) True @ False # map (bit d) (rev [0..<19])"

primrec enc_values :: "int \<Rightarrow> int list \<Rightarrow> bool list" where
  "enc_values prev [] = []"
| "enc_values prev (v # vs) = enc_gr (v - prev) @ enc_values v vs"

lemma foldl_bits_start: "foldl (\<lambda>v b. 2 * v + of_bool b) (v :: int) bs = v * 2 ^ length bs + bits_val bs"
proof (induction bs arbitrary: v)
  case (Cons b bs)
  from Cons [of "2 * v + of_bool b"] Cons [of "of_bool b"] show ?case
    by (simp add: bits_val_def algebra_simps)
qed (simp add: bits_val_def)

lemma bits_val_take_bit: "bits_val (map (bit d) (rev [0..<n])) = take_bit n d"
proof (induction n)
  case (Suc n)
  have "bits_val (map (bit d) (rev [0..<Suc n])) = of_bool (bit d n) * 2 ^ n + bits_val (map (bit d) (rev [0..<n]))"
    using foldl_bits_start [of "of_bool (bit d n)" "map (bit d) (rev [0..<n])"] by (simp add: bits_val_def)
  with Suc show ?case by (simp add: take_bit_Suc_from_most)
qed (simp add: bits_val_def)

lemma dec_unary_replicate:
  "0 \<le> q \<Longrightarrow> q + int k \<le> 100000000 \<Longrightarrow> dec_unary q (replicate k True @ False # bs) = Some (q + int k, bs)"
  by (induction k arbitrary: q) auto

lemma dec_enc_gr:
  assumes "0 \<le> d" and "d < 100000000 * 2 ^ 19"
  shows "dec_gr (enc_gr d @ bs) = Some (d, bs)"
proof -
  have "d div 2 ^ 19 \<le> 100000000" using assms by simp
  then have "dec_unary 0 (enc_gr d @ bs) = Some (d div 2 ^ 19, map (bit d) (rev [0..<19]) @ bs)"
    using dec_unary_replicate [of 0 "nat (d div 2 ^ 19)"] assms(1)
    by (simp add: enc_gr_def pos_imp_zdiv_nonneg_iff del: upt_rec_numeral)
  moreover have "d div 2 ^ 19 * 2 ^ 19 + take_bit 19 d = d" by (simp add: take_bit_eq_mod)
  ultimately show ?thesis
    by (simp add: dec_gr_def bits_val_take_bit del: upt_rec_numeral)
qed

lemma dec_short: "length bs < 20 \<Longrightarrow> dec_gr bs = None"
  by (auto simp: dec_gr_def split: option.splits dest!: dec_unary_length)

lemma dec_enc_values:
  assumes "sorted (v # vs)" and "\<forall>x\<in>set vs. x < v + 100000000 * 2 ^ 19" and "length pad < 20"
  shows "dec_values v (enc_values v vs @ pad) = vs"
  using assms(1,2)
proof (induction vs arbitrary: v)
  case Nil
  then show ?case using dec_short [OF assms(3)] by (simp add: dec_values.simps)
next
  case (Cons x vs)
  have "dec_gr (enc_gr (x - v) @ enc_values x vs @ pad) = Some (x - v, enc_values x vs @ pad)"
    using Cons.prems by (intro dec_enc_gr) auto
  moreover have "dec_values x (enc_values x vs @ pad) = vs"
    using Cons.prems by (intro Cons.IH) force+
  ultimately show ?case by (subst dec_values.simps) simp
qed

section \<open>Properties\<close>

text \<open>C36: \<open>gcs_filter_match_any\<close> returns on every filter a peer may send: no read outside the
  filter, no overflow of the running value, no endless loop.\<close>

theorem gcs_match_total:
  assumes "filterLen \<le> length data" and "n \<le> length its"
  shows "\<exists>r. gcs_filter_match_any (Some data) filterLen (Some bh) (Some its) n = Some r"
proof (cases "filterLen = 0 \<or> n = 0")
  case False
  obtain r pos N where cs: "read_compactsize data filterLen 0 = Some (r, pos, N)"
    using compactsize_total [OF assms(1)] by blast
  show ?thesis
  proof (cases "r \<or> 10000000 < N \<or> N = 0")
    case True
    with cs False show ?thesis by (auto simp: gcs_filter_match_any_def)
  next
    case False
    with match_any_eq [OF assms(1) _ _ assms(2), of pos N bh] cs \<open>\<not> (filterLen = 0 \<or> n = 0)\<close> show ?thesis
      by (auto simp: word_neq_0_conv not_less)
  qed
qed (auto simp: gcs_filter_match_any_def)

theorem gcs_match_total_witness:
  "\<exists>r. gcs_filter_match_any (Some [1, 0xFF]) 2 (Some 7) (Some [[0x51]]) 1 = Some r"
  using gcs_match_total [of 2 "[1, 0xFF]" 1 "[[0x51]]" 7] by simp

text \<open>C31: on a well-formed filter the test is exact: when the bits after the count encode the
  sorted values \<open>vs\<close>, followed by less than 20 bits of padding, the result is true iff
  some item hashes to one of \<open>vs\<close> - or to 0, which the running value starts from, so an item
  with hash 0 matches every filter. In particular no item of the filter is ever missed.\<close>

theorem gcs_match_exact:
  assumes "filterLen \<le> length data" and "0 < n" and "n \<le> length its"
    and "read_compactsize data filterLen 0 = Some (False, pos, N)" and "0 < N" and "N \<le> 10000000"
    and "bits_of (drop pos (take filterLen data)) = enc_values 0 vs @ pad" and "length pad < 20"
    and "sorted vs" and "\<forall>v\<in>set vs. 0 \<le> v \<and> v < 2 ^ 45"
  shows "gcs_filter_match_any (Some data) filterLen (Some bh) (Some its) n =
     Some (\<exists>x\<in>set (take n its). item_hash (take 16 (le_bytes bh)) (N * GCS_M) x \<in> insert 0 (set vs))"
proof -
  have "dec_values 0 (enc_values 0 vs @ pad) = vs"
    using assms(8-10) by (intro dec_enc_values) force+
  moreover have "filterLen \<noteq> 0" using assms(4) by (cases "filterLen = 0") (simp_all add: read_compactsize_def)
  ultimately show ?thesis using match_any_eq [OF assms(1) _ assms(2-6), of bh] assms(7) by simp
qed

theorem gcs_match_exact_witness:
  "gcs_filter_match_any (Some [1, 0, 0, 0x50]) 4 (Some 7) (Some [[0x51], [0x52]]) 2 =
     Some (\<exists>x\<in>{[0x51], [0x52]}. item_hash (take 16 (le_bytes (7 :: uint256))) (1 * GCS_M) x \<in> insert 0 {5})"
proof -
  have cs: "read_compactsize [1, 0, 0, 0x50] 4 0 = Some (False, 1, 1)"
    by (simp add: read_compactsize_def)
  have bits: "bits_of (drop 1 (take 4 [1, 0, 0, 0x50])) = enc_values 0 [5] @ [False, False, False, False]"
    by code_simp
  show ?thesis
    using gcs_match_exact [of 4 "[1, 0, 0, 0x50]" 2 "[[0x51], [0x52]]" 1 1 "[5]" _ 7, OF _ _ _ cs _ _ bits]
    by simp
qed

text \<open>The insertion sort of the query hashes sorts.\<close>

theorem insertion_sort_sorts: "insertion_sort qs = sort qs"
  by (rule insertion_sort_correct)

end
