(* ===== verification/Bitc.thy ===== *)
theory Bitc
  imports Txdb Peerstats Addrbook Gcs
begin

text \<open>
  The state of the running client: \<open>struct BITCApp\<close> of \<^verbatim>\<open>src/core/bitc.h\<close>, the peer group of
  \<^verbatim>\<open>src/core/peergroup.h\<close> and the peers of \<^verbatim>\<open>src/core/peer.c\<close>, with the operations of \<^verbatim>\<open>peer.c\<close> that send
  messages.

  Peers are objects in a heap, \<open>b_peers\<close>, where a freed one is \<^const>\<open>None\<close>; a pointer to a peer is its index
  and is not used again for another peer. The list of peers is the list of these indices, in the order
  of the ring (see \<open>Circlist\<close>). The messages that are handed to the network are the log \<open>b_sent\<close>:
  \<open>netasync_send\<close> queues them and cannot fail on a connected socket.

  What surrounds the client is the record \<open>env\<close>: OpenSSL and LevelDB, the command line, the reading of
  the clock (one for each handler that runs), the outcomes of writing files, the random numbers, and
  whether connecting fails at once. The user interface and the log are not modelled.
\<close>

section \<open>State\<close>

text \<open>Division of C integers, which rounds towards zero.\<close>

definition c_div :: "int \<Rightarrow> int \<Rightarrow> int" where
  "c_div a b = sgn a * sgn b * (\<bar>a\<bar> div \<bar>b\<bar>)"

datatype bitc_state = BITC_STATE_STARTING | BITC_STATE_UPDATE_HEADERS | BITC_STATE_UPDATE_TXDB | BITC_STATE_READY | BITC_STATE_EXITING

definition SYNC_STALL_USEC :: u64 where "SYNC_STALL_USEC = 10 * 1000 * 1000"
definition CFILTER_BATCH :: int where "CFILTER_BATCH = 1000"
definition BIP157_CHECKPOINT_INTERVAL :: int where "BIP157_CHECKPOINT_INTERVAL = 1000"
definition MAX_INFLIGHT_CHUNKS :: nat where "MAX_INFLIGHT_CHUNKS = 64"
definition CFHEADER_BATCH :: int where "CFHEADER_BATCH = 2000"
definition BTC_CFILTER_TYPE_BASIC :: byte where "BTC_CFILTER_TYPE_BASIC = 0"
definition BTC_SERVICE_NODE_NETWORK :: u64 where "BTC_SERVICE_NODE_NETWORK = 1"
definition BTC_SERVICE_NODE_COMPACT_FILTERS :: u64 where "BTC_SERVICE_NODE_COMPACT_FILTERS = push_bit 6 1"
definition BTC_SERVICE_NODE_NETWORK_LIMITED :: u64 where "BTC_SERVICE_NODE_NETWORK_LIMITED = push_bit 10 1"

record cf_pending_block =
  cp_hash :: uint256
  cp_height :: int
  cp_requestedFrom :: nat
  cp_requestTS :: u64

record cf_segment =
  sg_startHeight :: int
  sg_endHeight :: int
  sg_remaining :: int
  sg_assignedPeer :: "nat option"
  sg_avoidPeer :: "nat option"
  sg_progressTS :: u64
  sg_assignedTS :: u64
  sg_done :: bool

record tx_broadcast =
  txb_buf :: "buff option"
  txb_expiry :: u64

text \<open>The chunks and the pending blocks are lists, whose lengths are \<open>cfSegCount\<close> and \<open>cfBlocksPending\<close>; no
  array of chunks is the empty list.\<close>

record peergroup =
  pg_peer_list :: "nat list"
  pg_downloadPeer :: "nat option"
  pg_peerSequence :: u32
  pg_lastFilteredBlockReq :: uint256
  pg_configNeedWrite :: bool
  pg_lastBlk :: uint256
  pg_hash_broadcast :: "tx_broadcast hashtable"
  pg_numFetched :: int
  pg_numToFetch :: int
  pg_numHdrFetched :: int
  pg_numHdrToFetch :: int
  pg_heightTarget :: int
  pg_active :: u32
  pg_maxActive :: u32
  pg_minActiveInit :: u32
  pg_startTS :: u64
  pg_firstConnectTS :: u64
  pg_lastProgressTS :: u64
  pg_cfStore :: "cfheaderstore option"
  pg_peerStats :: "peerstats option"
  pg_cfScanFloor :: int
  pg_cfTipHeight :: int
  pg_cfVerified :: int
  pg_cfStopRequested :: bool
  pg_cfSeg :: "cf_segment list"
  pg_cfDoneContig :: nat
  pg_cfPending :: "cf_pending_block list"
  pg_cfhdrStartHeight :: int
  pg_cfhdrTipHeight :: int
  pg_cfhdrPrevHeader :: uint256
  pg_cfcheckptExpected :: "uint256 list option"
  pg_cfcheckptCount :: int
  pg_cfcheckptPeers :: int
  pg_cfcheckptAgreed :: int
  pg_cfcheckptVerified :: bool
  pg_cfhdrSyncStarted :: bool

record peer =
  p_recvBuf :: buff
  p_sendBuf :: "buff option"
  p_last_ts :: u64
  p_connectStartTS :: u64
  p_pingNonce :: u64
  p_connected :: bool
  p_got_version :: bool
  p_got_verack :: bool
  p_recvMsgHdr :: bool
  p_msgHdr :: btc_msg_header
  p_startingHeight :: u32
  p_protversion :: u32
  p_services :: u64
  p_paddr :: nat

record ('pk, 'db) bitc =
  b_state :: bitc_state
  b_stop :: bool
  b_blockStore :: blockstore
  b_wallet :: "'pk wallet"
  b_txdb :: "'db txdb"
  b_book :: addrbook
  b_config :: config
  b_peers :: "peer option list"
  b_pg :: peergroup
  b_sent :: "(nat \<times> btc_msg_type \<times> byte list) list"
  b_nrandom :: nat

text \<open>\<open>e_random\<close> are the results of \<open>random ()\<close>, of which \<open>b_nrandom\<close> have been used, and \<open>e_connect\<close> is, for an
  address, what \<open>netasync_connect\<close> reports at once, if it does: an error code, or \<open>0\<close> for a connection;
  \<open>e_resolve\<close> gives the four bytes of the address of a host.\<close>

record ('bn, 'b, 'pt, 'pk, 'db) env =
  e_ssl :: "('bn, 'b, 'pt, 'pk) openssl"
  e_ldb :: "'db leveldb"
  e_testnet :: bool
  e_updateAndExit :: bool
  e_syncAndExit :: bool
  e_stopAfterHeight :: int
  e_connectHost :: "string option"
  e_now :: u64
  e_headers_wr :: write_result
  e_cfheaders_wr :: "nat \<Rightarrow> write_result \<times> write_result"
  e_stats_wr :: "write_result \<times> bool"
  e_book_wr :: "bool \<times> write_result"
  e_config_wr :: "bool \<times> bool \<times> (nat \<Rightarrow> bool \<times> nat)"
  e_random :: "nat \<Rightarrow> nat"
  e_connect :: "nat \<Rightarrow> int option"
  e_resolve :: "string \<Rightarrow> byte list option"

abbreviation e_sha :: "('bn, 'b, 'pt, 'pk, 'db) env \<Rightarrow> byte list \<Rightarrow> uint256" where
  "e_sha env \<equiv> o_sha (e_ssl env)"

definition bitc_exiting :: "('pk, 'db) bitc \<Rightarrow> bool" where
  "bitc_exiting s \<longleftrightarrow> b_state s = BITC_STATE_EXITING"

definition bitc_state_ready :: "('pk, 'db) bitc \<Rightarrow> bool" where
  "bitc_state_ready s \<longleftrightarrow> b_state s = BITC_STATE_READY"

text \<open>The request to the main loop, which stops the program later, is the flag.\<close>

definition bitc_req_stop :: "('pk, 'db) bitc \<Rightarrow> ('pk, 'db) bitc" where
  "bitc_req_stop s = s\<lparr>b_stop := True\<rparr>"

abbreviation upd_pg :: "(peergroup \<Rightarrow> peergroup) \<Rightarrow> ('pk, 'db) bitc \<Rightarrow> ('pk, 'db) bitc" where
  "upd_pg f s \<equiv> s\<lparr>b_pg := f (b_pg s)\<rparr>"

section \<open>Peers\<close>

definition deref_peer :: "('pk, 'db) bitc \<Rightarrow> nat \<Rightarrow> peer option" where
  "deref_peer s i = (if i < length (b_peers s) then b_peers s ! i else None)"

definition upd_peer :: "nat \<Rightarrow> (peer \<Rightarrow> peer) \<Rightarrow> ('pk, 'db) bitc \<Rightarrow> ('pk, 'db) bitc" where
  "upd_peer i f s = s\<lparr>b_peers := (b_peers s)[i := map_option f (b_peers s ! i)]\<rparr>"

definition peer_is_connected :: "('pk, 'db) bitc \<Rightarrow> nat \<Rightarrow> bool option" where
  "peer_is_connected s i = do { p \<leftarrow> deref_peer s i; Some (p_connected p \<and> p_got_verack p) }"

definition peer_get_services :: "('pk, 'db) bitc \<Rightarrow> nat \<Rightarrow> u64 option" where
  "peer_get_services s i = do { p \<leftarrow> deref_peer s i; Some (p_services p) }"

definition peer_get_ip :: "('pk, 'db) bitc \<Rightarrow> nat \<Rightarrow> byte list option" where
  "peer_get_ip s i = do {
     p \<leftarrow> deref_peer s i;
     a \<leftarrow> deref_paddr (b_book s) (p_paddr p);
     Some (addr_key (pa_addr a))
   }"

text \<open>Whether \<open>peer_getinfo\<close> fails; what it reports is for the user interface.\<close>

definition peer_getinfo :: "('pk, 'db) bitc \<Rightarrow> nat \<Rightarrow> bool option" where
  "peer_getinfo s i = do { p \<leftarrow> deref_peer s i; Some (\<not> p_got_verack p \<or> \<not> p_connected p) }"

section \<open>Sending\<close>

text \<open>\<open>netasync_send\<close> asserts that the socket is connected.\<close>

definition peer_send_msg :: "nat \<Rightarrow> btc_msg_type \<Rightarrow> ('pk, 'db) bitc \<Rightarrow> (bool \<times> ('pk, 'db) bitc) option" where
  "peer_send_msg i type s = do {
     p \<leftarrow> deref_peer s i;
     b \<leftarrow> p_sendBuf p;
     bytes \<leftarrow> buff_content b;
     let s = upd_peer i (\<lambda>p. p\<lparr>p_sendBuf := None\<rparr>) s;
     ASSERT (p_connected p);
     Some (False, s\<lparr>b_sent := b_sent s @ [(i, type, bytes)]\<rparr>)
   }"

definition set_sendBuf :: "nat \<Rightarrow> buff \<Rightarrow> ('pk, 'db) bitc \<Rightarrow> ('pk, 'db) bitc" where
  "set_sendBuf i b s = upd_peer i (\<lambda>p. p\<lparr>p_sendBuf := Some b\<rparr>) s"

definition peer_send_getblocks :: "('bn, 'b, 'pt, 'pk, 'db) env \<Rightarrow> nat \<Rightarrow> ('pk, 'db) bitc \<Rightarrow> (bool \<times> ('pk, 'db) bitc) option" where
  "peer_send_getblocks env i s = do {
     hashes \<leftarrow> blockstore_get_locator_hashes (e_sha env) (b_blockStore s);
     b \<leftarrow> btcmsg_craft_getblocks (e_testnet env) (e_sha env) (if hashes = [] then None else Some hashes) (int (length hashes));
     peer_send_msg i BTC_MSG_GETBLOCKS (set_sendBuf i b s)
   }"

definition peer_send_getheaders :: "('bn, 'b, 'pt, 'pk, 'db) env \<Rightarrow> nat \<Rightarrow> ('pk, 'db) bitc \<Rightarrow> (bool \<times> ('pk, 'db) bitc) option" where
  "peer_send_getheaders env i s = do {
     let genesis = blockstore_get_genesis (b_blockStore s);
     hashes \<leftarrow> blockstore_get_locator_hashes (e_sha env) (b_blockStore s);
     b \<leftarrow> btcmsg_craft_getheaders (e_testnet env) (e_sha env) hashes (int (length hashes)) (Some genesis);
     peer_send_msg i BTC_MSG_GETHEADERS (set_sendBuf i b s)
   }"

definition peer_send_getdata ::
  "('bn, 'b, 'pt, 'pk, 'db) env \<Rightarrow> nat \<Rightarrow> u32 \<Rightarrow> uint256 list \<Rightarrow> ('pk, 'db) bitc \<Rightarrow> (bool \<times> ('pk, 'db) bitc) option" where
  "peer_send_getdata env i type hash s = do {
     ASSERT (hash \<noteq> []);
     ASSERT (length hash \<le> unat BTC_MSG_GETDATA_MAX_ENTRIES);
     b \<leftarrow> btcmsg_craft_getdata (e_testnet env) (e_sha env) type hash (length hash);
     peer_send_msg i BTC_MSG_GETDATA (set_sendBuf i b s)
   }"

definition peer_send_getcfilters ::
  "('bn, 'b, 'pt, 'pk, 'db) env \<Rightarrow> nat \<Rightarrow> byte \<Rightarrow> u32 \<Rightarrow> uint256 \<Rightarrow> ('pk, 'db) bitc \<Rightarrow> (bool \<times> ('pk, 'db) bitc) option" where
  "peer_send_getcfilters env i filterType startHeight stopHash s = do {
     b \<leftarrow> btcmsg_craft_getcfilters (e_testnet env) (e_sha env)
       \<lparr>gcf_filterType = filterType, gcf_startHeight = startHeight, gcf_stopHash = stopHash\<rparr>;
     peer_send_msg i BTC_MSG_GETCFILTERS (set_sendBuf i b s)
   }"

definition peer_send_getcfheaders ::
  "('bn, 'b, 'pt, 'pk, 'db) env \<Rightarrow> nat \<Rightarrow> byte \<Rightarrow> u32 \<Rightarrow> uint256 \<Rightarrow> ('pk, 'db) bitc \<Rightarrow> (bool \<times> ('pk, 'db) bitc) option" where
  "peer_send_getcfheaders env i filterType startHeight stopHash s = do {
     b \<leftarrow> btcmsg_craft_getcfheaders (e_testnet env) (e_sha env)
       \<lparr>gcf_filterType = filterType, gcf_startHeight = startHeight, gcf_stopHash = stopHash\<rparr>;
     peer_send_msg i BTC_MSG_GETCFHEADERS (set_sendBuf i b s)
   }"

definition peer_send_getcfcheckpt ::
  "('bn, 'b, 'pt, 'pk, 'db) env \<Rightarrow> nat \<Rightarrow> byte \<Rightarrow> uint256 \<Rightarrow> ('pk, 'db) bitc \<Rightarrow> (bool \<times> ('pk, 'db) bitc) option" where
  "peer_send_getcfcheckpt env i filterType stopHash s = do {
     b \<leftarrow> btcmsg_craft_getcfcheckpt (e_testnet env) (e_sha env) \<lparr>gcc_filterType = filterType, gcc_stopHash = stopHash\<rparr>;
     peer_send_msg i BTC_MSG_GETCFCHECKPT (set_sendBuf i b s)
   }"

definition peer_send_mempool :: "('bn, 'b, 'pt, 'pk, 'db) env \<Rightarrow> nat \<Rightarrow> ('pk, 'db) bitc \<Rightarrow> (bool \<times> ('pk, 'db) bitc) option" where
  "peer_send_mempool env i s = do {
     b \<leftarrow> btcmsg_craft_mempool (e_testnet env) (e_sha env);
     peer_send_msg i BTC_MSG_MEMPOOL (set_sendBuf i b s)
   }"

definition peer_send_getaddr :: "('bn, 'b, 'pt, 'pk, 'db) env \<Rightarrow> nat \<Rightarrow> ('pk, 'db) bitc \<Rightarrow> (bool \<times> ('pk, 'db) bitc) option" where
  "peer_send_getaddr env i s = do {
     b \<leftarrow> btcmsg_craft_getaddr (e_testnet env) (e_sha env);
     peer_send_msg i BTC_MSG_GETADDR (set_sendBuf i b s)
   }"

definition peer_send_ping :: "('bn, 'b, 'pt, 'pk, 'db) env \<Rightarrow> nat \<Rightarrow> ('pk, 'db) bitc \<Rightarrow> (bool \<times> ('pk, 'db) bitc) option" where
  "peer_send_ping env i s = do {
     p \<leftarrow> deref_peer s i;
     b \<leftarrow> btcmsg_craft_ping (e_testnet env) (e_sha env) (p_protversion p) (p_pingNonce p);
     peer_send_msg i BTC_MSG_PING (upd_peer i (\<lambda>p. p\<lparr>p_pingNonce := p_pingNonce p + 1\<rparr>) (set_sendBuf i b s))
   }"

definition peer_send_inv :: "nat \<Rightarrow> buff option \<Rightarrow> ('pk, 'db) bitc \<Rightarrow> (bool \<times> ('pk, 'db) bitc) option" where
  "peer_send_inv i buf s = do {
     p \<leftarrow> deref_peer s i;
     ASSERT (p_sendBuf p = None);
     if \<not> p_got_verack p then Some (False, s)
     else do {
       b \<leftarrow> buff_dup buf;
       peer_send_msg i BTC_MSG_INV (set_sendBuf i b s)
     }
   }"

definition peer_tx_broadcast :: "('bn, 'b, 'pt, 'pk, 'db) env \<Rightarrow> nat \<Rightarrow> uint256 \<Rightarrow> ('pk, 'db) bitc \<Rightarrow> (bool \<times> ('pk, 'db) bitc) option" where
  "peer_tx_broadcast env i hash s = do {
     b \<leftarrow> btcmsg_craft_inv (e_testnet env) (e_sha env) INV_TYPE_MSG_TX [hash] 1;
     peer_send_inv i (Some b) s
   }"

definition peer_broadcast_one_tx_cb ::
  "('bn, 'b, 'pt, 'pk, 'db) env \<Rightarrow> nat \<Rightarrow> byte list \<Rightarrow> tx_broadcast \<Rightarrow> ('pk, 'db) bitc \<Rightarrow> ('pk, 'db) bitc option" where
  "peer_broadcast_one_tx_cb env i key keyData s = do {
     ASSERT (length key = 32);
     (_, s) \<leftarrow> peer_tx_broadcast env i (le_word key) s;
     Some s
   }"

definition peer_broadcast_all_tx :: "('bn, 'b, 'pt, 'pk, 'db) env \<Rightarrow> nat \<Rightarrow> ('pk, 'db) bitc \<Rightarrow> ('pk, 'db) bitc option" where
  "peer_broadcast_all_tx env i s =
     hashtable_for_each (pg_hash_broadcast (b_pg s)) (peer_broadcast_one_tx_cb env i) s"

definition peer_on_ready :: "('bn, 'b, 'pt, 'pk, 'db) env \<Rightarrow> nat \<Rightarrow> ('pk, 'db) bitc \<Rightarrow> (bool \<times> ('pk, 'db) bitc) option" where
  "peer_on_ready env i s = do {
     (res, s) \<leftarrow> peer_send_mempool env i s;
     if res then Some (res, s)
     else do {
       s \<leftarrow> peer_broadcast_all_tx env i s;
       peer_send_getblocks env i s
     }
   }"

definition peer_on_ready_li :: "('bn, 'b, 'pt, 'pk, 'db) env \<Rightarrow> nat \<Rightarrow> ('pk, 'db) bitc \<Rightarrow> (bool \<times> ('pk, 'db) bitc) option" where
  "peer_on_ready_li env i s = do {
     p \<leftarrow> deref_peer s i;
     if \<not> p_got_verack p then Some (False, s) else peer_on_ready env i s
   }"

definition peer_check_liveness :: "('bn, 'b, 'pt, 'pk, 'db) env \<Rightarrow> nat \<Rightarrow> ('pk, 'db) bitc \<Rightarrow> (bool \<times> ('pk, 'db) bitc) option" where
  "peer_check_liveness env i s = do {
     p \<leftarrow> deref_peer s i;
     let now = e_now env;
     ASSERT (p_last_ts p < now);
     if \<not> p_connected p \<or> p_last_ts p = 0 \<or> now < p_last_ts p + 60 * 1000 * 1000 then Some (False, s)
     else peer_send_ping env i s
   }"

text \<open>Running an operation on every peer of the list that is there when the loop starts.\<close>

primrec for_peers ::
  "(nat \<Rightarrow> ('pk, 'db) bitc \<Rightarrow> ('pk, 'db) bitc option) \<Rightarrow> nat list \<Rightarrow> ('pk, 'db) bitc \<Rightarrow> ('pk, 'db) bitc option" where
  "for_peers f [] s = Some s"
| "for_peers f (i # is) s = do { s \<leftarrow> f i s; for_peers f is s }"

end
