(* ===== verification/Peergroup.thy ===== *)
theory Peergroup
  imports Bitc
begin

text \<open>
  The peer group of \<^verbatim>\<open>src/core/peergroup.c\<close>: header synchronisation by one peer, the verification of the
  chain of filter headers, the scan of the block filters by many peers in parallel, the blocks that
  matched, and the point from which an interrupted scan resumes.

  Every function of the file that changes the state is a function on the state of the client, which has no
  result when the program stops; the first component of the result is a failing return code. Heights are
  C integers and are assumed to stay in their range.
\<close>

section \<open>Transactions to relay\<close>

definition peergroup_stop_broadcast_tx :: "uint256 \<Rightarrow> peergroup \<Rightarrow> peergroup option" where
  "peergroup_stop_broadcast_tx hash pg = do {
     r \<leftarrow> hashtable_lookup (pg_hash_broadcast pg) (le_bytes hash);
     case r of None \<Rightarrow> Some pg
     | Some txb \<Rightarrow> do {
         (_, ht) \<leftarrow> hashtable_remove (pg_hash_broadcast pg) (le_bytes hash);
         Some (pg\<lparr>pg_hash_broadcast := ht\<rparr>)
       }
   }"

definition peergroup_lookup_broadcast_tx :: "uint256 \<Rightarrow> peergroup \<Rightarrow> buff option option" where
  "peergroup_lookup_broadcast_tx hash pg = do {
     r \<leftarrow> hashtable_lookup (pg_hash_broadcast pg) (le_bytes hash);
     case r of None \<Rightarrow> Some None | Some txb \<Rightarrow> map_option Some (buff_dup (txb_buf txb))
   }"

definition peergroup_add_tx_broadcast_hash :: "buff option \<Rightarrow> u64 \<Rightarrow> uint256 \<Rightarrow> peergroup \<Rightarrow> peergroup option" where
  "peergroup_add_tx_broadcast_hash buf expiry hash pg = do {
     b \<leftarrow> buff_dup buf;
     (_, ht) \<leftarrow> hashtable_insert (pg_hash_broadcast pg) (le_bytes hash) \<lparr>txb_buf = Some b, txb_expiry = expiry\<rparr>;
     Some (pg\<lparr>pg_hash_broadcast := ht\<rparr>)
   }"

fun broadcast_loop :: "nat list \<Rightarrow> buff option \<Rightarrow> bool \<Rightarrow> ('pk, 'db) bitc \<Rightarrow> (bool \<times> ('pk, 'db) bitc) option" where
  "broadcast_loop [] bufInv res s = Some (res, s)"
| "broadcast_loop (i # is) bufInv res s = do { (res, s) \<leftarrow> peer_send_inv i bufInv s; broadcast_loop is bufInv res s }"

definition peergroup_broadcast_inv :: "buff option \<Rightarrow> ('pk, 'db) bitc \<Rightarrow> (bool \<times> ('pk, 'db) bitc) option" where
  "peergroup_broadcast_inv bufInv s = broadcast_loop (pg_peer_list (b_pg s)) bufInv False s"

definition peergroup_tx_broadcast :: "('bn, 'b, 'pt, 'pk, 'db) env \<Rightarrow> uint256 \<Rightarrow> ('pk, 'db) bitc \<Rightarrow> (bool \<times> ('pk, 'db) bitc) option" where
  "peergroup_tx_broadcast env hash s = do {
     b \<leftarrow> btcmsg_craft_inv (e_testnet env) (e_sha env) INV_TYPE_MSG_TX [hash] 1;
     peergroup_broadcast_inv (Some b) s
   }"

definition peergroup_new_tx_broadcast ::
  "('bn, 'b, 'pt, 'pk, 'db) env \<Rightarrow> buff option \<Rightarrow> u64 \<Rightarrow> uint256 \<Rightarrow> ('pk, 'db) bitc \<Rightarrow> (bool \<times> ('pk, 'db) bitc) option" where
  "peergroup_new_tx_broadcast env buf expiry hash s = do {
     pg \<leftarrow> peergroup_add_tx_broadcast_hash buf expiry hash (b_pg s);
     peergroup_tx_broadcast env hash (s\<lparr>b_pg := pg\<rparr>)
   }"

section \<open>Progress\<close>

definition peergroup_set_lastblk :: "uint256 \<Rightarrow> peergroup \<Rightarrow> peergroup option" where
  "peergroup_set_lastblk hash pg = do {
     ASSERT (\<not> uint256_iszero (Some hash));
     if uint256_issame hash (pg_lastBlk pg) then Some pg
     else Some (pg\<lparr>pg_configNeedWrite := True, pg_lastBlk := hash\<rparr>)
   }"

definition peergroup_get_lastblk :: "peergroup \<Rightarrow> uint256" where
  "peergroup_get_lastblk pg = pg_lastBlk pg"

primrec count_connected :: "('pk, 'db) bitc \<Rightarrow> nat list \<Rightarrow> nat option" where
  "count_connected s [] = Some 0"
| "count_connected s (i # is) = do { res \<leftarrow> peer_getinfo s i; n \<leftarrow> count_connected s is; Some (if res then n else n + 1) }"

definition peergroup_count_connected :: "('pk, 'db) bitc \<Rightarrow> nat option" where
  "peergroup_count_connected s = count_connected s (pg_peer_list (b_pg s))"

definition peergroup_download_progress :: "('bn, 'b, 'pt, 'pk, 'db) env \<Rightarrow> ('pk, 'db) bitc \<Rightarrow> ('pk, 'db) bitc" where
  "peergroup_download_progress env s = upd_pg (\<lambda>pg. pg\<lparr>pg_lastProgressTS := e_now env\<rparr>) s"

definition peergroup_on_ready :: "('bn, 'b, 'pt, 'pk, 'db) env \<Rightarrow> ('pk, 'db) bitc \<Rightarrow> ('pk, 'db) bitc option" where
  "peergroup_on_ready env s =
     for_peers (\<lambda>i s. map_option snd (peer_on_ready_li env i s)) (pg_peer_list (b_pg s)) s"

definition peergroup_download_complete :: "('bn, 'b, 'pt, 'pk, 'db) env \<Rightarrow> ('pk, 'db) bitc \<Rightarrow> ('pk, 'db) bitc option" where
  "peergroup_download_complete env s =
     (if b_state s \<noteq> BITC_STATE_UPDATE_TXDB then Some s
      else (let s = peergroup_download_progress env s in
        if e_updateAndExit env then Some (bitc_req_stop s)
        else peergroup_on_ready env (s\<lparr>b_state := BITC_STATE_READY\<rparr>)))"

definition peergroup_add_block_finalize :: "('bn, 'b, 'pt, 'pk, 'db) env \<Rightarrow> bool \<Rightarrow> ('pk, 'db) bitc \<Rightarrow> ('pk, 'db) bitc option" where
  "peergroup_add_block_finalize env headerOnly s = do {
     bs \<leftarrow> blockstore_write_headers (e_headers_wr env) (b_blockStore s);
     let s = s\<lparr>b_blockStore := bs\<rparr>;
     pg \<leftarrow> (if headerOnly then Some (b_pg s) else peergroup_set_lastblk (blockstore_get_best_hash bs) (b_pg s));
     Some (s\<lparr>b_pg := pg\<rparr>)
   }"

section \<open>The resume point\<close>

text \<open>The scan is complete when every chunk is done, no block is awaited and the resume point is the tip.\<close>

definition peergroup_maybe_complete :: "('bn, 'b, 'pt, 'pk, 'db) env \<Rightarrow> ('pk, 'db) bitc \<Rightarrow> ('pk, 'db) bitc option" where
  "peergroup_maybe_complete env s = (let pg = b_pg s in
     if b_state s \<noteq> BITC_STATE_UPDATE_TXDB then Some s
     else if pg_cfDoneContig pg < length (pg_cfSeg pg) \<or> pg_cfPending pg \<noteq> [] then Some s
     else if uint256_issame (peergroup_get_lastblk pg) (blockstore_get_best_hash (b_blockStore s))
     then peergroup_download_complete env s
     else Some s)"

definition INT_MAX :: int where "INT_MAX = 2 ^ 31 - 1"

definition min_pending :: "cf_pending_block list \<Rightarrow> int" where
  "min_pending ps = fold (\<lambda>p m. if cp_height p < m then cp_height p else m) ps INT_MAX"

definition peergroup_advance_lastblk :: "('bn, 'b, 'pt, 'pk, 'db) env \<Rightarrow> ('pk, 'db) bitc \<Rightarrow> ('pk, 'db) bitc option" where
  "peergroup_advance_lastblk env s = (let pg = b_pg s; bs = b_blockStore s in
     if pg_cfDoneContig pg = 0 then Some s
     else do {
       ASSERT (pg_cfDoneContig pg \<le> length (pg_cfSeg pg));
       let contigHeight = sg_endHeight (pg_cfSeg pg ! (pg_cfDoneContig pg - 1));
       let minPending = min_pending (pg_cfPending pg);
       let safeHeight = min contigHeight (minPending - 1);
       if safeHeight < pg_cfScanFloor pg then Some s
       else do {
         curHeight \<leftarrow> blockstore_get_block_height bs (Some (peergroup_get_lastblk pg));
         if safeHeight \<le> curHeight then Some s
         else do {
           r \<leftarrow> blockstore_get_block_at_height (e_sha env) bs safeHeight;
           case r of None \<Rightarrow> Some s
           | Some (hash, _) \<Rightarrow> do {
               pg \<leftarrow> peergroup_set_lastblk hash pg;
               peergroup_maybe_complete env (s\<lparr>b_pg := pg\<rparr>)
             }
         }
       }
     })"

section \<open>The parallel scan\<close>

definition upd_seg :: "nat \<Rightarrow> (cf_segment \<Rightarrow> cf_segment) \<Rightarrow> ('pk, 'db) bitc \<Rightarrow> ('pk, 'db) bitc" where
  "upd_seg k f s = upd_pg (\<lambda>pg. pg\<lparr>pg_cfSeg := (pg_cfSeg pg)[k := f (pg_cfSeg pg ! k)]\<rparr>) s"

definition seg_size :: "cf_segment \<Rightarrow> int" where
  "seg_size seg = sg_endHeight seg - sg_startHeight seg + 1"

definition peergroup_assign_chunk ::
  "('bn, 'b, 'pt, 'pk, 'db) env \<Rightarrow> nat \<Rightarrow> nat \<Rightarrow> ('pk, 'db) bitc \<Rightarrow> ('pk, 'db) bitc option" where
  "peergroup_assign_chunk env i k s = (let seg = pg_cfSeg (b_pg s) ! k in do {
     r \<leftarrow> blockstore_get_block_at_height (e_sha env) (b_blockStore s) (sg_endHeight seg);
     case r of None \<Rightarrow> Some s
     | Some (stopHash, _) \<Rightarrow> do {
         (res, s) \<leftarrow> peer_send_getcfilters env i BTC_CFILTER_TYPE_BASIC (of_int (sg_startHeight seg)) stopHash s;
         if res then Some s
         else Some (upd_seg k (\<lambda>seg. seg\<lparr>sg_assignedPeer := Some i, sg_avoidPeer := None, sg_remaining := seg_size seg,
                sg_progressTS := e_now env, sg_assignedTS := e_now env\<rparr>) s)
       }
   })"

text \<open>The first chunk that nobody has and that may be given to the peer.\<close>

definition claimable :: "nat \<Rightarrow> cf_segment \<Rightarrow> bool" where
  "claimable i seg \<longleftrightarrow> sg_assignedPeer seg = None \<and> \<not> sg_done seg \<and> sg_avoidPeer seg \<noteq> Some i"

definition next_chunk :: "nat \<Rightarrow> cf_segment list \<Rightarrow> nat option" where
  "next_chunk i segs = find (\<lambda>k. claimable i (segs ! k)) [0..<length segs]"

definition peergroup_assign_next_chunk_to :: "('bn, 'b, 'pt, 'pk, 'db) env \<Rightarrow> nat \<Rightarrow> ('pk, 'db) bitc \<Rightarrow> ('pk, 'db) bitc option" where
  "peergroup_assign_next_chunk_to env i s = (case next_chunk i (pg_cfSeg (b_pg s)) of None \<Rightarrow> Some s
     | Some k \<Rightarrow> peergroup_assign_chunk env i k s)"

definition live :: "cf_segment \<Rightarrow> bool" where
  "live seg \<longleftrightarrow> sg_assignedPeer seg \<noteq> None \<and> \<not> sg_done seg"

definition busy :: "nat \<Rightarrow> cf_segment list \<Rightarrow> bool" where
  "busy i segs \<longleftrightarrow> (\<exists>seg \<in> set segs. sg_assignedPeer seg = Some i \<and> \<not> sg_done seg)"

fun schedule_loop :: "('bn, 'b, 'pt, 'pk, 'db) env \<Rightarrow> nat list \<Rightarrow> nat \<Rightarrow> ('pk, 'db) bitc \<Rightarrow> ('pk, 'db) bitc option" where
  "schedule_loop env [] inflight s = Some s"
| "schedule_loop env (i # is) inflight s =
     (if MAX_INFLIGHT_CHUNKS \<le> inflight then Some s
      else do {
        conn \<leftarrow> peer_is_connected s i;
        services \<leftarrow> peer_get_services s i;
        if \<not> conn \<or> services AND BTC_SERVICE_NODE_COMPACT_FILTERS = 0 \<or> busy i (pg_cfSeg (b_pg s))
        then schedule_loop env is inflight s
        else (case next_chunk i (pg_cfSeg (b_pg s)) of None \<Rightarrow> schedule_loop env is inflight s
          | Some k \<Rightarrow> do {
              s \<leftarrow> peergroup_assign_chunk env i k s;
              schedule_loop env is (inflight + 1) s
            })
      })"

definition peergroup_schedule_cfilters :: "('bn, 'b, 'pt, 'pk, 'db) env \<Rightarrow> ('pk, 'db) bitc \<Rightarrow> ('pk, 'db) bitc option" where
  "peergroup_schedule_cfilters env s = (let pg = b_pg s in
     if pg_cfSeg pg = [] then Some s
     else schedule_loop env (pg_peer_list pg) (length (filter live (pg_cfSeg pg))) s)"

definition requeued :: "nat \<Rightarrow> cf_segment \<Rightarrow> cf_segment" where
  "requeued i seg = seg\<lparr>sg_avoidPeer := Some i, sg_assignedPeer := None, sg_remaining := seg_size seg\<rparr>"

definition stalled :: "u64 \<Rightarrow> u64 \<Rightarrow> bool" where
  "stalled now ts \<longleftrightarrow> \<not> (now < ts \<or> now - ts < SYNC_STALL_USEC)"

fun requeue_stalled ::
  "('bn, 'b, 'pt, 'pk, 'db) env \<Rightarrow> nat list \<Rightarrow> bool \<Rightarrow> ('pk, 'db) bitc \<Rightarrow> (bool \<times> ('pk, 'db) bitc) option" where
  "requeue_stalled env [] any s = Some (any, s)"
| "requeue_stalled env (k # ks) any s = (let seg = pg_cfSeg (b_pg s) ! k in
     case sg_assignedPeer seg of None \<Rightarrow> requeue_stalled env ks any s
     | Some i \<Rightarrow>
       if sg_done seg \<or> \<not> stalled (e_now env) (sg_progressTS seg) then requeue_stalled env ks any s
       else do {
         ip \<leftarrow> peer_get_ip s i;
         stats \<leftarrow> peerstats_record_cfilter_fail ip (pg_peerStats (b_pg s));
         requeue_stalled env ks True (upd_seg k (requeued i) (upd_pg (\<lambda>pg. pg\<lparr>pg_peerStats := stats\<rparr>) s))
       })"

definition peergroup_check_pending_chunks :: "('bn, 'b, 'pt, 'pk, 'db) env \<Rightarrow> ('pk, 'db) bitc \<Rightarrow> ('pk, 'db) bitc option" where
  "peergroup_check_pending_chunks env s = do {
     (any, s) \<leftarrow> requeue_stalled env [0..<length (pg_cfSeg (b_pg s))] False s;
     if any then peergroup_schedule_cfilters env s else Some s
   }"

definition peergroup_requeue_peer_chunks :: "('bn, 'b, 'pt, 'pk, 'db) env \<Rightarrow> nat \<Rightarrow> ('pk, 'db) bitc \<Rightarrow> ('pk, 'db) bitc option" where
  "peergroup_requeue_peer_chunks env i s =
     (let any = busy i (pg_cfSeg (b_pg s));
          s = upd_pg (\<lambda>pg. pg\<lparr>pg_cfSeg := map (\<lambda>seg. if sg_assignedPeer seg = Some i \<and> \<not> sg_done seg then requeued i seg else seg) (pg_cfSeg pg)\<rparr>) s
      in if any then peergroup_schedule_cfilters env s else Some s)"

section \<open>Matched blocks\<close>

definition peergroup_add_pending_block :: "('bn, 'b, 'pt, 'pk, 'db) env \<Rightarrow> uint256 \<Rightarrow> nat \<Rightarrow> ('pk, 'db) bitc \<Rightarrow> ('pk, 'db) bitc option" where
  "peergroup_add_pending_block env hash from s = do {
     height \<leftarrow> blockstore_get_block_height (b_blockStore s) (Some hash);
     Some (upd_pg (\<lambda>pg. pg\<lparr>pg_cfPending := pg_cfPending pg @
       [\<lparr>cp_hash = hash, cp_height = height, cp_requestedFrom = from, cp_requestTS = e_now env\<rparr>]\<rparr>) s)
   }"

text \<open>The removed entry is replaced by the last one.\<close>

definition remove_pending :: "uint256 \<Rightarrow> cf_pending_block list \<Rightarrow> cf_pending_block list" where
  "remove_pending hash ps = (case find (\<lambda>k. uint256_issame (cp_hash (ps ! k)) hash) [0..<length ps] of None \<Rightarrow> ps
     | Some k \<Rightarrow> butlast (ps[k := last ps]))"

definition peergroup_remove_pending_block :: "uint256 \<Rightarrow> ('pk, 'db) bitc \<Rightarrow> ('pk, 'db) bitc" where
  "peergroup_remove_pending_block hash s = upd_pg (\<lambda>pg. pg\<lparr>pg_cfPending := remove_pending hash (pg_cfPending pg)\<rparr>) s"

text \<open>The peer to retry from: not the one that failed, connected, with full blocks, and, if there is one,
  with all of them. The pair is the best one so far and whether it has only the latest blocks.\<close>

fun alternate_peer :: "('pk, 'db) bitc \<Rightarrow> nat \<Rightarrow> nat list \<Rightarrow> (nat \<times> bool) option \<Rightarrow> (nat \<times> bool) option option" where
  "alternate_peer s failed [] best = Some best"
| "alternate_peer s failed (i # is) best = do {
     conn \<leftarrow> peer_is_connected s i;
     svc \<leftarrow> peer_get_services s i;
     if i = failed \<or> \<not> conn \<or> svc AND BTC_SERVICE_NODE_NETWORK = 0 then alternate_peer s failed is best
     else (let limited = svc AND BTC_SERVICE_NODE_NETWORK_LIMITED \<noteq> 0 in
       case best of None \<Rightarrow> alternate_peer s failed is (Some (i, limited))
       | Some (_, bestIsLimited) \<Rightarrow>
           alternate_peer s failed is (if bestIsLimited \<and> \<not> limited then Some (i, False) else best))
   }"

fun retry_loop :: "('bn, 'b, 'pt, 'pk, 'db) env \<Rightarrow> nat \<Rightarrow> uint256 list \<Rightarrow> ('pk, 'db) bitc \<Rightarrow> ('pk, 'db) bitc option" where
  "retry_loop env best [] s = Some s"
| "retry_loop env best (hash # hashes) s = do {
     (res, s) \<leftarrow> peer_send_getdata env best INV_TYPE_MSG_BLOCK [hash] s;
     s \<leftarrow> (if res then Some s else peergroup_add_pending_block env hash best s);
     retry_loop env best hashes s
   }"

definition peergroup_retry_block_fetch ::
  "('bn, 'b, 'pt, 'pk, 'db) env \<Rightarrow> nat \<Rightarrow> uint256 list \<Rightarrow> ('pk, 'db) bitc \<Rightarrow> ('pk, 'db) bitc option" where
  "peergroup_retry_block_fetch env failed hashes s = do {
     best \<leftarrow> alternate_peer s failed (pg_peer_list (b_pg s)) None;
     case best of None \<Rightarrow> Some s | Some (best, _) \<Rightarrow> retry_loop env best hashes s
   }"

fun retry_expired :: "('bn, 'b, 'pt, 'pk, 'db) env \<Rightarrow> cf_pending_block list \<Rightarrow> ('pk, 'db) bitc \<Rightarrow> ('pk, 'db) bitc option" where
  "retry_expired env [] s = Some s"
| "retry_expired env (p # ps) s = do {
     let s = peergroup_remove_pending_block (cp_hash p) s;
     s \<leftarrow> peergroup_retry_block_fetch env (cp_requestedFrom p) [cp_hash p] s;
     retry_expired env ps s
   }"

text \<open>At most 64 blocks are retried in one call.\<close>

definition peergroup_check_pending_blocks :: "('bn, 'b, 'pt, 'pk, 'db) env \<Rightarrow> ('pk, 'db) bitc \<Rightarrow> ('pk, 'db) bitc option" where
  "peergroup_check_pending_blocks env s =
     retry_expired env (take 64 (filter (\<lambda>p. stalled (e_now env) (cp_requestTS p)) (pg_cfPending (b_pg s)))) s"

section \<open>Filter headers\<close>

definition peergroup_request_cfheaders :: "('bn, 'b, 'pt, 'pk, 'db) env \<Rightarrow> nat \<Rightarrow> ('pk, 'db) bitc \<Rightarrow> (bool \<times> ('pk, 'db) bitc) option" where
  "peergroup_request_cfheaders env i s = do {
     ASSERT (b_state s = BITC_STATE_UPDATE_TXDB);
     if pg_cfhdrSyncStarted (b_pg s) then Some (False, s)
     else do {
       let s = upd_pg (\<lambda>pg. pg\<lparr>pg_cfhdrSyncStarted := True\<rparr>) s;
       let pg = b_pg s;
       if pg_cfhdrTipHeight pg < pg_cfhdrStartHeight pg
       then map_option (Pair False) (peergroup_schedule_cfilters env s)
       else do {
         let batchEnd = min (pg_cfhdrStartHeight pg + CFHEADER_BATCH - 1) (pg_cfhdrTipHeight pg);
         r \<leftarrow> blockstore_get_block_at_height (e_sha env) (b_blockStore s) batchEnd;
         case r of None \<Rightarrow> Some (True, s)
         | Some (stopHash, _) \<Rightarrow> do {
             (res, s) \<leftarrow> peer_send_getcfheaders env i BTC_CFILTER_TYPE_BASIC (of_int (pg_cfhdrStartHeight pg)) stopHash s;
             if res then Some (res, s)
             else Some (False, upd_pg (\<lambda>pg. pg\<lparr>pg_lastFilteredBlockReq := stopHash\<rparr>) s)
           }
       }
     }
   }"

text \<open>Sending \<open>getcfcheckpt\<close> to every peer with filters; the result counts them.\<close>

fun send_cfcheckpts :: "('bn, 'b, 'pt, 'pk, 'db) env \<Rightarrow> uint256 \<Rightarrow> nat list \<Rightarrow> int \<Rightarrow> ('pk, 'db) bitc \<Rightarrow> (int \<times> ('pk, 'db) bitc) option" where
  "send_cfcheckpts env tipHash [] n s = Some (n, s)"
| "send_cfcheckpts env tipHash (i # is) n s = do {
     conn \<leftarrow> peer_is_connected s i;
     svc \<leftarrow> peer_get_services s i;
     if conn \<and> svc AND BTC_SERVICE_NODE_COMPACT_FILTERS \<noteq> 0 then do {
       (res, s) \<leftarrow> peer_send_getcfcheckpt env i BTC_CFILTER_TYPE_BASIC tipHash s;
       send_cfcheckpts env tipHash is (if res then n else n + 1) s
     }
     else send_cfcheckpts env tipHash is n s
   }"

definition peergroup_verify_cfcheckpts :: "('bn, 'b, 'pt, 'pk, 'db) env \<Rightarrow> nat \<Rightarrow> ('pk, 'db) bitc \<Rightarrow> (bool \<times> ('pk, 'db) bitc) option" where
  "peergroup_verify_cfcheckpts env i s = do {
     ASSERT (b_state s = BITC_STATE_UPDATE_TXDB);
     let tipHash = blockstore_get_best_hash (b_blockStore s);
     (nSent, s) \<leftarrow> send_cfcheckpts env tipHash (pg_peer_list (b_pg s)) 0 s;
     let s = upd_pg (\<lambda>pg. pg\<lparr>pg_cfcheckptPeers := nSent, pg_cfcheckptAgreed := 0, pg_cfcheckptVerified := False,
       pg_cfhdrSyncStarted := False, pg_cfcheckptExpected := None, pg_cfcheckptCount := 0\<rparr>) s;
     if nSent = 0 then peergroup_request_cfheaders env i (upd_pg (\<lambda>pg. pg\<lparr>pg_cfcheckptVerified := True\<rparr>) s)
     else Some (False, s)
   }"

definition peergroup_maybe_birthday_bound_cfheaders :: "peergroup \<Rightarrow> peergroup option" where
  "peergroup_maybe_birthday_bound_cfheaders pg =
     (let cfTip = cfheaderstore_get_tip_height (pg_cfStore pg) in
      if 0 \<le> cfTip then Some pg
      else case pg_cfcheckptExpected pg of None \<Rightarrow> Some pg
      | Some expected \<Rightarrow>
        if pg_cfcheckptCount pg = 0 then Some pg
        else (let anchorHeight = c_div (pg_cfScanFloor pg) BIP157_CHECKPOINT_INTERVAL * BIP157_CHECKPOINT_INTERVAL in
          if anchorHeight \<le> 0 then Some pg
          else (let idx = c_div anchorHeight BIP157_CHECKPOINT_INTERVAL - 1 in
            if idx < 0 \<or> pg_cfcheckptCount pg \<le> idx then Some pg
            else do {
              ASSERT (nat idx < length expected);
              Some (pg\<lparr>pg_cfhdrStartHeight := anchorHeight, pg_cfhdrPrevHeader := expected ! nat idx\<rparr>)
            })))"

definition peergroup_cfcheckpt_maybe_complete ::
  "('bn, 'b, 'pt, 'pk, 'db) env \<Rightarrow> nat \<Rightarrow> ('pk, 'db) bitc \<Rightarrow> (bool \<times> ('pk, 'db) bitc) option" where
  "peergroup_cfcheckpt_maybe_complete env driver s = (let pg = b_pg s in
     if pg_cfcheckptVerified pg then Some (False, s)
     else if 1 \<le> pg_cfcheckptAgreed pg \<and> pg_cfcheckptPeers pg \<le> pg_cfcheckptAgreed pg then do {
       pg \<leftarrow> peergroup_maybe_birthday_bound_cfheaders (pg\<lparr>pg_cfcheckptVerified := True\<rparr>);
       peergroup_request_cfheaders env driver (s\<lparr>b_pg := pg\<rparr>)
     }
     else Some (False, s))"

primrec other_connected :: "('pk, 'db) bitc \<Rightarrow> nat \<Rightarrow> nat list \<Rightarrow> nat option option" where
  "other_connected s gone [] = Some None"
| "other_connected s gone (i # is) = do {
     conn \<leftarrow> peer_is_connected s i;
     if i \<noteq> gone \<and> conn then Some (Some i) else other_connected s gone is
   }"

definition peergroup_notify_peer_gone :: "('bn, 'b, 'pt, 'pk, 'db) env \<Rightarrow> nat \<Rightarrow> ('pk, 'db) bitc \<Rightarrow> ('pk, 'db) bitc option" where
  "peergroup_notify_peer_gone env gone s = (let pg = b_pg s in
     if \<not> pg_cfcheckptVerified pg \<and> 0 < pg_cfcheckptPeers pg \<and> pg_cfcheckptAgreed pg < pg_cfcheckptPeers pg then do {
       let s = upd_pg (\<lambda>pg. pg\<lparr>pg_cfcheckptPeers := pg_cfcheckptPeers pg - 1\<rparr>) s;
       if 1 \<le> pg_cfcheckptAgreed pg then do {
         cand \<leftarrow> other_connected s gone (pg_peer_list pg);
         case cand of None \<Rightarrow> Some s | Some cand \<Rightarrow> map_option snd (peergroup_cfcheckpt_maybe_complete env cand s)
       }
       else Some s
     }
     else Some s)"

definition peergroup_handle_cfcheckpt ::
  "('bn, 'b, 'pt, 'pk, 'db) env \<Rightarrow> nat \<Rightarrow> btc_msg_cfcheckpt \<Rightarrow> ('pk, 'db) bitc \<Rightarrow> (bool \<times> ('pk, 'db) bitc) option" where
  "peergroup_handle_cfcheckpt env i cfc s = do {
     ASSERT (b_state s = BITC_STATE_UPDATE_TXDB);
     let n = unat (cfc_numHeaders cfc);
     let headers = (case cfc_filterHeaders cfc of None \<Rightarrow> [] | Some hs \<Rightarrow> hs);
     ASSERT (n \<le> length headers);
     case pg_cfcheckptExpected (b_pg s) of
       None \<Rightarrow> peergroup_cfcheckpt_maybe_complete env i
         (upd_pg (\<lambda>pg. pg\<lparr>pg_cfcheckptCount := int n, pg_cfcheckptExpected := Some (take n headers),
           pg_cfcheckptAgreed := pg_cfcheckptAgreed pg + 1\<rparr>) s)
     | Some expected \<Rightarrow>
         if int n \<noteq> pg_cfcheckptCount (b_pg s) then Some (True, s)
         else do {
           ASSERT (n \<le> length expected);
           if take n headers = take n expected
           then peergroup_cfcheckpt_maybe_complete env i (upd_pg (\<lambda>pg. pg\<lparr>pg_cfcheckptAgreed := pg_cfcheckptAgreed pg + 1\<rparr>) s)
           else Some (True, s)
         }
   }"

text \<open>The loop over the filter hashes of a batch; \<open>k\<close> is its counter. The result: whether an append failed,
  the last header and the store.\<close>

fun append_cfheaders ::
  "('bn, 'b, 'pt, 'pk, 'db) env \<Rightarrow> int \<Rightarrow> nat \<Rightarrow> uint256 list \<Rightarrow> uint256 \<Rightarrow> cfheaderstore option \<Rightarrow>
    bool \<times> uint256 \<times> cfheaderstore option" where
  "append_cfheaders env startHeight k [] prevHeader cfs = (False, prevHeader, cfs)"
| "append_cfheaders env startHeight k (filterHash # hashes) prevHeader cfs =
     (let filterHeader = cfheader_calc (e_sha env) filterHash prevHeader;
          (res, cfs) = cfheaderstore_append (fst (e_cfheaders_wr env k)) (snd (e_cfheaders_wr env k)) cfs
             (startHeight + int k) (Some filterHeader) (Some filterHash)
      in if res then (True, prevHeader, cfs) else append_cfheaders env startHeight (k + 1) hashes filterHeader cfs)"

definition peergroup_handle_cfheaders ::
  "('bn, 'b, 'pt, 'pk, 'db) env \<Rightarrow> nat \<Rightarrow> btc_msg_cfheaders \<Rightarrow> ('pk, 'db) bitc \<Rightarrow> (bool \<times> ('pk, 'db) bitc) option" where
  "peergroup_handle_cfheaders env i cfh s = do {
     ASSERT (b_state s = BITC_STATE_UPDATE_TXDB);
     let pg = b_pg s;
     let n = unat (cfh_numHeaders cfh);
     let hashes = (case cfh_filterHashes cfh of None \<Rightarrow> [] | Some hs \<Rightarrow> hs);
     ASSERT (n \<le> length hashes);
     if \<not> uint256_iszero (Some (pg_cfhdrPrevHeader pg)) \<and> \<not> uint256_issame (cfh_prevFilterHeader cfh) (pg_cfhdrPrevHeader pg)
     then Some (True, s)
     else do {
       let startHeight = (case pg_cfStore pg of None \<Rightarrow> 0 | Some _ \<Rightarrow> cfheaderstore_get_tip_height (pg_cfStore pg) + 1);
       let (res, prevHeader, cfs) = append_cfheaders env startHeight 0 (take n hashes) (cfh_prevFilterHeader cfh) (pg_cfStore pg);
       let s = upd_pg (\<lambda>pg. pg\<lparr>pg_cfStore := cfs\<rparr>) s;
       if res then Some (True, s)
       else do {
         let s = upd_pg (\<lambda>pg. pg\<lparr>pg_cfhdrPrevHeader := prevHeader, pg_cfhdrStartHeight := startHeight + int n,
           pg_cfhdrSyncStarted := False\<rparr>) s;
         if pg_cfhdrStartHeight (b_pg s) \<le> pg_cfhdrTipHeight (b_pg s) then peergroup_request_cfheaders env i s
         else map_option (Pair False) (peergroup_schedule_cfilters env s)
       }
     }
   }"

section \<open>Filters\<close>

text \<open>The loop that counts the chunks that are done without a gap.\<close>

function count_done :: "cf_segment list \<Rightarrow> nat \<Rightarrow> nat" where
  "count_done segs n = (if n < length segs \<and> sg_done (segs ! n) then count_done segs (n + 1) else n)"
  by auto
termination by (relation "measure (\<lambda>(segs, n). length segs - n)") auto

declare count_done.simps [simp del]

definition CF_CHUNK_INDEX :: "peergroup \<Rightarrow> int \<Rightarrow> int" where
  "CF_CHUNK_INDEX pg height = c_div (height - pg_cfScanFloor pg) CFILTER_BATCH"

text \<open>The chunk that a filter from the peer counts for: the one of its height, if the peer has it.\<close>

definition my_chunk :: "peergroup \<Rightarrow> nat \<Rightarrow> int \<Rightarrow> nat option" where
  "my_chunk pg i blockHeight = (let idx = CF_CHUNK_INDEX pg blockHeight in
     if pg_cfSeg pg \<noteq> [] \<and> 0 \<le> idx \<and> idx < int (length (pg_cfSeg pg)) \<and>
        sg_assignedPeer (pg_cfSeg pg ! nat idx) = Some i \<and> \<not> sg_done (pg_cfSeg pg ! nat idx)
     then Some (nat idx) else None)"

definition count_filter :: "('bn, 'b, 'pt, 'pk, 'db) env \<Rightarrow> nat \<Rightarrow> nat \<Rightarrow> ('pk, 'db) bitc \<Rightarrow> ('pk, 'db) bitc option" where
  "count_filter env i k s = do {
     let s = upd_seg k (\<lambda>seg. seg\<lparr>sg_remaining := sg_remaining seg - 1, sg_progressTS := e_now env\<rparr>) s;
     let seg = pg_cfSeg (b_pg s) ! k;
     if 0 < sg_remaining seg then Some s
     else do {
       let s = upd_seg k (\<lambda>seg. seg\<lparr>sg_done := True\<rparr>) s;
       ip \<leftarrow> peer_get_ip s i;
       stats \<leftarrow> peerstats_record_cfilter_ok ip (ucast (sg_progressTS seg - sg_assignedTS seg)) (pg_peerStats (b_pg s));
       let s = upd_pg (\<lambda>pg. pg\<lparr>pg_peerStats := stats, pg_cfDoneContig := count_done (pg_cfSeg pg) (pg_cfDoneContig pg)\<rparr>) s;
       s \<leftarrow> peergroup_advance_lastblk env s;
       peergroup_assign_next_chunk_to env i s
     }
   }"

text \<open>Whether the filter matches a script of the wallet.\<close>

definition match_filter :: "btc_msg_cfilter \<Rightarrow> ('pk, 'db) bitc \<Rightarrow> (bool \<times> ('pk, 'db) bitc) option" where
  "match_filter cf s = do {
     (scripts, wallet) \<leftarrow> wallet_get_filter_scripts (b_wallet s);
     let s = s\<lparr>b_wallet := wallet\<rparr>;
     if scripts = [] then Some (False, s)
     else do {
       m \<leftarrow> gcs_filter_match_any (cf_filterData cf) (unat (cf_numBytes cf)) (Some (cf_blockHash cf)) (Some scripts) (length scripts);
       Some (m, s)
     }
   }"

text \<open>The check against the chain of filter headers: \<^const>\<open>None\<close> when the filter passes, otherwise the
  return code.\<close>

definition verify_filter ::
  "('bn, 'b, 'pt, 'pk, 'db) env \<Rightarrow> btc_msg_cfilter \<Rightarrow> int \<Rightarrow> cfheaderstore option \<Rightarrow> bool option option" where
  "verify_filter env cf blockHeight cfStore = (case cfStore of None \<Rightarrow> Some None
     | Some _ \<Rightarrow> (case cfheaderstore_get_hash cfStore blockHeight of None \<Rightarrow> Some (Some False)
         | Some storedHash \<Rightarrow> do {
             data \<leftarrow> (if cf_numBytes cf = 0 then Some [] else mem_read (cf_filterData cf) 0 (unat (cf_numBytes cf)));
             Some (if uint256_issame (hash256_calc (e_sha env) data) storedHash then None else Some True)
           }))"

text \<open>What follows when the filter is counted: the scan stops at the height that was asked for, or the filter is
  matched and its block is fetched.\<close>

definition after_filter ::
  "('bn, 'b, 'pt, 'pk, 'db) env \<Rightarrow> nat \<Rightarrow> btc_msg_cfilter \<Rightarrow> int \<Rightarrow> ('pk, 'db) bitc \<Rightarrow> (bool \<times> ('pk, 'db) bitc) option" where
  "after_filter env i cf blockHeight s =
     (if 0 < e_stopAfterHeight env \<and> e_stopAfterHeight env \<le> blockHeight then (
        let s = upd_pg (\<lambda>pg. pg\<lparr>pg_cfStopRequested := True\<rparr>) s in
        if pg_cfPending (b_pg s) = [] then do {
          s \<leftarrow> peergroup_download_complete env s;
          Some (False, bitc_req_stop s)
        }
        else Some (False, s))
      else do {
        (match, s) \<leftarrow> match_filter cf s;
        if match then do {
          let s = upd_pg (\<lambda>pg. pg\<lparr>pg_numFetched := pg_numFetched pg + 1\<rparr>) s;
          s \<leftarrow> peergroup_add_pending_block env (cf_blockHash cf) i s;
          peer_send_getdata env i INV_TYPE_MSG_BLOCK [cf_blockHash cf] s
        }
        else Some (False, s)
      })"

definition peergroup_handle_cfilter ::
  "('bn, 'b, 'pt, 'pk, 'db) env \<Rightarrow> nat \<Rightarrow> btc_msg_cfilter \<Rightarrow> ('pk, 'db) bitc \<Rightarrow> (bool \<times> ('pk, 'db) bitc) option" where
  "peergroup_handle_cfilter env i cf s = do {
     ASSERT (b_state s = BITC_STATE_UPDATE_TXDB \<or> b_state s = BITC_STATE_READY);
     blockHeight \<leftarrow> blockstore_get_block_height (b_blockStore s) (Some (cf_blockHash cf));
     if blockHeight < 0 then Some (False, s)
     else do {
       v \<leftarrow> verify_filter env cf blockHeight (pg_cfStore (b_pg s));
       case v of Some res \<Rightarrow> Some (res, s)
       | None \<Rightarrow> do {
           let s = peergroup_download_progress env (upd_pg (\<lambda>pg. pg\<lparr>pg_cfVerified := pg_cfVerified pg + 1\<rparr>) s);
           s \<leftarrow> (case my_chunk (b_pg s) i blockHeight of None \<Rightarrow> Some s | Some k \<Rightarrow> count_filter env i k s);
           after_filter env i cf blockHeight s
         }
     }
   }"

section \<open>Blocks\<close>

text \<open>A transaction that its block confirms (\<open>txdb_confirm_one_tx\<close>) is no longer relayed.\<close>

definition stop_relay :: "uint256 \<Rightarrow> ('pk, 'db) bitc \<Rightarrow> ('pk, 'db) bitc option" where
  "stop_relay txHash s = do {
     r \<leftarrow> txdb_get_tx_entry (b_txdb s) txHash;
     case r of None \<Rightarrow> Some s
     | Some a \<Rightarrow> do {
         txe \<leftarrow> deref_tx (b_txdb s) a;
         if te_relevant txe \<and> te_blkHash txe = 0
         then map_option (\<lambda>pg. s\<lparr>b_pg := pg\<rparr>) (peergroup_stop_broadcast_tx txHash (b_pg s))
         else Some s
       }
   }"

fun handle_txs :: "('bn, 'b, 'pt, 'pk, 'db) env \<Rightarrow> uint256 \<Rightarrow> btc_msg_tx list \<Rightarrow> ('pk, 'db) bitc \<Rightarrow> ('pk, 'db) bitc option" where
  "handle_txs env blockHash [] s = Some s"
| "handle_txs env blockHash (tx # txs) s = do {
     (res, txBuf) \<leftarrow> serialize_tx buff_alloc tx;
     if res then handle_txs env blockHash txs s
     else do {
       bytes \<leftarrow> mem_read (buff_base (Some txBuf)) 0 (unat (buff_curlen (Some txBuf)));
       s \<leftarrow> stop_relay (hash256_calc (e_sha env) bytes) s;
       (_, wlt, db) \<leftarrow> wallet_handle_tx (e_ssl env) (e_ldb env) (b_blockStore s) (e_now env div 1000000) (b_wallet s) (b_txdb s)
         (Some blockHash) (buff_base (Some txBuf)) (buff_curlen (Some txBuf));
       handle_txs env blockHash txs (s\<lparr>b_wallet := wlt, b_txdb := db\<rparr>)
     }
   }"

definition peergroup_handle_block ::
  "('bn, 'b, 'pt, 'pk, 'db) env \<Rightarrow> nat \<Rightarrow> btc_msg_block \<Rightarrow> ('pk, 'db) bitc \<Rightarrow> (bool \<times> ('pk, 'db) bitc) option" where
  "peergroup_handle_block env i blk s = do {
     ASSERT (b_state s = BITC_STATE_UPDATE_TXDB \<or> b_state s = BITC_STATE_READY);
     let blockHash = hdr_hash (e_sha env) (blk_header blk);
     blockHeight \<leftarrow> blockstore_get_block_height (b_blockStore s) (Some blockHash);
     ASSERT (unat (blk_txCount blk) \<le> length (blk_tx blk));
     s \<leftarrow> handle_txs env blockHash (take (unat (blk_txCount blk)) (blk_tx blk)) s;
     let s = peergroup_remove_pending_block blockHash s;
     s \<leftarrow> peergroup_advance_lastblk env s;
     if pg_cfStopRequested (b_pg s) \<and> pg_cfPending (b_pg s) = [] then do {
       s \<leftarrow> peergroup_download_complete env s;
       Some (False, bitc_req_stop s)
     }
     else map_option (Pair False) (peergroup_maybe_complete env s)
   }"

section \<open>Headers\<close>

definition peergroup_download_headers ::
  "('bn, 'b, 'pt, 'pk, 'db) env \<Rightarrow> nat \<Rightarrow> int \<Rightarrow> ('pk, 'db) bitc \<Rightarrow> (bool \<times> ('pk, 'db) bitc) option" where
  "peergroup_download_headers env i peerStartingHeight s = do {
     ASSERT (b_state s = BITC_STATE_STARTING \<or> b_state s = BITC_STATE_UPDATE_HEADERS);
     let d = pg_downloadPeer (b_pg s);
     if d \<noteq> None \<and> d \<noteq> Some i then Some (False, s)
     else do {
       let s = upd_pg (\<lambda>pg. pg\<lparr>pg_downloadPeer := Some i\<rparr>) s;
       height \<leftarrow> blockstore_get_height (Some (b_blockStore s));
       let s = upd_pg (\<lambda>pg. if pg_heightTarget pg < peerStartingHeight
         then pg\<lparr>pg_numHdrToFetch := (if pg_numHdrToFetch pg = 0 then peerStartingHeight - height
                   else pg_numHdrToFetch pg + (peerStartingHeight - pg_heightTarget pg)),
                 pg_heightTarget := peerStartingHeight\<rparr>
         else pg) s;
       let s = peergroup_download_progress env s;
       let s = (if b_state s = BITC_STATE_STARTING then s\<lparr>b_state := BITC_STATE_UPDATE_HEADERS\<rparr> else s);
       peer_send_getheaders env i s
     }
   }"

definition make_chunks :: "int \<Rightarrow> int \<Rightarrow> cf_segment list" where
  "make_chunks startHeight tipHeight =
     (if tipHeight < startHeight then []
      else map (\<lambda>k. let chunkStart = startHeight + int k * CFILTER_BATCH;
                        chunkEnd = min (chunkStart + CFILTER_BATCH - 1) tipHeight
             in \<lparr>sg_startHeight = chunkStart, sg_endHeight = chunkEnd, sg_remaining = chunkEnd - chunkStart + 1,
                  sg_assignedPeer = None, sg_avoidPeer = None, sg_progressTS = 0, sg_assignedTS = 0, sg_done = False\<rparr>)
        [0..<nat ((tipHeight - startHeight) div CFILTER_BATCH + 1)])"

text \<open>The start of the scan, when the headers are there.\<close>

definition start_scan :: "uint256 \<Rightarrow> ('pk, 'db) bitc \<Rightarrow> ('pk, 'db) bitc option" where
  "start_scan startHash s = do {
     let bs = b_blockStore s;
     pg \<leftarrow> peergroup_set_lastblk startHash (b_pg s);
     tipHeight \<leftarrow> blockstore_get_height (Some bs);
     startHeight \<leftarrow> blockstore_get_block_height bs (Some startHash);
     let cfTip = cfheaderstore_get_tip_height (pg_cfStore pg);
     let prev = (if 0 \<le> cfTip
       then (case cfheaderstore_get_header (pg_cfStore pg) cfTip of None \<Rightarrow> pg_cfhdrPrevHeader pg | Some h \<Rightarrow> h) else 0);
     Some (s\<lparr>b_pg := pg\<lparr>pg_numToFetch := tipHeight - startHeight, pg_cfScanFloor := startHeight, pg_cfTipHeight := tipHeight,
       pg_cfVerified := startHeight, pg_cfDoneContig := 0, pg_cfSeg := make_chunks startHeight tipHeight,
       pg_cfhdrStartHeight := cfTip + 1, pg_cfhdrTipHeight := tipHeight, pg_cfhdrPrevHeader := prev\<rparr>\<rparr>)
   }"

definition peergroup_download_filtered_blocks ::
  "('bn, 'b, 'pt, 'pk, 'db) env \<Rightarrow> nat \<Rightarrow> ('pk, 'db) bitc \<Rightarrow> (bool \<times> ('pk, 'db) bitc) option" where
  "peergroup_download_filtered_blocks env i s =
     (if b_state s \<noteq> BITC_STATE_UPDATE_HEADERS \<and> b_state s \<noteq> BITC_STATE_UPDATE_TXDB then Some (False, s)
      else (let pg = b_pg s in
        if pg_downloadPeer pg \<noteq> None \<and> pg_downloadPeer pg \<noteq> Some i then
          if b_state s = BITC_STATE_UPDATE_TXDB \<and> pg_cfcheckptVerified pg \<and> pg_cfhdrTipHeight pg < pg_cfhdrStartHeight pg
          then map_option (Pair False) (peergroup_schedule_cfilters env s)
          else Some (False, s)
        else (let s = upd_pg (\<lambda>pg. pg\<lparr>pg_downloadPeer := Some i\<rparr>) s;
                  first = (b_state s = BITC_STATE_UPDATE_HEADERS)
          in if first \<and> e_syncAndExit env then Some (False, bitc_req_stop s)
             else do {
               let s = s\<lparr>b_state := BITC_STATE_UPDATE_TXDB\<rparr>;
               birth \<leftarrow> wallet_get_birth (e_now env div 1000000) (b_wallet s);
               walletHash \<leftarrow> blockstore_get_hash_from_birth (e_sha env) (b_blockStore s) birth;
               let lastHashStore = (if 0 < e_stopAfterHeight env then walletHash else peergroup_get_lastblk (b_pg s));
               startHash \<leftarrow> blockstore_get_highest (b_blockStore s) walletHash lastHashStore;
               s \<leftarrow> (if first then start_scan startHash s else Some s);
               let s = peergroup_download_progress env s;
               let pg = b_pg s;
               if \<not> pg_cfcheckptVerified pg then peergroup_verify_cfcheckpts env i s
               else if pg_cfhdrStartHeight pg \<le> pg_cfhdrTipHeight pg then peergroup_request_cfheaders env i s
               else map_option (Pair False) (peergroup_schedule_cfilters env s)
             })))"

fun add_headers :: "('bn, 'b, 'pt, 'pk, 'db) env \<Rightarrow> btc_block_header list \<Rightarrow> nat \<Rightarrow> ('pk, 'db) bitc \<Rightarrow> (nat \<times> ('pk, 'db) bitc) option" where
  "add_headers env [] numAdded s = Some (numAdded, s)"
| "add_headers env (hdr # hdrs) numAdded s = do {
     let hash = hdr_hash (e_sha env) hdr;
     ((added, orphan), bs) \<leftarrow> blockstore_add_header (e_sha env) hdr hash (b_blockStore s);
     let s = s\<lparr>b_blockStore := bs\<rparr>;
     if added then add_headers env hdrs (numAdded + 1) (upd_pg (\<lambda>pg. pg\<lparr>pg_numHdrFetched := pg_numHdrFetched pg + 1\<rparr>) s)
     else add_headers env hdrs numAdded s
   }"

definition peergroup_handle_headers ::
  "('bn, 'b, 'pt, 'pk, 'db) env \<Rightarrow> nat \<Rightarrow> btc_block_header list \<Rightarrow> ('pk, 'db) bitc \<Rightarrow> (bool \<times> ('pk, 'db) bitc) option" where
  "peergroup_handle_headers env i headers s =
     (if pg_downloadPeer (b_pg s) \<noteq> None \<and> pg_downloadPeer (b_pg s) \<noteq> Some i then Some (False, s)
      else do {
        (numAdded, s) \<leftarrow> add_headers env headers 0 s;
        s \<leftarrow> (if 0 < numAdded then peergroup_add_block_finalize env True s else Some s);
        let s = peergroup_download_progress env s;
        height \<leftarrow> blockstore_get_height (Some (b_blockStore s));
        let s = upd_pg (\<lambda>pg. if pg_heightTarget pg < height then pg\<lparr>pg_heightTarget := height\<rparr> else pg) s;
        if 0 < numAdded \<and> b_state s = BITC_STATE_UPDATE_HEADERS then peer_send_getheaders env i s
        else peergroup_download_filtered_blocks env i s
      })"

definition peergroup_handle_handshake_ok ::
  "('bn, 'b, 'pt, 'pk, 'db) env \<Rightarrow> nat \<Rightarrow> int \<Rightarrow> ('pk, 'db) bitc \<Rightarrow> (bool \<times> ('pk, 'db) bitc) option" where
  "peergroup_handle_handshake_ok env i peerStartingHeight s = do {
     n \<leftarrow> peergroup_count_connected s;
     if pg_maxActive (b_pg s) < of_nat n then Some (True, s)
     else do {
       let s = upd_pg (\<lambda>pg. if pg_firstConnectTS pg = 0 then pg\<lparr>pg_firstConnectTS := e_now env\<rparr> else pg) s;
       case b_state s of
         BITC_STATE_STARTING \<Rightarrow> peergroup_download_headers env i peerStartingHeight s
       | BITC_STATE_UPDATE_HEADERS \<Rightarrow> peergroup_download_headers env i peerStartingHeight s
       | BITC_STATE_UPDATE_TXDB \<Rightarrow> peergroup_download_filtered_blocks env i s
       | BITC_STATE_READY \<Rightarrow> peer_on_ready env i s
       | BITC_STATE_EXITING \<Rightarrow> Some (False, s)
     }
   }"

section \<open>Addresses\<close>

fun peergroup_handle_addr :: "('bn, 'b, 'pt, 'pk, 'db) env \<Rightarrow> btc_msg_address list \<Rightarrow> ('pk, 'db) bitc \<Rightarrow> ('pk, 'db) bitc option" where
  "peergroup_handle_addr env [] s = Some s"
| "peergroup_handle_addr env (addr # addrs) s = do {
     let (p, book) = alloc_paddr addr (b_book s);
     (added, book) \<leftarrow> addrbook_add_entry (fst (e_book_wr env)) (snd (e_book_wr env)) p book;
     peergroup_handle_addr env addrs (s\<lparr>b_book := (if added then book else set_paddr p None book)\<rparr>)
   }"

section \<open>Saving the resume point\<close>

definition peergroup_save_lastblk :: "('bn, 'b, 'pt, 'pk, 'db) env \<Rightarrow> uint256 \<Rightarrow> config \<Rightarrow> (string option \<times> config) option" where
  "peergroup_save_lastblk env hash cfg = do {
     str \<leftarrow> uint256_to_str hash;
     cfg \<leftarrow> config_setstring cfg (Some str) ''peergroup.lastblk'';
     (_, text, cfg) \<leftarrow> config_save (fst (e_config_wr env)) (fst (snd (e_config_wr env))) (snd (snd (e_config_wr env))) cfg;
     Some (text, cfg)
   }"

definition peergroup_zap :: "('bn, 'b, 'pt, 'pk, 'db) env \<Rightarrow> config \<Rightarrow> (string option \<times> config) option" where
  "peergroup_zap env cfg = peergroup_save_lastblk env 0 cfg"

end
