(* ===== verification/Peer.thy ===== *)
theory Peer
  imports Peergroup
begin

text \<open>
  The life of a peer, from \<^verbatim>\<open>src/core/peer.c\<close> and \<^verbatim>\<open>src/core/peergroup.c\<close>: connecting, the handshake, the
  messages it sends, its end, and how the group of peers is filled again.

  \<open>peer_receive_cb\<close> is the network's call with the bytes that were asked for: 24 bytes of a message header,
  or as many as the header announced. An operation has no result when the program stops.
\<close>

section \<open>The end of a peer\<close>

definition peer_remove_addr :: "int \<Rightarrow> bool" where
  "peer_remove_addr err \<longleftrightarrow> err \<noteq> 0 \<and> err \<noteq> EHOSTUNREACH \<and> err \<noteq> ENETDOWN \<and> err \<noteq> ENETUNREACH \<and> err \<noteq> ETIMEDOUT"

definition peergroup_queue_peerlist :: "nat \<Rightarrow> peergroup \<Rightarrow> peergroup" where
  "peergroup_queue_peerlist i pg = pg\<lparr>pg_peer_list := pg_peer_list pg @ [i]\<rparr>"

definition peergroup_dequeue_peerlist :: "nat \<Rightarrow> peergroup \<Rightarrow> peergroup" where
  "peergroup_dequeue_peerlist i pg = pg\<lparr>pg_peer_list := remove1 i (pg_peer_list pg), pg_active := pg_active pg - 1\<rparr>"

definition peergroup_notify_destroy ::
  "(bool \<Rightarrow> ('pk, 'db) bitc \<Rightarrow> ('pk, 'db) bitc option) \<Rightarrow> ('pk, 'db) bitc \<Rightarrow> ('pk, 'db) bitc option" where
  "peergroup_notify_destroy refill s = (if bitc_exiting s then Some s else refill False s)"

text \<open>\<open>refill\<close> is \<open>peergroup_refill\<close>, which destroys peers in turn when connecting fails at once.\<close>

definition peer_destroy ::
  "('bn, 'b, 'pt, 'pk, 'db) env \<Rightarrow> (bool \<Rightarrow> ('pk, 'db) bitc \<Rightarrow> ('pk, 'db) bitc option) \<Rightarrow> nat \<Rightarrow> int \<Rightarrow>
    ('pk, 'db) bitc \<Rightarrow> ('pk, 'db) bitc option" where
  "peer_destroy env refill i err s = do {
     p \<leftarrow> deref_peer s i;
     a \<leftarrow> deref_paddr (b_book s) (p_paddr p);
     if \<not> pa_connected a then Some s
     else do {
       let s = s\<lparr>b_book := set_paddr (p_paddr p) (Some (a\<lparr>pa_connected := False\<rparr>)) (b_book s)\<rparr>;
       let s = upd_peer i (\<lambda>p. p\<lparr>p_connected := False\<rparr>) s;
       let s = upd_pg (\<lambda>pg. if pg_downloadPeer pg = Some i then pg\<lparr>pg_downloadPeer := None\<rparr> else pg) s;
       s \<leftarrow> peergroup_requeue_peer_chunks env i s;
       s \<leftarrow> peergroup_notify_peer_gone env i s;
       s \<leftarrow> (if peer_remove_addr err
             then do {
               book \<leftarrow> addrbook_remove_entry (p_paddr p) (b_book s);
               Some (s\<lparr>b_book := set_paddr (p_paddr p) None book\<rparr>)
             }
             else Some s);
       let s = upd_pg (peergroup_dequeue_peerlist i) s;
       peergroup_notify_destroy refill (s\<lparr>b_peers := (b_peers s)[i := None]\<rparr>)
     }
   }"

section \<open>Connecting\<close>

definition peer_connect_cb ::
  "('bn, 'b, 'pt, 'pk, 'db) env \<Rightarrow> (bool \<Rightarrow> ('pk, 'db) bitc \<Rightarrow> ('pk, 'db) bitc option) \<Rightarrow> nat \<Rightarrow> int \<Rightarrow>
    ('pk, 'db) bitc \<Rightarrow> ('pk, 'db) bitc option" where
  "peer_connect_cb env refill i err s = do {
     _ \<leftarrow> deref_peer s i;
     if err \<noteq> 0 then peer_destroy env refill i err s
     else do {
       let s = upd_peer i (\<lambda>p. p\<lparr>p_connected := True, p_recvMsgHdr := True\<rparr>) s;
       b \<leftarrow> btcmsg_craft_version (e_testnet env) (e_sha env) (e_now env div 1000000);
       (_, s) \<leftarrow> peer_send_msg i BTC_MSG_VERSION (set_sendBuf i b s);
       Some s
     }
   }"

definition new_peer :: "u64 \<Rightarrow> nat \<Rightarrow> peer" where
  "new_peer now paddr = \<lparr>p_recvBuf = buff_init None 0, p_sendBuf = None, p_last_ts = 0, p_connectStartTS = now,
     p_pingNonce = 0xdead0000, p_connected = False, p_got_version = False, p_got_verack = False, p_recvMsgHdr = False,
     p_msgHdr = msghdr_overlay (replicate 24 0), p_startingHeight = 0, p_protversion = 0, p_services = 0, p_paddr = paddr\<rparr>"

definition peer_add ::
  "('bn, 'b, 'pt, 'pk, 'db) env \<Rightarrow> (bool \<Rightarrow> ('pk, 'db) bitc \<Rightarrow> ('pk, 'db) bitc option) \<Rightarrow> nat \<Rightarrow>
    ('pk, 'db) bitc \<Rightarrow> ('pk, 'db) bitc option" where
  "peer_add env refill paddr s = do {
     a \<leftarrow> deref_paddr (b_book s) paddr;
     ASSERT (\<not> pa_connected a);
     let i = length (b_peers s);
     let s = s\<lparr>b_book := set_paddr paddr (Some (a\<lparr>pa_connected := True, pa_triedalready := True\<rparr>)) (b_book s),
               b_peers := b_peers s @ [Some (new_peer (e_now env) paddr)]\<rparr>;
     let s = upd_pg (peergroup_queue_peerlist i) s;
     case e_connect env paddr of None \<Rightarrow> Some s | Some err \<Rightarrow> peer_connect_cb env refill i err s
   }"

definition peergroup_add_peer ::
  "('bn, 'b, 'pt, 'pk, 'db) env \<Rightarrow> (bool \<Rightarrow> ('pk, 'db) bitc \<Rightarrow> ('pk, 'db) bitc option) \<Rightarrow> nat \<Rightarrow>
    ('pk, 'db) bitc \<Rightarrow> ('pk, 'db) bitc option" where
  "peergroup_add_peer env refill paddr s = do {
     s \<leftarrow> peer_add env refill paddr (upd_pg (\<lambda>pg. pg\<lparr>pg_active := pg_active pg + 1\<rparr>) s);
     Some (upd_pg (\<lambda>pg. pg\<lparr>pg_peerSequence := pg_peerSequence pg + 1\<rparr>) s)
   }"

section \<open>Filling the group\<close>

text \<open>First the peers that served well before, then addresses at random; \<open>add\<close> is \<open>peergroup_add_peer\<close>.\<close>

fun refill_best ::
  "(nat \<Rightarrow> ('pk, 'db) bitc \<Rightarrow> ('pk, 'db) bitc option) \<Rightarrow> u32 \<Rightarrow> peerstats_entry list \<Rightarrow>
    ('pk, 'db) bitc \<Rightarrow> ('pk, 'db) bitc option" where
  "refill_best add m [] s = Some s"
| "refill_best add m (e # es) s =
     (if \<not> pg_active (b_pg s) < m then Some s
      else do {
        r \<leftarrow> addrbook_get_by_ip (pe_ip e) (b_book s);
        case r of None \<Rightarrow> refill_best add m es s
        | Some p \<Rightarrow> do {
            a \<leftarrow> deref_paddr (b_book s) p;
            if pa_triedalready a \<or> pa_connected a then refill_best add m es s
            else do { s \<leftarrow> add p s; refill_best add m es s }
          }
      })"

fun refill_random ::
  "(nat \<Rightarrow> nat) \<Rightarrow> (nat \<Rightarrow> ('pk, 'db) bitc \<Rightarrow> ('pk, 'db) bitc option) \<Rightarrow> u32 \<Rightarrow> nat \<Rightarrow>
    ('pk, 'db) bitc \<Rightarrow> ('pk, 'db) bitc option" where
  "refill_random random add m 0 s = Some s"
| "refill_random random add m (Suc n) s =
     (if \<not> pg_active (b_pg s) < m then Some s
      else do {
        r \<leftarrow> addrbook_get_rand_addr (random (b_nrandom s)) (b_book s);
        case r of None \<Rightarrow> Some s
        | Some p \<Rightarrow> do {
            let s = s\<lparr>b_nrandom := b_nrandom s + 1\<rparr>;
            a \<leftarrow> deref_paddr (b_book s) p;
            if pa_triedalready a \<or> ad_services (pa_addr a) AND BTC_SERVICE_NODE_NETWORK = 0 \<or> pa_connected a
            then refill_random random add m n s
            else do { s \<leftarrow> add p s; refill_random random add m n s }
          }
      })"

definition refill_step ::
  "('bn, 'b, 'pt, 'pk, 'db) env \<Rightarrow> (nat \<Rightarrow> ('pk, 'db) bitc \<Rightarrow> ('pk, 'db) bitc option) \<Rightarrow> bool \<Rightarrow>
    ('pk, 'db) bitc \<Rightarrow> ('pk, 'db) bitc option" where
  "refill_step env add init s =
     (if e_connectHost env \<noteq> None then Some s
      else (let pg = b_pg s in
        if addrbook_get_count (b_book s) \<le> 2 * pg_active pg then Some s
        else do {
          let m = (if init then max (pg_maxActive pg) (pg_minActiveInit pg) else pg_maxActive pg);
          best \<leftarrow> peerstats_get_best (pg_peerStats pg) 32;
          s \<leftarrow> refill_best add m best s;
          refill_random (e_random env) add m 2000 s
        }))"

text \<open>A peer that fails at once fills the group again, from inside. Each of these calls has tried one more
  address, so the number of those that were not tried bounds the depth (\<open>refill_terminates\<close>).\<close>

fun refill_depth ::
  "nat \<Rightarrow> ('bn, 'b, 'pt, 'pk, 'db) env \<Rightarrow> bool \<Rightarrow> ('pk, 'db) bitc \<Rightarrow> ('pk, 'db) bitc option" where
  "refill_depth 0 env init s = None"
| "refill_depth (Suc n) env init s = refill_step env (peergroup_add_peer env (refill_depth n env)) init s"

definition untried :: "addrbook \<Rightarrow> nat" where
  "untried book = length (filter (\<lambda>a. case a of None \<Rightarrow> False | Some a \<Rightarrow> \<not> pa_triedalready a) (ab_addrs book))"

definition peergroup_refill :: "('bn, 'b, 'pt, 'pk, 'db) env \<Rightarrow> bool \<Rightarrow> ('pk, 'db) bitc \<Rightarrow> ('pk, 'db) bitc option" where
  "peergroup_refill env init s = refill_depth (untried (b_book s) + 1) env init s"

definition peer_error_cb :: "('bn, 'b, 'pt, 'pk, 'db) env \<Rightarrow> nat \<Rightarrow> int \<Rightarrow> ('pk, 'db) bitc \<Rightarrow> ('pk, 'db) bitc option" where
  "peer_error_cb env i err s = peer_destroy env (peergroup_refill env) i err s"

section \<open>Handshake\<close>

definition peer_handshake_ok :: "('bn, 'b, 'pt, 'pk, 'db) env \<Rightarrow> nat \<Rightarrow> ('pk, 'db) bitc \<Rightarrow> (bool \<times> ('pk, 'db) bitc) option" where
  "peer_handshake_ok env i s = do {
     p \<leftarrow> deref_peer s i;
     ASSERT (BTC_PROTO_ADDR_W_TIME \<le> p_protversion p);
     stats \<leftarrow> (case pg_peerStats (b_pg s) of None \<Rightarrow> Some None
       | Some ps \<Rightarrow> do {
           ip \<leftarrow> peer_get_ip s i;
           peerstats_record_handshake ip (ucast (e_now env - p_connectStartTS p)) (p_services p) (Some ps)
         });
     let s = upd_pg (\<lambda>pg. pg\<lparr>pg_peerStats := stats\<rparr>) s;
     (res, s) \<leftarrow> peer_send_getaddr env i s;
     if res then Some (res, s)
     else peergroup_handle_handshake_ok env i (sint (p_startingHeight p)) s
   }"

text \<open>A parser reads the receive buffer of the peer.\<close>

definition recv_parse ::
  "nat \<Rightarrow> (buff \<Rightarrow> (bool \<times> 'a \<times> buff) option) \<Rightarrow> ('pk, 'db) bitc \<Rightarrow> (bool \<times> 'a \<times> ('pk, 'db) bitc) option" where
  "recv_parse i parse s = do {
     p \<leftarrow> deref_peer s i;
     (res, v, b) \<leftarrow> parse (p_recvBuf p);
     Some (res, v, upd_peer i (\<lambda>p. p\<lparr>p_recvBuf := b\<rparr>) s)
   }"

definition peer_handle_version :: "('bn, 'b, 'pt, 'pk, 'db) env \<Rightarrow> nat \<Rightarrow> ('pk, 'db) bitc \<Rightarrow> (bool \<times> ('pk, 'db) bitc) option" where
  "peer_handle_version env i s = do {
     (res, v, s) \<leftarrow> recv_parse i (\<lambda>b. btcmsg_parse_version b btc_msg_version_zero) s;
     if res then Some (res, s)
     else do {
       let s = upd_peer i (\<lambda>p. p\<lparr>p_protversion := v_version v, p_startingHeight := v_startingHeight v, p_services := v_services v\<rparr>) s;
       if v_services v AND BTC_SERVICE_NODE_NETWORK = 0 then Some (True, s)
       else if v_startingHeight v = 0 then Some (True, s)
       else if v_version v < BTC_PROTO_FILTERING then Some (True, s)
       else do {
         let s = upd_peer i (\<lambda>p. p\<lparr>p_got_version := True\<rparr>) s;
         b \<leftarrow> btcmsg_craft_verack (e_testnet env) (e_sha env);
         peer_send_msg i BTC_MSG_VERACK (set_sendBuf i b s)
       }
     }
   }"

definition peer_handle_verack :: "('bn, 'b, 'pt, 'pk, 'db) env \<Rightarrow> nat \<Rightarrow> ('pk, 'db) bitc \<Rightarrow> (bool \<times> ('pk, 'db) bitc) option" where
  "peer_handle_verack env i s = do {
     p \<leftarrow> deref_peer s i;
     if \<not> p_got_version p then Some (True, s)
     else peer_handshake_ok env i (upd_peer i (\<lambda>p. p\<lparr>p_got_verack := True\<rparr>) s)
   }"

section \<open>Messages\<close>

text \<open>The answer to \<open>getaddr\<close> is built and left in \<open>sendBuf\<close>.\<close>

primrec rand_addrs :: "(nat \<Rightarrow> nat) \<Rightarrow> nat \<Rightarrow> ('pk, 'db) bitc \<Rightarrow> (btc_msg_address list \<times> ('pk, 'db) bitc) option" where
  "rand_addrs random 0 s = Some ([], s)"
| "rand_addrs random (Suc n) s = do {
     r \<leftarrow> addrbook_get_rand_addr (random (b_nrandom s)) (b_book s);
     p \<leftarrow> r;
     a \<leftarrow> deref_paddr (b_book s) p;
     (as, s) \<leftarrow> rand_addrs random n (s\<lparr>b_nrandom := b_nrandom s + 1\<rparr>);
     Some (pa_addr a # as, s)
   }"

definition peer_handle_getaddr :: "('bn, 'b, 'pt, 'pk, 'db) env \<Rightarrow> nat \<Rightarrow> ('pk, 'db) bitc \<Rightarrow> (bool \<times> ('pk, 'db) bitc) option" where
  "peer_handle_getaddr env i s = do {
     p \<leftarrow> deref_peer s i;
     let numAddr = min 32 (unat (addrbook_get_count (b_book s)));
     (addrs, s) \<leftarrow> rand_addrs (e_random env) numAddr s;
     b \<leftarrow> btcmsg_craft_addr (e_testnet env) (e_sha env) (p_protversion p) addrs numAddr;
     Some (False, set_sendBuf i b s)
   }"

definition peer_handle_ping :: "('bn, 'b, 'pt, 'pk, 'db) env \<Rightarrow> nat \<Rightarrow> ('pk, 'db) bitc \<Rightarrow> (bool \<times> ('pk, 'db) bitc) option" where
  "peer_handle_ping env i s = do {
     p \<leftarrow> deref_peer s i;
     (res, nonce, s) \<leftarrow> recv_parse i (btcmsg_parse_pingpong (p_protversion p)) s;
     if res then Some (res, s)
     else do {
       b \<leftarrow> btcmsg_craft_pong (e_testnet env) (e_sha env) (p_protversion p) nonce;
       peer_send_msg i BTC_MSG_PONG (set_sendBuf i b s)
     }
   }"

text \<open>A nonce that was not sent is only logged.\<close>

definition peer_handle_pong :: "nat \<Rightarrow> ('pk, 'db) bitc \<Rightarrow> (bool \<times> ('pk, 'db) bitc) option" where
  "peer_handle_pong i s = do {
     p \<leftarrow> deref_peer s i;
     (res, nonce, s) \<leftarrow> recv_parse i (btcmsg_parse_pingpong (p_protversion p)) s;
     Some (res, s)
   }"

definition peer_handle_notfound :: "('bn, 'b, 'pt, 'pk, 'db) env \<Rightarrow> nat \<Rightarrow> ('pk, 'db) bitc \<Rightarrow> (bool \<times> ('pk, 'db) bitc) option" where
  "peer_handle_notfound env i s = do {
     (res, (hashes, n), s) \<leftarrow> recv_parse i (btcmsg_parse_notfound True) s;
     if res then Some (res, s)
     else if 0 < n then do {
       hs \<leftarrow> hashes;
       s \<leftarrow> peergroup_retry_block_fetch env i (take n hs) s;
       Some (False, s)
     }
     else Some (False, s)
   }"

definition peer_handle_alert :: "nat \<Rightarrow> ('pk, 'db) bitc \<Rightarrow> (bool \<times> ('pk, 'db) bitc) option" where
  "peer_handle_alert i s = do { (res, _, s) \<leftarrow> recv_parse i btcmsg_parse_alert s; Some (res, s) }"

fun answer_getdata ::
  "('bn, 'b, 'pt, 'pk, 'db) env \<Rightarrow> nat \<Rightarrow> btc_msg_inv list \<Rightarrow> ('pk, 'db) bitc \<Rightarrow> (bool \<times> ('pk, 'db) bitc) option" where
  "answer_getdata env i [] s = Some (False, s)"
| "answer_getdata env i (iv # invs) s =
     (if inv_type iv = INV_TYPE_MSG_TX then do {
        r \<leftarrow> peergroup_lookup_broadcast_tx (inv_hash iv) (b_pg s);
        case r of None \<Rightarrow> answer_getdata env i invs s
        | Some buf \<Rightarrow> do {
            b \<leftarrow> btcmsg_craft_tx (e_testnet env) (e_sha env) (Some buf);
            (res, s) \<leftarrow> peer_send_msg i BTC_MSG_TX (set_sendBuf i b s);
            if res then Some (res, s) else answer_getdata env i invs s
          }
      }
      else Some (True, s))"

definition peer_handle_getdata :: "('bn, 'b, 'pt, 'pk, 'db) env \<Rightarrow> nat \<Rightarrow> ('pk, 'db) bitc \<Rightarrow> (bool \<times> ('pk, 'db) bitc) option" where
  "peer_handle_getdata env i s = do {
     (res, (invs, n), s) \<leftarrow> recv_parse i btcmsg_parse_inv s;
     if res then Some (res, s)
     else do { invs \<leftarrow> invs; answer_getdata env i (take n invs) s }
   }"

definition peer_handle_getblocks :: "nat \<Rightarrow> ('pk, 'db) bitc \<Rightarrow> (bool \<times> ('pk, 'db) bitc) option" where
  "peer_handle_getblocks i s = Some (True, s)"

text \<open>\<open>wallet_handle_tx\<close> must not fail.\<close>

definition peer_handle_tx :: "('bn, 'b, 'pt, 'pk, 'db) env \<Rightarrow> nat \<Rightarrow> ('pk, 'db) bitc \<Rightarrow> (bool \<times> ('pk, 'db) bitc) option" where
  "peer_handle_tx env i s = do {
     p \<leftarrow> deref_peer s i;
     (res, wlt, db) \<leftarrow> wallet_handle_tx (e_ssl env) (e_ldb env) (b_blockStore s) (e_now env div 1000000) (b_wallet s) (b_txdb s)
       None (buff_base (Some (p_recvBuf p))) (buff_maxlen (Some (p_recvBuf p)));
     ASSERT (\<not> res);
     Some (res, s\<lparr>b_wallet := wlt, b_txdb := db\<rparr>)
   }"

definition peer_handle_block :: "('bn, 'b, 'pt, 'pk, 'db) env \<Rightarrow> nat \<Rightarrow> ('pk, 'db) bitc \<Rightarrow> (bool \<times> ('pk, 'db) bitc) option" where
  "peer_handle_block env i s = do {
     (res, blk, s) \<leftarrow> recv_parse i (\<lambda>b. btcmsg_parse_block b \<lparr>blk_header = btc_block_header_zero, blk_txCount = 0, blk_tx = []\<rparr>) s;
     if res then Some (res, s)
     else do {
       (_, s) \<leftarrow> peergroup_handle_block env i blk s;
       _ \<leftarrow> btc_msg_block_free blk;
       Some (False, s)
     }
   }"

definition peer_handle_headers :: "('bn, 'b, 'pt, 'pk, 'db) env \<Rightarrow> nat \<Rightarrow> ('pk, 'db) bitc \<Rightarrow> (bool \<times> ('pk, 'db) bitc) option" where
  "peer_handle_headers env i s = do {
     (res, (headers, n), s) \<leftarrow> recv_parse i btcmsg_parse_headers s;
     if res then Some (res, s)
     else do { hs \<leftarrow> headers; peergroup_handle_headers env i (take n hs) s }
   }"

definition peer_handle_addr :: "('bn, 'b, 'pt, 'pk, 'db) env \<Rightarrow> nat \<Rightarrow> ('pk, 'db) bitc \<Rightarrow> (bool \<times> ('pk, 'db) bitc) option" where
  "peer_handle_addr env i s = do {
     p \<leftarrow> deref_peer s i;
     (res, addrs, s) \<leftarrow> recv_parse i (btcmsg_parse_addr (uint (e_now env div 1000000)) (p_protversion p)) s;
     if res then Some (res, s)
     else do {
       addrs \<leftarrow> addrs;
       s \<leftarrow> peergroup_handle_addr env addrs s;
       Some (False, s)
     }
   }"

text \<open>The entries of an \<open>inv\<close> that are not known yet, with their types.\<close>

fun inv_wanted :: "btc_msg_inv list \<Rightarrow> ('pk, 'db) bitc \<Rightarrow> (u32 \<times> uint256) list option" where
  "inv_wanted [] s = Some []"
| "inv_wanted (iv # invs) s = do {
     known \<leftarrow> (if inv_type iv = INV_TYPE_MSG_BLOCK then blockstore_is_block_known (b_blockStore s) (inv_hash iv)
              else if inv_type iv = INV_TYPE_MSG_TX then txdb_has_tx (b_txdb s) (inv_hash iv)
              else Some True);
     rest \<leftarrow> inv_wanted invs s;
     Some (if known then rest else (inv_type iv, inv_hash iv) # rest)
   }"

text \<open>They are requested in runs of the same type.\<close>

function request_runs ::
  "('bn, 'b, 'pt, 'pk, 'db) env \<Rightarrow> nat \<Rightarrow> (u32 \<times> uint256) list \<Rightarrow> ('pk, 'db) bitc \<Rightarrow> (bool \<times> ('pk, 'db) bitc) option" where
  "request_runs env i [] s = Some (False, s)"
| "request_runs env i (w # ws) s = do {
     (res, s) \<leftarrow> peer_send_getdata env i (fst w) (snd w # map snd (takeWhile (\<lambda>v. fst v = fst w) ws)) s;
     if res then Some (res, s) else request_runs env i (dropWhile (\<lambda>v. fst v = fst w) ws) s
   }"
  by pat_completeness auto
termination
  by (relation "measure (\<lambda>(_, _, ws, _). length ws)") (auto simp: length_dropWhile_le le_imp_less_Suc)

definition peer_handle_inv :: "('bn, 'b, 'pt, 'pk, 'db) env \<Rightarrow> nat \<Rightarrow> ('pk, 'db) bitc \<Rightarrow> (bool \<times> ('pk, 'db) bitc) option" where
  "peer_handle_inv env i s = do {
     (res, (invs, n), s) \<leftarrow> recv_parse i btcmsg_parse_inv s;
     if res then Some (res, s)
     else do {
       invs \<leftarrow> invs;
       wanted \<leftarrow> inv_wanted (take n invs) s;
       if bitc_state_ready s then request_runs env i wanted s else Some (False, s)
     }
   }"

definition peer_handle_cfilter :: "('bn, 'b, 'pt, 'pk, 'db) env \<Rightarrow> nat \<Rightarrow> ('pk, 'db) bitc \<Rightarrow> (bool \<times> ('pk, 'db) bitc) option" where
  "peer_handle_cfilter env i s = do {
     (res, cf, s) \<leftarrow> recv_parse i btcmsg_parse_cfilter s;
     if res then Some (res, s) else peergroup_handle_cfilter env i cf s
   }"

definition peer_handle_cfheaders :: "('bn, 'b, 'pt, 'pk, 'db) env \<Rightarrow> nat \<Rightarrow> ('pk, 'db) bitc \<Rightarrow> (bool \<times> ('pk, 'db) bitc) option" where
  "peer_handle_cfheaders env i s = do {
     (res, cfh, s) \<leftarrow> recv_parse i btcmsg_parse_cfheaders s;
     if res then Some (res, s) else peergroup_handle_cfheaders env i cfh s
   }"

definition peer_handle_cfcheckpt :: "('bn, 'b, 'pt, 'pk, 'db) env \<Rightarrow> nat \<Rightarrow> ('pk, 'db) bitc \<Rightarrow> (bool \<times> ('pk, 'db) bitc) option" where
  "peer_handle_cfcheckpt env i s = do {
     (res, cfc, s) \<leftarrow> recv_parse i btcmsg_parse_cfcheckpt s;
     if res then Some (res, s) else peergroup_handle_cfcheckpt env i cfc s
   }"

section \<open>Receiving\<close>

definition peer_handle_msgheader :: "('bn, 'b, 'pt, 'pk, 'db) env \<Rightarrow> nat \<Rightarrow> ('pk, 'db) bitc \<Rightarrow> (bool \<times> ('pk, 'db) bitc) option" where
  "peer_handle_msgheader env i s = do {
     p \<leftarrow> deref_peer s i;
     if \<not> btcmsg_header_valid (e_testnet env) (p_msgHdr p) then Some (True, s)
     else do {
       b \<leftarrow> buff_alloc_base (p_recvBuf p) (ucast (mh_payloadLength (p_msgHdr p)));
       Some (False, upd_peer i (\<lambda>p. p\<lparr>p_recvBuf := b, p_recvMsgHdr := False\<rparr>) s)
     }
   }"

text \<open>The \<open>switch\<close> of \<open>peer_receive_cb\<close>.\<close>

definition peer_handle_msg ::
  "('bn, 'b, 'pt, 'pk, 'db) env \<Rightarrow> btc_msg_type \<Rightarrow> nat \<Rightarrow> ('pk, 'db) bitc \<Rightarrow> (bool \<times> ('pk, 'db) bitc) option" where
  "peer_handle_msg env msg i s = (case msg of
     BTC_MSG_INV \<Rightarrow> peer_handle_inv env i s
   | BTC_MSG_ADDR \<Rightarrow> peer_handle_addr env i s
   | BTC_MSG_GETADDR \<Rightarrow> peer_handle_getaddr env i s
   | BTC_MSG_PING \<Rightarrow> peer_handle_ping env i s
   | BTC_MSG_PONG \<Rightarrow> peer_handle_pong i s
   | BTC_MSG_GETBLOCKS \<Rightarrow> peer_handle_getblocks i s
   | BTC_MSG_GETDATA \<Rightarrow> peer_handle_getdata env i s
   | BTC_MSG_BLOCK \<Rightarrow> peer_handle_block env i s
   | BTC_MSG_TX \<Rightarrow> peer_handle_tx env i s
   | BTC_MSG_ALERT \<Rightarrow> peer_handle_alert i s
   | BTC_MSG_NOTFOUND \<Rightarrow> peer_handle_notfound env i s
   | BTC_MSG_HEADERS \<Rightarrow> peer_handle_headers env i s
   | BTC_MSG_CFILTER \<Rightarrow> peer_handle_cfilter env i s
   | BTC_MSG_CFHEADERS \<Rightarrow> peer_handle_cfheaders env i s
   | BTC_MSG_CFCHECKPT \<Rightarrow> peer_handle_cfcheckpt env i s
   | _ \<Rightarrow> Some (False, s))"

definition peer_update_timestamp :: "('bn, 'b, 'pt, 'pk, 'db) env \<Rightarrow> nat \<Rightarrow> ('pk, 'db) bitc \<Rightarrow> ('pk, 'db) bitc option" where
  "peer_update_timestamp env i s = do {
     p \<leftarrow> deref_peer s i;
     a \<leftarrow> deref_paddr (b_book s) (p_paddr p);
     Some (s\<lparr>b_book := set_paddr (p_paddr p) (Some (a\<lparr>pa_addr := (pa_addr a)\<lparr>ad_time := ucast (e_now env div 1000000)\<rparr>\<rparr>)) (b_book s)\<rparr>)
   }"

text \<open>A complete message: during the handshake only the message that is waited for counts.\<close>

definition handle_payload :: "('bn, 'b, 'pt, 'pk, 'db) env \<Rightarrow> btc_msg_type \<Rightarrow> nat \<Rightarrow> ('pk, 'db) bitc \<Rightarrow> (bool \<times> ('pk, 'db) bitc) option" where
  "handle_payload env msg i s = do {
     p \<leftarrow> deref_peer s i;
     if \<not> p_got_version p \<or> \<not> p_got_verack p then
       if \<not> p_got_version p \<and> msg = BTC_MSG_VERSION then peer_handle_version env i s
       else if \<not> p_got_verack p \<and> msg = BTC_MSG_VERACK then peer_handle_verack env i s
       else Some (False, s)
     else peer_handle_msg env msg i s
   }"

definition finish_payload :: "('bn, 'b, 'pt, 'pk, 'db) env \<Rightarrow> nat \<Rightarrow> ('pk, 'db) bitc \<Rightarrow> ('pk, 'db) bitc option" where
  "finish_payload env i s = do {
     p \<leftarrow> deref_peer s i;
     valid \<leftarrow> btcmsg_payload_valid (e_sha env) (Some (p_recvBuf p)) (mh_checksum (p_msgHdr p));
     if \<not> valid then peer_destroy env (peergroup_refill env) i EINVAL s
     else do {
       (res, s) \<leftarrow> handle_payload env (btcmsg_str_to_type (mh_message (p_msgHdr p))) i s;
       if res then peer_destroy env (peergroup_refill env) i EINVAL s
       else do {
         s \<leftarrow> peer_update_timestamp env i s;
         Some (upd_peer i (\<lambda>p. p\<lparr>p_recvBuf := buff_free_base (p_recvBuf p), p_recvMsgHdr := True\<rparr>) s)
       }
     }
   }"

definition peer_receive_cb :: "('bn, 'b, 'pt, 'pk, 'db) env \<Rightarrow> nat \<Rightarrow> byte list \<Rightarrow> ('pk, 'db) bitc \<Rightarrow> ('pk, 'db) bitc option" where
  "peer_receive_cb env i bytes s = do {
     _ \<leftarrow> deref_peer s i;
     let s = upd_peer i (\<lambda>p. if p_recvMsgHdr p then p\<lparr>p_msgHdr := msghdr_overlay bytes\<rparr>
                             else p\<lparr>p_recvBuf := (p_recvBuf p)\<lparr>buf_base := Some bytes\<rparr>\<rparr>) s;
     let s = upd_peer i (\<lambda>p. p\<lparr>p_last_ts := e_now env\<rparr>) s;
     if bitc_exiting s then Some s
     else do {
       p \<leftarrow> deref_peer s i;
       if p_recvMsgHdr p then do {
         (res, s) \<leftarrow> peer_handle_msgheader env i s;
         if res then peer_destroy env (peergroup_refill env) i EINVAL s
         else do {
           p \<leftarrow> deref_peer s i;
           if 0 < buff_maxlen (Some (p_recvBuf p)) then Some s else finish_payload env i s
         }
       }
       else finish_payload env i s
     }
   }"

section \<open>Timers\<close>

definition peergroup_check_liveness :: "('bn, 'b, 'pt, 'pk, 'db) env \<Rightarrow> ('pk, 'db) bitc \<Rightarrow> ('pk, 'db) bitc option" where
  "peergroup_check_liveness env s =
     for_peers (\<lambda>i s. map_option snd (peer_check_liveness env i s)) (pg_peer_list (b_pg s)) s"

definition peergroup_check_download_stall :: "('bn, 'b, 'pt, 'pk, 'db) env \<Rightarrow> ('pk, 'db) bitc \<Rightarrow> ('pk, 'db) bitc option" where
  "peergroup_check_download_stall env s = (case pg_downloadPeer (b_pg s) of None \<Rightarrow> Some s
     | Some dp \<Rightarrow>
       if b_state s \<noteq> BITC_STATE_UPDATE_HEADERS \<or> bitc_exiting s then Some s
       else if pg_lastProgressTS (b_pg s) = 0 then Some (upd_pg (\<lambda>pg. pg\<lparr>pg_lastProgressTS := e_now env\<rparr>) s)
       else if e_now env - pg_lastProgressTS (b_pg s) < SYNC_STALL_USEC then Some s
       else peer_destroy env (peergroup_refill env) dp ETIMEDOUT (upd_pg (\<lambda>pg. pg\<lparr>pg_lastProgressTS := e_now env\<rparr>) s))"

definition peergroup_periodic_cb :: "('bn, 'b, 'pt, 'pk, 'db) env \<Rightarrow> ('pk, 'db) bitc \<Rightarrow> ('pk, 'db) bitc option" where
  "peergroup_periodic_cb env s =
     (if bitc_exiting s then Some s
      else do {
        s \<leftarrow> peergroup_refill env False s;
        s \<leftarrow> peergroup_check_liveness env s;
        s \<leftarrow> peergroup_check_download_stall env s;
        s \<leftarrow> (if pg_configNeedWrite (b_pg s)
              then do {
                (_, cfg) \<leftarrow> peergroup_save_lastblk env (pg_lastBlk (b_pg s)) (b_config s);
                Some (upd_pg (\<lambda>pg. pg\<lparr>pg_configNeedWrite := False\<rparr>) (s\<lparr>b_config := cfg\<rparr>))
              }
              else Some s);
        stats \<leftarrow> peerstats_flush (fst (e_stats_wr env)) (snd (e_stats_wr env)) (pg_peerStats (b_pg s));
        Some (upd_pg (\<lambda>pg. pg\<lparr>pg_peerStats := stats\<rparr>) s)
      })"

definition peergroup_pending_blocks_cb :: "('bn, 'b, 'pt, 'pk, 'db) env \<Rightarrow> ('pk, 'db) bitc \<Rightarrow> ('pk, 'db) bitc option" where
  "peergroup_pending_blocks_cb env s =
     (if bitc_exiting s then Some s
      else do { s \<leftarrow> peergroup_check_pending_blocks env s; peergroup_check_pending_chunks env s })"

section \<open>Start and end\<close>

text \<open>The files are those of the filter headers and of the statistics, where they can be opened.\<close>

definition peergroup_init ::
  "('bn, 'b, 'pt, 'pk, 'db) env \<Rightarrow> config \<Rightarrow> u32 \<Rightarrow> u32 \<Rightarrow> write_result \<Rightarrow> byte list option \<Rightarrow> byte list option \<Rightarrow>
    (peergroup \<times> config) option" where
  "peergroup_init env cfg maxPeers minPeersInit wr cfhdrFile pstatFile = do {
     let (res, cfs) = cfheaderstore_init wr cfhdrFile;
     (res', ps) \<leftarrow> peerstats_init pstatFile;
     ht \<leftarrow> hashtable_create;
     (hashStr, cfg) \<leftarrow> config_getstring cfg None ''peergroup.lastblk'';
     let lastBlk = (case hashStr of None \<Rightarrow> 0 | Some str \<Rightarrow> snd (uint256_from_str str 0));
     Some (\<lparr>pg_peer_list = [], pg_downloadPeer = None, pg_peerSequence = 0, pg_lastFilteredBlockReq = 0,
       pg_configNeedWrite = False, pg_lastBlk = lastBlk, pg_hash_broadcast = ht, pg_numFetched = 0, pg_numToFetch = 0,
       pg_numHdrFetched = 0, pg_numHdrToFetch = 0, pg_heightTarget = 0, pg_active = 0, pg_maxActive = maxPeers,
       pg_minActiveInit = minPeersInit, pg_startTS = e_now env, pg_firstConnectTS = 0, pg_lastProgressTS = 0,
       pg_cfStore = (if res then None else cfs), pg_peerStats = (if res' then None else ps), pg_cfScanFloor = - 1,
       pg_cfTipHeight = - 1, pg_cfVerified = 0, pg_cfStopRequested = False, pg_cfSeg = [], pg_cfDoneContig = 0,
       pg_cfPending = [], pg_cfhdrStartHeight = - 1, pg_cfhdrTipHeight = - 1, pg_cfhdrPrevHeader = 0,
       pg_cfcheckptExpected = None, pg_cfcheckptCount = 0, pg_cfcheckptPeers = 0, pg_cfcheckptAgreed = 0,
       pg_cfcheckptVerified = False, pg_cfhdrSyncStarted = False\<rparr>, cfg)
   }"

text \<open>\<open>htons\<close> exchanges the two bytes.\<close>

definition htons :: "u16 \<Rightarrow> u16" where
  "htons port = le_word (rev (le_bytes port))"

definition peergroup_add_peer_from_str ::
  "('bn, 'b, 'pt, 'pk, 'db) env \<Rightarrow> string \<Rightarrow> u16 \<Rightarrow> ('pk, 'db) bitc \<Rightarrow> ('pk, 'db) bitc option" where
  "peergroup_add_peer_from_str env hostname port s = (case e_resolve env hostname of None \<Rightarrow> Some s
     | Some sin_addr \<Rightarrow> do {
         let addr = \<lparr>ad_services = 1, ad_ip = le_word (replicate 10 0 @ [0xff, 0xff] @ sin_addr), ad_time = 0, ad_port = htons port\<rparr>;
         let (p, book) = alloc_paddr addr (b_book s);
         (added, book) \<leftarrow> addrbook_add_entry (fst (e_book_wr env)) (snd (e_book_wr env)) p book;
         book \<leftarrow> (if added then Some book else addrbook_replace_entry (fst (e_book_wr env)) (snd (e_book_wr env)) p book);
         peergroup_add_peer env (peergroup_refill env) p (s\<lparr>b_book := book\<rparr>)
       })"

definition BTC_PORT_MAIN :: u16 where "BTC_PORT_MAIN = 8333"
definition BTC_PORT_TESTNET :: u16 where "BTC_PORT_TESTNET = 18333"

definition peer_seeds_main :: "string list" where
  "peer_seeds_main = [''seed.bitcoin.sipa.be'', ''dnsseed.bluematt.me'', ''dnsseed.bitcoin.dashjr.org'',
     ''seed.bitcoinstats.com'', ''seed.bitcoin.jonasschnelli.ch'', ''seed.btc.petertodd.net'',
     ''seed.bitcoin.sprovoost.nl'', ''dnsseed.emzy.de'', ''seed.bitcoin.wiz.biz'']"

definition peer_seeds_testnet :: "string list" where
  "peer_seeds_testnet = [''testnet-seed.bitcoin.jonasschnelli.ch'', ''seed.tbtc.petertodd.net'',
     ''seed.testnet.bitcoin.sprovoost.nl'', ''testnet-seed.bluematt.me'']"

text \<open>The tokens of \<open>strtok_r\<close> with a comma, and a token split at its last colon; \<open>strtol\<close> stops at its limits.\<close>

function tokens :: "string \<Rightarrow> string list" where
  "tokens str = (let str = dropWhile (\<lambda>c. c = CHR '','') str in
     if str = [] then [] else takeWhile (\<lambda>c. c \<noteq> CHR '','') str # tokens (dropWhile (\<lambda>c. c \<noteq> CHR '','') str))"
  by auto
termination
proof (relation "measure length", simp)
  fix str x :: string
  let ?P = "\<lambda>c. c = CHR '',''" and ?Q = "\<lambda>c. c \<noteq> CHR '',''"
  assume x: "x = dropWhile ?P str" and "x \<noteq> []"
  have hd: "\<not> ?P (hd x)" using hd_dropWhile [of ?P str] \<open>x \<noteq> []\<close> unfolding x by (simp only: simp_thms)
  obtain c cs where c: "x = c # cs" using \<open>x \<noteq> []\<close> by (cases x) simp
  have "dropWhile ?Q x = dropWhile ?Q cs" using hd unfolding c by (simp only: list.sel dropWhile.simps if_True not_False_eq_True)
  then have "length (dropWhile ?Q x) < length x"
    unfolding c using length_dropWhile_le [of ?Q cs] by (simp only: list.size le_imp_less_Suc add_0_right add_Suc_right)
  also have "\<dots> \<le> length str" unfolding x by (rule length_dropWhile_le)
  finally show "(dropWhile (\<lambda>c. c \<noteq> CHR '','') x, str) \<in> measure length" by simp
qed

declare tokens.simps [simp del]

definition strtol_port :: "string \<Rightarrow> u16" where
  "strtol_port str = (case atoll str of Some v \<Rightarrow> of_int v
     | None \<Rightarrow> (if hd (dropWhile isspace str) = CHR ''-'' then 0 else - 1))"

definition host_port :: "u16 \<Rightarrow> string \<Rightarrow> string \<times> u16" where
  "host_port port tok = (if CHR '':'' \<in> set tok
     then (rev (tl (dropWhile (\<lambda>c. c \<noteq> CHR '':'') (rev tok))), strtol_port (rev (takeWhile (\<lambda>c. c \<noteq> CHR '':'') (rev tok))))
     else (tok, port))"

fun seed_list :: "('bn, 'b, 'pt, 'pk, 'db) env \<Rightarrow> (string \<times> u16) list \<Rightarrow> ('pk, 'db) bitc \<Rightarrow> ('pk, 'db) bitc option" where
  "seed_list env [] s = Some s"
| "seed_list env ((host, port) # hs) s = do {
     s \<leftarrow> (if host = [] then Some s else peergroup_add_peer_from_str env host port s);
     seed_list env hs s
   }"

fun seed_static :: "('bn, 'b, 'pt, 'pk, 'db) env \<Rightarrow> u16 \<Rightarrow> nat \<Rightarrow> nat \<Rightarrow> ('pk, 'db) bitc \<Rightarrow> ('pk, 'db) bitc option" where
  "seed_static env port i 0 s = Some s"
| "seed_static env port i (Suc n) s = do {
     (addr, cfg) \<leftarrow> config_getstring (b_config s) None (''peer'' @ print_nat i @ ''.address'');
     let s = s\<lparr>b_config := cfg\<rparr>;
     case addr of None \<Rightarrow> Some s
     | Some addr \<Rightarrow> do {
         s \<leftarrow> peergroup_add_peer_from_str env addr port s;
         seed_static env port (i + 1) n s
       }
   }"

definition peergroup_seed :: "('bn, 'b, 'pt, 'pk, 'db) env \<Rightarrow> ('pk, 'db) bitc \<Rightarrow> ('pk, 'db) bitc option" where
  "peergroup_seed env s = (let port = (if e_testnet env then BTC_PORT_TESTNET else BTC_PORT_MAIN) in
     case e_connectHost env of Some str \<Rightarrow> seed_list env (map (host_port port) (tokens str)) s
     | None \<Rightarrow> do {
         (n, cfg) \<leftarrow> config_getint64 (b_config s) 0 ''numstaticpeers'';
         s \<leftarrow> seed_static env port 0 (nat (signed_take_bit 31 n)) (s\<lparr>b_config := cfg\<rparr>);
         seed_list env (map (\<lambda>h. (h, port)) (if e_testnet env then peer_seeds_testnet else peer_seeds_main)) s
       })"

text \<open>The loop ends because each peer leaves the list; one that stayed would be tried forever.\<close>

fun destroy_loop :: "('bn, 'b, 'pt, 'pk, 'db) env \<Rightarrow> nat \<Rightarrow> ('pk, 'db) bitc \<Rightarrow> ('pk, 'db) bitc option" where
  "destroy_loop env n s = (case pg_peer_list (b_pg s) of [] \<Rightarrow> Some s
     | i # is \<Rightarrow> (case n of 0 \<Rightarrow> None
         | Suc n \<Rightarrow> do { s \<leftarrow> peer_destroy env (peergroup_refill env) i 0 s; destroy_loop env n s }))"

declare destroy_loop.simps [simp del]

definition peergroup_destroy_peers :: "('bn, 'b, 'pt, 'pk, 'db) env \<Rightarrow> ('pk, 'db) bitc \<Rightarrow> ('pk, 'db) bitc option" where
  "peergroup_destroy_peers env s = do {
     s \<leftarrow> destroy_loop env (length (pg_peer_list (b_pg s))) s;
     ASSERT (pg_active (b_pg s) = 0);
     ASSERT (pg_peer_list (b_pg s) = []);
     Some s
   }"

definition peergroup_exit :: "('bn, 'b, 'pt, 'pk, 'db) env \<Rightarrow> ('pk, 'db) bitc \<Rightarrow> ('pk, 'db) bitc option" where
  "peergroup_exit env s = do {
     s \<leftarrow> (if pg_configNeedWrite (b_pg s)
           then map_option (\<lambda>(_, cfg). s\<lparr>b_config := cfg\<rparr>) (peergroup_save_lastblk env (pg_lastBlk (b_pg s)) (b_config s))
           else Some s);
     ht \<leftarrow> hashtable_clear (pg_hash_broadcast (b_pg s));
     _ \<leftarrow> hashtable_destroy ht;
     _ \<leftarrow> peerstats_flush (fst (e_stats_wr env)) (snd (e_stats_wr env)) (pg_peerStats (b_pg s));
     peergroup_destroy_peers env (upd_pg (\<lambda>pg. pg\<lparr>pg_hash_broadcast := ht, pg_cfStore := None, pg_peerStats := None,
       pg_cfcheckptExpected := None, pg_cfPending := [], pg_cfSeg := []\<rparr>) s)
   }"

end
