(* ===== verification/Scan.thy ===== *)
theory Scan
  imports Peer
begin

text \<open>
  The invariants of the synchronisation: what every operation of the peer group keeps, whatever the peers
  send and in whatever order the messages arrive.
\<close>

section \<open>Invariants\<close>

text \<open>The chunks are the partition of the range that is scanned, those before \<open>cfDoneContig\<close> are done, at most
  64 are out at a time, and no peer has two of them.\<close>

definition seg_range :: "cf_segment \<Rightarrow> int \<times> int" where
  "seg_range seg = (sg_startHeight seg, sg_endHeight seg)"

definition chunks_ok :: "peergroup \<Rightarrow> bool" where
  "chunks_ok pg \<longleftrightarrow>
     (pg_cfSeg pg = [] \<or> map seg_range (pg_cfSeg pg) = map seg_range (make_chunks (pg_cfScanFloor pg) (pg_cfTipHeight pg))) \<and>
     pg_cfDoneContig pg \<le> length (pg_cfSeg pg) \<and> list_all sg_done (take (pg_cfDoneContig pg) (pg_cfSeg pg)) \<and>
     length (filter live (pg_cfSeg pg)) \<le> MAX_INFLIGHT_CHUNKS \<and>
     distinct (map sg_assignedPeer (filter live (pg_cfSeg pg)))"

fun rank :: "bitc_state \<Rightarrow> nat" where
  "rank BITC_STATE_STARTING = 0"
| "rank BITC_STATE_UPDATE_HEADERS = 1"
| "rank BITC_STATE_UPDATE_TXDB = 2"
| "rank BITC_STATE_READY = 3"
| "rank BITC_STATE_EXITING = 4"

text \<open>What the handlers of the peer group leave alone: the address book, the list of peers and who they are.\<close>

definition fixed :: "peer \<Rightarrow> bool \<times> bool \<times> bool \<times> u64 \<times> u32 \<times> u32 \<times> nat" where
  "fixed p = (p_connected p, p_got_version p, p_got_verack p, p_services p, p_protversion p, p_startingHeight p, p_paddr p)"

definition base :: "('pk, 'db) bitc \<Rightarrow> addrbook \<times> nat list \<times> u32 \<times> (bool \<times> bool \<times> bool \<times> u64 \<times> u32 \<times> u32 \<times> nat) option list" where
  "base s = (b_book s, pg_peer_list (b_pg s), pg_active (b_pg s), map (map_option fixed) (b_peers s))"

definition evolves :: "('pk, 'db) bitc \<Rightarrow> ('pk, 'db) bitc \<Rightarrow> bool" where
  "evolves s s' \<longleftrightarrow> base s' = base s \<and> rank (b_state s) \<le> rank (b_state s') \<and> (chunks_ok (b_pg s) \<longrightarrow> chunks_ok (b_pg s'))"

section \<open>Every handler of the peer group keeps them\<close>

text \<open>The facts about a step from \<open>s\<close> to \<open>s'\<close>, in the form in which they are used.\<close>

named_theorems evolves_dests \<open>what a step keeps\<close>

lemma evolves_refl [simp]: "evolves s s"
  by (simp add: evolves_def)

lemma evolves_trans: "evolves s1 s2 \<Longrightarrow> evolves s2 s3 \<Longrightarrow> evolves s1 s3"
  by (auto simp: evolves_def)

lemma chunks_frame [simp]:
  "chunks_ok (pg\<lparr>pg_lastFilteredBlockReq := x0\<rparr>) = chunks_ok pg"
  "chunks_ok (pg\<lparr>pg_configNeedWrite := x1\<rparr>) = chunks_ok pg"
  "chunks_ok (pg\<lparr>pg_lastBlk := x2\<rparr>) = chunks_ok pg"
  "chunks_ok (pg\<lparr>pg_hash_broadcast := x3\<rparr>) = chunks_ok pg"
  "chunks_ok (pg\<lparr>pg_numFetched := x4\<rparr>) = chunks_ok pg"
  "chunks_ok (pg\<lparr>pg_numToFetch := x5\<rparr>) = chunks_ok pg"
  "chunks_ok (pg\<lparr>pg_numHdrFetched := x6\<rparr>) = chunks_ok pg"
  "chunks_ok (pg\<lparr>pg_numHdrToFetch := x7\<rparr>) = chunks_ok pg"
  "chunks_ok (pg\<lparr>pg_heightTarget := x8\<rparr>) = chunks_ok pg"
  "chunks_ok (pg\<lparr>pg_maxActive := x9\<rparr>) = chunks_ok pg"
  "chunks_ok (pg\<lparr>pg_minActiveInit := x10\<rparr>) = chunks_ok pg"
  "chunks_ok (pg\<lparr>pg_startTS := x11\<rparr>) = chunks_ok pg"
  "chunks_ok (pg\<lparr>pg_firstConnectTS := x12\<rparr>) = chunks_ok pg"
  "chunks_ok (pg\<lparr>pg_lastProgressTS := x13\<rparr>) = chunks_ok pg"
  "chunks_ok (pg\<lparr>pg_cfStore := x14\<rparr>) = chunks_ok pg"
  "chunks_ok (pg\<lparr>pg_peerStats := x15\<rparr>) = chunks_ok pg"
  "chunks_ok (pg\<lparr>pg_cfVerified := x16\<rparr>) = chunks_ok pg"
  "chunks_ok (pg\<lparr>pg_cfStopRequested := x17\<rparr>) = chunks_ok pg"
  "chunks_ok (pg\<lparr>pg_cfPending := x18\<rparr>) = chunks_ok pg"
  "chunks_ok (pg\<lparr>pg_cfhdrStartHeight := x19\<rparr>) = chunks_ok pg"
  "chunks_ok (pg\<lparr>pg_cfhdrTipHeight := x20\<rparr>) = chunks_ok pg"
  "chunks_ok (pg\<lparr>pg_cfhdrPrevHeader := x21\<rparr>) = chunks_ok pg"
  "chunks_ok (pg\<lparr>pg_cfcheckptExpected := x22\<rparr>) = chunks_ok pg"
  "chunks_ok (pg\<lparr>pg_cfcheckptCount := x23\<rparr>) = chunks_ok pg"
  "chunks_ok (pg\<lparr>pg_cfcheckptPeers := x24\<rparr>) = chunks_ok pg"
  "chunks_ok (pg\<lparr>pg_cfcheckptAgreed := x25\<rparr>) = chunks_ok pg"
  "chunks_ok (pg\<lparr>pg_cfcheckptVerified := x26\<rparr>) = chunks_ok pg"
  "chunks_ok (pg\<lparr>pg_cfhdrSyncStarted := x27\<rparr>) = chunks_ok pg"
  "chunks_ok (pg\<lparr>pg_downloadPeer := x28\<rparr>) = chunks_ok pg"
  "chunks_ok (pg\<lparr>pg_peerSequence := x29\<rparr>) = chunks_ok pg"
  by (simp_all add: chunks_ok_def)

lemma base_frame [simp]:
  "base (s\<lparr>b_wallet := x0\<rparr>) = base s"
  "base (s\<lparr>b_txdb := x1\<rparr>) = base s"
  "base (s\<lparr>b_blockStore := x2\<rparr>) = base s"
  "base (s\<lparr>b_sent := x3\<rparr>) = base s"
  "base (s\<lparr>b_stop := x4\<rparr>) = base s"
  "base (s\<lparr>b_config := x5\<rparr>) = base s"
  "base (s\<lparr>b_nrandom := x6\<rparr>) = base s"
  "base (s\<lparr>b_state := x7\<rparr>) = base s"
  by (simp_all add: base_def)

lemma base_pg [simp]:
  "pg_peer_list pg = pg_peer_list (b_pg s) \<Longrightarrow> pg_active pg = pg_active (b_pg s) \<Longrightarrow> base (s\<lparr>b_pg := pg\<rparr>) = base s"
  by (simp add: base_def)

lemma map_update_option: "(\<And>p. g (f p) = g p) \<Longrightarrow> map (map_option g) (xs[i := map_option f (xs ! i)]) = map (map_option g) xs"
  by (simp add: map_update option.map_comp comp_def) (metis list_update_id map_update)

lemma base_upd_peer [simp]: "(\<And>p. fixed (f p) = fixed p) \<Longrightarrow> base (upd_peer i f s) = base s"
  by (simp add: base_def upd_peer_def map_update_option)

lemma base_set_sendBuf [simp]: "base (set_sendBuf i b s) = base s"
  unfolding set_sendBuf_def by (rule base_upd_peer) (simp add: fixed_def)

lemma upd_peer_sel [simp]: "b_state (upd_peer i f s) = b_state s" "b_pg (upd_peer i f s) = b_pg s"
  "b_state (set_sendBuf i b s) = b_state s" "b_pg (set_sendBuf i b s) = b_pg s"
  by (simp_all add: upd_peer_def set_sendBuf_def)

lemma stop_sel [simp]: "b_state (bitc_req_stop s) = b_state s" "b_pg (bitc_req_stop s) = b_pg s" "base (bitc_req_stop s) = base s"
  by (simp_all add: bitc_req_stop_def)

definition sends :: "('pk, 'db) bitc \<Rightarrow> ('pk, 'db) bitc \<Rightarrow> bool" where
  "sends s s' \<longleftrightarrow> base s' = base s \<and> b_state s' = b_state s \<and> b_pg s' = b_pg s"

lemma peer_send_msg_sends:
  assumes "peer_send_msg i type s = Some (r, s')"
  shows "sends s s'"
proof -
  obtain bytes where "s' = (upd_peer i (\<lambda>p. p\<lparr>p_sendBuf := None\<rparr>) s)\<lparr>b_sent := b_sent s @ [(i, type, bytes)]\<rparr>"
    using assms(1) by (auto simp: peer_send_msg_def upd_peer_def Let_def split: bind_splits if_splits)
  then show ?thesis by (simp add: sends_def fixed_def)
qed

lemma sends_all:
  "peer_send_getblocks env i s = Some (r, s') \<Longrightarrow> sends s s'"
  "peer_send_getheaders env i s = Some (r, s') \<Longrightarrow> sends s s'"
  "peer_send_getdata env i t hs s = Some (r, s') \<Longrightarrow> sends s s'"
  "peer_send_getcfilters env i ft h sh s = Some (r, s') \<Longrightarrow> sends s s'"
  "peer_send_getcfheaders env i ft h sh s = Some (r, s') \<Longrightarrow> sends s s'"
  "peer_send_getcfcheckpt env i ft sh s = Some (r, s') \<Longrightarrow> sends s s'"
  "peer_send_mempool env i s = Some (r, s') \<Longrightarrow> sends s s'"
  "peer_send_getaddr env i s = Some (r, s') \<Longrightarrow> sends s s'"
  "peer_send_inv i buf s = Some (r, s') \<Longrightarrow> sends s s'"
  unfolding peer_send_getblocks_def peer_send_getheaders_def peer_send_getdata_def peer_send_getcfilters_def
    peer_send_getcfheaders_def peer_send_getcfcheckpt_def peer_send_mempool_def peer_send_getaddr_def peer_send_inv_def Let_def
  by (auto simp: sends_def dest!: peer_send_msg_sends split: bind_splits if_splits)


lemma upd_peer_sends: "(\<And>p. fixed (f p) = fixed p) \<Longrightarrow> sends s (upd_peer i f s)"
  by (simp add: sends_def)

lemma sends_refl [simp]: "sends s s"
  by (simp add: sends_def)

lemma sends_trans [trans]: "sends s1 s2 \<Longrightarrow> sends s2 s3 \<Longrightarrow> sends s1 s3"
  by (simp add: sends_def)

lemma ping_sends: "peer_send_ping env i s = Some (r, s') \<Longrightarrow> sends s s'"
  unfolding peer_send_ping_def by (auto simp: sends_def fixed_def dest!: peer_send_msg_sends split: bind_splits)

lemma for_each_entry_inv:
  assumes "\<And>k d s s'. f k d s = Some s' \<Longrightarrow> P s \<Longrightarrow> P s'"
  shows "for_each_entry f es s = Some s' \<Longrightarrow> P s \<Longrightarrow> P s'"
  by (induction es arbitrary: s) (auto split: bind_splits dest: assms)

lemma broadcast_all_sends:
  assumes "peer_broadcast_all_tx env i s = Some s'"
  shows "sends s s'"
proof -
  have step: "peer_broadcast_one_tx_cb env i k d t = Some t' \<Longrightarrow> sends s t \<Longrightarrow> sends s t'" for k d t t'
    unfolding peer_broadcast_one_tx_cb_def peer_tx_broadcast_def
    by (auto split: bind_splits if_splits dest!: sends_all(9) intro: sends_trans)
  show ?thesis
    using assms for_each_entry_inv [of "peer_broadcast_one_tx_cb env i" "sends s", OF step]
    unfolding peer_broadcast_all_tx_def hashtable_for_each_def by (auto split: bind_splits)
qed

lemma on_ready_sends: "peer_on_ready env i s = Some (r, s') \<Longrightarrow> sends s s'"
  unfolding peer_on_ready_def
  by (auto split: bind_splits if_splits dest!: sends_all broadcast_all_sends simp: sends_def)

lemma on_ready_li_sends: "peer_on_ready_li env i s = Some (r, s') \<Longrightarrow> sends s s'"
  unfolding peer_on_ready_li_def by (auto split: bind_splits if_splits dest!: on_ready_sends)

lemma for_peers_sends:
  assumes "\<And>i s s'. f i s = Some s' \<Longrightarrow> sends s s'"
  shows "for_peers f is s = Some s' \<Longrightarrow> sends s s'"
  by (induction "is" arbitrary: s) (auto split: bind_splits dest!: assms intro: sends_trans)

lemma peergroup_on_ready_sends: "peergroup_on_ready env s = Some s' \<Longrightarrow> sends s s'"
  unfolding peergroup_on_ready_def by (rule for_peers_sends) (auto dest: on_ready_li_sends)

lemma liveness_sends: "peergroup_check_liveness env s = Some s' \<Longrightarrow> sends s s'"
  unfolding peergroup_check_liveness_def
  by (rule for_peers_sends) (auto simp: peer_check_liveness_def Let_def dest: ping_sends split: bind_splits if_splits)

lemma broadcast_inv_sends: "peergroup_broadcast_inv b s = Some (r, s') \<Longrightarrow> sends s s'"
proof -
  have "broadcast_loop is b r0 s = Some (r, s') \<Longrightarrow> sends s s'" for "is" r0 s
    by (induction "is" b r0 s rule: broadcast_loop.induct) (auto split: bind_splits dest!: sends_all intro: sends_trans)
  then show "peergroup_broadcast_inv b s = Some (r, s') \<Longrightarrow> sends s s'" by (simp add: peergroup_broadcast_inv_def)
qed

lemma sends_evolves: "sends s s' \<Longrightarrow> evolves s s'"
  by (simp add: sends_def evolves_def)

lemma stop_broadcast_frame:
  assumes "peergroup_stop_broadcast_tx h pg = Some pg'"
  shows "\<exists>ht. pg' = pg\<lparr>pg_hash_broadcast := ht\<rparr>"
  using assms by (auto simp: peergroup_stop_broadcast_tx_def split: bind_splits option.splits intro: exI [of _ "pg_hash_broadcast pg"])

lemma new_broadcast_evolves: "peergroup_new_tx_broadcast env b e h s = Some (r, s') \<Longrightarrow> evolves s s'"
  unfolding peergroup_new_tx_broadcast_def peergroup_tx_broadcast_def peergroup_add_tx_broadcast_hash_def
  by (auto split: bind_splits dest!: broadcast_inv_sends simp: sends_def evolves_def)

lemma set_lastblk_frame:
  assumes "peergroup_set_lastblk h pg = Some pg'"
  shows "\<exists>w. pg' = pg\<lparr>pg_configNeedWrite := w, pg_lastBlk := h\<rparr>"
  using assms
  by (auto simp: peergroup_set_lastblk_def uint256_issame_iff split: if_splits intro: exI [of _ "pg_configNeedWrite pg"])

lemma download_complete_evolves: "peergroup_download_complete env s = Some s' \<Longrightarrow> evolves s s'"
  unfolding peergroup_download_complete_def peergroup_download_progress_def Let_def
  by (auto simp: evolves_def sends_def split: if_splits dest!: peergroup_on_ready_sends)

lemma maybe_complete_evolves: "peergroup_maybe_complete env s = Some s' \<Longrightarrow> evolves s s'"
  unfolding peergroup_maybe_complete_def Let_def by (auto split: if_splits dest!: download_complete_evolves)

lemma advance_evolves: "peergroup_advance_lastblk env s = Some s' \<Longrightarrow> evolves s s'"
  unfolding peergroup_advance_lastblk_def Let_def
  by (auto split: if_splits bind_splits option.splits dest!: set_lastblk_frame maybe_complete_evolves simp: evolves_def)


subsection \<open>Chunks\<close>


lemma list_update_split:
  assumes "k < length xs"
  obtains as bs where "xs = as @ xs ! k # bs" and "xs[k := y] = as @ y # bs"
proof
  show "xs = take k xs @ xs ! k # drop (Suc k) xs" using assms by (rule id_take_nth_drop)
  show "xs[k := y] = take k xs @ y # drop (Suc k) xs" using assms by (rule upd_conv_take_nth_drop)
qed

text \<open>Chunks that are equal in what the invariant speaks of.\<close>

definition seg_view :: "cf_segment \<Rightarrow> (int \<times> int) \<times> bool \<times> nat option" where
  "seg_view seg = (seg_range seg, sg_done seg, sg_assignedPeer seg)"

lemma chunks_cong:
  assumes "map seg_view xs = map seg_view (pg_cfSeg pg)"
  shows "chunks_ok (pg\<lparr>pg_cfSeg := xs\<rparr>) = chunks_ok pg"
proof -
  have l: "length xs = length (pg_cfSeg pg)" using assms by (rule map_eq_imp_length_eq)
  have r: "map seg_range xs = map seg_range (pg_cfSeg pg)"
    using arg_cong [OF assms, of "map fst"] by (simp add: seg_view_def comp_def)
  have d: "map sg_done xs = map sg_done (pg_cfSeg pg)"
    using arg_cong [OF assms, of "map (fst \<circ> snd)"] by (simp add: seg_view_def comp_def)
  have f: "map sg_assignedPeer (filter live zs) = map (snd \<circ> snd) (filter (\<lambda>(_, d, a). a \<noteq> None \<and> \<not> d) (map seg_view zs))" for zs
    by (induction zs) (simp_all add: seg_view_def live_def)
  have a: "map sg_assignedPeer (filter live xs) = map sg_assignedPeer (filter live (pg_cfSeg pg))"
    by (simp only: f assms)
  have n: "length (filter live xs) = length (filter live (pg_cfSeg pg))" using a by (rule map_eq_imp_length_eq)
  have t: "list_all sg_done (take m xs) = list_all sg_done (take m (pg_cfSeg pg))" for m
    using arg_cong [OF d, of "\<lambda>l. list_all id (take m l)"] by (simp add: take_map list.pred_map comp_def)
  show ?thesis
    using l r a n t by (cases "xs = []") (auto simp: chunks_ok_def)
qed

lemma chunks_relabel:
  assumes "seg_view y = seg_view (pg_cfSeg pg ! k)"
  shows "chunks_ok (pg\<lparr>pg_cfSeg := (pg_cfSeg pg)[k := y]\<rparr>) = chunks_ok pg"
  using assms by (intro chunks_cong) (metis list_update_id map_update)

lemma busy_live: "busy i segs \<longleftrightarrow> (\<exists>seg \<in> set segs. live seg \<and> sg_assignedPeer seg = Some i)"
  by (auto simp: busy_def live_def)

lemma count_live_update:
  assumes "k < length xs" and "\<not> live (xs ! k)"
  shows "length (filter live (xs[k := y])) \<le> length (filter live xs) + 1"
proof -
  obtain as bs where xs: "xs = as @ xs ! k # bs" and u: "xs[k := y] = as @ y # bs" using assms(1) by (rule list_update_split)
  have "filter live xs = filter live as @ filter live bs" by (subst xs) (simp add: assms(2))
  then show ?thesis unfolding u by simp
qed

text \<open>A chunk is changed to one that nobody has.\<close>

lemma chunks_release:
  assumes ok: "chunks_ok pg" and r: "seg_range y = seg_range (pg_cfSeg pg ! k)"
    and d: "sg_done (pg_cfSeg pg ! k) \<Longrightarrow> sg_done y" and y: "\<not> live y"
  shows "chunks_ok (pg\<lparr>pg_cfSeg := (pg_cfSeg pg)[k := y]\<rparr>)"
    and "k < length (pg_cfSeg pg) \<Longrightarrow> live (pg_cfSeg pg ! k) \<Longrightarrow> length (filter live ((pg_cfSeg pg)[k := y])) < MAX_INFLIGHT_CHUNKS"
    and "k < length (pg_cfSeg pg) \<Longrightarrow> live (pg_cfSeg pg ! k) \<Longrightarrow> sg_assignedPeer (pg_cfSeg pg ! k) = Some i \<Longrightarrow> \<not> busy i ((pg_cfSeg pg)[k := y])"
proof -
  let ?xs = "pg_cfSeg pg"
  have "map seg_range (?xs[k := y]) = map seg_range ?xs"
    using r by (metis list_update_id map_update)
  moreover have "list_all sg_done (take (pg_cfDoneContig pg) (?xs[k := y]))"
    using ok d by (cases "k < length ?xs") (auto simp: chunks_ok_def list_all_length nth_list_update)
  moreover have "length (filter live (?xs[k := y])) \<le> MAX_INFLIGHT_CHUNKS \<and> distinct (map sg_assignedPeer (filter live (?xs[k := y])))"
  proof (cases "k < length ?xs")
    case True
    then obtain as bs where xs: "?xs = as @ ?xs ! k # bs" and u: "?xs[k := y] = as @ y # bs" by (rule list_update_split)
    have "length (filter live as) + length (filter live bs) \<le> length (filter live ?xs)"
      "distinct (map sg_assignedPeer (filter live ?xs)) \<Longrightarrow> distinct (map sg_assignedPeer (filter live as @ filter live bs))"
      by (subst xs, simp, subst (asm) xs, auto split: if_splits)
    then show ?thesis using ok y unfolding u by (auto simp: chunks_ok_def)
  qed (use ok in \<open>simp add: chunks_ok_def list_update_beyond not_less\<close>)
  ultimately show "chunks_ok (pg\<lparr>pg_cfSeg := ?xs[k := y]\<rparr>)"
    using ok by (auto simp: chunks_ok_def)
  assume k: "k < length ?xs" and l: "live (?xs ! k)"
  then obtain as bs where xs: "?xs = as @ ?xs ! k # bs" and u: "?xs[k := y] = as @ y # bs" by (elim list_update_split)
  have "length (filter live ?xs) = length (filter live as) + length (filter live bs) + 1"
    by (subst xs) (simp add: l)
  then show "length (filter live (?xs[k := y])) < MAX_INFLIGHT_CHUNKS"
    using ok y unfolding u by (simp add: chunks_ok_def)
  assume i: "sg_assignedPeer (?xs ! k) = Some i"
  have "distinct (map sg_assignedPeer (filter live (as @ ?xs ! k # bs)))" using ok xs by (simp add: chunks_ok_def)
  then have "\<forall>seg \<in> set as \<union> set bs. live seg \<longrightarrow> sg_assignedPeer seg \<noteq> Some i" using l i by (auto simp: image_iff)
  then show "\<not> busy i (?xs[k := y])" using y unfolding u busy_live by auto
qed

text \<open>A chunk is given to a peer that has none.\<close>

lemma chunks_claim:
  assumes ok: "chunks_ok pg" and k: "k < length (pg_cfSeg pg)" and r: "seg_range y = seg_range (pg_cfSeg pg ! k)"
    and old: "\<not> live (pg_cfSeg pg ! k)" "\<not> sg_done (pg_cfSeg pg ! k)" and y: "sg_assignedPeer y = Some i"
    and free: "\<not> busy i (pg_cfSeg pg)" and room: "length (filter live (pg_cfSeg pg)) < MAX_INFLIGHT_CHUNKS"
  shows "chunks_ok (pg\<lparr>pg_cfSeg := (pg_cfSeg pg)[k := y]\<rparr>)"
proof -
  let ?xs = "pg_cfSeg pg"
  obtain as bs where xs: "?xs = as @ ?xs ! k # bs" and u: "?xs[k := y] = as @ y # bs" using k by (rule list_update_split)
  have l: "filter live ?xs = filter live as @ filter live bs" by (subst xs) (simp add: old(1))
  have "\<forall>seg \<in> set as \<union> set bs. live seg \<longrightarrow> sg_assignedPeer seg \<noteq> Some i"
    using free by (subst (asm) xs) (auto simp: busy_def live_def)
  then have a: "distinct (map sg_assignedPeer (filter live (?xs[k := y])))"
    using ok y unfolding u by (auto simp: chunks_ok_def l)
  have c: "length (filter live (?xs[k := y])) \<le> length (filter live ?xs) + 1" using k old(1) by (rule count_live_update)
  have "map seg_range (?xs[k := y]) = map seg_range ?xs" using r by (metis list_update_id map_update)
  moreover have "pg_cfDoneContig pg \<le> k" using ok k old(2) by (auto simp: chunks_ok_def list_all_length not_less [symmetric])
  ultimately show "chunks_ok (pg\<lparr>pg_cfSeg := ?xs[k := y]\<rparr>)"
    using ok a c room by (auto simp: chunks_ok_def)
qed


lemma upd_seg_sel [simp]:
  "b_state (upd_seg k f s) = b_state s" "base (upd_seg k f s) = base s"
  "pg_cfSeg (b_pg (upd_seg k f s)) = (pg_cfSeg (b_pg s))[k := f (pg_cfSeg (b_pg s) ! k)]"
  "b_pg (upd_seg k f s) = (b_pg s)\<lparr>pg_cfSeg := (pg_cfSeg (b_pg s))[k := f (pg_cfSeg (b_pg s) ! k)]\<rparr>"
  by (simp_all add: upd_seg_def)

definition claimed :: "nat \<Rightarrow> u64 \<Rightarrow> cf_segment \<Rightarrow> cf_segment" where
  "claimed i now seg = seg\<lparr>sg_assignedPeer := Some i, sg_avoidPeer := None, sg_remaining := seg_size seg,
     sg_progressTS := now, sg_assignedTS := now\<rparr>"

lemma claimed_sel [simp]: "seg_range (claimed i now seg) = seg_range seg" "sg_done (claimed i now seg) = sg_done seg"
  "sg_assignedPeer (claimed i now seg) = Some i" "sg_remaining (claimed i now seg) = seg_size seg"
  by (simp_all add: claimed_def seg_range_def)

lemma assign_chunk_cases:
  assumes "peergroup_assign_chunk env i k s = Some s'"
  shows "sends s s' \<or> (\<exists>t. sends s t \<and> s' = upd_seg k (claimed i (e_now env)) t)"
  using assms unfolding peergroup_assign_chunk_def Let_def claimed_def
  by (auto split: bind_splits option.splits if_splits dest!: sends_all) blast+

lemma next_chunk_Some:
  assumes "next_chunk i segs = Some k"
  shows "k < length segs" "\<not> live (segs ! k)" "\<not> sg_done (segs ! k)" "sg_assignedPeer (segs ! k) = None" "sg_avoidPeer (segs ! k) \<noteq> Some i"
  using assms by (auto simp: next_chunk_def find_Some_iff claimable_def live_def)

lemma assign_next_ok:
  assumes "peergroup_assign_chunk env i k s = Some s'" and "next_chunk i (pg_cfSeg (b_pg s)) = Some k"
    and "\<not> busy i (pg_cfSeg (b_pg s))" and "length (filter live (pg_cfSeg (b_pg s))) < MAX_INFLIGHT_CHUNKS"
  shows "evolves s s' \<and> length (filter live (pg_cfSeg (b_pg s'))) \<le> length (filter live (pg_cfSeg (b_pg s))) + 1"
proof (cases "sends s s'")
  case True
  then show ?thesis by (simp add: sends_evolves) (simp add: sends_def)
next
  case False
  with assign_chunk_cases [OF assms(1)] obtain t where t: "sends s t" "s' = upd_seg k (claimed i (e_now env)) t" by auto
  note k = next_chunk_Some [OF assms(2)]
  let ?pg = "b_pg s" and ?y = "claimed i (e_now env) (pg_cfSeg (b_pg s) ! k)"
  have e: "base s' = base s" "b_state s' = b_state s" "b_pg s' = ?pg\<lparr>pg_cfSeg := (pg_cfSeg ?pg)[k := ?y]\<rparr>"
    using t by (simp_all add: sends_def)
  have "chunks_ok ?pg \<Longrightarrow> chunks_ok (b_pg s')"
    using chunks_claim [OF _ k(1) _ k(2,3) _ assms(3,4), of ?y] by (simp add: e(3))
  then show ?thesis using count_live_update [OF k(1,2), of ?y] by (simp add: evolves_def e)
qed


lemma assign_next_chunk_to_evolves:
  assumes "peergroup_assign_next_chunk_to env i s = Some s'"
    and "\<not> busy i (pg_cfSeg (b_pg s))" and "length (filter live (pg_cfSeg (b_pg s))) < MAX_INFLIGHT_CHUNKS"
  shows "evolves s s'"
  using assms assign_next_ok [of env i _ s s']
  by (auto simp: peergroup_assign_next_chunk_to_def split: option.splits)

lemma schedule_loop_evolves:
  "schedule_loop env is n s = Some s' \<Longrightarrow> length (filter live (pg_cfSeg (b_pg s))) \<le> n \<Longrightarrow> evolves s s'"
proof (induction env "is" n s rule: schedule_loop.induct)
  case (2 env i "is" n s)
  show ?case
  proof (cases "n < MAX_INFLIGHT_CHUNKS \<and> \<not> busy i (pg_cfSeg (b_pg s)) \<and> next_chunk i (pg_cfSeg (b_pg s)) \<noteq> None")
    case False
    then show ?thesis using 2 by (auto split: if_splits bind_splits option.splits)
  next
    case True
    then obtain k where k: "next_chunk i (pg_cfSeg (b_pg s)) = Some k" "\<not> busy i (pg_cfSeg (b_pg s))" "n < MAX_INFLIGHT_CHUNKS" by auto
    then show ?thesis
      using 2 assign_next_ok [of env i k s, OF _ k(1,2)] by (auto split: if_splits bind_splits) (meson evolves_trans add_mono_thms_linordered_semiring(3) le_trans Suc_le_mono)
  qed
qed simp

lemma schedule_evolves: "peergroup_schedule_cfilters env s = Some s' \<Longrightarrow> evolves s s'"
  by (auto simp: peergroup_schedule_cfilters_def Let_def split: if_splits intro: schedule_loop_evolves)

lemma requeued_sel [simp]: "seg_range (requeued i seg) = seg_range seg" "sg_done (requeued i seg) = sg_done seg" "\<not> live (requeued i seg)"
  by (simp_all add: requeued_def seg_range_def live_def)

lemma requeue_evolves: "evolves s (upd_seg k (requeued i) s)"
  using chunks_release(1) [of "b_pg s" "requeued i (pg_cfSeg (b_pg s) ! k)" k] by (simp add: evolves_def)

lemma requeue_stalled_evolves: "requeue_stalled env ks any s = Some (any', s') \<Longrightarrow> evolves s s'"
proof (induction env ks any s rule: requeue_stalled.induct)
  case (2 env k ks any s)
  have "evolves s (upd_seg k (requeued i) (upd_pg (\<lambda>pg. pg\<lparr>pg_peerStats := st\<rparr>) s))" for i st
    using requeue_evolves [of "upd_pg (\<lambda>pg. pg\<lparr>pg_peerStats := st\<rparr>) s" k i] by (simp add: evolves_def)
  then show ?case using 2 by (auto simp: Let_def split: if_splits bind_splits option.splits) (meson evolves_trans)
qed simp

lemma check_pending_chunks_evolves: "peergroup_check_pending_chunks env s = Some s' \<Longrightarrow> evolves s s'"
  unfolding peergroup_check_pending_chunks_def
  by (auto split: bind_splits if_splits dest!: requeue_stalled_evolves schedule_evolves intro: evolves_trans)

lemma chunks_release_all:
  assumes ok: "chunks_ok pg" and f: "\<And>seg. f seg = seg \<or> f seg = requeued i seg"
  shows "chunks_ok (pg\<lparr>pg_cfSeg := map f (pg_cfSeg pg)\<rparr>)"
proof -
  let ?xs = "pg_cfSeg pg"
  have r: "seg_range (f seg) = seg_range seg" "sg_done (f seg) = sg_done seg" for seg using f [of seg] by auto
  have "map seg_range (map f ?xs) = map seg_range ?xs" by (simp add: r)
  moreover have "list_all sg_done (take n (map f ?xs)) = list_all sg_done (take n ?xs)" for n
    by (simp add: take_map list.pred_map comp_def r)
  moreover have l: "filter live (map f zs) = filter (\<lambda>seg. f seg = seg) (filter live zs)" for zs
    by (induction zs) (use f in \<open>force\<close>)+
  have "length (filter live (map f ?xs)) \<le> length (filter live ?xs)" unfolding l by (rule length_filter_le)
  moreover have "distinct (map sg_assignedPeer (filter live ?xs)) \<Longrightarrow> distinct (map sg_assignedPeer (filter live (map f ?xs)))"
    unfolding l by (rule distinct_map_filter)
  ultimately show ?thesis
    using ok by (auto simp: chunks_ok_def simp del: map_map filter_map filter_filter)
qed

lemma requeue_peer_chunks_evolves:
  assumes "peergroup_requeue_peer_chunks env i s = Some s'"
  shows "evolves s s'"
proof -
  let ?f = "\<lambda>seg. if sg_assignedPeer seg = Some i \<and> \<not> sg_done seg then requeued i seg else seg"
  have "evolves s (upd_pg (\<lambda>pg. pg\<lparr>pg_cfSeg := map ?f (pg_cfSeg pg)\<rparr>) s)"
    using chunks_release_all [of "b_pg s" ?f i] by (simp add: evolves_def)
  then show ?thesis
    using assms unfolding peergroup_requeue_peer_chunks_def Let_def
    by (auto split: if_splits dest!: schedule_evolves intro: evolves_trans)
qed


subsection \<open>Blocks\<close>

lemma add_pending_evolves: "peergroup_add_pending_block env h i s = Some s' \<Longrightarrow> evolves s s'"
  by (auto simp: peergroup_add_pending_block_def evolves_def split: bind_splits)

lemma remove_pending_evolves: "evolves s (peergroup_remove_pending_block h s)"
  by (simp add: peergroup_remove_pending_block_def evolves_def)

lemma retry_loop_evolves: "retry_loop env best hs s = Some s' \<Longrightarrow> evolves s s'"
proof (induction hs arbitrary: s)
  case (Cons h hs)
  then show ?case
    by (auto split: bind_splits if_splits dest!: sends_all(3) add_pending_evolves Cons.IH simp: sends_def evolves_def)
qed simp

lemma retry_block_fetch_evolves: "peergroup_retry_block_fetch env i hs s = Some s' \<Longrightarrow> evolves s s'"
  by (auto simp: peergroup_retry_block_fetch_def split: bind_splits option.splits dest!: retry_loop_evolves)

lemma retry_expired_evolves: "retry_expired env ps s = Some s' \<Longrightarrow> evolves s s'"
proof (induction env ps s rule: retry_expired.induct)
  case (2 env p ps s)
  then show ?case using remove_pending_evolves [of s "cp_hash p"]
    by (auto simp: Let_def split: bind_splits dest!: retry_block_fetch_evolves) (meson evolves_trans)
qed simp

lemma check_pending_blocks_evolves: "peergroup_check_pending_blocks env s = Some s' \<Longrightarrow> evolves s s'"
  by (auto simp: peergroup_check_pending_blocks_def dest: retry_expired_evolves)

lemma stop_relay_evolves: "stop_relay h s = Some s' \<Longrightarrow> evolves s s'"
  by (auto simp: stop_relay_def evolves_def split: bind_splits option.splits if_splits dest!: stop_broadcast_frame)

lemma handle_txs_evolves: "handle_txs env h txs s = Some s' \<Longrightarrow> evolves s s'"
proof (induction txs arbitrary: s)
  case (Cons tx txs)
  then show ?case
    by (auto split: bind_splits if_splits dest!: stop_relay_evolves Cons.IH simp: evolves_def)
qed simp

lemma handle_block_evolves: "peergroup_handle_block env i blk s = Some (r, s') \<Longrightarrow> evolves s s'"
  unfolding peergroup_handle_block_def peergroup_remove_pending_block_def Let_def
  by (auto split: bind_splits if_splits dest!: handle_txs_evolves advance_evolves download_complete_evolves maybe_complete_evolves
      simp: evolves_def)

subsection \<open>Filter headers\<close>

lemma request_cfheaders_evolves: "peergroup_request_cfheaders env i s = Some (r, s') \<Longrightarrow> evolves s s'"
  unfolding peergroup_request_cfheaders_def Let_def
  by (auto split: bind_splits if_splits option.splits dest!: schedule_evolves sends_all(5) simp: evolves_def sends_def)

lemma send_cfcheckpts_sends: "send_cfcheckpts env h is n s = Some (m, s') \<Longrightarrow> sends s s'"
proof (induction env h "is" n s rule: send_cfcheckpts.induct)
  case (2 env h i "is" n s)
  then show ?case by (auto split: bind_splits if_splits dest!: sends_all(6) simp: sends_def)
qed simp

lemma verify_cfcheckpts_evolves: "peergroup_verify_cfcheckpts env i s = Some (r, s') \<Longrightarrow> evolves s s'"
  unfolding peergroup_verify_cfcheckpts_def Let_def
  by (auto split: bind_splits if_splits dest!: send_cfcheckpts_sends request_cfheaders_evolves simp: evolves_def sends_def)

lemma bound_same: "\<exists>a b. pg = pg\<lparr>pg_cfhdrStartHeight := a, pg_cfhdrPrevHeader := b\<rparr>"
  by (rule exI [of _ "pg_cfhdrStartHeight pg"], rule exI [of _ "pg_cfhdrPrevHeader pg"]) simp

lemma birthday_bound_frame:
  assumes "peergroup_maybe_birthday_bound_cfheaders pg = Some pg'"
  shows "\<exists>a b. pg' = pg\<lparr>pg_cfhdrStartHeight := a, pg_cfhdrPrevHeader := b\<rparr>"
  using assms unfolding peergroup_maybe_birthday_bound_cfheaders_def Let_def
  by (auto split: if_splits option.splits bind_splits simp: bound_same)

lemma maybe_complete_cf_evolves: "peergroup_cfcheckpt_maybe_complete env i s = Some (r, s') \<Longrightarrow> evolves s s'"
  unfolding peergroup_cfcheckpt_maybe_complete_def Let_def
  by (auto split: if_splits bind_splits dest!: birthday_bound_frame request_cfheaders_evolves simp: evolves_def)

lemma notify_peer_gone_evolves: "peergroup_notify_peer_gone env i s = Some s' \<Longrightarrow> evolves s s'"
  unfolding peergroup_notify_peer_gone_def Let_def
  by (auto split: if_splits bind_splits option.splits dest!: maybe_complete_cf_evolves simp: evolves_def)

lemma handle_cfcheckpt_evolves: "peergroup_handle_cfcheckpt env i c s = Some (r, s') \<Longrightarrow> evolves s s'"
  unfolding peergroup_handle_cfcheckpt_def Let_def
  by (auto split: if_splits bind_splits option.splits dest!: maybe_complete_cf_evolves simp: evolves_def)

lemma handle_cfheaders_evolves: "peergroup_handle_cfheaders env i c s = Some (r, s') \<Longrightarrow> evolves s s'"
  unfolding peergroup_handle_cfheaders_def Let_def
  by (auto split: if_splits bind_splits option.splits prod.splits dest!: request_cfheaders_evolves schedule_evolves simp: evolves_def)

subsection \<open>Filters\<close>

lemma count_done_ok: "n \<le> length segs \<Longrightarrow> list_all sg_done (take n segs) \<Longrightarrow>
    count_done segs n \<le> length segs \<and> list_all sg_done (take (count_done segs n) segs)"
  by (induction segs n rule: count_done.induct) (subst (1 2) count_done.simps, auto simp: take_Suc_conv_app_nth)

lemma chunks_count_done: "chunks_ok pg \<Longrightarrow> chunks_ok (pg\<lparr>pg_cfDoneContig := count_done (pg_cfSeg pg) (pg_cfDoneContig pg)\<rparr>)"
  using count_done_ok [of "pg_cfDoneContig pg" "pg_cfSeg pg"] by (auto simp: chunks_ok_def)

lemma advance_chunks: "peergroup_advance_lastblk env s = Some s' \<Longrightarrow> pg_cfSeg (b_pg s') = pg_cfSeg (b_pg s)"
  unfolding peergroup_advance_lastblk_def peergroup_maybe_complete_def peergroup_download_complete_def
    peergroup_download_progress_def Let_def
  by (auto split: if_splits bind_splits option.splits dest!: set_lastblk_frame peergroup_on_ready_sends simp: sends_def)

lemma my_chunk_Some:
  assumes "my_chunk pg i h = Some k"
  shows "k < length (pg_cfSeg pg)" "sg_assignedPeer (pg_cfSeg pg ! k) = Some i" "\<not> sg_done (pg_cfSeg pg ! k)" "live (pg_cfSeg pg ! k)"
  using assms by (auto simp: my_chunk_def Let_def live_def split: if_splits)

lemma count_filter_evolves:
  assumes "count_filter env i k s = Some s'" and my: "my_chunk (b_pg s) i h = Some k" and ok: "chunks_ok (b_pg s)"
  shows "evolves s s'"
proof -
  let ?pg = "b_pg s" and ?seg = "pg_cfSeg (b_pg s) ! k"
  let ?y = "?seg\<lparr>sg_remaining := sg_remaining ?seg - 1, sg_progressTS := e_now env\<rparr>"
  let ?z = "?y\<lparr>sg_done := True\<rparr>"
  note k = my_chunk_Some [OF my]
  have y: "seg_view ?y = seg_view ?seg" by (simp add: seg_view_def seg_range_def)
  have z: "seg_range ?z = seg_range ?seg" "sg_done ?z" "\<not> live ?z" by (simp_all add: seg_range_def live_def)
  note rel = chunks_release [OF ok z(1) z(2) z(3)]
  show ?thesis
  proof (cases "0 < sg_remaining ?y")
    case True
    then have "s' = upd_seg k (\<lambda>seg. seg\<lparr>sg_remaining := sg_remaining seg - 1, sg_progressTS := e_now env\<rparr>) s"
      using assms(1) k by (simp add: count_filter_def Let_def)
    then show ?thesis using chunks_relabel [OF y] by (simp add: evolves_def)
  next
    case False
    then obtain st s2 where a: "peergroup_advance_lastblk env (s\<lparr>b_pg := ?pg\<lparr>pg_cfSeg := (pg_cfSeg ?pg)[k := ?z],
          pg_peerStats := st, pg_cfDoneContig := count_done ((pg_cfSeg ?pg)[k := ?z]) (pg_cfDoneContig ?pg)\<rparr>\<rparr>) = Some s2"
      and n: "peergroup_assign_next_chunk_to env i s2 = Some s'"
      using assms(1) k by (auto simp: count_filter_def Let_def upd_seg_def split: bind_splits)
    have "evolves s (s\<lparr>b_pg := ?pg\<lparr>pg_cfSeg := (pg_cfSeg ?pg)[k := ?z], pg_peerStats := st,
        pg_cfDoneContig := count_done ((pg_cfSeg ?pg)[k := ?z]) (pg_cfDoneContig ?pg)\<rparr>\<rparr>)"
      using chunks_count_done [OF rel(1)] by (simp add: evolves_def) (simp add: chunks_ok_def)
    moreover have "evolves s2 s'"
      using assign_next_chunk_to_evolves [OF n] rel(2,3) k by (simp add: advance_chunks [OF a])
    ultimately show ?thesis using advance_evolves [OF a] by (meson evolves_trans)
  qed
qed


lemma match_filter_evolves: "match_filter cf s = Some (m, s') \<Longrightarrow> evolves s s'"
  by (auto simp: match_filter_def Let_def evolves_def split: bind_splits if_splits)

lemma after_filter_evolves: "after_filter env i cf h s = Some (r, s') \<Longrightarrow> evolves s s'"
  unfolding after_filter_def Let_def
  by (auto split: bind_splits if_splits dest!: match_filter_evolves add_pending_evolves download_complete_evolves sends_all(3)
      simp: evolves_def sends_def)

lemma handle_cfilter_evolves:
  assumes "peergroup_handle_cfilter env i cf s = Some (r, s')" and ok: "chunks_ok (b_pg s)"
  shows "evolves s s'"
proof -
  define s1 where "s1 = peergroup_download_progress env (upd_pg (\<lambda>pg. pg\<lparr>pg_cfVerified := pg_cfVerified pg + 1\<rparr>) s)"
  have s1: "evolves s s1" "chunks_ok (b_pg s1)"
    using ok by (simp_all add: s1_def peergroup_download_progress_def evolves_def)
  define counted where "counted h = (case my_chunk (b_pg s1) i h of None \<Rightarrow> Some s1 | Some k \<Rightarrow> count_filter env i k s1)" for h
  have c: "evolves s s2" if "counted h = Some s2" for h s2
  proof (cases "my_chunk (b_pg s1) i h")
    case None
    then show ?thesis using that s1(1) by (simp add: counted_def)
  next
    case (Some k)
    then show ?thesis using that evolves_trans [OF s1(1) count_filter_evolves [OF _ Some s1(2)]] by (simp add: counted_def)
  qed
  have "s' = s \<or> (\<exists>h s2. counted h = Some s2 \<and> after_filter env i cf h s2 = Some (r, s'))"
    using assms(1) unfolding peergroup_handle_cfilter_def Let_def s1_def [symmetric] counted_def [symmetric]
    by (auto split: bind_splits if_splits option.split_asm)
  then show ?thesis using c after_filter_evolves evolves_trans evolves_refl by blast
qed

subsection \<open>Headers and the start of the scan\<close>

lemma download_headers_evolves: "peergroup_download_headers env i h s = Some (r, s') \<Longrightarrow> evolves s s'"
  unfolding peergroup_download_headers_def peergroup_download_progress_def Let_def
  by (auto split: bind_splits if_splits dest!: sends_all(2) simp: sends_def evolves_def)

lemma make_chunks_ok:
  "chunks_ok (pg\<lparr>pg_cfScanFloor := a, pg_cfTipHeight := b, pg_cfDoneContig := 0, pg_cfSeg := make_chunks a b\<rparr>)"
proof -
  have "filter live (make_chunks a b) = []" by (auto simp: make_chunks_def Let_def live_def filter_empty_conv)
  then show ?thesis by (simp add: chunks_ok_def)
qed

lemma start_scan_evolves: "start_scan h s = Some s' \<Longrightarrow> evolves s s'"
  unfolding start_scan_def Let_def
  by (auto split: bind_splits dest!: set_lastblk_frame simp: evolves_def chunks_ok_def)
    (insert make_chunks_ok, auto simp: chunks_ok_def)

lemma download_filtered_evolves:
  assumes "peergroup_download_filtered_blocks env i s = Some (r, s')"
  shows "evolves s s'"
  using assms unfolding peergroup_download_filtered_blocks_def peergroup_download_progress_def Let_def
  by (auto split: bind_splits if_splits dest!: schedule_evolves start_scan_evolves verify_cfcheckpts_evolves request_cfheaders_evolves
      simp: evolves_def)

lemma add_headers_evolves: "add_headers env hs n s = Some (m, s') \<Longrightarrow> evolves s s'"
proof (induction hs arbitrary: n s)
  case (Cons h hs)
  then show ?case by (auto simp: Let_def evolves_def split: bind_splits if_splits dest!: Cons.IH)
qed simp

lemma finalize_evolves: "peergroup_add_block_finalize env ho s = Some s' \<Longrightarrow> evolves s s'"
  by (auto simp: peergroup_add_block_finalize_def Let_def evolves_def split: bind_splits if_splits dest!: set_lastblk_frame)

lemma handle_headers_evolves: "peergroup_handle_headers env i hs s = Some (r, s') \<Longrightarrow> evolves s s'"
  unfolding peergroup_handle_headers_def peergroup_download_progress_def Let_def
  by (auto split: bind_splits if_splits dest!: add_headers_evolves finalize_evolves sends_all(2) download_filtered_evolves
      simp: evolves_def sends_def)

lemma handshake_evolves: "peergroup_handle_handshake_ok env i h s = Some (r, s') \<Longrightarrow> evolves s s'"
  unfolding peergroup_handle_handshake_ok_def Let_def
  by (auto split: bind_splits if_splits bitc_state.splits dest!: download_headers_evolves download_filtered_evolves on_ready_sends
      simp: evolves_def sends_def)

end
