(* ===== verification/Client.thy ===== *)
theory Client
  imports Scan
begin

text \<open>
  The client as a whole: the invariant of its peers, addresses and chunks, the events that may happen to it, and
  what holds in every run.
\<close>

section \<open>The invariant\<close>

text \<open>The address that a peer holds.\<close>

definition holds :: "('pk, 'db) bitc \<Rightarrow> nat \<Rightarrow> nat option" where
  "holds s i = map_option p_paddr (deref_peer s i)"

text \<open>The list of the group has exactly the peers that are there, each once; every peer holds an address of its own,
  which is there and marked as connected.\<close>

definition group_ok :: "('pk, 'db) bitc \<Rightarrow> bool" where
  "group_ok s \<longleftrightarrow> distinct (pg_peer_list (b_pg s)) \<and> pg_active (b_pg s) = of_nat (length (pg_peer_list (b_pg s))) \<and>
     (\<forall>i. i \<in> set (pg_peer_list (b_pg s)) \<longleftrightarrow> holds s i \<noteq> None) \<and>
     (\<forall>i q. holds s i = Some q \<longrightarrow> (\<exists>a. deref_paddr (b_book s) q = Some a \<and> pa_connected a)) \<and>
     (\<forall>i j q. holds s i = Some q \<and> holds s j = Some q \<longrightarrow> i = j)"

text \<open>A peer that said \<open>version\<close> was accepted, and nobody says \<open>verack\<close> before.\<close>

definition accepted :: "peer \<Rightarrow> bool" where
  "accepted p \<longleftrightarrow> (p_got_verack p \<longrightarrow> p_got_version p) \<and>
     (p_got_version p \<longrightarrow> p_services p AND BTC_SERVICE_NODE_NETWORK \<noteq> 0 \<and> p_startingHeight p \<noteq> 0 \<and> BTC_PROTO_FILTERING \<le> p_protversion p)"

definition peers_ok :: "('pk, 'db) bitc \<Rightarrow> bool" where
  "peers_ok s \<longleftrightarrow> (\<forall>i p. deref_peer s i = Some p \<longrightarrow> accepted p)"

definition client_ok :: "('pk, 'db) bitc \<Rightarrow> bool" where
  "client_ok s \<longleftrightarrow> chunks_ok (b_pg s) \<and> group_ok s \<and> peers_ok s"

text \<open>A step that keeps it and does not go back in the states of the synchronisation.\<close>

definition safe :: "('pk, 'db) bitc \<Rightarrow> ('pk, 'db) bitc \<Rightarrow> bool" where
  "safe s s' \<longleftrightarrow> (client_ok s \<longrightarrow> client_ok s' \<and> rank (b_state s) \<le> rank (b_state s'))"

section \<open>Peers and addresses\<close>

lemma safe_refl [simp]: "safe s s"
  by (simp add: safe_def)

lemma safe_trans [trans]: "safe s1 s2 \<Longrightarrow> safe s2 s3 \<Longrightarrow> safe s1 s3"
  by (auto simp: safe_def)

lemma base_peer:
  assumes "base s' = base s"
  shows "map_option fixed (deref_peer s' i) = map_option fixed (deref_peer s i)"
proof -
  have m: "map (map_option fixed) (b_peers s') = map (map_option fixed) (b_peers s)" using assms by (simp add: base_def)
  then have "length (b_peers s') = length (b_peers s)" by (rule map_eq_imp_length_eq)
  then show ?thesis using arg_cong [OF m, of "\<lambda>l. l ! i"] by (auto simp: deref_peer_def)
qed

lemma accepted_cong: "fixed p = fixed q \<Longrightarrow> accepted p = accepted q"
  by (simp add: fixed_def accepted_def)

lemma base_holds:
  assumes "base s' = base s"
  shows "holds s' = holds s"
proof
  fix i
  show "holds s' i = holds s i"
    using base_peer [OF assms, of i] by (cases "deref_peer s i"; cases "deref_peer s' i") (auto simp: holds_def fixed_def)
qed

lemma base_peers_ok:
  assumes "base s' = base s" and "peers_ok s"
  shows "peers_ok s'"
  unfolding peers_ok_def
proof (intro allI impI)
  fix i p
  assume "deref_peer s' i = Some p"
  then obtain q where "deref_peer s i = Some q" "fixed p = fixed q"
    using base_peer [OF assms(1), of i] by (cases "deref_peer s i") auto
  then show "accepted p" using assms(2) accepted_cong [of p q] by (auto simp: peers_ok_def)
qed

lemma base_group_ok: "base s' = base s \<Longrightarrow> group_ok s' = group_ok s"
  using base_holds [of s' s] by (simp add: group_ok_def base_def)

lemma evolves_safe: "evolves s s' \<Longrightarrow> safe s s'"
  using base_group_ok [of s' s] base_peers_ok [of s' s] by (auto simp: evolves_def safe_def client_ok_def)

lemma ok_evolves_safe: "(chunks_ok (b_pg s) \<Longrightarrow> evolves s s') \<Longrightarrow> safe s s'"
  using evolves_safe by (auto simp: safe_def client_ok_def)

lemma base_safe: "base s' = base s \<Longrightarrow> b_state s' = b_state s \<Longrightarrow> chunks_ok (b_pg s') = chunks_ok (b_pg s) \<Longrightarrow> safe s s'"
  by (simp add: evolves_safe evolves_def)

lemma deref_upd_peer: "deref_peer (upd_peer i f s) j = (if j = i then map_option f (deref_peer s i) else deref_peer s j)"
  by (simp add: deref_peer_def upd_peer_def)

lemma deref_peer_frame [simp]:
  "deref_peer (s\<lparr>b_pg := pg\<rparr>) = deref_peer s" "deref_peer (s\<lparr>b_book := bk\<rparr>) = deref_peer s"
  "deref_peer (s\<lparr>b_sent := l\<rparr>) = deref_peer s" "deref_peer (s\<lparr>b_nrandom := n\<rparr>) = deref_peer s"
  by (simp_all add: deref_peer_def fun_eq_iff)

lemma deref_paddr_set: "deref_paddr (set_paddr p a book) q = (if q = p \<and> p < length (ab_addrs book) then a else deref_paddr book q)"
  by (simp add: deref_paddr_def set_paddr_def)

lemma deref_paddr_length: "deref_paddr book p = Some a \<Longrightarrow> p < length (ab_addrs book)"
  by (simp add: deref_paddr_def split: if_splits)

lemma remove_entry_deref: "addrbook_remove_entry p book = Some book' \<Longrightarrow> deref_paddr book' = deref_paddr book \<and> ab_addrs book' = ab_addrs book"
  by (auto simp: addrbook_remove_entry_def split: bind_splits if_splits)

section \<open>The end of a peer\<close>

lemma group_ok_gone:
  assumes ok: "group_ok s" and i: "holds s i = Some q"
    and list: "pg_peer_list (b_pg s') = remove1 i (pg_peer_list (b_pg s))" "pg_active (b_pg s') = pg_active (b_pg s) - 1"
    and h: "\<And>j. holds s' j = (if j = i then None else holds s j)"
    and bk: "\<And>p. p \<noteq> q \<Longrightarrow> deref_paddr (b_book s') p = deref_paddr (b_book s) p"
  shows "group_ok s'"
proof -
  let ?l = "pg_peer_list (b_pg s)"
  have il: "i \<in> set ?l" and d: "distinct ?l" using ok i by (auto simp: group_ok_def)
  then have "length (remove1 i ?l) + 1 = length ?l" by (simp add: length_remove1) (metis Suc_pred length_pos_if_in_set)
  then have "of_nat (length (remove1 i ?l)) = (of_nat (length ?l) :: u32) - 1" by (metis add_diff_cancel_right' of_nat_1 of_nat_add)
  moreover have "holds s j = Some q \<Longrightarrow> j = i" for j using ok i by (auto simp: group_ok_def)
  ultimately show ?thesis
    using ok il d unfolding group_ok_def list h by (auto simp: bk split: if_splits) (metis bk)+
qed

lemma peer_destroy_safe:
  assumes "peer_destroy env refill i err s = Some s'"
    and refill: "\<And>init t t'. refill init t = Some t' \<Longrightarrow> safe t t'"
  shows "safe s s'"
proof -
  obtain p a where p: "deref_peer s i = Some p" and a: "deref_paddr (b_book s) (p_paddr p) = Some a"
    using assms(1) by (auto simp: peer_destroy_def split: bind_splits)
  show ?thesis
  proof (cases "pa_connected a")
    case False
    then show ?thesis using assms(1) p a by (simp add: peer_destroy_def)
  next
    case True
    define s1 where "s1 = upd_pg (\<lambda>pg. if pg_downloadPeer pg = Some i then pg\<lparr>pg_downloadPeer := None\<rparr> else pg)
      (upd_peer i (\<lambda>p. p\<lparr>p_connected := False\<rparr>) (s\<lparr>b_book := set_paddr (p_paddr p) (Some (a\<lparr>pa_connected := False\<rparr>)) (b_book s)\<rparr>))"
    obtain s2 s3 bk where s2: "peergroup_requeue_peer_chunks env i s1 = Some s2"
      and s3: "peergroup_notify_peer_gone env i s2 = Some s3"
      and bk: "bk = b_book s3 \<or> (\<exists>b. addrbook_remove_entry (p_paddr p) (b_book s3) = Some b \<and> bk = set_paddr (p_paddr p) None b)"
      and s': "peergroup_notify_destroy refill ((upd_pg (peergroup_dequeue_peerlist i) (s3\<lparr>b_book := bk\<rparr>))\<lparr>b_peers := (b_peers s3)[i := None]\<rparr>) = Some s'"
      using assms(1) p a True unfolding peer_destroy_def Let_def s1_def
      by (auto split: bind_splits if_splits) force+
    define s4 where "s4 = (upd_pg (peergroup_dequeue_peerlist i) (s3\<lparr>b_book := bk\<rparr>))\<lparr>b_peers := (b_peers s3)[i := None]\<rparr>"
    have e: "evolves s1 s3" using requeue_peer_chunks_evolves [OF s2] notify_peer_gone_evolves [OF s3] by (rule evolves_trans)
    have h1: "map_option p_paddr (deref_peer s1 j) = holds s j" "\<And>p. deref_peer s1 j = Some p \<Longrightarrow> peers_ok s \<Longrightarrow> accepted p" for j
      using p by (auto simp: s1_def deref_upd_peer holds_def peers_ok_def accepted_def split: if_splits)
    have b3: "base s3 = base s1" using e by (simp add: evolves_def)
    have d4: "deref_peer s4 j = (if j = i then None else deref_peer s3 j)" for j by (simp add: s4_def deref_peer_def)
    have h4: "holds s4 j = (if j = i then None else holds s j)" for j
    proof -
      have "holds s3 j = holds s1 j"
        using base_holds [OF b3] by simp
      then show ?thesis using h1(1) [of j] by (simp add: holds_def d4)
    qed
    have "safe s s4"
      unfolding safe_def
    proof
      assume ok: "client_ok s"
      have l: "pg_peer_list (b_pg s3) = pg_peer_list (b_pg s)" "pg_active (b_pg s3) = pg_active (b_pg s)"
        "b_book s3 = set_paddr (p_paddr p) (Some (a\<lparr>pa_connected := False\<rparr>)) (b_book s)"
        using b3 by (auto simp: base_def s1_def upd_peer_def)
      have "group_ok s4"
      proof (rule group_ok_gone [where s = s])
        show "deref_paddr (b_book s4) q = deref_paddr (b_book s) q" if "q \<noteq> p_paddr p" for q
          using bk that by (auto simp: s4_def l deref_paddr_set dest!: remove_entry_deref)
      qed (use ok p l h4 in \<open>auto simp: client_ok_def holds_def s4_def peergroup_dequeue_peerlist_def\<close>)
      moreover have "peers_ok s3"
        using h1(2) ok by (intro base_peers_ok [OF b3]) (auto simp: peers_ok_def client_ok_def)
      then have "peers_ok s4" by (auto simp: peers_ok_def d4 split: if_splits)
      moreover have "chunks_ok (b_pg s4)"
        using e ok by (simp add: s4_def evolves_def s1_def client_ok_def peergroup_dequeue_peerlist_def) (simp add: chunks_ok_def)
      moreover have "rank (b_state s) \<le> rank (b_state s4)" using e by (simp add: s4_def evolves_def s1_def)
      ultimately show "client_ok s4 \<and> rank (b_state s) \<le> rank (b_state s4)" by (simp add: client_ok_def)
    qed
    also have "safe s4 s'"
      using s' refill by (auto simp: peergroup_notify_destroy_def s4_def split: if_splits)
    finally show ?thesis .
  qed
qed


section \<open>Connecting and filling the group\<close>

lemma upd_peer_safe:
  assumes "\<And>p. accepted p \<Longrightarrow> accepted (f p)" and "\<And>p. p_paddr (f p) = p_paddr p"
  shows "safe s (upd_peer i f s)"
proof -
  have "holds (upd_peer i f s) j = holds s j" for j
    by (simp add: holds_def deref_upd_peer option.map_comp comp_def assms(2))
  then have "group_ok (upd_peer i f s) = group_ok s"
    by (simp add: group_ok_def) (simp add: upd_peer_def)
  moreover have "peers_ok s \<Longrightarrow> peers_ok (upd_peer i f s)"
    using assms(1) by (auto simp: peers_ok_def deref_upd_peer split: if_splits)
  ultimately show ?thesis by (auto simp: safe_def client_ok_def)
qed

lemma peer_connect_safe:
  assumes "peer_connect_cb env refill i err s = Some s'"
    and refill: "\<And>init t t'. refill init t = Some t' \<Longrightarrow> safe t t'"
  shows "safe s s'"
proof (cases "err = 0")
  case True
  then obtain b r where "peer_send_msg i BTC_MSG_VERSION (set_sendBuf i b (upd_peer i (\<lambda>p. p\<lparr>p_connected := True, p_recvMsgHdr := True\<rparr>) s)) = Some (r, s')"
    using assms(1) by (auto simp: peer_connect_cb_def Let_def split: bind_splits)
  then have "evolves (upd_peer i (\<lambda>p. p\<lparr>p_connected := True, p_recvMsgHdr := True\<rparr>) s) s'"
    by (auto dest!: peer_send_msg_sends simp: sends_def evolves_def)
  then show ?thesis
    using upd_peer_safe [of "\<lambda>p. p\<lparr>p_connected := True, p_recvMsgHdr := True\<rparr>" s i]
    by (auto simp: accepted_def intro: safe_trans dest!: evolves_safe)
next
  case False
  then show ?thesis
    using assms(1) peer_destroy_safe [OF _ refill] by (auto simp: peer_connect_cb_def split: bind_splits)
qed

lemma group_ok_joined:
  assumes ok: "group_ok s" and a: "deref_paddr (b_book s) q = Some a" "\<not> pa_connected a"
    and list: "pg_peer_list (b_pg s') = pg_peer_list (b_pg s) @ [i]" "pg_active (b_pg s') = pg_active (b_pg s) + 1"
    and i: "holds s i = None" and h: "\<And>j. holds s' j = (if j = i then Some q else holds s j)"
    and bk: "\<And>p. deref_paddr (b_book s') p = (if p = q then Some (a\<lparr>pa_connected := True, pa_triedalready := True\<rparr>) else deref_paddr (b_book s) p)"
  shows "group_ok s'"
proof -
  have "holds s j \<noteq> Some q" for j
  proof
    assume "holds s j = Some q"
    then obtain a' where "deref_paddr (b_book s) q = Some a'" "pa_connected a'" using ok unfolding group_ok_def by blast
    then show False using a by simp
  qed
  moreover have "i \<notin> set (pg_peer_list (b_pg s))" using ok i by (auto simp: group_ok_def)
  ultimately show ?thesis
    using ok a(1) i unfolding group_ok_def list h bk by auto
qed

lemma add_peer_safe:
  assumes "peergroup_add_peer env refill q s = Some s'"
    and refill: "\<And>init t t'. refill init t = Some t' \<Longrightarrow> safe t t'"
  shows "safe s s'"
proof -
  obtain a where a: "deref_paddr (b_book s) q = Some a" "\<not> pa_connected a"
    using assms(1) by (auto simp: peergroup_add_peer_def peer_add_def split: bind_splits if_splits)
  define s0 where "s0 = upd_pg (\<lambda>pg. pg\<lparr>pg_active := pg_active pg + 1\<rparr>) s"
  define i where "i = length (b_peers s0)"
  define s1 where "s1 = upd_pg (peergroup_queue_peerlist i) (s0\<lparr>
    b_book := set_paddr q (Some (a\<lparr>pa_connected := True, pa_triedalready := True\<rparr>)) (b_book s0),
    b_peers := b_peers s0 @ [Some (new_peer (e_now env) q)]\<rparr>)"
  have a0: "deref_paddr (b_book s0) q = Some a" using a by (simp add: s0_def)
  obtain s2 where s2: "(case e_connect env q of None \<Rightarrow> Some s1 | Some err \<Rightarrow> peer_connect_cb env refill i err s1) = Some s2"
    and s': "s' = upd_pg (\<lambda>pg. pg\<lparr>pg_peerSequence := pg_peerSequence pg + 1\<rparr>) s2"
    using assms(1) a(2) unfolding peergroup_add_peer_def peer_add_def Let_def s0_def [symmetric] a0 i_def [symmetric] s1_def
    by (auto split: bind_splits)
  have d: "deref_peer s1 j = (if j = i then Some (new_peer (e_now env) q) else deref_peer s j)" for j
    by (auto simp: s1_def deref_peer_def i_def s0_def nth_append)
  have "safe s s1"
    unfolding safe_def
  proof
    assume ok: "client_ok s"
    have "group_ok s1"
    proof (rule group_ok_joined [OF _ a])
      show "holds s i = None" by (simp add: holds_def deref_peer_def i_def s0_def)
      show "holds s1 j = (if j = i then Some q else holds s j)" for j by (simp add: holds_def d new_peer_def)
      show "deref_paddr (b_book s1) p = (if p = q then Some (a\<lparr>pa_connected := True, pa_triedalready := True\<rparr>) else deref_paddr (b_book s) p)" for p
        using deref_paddr_length [OF a(1)] by (simp add: s1_def s0_def deref_paddr_set)
    qed (use ok in \<open>simp_all add: client_ok_def s1_def s0_def peergroup_queue_peerlist_def\<close>)
    moreover have "peers_ok s1" using ok by (auto simp: client_ok_def peers_ok_def d new_peer_def accepted_def split: if_splits)
    moreover have "chunks_ok (b_pg s1)" using ok by (simp add: client_ok_def s1_def s0_def peergroup_queue_peerlist_def chunks_ok_def)
    ultimately show "client_ok s1 \<and> rank (b_state s) \<le> rank (b_state s1)" by (simp add: client_ok_def s1_def s0_def)
  qed
  also have "safe s1 s2" using s2 peer_connect_safe [OF _ refill] by (auto split: option.splits)
  also have "safe s2 s'" unfolding s' by (rule base_safe) simp_all
  finally show ?thesis .
qed

lemma nrandom_safe: "safe s (s\<lparr>b_nrandom := n\<rparr>)"
  by (rule base_safe) simp_all

lemma refill_best_safe:
  assumes add: "\<And>p t t'. add p t = Some t' \<Longrightarrow> safe t t'"
  shows "refill_best add m es s = Some s' \<Longrightarrow> safe s s'"
  by (induction es arbitrary: s) (auto split: if_splits bind_splits option.splits dest!: add intro: safe_trans)

lemma refill_random_safe:
  assumes add: "\<And>p t t'. add p t = Some t' \<Longrightarrow> safe t t'"
  shows "refill_random random add m n s = Some s' \<Longrightarrow> safe s s'"
proof (induction n arbitrary: s)
  case (Suc n)
  then show ?case
    using nrandom_safe [of s "b_nrandom s + 1"]
    by (auto simp: Let_def split: if_splits bind_splits option.splits dest!: add Suc.IH) (meson safe_trans)+
qed simp

lemma refill_depth_safe: "refill_depth n env init s = Some s' \<Longrightarrow> safe s s'"
proof (induction n arbitrary: init s s')
  case (Suc n)
  have add: "peergroup_add_peer env (refill_depth n env) p t = Some t' \<Longrightarrow> safe t t'" for p t t'
    using add_peer_safe [of env "refill_depth n env"] Suc.IH by blast
  show ?case
  proof (cases "s' = s")
    case False
    then obtain m best s1 where b: "refill_best (peergroup_add_peer env (refill_depth n env)) m best s = Some s1"
      and r: "refill_random (e_random env) (peergroup_add_peer env (refill_depth n env)) m 2000 s1 = Some s'"
      using Suc.prems unfolding refill_depth.simps refill_step_def Let_def by (auto split: if_splits bind_splits)
    have "safe s s1" by (rule refill_best_safe [OF _ b]) (rule add)
    also have "safe s1 s'" by (rule refill_random_safe [OF _ r]) (rule add)
    finally show ?thesis .
  qed simp
qed simp

lemma refill_safe: "peergroup_refill env init s = Some s' \<Longrightarrow> safe s s'"
  unfolding peergroup_refill_def by (rule refill_depth_safe)

lemmas destroy_safe = peer_destroy_safe [OF _ refill_safe]
lemmas connect_safe = peer_connect_safe [OF _ refill_safe]


section \<open>Messages\<close>

lemma recv_parse_evolves: "recv_parse i f s = Some (r, v, s') \<Longrightarrow> evolves s s'"
  by (auto simp: recv_parse_def evolves_def fixed_def split: bind_splits)

lemma handshake_ok_evolves: "peer_handshake_ok env i s = Some (r, s') \<Longrightarrow> evolves s s'"
  unfolding peer_handshake_ok_def Let_def
  by (auto split: bind_splits if_splits option.splits dest!: sends_all(8) handshake_evolves simp: evolves_def sends_def)

lemma verack_safe:
  assumes "peer_handle_verack env i s = Some (r, s')"
  shows "safe s s'"
proof -
  obtain p where p: "deref_peer s i = Some p" using assms by (auto simp: peer_handle_verack_def split: bind_splits)
  show ?thesis
  proof (cases "p_got_version p")
    case False
    then show ?thesis using assms p by (simp add: peer_handle_verack_def)
  next
    case True
    let ?s1 = "upd_peer i (\<lambda>p. p\<lparr>p_got_verack := True\<rparr>) s"
    have h: "holds ?s1 j = holds s j" for j by (simp add: holds_def deref_upd_peer option.map_comp comp_def)
    have "safe s ?s1"
      unfolding safe_def client_ok_def
      using True p h by (auto simp: group_ok_def peers_ok_def accepted_def deref_upd_peer split: if_splits) (simp_all add: upd_peer_def)
    also have "safe ?s1 s'"
      using assms True p by (auto simp: peer_handle_verack_def dest!: handshake_ok_evolves intro: evolves_safe)
    finally show ?thesis .
  qed
qed

lemma version_safe:
  assumes "peer_handle_version env i s = Some (r, s')" and "deref_peer s i = Some p" and "\<not> p_got_version p"
  shows "safe s s'"
proof -
  obtain res v s1 where s1: "recv_parse i (\<lambda>b. btcmsg_parse_version b btc_msg_version_zero) s = Some (res, v, s1)"
    using assms(1) by (auto simp: peer_handle_version_def split: bind_splits)
  have e: "evolves s s1" using s1 by (rule recv_parse_evolves)
  then obtain q where q: "deref_peer s1 i = Some q" "\<not> p_got_version q"
    using base_peer [of s1 s i] assms(2,3) by (cases "deref_peer s1 i") (auto simp: evolves_def fixed_def)
  define s2 where "s2 = upd_peer i (\<lambda>p. p\<lparr>p_protversion := v_version v, p_startingHeight := v_startingHeight v, p_services := v_services v\<rparr>) s1"
  have h: "holds (upd_peer i f t) j = holds t j" if "\<And>p. p_paddr (f p) = p_paddr p" for f j and t :: "('a, 'b) bitc"
    using that by (simp add: holds_def deref_upd_peer option.map_comp comp_def)
  have g: "group_ok (upd_peer i f t) = group_ok t" if "\<And>p. p_paddr (f p) = p_paddr p" for f and t :: "('a, 'b) bitc"
    using h [OF that] by (simp add: group_ok_def) (simp add: upd_peer_def)
  have s12: "safe s1 s2"
    using q by (auto simp: safe_def client_ok_def s2_def g peers_ok_def accepted_def deref_upd_peer split: if_splits)
  show ?thesis
  proof (cases "s' = s1 \<or> s' = s2")
    case True
    then show ?thesis using s12 e by (auto intro: safe_trans dest: evolves_safe)
  next
    case False
    let ?s3 = "upd_peer i (\<lambda>p. p\<lparr>p_got_version := True\<rparr>) s2"
    have v: "v_services v AND BTC_SERVICE_NODE_NETWORK \<noteq> 0" "v_startingHeight v \<noteq> 0" "BTC_PROTO_FILTERING \<le> v_version v"
      and send: "\<exists>b. peer_send_msg i BTC_MSG_VERACK (set_sendBuf i b ?s3) = Some (r, s')"
      using assms(1) s1 False unfolding peer_handle_version_def s2_def Let_def
      by (auto split: bind_splits if_splits simp: not_less)
    have "safe s2 ?s3"
      using q v by (auto simp: safe_def client_ok_def s2_def g peers_ok_def accepted_def deref_upd_peer split: if_splits)
    moreover have "safe ?s3 s'"
      using send by (auto dest!: peer_send_msg_sends simp: sends_def intro!: evolves_safe) (simp add: evolves_def)
    ultimately show ?thesis using s12 evolves_safe [OF e] by (meson safe_trans)
  qed
qed

lemma request_runs_evolves: "request_runs env i ws s = Some (r, s') \<Longrightarrow> evolves s s'"
proof (induction env i ws s rule: request_runs.induct)
  case (2 env i w ws s)
  then show ?case
    by (auto split: bind_splits if_splits dest!: sends_all(3) simp: sends_def evolves_def)
qed simp

lemma answer_getdata_evolves: "answer_getdata env i invs s = Some (r, s') \<Longrightarrow> evolves s s'"
proof (induction invs arbitrary: s)
  case (Cons iv invs)
  then show ?case
    by (auto split: bind_splits if_splits option.splits dest!: peer_send_msg_sends Cons.IH simp: sends_def evolves_def)
qed simp

lemma rand_addrs_evolves: "rand_addrs random n s = Some (as, s') \<Longrightarrow> evolves s s'"
proof (induction n arbitrary: s "as")
  case (Suc n)
  then show ?case by (auto split: bind_splits dest!: Suc.IH simp: evolves_def)
qed simp

lemma save_deref: "addrbook_save t w book = Some (r, book') \<Longrightarrow> deref_paddr book' = deref_paddr book"
  by (auto simp: addrbook_save_def Let_def split: bind_splits if_splits prod.splits)

lemma add_entry_deref: "addrbook_add_entry t w p book = Some (added, book') \<Longrightarrow> deref_paddr book' = deref_paddr book"
  by (auto simp: addrbook_add_entry_def addrbook_add_entry_int_def Let_def dest!: save_deref split: bind_splits if_splits)


text \<open>The book may change as long as the addresses that peers hold stay there and connected.\<close>

lemma book_safe:
  assumes "\<And>q a. deref_paddr (b_book s) q = Some a \<Longrightarrow> pa_connected a \<Longrightarrow> \<exists>a'. deref_paddr book q = Some a' \<and> pa_connected a'"
  shows "safe s (s\<lparr>b_book := book\<rparr>)"
proof -
  have "holds (s\<lparr>b_book := book\<rparr>) = holds s" by (simp add: holds_def fun_eq_iff)
  then have "group_ok s \<Longrightarrow> group_ok (s\<lparr>b_book := book\<rparr>)"
    using assms unfolding group_ok_def by (auto 0 4)
  then show ?thesis by (auto simp: safe_def client_ok_def peers_ok_def)
qed

lemma handle_addr_safe: "peergroup_handle_addr env addrs s = Some s' \<Longrightarrow> safe s s'"
proof (induction addrs arbitrary: s)
  case (Cons addr addrs)
  define p where "p = length (ab_addrs (b_book s))"
  obtain added bk where bk: "addrbook_add_entry (fst (e_book_wr env)) (snd (e_book_wr env)) p (snd (alloc_paddr addr (b_book s))) = Some (added, bk)"
    and rest: "peergroup_handle_addr env addrs (s\<lparr>b_book := (if added then bk else set_paddr p None bk)\<rparr>) = Some s'"
    using Cons.prems unfolding p_def by (simp add: alloc_paddr_def split: bind_splits) (auto simp: p_def)
  have d: "deref_paddr bk q = Some a" if "deref_paddr (b_book s) q = Some a" for q a
    using that by (simp add: add_entry_deref [OF bk]) (auto simp: alloc_paddr_def deref_paddr_def nth_append split: if_splits)
  have "safe s (s\<lparr>b_book := (if added then bk else set_paddr p None bk)\<rparr>)"
  proof (rule book_safe)
    fix q a
    assume a: "deref_paddr (b_book s) q = Some a" "pa_connected a"
    then have "q \<noteq> p" using deref_paddr_length [OF a(1)] by (simp add: p_def)
    then show "\<exists>a'. deref_paddr (if added then bk else set_paddr p None bk) q = Some a' \<and> pa_connected a'"
      using d [OF a(1)] a(2) by (auto simp: deref_paddr_set)
  qed
  then show ?case using Cons.IH [OF rest] by (rule safe_trans)
qed simp

lemma timestamp_safe: "peer_update_timestamp env i s = Some s' \<Longrightarrow> safe s s'"
  unfolding peer_update_timestamp_def
  by (auto split: bind_splits intro!: book_safe simp: deref_paddr_set)

lemma handler_evolves:
  "peer_handle_getaddr env i s = Some (r, s') \<Longrightarrow> evolves s s'"
  "peer_handle_ping env i s = Some (r, s') \<Longrightarrow> evolves s s'"
  "peer_handle_pong i s = Some (r, s') \<Longrightarrow> evolves s s'"
  "peer_handle_notfound env i s = Some (r, s') \<Longrightarrow> evolves s s'"
  "peer_handle_alert i s = Some (r, s') \<Longrightarrow> evolves s s'"
  "peer_handle_getdata env i s = Some (r, s') \<Longrightarrow> evolves s s'"
  "peer_handle_getblocks i s = Some (r, s') \<Longrightarrow> evolves s s'"
  "peer_handle_tx env i s = Some (r, s') \<Longrightarrow> evolves s s'"
  "peer_handle_block env i s = Some (r, s') \<Longrightarrow> evolves s s'"
  "peer_handle_headers env i s = Some (r, s') \<Longrightarrow> evolves s s'"
  "peer_handle_inv env i s = Some (r, s') \<Longrightarrow> evolves s s'"
  "peer_handle_cfheaders env i s = Some (r, s') \<Longrightarrow> evolves s s'"
  "peer_handle_cfcheckpt env i s = Some (r, s') \<Longrightarrow> evolves s s'"
  unfolding peer_handle_getaddr_def peer_handle_ping_def peer_handle_pong_def peer_handle_notfound_def peer_handle_alert_def
    peer_handle_getdata_def peer_handle_getblocks_def peer_handle_tx_def peer_handle_block_def peer_handle_headers_def
    peer_handle_inv_def peer_handle_cfheaders_def peer_handle_cfcheckpt_def Let_def
  by (auto split: bind_splits if_splits dest!: recv_parse_evolves rand_addrs_evolves peer_send_msg_sends retry_block_fetch_evolves
      answer_getdata_evolves handle_block_evolves handle_headers_evolves request_runs_evolves handle_cfheaders_evolves
      handle_cfcheckpt_evolves simp: evolves_def sends_def)

lemma cfilter_safe:
  assumes "peer_handle_cfilter env i s = Some (r, s')"
  shows "safe s s'"
proof (rule ok_evolves_safe)
  assume ok: "chunks_ok (b_pg s)"
  obtain res cf s1 where s1: "recv_parse i btcmsg_parse_cfilter s = Some (res, cf, s1)"
    using assms by (auto simp: peer_handle_cfilter_def split: bind_splits)
  then have e: "evolves s s1" by (rule recv_parse_evolves)
  then have "chunks_ok (b_pg s1)" using ok by (simp add: evolves_def)
  then show "evolves s s'"
    using assms s1 e by (auto simp: peer_handle_cfilter_def split: if_splits dest!: handle_cfilter_evolves intro: evolves_trans)
qed

lemma addr_safe: "peer_handle_addr env i s = Some (r, s') \<Longrightarrow> safe s s'"
  unfolding peer_handle_addr_def
  by (auto split: bind_splits if_splits dest!: recv_parse_evolves handle_addr_safe evolves_safe intro: safe_trans)

lemma msg_safe: "peer_handle_msg env msg i s = Some (r, s') \<Longrightarrow> safe s s'"
  by (cases msg) (auto simp: peer_handle_msg_def intro: evolves_safe handler_evolves cfilter_safe addr_safe)

lemma payload_safe: "handle_payload env msg i s = Some (r, s') \<Longrightarrow> safe s s'"
  unfolding handle_payload_def
  by (auto split: bind_splits if_splits dest: version_safe verack_safe msg_safe)

lemma upd_peer_base_safe: "(\<And>p. fixed (f p) = fixed p) \<Longrightarrow> safe s (upd_peer i f s)"
  by (intro base_safe) simp_all

lemma client_ok_base:
  assumes b: "base s' = base s" and c: "chunks_ok (b_pg s') = chunks_ok (b_pg s)"
  shows "client_ok s' = client_ok s"
  using base_group_ok [OF b] base_peers_ok [OF b] base_peers_ok [OF b [symmetric]] c by (auto simp: client_ok_def)

lemma client_ok_upd_peer: "(\<And>p. fixed (f p) = fixed p) \<Longrightarrow> client_ok (upd_peer i f s) = client_ok s"
  by (rule client_ok_base) simp_all

lemma client_ok_frame [simp]:
  "client_ok (s\<lparr>b_config := c\<rparr>) = client_ok s" "client_ok (s\<lparr>b_pg := (b_pg s)\<lparr>pg_configNeedWrite := w\<rparr>\<rparr>) = client_ok s"
  "client_ok (s\<lparr>b_pg := (b_pg s)\<lparr>pg_peerStats := st\<rparr>\<rparr>) = client_ok s" "client_ok (s\<lparr>b_pg := (b_pg s)\<lparr>pg_lastProgressTS := ts\<rparr>\<rparr>) = client_ok s"
  "client_ok (s\<lparr>b_config := c, b_pg := (b_pg s)\<lparr>pg_configNeedWrite := w, pg_peerStats := st\<rparr>\<rparr>) = client_ok s"
  by (rule client_ok_base; simp)+

lemma finish_payload_safe: "finish_payload env i s = Some s' \<Longrightarrow> safe s s'"
  unfolding finish_payload_def
  by (auto split: bind_splits if_splits dest!: payload_safe timestamp_safe destroy_safe simp: safe_def client_ok_upd_peer fixed_def)

lemma msgheader_safe: "peer_handle_msgheader env i s = Some (r, s') \<Longrightarrow> safe s s'"
  unfolding peer_handle_msgheader_def
  by (auto split: bind_splits if_splits intro!: upd_peer_base_safe simp: fixed_def)

lemma receive_safe:
  assumes "peer_receive_cb env i bytes s = Some s'"
  shows "safe s s'"
proof -
  define s1 where "s1 = upd_peer i (\<lambda>p. p\<lparr>p_last_ts := e_now env\<rparr>) (upd_peer i (\<lambda>p. if p_recvMsgHdr p then p\<lparr>p_msgHdr := msghdr_overlay bytes\<rparr>
                             else p\<lparr>p_recvBuf := (p_recvBuf p)\<lparr>buf_base := Some bytes\<rparr>\<rparr>) s)"
  have "safe s s1"
    unfolding s1_def by (rule safe_trans [OF upd_peer_base_safe upd_peer_base_safe]) (simp_all add: fixed_def)
  then show ?thesis
    using assms unfolding peer_receive_cb_def Let_def s1_def [symmetric]
    by (auto split: bind_splits if_splits dest!: msgheader_safe finish_payload_safe destroy_safe simp: safe_def)
qed


section \<open>Timers\<close>

lemma stall_safe: "peergroup_check_download_stall env s = Some s' \<Longrightarrow> safe s s'"
  unfolding peergroup_check_download_stall_def
  by (auto split: option.splits if_splits dest!: destroy_safe simp: safe_def)

lemma periodic_safe: "peergroup_periodic_cb env s = Some s' \<Longrightarrow> safe s s'"
  unfolding peergroup_periodic_cb_def
  by (auto split: if_splits bind_splits dest!: refill_safe liveness_sends sends_evolves evolves_safe stall_safe simp: safe_def)

lemma pending_safe: "peergroup_pending_blocks_cb env s = Some s' \<Longrightarrow> safe s s'"
  unfolding peergroup_pending_blocks_cb_def
  by (auto split: if_splits bind_splits dest!: check_pending_blocks_evolves check_pending_chunks_evolves simp: evolves_def intro!: evolves_safe)

section \<open>Runs of the client\<close>

text \<open>What happens to the client while it runs: bytes arrive, a connection is made or fails, a timer expires, a
  transaction is sent, the program is asked to stop. Each event comes with its surroundings.\<close>

datatype event = Received nat "byte list" | Connected nat int | Failed nat int | Periodic | Pending_Blocks | Refill bool
  | Broadcast "buff option" u64 uint256 | Stop

fun client_step :: "('bn, 'b, 'pt, 'pk, 'db) env \<Rightarrow> event \<Rightarrow> ('pk, 'db) bitc \<Rightarrow> ('pk, 'db) bitc option" where
  "client_step env (Received i bytes) s = peer_receive_cb env i bytes s"
| "client_step env (Connected i err) s = peer_connect_cb env (peergroup_refill env) i err s"
| "client_step env (Failed i err) s = peer_error_cb env i err s"
| "client_step env Periodic s = peergroup_periodic_cb env s"
| "client_step env Pending_Blocks s = peergroup_pending_blocks_cb env s"
| "client_step env (Refill init) s = peergroup_refill env init s"
| "client_step env (Broadcast buf expiry hash) s = map_option snd (peergroup_new_tx_broadcast env buf expiry hash s)"
| "client_step env Stop s = Some (s\<lparr>b_state := BITC_STATE_EXITING\<rparr>)"

abbreviation run :: "(('bn, 'b, 'pt, 'pk, 'db) env \<times> event) list \<Rightarrow> ('pk, 'db) bitc \<Rightarrow> ('pk, 'db) bitc option" where
  "run \<equiv> run_steps (\<lambda>(env, e). client_step env e)"

lemma rank_exiting [simp]: "rank st \<le> 4"
  by (cases st) simp_all

lemma client_step_safe: "client_step env e s = Some s' \<Longrightarrow> safe s s'"
proof (cases e)
  case Stop
  assume "client_step env e s = Some s'"
  then have "s' = s\<lparr>b_state := BITC_STATE_EXITING\<rparr>" using Stop by simp
  then show ?thesis by (auto intro!: evolves_safe simp: evolves_def)
qed (auto simp: peer_error_cb_def intro: receive_safe connect_safe destroy_safe periodic_safe pending_safe refill_safe
    dest: new_broadcast_evolves evolves_safe)

interpretation client_runs: guarded_run client_ok "\<lambda>s s'. rank (b_state s) \<le> rank (b_state s')" "\<lambda>(env, e). client_step env e"
  by unfold_locales (auto dest!: client_step_safe simp: safe_def)

lemma run_safe: "run es s = Some s' \<Longrightarrow> safe s s'"
  using client_runs.run_law [of s es s'] by (simp add: safe_def)

lemma initial_ok:
  assumes "peergroup_init env cfg m n wr f1 f2 = Some (pg, cfg')" and "b_pg s = pg" and "b_peers s = []"
  shows "client_ok s"
proof -
  have "pg_peer_list pg = []" "pg_active pg = 0" "pg_cfSeg pg = []" "pg_cfDoneContig pg = 0"
    using assms(1) by (auto simp: peergroup_init_def Let_def split: bind_splits prod.splits)
  then show ?thesis
    using assms(2,3) by (simp add: client_ok_def group_ok_def peers_ok_def holds_def deref_peer_def chunks_ok_def)
qed


section \<open>Sample states\<close>

definition toy_env :: "(nat, nat, nat, nat, unit) env" where
  "toy_env = \<lparr>e_ssl = toy_ssl\<lparr>o_sha := toy_sha\<rparr>, e_ldb = \<lparr>ldb_put = \<lambda>_ _ _. None, ldb_entries = \<lambda>_. []\<rparr>, e_testnet = False,
     e_updateAndExit = False, e_syncAndExit = False, e_stopAfterHeight = 0, e_connectHost = None, e_now = 20000000,
     e_headers_wr = (False, 0), e_cfheaders_wr = \<lambda>_. ((False, 68), (False, 9)), e_stats_wr = ((False, 0), False),
     e_book_wr = (True, False, 0), e_config_wr = (True, True, \<lambda>_. (True, 0)), e_random = \<lambda>_. 0, e_connect = \<lambda>_. None,
     e_resolve = \<lambda>_. None\<rparr>"

definition toy_pg :: peergroup where
  "toy_pg = \<lparr>pg_peer_list = [], pg_downloadPeer = None, pg_peerSequence = 0,
       pg_lastFilteredBlockReq = 0, pg_configNeedWrite = False, pg_lastBlk = 0, pg_hash_broadcast = the hashtable_create,
       pg_numFetched = 0, pg_numToFetch = 0, pg_numHdrFetched = 0, pg_numHdrToFetch = 0, pg_heightTarget = 0, pg_active = 0,
       pg_maxActive = 5, pg_minActiveInit = 50, pg_startTS = 20000000, pg_firstConnectTS = 0, pg_lastProgressTS = 0,
       pg_cfStore = None, pg_peerStats = None, pg_cfScanFloor = - 1,
       pg_cfTipHeight = - 1, pg_cfVerified = 0, pg_cfStopRequested = False, pg_cfSeg = [], pg_cfDoneContig = 0,
       pg_cfPending = [], pg_cfhdrStartHeight = - 1, pg_cfhdrTipHeight = - 1, pg_cfhdrPrevHeader = 0,
       pg_cfcheckptExpected = None, pg_cfcheckptCount = 0, pg_cfcheckptPeers = 0, pg_cfcheckptAgreed = 0,
       pg_cfcheckptVerified = False, pg_cfhdrSyncStarted = False\<rparr>"

definition toy_bitc :: "blockstore \<Rightarrow> (nat, unit) bitc" where
  "toy_bitc bs = \<lparr>b_state = BITC_STATE_STARTING, b_stop = False, b_blockStore = bs, b_wallet = toy_wallet, b_txdb = empty_txdb,
     b_book = \<lparr>ab_addrs = [], ab_hash_addr = the hashtable_create, ab_file = [], ab_unsaved = 0\<rparr>,
     b_config = \<lparr>cfg_fileName = None, cfg_list = []\<rparr>, b_peers = [], b_pg = toy_pg, b_sent = [], b_nrandom = 0\<rparr>"

definition toy_book :: addrbook where
  "toy_book = \<lparr>ab_addrs = [Some \<lparr>pa_addr = btc_msg_address_zero\<lparr>ad_services := 1\<rparr>, pa_connected = False, pa_triedalready = False\<rparr>],
     ab_hash_addr = \<lparr>ht_numBuckets = 1, ht_count = 1, ht_numBits = 0, ht_buckets = [[\<lparr>he_clientData = 0, he_key = replicate 16 0\<rparr>]]\<rparr>,
     ab_file = [], ab_unsaved = 0\<rparr>"

lemma created:
  "hashtable_create = Some (the hashtable_create :: 'a hashtable)"
  "hashtable_destroy (the hashtable_create :: 'a hashtable) = Some ()"
proof -
  obtain ht :: "'a hashtable" where ht: "hashtable_create = Some ht" "ht_count ht = 0" using create_ok by blast
  then have "hashtable_destroy ht = Some ()"
    by (auto simp: hashtable_destroy_def hashtable_clear_def hashtable_clear_with_callback_def split: bind_splits)
  then show "hashtable_create = Some (the hashtable_create :: 'a hashtable)" "hashtable_destroy (the hashtable_create :: 'a hashtable) = Some ()"
    by (simp_all add: ht)
qed

lemma toy_start: "\<exists>pg cfg'. peergroup_init toy_env \<lparr>cfg_fileName = None, cfg_list = []\<rparr> 1 1 (False, 0) None None = Some (pg, cfg') \<and>
  pg_peer_list pg = [] \<and> pg_active pg = 0 \<and> pg_maxActive pg = 1 \<and> pg_minActiveInit pg = 1 \<and> pg_peerStats pg = None"
  unfolding peergroup_init_def cfheaderstore_init_def peerstats_init_def
  by (subst (1 2) created(1)) (simp add: created(2) config_getstring_def fmt_key_def config_get_def config_setstring_def Let_def)

definition toy_scan :: "blockstore \<Rightarrow> peergroup \<Rightarrow> (nat, unit) bitc" where
  "toy_scan bs pg = (toy_bitc bs)\<lparr>b_pg := pg, b_book := toy_book\<rparr>"

lemma refill_random_full: "\<not> pg_active (b_pg s) < m \<Longrightarrow> refill_random random add m n s = Some s"
  by (cases n) simp_all

lemma toy_run:
  assumes pg: "pg_active pg = 0" "pg_maxActive pg = 1" "pg_minActiveInit pg = 1" "pg_peerStats pg = None" "pg_peer_list pg = []"
  shows "\<exists>s'. run [(toy_env, Refill True)] (toy_scan bs pg) = Some s' \<and> pg_peer_list (b_pg s') = [0] \<and> b_state s' = BITC_STATE_STARTING"
proof -
  let ?add = "peergroup_add_peer toy_env (refill_depth (untried toy_book) toy_env)"
  let ?s = "toy_scan bs pg"
  have env: "e_connectHost toy_env = None" "e_connect toy_env p = None" for p by (simp_all add: toy_env_def)
  have s: "b_pg ?s = pg" "b_book ?s = toy_book" "b_peers ?s = []" "b_state ?s = BITC_STATE_STARTING"
    by (simp_all add: toy_scan_def toy_bitc_def)
  have c: "addrbook_get_count toy_book = 1" by (simp add: addrbook_get_count_def hashtable_getnumentries_def toy_book_def)
  have r: "addrbook_get_rand_addr k toy_book = Some (Some 0)" for k
    by (simp add: addrbook_get_rand_addr_def c Let_def) (simp add: toy_book_def hashtable_get_entry_idx_def)
  obtain a where a: "deref_paddr toy_book 0 = Some a" "\<not> pa_triedalready a" "\<not> pa_connected a"
    "ad_services (pa_addr a) AND BTC_SERVICE_NODE_NETWORK \<noteq> 0"
    by (simp add: toy_book_def deref_paddr_def BTC_SERVICE_NODE_NETWORK_def)
  obtain s1 where s1: "?add 0 (?s\<lparr>b_nrandom := b_nrandom ?s + 1\<rparr>) = Some s1" "pg_active (b_pg s1) = 1" "pg_peer_list (b_pg s1) = [0]"
    "b_state s1 = BITC_STATE_STARTING"
    using a pg by (simp add: peergroup_add_peer_def peer_add_def s env peergroup_queue_peerlist_def)
  have "refill_random (e_random toy_env) ?add 1 (Suc 1999) ?s = refill_random (e_random toy_env) ?add 1 1999 s1"
    using a pg s1(1) by (simp only: refill_random.simps s r Let_def) (simp add: s)
  also have "\<dots> = Some s1" by (rule refill_random_full) (simp add: s1)
  finally have "refill_random (e_random toy_env) ?add 1 2000 ?s = Some s1" by simp
  then have "run [(toy_env, Refill True)] ?s = Some s1"
    using pg by (simp add: peergroup_refill_def refill_step_def peerstats_get_best_def env s c)
  then show ?thesis using s1 by blast
qed

definition toy_peer :: peer where
  "toy_peer = (new_peer 0 0)\<lparr>p_connected := True, p_got_version := True, p_got_verack := True, p_services := 0x41,
     p_startingHeight := 2, p_protversion := 70016\<rparr>"

text \<open>A client with one connected peer.\<close>

definition toy_online :: "blockstore \<Rightarrow> (nat, unit) bitc" where
  "toy_online bs = (toy_bitc bs)\<lparr>b_state := BITC_STATE_UPDATE_TXDB, b_peers := [Some toy_peer], b_pg := toy_pg\<lparr>pg_peer_list := [0], pg_active := 1\<rparr>,
     b_book := set_paddr 0 (Some \<lparr>pa_addr = btc_msg_address_zero, pa_connected = True, pa_triedalready = True\<rparr>) toy_book\<rparr>"

lemma toy_online_ok: "client_ok (toy_online bs)"
proof -
  have "deref_peer (toy_online bs) j = (if j = 0 then Some toy_peer else None)" for j
    by (simp add: toy_online_def deref_peer_def)
  then show ?thesis
    by (simp add: client_ok_def group_ok_def peers_ok_def chunks_ok_def holds_def toy_peer_def new_peer_def accepted_def
        BTC_SERVICE_NODE_NETWORK_def BTC_PROTO_FILTERING_def) (simp add: toy_online_def toy_pg_def toy_book_def set_paddr_def deref_paddr_def)
qed



section \<open>What the invariants mean\<close>








text \<open>C4: in every run of the client the chunks of the scan stay the partition of the heights from the floor to the tip,
  the first \<open>cfDoneContig\<close> of them are done, at most 64 are out at a time and no peer has two, whatever the peers send;
  and the state of the synchronisation never goes back.\<close>

theorem scan_stays_partitioned:
  assumes "peergroup_init env cfg m n wr f1 f2 = Some (pg, cfg')" and "b_pg s = pg" and "b_peers s = []"
    and "run (es1 @ es2) s = Some s'"
  shows "\<exists>s1. run es1 s = Some s1 \<and> rank (b_state s1) \<le> rank (b_state s') \<and>
    (let pg = b_pg s'; segs = pg_cfSeg pg in
      (segs = [] \<or> map seg_range segs = map seg_range (make_chunks (pg_cfScanFloor pg) (pg_cfTipHeight pg))) \<and>
      (\<forall>k < pg_cfDoneContig pg. k < length segs \<and> sg_done (segs ! k)) \<and>
      length (filter live segs) \<le> 64 \<and> distinct (map sg_assignedPeer (filter live segs)))"
proof -
  have ok: "client_ok s" using assms(1-3) by (rule initial_ok)
  obtain s1 where s1: "run es1 s = Some s1" "run es2 s1 = Some s'"
    using assms(4) by (auto simp: run_steps_append split: bind_splits)
  then have "client_ok s1" "client_ok s'" "rank (b_state s1) \<le> rank (b_state s')"
    using ok by (auto dest!: run_safe simp: safe_def)
  then show ?thesis using s1(1) by (auto simp: client_ok_def chunks_ok_def Let_def list_all_length MAX_INFLIGHT_CHUNKS_def)
qed


text \<open>C16: in every run, from any state with the invariant, a peer counts as connected only after it has announced full blocks,
  a height and a protocol version that knows filters.\<close>

theorem connected_peers_accepted:
  assumes "client_ok s" and "run es s = Some s'" and "peer_is_connected s' i = Some True"
  shows "\<exists>p. deref_peer s' i = Some p \<and> p_services p AND BTC_SERVICE_NODE_NETWORK \<noteq> 0 \<and> p_startingHeight p \<noteq> 0 \<and>
    BTC_PROTO_FILTERING \<le> p_protversion p"
proof -
  have "client_ok s'" using assms(1) run_safe [OF assms(2)] by (simp add: safe_def)
  then show ?thesis
    using assms(3) by (auto simp: peer_is_connected_def client_ok_def peers_ok_def accepted_def split: bind_splits)
qed


section \<open>Examples\<close>

theorem scan_stays_partitioned_witness:
  "\<exists>bs pg cfg' s1 s2. toy_store bs \<and> peergroup_init toy_env \<lparr>cfg_fileName = None, cfg_list = []\<rparr> 1 1 (False, 0) None None = Some (pg, cfg') \<and>
     run [(toy_env, Refill True)] (toy_scan bs pg) = Some s1 \<and> run ([(toy_env, Refill True)] @ [(toy_env, Stop)]) (toy_scan bs pg) = Some s2 \<and>
     rank (b_state s1) \<le> rank (b_state s2)"
proof -
  obtain bs where bs: "toy_store bs" using toy_exists by blast
  obtain pg cfg' where pg: "peergroup_init toy_env \<lparr>cfg_fileName = None, cfg_list = []\<rparr> 1 1 (False, 0) None None = Some (pg, cfg')"
    "pg_peer_list pg = []" "pg_active pg = 0" "pg_maxActive pg = 1" "pg_minActiveInit pg = 1" "pg_peerStats pg = None"
    using toy_start by blast
  obtain s1 where s1: "run [(toy_env, Refill True)] (toy_scan bs pg) = Some s1" using toy_run pg by blast
  then obtain s2 where s2: "run ([(toy_env, Refill True)] @ [(toy_env, Stop)]) (toy_scan bs pg) = Some s2" by (auto split: bind_splits)
  from scan_stays_partitioned [OF pg(1) _ _ this] bs pg(1) s1 s2 show ?thesis by (auto simp: toy_scan_def toy_bitc_def)
qed



theorem connected_peers_accepted_witness:
  "\<exists>bs s'. toy_store bs \<and> run [(toy_env, Pending_Blocks), (toy_env, Stop)] (toy_online bs) = Some s' \<and>
     peer_is_connected s' 0 = Some True \<and> (\<exists>p. deref_peer s' 0 = Some p \<and> p_services p AND BTC_SERVICE_NODE_NETWORK \<noteq> 0)"
proof -
  obtain bs where bs: "toy_store bs" using toy_exists by blast
  have "\<exists>s'. run [(toy_env, Pending_Blocks), (toy_env, Stop)] (toy_online bs) = Some s' \<and> peer_is_connected s' 0 = Some True"
    by (simp add: peergroup_pending_blocks_cb_def peergroup_check_pending_blocks_def peergroup_check_pending_chunks_def
        toy_online_def toy_pg_def bitc_exiting_def peer_is_connected_def deref_peer_def toy_peer_def)
  then obtain s' where s': "run [(toy_env, Pending_Blocks), (toy_env, Stop)] (toy_online bs) = Some s'" "peer_is_connected s' 0 = Some True" by blast
  from connected_peers_accepted [OF toy_online_ok s'] bs s' show ?thesis by blast
qed


end
