(* ===== verification/Behaviour.thy ===== *)
theory Behaviour
  imports Client
begin

text \<open>
  What the client does as a whole: filling the group of peers ends, and what the end of the synchronisation means.
\<close>

section \<open>Filling the group ends\<close>

lemma filter_update_le:
  assumes "k < length xs" and "P y \<Longrightarrow> P (xs ! k)"
  shows "length (filter P (xs[k := y])) \<le> length (filter P xs)"
    and "P (xs ! k) \<Longrightarrow> \<not> P y \<Longrightarrow> length (filter P (xs[k := y])) < length (filter P xs)"
proof -
  obtain as bs where xs: "xs = as @ xs ! k # bs" and u: "xs[k := y] = as @ y # bs" using assms(1) by (rule list_update_split)
  have l: "length (filter P xs) = length (filter P as) + (if P (xs ! k) then 1 else 0) + length (filter P bs)"
    by (subst xs) simp
  show "length (filter P (xs[k := y])) \<le> length (filter P xs)" unfolding l u using assms(2) by simp
  show "P (xs ! k) \<Longrightarrow> \<not> P y \<Longrightarrow> length (filter P (xs[k := y])) < length (filter P xs)" unfolding l u by simp
qed

lemma untried_set:
  assumes "deref_paddr book p = Some a"
  shows "(case x of None \<Rightarrow> True | Some b \<Rightarrow> pa_triedalready a \<longrightarrow> pa_triedalready b) \<Longrightarrow> untried (set_paddr p x book) \<le> untried book"
    and "\<not> pa_triedalready a \<Longrightarrow> (case x of None \<Rightarrow> True | Some b \<Rightarrow> pa_triedalready b) \<Longrightarrow> untried (set_paddr p x book) < untried book"
proof -
  have p: "p < length (ab_addrs book)" "ab_addrs book ! p = Some a" using assms by (auto simp: deref_paddr_def split: if_splits)
  show "(case x of None \<Rightarrow> True | Some b \<Rightarrow> pa_triedalready a \<longrightarrow> pa_triedalready b) \<Longrightarrow> untried (set_paddr p x book) \<le> untried book"
    unfolding untried_def set_paddr_def using p by (simp, intro filter_update_le(1)) (auto split: option.splits)
  show "\<not> pa_triedalready a \<Longrightarrow> (case x of None \<Rightarrow> True | Some b \<Rightarrow> pa_triedalready b) \<Longrightarrow> untried (set_paddr p x book) < untried book"
    unfolding untried_def set_paddr_def using p by (simp, intro filter_update_le(2)) (auto split: option.splits)
qed

text \<open>\<open>peer_destroy\<close> calls \<open>peergroup_refill\<close> at most once, at its end.\<close>

lemma destroy_factor:
  "(\<forall>refill. peer_destroy env refill i err s = Some s) \<or> (\<forall>refill. peer_destroy env refill i err s = None) \<or>
   (\<exists>s4. untried (b_book s4) \<le> untried (b_book s) \<and> (\<forall>refill. peer_destroy env refill i err s = peergroup_notify_destroy refill s4))"
proof -
  consider "deref_peer s i = None" | p where "deref_peer s i = Some p" "deref_paddr (b_book s) (p_paddr p) = None"
    | p a where "deref_peer s i = Some p" "deref_paddr (b_book s) (p_paddr p) = Some a" by (cases "deref_peer s i") auto
  then show ?thesis
  proof cases
    case (3 p a)
    define s1 where "s1 = upd_pg (\<lambda>pg. if pg_downloadPeer pg = Some i then pg\<lparr>pg_downloadPeer := None\<rparr> else pg)
      (upd_peer i (\<lambda>p. p\<lparr>p_connected := False\<rparr>) (s\<lparr>b_book := set_paddr (p_paddr p) (Some (a\<lparr>pa_connected := False\<rparr>)) (b_book s)\<rparr>))"
    have d: "peer_destroy env refill i err s = (if \<not> pa_connected a then Some s else do {
        s \<leftarrow> peergroup_requeue_peer_chunks env i s1;
        s \<leftarrow> peergroup_notify_peer_gone env i s;
        s \<leftarrow> (if peer_remove_addr err
             then do {
               book \<leftarrow> addrbook_remove_entry (p_paddr p) (b_book s);
               Some (s\<lparr>b_book := set_paddr (p_paddr p) None book\<rparr>)
             }
             else Some s);
        peergroup_notify_destroy refill ((upd_pg (peergroup_dequeue_peerlist i) s)\<lparr>b_peers := (b_peers s)[i := None]\<rparr>)
      })" for refill
      using 3 by (simp add: peer_destroy_def s1_def Let_def)
    have u1: "untried (b_book s1) \<le> untried (b_book s)"
      using untried_set(1) [OF 3(2), of "Some (a\<lparr>pa_connected := False\<rparr>)"] by (simp add: s1_def upd_peer_def)
    have p1: "\<exists>a. deref_paddr (b_book s1) (p_paddr p) = Some a"
      using 3(2) deref_paddr_length [OF 3(2)] by (simp add: s1_def upd_peer_def deref_paddr_set)
    show ?thesis
    proof (cases "peergroup_requeue_peer_chunks env i s1 \<bind> peergroup_notify_peer_gone env i")
      case None
      then show ?thesis by (cases "pa_connected a") (auto simp: d bind_eq_None_conv split: bind_splits)
    next
      case (Some s3)
      then obtain s2 where s2: "peergroup_requeue_peer_chunks env i s1 = Some s2" "peergroup_notify_peer_gone env i s2 = Some s3"
        by (auto split: bind_splits)
      then have e: "b_book s3 = b_book s1"
        by (auto dest!: requeue_peer_chunks_evolves notify_peer_gone_evolves simp: evolves_def base_def)
      then obtain a3 where a3: "deref_paddr (b_book s3) (p_paddr p) = Some a3" using p1 by auto
      let ?fin = "\<lambda>s3. (upd_pg (peergroup_dequeue_peerlist i) s3)\<lparr>b_peers := (b_peers s3)[i := None]\<rparr>"
      consider "\<not> pa_connected a" | "pa_connected a" "\<not> peer_remove_addr err"
        | "pa_connected a" "peer_remove_addr err" "addrbook_remove_entry (p_paddr p) (b_book s3) = None"
        | bk where "pa_connected a" "peer_remove_addr err" "addrbook_remove_entry (p_paddr p) (b_book s3) = Some bk" by auto
      then show ?thesis
      proof cases
        case 2
        then have "\<forall>refill. peer_destroy env refill i err s = peergroup_notify_destroy refill (?fin s3)" by (simp add: d s2)
        moreover have "untried (b_book (?fin s3)) \<le> untried (b_book s)" using e u1 by simp
        ultimately show ?thesis by blast
      next
        case (4 bk)
        let ?s = "s3\<lparr>b_book := set_paddr (p_paddr p) None bk\<rparr>"
        have "\<forall>refill. peer_destroy env refill i err s = peergroup_notify_destroy refill (?fin ?s)" using 4 by (simp add: d s2)
        moreover have "untried (b_book (?fin ?s)) \<le> untried (b_book s)"
          using untried_set(1) [of bk "p_paddr p" a3 None] remove_entry_deref [OF 4(3)] a3 e u1 by (simp add: untried_def)
        ultimately show ?thesis by blast
      qed (simp_all add: d s2)
    qed
  qed (simp_all add: peer_destroy_def)
qed


text \<open>The calls of \<open>refill\<close> from a state are on states with no more addresses to try.\<close>

definition agree :: "nat \<Rightarrow> (bool \<Rightarrow> ('pk, 'db) bitc \<Rightarrow> ('pk, 'db) bitc option) \<Rightarrow> (bool \<Rightarrow> ('pk, 'db) bitc \<Rightarrow> ('pk, 'db) bitc option) \<Rightarrow> bool" where
  "agree u f g \<longleftrightarrow> (\<forall>init t. untried (b_book t) \<le> u \<longrightarrow> f init t = g init t \<and> (\<forall>t'. g init t = Some t' \<longrightarrow> untried (b_book t') \<le> untried (b_book t)))"

lemma connect_agree:
  assumes "agree u f g" and "untried (b_book s) \<le> u"
  shows "peer_connect_cb env f i err s = peer_connect_cb env g i err s \<and>
    (\<forall>s'. peer_connect_cb env g i err s = Some s' \<longrightarrow> untried (b_book s') \<le> untried (b_book s))"
proof (cases "err = 0")
  case True
  have "b_book s' = b_book s" if "peer_send_msg i BTC_MSG_VERSION (set_sendBuf i b (upd_peer i (\<lambda>p. p\<lparr>p_connected := True, p_recvMsgHdr := True\<rparr>) s)) = Some (r, s')" for b r s'
    using peer_send_msg_sends [OF that] by (simp add: sends_def base_def) (simp add: set_sendBuf_def upd_peer_def)
  then show ?thesis using True by (auto simp: peer_connect_cb_def Let_def split: bind_splits)
next
  case False
  have "peer_destroy env f i err s = peer_destroy env g i err s \<and>
      (\<forall>s'. peer_destroy env g i err s = Some s' \<longrightarrow> untried (b_book s') \<le> untried (b_book s))"
    using destroy_factor [of env i err s]
  proof (elim disjE exE conjE)
    fix s4
    assume u: "untried (b_book s4) \<le> untried (b_book s)"
      and d: "\<forall>refill. peer_destroy env refill i err s = peergroup_notify_destroy refill s4"
    have "untried (b_book s4) \<le> u" using u assms(2) by simp
    then have "f False s4 = g False s4" "\<forall>t'. g False s4 = Some t' \<longrightarrow> untried (b_book t') \<le> untried (b_book s4)"
      using assms(1) unfolding agree_def by blast+
    then show ?thesis using u by (auto simp: d peergroup_notify_destroy_def)
  qed simp_all
  then show ?thesis using False by (auto simp: peer_connect_cb_def split: bind_splits)
qed

lemma add_peer_agree:
  assumes "agree u f g" and "untried (b_book s) \<le> Suc u" and "deref_paddr (b_book s) q = Some a" and "\<not> pa_triedalready a"
  shows "peergroup_add_peer env f q s = peergroup_add_peer env g q s \<and>
    (\<forall>s'. peergroup_add_peer env g q s = Some s' \<longrightarrow> untried (b_book s') \<le> untried (b_book s))"
proof -
  define s0 where "s0 = upd_pg (\<lambda>pg. pg\<lparr>pg_active := pg_active pg + 1\<rparr>) s"
  define i where "i = length (b_peers s0)"
  define s1 where "s1 = upd_pg (peergroup_queue_peerlist i) (s0\<lparr>
    b_book := set_paddr q (Some (a\<lparr>pa_connected := True, pa_triedalready := True\<rparr>)) (b_book s0),
    b_peers := b_peers s0 @ [Some (new_peer (e_now env) q)]\<rparr>)"
  have a0: "deref_paddr (b_book s0) q = Some a" using assms(3) by (simp add: s0_def)
  have "untried (b_book s1) < untried (b_book s)"
    using untried_set(2) [OF assms(3,4)] by (simp add: s1_def s0_def)
  then have u: "untried (b_book s1) \<le> u" "untried (b_book s1) \<le> untried (b_book s)" using assms(2) by simp_all
  have eq: "peergroup_add_peer env h q s = (if pa_connected a then None else do {
      s \<leftarrow> (case e_connect env q of None \<Rightarrow> Some s1 | Some err \<Rightarrow> peer_connect_cb env h i err s1);
      Some (upd_pg (\<lambda>pg. pg\<lparr>pg_peerSequence := pg_peerSequence pg + 1\<rparr>) s) })" for h
    unfolding peergroup_add_peer_def peer_add_def Let_def s0_def [symmetric] a0 i_def [symmetric] s1_def by simp
  show ?thesis
    using connect_agree [OF assms(1) u(1), of env i] u(2) unfolding eq
    by (auto split: option.splits bind_splits) (metis le_trans)+
qed


text \<open>The loops of \<open>peergroup_refill\<close> with two ways to add a peer that agree on the states that occur.\<close>

definition add_agree :: "nat \<Rightarrow> (nat \<Rightarrow> ('pk, 'db) bitc \<Rightarrow> ('pk, 'db) bitc option) \<Rightarrow> (nat \<Rightarrow> ('pk, 'db) bitc \<Rightarrow> ('pk, 'db) bitc option) \<Rightarrow> bool" where
  "add_agree v f g \<longleftrightarrow> (\<forall>p a t. untried (b_book t) \<le> v \<and> deref_paddr (b_book t) p = Some a \<and> \<not> pa_triedalready a \<longrightarrow>
     f p t = g p t \<and> (\<forall>t'. g p t = Some t' \<longrightarrow> untried (b_book t') \<le> untried (b_book t)))"

lemma refill_best_agree:
  assumes "add_agree v f g" and "untried (b_book s) \<le> v"
  shows "refill_best f m es s = refill_best g m es s \<and>
    (\<forall>s'. refill_best g m es s = Some s' \<longrightarrow> untried (b_book s') \<le> untried (b_book s))"
  using assms(2)
proof (induction es arbitrary: s)
  case (Cons e es)
  show ?case
  proof (cases "\<exists>p a. pg_active (b_pg s) < m \<and> addrbook_get_by_ip (pe_ip e) (b_book s) = Some (Some p) \<and>
      deref_paddr (b_book s) p = Some a \<and> \<not> pa_triedalready a \<and> \<not> pa_connected a")
    case True
    then obtain p a where p: "pg_active (b_pg s) < m" "addrbook_get_by_ip (pe_ip e) (b_book s) = Some (Some p)"
      "deref_paddr (b_book s) p = Some a" "\<not> pa_triedalready a" "\<not> pa_connected a" by blast
    then have add: "f p s = g p s" "\<And>t'. g p s = Some t' \<Longrightarrow> untried (b_book t') \<le> untried (b_book s)"
      using assms(1) Cons.prems unfolding add_agree_def by blast+
    show ?thesis
    proof (cases "g p s")
      case (Some t)
      then have "untried (b_book t) \<le> untried (b_book s)" by (rule add)
      moreover from this have "untried (b_book t) \<le> v" using Cons.prems by simp
      note Cons.IH [OF this]
      ultimately show ?thesis using p Some by (auto simp: add(1))
    qed (use p in \<open>simp add: add(1)\<close>)
  next
    case False
    then show ?thesis
      using Cons.IH [OF Cons.prems] by (auto split: option.splits bind_splits)
  qed
qed simp

lemma refill_random_agree:
  assumes "add_agree v f g" and "untried (b_book s) \<le> v"
  shows "refill_random random f m n s = refill_random random g m n s \<and>
    (\<forall>s'. refill_random random g m n s = Some s' \<longrightarrow> untried (b_book s') \<le> untried (b_book s))"
  using assms(2)
proof (induction n arbitrary: s)
  case (Suc n)
  let ?s = "s\<lparr>b_nrandom := b_nrandom s + 1\<rparr>"
  show ?case
  proof (cases "\<exists>p a. pg_active (b_pg s) < m \<and> addrbook_get_rand_addr (random (b_nrandom s)) (b_book s) = Some (Some p) \<and>
      deref_paddr (b_book s) p = Some a \<and> \<not> pa_triedalready a \<and> ad_services (pa_addr a) AND BTC_SERVICE_NODE_NETWORK \<noteq> 0 \<and> \<not> pa_connected a")
    case True
    then obtain p a where p: "pg_active (b_pg s) < m" "addrbook_get_rand_addr (random (b_nrandom s)) (b_book s) = Some (Some p)"
      "deref_paddr (b_book s) p = Some a" "\<not> pa_triedalready a" "ad_services (pa_addr a) AND BTC_SERVICE_NODE_NETWORK \<noteq> 0"
      "\<not> pa_connected a" by blast
    have "untried (b_book ?s) \<le> v" "deref_paddr (b_book ?s) p = Some a" using Suc.prems p by simp_all
    then have add: "f p ?s = g p ?s" "\<And>t'. g p ?s = Some t' \<Longrightarrow> untried (b_book t') \<le> untried (b_book ?s)"
      using assms(1) p(4) unfolding add_agree_def by blast+
    show ?thesis
    proof (cases "g p ?s")
      case (Some t)
      then have "untried (b_book t) \<le> untried (b_book s)" using add(2) by fastforce
      moreover from this have "untried (b_book t) \<le> v" using Suc.prems by simp
      note Suc.IH [OF this]
      ultimately show ?thesis using p Some by (auto simp: add(1) [simplified])
    qed (use p in \<open>simp add: add(1) [simplified]\<close>)
  next
    case False
    have "untried (b_book ?s) \<le> v" using Suc.prems by simp
    from Suc.IH [OF this] False show ?thesis
      by (auto simp: Let_def split: option.splits bind_splits)
  qed
qed simp

lemma refill_step_agree:
  assumes "add_agree v f g" and "untried (b_book s) \<le> v"
  shows "refill_step env f init s = refill_step env g init s \<and>
    (\<forall>s'. refill_step env g init s = Some s' \<longrightarrow> untried (b_book s') \<le> untried (b_book s))"
proof -
  have "refill_best f m es s \<bind> refill_random r f m n = refill_best g m es s \<bind> refill_random r g m n \<and>
    (\<forall>s'. refill_best g m es s \<bind> refill_random r g m n = Some s' \<longrightarrow> untried (b_book s') \<le> untried (b_book s))" for m es r n
  proof (cases "refill_best g m es s")
    case (Some t)
    then have t: "refill_best f m es s = Some t" "untried (b_book t) \<le> untried (b_book s)"
      using refill_best_agree [OF assms] by auto
    then have "untried (b_book t) \<le> v" using assms(2) by simp
    from refill_random_agree [OF assms(1) this] show ?thesis using t Some by simp (meson le_trans)
  qed (use refill_best_agree [OF assms] in auto)
  then show ?thesis unfolding refill_step_def Let_def by (auto split: bind_splits)
qed

text \<open>One level of \<open>peergroup_refill\<close>, with \<open>rec\<close> for the calls of it from inside.\<close>

definition refill_level :: "('bn, 'b, 'pt, 'pk, 'db) env \<Rightarrow> (bool \<Rightarrow> ('pk, 'db) bitc \<Rightarrow> ('pk, 'db) bitc option) \<Rightarrow>
    bool \<Rightarrow> ('pk, 'db) bitc \<Rightarrow> ('pk, 'db) bitc option" where
  "refill_level env rec = refill_step env (peergroup_add_peer env rec)"

lemma refill_depth_level: "refill_depth n env = (refill_level env ^^ n) (\<lambda>_ _. None)"
proof (induction n)
  case (Suc n)
  have "refill_depth (Suc n) env = refill_level env (refill_depth n env)" by (intro ext) (simp add: refill_level_def)
  then show ?case using Suc by simp
qed (simp add: fun_eq_iff)

lemma refill_level_agree: "v < n \<Longrightarrow> v < m \<Longrightarrow> agree v ((refill_level env ^^ n) f) ((refill_level env ^^ m) g)"
proof (induction v arbitrary: n m)
  case 0
  then obtain n' m' where n: "n = Suc n'" "m = Suc m'" by (meson gr0_implies_Suc)
  have "add_agree 0 (peergroup_add_peer env ((refill_level env ^^ n') f)) (peergroup_add_peer env ((refill_level env ^^ m') g))"
    unfolding add_agree_def using untried_set(2) [of _ _ _ None] by fastforce
  from refill_step_agree [OF this] show ?case unfolding agree_def n funpow.simps comp_def refill_level_def by blast
next
  case (Suc v)
  then obtain n' m' where n: "n = Suc n'" "m = Suc m'" "v < n'" "v < m'" by (metis Suc_lessE)
  have "add_agree (Suc v) (peergroup_add_peer env ((refill_level env ^^ n') f)) (peergroup_add_peer env ((refill_level env ^^ m') g))"
    unfolding add_agree_def using add_peer_agree [OF Suc.IH [OF n(3,4)]] by blast
  from refill_step_agree [OF this] show ?case unfolding agree_def n funpow.simps comp_def refill_level_def by blast
qed

text \<open>C15: filling the group of peers ends: however many connections fail at once and fill the group again from inside,
  the calls are nested no deeper than the number of addresses that were not tried, so what a call below that depth
  would do does not matter.\<close>

theorem refill_terminates:
  assumes "untried (b_book s) < n"
  shows "(refill_level env ^^ n) rec init s = peergroup_refill env init s"
  using refill_level_agree [OF assms, of "untried (b_book s) + 1" env rec "\<lambda>_ _. None"]
  by (simp add: agree_def peergroup_refill_def refill_depth_level)

theorem refill_terminates_witness:
  "\<forall>bs rec. (refill_level toy_env ^^ 2) rec True (toy_scan bs toy_pg) = peergroup_refill toy_env True (toy_scan bs toy_pg)"
proof -
  have "untried (b_book (toy_scan bs toy_pg)) < 2" for bs by (simp add: toy_scan_def untried_def toy_book_def)
  from refill_terminates [OF this] show ?thesis by blast
qed

section \<open>When the synchronisation is complete\<close>



end
