(* ===== verification/Spec2Isabelle.thy ===== *)
theory Spec2Isabelle
  imports Circlist EventQueues Behaviour
begin

text \<open>
  A verification library for bitc, a bitcoin client that keeps the headers of all blocks and finds its own
  transactions with compact block filters (BIP 157 and 158).

  \<^bold>\<open>The program.\<close> An event loop (\<^verbatim>\<open>src/lib/poll\<close>) calls back when a socket can be used or a timer expires. A group of
  peers (\<^verbatim>\<open>src/core/peergroup.c\<close>) is kept full from an address book; each peer (\<^verbatim>\<open>src/core/peer.c\<close>) does the
  handshake, then hands the messages it receives to the group. The group first loads the chain of headers into the
  block store, then checks the filter headers against checkpoints of several peers, cuts the range that is left to
  scan into chunks, asks each peer for the filters of one chunk at a time, and fetches the blocks whose filter
  matches a script of the wallet. Transactions go to the transaction database, which keeps the coins of the wallet
  and crafts payments; the wallet signs them. Settings, keys, headers, filter headers, addresses and the
  history of the peers are files.

  \<^bold>\<open>How the code is modelled.\<close> A C function is a function with the state it uses as an argument and a result. \<^const>\<open>None\<close> of the
  outermost option stands for the end of the program: a failing \<open>ASSERT\<close>, \<open>NOT_REACHED\<close>, \<open>Panic\<close>, or an access outside
  of an object. So \<open>f x = Some y\<close> says that the call is safe and returns \<open>y\<close>. Error codes are values inside. Integers have the
  width of the source (\<open>u8\<close> to \<open>u64\<close> wrap around, \<open>int\<close> and \<open>size_t\<close> are cut where the source cuts them); memory is a
  list of bytes, an object that is shared lives in a heap and its pointer is an index. Structures are records, in the order
  of the source.

  \<^bold>\<open>Theories.\<close>
  \<^item> \<open>Prelude\<close>: integers, assertions, memory, files, and the laws of runs and of refinements that several components
    use; \<open>Circlist\<close>: the lists of \<^verbatim>\<open>src/core/circlist.h\<close> on an explicit heap, refining lists; \<open>Hashtable\<close>:
    \<^verbatim>\<open>src/lib/hashtable\<close> with MurmurHash3 and resizing, refining maps. The locale \<open>key_store\<close> is its contract, and its interpretation
    \<open>hts\<close> is what the clients of the table use.
  \<^item> \<open>Buff\<close>, \<open>BitcDefs\<close>, \<open>Serialize\<close>, \<open>Hash\<close>, \<open>Messages\<close>: the wire format of \<^verbatim>\<open>src/core/buff.h\<close>, \<^verbatim>\<open>bitc-defs.h\<close>, \<^verbatim>\<open>serialize.c\<close>, \<^verbatim>\<open>hash.c\<close>,
    \<^verbatim>\<open>ripemd160.c\<close> and \<^verbatim>\<open>btc-message.c\<close>. The lemmas \<open>\<dots>_safe\<close> say that a reader stays inside of any buffer, the lemmas
    \<open>\<dots>_enc\<close> and \<open>\<dots>_appends\<close> that readers and writers agree with the encodings \<open>enc_\<dots>\<close>; the locale \<open>codec\<close> is the contract
    of a writer and its reader, interpreted for every integer and structure.
  \<^item> \<open>Gcs\<close>: the filters of \<^verbatim>\<open>src/core/gcs.c\<close>: the test ends and answers as the set of hashed values that the filter encodes.
  \<^item> \<open>BlockStore\<close>: the tree of headers of \<^verbatim>\<open>src/core/block-store.c\<close>: \<open>bs_ok\<close> is the invariant (the best chain is linked, in
    the table and of the right heights; orphans are apart), kept by every header; a longer branch becomes the best chain; the file reloads.
  \<^item> \<open>Base58\<close>, \<open>Crypt\<close>, \<open>Key\<close>, \<open>Script\<close>: addresses, encryption, keys and scripts (\<^verbatim>\<open>base58.c\<close>, \<^verbatim>\<open>crypt.c\<close>, \<^verbatim>\<open>key.c\<close>, \<^verbatim>\<open>script.c\<close>): round trips, the
    parser against a list of operations, and what a signature covers.
  \<^item> \<open>Config\<close>, \<open>Wallet\<close>, \<open>Txdb\<close>: \<^verbatim>\<open>src/lib/config\<close>, \<^verbatim>\<open>wallet.c\<close>, \<^verbatim>\<open>txdb.c\<close>: settings reload; the filter scripts cover every key;
    processing a transaction refines spending and receiving coins (\<open>coins\<close>); a payment spends own unspent coins and balances.
  \<^item> \<open>CfheaderStore\<close>, \<open>Peerstats\<close>, \<open>Addrbook\<close>: the other files, \<^verbatim>\<open>cfheader-store.c\<close>, \<^verbatim>\<open>peerstats.c\<close>, \<^verbatim>\<open>addrbook.c\<close>: what is
    written is read back, also after a write that was cut short; the choice of the best peers.
  \<^item> \<open>Bitc\<close>, \<open>Peergroup\<close>, \<open>Peer\<close>: the state of the client (\<^verbatim>\<open>bitc.h\<close>), every function of \<^verbatim>\<open>peergroup.c\<close> and \<^verbatim>\<open>peer.c\<close> that changes
    it, in their order in the source. \<open>Scan\<close> proves that each of them keeps the partition of the scanned range
    (\<open>chunks_ok\<close>, \<open>evolves\<close>); \<open>Client\<close> makes a transition system of the events of the event loop (bytes arrive, connections
    succeed or fail, timers, transactions to send) and lifts the invariants to all its runs; \<open>Behaviour\<close> states what the end of the
    synchronisation means and that filling the group ends.
  \<^item> \<open>Poll\<close>, \<open>EventLoop\<close>, \<open>EventQueues\<close>: the event loop of \<^verbatim>\<open>src/lib/poll/poll.c\<close>, its invariant \<open>poll_ok\<close> and its refinement
    of a schedule of timers and watched descriptors.

  \<^bold>\<open>Parameters.\<close> Code that is not in the repository is an argument: SHA-256, HMAC, AES, elliptic curves and big numbers of
  OpenSSL (\<open>openssl\<close>, \<open>bn_ops\<close>, \<open>ec_ops\<close>, with their documented laws as \<open>bn_laws\<close>, \<open>ec_laws\<close>, \<open>aes_laws\<close>), LevelDB (\<open>leveldb\<close>), \<open>qsort\<close>, the
  clock, \<open>random\<close>, the results of file operations, of \<open>connect\<close> and of name resolution. The record \<open>env\<close> of \<open>Bitc\<close> collects
  them for the client, and \<open>poll_env\<close> of \<open>Poll\<close> those of the event loop. Each property with such a hypothesis has a witness with
  concrete functions.

  \<^bold>\<open>Bounds and fuel.\<close> Loops whose end depends on data are \<open>function\<close>s with a measure, or \<open>partial_function (option)\<close>, where not
  returning is no result. The nested calls \<open>peergroup_refill\<close>, \<open>peergroup_add_peer\<close>, \<open>peer_connect_cb\<close>, \<open>peer_destroy\<close> have the
  depth as an argument: one more than the number of addresses not yet tried is enough (theorem \<open>refill_terminates\<close>, which
  also says that a larger depth changes nothing). The loops of \<open>peergroup_refill\<close> make 2000 tries as in the source, at most 64 chunks
  are out, and destroying all peers takes as many steps as the list is long.

  \<^bold>\<open>Not modelled.\<close> The user interface (\<^verbatim>\<open>src/apps/cli\<close>), the exchange rates (\<^verbatim>\<open>src/lib/fx\<close>), the country of an address (\<^verbatim>\<open>src/lib/ip_info\<close>)
  and \<^verbatim>\<open>rpc.c\<close> draw, print or call external services and keep no state of the protocol; the thread pool (\<^verbatim>\<open>src/lib/poolworker\<close>)
  and the locks serve them and one call that verifies signatures. Sockets (\<^verbatim>\<open>src/lib/netasync\<close>) are the boundary of the client's model: a
  connection succeeds, fails or ends, delivers the bytes that were asked for, and takes messages. Logging, message counters and
  releasing memory are left out, except where the code asserts something on the way.
\<close>

end
